(* ===== verification/Prelude.thy ===== *)
theory Prelude
  imports Main "HOL-Library.AList" "HOL-Library.Sublist"
begin

section \<open>Shared types, collections and helper lemmas\<close>

text \<open>
  What every component of the development uses: Python strings as lists of code points,
  the string operations of the standard library that the sources call, insertion-ordered
  dictionaries, the result type of code that may raise, and the generic facts about them.
  The collection \<open>pystr_simps\<close> holds the facts that evaluate string operations,
  \<open>dict_simps\<close> the facts about dictionaries; both are meant for \<open>simp add:\<close>.
\<close>

named_theorems pystr_simps \<open>evaluation and length of Python string operations\<close>
named_theorems dict_simps \<open>lookup, keys and distinctness of insertion-ordered dictionaries\<close>

subsection \<open>Strings\<close>

text \<open>
  A Python \<open>str\<close> is a sequence of code points (lone surrogates included), so its length and
  its slices count code points. A string literal of the source is written \<open>lit ''...''\<close>.
\<close>

type_synonym pystr = "nat list"

definition lit :: "string \<Rightarrow> pystr" where
  "lit s = map of_char s"

abbreviation NL :: nat where "NL \<equiv> 10"
abbreviation CR :: nat where "CR \<equiv> 13"
abbreviation ESC :: nat where "ESC \<equiv> 27"

lemma lit_Nil [simp, pystr_simps]: "lit [] = []"
  by (simp add: lit_def)

lemma lit_Cons [pystr_simps]: "lit (c # cs) = of_char c # lit cs"
  by (simp add: lit_def)

lemma lit_append [pystr_simps]: "lit (s @ t) = lit s @ lit t"
  by (simp add: lit_def)

lemma length_lit [simp, pystr_simps]: "length (lit s) = length s"
  by (simp add: lit_def)

lemma lit_eq_Nil [simp]: "lit s = [] \<longleftrightarrow> s = []"
  by (simp add: lit_def)

text \<open>\<open>haystack.find(needle)\<close>: the least index at which the needle occurs, \<open>None\<close> for -1.\<close>

fun str_find :: "'a list \<Rightarrow> 'a list \<Rightarrow> nat option" where
  "str_find needle [] = (if needle = [] then Some 0 else None)"
| "str_find needle (c # cs) =
     (if prefix needle (c # cs) then Some 0 else map_option Suc (str_find needle cs))"

text \<open>\<open>s.split(sep)\<close> for a one-character separator: always at least one piece.\<close>

fun split_on :: "'a \<Rightarrow> 'a list \<Rightarrow> 'a list list" where
  "split_on sep [] = [[]]"
| "split_on sep (c # cs) =
     (if c = sep then [] # split_on sep cs
      else (c # hd (split_on sep cs)) # tl (split_on sep cs))"

text \<open>\<open>sep.join(parts)\<close>.\<close>

fun str_join :: "'a list \<Rightarrow> 'a list list \<Rightarrow> 'a list" where
  "str_join sep [] = []"
| "str_join sep [x] = x"
| "str_join sep (x # y # ys) = x @ sep @ str_join sep (y # ys)"

text \<open>Slices \<open>s[i:j]\<close> with non-negative bounds, which clamp to the length.\<close>

definition slice :: "nat \<Rightarrow> nat \<Rightarrow> 'a list \<Rightarrow> 'a list" where
  "slice i j xs = drop i (take j xs)"

text \<open>\<open>str(n)\<close> of an integer.\<close>

fun nat_digits :: "nat \<Rightarrow> pystr" where
  "nat_digits n = (if n < 10 then [48 + n] else nat_digits (n div 10) @ [48 + n mod 10])"

declare nat_digits.simps [simp del]

definition int_str :: "int \<Rightarrow> pystr" where
  "int_str i = (if i < 0 then 45 # nat_digits (nat (- i)) else nat_digits (nat i))"

text \<open>\<open>str.rjust(width)\<close>.\<close>

definition rjust :: "nat \<Rightarrow> pystr \<Rightarrow> pystr" where
  "rjust w s = replicate (w - length s) 32 @ s"

text \<open>\<open>str.isspace\<close> of one character, and \<open>str.strip()\<close>.\<close>

definition py_isspace :: "nat \<Rightarrow> bool" where
  "py_isspace c \<longleftrightarrow> 9 \<le> c \<and> c \<le> 13 \<or> 28 \<le> c \<and> c \<le> 32 \<or> c = 133 \<or> c = 160 \<or> c = 5760 \<or>
     8192 \<le> c \<and> c \<le> 8202 \<or> c = 8232 \<or> c = 8233 \<or> c = 8239 \<or> c = 8287 \<or> c = 12288"

definition py_strip :: "pystr \<Rightarrow> pystr" where
  "py_strip s = rev (dropWhile py_isspace (rev (dropWhile py_isspace s)))"

lemma str_find_Some_split:
  "str_find needle hay = Some i \<Longrightarrow>
     i + length needle \<le> length hay \<and> take (length needle) (drop i hay) = needle"
proof (induction needle hay arbitrary: i rule: str_find.induct)
  case (1 needle)
  then show ?case by (simp split: if_splits)
next
  case (2 needle c cs)
  show ?case
  proof (cases "prefix needle (c # cs)")
    case True
    with "2.prems" have "i = 0" by simp
    with True show ?thesis
      by (metis add_0 append_eq_conv_conj drop0 prefix_def prefix_length_le)
  next
    case False
    with "2.prems" obtain j where "str_find needle cs = Some j" "i = Suc j"
      by auto
    with "2.IH" False show ?thesis by simp
  qed
qed

lemma str_find_decompose:
  assumes "str_find needle hay = Some i"
  shows "hay = take i hay @ needle @ drop (i + length needle) hay"
proof -
  have *: "take (length needle) (drop i hay) = needle"
    using str_find_Some_split [OF assms] by simp
  have "hay = take i hay @ take (length needle) (drop i hay) @ drop (length needle) (drop i hay)"
    by (metis append_take_drop_id)
  with * show ?thesis by (simp add: add.commute)
qed

lemma str_find_least:
  "str_find needle hay = Some i \<Longrightarrow> j < i \<Longrightarrow> \<not> prefix needle (drop j hay)"
proof (induction needle hay arbitrary: i j rule: str_find.induct)
  case (1 needle)
  then show ?case by (simp split: if_splits)
next
  case (2 needle c cs)
  from "2.prems" have np: "\<not> prefix needle (c # cs)"
    by (auto split: if_splits)
  with "2.prems" obtain k where k: "str_find needle cs = Some k" "i = Suc k" by auto
  show ?case
  proof (cases j)
    case 0
    with np show ?thesis by simp
  next
    case (Suc m)
    with "2.IH" np k "2.prems"(2) show ?thesis by simp
  qed
qed

lemma str_find_None_iff:
  "str_find needle hay = None \<longleftrightarrow> (\<forall>j \<le> length hay. \<not> prefix needle (drop j hay))"
proof (induction needle hay rule: str_find.induct)
  case (1 needle)
  then show ?case by (auto simp: prefix_def)
next
  case (2 needle c cs)
  show ?case
  proof (cases "prefix needle (c # cs)")
    case True
    then show ?thesis by (auto intro: exI [of _ 0])
  next
    case False
    have "(\<forall>j \<le> length (c # cs). \<not> prefix needle (drop j (c # cs))) \<longleftrightarrow>
          (\<forall>j \<le> length cs. \<not> prefix needle (drop j cs))"
      (is "?L = ?R")
    proof
      assume L: ?L
      show ?R
      proof (intro allI impI)
        fix j assume "j \<le> length cs"
        with L [rule_format, of "Suc j"] show "\<not> prefix needle (drop j cs)" by simp
      qed
    next
      assume R: ?R
      show ?L
      proof (intro allI impI)
        fix j assume "j \<le> length (c # cs)"
        with R False show "\<not> prefix needle (drop j (c # cs))" by (cases j) auto
      qed
    qed
    with False "2.IH" show ?thesis by simp
  qed
qed

lemma str_find_occurs: "\<exists>i. str_find needle (pre @ needle @ post) = Some i \<and> i \<le> length pre"
proof -
  have occ: "prefix needle (drop (length pre) (pre @ needle @ post))" by simp
  then have "str_find needle (pre @ needle @ post) \<noteq> None"
    unfolding str_find_None_iff by (metis le_add1 length_append)
  then obtain i where i: "str_find needle (pre @ needle @ post) = Some i" by blast
  have "i \<le> length pre"
    using str_find_least [OF i, of "length pre"] occ by (meson not_le_imp_less)
  with i show ?thesis by blast
qed

lemma split_on_ne [simp]: "split_on sep s \<noteq> []"
  by (induction s) auto

lemma join_split_on [simp]: "str_join [sep] (split_on sep s) = s"
proof (induction s)
  case Nil
  then show ?case by simp
next
  case (Cons c cs)
  obtain x xs where sp: "split_on sep cs = x # xs"
    using split_on_ne by (metis neq_Nil_conv)
  with Cons.IH show ?case by (cases xs) auto
qed

lemma split_on_no_sep: "p \<in> set (split_on sep s) \<Longrightarrow> sep \<notin> set p"
proof (induction s arbitrary: p)
  case Nil
  then show ?case by simp
next
  case (Cons c cs)
  obtain x xs where sp: "split_on sep cs = x # xs"
    using split_on_ne by (metis neq_Nil_conv)
  from Cons.IH sp have "\<And>q. q \<in> set (x # xs) \<Longrightarrow> sep \<notin> set q" by simp
  with Cons.prems sp show ?case by (auto split: if_splits)
qed

lemma split_on_join:
  "ps \<noteq> [] \<Longrightarrow> (\<forall>p \<in> set ps. sep \<notin> set p) \<Longrightarrow> split_on sep (str_join [sep] ps) = ps"
proof (induction "[sep]" ps rule: str_join.induct)
  case 1
  then show ?case by simp
next
  case (2 x)
  then have "sep \<notin> set x" by simp
  then show ?case by (induction x) auto
next
  case (3 x y ys)
  then have IH: "split_on sep (str_join [sep] (y # ys)) = y # ys" by simp
  have "split_on sep (x @ sep # r) = x # split_on sep r" if "sep \<notin> set x" for r
    using that by (induction x) auto
  with IH "3.prems" show ?case by simp
qed

lemma str_join_snoc:
  "xs \<noteq> [] \<Longrightarrow> str_join sep (xs @ [y]) = str_join sep xs @ sep @ y"
  by (induction sep xs rule: str_join.induct) auto

lemma str_join_append:
  "xs \<noteq> [] \<Longrightarrow> ys \<noteq> [] \<Longrightarrow> str_join sep (xs @ ys) = str_join sep xs @ sep @ str_join sep ys"
  by (induction sep xs rule: str_join.induct) (auto simp: neq_Nil_conv)

lemma nat_digits_ne [simp]: "nat_digits n \<noteq> []"
  by (subst nat_digits.simps) simp

subsection \<open>Insertion-ordered dictionaries\<close>

text \<open>
  A Python \<open>dict\<close> keeps its keys in insertion order; storing an existing key keeps its
  position (\<open>AList.update\<close>), \<open>pop\<close> removes the key (\<open>AList.delete\<close>).
\<close>

type_synonym ('k, 'v) dict = "('k \<times> 'v) list"

abbreviation dict_get :: "('k, 'v) dict \<Rightarrow> 'k \<Rightarrow> 'v option" where
  "dict_get \<equiv> map_of"

abbreviation dict_set :: "'k \<Rightarrow> 'v \<Rightarrow> ('k, 'v) dict \<Rightarrow> ('k, 'v) dict" where
  "dict_set \<equiv> AList.update"

abbreviation dict_pop :: "'k \<Rightarrow> ('k, 'v) dict \<Rightarrow> ('k, 'v) dict" where
  "dict_pop \<equiv> AList.delete"

definition dict_ok :: "('k, 'v) dict \<Rightarrow> bool" where
  "dict_ok d \<longleftrightarrow> distinct (map fst d)"

lemma dict_get_set [dict_simps]: "dict_get (dict_set k v d) = (dict_get d)(k \<mapsto> v)"
  by (simp add: update_conv')

lemma dict_get_pop [dict_simps]: "dict_get (dict_pop k d) = (dict_get d)(k := None)"
  by (simp add: delete_conv')

lemma dict_ok_Nil [simp, dict_simps]: "dict_ok []"
  by (simp add: dict_ok_def)

lemma dict_ok_set [simp, dict_simps]: "dict_ok d \<Longrightarrow> dict_ok (dict_set k v d)"
  by (simp add: dict_ok_def distinct_update)

lemma dict_ok_pop [simp, dict_simps]: "dict_ok d \<Longrightarrow> dict_ok (dict_pop k d)"
  by (simp add: dict_ok_def distinct_delete)

lemma dict_keys_set: "fst ` set (dict_set k v d) = insert k (fst ` set d)"
  by (simp add: dom_update)

lemma dict_keys_pop: "fst ` set (dict_pop k d) = fst ` set d - {k}"
  by (force simp: AList.delete_eq)

lemma dict_mem_iff [dict_simps]: "dict_ok d \<Longrightarrow> (k, v) \<in> set d \<longleftrightarrow> dict_get d k = Some v"
  by (simp add: dict_ok_def)

lemma dict_set_fresh: "dict_get d k = None \<Longrightarrow> dict_set k v d = d @ [(k, v)]"
  by (induction d) (auto split: if_splits)

subsection \<open>Errors\<close>

text \<open>
  Code that may raise returns \<open>Inl\<close> of the exception's text or \<open>Inr\<close> of its result.
\<close>

type_synonym 'a result = "pystr + 'a"

subsection \<open>Lists\<close>

text \<open>\<open>next((i for i, x in enumerate(xs) if p(x)), None)\<close>.\<close>

fun find_index :: "('a \<Rightarrow> bool) \<Rightarrow> 'a list \<Rightarrow> nat option" where
  "find_index p [] = None"
| "find_index p (x # xs) = (if p x then Some 0 else map_option Suc (find_index p xs))"

lemma find_index_Some:
  "find_index p xs = Some i \<Longrightarrow> i < length xs \<and> p (xs ! i) \<and> (\<forall>j < i. \<not> p (xs ! j))"
proof (induction xs arbitrary: i)
  case Nil
  then show ?case by simp
next
  case (Cons x xs)
  show ?case
  proof (cases "p x")
    case True
    with Cons.prems show ?thesis by simp
  next
    case False
    with Cons.prems obtain k where "find_index p xs = Some k" "i = Suc k" by auto
    with Cons.IH [of k] False show ?thesis
      by (auto simp: nth_Cons' less_Suc_eq_0_disj)
  qed
qed

lemma find_index_None_iff: "find_index p xs = None \<longleftrightarrow> (\<forall>x \<in> set xs. \<not> p x)"
  by (induction xs) auto

lemma find_Some_split:
  "find p xs = Some x \<Longrightarrow> \<exists>ys zs. xs = ys @ x # zs \<and> p x \<and> (\<forall>y \<in> set ys. \<not> p y)"
proof (induction xs)
  case Nil
  then show ?case by simp
next
  case (Cons a xs)
  show ?case
  proof (cases "p a")
    case True
    with Cons.prems have "a # xs = [] @ x # xs \<and> p x" by simp
    then show ?thesis by (metis empty_iff empty_set)
  next
    case False
    with Cons obtain ys zs where "xs = ys @ x # zs" "p x" "\<forall>y \<in> set ys. \<not> p y" by auto
    with False have "a # xs = (a # ys) @ x # zs \<and> p x \<and> (\<forall>y \<in> set (a # ys). \<not> p y)" by simp
    then show ?thesis by blast
  qed
qed

lemma subseq_set_subset: "subseq xs ys \<Longrightarrow> set xs \<subseteq> set ys"
  by (auto dest: list_emb_set)

lemma subseq_distinct_list: "subseq xs ys \<Longrightarrow> distinct ys \<Longrightarrow> distinct xs"
proof (induction rule: list_emb.induct)
  case (list_emb_Cons2 x y xs ys)
  then show ?case using subseq_set_subset by fastforce
qed auto

lemma take_while_drop_while_prefix: "prefix (takeWhile p xs) xs"
  by (metis prefixI takeWhile_dropWhile_id)

subsection \<open>State machines\<close>

definition reachable :: "('s \<Rightarrow> bool) \<Rightarrow> ('s \<Rightarrow> 's \<Rightarrow> bool) \<Rightarrow> 's \<Rightarrow> bool" where
  "reachable start step s \<longleftrightarrow> (\<exists>s0. start s0 \<and> step\<^sup>*\<^sup>* s0 s)"

text \<open>
  A transition system with an invariant: what holds at the start and is kept by every step holds in
  every reachable state. A relation between a state and its successors that every step respects,
  and that composes, relates every state to every later one.
\<close>

locale invariant_system =
  fixes start :: "'s \<Rightarrow> bool"
    and step :: "'s \<Rightarrow> 's \<Rightarrow> bool"
    and inv :: "'s \<Rightarrow> bool"
  assumes start_inv: "start s \<Longrightarrow> inv s"
    and step_inv: "inv s \<Longrightarrow> step s s' \<Longrightarrow> inv s'"
begin

lemma steps_inv: "step\<^sup>*\<^sup>* s s' \<Longrightarrow> inv s \<Longrightarrow> inv s'"
  by (induction rule: rtranclp_induct) (auto intro: step_inv)

lemma reachable_inv: "reachable start step s \<Longrightarrow> inv s"
  unfolding reachable_def using start_inv steps_inv by blast

lemma reachable_step: "reachable start step s \<Longrightarrow> step s s' \<Longrightarrow> reachable start step s'"
  unfolding reachable_def by (meson rtranclp.rtrancl_into_rtrancl)

lemma steps_respect:
  assumes "step\<^sup>*\<^sup>* s s'" "inv s" "\<And>s. R s s" "\<And>s t u. R s t \<Longrightarrow> R t u \<Longrightarrow> R s u"
    "\<And>s t. inv s \<Longrightarrow> step s t \<Longrightarrow> R s t"
  shows "R s s'"
  using assms(1,2)
proof (induction rule: rtranclp_induct)
  case base
  show ?case by (rule assms(3))
next
  case (step t u)
  then have "inv t" using steps_inv by blast
  with step show ?case using assms(4,5) by blast
qed

end

end
