(* ===== verification/Utf8.thy ===== *)
theory Utf8
  imports Prelude
begin

section \<open>UTF-8 as the sources use it\<close>

text \<open>
  \<open>str.encode("utf-8", "replace")\<close> and \<open>bytes.decode("utf-8", "replace")\<close> of the standard
  library, on code points and bytes. Encoding replaces a lone surrogate by \<open>?\<close>; decoding
  replaces each maximal ill-formed subpart by U+FFFD. The lemmas relate byte positions that
  start a character to splits of the string.
\<close>

type_synonym bytes = "nat list"

definition is_high_surrogate :: "nat \<Rightarrow> bool" where
  "is_high_surrogate code \<longleftrightarrow> 0xD800 \<le> code \<and> code \<le> 0xDBFF"

definition is_low_surrogate :: "nat \<Rightarrow> bool" where
  "is_low_surrogate code \<longleftrightarrow> 0xDC00 \<le> code \<and> code \<le> 0xDFFF"

definition is_surrogate :: "nat \<Rightarrow> bool" where
  "is_surrogate code \<longleftrightarrow> 0xD800 \<le> code \<and> code \<le> 0xDFFF"

definition encode_char :: "nat \<Rightarrow> bytes" where
  "encode_char c =
    (if c \<le> 0x7F then [c]
     else if c \<le> 0x7FF then [0xC0 + c div 64, 0x80 + c mod 64]
     else if is_surrogate c then [63]
     else if c \<le> 0xFFFF then [0xE0 + c div 4096, 0x80 + c div 64 mod 64, 0x80 + c mod 64]
     else [0xF0 + c div 262144, 0x80 + c div 4096 mod 64, 0x80 + c div 64 mod 64, 0x80 + c mod 64])"

definition utf8_encode :: "pystr \<Rightarrow> bytes" where
  "utf8_encode s = concat (map encode_char s)"

definition is_cont :: "nat \<Rightarrow> bool" where
  "is_cont b \<longleftrightarrow> 0x80 \<le> b \<and> b \<le> 0xBF"

text \<open>The bytes a second byte may be, for a three- or four-byte lead byte.\<close>

definition second_ok :: "nat \<Rightarrow> nat \<Rightarrow> bool" where
  "second_ok b0 b1 \<longleftrightarrow>
     (if b0 = 0xE0 then 0xA0 \<le> b1 \<and> b1 \<le> 0xBF
      else if b0 = 0xED then 0x80 \<le> b1 \<and> b1 \<le> 0x9F
      else if b0 = 0xF0 then 0x90 \<le> b1 \<and> b1 \<le> 0xBF
      else if b0 = 0xF4 then 0x80 \<le> b1 \<and> b1 \<le> 0x8F
      else is_cont b1)"

text \<open>One decoding step: the code point and the number of bytes it consumes.\<close>

definition decode_step :: "bytes \<Rightarrow> nat \<times> nat" where
  "decode_step bs =
    (case bs of [] \<Rightarrow> (0xFFFD, 1)
     | b0 # r \<Rightarrow>
       if b0 \<le> 0x7F then (b0, 1)
       else if 0xC2 \<le> b0 \<and> b0 \<le> 0xDF then
         (case r of [] \<Rightarrow> (0xFFFD, 1)
          | b1 # _ \<Rightarrow> if is_cont b1 then ((b0 - 0xC0) * 64 + (b1 - 0x80), 2) else (0xFFFD, 1))
       else if 0xE0 \<le> b0 \<and> b0 \<le> 0xEF then
         (case r of [] \<Rightarrow> (0xFFFD, 1)
          | b1 # r1 \<Rightarrow> if \<not> second_ok b0 b1 then (0xFFFD, 1)
            else (case r1 of [] \<Rightarrow> (0xFFFD, 2)
              | b2 # _ \<Rightarrow> if is_cont b2
                  then ((b0 - 0xE0) * 4096 + (b1 - 0x80) * 64 + (b2 - 0x80), 3) else (0xFFFD, 2)))
       else if 0xF0 \<le> b0 \<and> b0 \<le> 0xF4 then
         (case r of [] \<Rightarrow> (0xFFFD, 1)
          | b1 # r1 \<Rightarrow> if \<not> second_ok b0 b1 then (0xFFFD, 1)
            else (case r1 of [] \<Rightarrow> (0xFFFD, 2)
              | b2 # r2 \<Rightarrow> if \<not> is_cont b2 then (0xFFFD, 2)
                else (case r2 of [] \<Rightarrow> (0xFFFD, 3)
                  | b3 # _ \<Rightarrow> if is_cont b3
                      then ((b0 - 0xF0) * 262144 + (b1 - 0x80) * 4096 + (b2 - 0x80) * 64 + (b3 - 0x80), 4)
                      else (0xFFFD, 3))))
       else (0xFFFD, 1))"

lemma decode_step_pos: "0 < snd (decode_step bs)"
  by (auto simp: decode_step_def split: list.splits)

function utf8_decode :: "bytes \<Rightarrow> pystr" where
  "utf8_decode bs =
     (if bs = [] then [] else fst (decode_step bs) # utf8_decode (drop (snd (decode_step bs)) bs))"
  by pat_completeness auto
termination
  by (relation "measure length") (auto simp: decode_step_pos)

declare utf8_decode.simps [simp del]

lemma utf8_decode_Nil [simp]: "utf8_decode [] = []"
  by (subst utf8_decode.simps) simp

definition scalar :: "nat \<Rightarrow> bool" where
  "scalar c \<longleftrightarrow> c \<le> 0x10FFFF \<and> \<not> is_surrogate c"

subsection \<open>Encoding and decoding are inverse on scalar values\<close>

lemma encode_char_ne [simp]: "encode_char c \<noteq> []"
  by (simp add: encode_char_def)

lemma div_mod_64_recompose:
  "(c::nat) div 64 * 64 + c mod 64 = c"
  "(c::nat) div 4096 * 4096 + c div 64 mod 64 * 64 + c mod 64 = c"
  "(c::nat) div 262144 * 262144 + c div 4096 mod 64 * 4096 + c div 64 mod 64 * 64 + c mod 64 = c"
proof -
  show 1: "c div 64 * 64 + c mod 64 = c" by simp
  have e1: "c div 64 div 64 = c div 4096" by (simp add: div_mult2_eq [symmetric])
  have h1: "c div 4096 * 64 + c div 64 mod 64 = c div 64"
    using div_mult_mod_eq [of "c div 64" 64] e1 by simp
  show 2: "c div 4096 * 4096 + c div 64 mod 64 * 64 + c mod 64 = c"
    using h1 1 by linarith
  have e2: "c div 4096 div 64 = c div 262144" by (simp add: div_mult2_eq [symmetric])
  have h2: "c div 262144 * 64 + c div 4096 mod 64 = c div 4096"
    using div_mult_mod_eq [of "c div 4096" 64] e2 by simp
  show "c div 262144 * 262144 + c div 4096 mod 64 * 4096 + c div 64 mod 64 * 64 + c mod 64 = c"
    using h2 2 by linarith
qed

lemma decode_step_2:
  assumes "0x80 \<le> c" "c \<le> 0x7FF"
  shows "decode_step ((0xC0 + c div 64) # (0x80 + c mod 64) # r) = (c, 2)"
proof -
  have "2 \<le> c div 64" "c div 64 \<le> 31" using assms by (auto simp: less_eq_div_iff_mult_less_eq)
  moreover have "c mod 64 \<le> 63" using mod_less_divisor [of 64 c] by linarith
  ultimately show ?thesis
    by (simp add: decode_step_def is_cont_def div_mod_64_recompose)
qed

lemma decode_step_3:
  assumes "0x800 \<le> c" "c \<le> 0xFFFF" "\<not> is_surrogate c"
  shows "decode_step ((0xE0 + c div 4096) # (0x80 + c div 64 mod 64) # (0x80 + c mod 64) # r) = (c, 3)"
proof -
  have a: "c div 4096 \<le> 15" using assms by (auto simp: less_eq_div_iff_mult_less_eq)
  have b: "c div 64 mod 64 \<le> 63" "c mod 64 \<le> 63"
    using mod_less_divisor [of 64 "c div 64"] mod_less_divisor [of 64 c] by linarith+
  have r: "c div 4096 * 4096 + c div 64 mod 64 * 64 + c mod 64 = c" by (rule div_mod_64_recompose)
  have lo: "c div 4096 = 0 \<Longrightarrow> 32 \<le> c div 64 mod 64" using r assms(1) b by linarith
  have sur: "c div 4096 = 13 \<Longrightarrow> c div 64 mod 64 \<le> 31"
    using r assms(3) b unfolding is_surrogate_def by linarith
  have "second_ok (0xE0 + c div 4096) (0x80 + c div 64 mod 64)"
    using a b lo sur by (auto simp: second_ok_def is_cont_def)
  with a b r show ?thesis
    by (simp add: decode_step_def is_cont_def)
qed

lemma decode_step_4:
  assumes "0x10000 \<le> c" "c \<le> 0x10FFFF"
  shows "decode_step ((0xF0 + c div 262144) # (0x80 + c div 4096 mod 64) # (0x80 + c div 64 mod 64) #
           (0x80 + c mod 64) # r) = (c, 4)"
proof -
  have a: "c div 262144 \<le> 4" using assms by (auto simp: less_eq_div_iff_mult_less_eq)
  have b: "c div 4096 mod 64 \<le> 63" "c div 64 mod 64 \<le> 63" "c mod 64 \<le> 63"
    using mod_less_divisor [of 64 "c div 4096"] mod_less_divisor [of 64 "c div 64"]
      mod_less_divisor [of 64 c] by linarith+
  have r: "c div 262144 * 262144 + c div 4096 mod 64 * 4096 + c div 64 mod 64 * 64 + c mod 64 = c"
    by (rule div_mod_64_recompose)
  have lo: "c div 262144 = 0 \<Longrightarrow> 16 \<le> c div 4096 mod 64" using r assms(1) b by linarith
  have hi: "c div 262144 = 4 \<Longrightarrow> c div 4096 mod 64 \<le> 15" using r assms(2) b by linarith
  have "second_ok (0xF0 + c div 262144) (0x80 + c div 4096 mod 64)"
    using a b lo hi by (auto simp: second_ok_def is_cont_def)
  with a b r show ?thesis
    by (simp add: decode_step_def is_cont_def)
qed

lemma decode_step_encode:
  "scalar c \<Longrightarrow> decode_step (encode_char c @ r) = (c, length (encode_char c))"
  using decode_step_2 [of c r] decode_step_3 [of c r] decode_step_4 [of c r]
  by (auto simp: encode_char_def scalar_def) (simp add: decode_step_def)

lemma utf8_encode_simps [simp]:
  "utf8_encode [] = []"
  "utf8_encode (c # s) = encode_char c @ utf8_encode s"
  "utf8_encode (s @ t) = utf8_encode s @ utf8_encode t"
  by (simp_all add: utf8_encode_def)

lemma utf8_decode_encode: "list_all scalar s \<Longrightarrow> utf8_decode (utf8_encode s) = s"
proof (induction s)
  case Nil
  then show ?case by simp
next
  case (Cons c s)
  then show ?case
    by (subst utf8_decode.simps) (simp add: decode_step_encode)
qed

subsection \<open>Character boundaries\<close>

text \<open>
  \<open>index >= len(buf) or (buf[index] & 0xC0) != 0x80\<close>: no continuation byte at the index. On a
  byte, \<open>b & 0xC0\<close> keeps the two top bits, so it is \<open>b div 64 * 64\<close>.
\<close>

definition is_boundary :: "bytes \<Rightarrow> nat \<Rightarrow> bool" where
  "is_boundary buf i \<longleftrightarrow> i \<ge> length buf \<or> (buf ! i) div 64 * 64 \<noteq> 0x80"

lemma top_bits_cont: "(b::nat) div 64 * 64 = 128 \<longleftrightarrow> 128 \<le> b \<and> b \<le> 191"
  by (auto simp: div_nat_eqI)

lemma encode_char_tail:
  "scalar c \<Longrightarrow> b \<in> set (tl (encode_char c)) \<Longrightarrow> 128 \<le> b \<and> b \<le> 191"
  using mod_less_divisor [of 64 c] mod_less_divisor [of 64 "c div 64"]
    mod_less_divisor [of 64 "c div 4096"]
  by (auto simp: encode_char_def split: if_splits)

lemma encode_char_inner:
  assumes "scalar c" "0 < i" "i < length (encode_char c)"
  shows "(encode_char c ! i) div 64 * 64 = 128"
proof -
  have "encode_char c ! i = tl (encode_char c) ! (i - 1)"
    using assms(2,3) by (simp add: nth_tl)
  moreover have "i - 1 < length (tl (encode_char c))" using assms(2,3) by simp
  ultimately have "encode_char c ! i \<in> set (tl (encode_char c))" by (metis nth_mem)
  from encode_char_tail [OF assms(1) this] show ?thesis by (simp only: top_bits_cont)
qed

lemma boundary_split:
  assumes "list_all scalar s" "is_boundary (utf8_encode s) i" "i \<le> length (utf8_encode s)"
  shows "\<exists>s1 s2. s = s1 @ s2 \<and> take i (utf8_encode s) = utf8_encode s1 \<and>
           drop i (utf8_encode s) = utf8_encode s2 \<and> length (utf8_encode s1) = i"
  using assms
proof (induction s arbitrary: i)
  case Nil
  then show ?case by simp
next
  case (Cons c s)
  let ?n = "length (encode_char c)"
  consider "i = 0" | "0 < i" "i < ?n" | "?n \<le> i" by linarith
  then show ?case
  proof cases
    case 1
    have "c # s = [] @ (c # s)" by simp
    with 1 show ?thesis by (metis drop0 list.size(3) take0 utf8_encode_simps(1))
  next
    case 2
    then have "(utf8_encode (c # s) ! i) div 64 * 64 = 128"
      using encode_char_inner [of c i] Cons.prems(1) by (simp add: nth_append)
    moreover have "i < length (utf8_encode (c # s))" using 2 by simp
    ultimately show ?thesis using Cons.prems(2) by (simp add: is_boundary_def)
  next
    case 3
    have "is_boundary (utf8_encode s) (i - ?n)"
      using Cons.prems(2) 3 by (auto simp: is_boundary_def nth_append)
    moreover have "i - ?n \<le> length (utf8_encode s)" using Cons.prems(3) by simp
    moreover have "list_all scalar s" using Cons.prems(1) by simp
    ultimately obtain s1 s2 where *: "s = s1 @ s2"
      "take (i - ?n) (utf8_encode s) = utf8_encode s1"
      "drop (i - ?n) (utf8_encode s) = utf8_encode s2" "length (utf8_encode s1) = i - ?n"
      using Cons.IH [of "i - ?n"] by blast
    with 3 have "c # s = (c # s1) @ s2 \<and>
        take i (utf8_encode (c # s)) = utf8_encode (c # s1) \<and>
        drop i (utf8_encode (c # s)) = utf8_encode s2 \<and> length (utf8_encode (c # s1)) = i"
      by (simp del: append_take_drop_id)
    then show ?thesis by blast
  qed
qed

lemma boundary_0: "list_all scalar s \<Longrightarrow> is_boundary (utf8_encode s) 0"
proof (cases s)
  case (Cons c t)
  assume "list_all scalar s"
  with Cons have c: "scalar c" by simp
  have "\<not> (128 \<le> encode_char c ! 0 \<and> encode_char c ! 0 \<le> 191)"
    using c by (auto simp: encode_char_def scalar_def)
  then have "(encode_char c ! 0) div 64 * 64 \<noteq> 128" by (metis top_bits_cont)
  with Cons show ?thesis by (simp add: is_boundary_def nth_append)
qed (simp add: is_boundary_def)

end
