(* ===== verification/Truncate.thy ===== *)
theory Truncate
  imports Utf8
begin

section \<open>Tool output truncation (core/tools/truncate.py)\<close>

text \<open>
  The shared truncation of tool outputs: \<open>truncate_head\<close> keeps the first lines,
  \<open>truncate_tail\<close> the last ones (with a partial line when the last line alone is too long),
  \<open>truncate_line\<close> cuts one line, \<open>truncate_middle\<close> keeps both ends. Line and byte limits are
  natural numbers, as every caller passes them. Byte lengths follow the JS rules of
  \<open>utf8_byte_length\<close>: an adjacent surrogate pair counts four bytes, a lone surrogate three.
\<close>

datatype limit_kind = ByLines | ByBytes

record truncation_result =
  tr_content :: pystr
  tr_truncated :: bool
  tr_truncated_by :: "limit_kind option"
  tr_total_lines :: nat
  tr_total_bytes :: nat
  tr_output_lines :: nat
  tr_output_bytes :: nat
  tr_last_line_partial :: bool
  tr_first_line_exceeds_limit :: bool
  tr_max_lines :: nat
  tr_max_bytes :: nat

subsection \<open>Byte lengths and line counting\<close>

fun utf8_byte_length :: "pystr \<Rightarrow> nat" where
  "utf8_byte_length [] = 0"
| "utf8_byte_length (c # cs) =
    (if c \<le> 0x7F then 1 + utf8_byte_length cs
     else if c \<le> 0x7FF then 2 + utf8_byte_length cs
     else (case cs of
        d # ds \<Rightarrow>
          if is_high_surrogate c \<and> is_low_surrogate d then 4 + utf8_byte_length ds
          else if c \<le> 0xFFFF then 3 + utf8_byte_length cs
          else 4 + utf8_byte_length cs
      | [] \<Rightarrow> if c \<le> 0xFFFF then 3 else 4))"

definition split_lines_for_counting :: "pystr \<Rightarrow> pystr list" where
  "split_lines_for_counting content =
    (if content = [] then []
     else let lines = split_on NL content
          in if last content = NL then butlast lines else lines)"

fun replace_unpaired_surrogates :: "pystr \<Rightarrow> pystr" where
  "replace_unpaired_surrogates [] = []"
| "replace_unpaired_surrogates (c # cs) =
    (if is_high_surrogate c then
       (case cs of
          d # ds \<Rightarrow> if is_low_surrogate d then c # d # replace_unpaired_surrogates ds
                     else 0xFFFD # replace_unpaired_surrogates cs
        | [] \<Rightarrow> [0xFFFD])
     else if is_low_surrogate c then 0xFFFD # replace_unpaired_surrogates cs
     else c # replace_unpaired_surrogates cs)"

subsection \<open>truncate_head\<close>

definition untruncated :: "pystr \<Rightarrow> nat \<Rightarrow> nat \<Rightarrow> nat \<Rightarrow> nat \<Rightarrow> truncation_result" where
  "untruncated content total_lines total_bytes max_lines max_bytes =
    \<lparr>tr_content = content, tr_truncated = False, tr_truncated_by = None,
     tr_total_lines = total_lines, tr_total_bytes = total_bytes,
     tr_output_lines = total_lines, tr_output_bytes = total_bytes,
     tr_last_line_partial = False, tr_first_line_exceeds_limit = False,
     tr_max_lines = max_lines, tr_max_bytes = max_bytes\<rparr>"

text \<open>
  The collecting loop: the lines still to visit (\<open>lines[:max_lines]\<close>), whether the current line
  is the first, the lines and bytes collected, and the limit recorded so far.
\<close>

fun head_loop :: "nat \<Rightarrow> pystr list \<Rightarrow> bool \<Rightarrow> pystr list \<Rightarrow> nat \<Rightarrow> pystr list \<times> nat \<times> limit_kind" where
  "head_loop max_bytes [] first out cnt = (out, cnt, ByLines)"
| "head_loop max_bytes (line # rest) first out cnt =
    (let line_bytes = utf8_byte_length line + (if first then 0 else 1)
     in if cnt + line_bytes > max_bytes then (out, cnt, ByBytes)
        else head_loop max_bytes rest False (out @ [line]) (cnt + line_bytes))"

definition truncate_head :: "pystr \<Rightarrow> nat \<Rightarrow> nat \<Rightarrow> truncation_result" where
  "truncate_head content max_lines max_bytes =
    (let total_bytes = utf8_byte_length content;
         lines = split_lines_for_counting content;
         total_lines = length lines
     in if total_lines \<le> max_lines \<and> total_bytes \<le> max_bytes then
          untruncated content total_lines total_bytes max_lines max_bytes
        else if utf8_byte_length (hd lines) > max_bytes then
          \<lparr>tr_content = [], tr_truncated = True, tr_truncated_by = Some ByBytes,
           tr_total_lines = total_lines, tr_total_bytes = total_bytes,
           tr_output_lines = 0, tr_output_bytes = 0,
           tr_last_line_partial = False, tr_first_line_exceeds_limit = True,
           tr_max_lines = max_lines, tr_max_bytes = max_bytes\<rparr>
        else
          (case head_loop max_bytes (take max_lines lines) True [] 0 of (out, cnt, by) \<Rightarrow>
             let by' = (if length out \<ge> max_lines \<and> cnt \<le> max_bytes then ByLines else by);
                 output = str_join [NL] out
             in \<lparr>tr_content = output, tr_truncated = True, tr_truncated_by = Some by',
                 tr_total_lines = total_lines, tr_total_bytes = total_bytes,
                 tr_output_lines = length out, tr_output_bytes = utf8_byte_length output,
                 tr_last_line_partial = False, tr_first_line_exceeds_limit = False,
                 tr_max_lines = max_lines, tr_max_bytes = max_bytes\<rparr>))"

subsection \<open>truncate_tail\<close>

text \<open>
  The backwards scan of \<open>_truncate_string_to_bytes_from_end\<close>, on the reversed prefix still to
  visit: bytes kept, characters kept (from the end), and whether an unpaired surrogate was kept.
\<close>

fun from_end_loop :: "nat \<Rightarrow> pystr \<Rightarrow> nat \<Rightarrow> nat \<Rightarrow> bool \<Rightarrow> nat \<times> bool" where
  "from_end_loop max_bytes [] bytes kept repl = (kept, repl)"
| "from_end_loop max_bytes (c # before) bytes kept repl =
    (let (width, cb, unpaired) =
       (if is_low_surrogate c \<and> before \<noteq> [] then
          (if is_high_surrogate (hd before) then (2, 4, False) else (1, 3, True))
        else if is_surrogate c then (1, 3, True)
        else if c > 0xFFFF then (1, 4, False)
        else (1, if c \<le> 0x7F then 1 else if c \<le> 0x7FF then 2 else 3, False))
     in if bytes + cb > max_bytes then (kept, repl)
        else from_end_loop max_bytes (drop (width - 1) before) (bytes + cb) (kept + width)
               (repl \<or> unpaired))"

definition truncate_string_to_bytes_from_end :: "pystr \<Rightarrow> nat \<Rightarrow> pystr" where
  "truncate_string_to_bytes_from_end content max_bytes =
    (if max_bytes \<le> 0 then []
     else case from_end_loop max_bytes (rev content) 0 0 False of (kept, repl) \<Rightarrow>
       let output = drop (length content - kept) content
       in if repl then replace_unpaired_surrogates output else output)"

text \<open>
  The loop over \<open>reversed(lines)\<close>: lines collected (in order), their bytes, the limit recorded
  and whether the one collected line is partial.
\<close>

fun tail_loop :: "nat \<Rightarrow> nat \<Rightarrow> pystr list \<Rightarrow> pystr list \<Rightarrow> nat \<Rightarrow> pystr list \<times> nat \<times> limit_kind \<times> bool" where
  "tail_loop max_lines max_bytes [] out cnt = (out, cnt, ByLines, False)"
| "tail_loop max_lines max_bytes (line # rest) out cnt =
    (if length out \<ge> max_lines then (out, cnt, ByLines, False)
     else let line_bytes = utf8_byte_length line + (if out \<noteq> [] then 1 else 0)
          in if cnt + line_bytes > max_bytes then
               (if out = [] then
                  let t = truncate_string_to_bytes_from_end line max_bytes
                  in ([t], utf8_byte_length t, ByBytes, True)
                else (out, cnt, ByBytes, False))
             else tail_loop max_lines max_bytes rest (line # out) (cnt + line_bytes))"

definition truncate_tail :: "pystr \<Rightarrow> nat \<Rightarrow> nat \<Rightarrow> truncation_result" where
  "truncate_tail content max_lines max_bytes =
    (let total_bytes = utf8_byte_length content;
         lines = split_lines_for_counting content;
         total_lines = length lines
     in if total_lines \<le> max_lines \<and> total_bytes \<le> max_bytes then
          untruncated content total_lines total_bytes max_lines max_bytes
        else
          (case tail_loop max_lines max_bytes (rev lines) [] 0 of (out, cnt, by, partial) \<Rightarrow>
             let by' = (if length out \<ge> max_lines \<and> cnt \<le> max_bytes then ByLines else by);
                 output = str_join [NL] out
             in \<lparr>tr_content = output, tr_truncated = True, tr_truncated_by = Some by',
                 tr_total_lines = total_lines, tr_total_bytes = total_bytes,
                 tr_output_lines = length out, tr_output_bytes = utf8_byte_length output,
                 tr_last_line_partial = partial, tr_first_line_exceeds_limit = False,
                 tr_max_lines = max_lines, tr_max_bytes = max_bytes\<rparr>))"

subsection \<open>truncate_line and truncate_middle\<close>

definition truncate_line :: "pystr \<Rightarrow> nat \<Rightarrow> pystr \<times> bool" where
  "truncate_line line max_chars =
    (if length line \<le> max_chars then (line, False)
     else (take max_chars line @ lit ''... [truncated]'', True))"

record middle_truncation_result =
  mt_content :: pystr
  mt_truncated :: bool
  mt_removed_chars :: nat
  mt_total_bytes :: nat
  mt_total_lines :: nat

text \<open>\<open>while head_end > 0 and not is_boundary(head_end): head_end -= 1\<close>\<close>

fun shrink_head :: "bytes \<Rightarrow> nat \<Rightarrow> nat" where
  "shrink_head buf 0 = 0"
| "shrink_head buf (Suc n) = (if is_boundary buf (Suc n) then Suc n else shrink_head buf n)"

text \<open>\<open>while tail_start < len(buf) and not is_boundary(tail_start): tail_start += 1\<close>\<close>

function advance_tail :: "bytes \<Rightarrow> nat \<Rightarrow> nat" where
  "advance_tail buf i = (if i < length buf \<and> \<not> is_boundary buf i then advance_tail buf (Suc i) else i)"
  by pat_completeness auto
termination
  by (relation "measure (\<lambda>(buf, i). length buf - i)") auto

declare advance_tail.simps [simp del]

definition truncate_middle :: "pystr \<Rightarrow> nat \<Rightarrow> middle_truncation_result" where
  "truncate_middle content max_bytes =
    (let buf = utf8_encode content;
         lines = (if content = [] then [] else split_on NL content);
         lines' = (if content \<noteq> [] \<and> last content = NL then butlast lines else lines);
         total_lines = length lines'
     in if length buf \<le> max_bytes then
          \<lparr>mt_content = content, mt_truncated = False, mt_removed_chars = 0,
           mt_total_bytes = length buf, mt_total_lines = total_lines\<rparr>
        else
          (let head_end = shrink_head buf (max_bytes div 2);
               tail_start = advance_tail buf (length buf - (max_bytes - max_bytes div 2));
               head = utf8_decode (take head_end buf);
               tail = utf8_decode (drop tail_start buf);
               removed_chars = length (utf8_decode (slice head_end tail_start buf))
           in \<lparr>mt_content = head @ [0x2026] @ nat_digits removed_chars
                  @ lit '' chars truncated'' @ [0x2026] @ tail,
               mt_truncated = True, mt_removed_chars = removed_chars,
               mt_total_bytes = length buf, mt_total_lines = total_lines\<rparr>))"

subsection \<open>Byte lengths\<close>

definition char_width :: "nat \<Rightarrow> nat" where
  "char_width c = (if c \<le> 0x7F then 1 else if c \<le> 0x7FF then 2 else if c \<le> 0xFFFF then 3 else 4)"

definition pair_start :: "nat \<Rightarrow> pystr \<Rightarrow> bool" where
  "pair_start c s \<longleftrightarrow> is_high_surrogate c \<and> s \<noteq> [] \<and> is_low_surrogate (hd s)"

lemma byte_length_Cons:
  "\<not> pair_start c s \<Longrightarrow> utf8_byte_length (c # s) = char_width c + utf8_byte_length s"
  by (cases s) (auto simp: char_width_def pair_start_def is_high_surrogate_def)

lemma byte_length_pair:
  "is_high_surrogate c \<Longrightarrow> is_low_surrogate d \<Longrightarrow> utf8_byte_length (c # d # s) = 4 + utf8_byte_length s"
  by (simp add: is_high_surrogate_def)

lemma byte_length_singleton: "utf8_byte_length [c] = char_width c"
  by (simp add: char_width_def)

lemma byte_length_NL: "utf8_byte_length (NL # s) = 1 + utf8_byte_length s"
  by simp

declare utf8_byte_length.simps(2) [simp del]

lemma byte_length_append:
  "(t \<noteq> [] \<Longrightarrow> \<not> is_low_surrogate (hd t)) \<Longrightarrow>
     utf8_byte_length (s @ t) = utf8_byte_length s + utf8_byte_length t"
proof (induction s rule: utf8_byte_length.induct)
  case 1
  then show ?case by simp
next
  case (2 c cs)
  show ?case
  proof (cases cs)
    case Nil
    have "\<not> pair_start c t" using "2.prems" by (auto simp: pair_start_def)
    with Nil show ?thesis using byte_length_Cons [of c t] by (simp add: byte_length_singleton)
  next
    case (Cons d ds)
    show ?thesis
    proof (cases "is_high_surrogate c \<and> is_low_surrogate d")
      case True
      then have "\<not> c \<le> 0x7F" "\<not> c \<le> 0x7FF" by (auto simp: is_high_surrogate_def)
      with "2.IH"(3) [OF _ _ Cons True] "2.prems" True Cons show ?thesis by (simp add: byte_length_pair)
    next
      case False
      then have np: "\<not> pair_start c cs" "\<not> pair_start c (cs @ t)"
        using Cons by (auto simp: pair_start_def)
      have IH: "utf8_byte_length (cs @ t) = utf8_byte_length cs + utf8_byte_length t"
        using "2.IH" "2.prems" False Cons by (metis linorder_not_le)
      show ?thesis using IH byte_length_Cons [OF np(1)] byte_length_Cons [OF np(2)] by simp
    qed
  qed
qed

lemma byte_length_join_snoc:
  "out \<noteq> [] \<Longrightarrow> utf8_byte_length (str_join [NL] (out @ [l])) =
     utf8_byte_length (str_join [NL] out) + 1 + utf8_byte_length l"
proof -
  assume "out \<noteq> []"
  then have "utf8_byte_length (str_join [NL] (out @ [l])) =
      utf8_byte_length (str_join [NL] out @ NL # l)"
    by (simp add: str_join_snoc)
  also have "\<dots> = utf8_byte_length (str_join [NL] out) + utf8_byte_length (NL # l)"
    by (rule byte_length_append) (simp add: is_low_surrogate_def)
  finally show ?thesis by (simp add: byte_length_NL)
qed

lemma byte_length_join_Cons:
  "out \<noteq> [] \<Longrightarrow> utf8_byte_length (str_join [NL] (l # out)) =
     utf8_byte_length l + 1 + utf8_byte_length (str_join [NL] out)"
proof -
  assume "out \<noteq> []"
  then have "utf8_byte_length (str_join [NL] (l # out)) =
      utf8_byte_length (l @ NL # str_join [NL] out)"
    by (cases out) simp_all
  also have "\<dots> = utf8_byte_length l + utf8_byte_length (NL # str_join [NL] out)"
    by (rule byte_length_append) (simp add: is_low_surrogate_def)
  finally show ?thesis by (simp add: byte_length_NL)
qed

subsection \<open>truncate_head\<close>

lemma head_loop_spec:
  assumes "head_loop mb rest (out = []) out cnt = (out', cnt', by)"
    and "cnt = utf8_byte_length (str_join [NL] out)" "cnt \<le> mb"
  shows "\<exists>k. out' = out @ take k rest \<and> k \<le> length rest \<and>
    cnt' = utf8_byte_length (str_join [NL] out') \<and> cnt' \<le> mb \<and>
    (by = ByLines \<longrightarrow> k = length rest) \<and>
    (by = ByBytes \<longrightarrow> k < length rest \<and> mb < utf8_byte_length (str_join [NL] (out @ take (Suc k) rest)))"
  using assms
proof (induction rest arbitrary: out cnt)
  case Nil
  then show ?case by auto
next
  case (Cons l rest)
  let ?lb = "utf8_byte_length l + (if out = [] then 0 else 1)"
  have step: "utf8_byte_length (str_join [NL] (out @ [l])) = cnt + ?lb"
    using Cons.prems(2) by (cases "out = []") (simp_all add: byte_length_join_snoc)
  show ?case
  proof (cases "cnt + ?lb > mb")
    case True
    with Cons.prems step show ?thesis by (intro exI [of _ 0]) (auto simp: Let_def)
  next
    case False
    with Cons.prems(1) have "head_loop mb rest (out @ [l] = []) (out @ [l]) (cnt + ?lb) = (out', cnt', by)"
      by (simp add: Let_def)
    from Cons.IH [OF this] step False obtain k where
      "out' = (out @ [l]) @ take k rest" "k \<le> length rest"
      "cnt' = utf8_byte_length (str_join [NL] out')" "cnt' \<le> mb"
      "by = ByLines \<longrightarrow> k = length rest"
      "by = ByBytes \<longrightarrow> k < length rest \<and>
         mb < utf8_byte_length (str_join [NL] ((out @ [l]) @ take (Suc k) rest))"
      by force
    then show ?thesis by (intro exI [of _ "Suc k"]) simp
  qed
qed

lemma split_lines_Nil_iff: "split_lines_for_counting s = [] \<longleftrightarrow> s = []"
proof
  assume a: "split_lines_for_counting s = []"
  show "s = []"
  proof (rule ccontr)
    assume ne: "s \<noteq> []"
    with a have l: "last s = NL" and b: "butlast (split_on NL s) = []"
      by (auto simp: split_lines_for_counting_def Let_def split: if_splits)
    from b obtain x where x: "split_on NL s = [x]"
      by (metis append_butlast_last_id append_Nil split_on_ne)
    then have "s = x" using join_split_on [of NL s] by simp
    with x split_on_no_sep [of x NL s] have "NL \<notin> set s" by simp
    with l ne show False by (metis last_in_set)
  qed
qed (simp add: split_lines_for_counting_def)

lemma truncate_head_cases:
  fixes content :: pystr
  defines "lines \<equiv> split_lines_for_counting content"
  obtains (fits) "length lines \<le> max_lines" "utf8_byte_length content \<le> max_bytes"
      "truncate_head content max_lines max_bytes =
         untruncated content (length lines) (utf8_byte_length content) max_lines max_bytes"
  | (first_too_long) "max_lines < length lines \<or> max_bytes < utf8_byte_length content"
      "max_bytes < utf8_byte_length (hd lines)" "lines \<noteq> []"
      "tr_content (truncate_head content max_lines max_bytes) = []"
      "tr_truncated (truncate_head content max_lines max_bytes)"
      "tr_output_lines (truncate_head content max_lines max_bytes) = 0"
      "tr_output_bytes (truncate_head content max_lines max_bytes) = 0"
  | (collected) out cnt "by" where
      "max_lines < length lines \<or> max_bytes < utf8_byte_length content"
      "head_loop max_bytes (take max_lines lines) True [] 0 = (out, cnt, by)"
      "tr_content (truncate_head content max_lines max_bytes) = str_join [NL] out"
      "tr_truncated (truncate_head content max_lines max_bytes)"
      "tr_output_lines (truncate_head content max_lines max_bytes) = length out"
      "tr_output_bytes (truncate_head content max_lines max_bytes) = utf8_byte_length (str_join [NL] out)"
proof (cases "length lines \<le> max_lines \<and> utf8_byte_length content \<le> max_bytes")
  case True
  then show ?thesis
    using fits by (simp add: truncate_head_def Let_def lines_def)
next
  case big: False
  then have big': "max_lines < length lines \<or> max_bytes < utf8_byte_length content" by auto
  have ne: "lines \<noteq> []"
    using big unfolding lines_def split_lines_Nil_iff by (auto simp: split_lines_for_counting_def)
  obtain out cnt "by" where loop: "head_loop max_bytes (take max_lines lines) True [] 0 = (out, cnt, by)"
    by (metis prod_cases3)
  note unfolded = truncate_head_def [of content max_lines max_bytes, unfolded Let_def,
      folded lines_def, unfolded if_not_P [OF big]]
  show ?thesis
  proof (cases "utf8_byte_length (hd lines) > max_bytes")
    case True
    with unfolded show ?thesis by (intro first_too_long [OF big' True ne]) simp_all
  next
    case False
    with unfolded loop show ?thesis by (intro collected [OF big' loop]) simp_all
  qed
qed

text \<open>
  C40. \<open>truncate_head\<close> reports truncation exactly when a limit is exceeded, keeps whole lines from the
  start only, respects both limits, reports the byte length of what it returns, and keeps as many
  lines as fit: one more line would exceed the byte limit.
\<close>

theorem truncate_head_keeps_a_maximal_prefix:
  "let r = truncate_head content max_lines max_bytes; lines = split_lines_for_counting content in
    tr_output_bytes r = utf8_byte_length (tr_content r) \<and>
    tr_output_bytes r \<le> max_bytes \<and> tr_output_lines r \<le> max_lines \<and>
    (tr_truncated r \<longleftrightarrow> max_lines < length lines \<or> max_bytes < utf8_byte_length content) \<and>
    (tr_truncated r \<longrightarrow> tr_content r = str_join [NL] (take (tr_output_lines r) lines)) \<and>
    (\<not> tr_truncated r \<longrightarrow> tr_content r = content) \<and>
    (tr_truncated r \<and> tr_output_lines r < min max_lines (length lines) \<longrightarrow>
       max_bytes < utf8_byte_length (str_join [NL] (take (Suc (tr_output_lines r)) lines)))"
proof (cases rule: truncate_head_cases [of content max_lines max_bytes])
  case fits
  then show ?thesis by (simp add: untruncated_def Let_def)
next
  case first_too_long
  then show ?thesis by (cases "split_lines_for_counting content") (auto simp: Let_def)
next
  case (collected out cnt "by")
  let ?lines = "split_lines_for_counting content"
  from head_loop_spec [of max_bytes "take max_lines ?lines" "[]" 0, simplified, OF collected(2)]
  obtain k where T: "out = take k (take max_lines ?lines)" "k \<le> max_lines" "k \<le> length ?lines"
    "utf8_byte_length (str_join [NL] out) \<le> max_bytes"
    "by = ByLines \<longrightarrow> k = length (take max_lines ?lines)"
    "by = ByBytes \<longrightarrow> k < length (take max_lines ?lines) \<and>
       max_bytes < utf8_byte_length (str_join [NL] (take (Suc k) (take max_lines ?lines)))"
    by (auto simp: min.commute)
  then have k: "out = take k ?lines" "k \<le> min max_lines (length ?lines)"
    "utf8_byte_length (str_join [NL] out) \<le> max_bytes"
    "by = ByLines \<longrightarrow> k = min max_lines (length ?lines)"
    "by = ByBytes \<longrightarrow> k < min max_lines (length ?lines) \<and>
       max_bytes < utf8_byte_length (str_join [NL] (take (Suc k) ?lines))"
    by (auto simp: min.commute min_def dest: Suc_leI split: if_splits)
  have len: "length out = k" using k(1,2) by simp
  have last: "k < min max_lines (length ?lines) \<Longrightarrow>
      max_bytes < utf8_byte_length (str_join [NL] (take (Suc k) ?lines))"
    using k(4,5) by (cases "by") auto
  show ?thesis using collected k len last by (auto simp: Let_def)
qed

theorem truncate_head_keeps_a_maximal_prefix_witness:
  "let r = truncate_head [97, NL, 98, 99, NL, 100] 5 4
   in tr_content r = [97, NL, 98, 99] \<and> tr_truncated r \<and> tr_output_lines r = 2 \<and>
      4 < utf8_byte_length (str_join [NL] [[97], [98, 99], [100]])"
proof -
  have r: "tr_content (truncate_head [97, NL, 98, 99, NL, 100] 5 4) = [97, NL, 98, 99]"
    "tr_truncated (truncate_head [97, NL, 98, 99, NL, 100] 5 4)"
    "tr_output_lines (truncate_head [97, NL, 98, 99, NL, 100] 5 4) = 2"
    by (simp_all add: truncate_head_def Let_def split_lines_for_counting_def byte_length_Cons char_width_def pair_start_def
        is_high_surrogate_def)
  with truncate_head_keeps_a_maximal_prefix [of "[97, NL, 98, 99, NL, 100]" 5 4]
  show ?thesis by (simp add: Let_def split_lines_for_counting_def numeral_3_eq_3)
qed

subsection \<open>truncate_tail\<close>

lemma char_width_of_surrogate: "is_surrogate c \<Longrightarrow> char_width c = 3"
  by (auto simp: is_surrogate_def char_width_def)

lemma surrogate_cases: "is_surrogate c \<longleftrightarrow> is_high_surrogate c \<or> is_low_surrogate c"
  by (auto simp: is_surrogate_def is_high_surrogate_def is_low_surrogate_def)

lemma not_high_and_low: "is_high_surrogate c \<Longrightarrow> \<not> is_low_surrogate c"
  by (auto simp: is_high_surrogate_def is_low_surrogate_def)

lemma byte_length_replace_unpaired:
  "utf8_byte_length (replace_unpaired_surrogates s) = utf8_byte_length s"
proof (induction s rule: replace_unpaired_surrogates.induct)
  case 1
  then show ?case by simp
next
  case (2 c cs)
  have fffd: "utf8_byte_length (0xFFFD # t) = 3 + utf8_byte_length t" for t
    using byte_length_Cons [of "0xFFFD" t]
    by (simp add: pair_start_def is_high_surrogate_def char_width_def)
  show ?case
  proof (cases "is_high_surrogate c")
    case high: True
    show ?thesis
    proof (cases cs)
      case Nil
      with high show ?thesis
        using fffd [of "[]"]
        by (simp add: byte_length_singleton char_width_of_surrogate surrogate_cases)
    next
      case (Cons d ds)
      show ?thesis
      proof (cases "is_low_surrogate d")
        case True
        with high Cons "2.IH" show ?thesis by (simp add: byte_length_pair)
      next
        case False
        then have "\<not> pair_start c cs" using Cons by (simp add: pair_start_def)
        then have "utf8_byte_length (c # cs) = 3 + utf8_byte_length cs"
          using byte_length_Cons high by (simp add: char_width_of_surrogate surrogate_cases)
        with high False Cons "2.IH" show ?thesis by (simp add: fffd)
      qed
    qed
  next
    case nh: False
    then have np: "\<not> pair_start c t" for t by (simp add: pair_start_def)
    show ?thesis
    proof (cases "is_low_surrogate c")
      case True
      with nh "2.IH" show ?thesis
        using byte_length_Cons [OF np, of cs]
        by (simp add: fffd char_width_of_surrogate surrogate_cases)
    next
      case False
      with nh "2.IH" show ?thesis
        using byte_length_Cons [OF np, of cs] byte_length_Cons [OF np, of "replace_unpaired_surrogates cs"]
        by simp
    qed
  qed
qed

text \<open>
  The scan keeps a suffix whose byte length it tracks; the suffix never starts between the
  halves of a surrogate pair.
\<close>

lemma from_end_loop_spec:
  assumes "from_end_loop mb before bytes kept repl = (kept', repl')"
    and "kept = length suf" "bytes = utf8_byte_length suf" "bytes \<le> mb"
    and "before \<noteq> [] \<Longrightarrow> \<not> pair_start (hd before) suf"
  shows "\<exists>suf'. suffix suf' (rev before @ suf) \<and> length suf' = kept' \<and>
    utf8_byte_length suf' \<le> mb"
  using assms
proof (induction mb before bytes kept repl arbitrary: suf rule: from_end_loop.induct)
  case (1 mb bytes kept repl)
  then show ?case by auto
next
  case (2 mb c before bytes kept repl)
  let ?step = "if is_low_surrogate c \<and> before \<noteq> [] then
          (if is_high_surrogate (hd before) then (2, 4, False) else (1, 3, True))
        else if is_surrogate c then (1, 3, True)
        else if c > 0xFFFF then (1, 4, False)
        else (1, if c \<le> 0x7F then 1 else if c \<le> 0x7FF then 2 else 3, False) :: nat \<times> nat \<times> bool"
  obtain width cb unp where st: "?step = (width, cb, unp)" by (rule prod_cases3)
  show ?case
  proof (cases "bytes + cb > mb")
    case True
    with "2.prems" st have "kept' = kept" by (simp add: Let_def)
    with "2.prems" show ?thesis by (intro exI [of _ suf]) (simp add: suffix_def)
  next
    case False
    have rec: "from_end_loop mb (drop (width - 1) before) (bytes + cb) (kept + width) (repl \<or> unp) = (kept', repl')"
      using "2.prems"(1) st False by (simp add: Let_def)
    show ?thesis
    proof (cases "is_low_surrogate c \<and> before \<noteq> [] \<and> is_high_surrogate (hd before)")
      case True
      then obtain h bs where b: "before = h # bs" by (cases before) auto
      with st True have w: "width = 2" "cb = 4" by auto
      let ?suf = "h # c # suf"
      have hi: "is_high_surrogate h" using True b by simp
      have "\<not> pair_start x ?suf" for x
        using not_high_and_low [OF hi] by (simp add: pair_start_def)
      moreover have "utf8_byte_length ?suf = bytes + cb"
        using byte_length_pair [OF hi] True w "2.prems"(3) by simp
      ultimately have "\<exists>suf'. suffix suf' (rev (drop (width - 1) before) @ ?suf) \<and>
          length suf' = kept' \<and> utf8_byte_length suf' \<le> mb"
        using "2.IH" [OF st [symmetric] refl refl False rec, of ?suf] False "2.prems"(2) w by simp
      with b w show ?thesis by simp
    next
      case nopair: False
      have w: "width = 1" using st nopair by (auto split: if_splits)
      have np: "\<not> pair_start c suf" using "2.prems"(5) by simp
      have cb: "cb = char_width c"
        using st nopair
        by (auto simp: char_width_def is_surrogate_def is_low_surrogate_def split: if_splits)
      have len: "utf8_byte_length (c # suf) = bytes + cb"
        using byte_length_Cons [OF np] cb "2.prems"(3) by simp
      have nx: "before \<noteq> [] \<Longrightarrow> \<not> pair_start (hd before) (c # suf)"
        using nopair by (auto simp: pair_start_def)
      have "\<exists>suf'. suffix suf' (rev (drop (width - 1) before) @ c # suf) \<and>
          length suf' = kept' \<and> utf8_byte_length suf' \<le> mb"
        using "2.IH" [OF st [symmetric] refl refl False rec, of "c # suf"] False "2.prems"(2) w len nx
        by simp
      with w show ?thesis by simp
    qed
  qed
qed

lemma suffix_drop_length: "suffix s t \<Longrightarrow> s = drop (length t - length s) t"
  by (auto simp: suffix_def)

lemma truncate_string_from_end_fits:
  "utf8_byte_length (truncate_string_to_bytes_from_end content mb) \<le> mb"
proof (cases "mb = 0")
  case True
  then show ?thesis by (simp add: truncate_string_to_bytes_from_end_def)
next
  case False
  obtain kept repl where loop: "from_end_loop mb (rev content) 0 0 False = (kept, repl)"
    by (metis surj_pair)
  from from_end_loop_spec [OF loop, of "[]"] obtain suf where
    suf: "suffix suf content" "length suf = kept" "utf8_byte_length suf \<le> mb"
    by (auto simp: pair_start_def)
  then have "drop (length content - kept) content = suf" using suffix_drop_length by metis
  with loop suf False show ?thesis
    by (simp add: truncate_string_to_bytes_from_end_def byte_length_replace_unpaired)
qed

lemma tail_loop_spec:
  assumes "tail_loop ml mb rest out cnt = (out', cnt', by, partial)"
    and "cnt = utf8_byte_length (str_join [NL] out)" "cnt \<le> mb" "length out \<le> ml"
  shows "cnt' = utf8_byte_length (str_join [NL] out') \<and> cnt' \<le> mb \<and> length out' \<le> max ml 1 \<and>
    (partial \<longrightarrow> out = [] \<and> 0 < ml \<and> rest \<noteq> [] \<and> mb < utf8_byte_length (hd rest) \<and>
       out' = [truncate_string_to_bytes_from_end (hd rest) mb]) \<and>
    (\<not> partial \<longrightarrow> (\<exists>k \<le> length rest. out' = rev (take k rest) @ out \<and> length out' \<le> ml \<and>
       (length out' < ml \<and> k < length rest \<longrightarrow>
          mb < utf8_byte_length (str_join [NL] (rest ! k # out')))))"
  using assms
proof (induction ml mb rest out cnt rule: tail_loop.induct)
  case (1 ml mb out cnt)
  then show ?case by auto
next
  case (2 ml mb l rest out cnt)
  let ?lb = "utf8_byte_length l + (if out \<noteq> [] then 1 else 0)"
  have step: "utf8_byte_length (str_join [NL] (l # out)) = cnt + ?lb"
    using "2.prems"(2) by (cases "out = []") (simp_all add: byte_length_join_Cons)
  consider "ml \<le> length out" | "length out < ml" "cnt + ?lb > mb" "out = []"
    | "length out < ml" "cnt + ?lb > mb" "out \<noteq> []" | "length out < ml" "cnt + ?lb \<le> mb"
    by linarith
  then show ?case
  proof cases
    case 1
    with "2.prems" show ?thesis by (auto intro!: exI [of _ 0])
  next
    case 2
    with "2.prems" show ?thesis
      using truncate_string_from_end_fits [of l mb] by (auto simp: Let_def)
  next
    case 3
    with "2.prems" step show ?thesis by (auto simp: Let_def intro!: exI [of _ 0])
  next
    case 4
    then have rec: "tail_loop ml mb rest (l # out) (cnt + ?lb) = (out', cnt', by, partial)"
      using "2.prems"(1) by (simp add: Let_def)
    have prems: "\<not> ml \<le> length out" "\<not> mb < cnt + ?lb" "length (l # out) \<le> ml"
      "cnt + ?lb = utf8_byte_length (str_join [NL] (l # out))" "cnt + ?lb \<le> mb"
      using 4 step by simp_all
    note IH0 = "2.IH" [OF prems(1) refl prems(2) rec prems(4) prems(5) prems(3)]
    have np: "\<not> partial" using IH0 by blast
    have IH: "\<exists>k \<le> length rest. out' = rev (take k rest) @ l # out \<and> length out' \<le> ml \<and>
         (length out' < ml \<and> k < length rest \<longrightarrow>
            mb < utf8_byte_length (str_join [NL] (rest ! k # out')))"
      using IH0 np by blast
    then obtain k where "k \<le> length rest" "out' = rev (take k rest) @ l # out" "length out' \<le> ml"
      "length out' < ml \<and> k < length rest \<longrightarrow> mb < utf8_byte_length (str_join [NL] (rest ! k # out'))"
      by blast
    then have "Suc k \<le> length (l # rest) \<and> out' = rev (take (Suc k) (l # rest)) @ out \<and>
        length out' \<le> ml \<and> (length out' < ml \<and> Suc k < length (l # rest) \<longrightarrow>
          mb < utf8_byte_length (str_join [NL] ((l # rest) ! Suc k # out')))"
      by simp
    with IH0 np show ?thesis by blast
  qed
qed


text \<open>
  \<open>truncate_tail\<close> keeps whole lines from the end within both limits and as many of them as fit;
  only when the last line alone is longer than the byte limit does it return a partial line, the end
  of that line cut to the limit.
\<close>

theorem truncate_tail_keeps_a_maximal_suffix:
  assumes "0 < max_lines"
  shows "let r = truncate_tail content max_lines max_bytes; lines = split_lines_for_counting content in
    tr_output_bytes r = utf8_byte_length (tr_content r) \<and>
    tr_output_lines r \<le> max_lines \<and> tr_output_bytes r \<le> max_bytes \<and>
    (tr_truncated r \<longleftrightarrow> max_lines < length lines \<or> max_bytes < utf8_byte_length content) \<and>
    (\<not> tr_truncated r \<longrightarrow> tr_content r = content) \<and>
    (tr_last_line_partial r \<longrightarrow> max_bytes < utf8_byte_length (last lines) \<and>
       tr_content r = truncate_string_to_bytes_from_end (last lines) max_bytes) \<and>
    (tr_truncated r \<and> \<not> tr_last_line_partial r \<longrightarrow>
       tr_content r = str_join [NL] (drop (length lines - tr_output_lines r) lines) \<and>
       tr_output_lines r \<le> length lines \<and>
       (tr_output_lines r < min max_lines (length lines) \<longrightarrow>
          max_bytes < utf8_byte_length
            (str_join [NL] (drop (length lines - Suc (tr_output_lines r)) lines))))"
proof (cases "length (split_lines_for_counting content) \<le> max_lines \<and> utf8_byte_length content \<le> max_bytes")
  case True
  then show ?thesis by (simp add: truncate_tail_def untruncated_def Let_def)
next
  case big: False
  let ?lines = "split_lines_for_counting content"
  let ?r = "truncate_tail content max_lines max_bytes"
  obtain out cnt "by" partial where
    loop: "tail_loop max_lines max_bytes (rev ?lines) [] 0 = (out, cnt, by, partial)"
    by (rule prod_cases4)
  note unfolded = truncate_tail_def [of content max_lines max_bytes, unfolded Let_def, unfolded if_not_P [OF big]]
  have r: "tr_content ?r = str_join [NL] out" "tr_truncated ?r" "tr_output_lines ?r = length out"
    "tr_output_bytes ?r = utf8_byte_length (str_join [NL] out)" "tr_last_line_partial ?r = partial"
    unfolding unfolded loop by simp_all
  note spec = tail_loop_spec [OF loop, simplified]
  have bounds: "utf8_byte_length (str_join [NL] out) \<le> max_bytes" "length out \<le> max_lines"
    using spec assms by auto
  show ?thesis
  proof (cases partial)
    case True
    with spec have "?lines \<noteq> []" "max_bytes < utf8_byte_length (last ?lines)"
      "out = [truncate_string_to_bytes_from_end (last ?lines) max_bytes]"
      by (auto simp: hd_rev)
    with True r bounds big show ?thesis by (auto simp: Let_def)
  next
    case False
    with spec obtain k where k: "k \<le> length ?lines" "out = rev (take k (rev ?lines))"
      "length out < max_lines \<and> k < length ?lines \<longrightarrow>
         max_bytes < utf8_byte_length (str_join [NL] (rev ?lines ! k # out))"
      by blast
    have out: "out = drop (length ?lines - k) ?lines" using k(1,2) by (simp add: rev_take)
    have len: "length out = k" using k(1) out by simp
    have more: "rev ?lines ! k # out = drop (length ?lines - Suc k) ?lines" if "k < length ?lines"
    proof -
      have "drop (length ?lines - Suc k) ?lines =
          ?lines ! (length ?lines - Suc k) # drop (Suc (length ?lines - Suc k)) ?lines"
        using that by (simp add: Cons_nth_drop_Suc)
      with that out show ?thesis by (simp add: rev_nth Suc_diff_Suc)
    qed
    have mx: "max_bytes < utf8_byte_length (str_join [NL] (drop (length ?lines - Suc k) ?lines))"
      if "k < max_lines" "k < length ?lines"
      using k(3) len more that by auto
    show ?thesis using False r bounds big out len k(1) mx by (auto simp: Let_def)
  qed
qed

theorem truncate_tail_keeps_a_maximal_suffix_witness:
  "0 < (2::nat) \<and> tr_content (truncate_tail (lit ''ab'' @ [NL] @ lit ''cd'' @ [NL] @ lit ''ef'') 2 100) =
     lit ''cd'' @ [NL] @ lit ''ef''"
  using truncate_tail_keeps_a_maximal_suffix [of 2 "lit ''ab'' @ [NL] @ lit ''cd'' @ [NL] @ lit ''ef''" 100]
  by (simp add: truncate_tail_def split_lines_for_counting_def Let_def lit_def utf8_byte_length.simps(2))

subsection \<open>truncate_middle\<close>

lemma shrink_head_boundary:
  "is_boundary buf 0 \<Longrightarrow> is_boundary buf (shrink_head buf n) \<and> shrink_head buf n \<le> n"
  by (induction n) auto

lemma advance_tail_boundary:
  "i \<le> length buf \<Longrightarrow> is_boundary buf (advance_tail buf i) \<and>
     i \<le> advance_tail buf i \<and> advance_tail buf i \<le> length buf"
proof (induction buf i rule: advance_tail.induct)
  case (1 buf i)
  show ?case
  proof (cases "i < length buf \<and> \<not> is_boundary buf i")
    case True
    with "1.IH" show ?thesis by (auto simp: advance_tail.simps [of buf i])
  next
    case False
    with "1.prems" show ?thesis by (auto simp: advance_tail.simps [of buf i] is_boundary_def)
  qed
qed

lemma boundary_append: "is_boundary (xs @ ys) i \<Longrightarrow> i \<le> length xs \<Longrightarrow> is_boundary xs i"
  by (auto simp: is_boundary_def nth_append)

text \<open>
  On text without lone surrogates, \<open>truncate_middle\<close> splits an oversized content into a start, a
  middle and an end at character boundaries, shows the start and the end (each within half of the
  byte limit) around the marker, and the marker counts exactly the characters left out.
\<close>

theorem truncate_middle_keeps_both_ends:
  assumes "list_all scalar content" and "max_bytes < length (utf8_encode content)"
  shows "\<exists>head mid tail. content = head @ mid @ tail \<and>
    length (utf8_encode head) \<le> max_bytes div 2 \<and>
    length (utf8_encode tail) \<le> max_bytes - max_bytes div 2 \<and>
    mt_removed_chars (truncate_middle content max_bytes) = length mid \<and>
    mt_content (truncate_middle content max_bytes) =
      head @ [0x2026] @ nat_digits (length mid) @ lit '' chars truncated'' @ [0x2026] @ tail"
proof -
  let ?buf = "utf8_encode content"
  define h where "h = shrink_head ?buf (max_bytes div 2)"
  define t where "t = advance_tail ?buf (length ?buf - (max_bytes - max_bytes div 2))"
  have h: "is_boundary ?buf h" "h \<le> max_bytes div 2"
    unfolding h_def using shrink_head_boundary boundary_0 [OF assms(1)] by blast+
  have t: "is_boundary ?buf t" "length ?buf - (max_bytes - max_bytes div 2) \<le> t" "t \<le> length ?buf"
    unfolding t_def
    using advance_tail_boundary [of "length ?buf - (max_bytes - max_bytes div 2)" ?buf] by auto
  have ht: "h \<le> t" using h(2) t(2) assms(2) by linarith
  obtain s1 s2 where s: "content = s1 @ s2" "take t ?buf = utf8_encode s1" "drop t ?buf = utf8_encode s2"
    "length (utf8_encode s1) = t"
    using boundary_split [OF assms(1) t(1) t(3)] by blast
  have sc: "list_all scalar s1" "list_all scalar s2" using assms(1) s(1) by auto
  have "is_boundary (utf8_encode s1) h"
    using boundary_append [of "utf8_encode s1" "utf8_encode s2" h] h(1) ht s(1,4) by simp
  then obtain a m where am: "s1 = a @ m" "take h (utf8_encode s1) = utf8_encode a"
    "drop h (utf8_encode s1) = utf8_encode m" "length (utf8_encode a) = h"
    using boundary_split [OF sc(1)] ht s(4) by metis
  have sc': "list_all scalar a" "list_all scalar m" using sc(1) am(1) by auto
  have head: "take h ?buf = utf8_encode a" using am(1,4) s(1) by simp
  have mid: "slice h t ?buf = utf8_encode m" using am(3) s(2) by (simp add: slice_def)
  have len: "length (utf8_encode s2) \<le> max_bytes - max_bytes div 2"
  proof -
    have "length (utf8_encode s2) = length ?buf - t" using s(3) by (metis length_drop)
    with t(2,3) show ?thesis by linarith
  qed
  have "mt_removed_chars (truncate_middle content max_bytes) = length m \<and>
      mt_content (truncate_middle content max_bytes) =
      a @ [0x2026] @ nat_digits (length m) @ lit '' chars truncated'' @ [0x2026] @ s2"
    using assms(2) unfolding truncate_middle_def Let_def h_def [symmetric] t_def [symmetric] head mid s(3)
    by (simp add: utf8_decode_encode sc sc')
  moreover have "content = a @ m @ s2" using s(1) am(1) by simp
  moreover have "length (utf8_encode a) \<le> max_bytes div 2" using am(4) h(2) by simp
  ultimately show ?thesis using len by blast
qed

theorem truncate_middle_keeps_both_ends_witness:
  "list_all scalar (lit ''abcdefgh'') \<and>
   mt_content (truncate_middle (lit ''abcdefgh'') 4) =
     lit ''ab'' @ [0x2026] @ lit ''4 chars truncated'' @ [0x2026] @ lit ''gh''"
proof -
  have h: "list_all scalar (lit ''abcdefgh'')" "4 < length (utf8_encode (lit ''abcdefgh''))"
    by (simp_all add: lit_def scalar_def is_surrogate_def encode_char_def)
  obtain head mid tail where *: "lit ''abcdefgh'' = head @ mid @ tail"
      "mt_removed_chars (truncate_middle (lit ''abcdefgh'') 4) = length mid"
    using truncate_middle_keeps_both_ends [OF h] by blast
  have "mt_content (truncate_middle (lit ''abcdefgh'') 4) =
     lit ''ab'' @ [0x2026] @ lit ''4 chars truncated'' @ [0x2026] @ lit ''gh''"
    by code_simp
  with h * show ?thesis by blast
qed

end
