(* ===== verification/Messages.thy ===== *)
theory Messages
  imports Prelude "HOL-Library.List_Lexorder"
begin

section \<open>Messages, tools and usage (pidrei_ai/types.py, core/messages.py)\<close>

text \<open>
  The message types shared by every component: content blocks, the four LLM messages, the
  coding agent's own messages and the conversion between them, with the helpers
  \<open>content_text\<close>, \<open>get_system_message_text\<close> and \<open>combine_usage\<close>. Python floats appear as their
  bit pattern; no definition here computes with one except \<open>combine_usage\<close>, which takes the
  floating-point addition as a parameter. JSON numbers with a fraction are kept as their text.
\<close>

subsection \<open>JSON values and their text\<close>

datatype json =
    JNull
  | JBool bool
  | JInt int
  | JFloat pystr
  | JStr pystr
  | JArr "json list"
  | JObj "(pystr \<times> json) list"

definition hex_digit :: "nat \<Rightarrow> nat" where
  "hex_digit n = (if n < 10 then 48 + n else 87 + n)"

definition u_escape :: "nat \<Rightarrow> pystr" where
  "u_escape c = lit [CHR 0x5C, CHR ''u''] @
     [hex_digit (c div 4096 mod 16), hex_digit (c div 256 mod 16), hex_digit (c div 16 mod 16), hex_digit (c mod 16)]"

text \<open>The escapes of \<open>json.dumps\<close>; \<open>ascii\<close> is its \<open>ensure_ascii\<close>.\<close>

definition json_escape_char :: "bool \<Rightarrow> nat \<Rightarrow> pystr" where
  "json_escape_char ascii c =
    (if c = 34 \<or> c = 92 then [92, c]
     else if c = 10 then [92, 110] else if c = 13 then [92, 114] else if c = 9 then [92, 116]
     else if c = 8 then [92, 98] else if c = 12 then [92, 102]
     else if c < 32 \<or> (ascii \<and> c > 126 \<and> c \<le> 0xFFFF) then u_escape c
     else if ascii \<and> c > 0xFFFF then
       u_escape (0xD800 + (c - 0x10000) div 1024) @ u_escape (0xDC00 + (c - 0x10000) mod 1024)
     else [c])"

definition json_str :: "bool \<Rightarrow> pystr \<Rightarrow> pystr" where
  "json_str ascii s = [34] @ concat (map (json_escape_char ascii) s) @ [34]"

text \<open>\<open>json.dumps(v, ensure_ascii=ascii, separators=(isep, ksep))\<close>.\<close>

fun json_dumps :: "bool \<Rightarrow> pystr \<Rightarrow> pystr \<Rightarrow> json \<Rightarrow> pystr" where
  "json_dumps a isep ksep JNull = lit ''null''"
| "json_dumps a isep ksep (JBool b) = (if b then lit ''true'' else lit ''false'')"
| "json_dumps a isep ksep (JInt i) = int_str i"
| "json_dumps a isep ksep (JFloat t) = t"
| "json_dumps a isep ksep (JStr s) = json_str a s"
| "json_dumps a isep ksep (JArr vs) = [91] @ str_join isep (map (json_dumps a isep ksep) vs) @ [93]"
| "json_dumps a isep ksep (JObj kvs) =
     [123] @ str_join isep (map (\<lambda>kv. json_str a (fst kv) @ ksep @ json_dumps a isep ksep (snd kv)) kvs) @ [125]"

text \<open>The key order of \<open>sort_keys=True\<close>, at every depth.\<close>

fun json_sort_keys :: "json \<Rightarrow> json" where
  "json_sort_keys (JArr vs) = JArr (map json_sort_keys vs)"
| "json_sort_keys (JObj kvs) =
     JObj (sort_key fst (map (\<lambda>kv. (fst kv, json_sort_keys (snd kv))) kvs))"
| "json_sort_keys v = v"

subsection \<open>Usage\<close>

type_synonym pyfloat = nat

record usage_cost =
  uc_input :: pyfloat
  uc_output :: pyfloat
  uc_cache_read :: pyfloat
  uc_cache_write :: pyfloat
  uc_total :: pyfloat

record usage =
  us_input :: int
  us_output :: int
  us_cache_read :: int
  us_cache_write :: int
  us_cache_write_1h :: "int option"
  us_reasoning :: "int option"
  us_total_tokens :: int
  us_cost :: usage_cost

definition add_optional :: "int option \<Rightarrow> int option \<Rightarrow> int option" where
  "add_optional x y =
    (if x \<noteq> None \<or> y \<noteq> None
     then Some ((case x of None \<Rightarrow> 0 | Some a \<Rightarrow> a) + (case y of None \<Rightarrow> 0 | Some b \<Rightarrow> b)) else None)"

definition combine_usage :: "(pyfloat \<Rightarrow> pyfloat \<Rightarrow> pyfloat) \<Rightarrow> usage \<Rightarrow> usage \<Rightarrow> usage" where
  "combine_usage fadd first second =
    \<lparr>us_input = us_input first + us_input second,
     us_output = us_output first + us_output second,
     us_cache_read = us_cache_read first + us_cache_read second,
     us_cache_write = us_cache_write first + us_cache_write second,
     us_cache_write_1h = add_optional (us_cache_write_1h first) (us_cache_write_1h second),
     us_reasoning = add_optional (us_reasoning first) (us_reasoning second),
     us_total_tokens = us_total_tokens first + us_total_tokens second,
     us_cost =
       \<lparr>uc_input = fadd (uc_input (us_cost first)) (uc_input (us_cost second)),
        uc_output = fadd (uc_output (us_cost first)) (uc_output (us_cost second)),
        uc_cache_read = fadd (uc_cache_read (us_cost first)) (uc_cache_read (us_cost second)),
        uc_cache_write = fadd (uc_cache_write (us_cost first)) (uc_cache_write (us_cost second)),
        uc_total = fadd (uc_total (us_cost first)) (uc_total (us_cost second))\<rparr>\<rparr>"

subsection \<open>Tools and content blocks\<close>

text \<open>\<open>constrained_sampling\<close>: \<open>None\<close>, \<open>False\<close>, a JSON schema or a grammar.\<close>

datatype sampling = SamplingFalse | SamplingJsonSchema pystr | SamplingGrammar "(pystr, pystr) dict"

record tool =
  tool_name :: pystr
  tool_description :: pystr
  tool_parameters :: json
  tool_sampling :: "sampling option"

record tool_call =
  call_id :: pystr
  call_name :: pystr
  call_arguments :: "(pystr, json) dict"
  call_thought_signature :: "pystr option"
  call_namespace :: "pystr option"
  call_arguments_error :: "pystr option"

datatype block =
    TextContent pystr "pystr option"
  | ThinkingContent pystr "pystr option" bool
  | ImageContent pystr pystr
  | ToolCallContent tool_call

text \<open>A declaration on the wire (core/message_wire.py).\<close>

definition serialize_tool :: "tool \<Rightarrow> json" where
  "serialize_tool t =
    JObj ([(lit ''name'', JStr (tool_name t)), (lit ''description'', JStr (tool_description t)),
           (lit ''parameters'', tool_parameters t)] @
      (case tool_sampling t of
         None \<Rightarrow> []
       | Some SamplingFalse \<Rightarrow> [(lit ''constrainedSampling'', JBool False)]
       | Some (SamplingJsonSchema strict) \<Rightarrow>
           [(lit ''constrainedSampling'', JObj [(lit ''type'', JStr (lit ''json_schema'')), (lit ''strict'', JStr strict)])]
       | Some (SamplingGrammar variants) \<Rightarrow>
           [(lit ''constrainedSampling'', JObj [(lit ''type'', JStr (lit ''grammar'')),
              (lit ''variants'', JObj (map (\<lambda>(k, v). (k, JStr v)) variants))])]))"

text \<open>\<open>str | list[...]\<close> content.\<close>

datatype content = StrContent pystr | Blocks "block list"

fun is_image :: "block \<Rightarrow> bool" where
  "is_image (ImageContent d m) = True"
| "is_image _ = False"

fun is_text :: "block \<Rightarrow> bool" where
  "is_text (TextContent t s) = True"
| "is_text _ = False"

fun tool_calls_of :: "block list \<Rightarrow> tool_call list" where
  "tool_calls_of [] = []"
| "tool_calls_of (ToolCallContent c # bs) = c # tool_calls_of bs"
| "tool_calls_of (_ # bs) = tool_calls_of bs"

subsection \<open>Messages\<close>

datatype stop_reason = Pending | Stop | StopLength | ToolUse | StopError | Aborted | StopDeferred

record system_message =
  sm_content :: content
  sm_timestamp :: int
  sm_sections :: "(pystr, pystr option) dict option"
  sm_tools_added :: "tool list option"
  sm_tools_removed :: "pystr list option"

record user_message =
  um_content :: content
  um_timestamp :: int

record assistant_message =
  am_content :: "block list"
  am_api :: pystr
  am_provider :: pystr
  am_model :: pystr
  am_usage :: "usage option"
  am_stop_reason :: stop_reason
  am_timestamp :: int
  am_response_model :: "pystr option"
  am_response_id :: "pystr option"
  am_provider_thinking_level :: "pystr option"
  am_thinking_level :: "pystr option"
  am_diagnostics :: "json option"
  am_error_message :: "pystr option"
  am_raw_stop_reason :: "pystr option"
  am_end_turn :: "bool option"
  am_deferred :: "json option"
  am_duration_ms :: "int option"

record nested_call_record =
  nc_id :: pystr
  nc_name :: pystr
  nc_status :: pystr
  nc_arguments :: "(pystr, json) dict option"
  nc_arguments_bytes :: "int option"
  nc_duration_ms :: "int option"
  nc_error :: "pystr option"

record nested_tool_calls =
  ntc_calls :: "nested_call_record list"
  ntc_complete :: bool

record tool_result_message =
  trm_tool_call_id :: pystr
  trm_tool_name :: pystr
  trm_content :: "block list"
  trm_is_error :: bool
  trm_timestamp :: int
  trm_details :: json
  trm_usage :: "usage option"
  trm_nested_calls :: "nested_tool_calls option"
  trm_duration_ms :: "int option"

record bash_execution_message =
  bm_command :: pystr
  bm_output :: pystr
  bm_exit_code :: "int option"
  bm_cancelled :: bool
  bm_truncated :: bool
  bm_timestamp :: int
  bm_full_output_path :: "pystr option"
  bm_exclude_from_context :: "bool option"

record custom_message =
  cm_custom_type :: pystr
  cm_content :: content
  cm_display :: bool
  cm_timestamp :: int
  cm_details :: json

record branch_summary_message =
  bs_summary :: pystr
  bs_from_id :: "pystr option"
  bs_timestamp :: int

record compaction_summary_message =
  cs_summary :: pystr
  cs_tokens_before :: int
  cs_timestamp :: int

text \<open>\<open>OtherMsg\<close> is an application-defined message; only its role is known.\<close>

datatype message =
    SystemMsg system_message
  | UserMsg user_message
  | AssistantMsg assistant_message
  | ToolResultMsg tool_result_message
  | BashMsg bash_execution_message
  | CustomMsg custom_message
  | BranchSummaryMsg branch_summary_message
  | CompactionSummaryMsg compaction_summary_message
  | OtherMsg pystr

text \<open>
  Messages read from files or handed over by untyped callers may have a null \<open>content\<close>:
  \<open>NullContent m\<close> is such a message, \<open>m\<close> holding its other fields.
\<close>

datatype raw_message = FullMsg message | NullContent message

fun is_system_msg :: "message \<Rightarrow> bool" where
  "is_system_msg (SystemMsg m) = True"
| "is_system_msg _ = False"

fun is_assistant_msg :: "message \<Rightarrow> bool" where
  "is_assistant_msg (AssistantMsg m) = True"
| "is_assistant_msg _ = False"

fun system_messages :: "message list \<Rightarrow> system_message list" where
  "system_messages [] = []"
| "system_messages (SystemMsg s # ms) = s # system_messages ms"
| "system_messages (_ # ms) = system_messages ms"

lemma system_messages_append [simp]:
  "system_messages (xs @ ys) = system_messages xs @ system_messages ys"
  by (induction xs rule: system_messages.induct) auto

lemma system_messages_none: "\<forall>m \<in> set ms. \<not> is_system_msg m \<Longrightarrow> system_messages ms = []"
  by (induction ms rule: system_messages.induct) auto

lemma tool_calls_of_append [simp]: "tool_calls_of (xs @ ys) = tool_calls_of xs @ tool_calls_of ys"
  by (induction xs rule: tool_calls_of.induct) auto

subsection \<open>Text of a message (utils/text.py)\<close>

fun block_texts :: "block list \<Rightarrow> pystr list" where
  "block_texts [] = []"
| "block_texts (TextContent t s # bs) = t # block_texts bs"
| "block_texts (_ # bs) = block_texts bs"

fun content_text :: "pystr \<Rightarrow> content \<Rightarrow> pystr" where
  "content_text separator (StrContent s) = s"
| "content_text separator (Blocks bs) = str_join separator (block_texts bs)"

definition sections_of :: "system_message \<Rightarrow> (pystr, pystr option) dict" where
  "sections_of m = (case sm_sections m of None \<Rightarrow> [] | Some d \<Rightarrow> d)"

definition get_system_message_text :: "system_message \<Rightarrow> pystr" where
  "get_system_message_text message =
    (let parts = content_text [NL] (sm_content message)
           # List.map_filter snd (sections_of message)
     in str_join [NL, NL] (filter (\<lambda>part. part \<noteq> []) parts))"

definition render_system_message_update :: "system_message \<Rightarrow> pystr" where
  "render_system_message_update message =
    (let t = content_text [NL] (sm_content message);
         parts = (if t \<noteq> [] then [t] else []) @
           map (\<lambda>(name, value). case value of
              None \<Rightarrow> lit ''Removed system prompt section '' @ [34] @ name @ [34] @ lit ''.''
            | Some v \<Rightarrow> lit ''Updated system prompt section '' @ [34] @ name @ [34] @ lit '':'' @ [NL, NL] @ v)
             (sections_of message)
     in str_join [NL, NL] parts)"

subsection \<open>Conversion to LLM messages (core/messages.py)\<close>

definition COMPACTION_SUMMARY_PREFIX :: pystr where
  "COMPACTION_SUMMARY_PREFIX =
     lit ''The conversation history before this point was compacted into the following summary:''
       @ [NL, NL] @ lit ''<summary>'' @ [NL]"

definition COMPACTION_SUMMARY_SUFFIX :: pystr where
  "COMPACTION_SUMMARY_SUFFIX = [NL] @ lit ''</summary>''"

definition BRANCH_SUMMARY_PREFIX :: pystr where
  "BRANCH_SUMMARY_PREFIX =
     lit ''The following is a summary of a branch that this conversation came back from:''
       @ [NL, NL] @ lit ''<summary>'' @ [NL]"

definition BRANCH_SUMMARY_SUFFIX :: pystr where
  "BRANCH_SUMMARY_SUFFIX = lit ''</summary>''"

definition bash_execution_to_text :: "bash_execution_message \<Rightarrow> pystr" where
  "bash_execution_to_text msg =
    lit ''Ran `'' @ bm_command msg @ lit ''`'' @ [NL]
    @ (if bm_output msg \<noteq> [] then lit ''```'' @ [NL] @ bm_output msg @ [NL] @ lit ''```''
       else lit ''(no output)'')
    @ (if bm_cancelled msg then [NL, NL] @ lit ''(command cancelled)''
       else case bm_exit_code msg of
         Some code \<Rightarrow> if code \<noteq> 0 then [NL, NL] @ lit ''Command exited with code '' @ int_str code else []
       | None \<Rightarrow> [])
    @ (case bm_full_output_path msg of
         Some path \<Rightarrow> if bm_truncated msg \<and> path \<noteq> []
           then [NL, NL] @ lit ''[Output truncated. Full output: '' @ path @ lit '']'' else []
       | None \<Rightarrow> [])"

definition text_block :: "pystr \<Rightarrow> block" where
  "text_block t = TextContent t None"

fun convert_message :: "message \<Rightarrow> message list" where
  "convert_message (BashMsg m) =
    (if bm_exclude_from_context m = Some True then []
     else [UserMsg \<lparr>um_content = Blocks [text_block (bash_execution_to_text m)], um_timestamp = bm_timestamp m\<rparr>])"
| "convert_message (CustomMsg m) =
    [UserMsg \<lparr>um_content = (case cm_content m of StrContent s \<Rightarrow> Blocks [text_block s] | Blocks bs \<Rightarrow> Blocks bs),
              um_timestamp = cm_timestamp m\<rparr>]"
| "convert_message (BranchSummaryMsg m) =
    [UserMsg \<lparr>um_content = Blocks [text_block (BRANCH_SUMMARY_PREFIX @ bs_summary m @ BRANCH_SUMMARY_SUFFIX)],
              um_timestamp = bs_timestamp m\<rparr>]"
| "convert_message (CompactionSummaryMsg m) =
    [UserMsg \<lparr>um_content = Blocks [text_block (COMPACTION_SUMMARY_PREFIX @ cs_summary m @ COMPACTION_SUMMARY_SUFFIX)],
              um_timestamp = cs_timestamp m\<rparr>]"
| "convert_message (OtherMsg role) = []"
| "convert_message m = [m]"

definition convert_to_llm :: "message list \<Rightarrow> message list" where
  "convert_to_llm messages = concat (map convert_message messages)"

fun is_llm_msg :: "message \<Rightarrow> bool" where
  "is_llm_msg (SystemMsg m) = True"
| "is_llm_msg (UserMsg m) = True"
| "is_llm_msg (AssistantMsg m) = True"
| "is_llm_msg (ToolResultMsg m) = True"
| "is_llm_msg _ = False"

lemma convert_message_llm: "x \<in> set (convert_message m) \<Longrightarrow> is_llm_msg x"
  by (cases m) (auto split: if_splits)

lemma convert_message_id: "is_llm_msg m \<Longrightarrow> convert_message m = [m]"
  by (cases m) auto

lemma convert_to_llm_id: "list_all is_llm_msg ms \<Longrightarrow> convert_to_llm ms = ms"
  by (induction ms) (auto simp: convert_to_llm_def convert_message_id)

text \<open>
  \<open>convert_to_llm\<close> produces only messages a provider accepts, in order, leaves such messages
  untouched wherever they stand, and so converting twice changes nothing.
\<close>

theorem convert_to_llm_idempotent:
  "list_all is_llm_msg (convert_to_llm ms) \<and>
   filter is_llm_msg ms = filter is_llm_msg (concat (map (\<lambda>m. if is_llm_msg m then convert_to_llm [m] else []) ms)) \<and>
   convert_to_llm (convert_to_llm ms) = convert_to_llm ms"
proof -
  have llm: "list_all is_llm_msg (convert_to_llm ms)"
    by (auto simp: convert_to_llm_def list_all_iff convert_message_llm)
  moreover have "convert_to_llm (convert_to_llm ms) = convert_to_llm ms"
    by (rule convert_to_llm_id [OF llm])
  moreover have "filter is_llm_msg ms =
      filter is_llm_msg (concat (map (\<lambda>m. if is_llm_msg m then convert_to_llm [m] else []) ms))"
    by (induction ms) (auto simp: convert_to_llm_def convert_message_id)
  ultimately show ?thesis by blast
qed

end
