(* ===== verification/Transcript.thy ===== *)
theory Transcript
  imports Messages
begin

section \<open>Transcript replay (pidrei_ai/utils/transcript.py)\<close>

text \<open>
  The system prompt and the tool set live in the transcript as system messages, each a delta.
  This theory models the replay of the deltas into the current prompt and tools, the comparison
  that produces a delta, the collapse for transports without mid-conversation system messages and
  the split of tool declarations for transports that can only add tools. The locale
  \<open>delta_log\<close> states what a comparison and a replay promise each other; the tool deltas
  are its interpretation.
\<close>

subsection \<open>Contexts\<close>

record llm_context =
  cx_system_prompt :: "pystr option"
  cx_messages :: "message list"
  cx_tools :: "tool list option"

datatype any_context = CallerContext llm_context | TranscriptContext "message list"

definition or_empty :: "'a list option \<Rightarrow> 'a list" where
  "or_empty x = (case x of None \<Rightarrow> [] | Some xs \<Rightarrow> xs)"

lemma or_empty_simps [simp]: "or_empty None = []" "or_empty (Some xs) = xs"
  by (simp_all add: or_empty_def)

definition non_empty :: "'a list \<Rightarrow> 'a list option" where
  "non_empty xs = (if xs = [] then None else Some xs)"

lemma or_empty_non_empty [simp]: "or_empty (non_empty xs) = xs"
  by (simp add: non_empty_def)

definition create_initial_system_message :: "pystr option \<Rightarrow> tool list option \<Rightarrow> system_message option" where
  "create_initial_system_message system_prompt tools =
    (let has_system_prompt = (case system_prompt of None \<Rightarrow> False | Some p \<Rightarrow> length p > 0);
         has_tools = (case tools of None \<Rightarrow> False | Some ts \<Rightarrow> length ts > 0)
     in if \<not> has_system_prompt \<and> \<not> has_tools then None
        else Some \<lparr>sm_content = StrContent (or_empty system_prompt), sm_timestamp = 0, sm_sections = None,
                   sm_tools_added = (if has_tools then tools else None), sm_tools_removed = None\<rparr>)"

definition normalize_context :: "any_context \<Rightarrow> message list" where
  "normalize_context ctx =
    (case ctx of
       TranscriptContext ms \<Rightarrow> ms
     | CallerContext c \<Rightarrow>
         (case create_initial_system_message (cx_system_prompt c) (cx_tools c) of
            Some initial \<Rightarrow> SystemMsg initial # cx_messages c
          | None \<Rightarrow> cx_messages c))"

definition get_initial_system_message :: "message list \<Rightarrow> system_message option" where
  "get_initial_system_message messages =
    (case messages of SystemMsg m # _ \<Rightarrow> Some m | _ \<Rightarrow> None)"

definition without_initial_system_message :: "message list \<Rightarrow> message list" where
  "without_initial_system_message messages =
    (if get_initial_system_message messages \<noteq> None then drop 1 messages else messages)"

subsection \<open>Replay\<close>

text \<open>One iteration of the loop of \<open>get_current_tools\<close>.\<close>

definition apply_tool_changes :: "system_message \<Rightarrow> (pystr, tool) dict \<Rightarrow> (pystr, tool) dict" where
  "apply_tool_changes message tools =
    (let removed = fold dict_pop (or_empty (sm_tools_removed message)) tools
     in fold (\<lambda>tool d. dict_set (tool_name tool) tool d) (or_empty (sm_tools_added message)) removed)"

definition get_current_tools :: "message list \<Rightarrow> tool list" where
  "get_current_tools messages = map snd (fold apply_tool_changes (system_messages messages) [])"

text \<open>One iteration of the loop over \<open>sections\<close>, and of the loop over the messages.\<close>

fun apply_section :: "pystr \<times> pystr option \<Rightarrow> (pystr, pystr) dict \<Rightarrow> (pystr, pystr) dict" where
  "apply_section (name, None) sections = dict_pop name sections"
| "apply_section (name, Some value) sections = dict_set name value sections"

definition apply_prompt :: "system_message \<Rightarrow> pystr list \<times> (pystr, pystr) dict \<times> int option \<Rightarrow>
    pystr list \<times> (pystr, pystr) dict \<times> int option" where
  "apply_prompt message st =
    (case st of (content, sections, timestamp) \<Rightarrow>
      let text = content_text [NL] (sm_content message)
      in (if length text > 0 then content @ [text] else content,
          fold apply_section (sections_of message) sections,
          if timestamp = None then Some (sm_timestamp message) else timestamp))"

definition get_current_system_message :: "message list \<Rightarrow> system_message option" where
  "get_current_system_message messages =
    (case fold apply_prompt (system_messages messages) ([], [], None) of (content, sections, timestamp) \<Rightarrow>
      let tools = get_current_tools messages
      in if timestamp = None \<and> length tools = 0 then None
         else Some \<lparr>sm_content = StrContent (str_join [NL, NL] content),
                    sm_timestamp = (case timestamp of None \<Rightarrow> 0 | Some t \<Rightarrow> t),
                    sm_sections = non_empty (map (\<lambda>(k, v). (k, Some v)) sections),
                    sm_tools_added = non_empty tools,
                    sm_tools_removed = None\<rparr>)"

definition get_current_system_prompt :: "message list \<Rightarrow> pystr" where
  "get_current_system_prompt messages =
    (case get_current_system_message messages of Some m \<Rightarrow> get_system_message_text m | None \<Rightarrow> [])"

definition collapse_system_messages :: "message list \<Rightarrow> message list" where
  "collapse_system_messages messages =
    (let rest = filter (\<lambda>m. \<not> is_system_msg m) messages
     in case get_current_system_message messages of Some head \<Rightarrow> SystemMsg head # rest | None \<Rightarrow> rest)"

definition resolve_transcript :: "message list \<Rightarrow> bool option \<Rightarrow> message list" where
  "resolve_transcript messages supports =
    (if supports = Some True then messages else collapse_system_messages messages)"

subsection \<open>Declarations and their comparison\<close>

text \<open>
  A declaration keeps the four declaration fields; the model's \<open>tool\<close> record has no others, and the
  JSON round trip of the parameters is the identity on JSON values.
\<close>

definition to_tool_declaration :: "tool \<Rightarrow> tool" where
  "to_tool_declaration tool =
    \<lparr>tool_name = tool_name tool, tool_description = tool_description tool,
     tool_parameters = tool_parameters tool, tool_sampling = tool_sampling tool\<rparr>"

text \<open>The value of \<open>strict\<close> is the text it has in the source: the mode of a JSON schema.\<close>

definition declaration_json :: "tool \<Rightarrow> pystr" where
  "declaration_json tool =
    (let declaration = to_tool_declaration tool;
         shape = [(lit ''name'', JStr (tool_name declaration)),
                  (lit ''description'', JStr (tool_description declaration)),
                  (lit ''parameters'', tool_parameters declaration)];
         sampling = (case tool_sampling declaration of
             None \<Rightarrow> []
           | Some SamplingFalse \<Rightarrow> [(lit ''constrainedSampling'', JBool False)]
           | Some (SamplingJsonSchema strict) \<Rightarrow>
               [(lit ''constrainedSampling'', JObj [(lit ''type'', JStr (lit ''json_schema'')), (lit ''strict'', JStr strict)])]
           | Some (SamplingGrammar variants) \<Rightarrow>
               [(lit ''constrainedSampling'', JObj [(lit ''type'', JStr (lit ''grammar'')),
                   (lit ''variants'', JObj (map (\<lambda>(k, v). (k, JStr v)) variants))])])
     in json_dumps True (lit '', '') (lit '': '') (json_sort_keys (JObj (shape @ sampling))))"

definition declarations_equal :: "tool \<Rightarrow> tool \<Rightarrow> bool" where
  "declarations_equal left right \<longleftrightarrow> declaration_json left = declaration_json right"

text \<open>The dict comprehension \<open>{tool.name: tool for tool in tools}\<close>: a later tool wins.\<close>

definition tools_by_name :: "tool list \<Rightarrow> (pystr, tool) dict" where
  "tools_by_name tools = fold (\<lambda>tool d. dict_set (tool_name tool) tool d) tools []"

definition differs_in :: "(pystr, tool) dict \<Rightarrow> tool \<Rightarrow> bool" where
  "differs_in others tool =
    (case dict_get others (tool_name tool) of None \<Rightarrow> True | Some o_tool \<Rightarrow> \<not> declarations_equal o_tool tool)"

record tool_state_changes =
  tsc_added :: "tool list"
  tsc_removed :: "pystr list"

definition get_tool_state_changes :: "tool list \<Rightarrow> tool list \<Rightarrow> tool_state_changes" where
  "get_tool_state_changes previous current =
    \<lparr>tsc_added = map to_tool_declaration (filter (differs_in (tools_by_name previous)) current),
     tsc_removed = map tool_name (filter (differs_in (tools_by_name current)) previous)\<rparr>"

definition get_declared_tools :: "message list \<Rightarrow> tool list" where
  "get_declared_tools messages =
    map snd (fold (\<lambda>m d. fold (\<lambda>tool d. dict_set (tool_name tool) tool d) (or_empty (sm_tools_added m)) d)
      (system_messages messages) [])"

fun redefines :: "tool list \<Rightarrow> (pystr, tool) dict \<Rightarrow> bool" where
  "redefines [] declared = False"
| "redefines (tool # tools) declared =
    (case dict_get declared (tool_name tool) of
       Some previous \<Rightarrow> if \<not> declarations_equal previous tool then True
                        else redefines tools (dict_set (tool_name tool) tool declared)
     | None \<Rightarrow> redefines tools (dict_set (tool_name tool) tool declared))"

text \<open>
  The two nested loops of \<open>has_tool_redefinitions\<close> share \<open>declared\<close> and return at the first
  redefinition: they run over the added tools of all system messages in order.
\<close>

definition has_tool_redefinitions :: "message list \<Rightarrow> bool" where
  "has_tool_redefinitions messages =
    redefines (concat (map (\<lambda>m. or_empty (sm_tools_added m)) (system_messages messages))) []"

subsection \<open>Non-additive changes and the split of the declarations\<close>

text \<open>The inner loop of \<open>_find_last_non_additive_tool_change\<close>: whether \<open>last\<close> is set, and \<open>declared\<close>.\<close>

fun redeclares :: "tool list \<Rightarrow> pystr list \<Rightarrow> bool \<times> pystr list" where
  "redeclares [] declared = (False, declared)"
| "redeclares (tool # tools) declared =
    (let (later, declared') = redeclares tools (List.insert (tool_name tool) declared)
     in (tool_name tool \<in> set declared \<or> later, declared'))"

fun find_last_change :: "nat \<Rightarrow> pystr list \<Rightarrow> nat option \<Rightarrow> system_message list \<Rightarrow> nat option" where
  "find_last_change index declared found [] = found"
| "find_last_change index declared found (m # ms) =
    (let (again, declared') = redeclares (or_empty (sm_tools_added m)) declared
     in find_last_change (Suc index) declared'
          (if or_empty (sm_tools_removed m) \<noteq> [] \<or> again then Some index else found) ms)"

definition find_last_non_additive_tool_change :: "system_message list \<Rightarrow> nat option" where
  "find_last_non_additive_tool_change ms = find_last_change 0 [] None ms"

definition has_non_additive_tool_changes :: "message list \<Rightarrow> bool" where
  "has_non_additive_tool_changes messages \<longleftrightarrow>
     find_last_non_additive_tool_change (system_messages messages) \<noteq> None"

datatype tool_support = SupportsNone | SupportsAdditions | SupportsChanges

record transcript_tools =
  tt_request_tools :: "tool list"
  tt_folded :: nat

definition resolve_transcript_tools :: "message list \<Rightarrow> tool_support \<Rightarrow> transcript_tools" where
  "resolve_transcript_tools messages support =
    (let system = system_messages messages
     in case support of
          SupportsNone \<Rightarrow>
            \<lparr>tt_request_tools = get_current_tools (map SystemMsg system), tt_folded = length system\<rparr>
        | SupportsChanges \<Rightarrow> \<lparr>tt_request_tools = [], tt_folded = 0\<rparr>
        | SupportsAdditions \<Rightarrow>
            let folded = max (if get_initial_system_message messages \<noteq> None then 1 else 0)
                  (case find_last_non_additive_tool_change system of None \<Rightarrow> 0 | Some i \<Rightarrow> i + 1)
            in \<lparr>tt_request_tools = get_current_tools (map SystemMsg (take folded system)),
                tt_folded = folded\<rparr>)"

subsection \<open>Tool sets as dictionaries\<close>

abbreviation put_tool :: "tool \<Rightarrow> (pystr, tool) dict \<Rightarrow> (pystr, tool) dict" where
  "put_tool tool d \<equiv> dict_set (tool_name tool) tool d"

definition keyed :: "tool list \<Rightarrow> (pystr, tool) dict" where
  "keyed tools = map (\<lambda>t. (tool_name t, t)) tools"

definition tools_ok :: "(pystr, tool) dict \<Rightarrow> bool" where
  "tools_ok d \<longleftrightarrow> dict_ok d \<and> (\<forall>kt \<in> set d. fst kt = tool_name (snd kt))"

lemma keyed_simps [simp]: "keyed [] = []" "keyed (t # ts) = (tool_name t, t) # keyed ts"
  "keyed (ts @ us) = keyed ts @ keyed us" "map snd (keyed ts) = ts" "map fst (keyed ts) = map tool_name ts"
  by (simp_all add: keyed_def comp_def)

lemma keyed_values: "tools_ok d \<Longrightarrow> keyed (map snd d) = d"
  unfolding tools_ok_def keyed_def by (induction d) (auto simp: dict_ok_def)

lemma tools_ok_values: "tools_ok d \<Longrightarrow> distinct (map tool_name (map snd d))"
  by (metis keyed_simps(5) keyed_values tools_ok_def dict_ok_def)

lemma map_of_keyed: "map_of (keyed ts) n = find (\<lambda>t. tool_name t = n) ts"
  by (induction ts) auto

lemma set_dict_set: "set (dict_set k v d) \<subseteq> insert (k, v) (set d)"
  by (induction d) auto

lemma tools_ok_put: "tools_ok d \<Longrightarrow> tools_ok (put_tool t d)"
  using set_dict_set [of "tool_name t" t d] by (auto simp: tools_ok_def)

lemma tools_ok_pop: "tools_ok d \<Longrightarrow> tools_ok (dict_pop n d)"
proof -
  have "set (dict_pop n d) \<subseteq> set d" by (auto simp: AList.delete_eq)
  then show "tools_ok d \<Longrightarrow> tools_ok (dict_pop n d)" by (auto simp: tools_ok_def)
qed

lemma tools_ok_fold_put: "tools_ok d \<Longrightarrow> tools_ok (fold put_tool ts d)"
  by (induction ts arbitrary: d) (simp_all add: tools_ok_put)

lemma tools_ok_fold_pop: "tools_ok d \<Longrightarrow> tools_ok (fold dict_pop ns d)"
  by (induction ns arbitrary: d) (simp_all add: tools_ok_pop)

lemma tools_ok_Nil [simp]: "tools_ok []"
  by (simp add: tools_ok_def)

lemma tools_ok_apply: "tools_ok d \<Longrightarrow> tools_ok (apply_tool_changes m d)"
  unfolding apply_tool_changes_def Let_def by (intro tools_ok_fold_put tools_ok_fold_pop)

lemma tools_ok_replay: "tools_ok d \<Longrightarrow> tools_ok (fold apply_tool_changes ss d)"
  by (induction ss arbitrary: d) (simp_all add: tools_ok_apply)

lemma distinct_current_tools: "distinct (map tool_name (get_current_tools ms))"
  unfolding get_current_tools_def by (intro tools_ok_values tools_ok_replay) simp

lemma get_fold_pop: "dict_get (fold dict_pop ns d) n = (if n \<in> set ns then None else dict_get d n)"
  by (induction ns arbitrary: d) (auto simp: dict_simps)

lemma get_fold_put: "dict_get (fold put_tool ts d) = dict_get d ++ map_of (rev (keyed ts))"
  by (induction ts arbitrary: d) (auto simp: dict_simps fun_eq_iff map_add_def split: option.splits)

lemma fold_put_fresh:
  "distinct (map tool_name ts) \<Longrightarrow> (\<forall>t \<in> set ts. dict_get d (tool_name t) = None) \<Longrightarrow>
   fold put_tool ts d = d @ keyed ts"
proof (induction ts arbitrary: d)
  case Nil
  then show ?case by simp
next
  case (Cons t ts)
  then have "put_tool t d = d @ [(tool_name t, t)]" by (simp add: dict_set_fresh)
  moreover have "\<forall>u \<in> set ts. dict_get (d @ [(tool_name t, t)]) (tool_name u) = None"
    using Cons.prems by (auto simp: map_add_def image_iff split: option.splits)
  ultimately show ?case using Cons by simp
qed

lemma map_of_rev_keyed:
  "distinct (map tool_name ts) \<Longrightarrow> map_of (rev (keyed ts)) n = find (\<lambda>t. tool_name t = n) ts"
proof -
  assume "distinct (map tool_name ts)"
  then have "map_of (rev (keyed ts)) = map_of (keyed ts)"
    by (subst map_of_inject_set) (simp_all add: rev_map [symmetric])
  then show ?thesis by (simp add: map_of_keyed)
qed

lemma get_tools_by_name:
  "distinct (map tool_name ts) \<Longrightarrow> dict_get (tools_by_name ts) n = find (\<lambda>t. tool_name t = n) ts"
  unfolding tools_by_name_def by (simp add: get_fold_put map_of_rev_keyed)

lemma find_filter: "find p (filter q xs) = find (\<lambda>x. q x \<and> p x) xs"
  by (induction xs) auto

lemma find_by_name:
  "distinct (map tool_name ts) \<Longrightarrow> find (\<lambda>t. q t \<and> tool_name t = n) ts =
     (case find (\<lambda>t. tool_name t = n) ts of Some t \<Rightarrow> if q t then Some t else None | None \<Rightarrow> None)"
proof (induction ts)
  case Nil
  then show ?case by simp
next
  case (Cons t ts)
  have "find (\<lambda>u. tool_name u = tool_name t) ts = None"
    using Cons.prems by (auto simp: find_None_iff) (metis imageI)
  with Cons show ?case by auto
qed

lemma find_name: "find (\<lambda>t. tool_name t = n) ts = Some t \<Longrightarrow> tool_name t = n"
  by (auto simp: find_Some_iff)

lemma find_mem_name:
  "u \<in> set ts \<Longrightarrow> distinct (map tool_name ts) \<Longrightarrow> find (\<lambda>x. tool_name x = tool_name u) ts = Some u"
  by (induction ts) auto

lemma name_mem_filter:
  assumes "distinct (map tool_name ts)"
  shows "n \<in> tool_name ` {x \<in> set ts. q x} \<longleftrightarrow>
     (case find (\<lambda>t. tool_name t = n) ts of Some t \<Rightarrow> q t | None \<Rightarrow> False)"
proof -
  have "n \<in> tool_name ` {x \<in> set ts. q x} \<longleftrightarrow> find (\<lambda>t. q t \<and> tool_name t = n) ts \<noteq> None"
    by (auto simp: find_None_iff)
  then show ?thesis
    by (simp add: find_by_name [OF assms] split: option.split)
qed

lemma to_tool_declaration_id [simp]: "to_tool_declaration t = t"
  by (simp add: to_tool_declaration_def)

lemma map_to_tool_declaration [simp]: "map to_tool_declaration ts = ts"
  by (simp add: map_idI)


subsection \<open>Deltas against states\<close>

text \<open>
  What a comparison \<open>diff\<close> and a replay \<open>apply_delta\<close> owe each other, for states that count as the
  same when they \<open>agree\<close>. The client appends one delta per observed state; replaying the log yields
  the last observed state.
\<close>

locale delta_log =
  fixes apply_delta :: "'d \<Rightarrow> 's \<Rightarrow> 's"
    and diff :: "'s \<Rightarrow> 's \<Rightarrow> 'd"
    and valid :: "'s \<Rightarrow> bool"
    and agree :: "'s \<Rightarrow> 's \<Rightarrow> bool"
    and silent :: "'d \<Rightarrow> bool"
  assumes valid_apply: "valid s \<Longrightarrow> valid (apply_delta d s)"
    and agree_trans: "agree s t \<Longrightarrow> agree t u \<Longrightarrow> agree s u"
    and apply_diff: "valid s \<Longrightarrow> valid t \<Longrightarrow> agree (apply_delta (diff s t) s) t"
    and silent_iff: "valid s \<Longrightarrow> valid t \<Longrightarrow> silent (diff s t) \<longleftrightarrow> agree s t"
begin

fun log_states :: "'s \<Rightarrow> 's list \<Rightarrow> 'd list" where
  "log_states s [] = []"
| "log_states s (t # ts) =
     (if silent (diff s t) then log_states s ts
      else diff s t # log_states (apply_delta (diff s t) s) ts)"

lemma replay_log:
  "valid s \<Longrightarrow> (\<forall>t \<in> set ts. valid t) \<Longrightarrow> ts \<noteq> [] \<Longrightarrow> agree (fold apply_delta (log_states s ts) s) (last ts)"
proof (induction ts arbitrary: s)
  case Nil
  then show ?case by simp
next
  case (Cons t ts)
  show ?case
  proof (cases "ts = []")
    case True
    with Cons.prems show ?thesis by (simp add: silent_iff apply_diff)
  next
    case False
    with Cons show ?thesis by (simp add: valid_apply)
  qed
qed

lemma log_stops: "valid s \<Longrightarrow> (\<forall>t \<in> set ts. valid t \<and> agree s t) \<Longrightarrow> log_states s ts = []"
  by (induction ts) (simp_all add: silent_iff)

end

text \<open>The tool deltas: a delta is a pair of added tools and removed names, a state a tool list.\<close>

definition apply_changes :: "tool_state_changes \<Rightarrow> tool list \<Rightarrow> tool list" where
  "apply_changes ch tools = map snd (fold put_tool (tsc_added ch) (fold dict_pop (tsc_removed ch) (keyed tools)))"

definition names_distinct :: "tool list \<Rightarrow> bool" where
  "names_distinct tools \<longleftrightarrow> distinct (map tool_name tools)"

definition same_declarations :: "tool list \<Rightarrow> tool list \<Rightarrow> bool" where
  "same_declarations s t \<longleftrightarrow>
     (\<forall>n. map_option declaration_json (find (\<lambda>x. tool_name x = n) s) =
          map_option declaration_json (find (\<lambda>x. tool_name x = n) t))"

lemma keyed_ok: "names_distinct ts \<Longrightarrow> tools_ok (keyed ts)"
  by (auto simp: tools_ok_def dict_ok_def names_distinct_def) (auto simp: keyed_def)

lemma apply_changes_dict:
  "names_distinct s \<Longrightarrow> keyed (apply_changes ch s) = fold put_tool (tsc_added ch) (fold dict_pop (tsc_removed ch) (keyed s))"
  unfolding apply_changes_def by (intro keyed_values tools_ok_fold_put tools_ok_fold_pop keyed_ok)

lemma names_distinct_apply: "names_distinct s \<Longrightarrow> names_distinct (apply_changes ch s)"
  unfolding apply_changes_def names_distinct_def
  by (intro tools_ok_values tools_ok_fold_put tools_ok_fold_pop keyed_ok) (simp add: names_distinct_def)

lemma find_apply_diff:
  assumes "names_distinct s" "names_distinct t"
  shows "map_option declaration_json (find (\<lambda>x. tool_name x = n) (apply_changes (get_tool_state_changes s t) s)) =
         map_option declaration_json (find (\<lambda>x. tool_name x = n) t)"
proof -
  let ?p = "\<lambda>x :: tool. tool_name x = n"
  note d = assms [unfolded names_distinct_def]
  have added: "map_of (rev (keyed (filter (differs_in (tools_by_name s)) t))) n =
      (case find ?p t of Some x \<Rightarrow> if differs_in (tools_by_name s) x then Some x else None | None \<Rightarrow> None)"
    using d by (simp add: map_of_rev_keyed distinct_map_filter find_filter find_by_name)
  have removed: "n \<in> tool_name ` {x \<in> set s. differs_in (tools_by_name t) x} \<longleftrightarrow>
      (case find ?p s of Some x \<Rightarrow> differs_in (tools_by_name t) x | None \<Rightarrow> False)"
    by (rule name_mem_filter [OF d(1)])
  have "find ?p (apply_changes (get_tool_state_changes s t) s) =
     (map_of (keyed (apply_changes (get_tool_state_changes s t) s))) n"
    by (simp add: map_of_keyed)
  also have "\<dots> = (case map_of (rev (keyed (filter (differs_in (tools_by_name s)) t))) n of
       Some x \<Rightarrow> Some x
     | None \<Rightarrow> if n \<in> tool_name ` {x \<in> set s. differs_in (tools_by_name t) x} then None else find ?p s)"
    using assms
    by (simp add: apply_changes_dict get_fold_put get_fold_pop map_add_def map_of_keyed get_tool_state_changes_def
        comp_def split: option.splits)
  finally have eq: "find ?p (apply_changes (get_tool_state_changes s t) s) = \<dots>" .
  have name: "find ?p ts = Some x \<Longrightarrow> tool_name x = n" for ts x by (rule find_name)
  show ?thesis
    unfolding eq added removed
    by (cases "find ?p s"; cases "find ?p t")
      (simp_all add: differs_in_def get_tools_by_name d declarations_equal_def name)
qed


lemma silent_changes_iff:
  assumes "names_distinct s" "names_distinct t"
  shows "tsc_added (get_tool_state_changes s t) = [] \<and> tsc_removed (get_tool_state_changes s t) = [] \<longleftrightarrow>
         same_declarations s t"
proof -
  note d = assms [unfolded names_distinct_def]
  have q: "differs_in (tools_by_name t') u \<longleftrightarrow>
      map_option declaration_json (find (\<lambda>x. tool_name x = tool_name u) s') \<noteq>
      map_option declaration_json (find (\<lambda>x. tool_name x = tool_name u) t')"
    if "u \<in> set s'" "distinct (map tool_name s')" "distinct (map tool_name t')" for u s' t'
    using find_mem_name [OF that(1,2)] that
    by (auto simp: differs_in_def get_tools_by_name declarations_equal_def split: option.splits)
  have "same_declarations s t" if "\<forall>u \<in> set t. \<not> differs_in (tools_by_name s) u"
    "\<forall>u \<in> set s. \<not> differs_in (tools_by_name t) u"
    unfolding same_declarations_def
  proof
    fix n
    consider u where "u \<in> set s" "tool_name u = n" | u where "u \<in> set t" "tool_name u = n"
      | "find (\<lambda>x. tool_name x = n) s = None" "find (\<lambda>x. tool_name x = n) t = None"
      by (auto simp: find_None_iff)
    then show "map_option declaration_json (find (\<lambda>x. tool_name x = n) s) =
               map_option declaration_json (find (\<lambda>x. tool_name x = n) t)"
      using that q d by cases auto
  qed
  moreover have "\<forall>u \<in> set t. \<not> differs_in (tools_by_name s) u" "\<forall>u \<in> set s. \<not> differs_in (tools_by_name t) u"
    if "same_declarations s t"
    using that q d unfolding same_declarations_def by auto
  ultimately show ?thesis
    by (auto simp: get_tool_state_changes_def filter_empty_conv)
qed

interpretation tool_log: delta_log apply_changes get_tool_state_changes names_distinct same_declarations
  "\<lambda>ch. tsc_added ch = [] \<and> tsc_removed ch = []"
  by unfold_locales
    (simp_all add: names_distinct_apply find_apply_diff silent_changes_iff, simp_all add: same_declarations_def find_apply_diff)

lemma apply_tool_changes_values:
  "map snd (apply_tool_changes m (fold apply_tool_changes ss [])) =
   apply_changes \<lparr>tsc_added = or_empty (sm_tools_added m), tsc_removed = or_empty (sm_tools_removed m)\<rparr>
     (map snd (fold apply_tool_changes ss []))"
  unfolding apply_tool_changes_def [of m] apply_changes_def Let_def
  by (simp add: keyed_values [OF tools_ok_replay [OF tools_ok_Nil]])

lemma get_current_tools_snoc:
  "get_current_tools (ms @ [SystemMsg m]) =
   apply_changes \<lparr>tsc_added = or_empty (sm_tools_added m), tsc_removed = or_empty (sm_tools_removed m)\<rparr>
     (get_current_tools ms)"
  unfolding get_current_tools_def by (simp add: apply_tool_changes_values)

text \<open>
  C39. Replaying the delta that \<open>get_tool_state_changes\<close> computes from the transcript's tools to the
  desired tools makes the transcript declare exactly the desired tools, under unique names; and the
  delta is empty, so that nothing is sent, exactly when the transcript already declares them.
\<close>

theorem tool_state_changes_replay:
  assumes "names_distinct current"
  shows "let ch = get_tool_state_changes (get_current_tools ms) current;
             delta = m\<lparr>sm_tools_added := non_empty (tsc_added ch), sm_tools_removed := non_empty (tsc_removed ch)\<rparr>;
             after = get_current_tools (ms @ [SystemMsg delta])
         in names_distinct after \<and> same_declarations after current \<and>
            (tsc_added ch = [] \<and> tsc_removed ch = [] \<longleftrightarrow> same_declarations (get_current_tools ms) current)"
proof -
  have d: "names_distinct (get_current_tools ms)"
    by (simp add: names_distinct_def distinct_current_tools)
  have eta: "\<lparr>tsc_added = tsc_added ch, tsc_removed = tsc_removed ch\<rparr> = ch" for ch :: tool_state_changes
    by simp
  show ?thesis
    by (simp add: Let_def get_current_tools_snoc eta tool_log.valid_apply [OF d] tool_log.apply_diff [OF d assms]
        tool_log.silent_iff [OF d assms])
qed

definition example_tool :: "string \<Rightarrow> string \<Rightarrow> tool" where
  "example_tool n d = \<lparr>tool_name = lit n, tool_description = lit d, tool_parameters = JObj [], tool_sampling = None\<rparr>"

definition example_system :: "tool list \<Rightarrow> pystr list \<Rightarrow> system_message" where
  "example_system added removed = \<lparr>sm_content = StrContent [], sm_timestamp = 0, sm_sections = None,
     sm_tools_added = non_empty added, sm_tools_removed = non_empty removed\<rparr>"

theorem tool_state_changes_replay_witness:
  "let a = example_tool ''a'' ''x''; b = example_tool ''b'' ''y''; c = example_tool ''c'' ''z'';
       ms = [SystemMsg (example_system [a, b] [])];
       after = get_current_tools (ms @ [SystemMsg (example_system [c] [lit ''a''])])
   in get_tool_state_changes [a, b] [b, c] = \<lparr>tsc_added = [c], tsc_removed = [lit ''a'']\<rparr> \<and>
      after = [b, c] \<and> same_declarations after [b, c]"
proof -
  let ?a = "example_tool ''a'' ''x''" and ?b = "example_tool ''b'' ''y''" and ?c = "example_tool ''c'' ''z''"
  let ?ms = "[SystemMsg (example_system [?a, ?b] [])]"
  have cur: "get_current_tools ?ms = [?a, ?b]"
    by (simp add: get_current_tools_def apply_tool_changes_def example_system_def example_tool_def pystr_simps)
  have ch: "get_tool_state_changes [?a, ?b] [?b, ?c] = \<lparr>tsc_added = [?c], tsc_removed = [lit ''a'']\<rparr>"
    by (simp add: get_tool_state_changes_def differs_in_def tools_by_name_def declarations_equal_def
        example_tool_def pystr_simps)
  have after: "get_current_tools (?ms @ [SystemMsg (example_system [?c] [lit ''a''])]) = [?b, ?c]"
    by (simp add: get_current_tools_def apply_tool_changes_def example_system_def example_tool_def pystr_simps)
  have "names_distinct [?b, ?c]" by (simp add: names_distinct_def example_tool_def pystr_simps)
  from tool_state_changes_replay [OF this, of ?ms "example_system [] []"]
  have "same_declarations (get_current_tools (?ms @ [SystemMsg (example_system [?c] [lit ''a''])])) [?b, ?c]"
    by (simp add: Let_def cur ch) (simp add: example_system_def)
  with ch after show ?thesis by (simp add: Let_def)
qed

subsection \<open>Collapsing\<close>

lemma system_messages_filter: "system_messages (filter (\<lambda>m. \<not> is_system_msg m) ms) = []"
  by (rule system_messages_none) simp

lemma apply_section_keeps_ok: "dict_ok d \<Longrightarrow> dict_ok (apply_section nv d)"
  by (cases nv; cases "snd nv") auto

lemma sections_ok: "dict_ok d \<Longrightarrow> dict_ok (fold apply_section nvs d)"
  by (induction nvs arbitrary: d) (simp_all add: apply_section_keeps_ok)

lemma apply_all_sections:
  "distinct (map fst d @ map fst kvs) \<Longrightarrow>
   fold apply_section (map (\<lambda>(k, v). (k, Some v)) kvs) d = d @ kvs"
proof (induction kvs arbitrary: d)
  case Nil
  then show ?case by simp
next
  case (Cons kv kvs)
  obtain k v where kv: "kv = (k, v)" by force
  from Cons.prems kv have "dict_get d k = None" by (simp add: map_of_eq_None_iff)
  with Cons kv show ?case by (simp add: dict_set_fresh)
qed

lemma prompt_state_ok:
  "fold apply_prompt ss (c, d, t) = (c', d', t') \<Longrightarrow> dict_ok d \<Longrightarrow> (\<forall>x \<in> set c. x \<noteq> []) \<Longrightarrow>
   dict_ok d' \<and> (\<forall>x \<in> set c'. x \<noteq> []) \<and> (t' = None \<longleftrightarrow> t = None \<and> ss = []) \<and> (ss = [] \<longrightarrow> c' = c \<and> d' = d)"
proof (induction ss arbitrary: c d t)
  case Nil
  then show ?case by simp
next
  case (Cons s ss)
  obtain c1 d1 t1 where step: "apply_prompt s (c, d, t) = (c1, d1, t1)" by (rule prod_cases3)
  then have st: "c1 = (if length (content_text [NL] (sm_content s)) > 0 then c @ [content_text [NL] (sm_content s)] else c)"
    "d1 = fold apply_section (sections_of s) d" "t1 = (if t = None then Some (sm_timestamp s) else t)"
    by (simp_all add: apply_prompt_def Let_def)
  have "dict_ok d1" "\<forall>x \<in> set c1. x \<noteq> []" "t1 \<noteq> None"
    unfolding st using Cons.prems by (simp_all add: sections_ok)
  with Cons.IH [of c1 d1 t1] Cons.prems step show ?case by auto
qed

lemma str_join_ne: "(\<forall>x \<in> set c. x \<noteq> []) \<Longrightarrow> str_join sep c = [] \<longleftrightarrow> c = []"
  by (cases c rule: remdups_adj.cases) auto

lemma current_tools_of_head:
  "distinct (map tool_name ts) \<Longrightarrow> or_empty (sm_tools_added h) = ts \<Longrightarrow> or_empty (sm_tools_removed h) = [] \<Longrightarrow>
   get_current_tools (SystemMsg h # filter (\<lambda>m. \<not> is_system_msg m) ms) = ts"
  by (simp add: get_current_tools_def system_messages_filter apply_tool_changes_def fold_put_fresh)

lemma get_current_tools_filter: "get_current_tools (filter (\<lambda>m. \<not> is_system_msg m) ms) = []"
  by (simp add: get_current_tools_def system_messages_filter)

lemma replay_of_current:
  assumes cur: "get_current_system_message ms = Some h" and rest: "system_messages rest = []"
  shows "get_current_system_message (SystemMsg (h\<lparr>sm_timestamp := ts\<rparr>) # rest) = Some (h\<lparr>sm_timestamp := ts\<rparr>)"
    and "get_current_tools (SystemMsg (h\<lparr>sm_timestamp := ts\<rparr>) # rest) = get_current_tools ms"
proof -
  obtain c d t where st: "fold apply_prompt (system_messages ms) ([], [], None) = (c, d, t)"
    by (rule prod_cases3)
  from prompt_state_ok [OF st] have ok: "dict_ok d" "\<forall>x \<in> set c. x \<noteq> []" by simp_all
  let ?h = "h\<lparr>sm_timestamp := ts\<rparr>"
  from cur have h: "sm_content ?h = StrContent (str_join [NL, NL] c)"
    "sm_sections ?h = non_empty (map (\<lambda>(k, v). (k, Some v)) d)"
    "sm_tools_added ?h = non_empty (get_current_tools ms)" "sm_tools_removed ?h = None"
    by (auto simp: get_current_system_message_def st Let_def split: if_splits)
  have eta: "?h = \<lparr>sm_content = sm_content ?h, sm_timestamp = ts, sm_sections = sm_sections ?h,
      sm_tools_added = sm_tools_added ?h, sm_tools_removed = sm_tools_removed ?h\<rparr>" by simp
  show tools: "get_current_tools (SystemMsg ?h # rest) = get_current_tools ms"
    using h(3,4) by (simp add: get_current_tools_def [of "SystemMsg (h\<lparr>sm_timestamp := ts\<rparr>) # rest"] rest
        apply_tool_changes_def fold_put_fresh distinct_current_tools)
  have sec: "sections_of ?h = map (\<lambda>(k, v). (k, Some v)) d"
    using h(2) by (auto simp: sections_of_def non_empty_def)
  have "fold apply_prompt (system_messages (SystemMsg ?h # rest)) ([], [], None) =
      (if c = [] then [] else [str_join [NL, NL] c], d, Some ts)"
    using ok apply_all_sections [of "[]" d] h(1)
    by (simp add: rest apply_prompt_def sec [simplified] Let_def str_join_ne dict_ok_def)
  then show "get_current_system_message (SystemMsg ?h # rest) = Some ?h"
    unfolding get_current_system_message_def tools by (subst eta) (simp add: Let_def h [simplified])
qed

text \<open>
  Collapsing the system messages loses nothing: the collapsed transcript replays to the same
  current system message (prompt, sections and tools), has the same other messages in the same
  order, and at most its first message is a system message.
\<close>

theorem collapse_keeps_the_current_state:
  "let collapsed = collapse_system_messages ms
   in get_current_system_message collapsed = get_current_system_message ms \<and>
      get_current_tools collapsed = get_current_tools ms \<and>
      filter (\<lambda>m. \<not> is_system_msg m) collapsed = filter (\<lambda>m. \<not> is_system_msg m) ms \<and>
      list_all (\<lambda>m. \<not> is_system_msg m) (without_initial_system_message collapsed) \<and>
      collapse_system_messages collapsed = collapsed"
proof -
  let ?rest = "filter (\<lambda>m. \<not> is_system_msg m) ms"
  obtain c d t where st: "fold apply_prompt (system_messages ms) ([], [], None) = (c, d, t)"
    by (rule prod_cases3)
  have no_init: "get_initial_system_message ?rest = None"
    by (auto simp: get_initial_system_message_def filter_eq_Cons_iff split: list.splits message.splits)
  show ?thesis
  proof (cases "get_current_system_message ms")
    case None
    then have "get_current_tools ms = []"
      by (auto simp: get_current_system_message_def st Let_def split: if_splits)
    with None show ?thesis
      by (simp add: collapse_system_messages_def Let_def get_current_tools_filter without_initial_system_message_def
          no_init list_all_iff get_current_system_message_def [of ?rest] system_messages_filter)
  next
    case (Some h)
    have "h\<lparr>sm_timestamp := sm_timestamp h\<rparr> = h" by simp
    with replay_of_current [OF Some system_messages_filter, of "sm_timestamp h" ms] show ?thesis
      by (simp add: collapse_system_messages_def Some Let_def without_initial_system_message_def
          get_initial_system_message_def list_all_iff)
  qed
qed

subsection \<open>Additions-only transports\<close>

definition declared_after :: "system_message list \<Rightarrow> pystr list \<Rightarrow> pystr list" where
  "declared_after ms declared = fold (\<lambda>m D. snd (redeclares (or_empty (sm_tools_added m)) D)) ms declared"

fun additive :: "pystr list \<Rightarrow> system_message list \<Rightarrow> bool" where
  "additive declared [] = True"
| "additive declared (m # ms) =
     (or_empty (sm_tools_removed m) = [] \<and> \<not> fst (redeclares (or_empty (sm_tools_added m)) declared) \<and>
      additive (snd (redeclares (or_empty (sm_tools_added m)) declared)) ms)"

lemma declared_after_Cons [simp]:
  "declared_after (m # ms) declared = declared_after ms (snd (redeclares (or_empty (sm_tools_added m)) declared))"
  by (simp add: declared_after_def)

lemma declared_after_Nil [simp]: "declared_after [] declared = declared"
  by (simp add: declared_after_def)

lemma find_last_change_additive:
  "find_last_change i D f ms = r \<Longrightarrow> (\<forall>k. f = Some k \<longrightarrow> k < i) \<Longrightarrow>
   (let n = (case r of None \<Rightarrow> 0 | Some k \<Rightarrow> k + 1 - i) in
    n \<le> length ms \<and> additive (declared_after (take n ms) D) (drop n ms) \<and> (r = f \<or> n > 0))"
proof (induction ms arbitrary: i D f)
  case Nil
  then show ?case by (auto split: option.splits)
next
  case (Cons m ms)
  let ?D = "snd (redeclares (or_empty (sm_tools_added m)) D)"
  let ?bad = "or_empty (sm_tools_removed m) \<noteq> [] \<or> fst (redeclares (or_empty (sm_tools_added m)) D)"
  let ?f = "if ?bad then Some i else f"
  have r: "find_last_change (Suc i) ?D ?f ms = r"
    using Cons.prems(1) by (simp add: case_prod_beta)
  have f: "\<forall>k. ?f = Some k \<longrightarrow> k < Suc i"
    using Cons.prems(2) by (auto simp: less_Suc_eq)
  note IH = Cons.IH [OF r f, unfolded Let_def]
  show ?case
  proof (cases "r = ?f")
    case True
    with IH Cons.prems(2) show ?thesis
      by (auto simp: Let_def split: option.splits if_splits)
  next
    case False
    with IH obtain k where k: "r = Some k" "Suc i \<le> k" by (auto split: option.splits)
    then have "k + 1 - i = Suc (k + 1 - Suc i)" by simp
    with IH k show ?thesis by (simp add: Let_def)
  qed
qed

lemma last_change_additive:
  assumes "n = (case find_last_non_additive_tool_change ms of None \<Rightarrow> 0 | Some i \<Rightarrow> i + 1)"
  shows "additive (declared_after (take n ms) []) (drop n ms)"
  using find_last_change_additive [of 0 "[]" None ms, OF refl] assms
  by (cases "find_last_change 0 [] None ms") (simp_all add: Let_def find_last_non_additive_tool_change_def)

lemma redeclares_fresh:
  "redeclares ts D = (again, D') \<Longrightarrow>
   set D' = set D \<union> set (map tool_name ts) \<and>
   (\<not> again \<longrightarrow> distinct (map tool_name ts) \<and> set (map tool_name ts) \<inter> set D = {})"
proof (induction ts arbitrary: D again D')
  case Nil
  then show ?case by simp
next
  case (Cons t ts)
  obtain again1 D1 where r: "redeclares ts (List.insert (tool_name t) D) = (again1, D1)" by force
  from Cons.IH [OF r] Cons.prems r show ?case by auto
qed

lemma keys_apply: "fst ` set (fold put_tool ts d) = fst ` set d \<union> set (map tool_name ts)"
  by (induction ts arbitrary: d) (auto simp: dom_update)

lemma keys_fold_pop: "fst ` set (fold dict_pop ns d) \<subseteq> fst ` set d"
proof (induction ns arbitrary: d)
  case Nil
  then show ?case by simp
next
  case (Cons n ns)
  have "fst ` set (dict_pop n d) \<subseteq> fst ` set d" by (auto simp: AList.delete_eq)
  with Cons [of "dict_pop n d"] show ?case by simp
qed

lemma keys_within_declared:
  "fst ` set d \<subseteq> set D \<Longrightarrow> fst ` set (fold apply_tool_changes ms d) \<subseteq> set (declared_after ms D)"
proof (induction ms arbitrary: d D)
  case Nil
  then show ?case by simp
next
  case (Cons m ms)
  obtain again D' where r: "redeclares (or_empty (sm_tools_added m)) D = (again, D')" by force
  have "fst ` set (apply_tool_changes m d) \<subseteq> set D'"
  proof -
    have "fst ` set (fold dict_pop (or_empty (sm_tools_removed m)) d) \<subseteq> set D"
      using keys_fold_pop Cons.prems by (rule subset_trans)
    with redeclares_fresh [OF r] show ?thesis
      unfolding apply_tool_changes_def Let_def keys_apply by blast
  qed
  from Cons.IH [OF this] r show ?case by simp
qed

lemma additive_appends:
  "additive D ms \<Longrightarrow> fst ` set d \<subseteq> set D \<Longrightarrow>
   fold apply_tool_changes ms d = d @ keyed (concat (map (\<lambda>m. or_empty (sm_tools_added m)) ms))"
proof (induction ms arbitrary: d D)
  case Nil
  then show ?case by simp
next
  case (Cons m ms)
  obtain again D' where r: "redeclares (or_empty (sm_tools_added m)) D = (again, D')" by force
  note fresh = redeclares_fresh [OF r]
  have "\<forall>t \<in> set (or_empty (sm_tools_added m)). dict_get d (tool_name t) = None"
  proof -
    have "set (map tool_name (or_empty (sm_tools_added m))) \<inter> set D = {}"
      using fresh Cons.prems(1) r by simp
    with Cons.prems(2) show ?thesis
      unfolding map_of_eq_None_iff set_map by blast
  qed
  then have step: "apply_tool_changes m d = d @ keyed (or_empty (sm_tools_added m))"
    using fresh Cons.prems(1) r by (simp add: apply_tool_changes_def fold_put_fresh)
  have "fst ` set (d @ keyed (or_empty (sm_tools_added m))) \<subseteq> set D'"
    using fresh Cons.prems(2) by (auto simp: keyed_def)
  with Cons.IH [of D' "d @ keyed (or_empty (sm_tools_added m))"] Cons.prems(1) r step show ?case by simp
qed

lemma system_messages_map [simp]: "system_messages (map SystemMsg ss) = ss"
  by (induction ss) auto

lemma initial_system_nonempty: "get_initial_system_message ms \<noteq> None \<Longrightarrow> system_messages ms \<noteq> []"
  by (auto simp: get_initial_system_message_def split: list.splits message.splits)

text \<open>
  For a transport that can only add tools: the request's tool list followed by the tools that
  the unfolded system messages add in place is exactly the current tool set, in order and without a
  name twice, no unfolded message removes a tool, and the leading prompt is always folded. The other
  two kinds of transport get all tools in the request or none.
\<close>

theorem resolve_transcript_tools_sound:
  "let tt = resolve_transcript_tools ms SupportsAdditions;
       later = drop (tt_folded tt) (system_messages ms)
   in get_current_tools ms = tt_request_tools tt @ concat (map (\<lambda>m. or_empty (sm_tools_added m)) later) \<and>
      names_distinct (get_current_tools ms) \<and>
      list_all (\<lambda>m. or_empty (sm_tools_removed m) = []) later \<and>
      (if get_initial_system_message ms = None then True else tt_folded tt > 0) \<and>
      (if has_non_additive_tool_changes ms then True
       else tt_folded tt = (if get_initial_system_message ms = None then 0 else 1)) \<and>
      resolve_transcript_tools ms SupportsNone =
        \<lparr>tt_request_tools = get_current_tools ms, tt_folded = length (system_messages ms)\<rparr> \<and>
      tt_request_tools (resolve_transcript_tools ms SupportsChanges) = []"
proof -
  let ?ss = "system_messages ms"
  define n where "n = (case find_last_non_additive_tool_change ?ss of None \<Rightarrow> 0 | Some i \<Rightarrow> i + 1)"
  define k where "k = max (if get_initial_system_message ms \<noteq> None then 1 else 0) n"
  have add: "additive (declared_after (take k ?ss) []) (drop k ?ss)"
  proof (cases "k = n")
    case True
    then show ?thesis using last_change_additive [OF n_def] by simp
  next
    case False
    then have "n = 0" "k = 1" "get_initial_system_message ms \<noteq> None"
      by (auto simp: k_def max_def split: if_splits)
    with last_change_additive [OF n_def] initial_system_nonempty [of ms] show ?thesis
      by (cases ?ss) auto
  qed
  have removed: "additive D ms' \<Longrightarrow> list_all (\<lambda>m. or_empty (sm_tools_removed m) = []) ms'" for D ms'
    by (induction D ms' rule: additive.induct) auto
  have keys: "fst ` set (fold apply_tool_changes (take k ?ss) []) \<subseteq> set (declared_after (take k ?ss) [])"
    by (rule keys_within_declared) simp
  have "fold apply_tool_changes ?ss [] =
      fold apply_tool_changes (drop k ?ss) (fold apply_tool_changes (take k ?ss) [])"
    by (metis append_take_drop_id fold_append comp_apply)
  also have "\<dots> = fold apply_tool_changes (take k ?ss) [] @
      keyed (concat (map (\<lambda>m. or_empty (sm_tools_added m)) (drop k ?ss)))"
    by (rule additive_appends [OF add keys])
  finally have split: "get_current_tools ms = get_current_tools (map SystemMsg (take k ?ss)) @
      concat (map (\<lambda>m. or_empty (sm_tools_added m)) (drop k ?ss))"
    by (simp add: get_current_tools_def)
  have tt: "resolve_transcript_tools ms SupportsAdditions =
      \<lparr>tt_request_tools = get_current_tools (map SystemMsg (take k ?ss)), tt_folded = k\<rparr>"
    by (simp add: resolve_transcript_tools_def Let_def k_def n_def)
  have "tt_request_tools (resolve_transcript_tools ms SupportsChanges) = []"
    "resolve_transcript_tools ms SupportsNone =
       \<lparr>tt_request_tools = get_current_tools ms, tt_folded = length ?ss\<rparr>"
    by (simp_all add: resolve_transcript_tools_def Let_def get_current_tools_def)
  moreover have "names_distinct (get_current_tools ms)"
    by (simp add: names_distinct_def distinct_current_tools)
  moreover have "k > 0" if "get_initial_system_message ms \<noteq> None"
    using that by (simp add: k_def)
  moreover have "k = (if get_initial_system_message ms = None then 0 else 1)"
    if "\<not> has_non_additive_tool_changes ms"
    using that by (auto simp: k_def n_def has_non_additive_tool_changes_def)
  ultimately show ?thesis
    using split removed [OF add] unfolding Let_def tt by simp
qed

end
