(* ===== verification/Transform.thy ===== *)
theory Transform
  imports Messages
begin

section \<open>Replay transforms (pidrei_ai/api/transform_messages.py)\<close>

text \<open>
  The normalization of a message history before it is sent to a model: images downgraded,
  thinking of other models dropped, tool call ids renamed, failed turns skipped and orphaned tool
  calls answered. User and tool-result content holds text and image blocks only, as the types of
  the program require.
\<close>

definition NON_VISION_USER_IMAGE_PLACEHOLDER :: pystr where
  "NON_VISION_USER_IMAGE_PLACEHOLDER = lit ''(image omitted: model does not support images)''"

definition NON_VISION_TOOL_IMAGE_PLACEHOLDER :: pystr where
  "NON_VISION_TOOL_IMAGE_PLACEHOLDER = lit ''(tool image omitted: model does not support images)''"

definition ERROR_TOOL_IMAGE_PLACEHOLDER :: pystr where
  "ERROR_TOOL_IMAGE_PLACEHOLDER = lit ''(image attached after the tool results)''"

record model_ref =
  md_id :: pystr
  md_provider :: pystr
  md_api :: pystr
  md_input :: "pystr list"

subsection \<open>Images\<close>

fun replace_images_loop :: "pystr \<Rightarrow> bool \<Rightarrow> block list \<Rightarrow> block list" where
  "replace_images_loop placeholder previous [] = []"
| "replace_images_loop placeholder previous (ImageContent d mt # bs) =
     (if previous then [] else [TextContent placeholder None]) @ replace_images_loop placeholder True bs"
| "replace_images_loop placeholder previous (TextContent t s # bs) =
     TextContent t s # replace_images_loop placeholder (t = placeholder) bs"
| "replace_images_loop placeholder previous (b # bs) = b # replace_images_loop placeholder False bs"

definition replace_images_with_placeholder :: "block list \<Rightarrow> pystr \<Rightarrow> block list" where
  "replace_images_with_placeholder content placeholder = replace_images_loop placeholder False content"

record split_error_tool_result =
  se_content :: "block list"
  se_caption :: pystr
  se_images :: "block list"

definition split_error_tool_result_images :: "tool_result_message \<Rightarrow> split_error_tool_result option" where
  "split_error_tool_result_images msg =
    (if \<not> trm_is_error msg then None
     else let images = filter is_image (trm_content msg)
       in if images = [] then None
          else Some \<lparr>se_content = replace_images_with_placeholder (trm_content msg) ERROR_TOOL_IMAGE_PLACEHOLDER,
                     se_caption = lit ''Images from the error result of tool call '' @ trm_tool_call_id msg
                       @ lit '' ('' @ trm_tool_name msg @ lit ''):'',
                     se_images = images\<rparr>)"

fun downgrade_message :: "message \<Rightarrow> message" where
  "downgrade_message (UserMsg u) =
     (case um_content u of
        Blocks bs \<Rightarrow> UserMsg (u\<lparr>um_content := Blocks (replace_images_with_placeholder bs NON_VISION_USER_IMAGE_PLACEHOLDER)\<rparr>)
      | StrContent s \<Rightarrow> UserMsg u)"
| "downgrade_message (ToolResultMsg r) =
     ToolResultMsg (r\<lparr>trm_content := replace_images_with_placeholder (trm_content r) NON_VISION_TOOL_IMAGE_PLACEHOLDER\<rparr>)"
| "downgrade_message m = m"

definition downgrade_unsupported_images :: "message list \<Rightarrow> model_ref \<Rightarrow> message list" where
  "downgrade_unsupported_images messages model =
    (if lit ''image'' \<in> set (md_input model) then messages else map downgrade_message messages)"

text \<open>Null content becomes the empty list.\<close>

fun with_empty_content :: "message \<Rightarrow> message" where
  "with_empty_content (SystemMsg m) = SystemMsg (m\<lparr>sm_content := Blocks []\<rparr>)"
| "with_empty_content (UserMsg m) = UserMsg (m\<lparr>um_content := Blocks []\<rparr>)"
| "with_empty_content (AssistantMsg m) = AssistantMsg (m\<lparr>am_content := []\<rparr>)"
| "with_empty_content (ToolResultMsg m) = ToolResultMsg (m\<lparr>trm_content := []\<rparr>)"
| "with_empty_content (CustomMsg m) = CustomMsg (m\<lparr>cm_content := Blocks []\<rparr>)"
| "with_empty_content m = m"

fun normalize_null_content :: "raw_message \<Rightarrow> message" where
  "normalize_null_content (FullMsg m) = m"
| "normalize_null_content (NullContent m) = with_empty_content m"

subsection \<open>First pass\<close>

type_synonym id_normalizer = "pystr \<Rightarrow> assistant_message \<Rightarrow> pystr"
type_synonym id_map = "(pystr, pystr) dict"

definition same_model :: "model_ref \<Rightarrow> assistant_message \<Rightarrow> bool" where
  "same_model model m \<longleftrightarrow> am_provider m = md_provider model \<and> am_api m = md_api model \<and> am_model m = md_id model"

definition truthy_str :: "pystr option \<Rightarrow> bool" where
  "truthy_str s = (case s of None \<Rightarrow> False | Some t \<Rightarrow> t \<noteq> [])"

definition transform_tool_call ::
  "id_normalizer option \<Rightarrow> bool \<Rightarrow> assistant_message \<Rightarrow> tool_call \<Rightarrow> id_map \<Rightarrow> tool_call \<times> id_map" where
  "transform_tool_call normalizer is_same m call ids =
    (let call1 = (if \<not> is_same \<and> call_thought_signature call \<noteq> None
                  then call\<lparr>call_thought_signature := None\<rparr> else call)
     in case normalizer of
          Some norm \<Rightarrow>
            (if is_same then (call1, ids)
             else let normalized_id = norm (call_id call) m
               in if normalized_id \<noteq> call_id call
                  then (call1\<lparr>call_id := normalized_id\<rparr>, dict_set (call_id call) normalized_id ids)
                  else (call1, ids))
        | None \<Rightarrow> (call1, ids))"

fun transform_blocks ::
  "id_normalizer option \<Rightarrow> bool \<Rightarrow> assistant_message \<Rightarrow> block list \<Rightarrow> id_map \<Rightarrow> block list \<times> id_map" where
  "transform_blocks normalizer is_same m [] ids = ([], ids)"
| "transform_blocks normalizer is_same m (ThinkingContent t sig redacted # bs) ids =
     (let (rest, ids') = transform_blocks normalizer is_same m bs ids
      in if \<not> is_same then (rest, ids')
         else if redacted \<or> truthy_str sig then (ThinkingContent t sig redacted # rest, ids')
         else if t = [] \<or> py_strip t = [] then (rest, ids')
         else (ThinkingContent t sig redacted # rest, ids'))"
| "transform_blocks normalizer is_same m (TextContent t sig # bs) ids =
     (let (rest, ids') = transform_blocks normalizer is_same m bs ids
      in ((if is_same then TextContent t sig else TextContent t None) # rest, ids'))"
| "transform_blocks normalizer is_same m (ToolCallContent call # bs) ids =
     (let (call', ids1) = transform_tool_call normalizer is_same m call ids;
          (rest, ids') = transform_blocks normalizer is_same m bs ids1
      in (ToolCallContent call' # rest, ids'))"
| "transform_blocks normalizer is_same m (ImageContent d mt # bs) ids =
     (let (rest, ids') = transform_blocks normalizer is_same m bs ids
      in (ImageContent d mt # rest, ids'))"

fun transform_message :: "id_normalizer option \<Rightarrow> model_ref \<Rightarrow> message \<Rightarrow> id_map \<Rightarrow> message \<times> id_map" where
  "transform_message normalizer model (ToolResultMsg r) ids =
     (case dict_get ids (trm_tool_call_id r) of
        Some normalized_id \<Rightarrow>
          (if normalized_id \<noteq> trm_tool_call_id r then (ToolResultMsg (r\<lparr>trm_tool_call_id := normalized_id\<rparr>), ids)
           else (ToolResultMsg r, ids))
      | None \<Rightarrow> (ToolResultMsg r, ids))"
| "transform_message normalizer model (AssistantMsg m) ids =
     (let (content, ids') = transform_blocks normalizer (same_model model m) m (am_content m) ids
      in (AssistantMsg (m\<lparr>am_content := content\<rparr>), ids'))"
| "transform_message normalizer model m ids = (m, ids)"

fun first_pass :: "id_normalizer option \<Rightarrow> model_ref \<Rightarrow> message list \<Rightarrow> id_map \<Rightarrow> message list" where
  "first_pass normalizer model [] ids = []"
| "first_pass normalizer model (m # ms) ids =
     (let (m', ids') = transform_message normalizer model m ids in m' # first_pass normalizer model ms ids')"

subsection \<open>Second pass\<close>

record pairing =
  pr_result :: "message list"
  pr_pending :: "tool_call list"
  pr_existing :: "pystr list"
  pr_held :: "message list"
  pr_clock :: nat

text \<open>\<open>clock.now_ms()\<close> is the \<open>n\<close>-th reading of the clock.\<close>

definition no_result :: "int \<Rightarrow> tool_call \<Rightarrow> message" where
  "no_result now call = ToolResultMsg
     \<lparr>trm_tool_call_id = call_id call, trm_tool_name = call_name call,
      trm_content = [TextContent (lit ''No result provided'') None], trm_is_error = True,
      trm_timestamp = now, trm_details = JNull, trm_usage = None, trm_nested_calls = None, trm_duration_ms = None\<rparr>"

fun synthesize :: "(nat \<Rightarrow> int) \<Rightarrow> nat \<Rightarrow> tool_call list \<Rightarrow> message list" where
  "synthesize clock n [] = []"
| "synthesize clock n (c # cs) = no_result (clock n) c # synthesize clock (Suc n) cs"

definition close_pending_tool_calls :: "(nat \<Rightarrow> int) \<Rightarrow> pairing \<Rightarrow> pairing" where
  "close_pending_tool_calls clock st =
    (let orphans = filter (\<lambda>c. call_id c \<notin> set (pr_existing st)) (pr_pending st);
         st1 = (if pr_pending st \<noteq> []
                then st\<lparr>pr_result := pr_result st @ synthesize clock (pr_clock st) orphans,
                        pr_clock := pr_clock st + length orphans, pr_pending := [], pr_existing := []\<rparr>
                else st)
     in st1\<lparr>pr_result := pr_result st1 @ pr_held st1, pr_held := []\<rparr>)"

definition append_out :: "message \<Rightarrow> pairing \<Rightarrow> pairing" where
  "append_out m st = st\<lparr>pr_result := pr_result st @ [m]\<rparr>"

definition failed_turn :: "assistant_message \<Rightarrow> bool" where
  "failed_turn m \<longleftrightarrow> am_stop_reason m = StopError \<or> am_stop_reason m = Aborted"

fun pair_step :: "(nat \<Rightarrow> int) \<Rightarrow> message \<Rightarrow> pairing \<Rightarrow> pairing" where
  "pair_step clock (AssistantMsg m) st =
     (let st1 = close_pending_tool_calls clock st
      in if failed_turn m then st1
         else let calls = tool_calls_of (am_content m);
                  st2 = (if calls \<noteq> [] then st1\<lparr>pr_pending := calls, pr_existing := []\<rparr> else st1)
              in append_out (AssistantMsg m) st2)"
| "pair_step clock (ToolResultMsg r) st =
     append_out (ToolResultMsg r) (st\<lparr>pr_existing := trm_tool_call_id r # pr_existing st\<rparr>)"
| "pair_step clock (SystemMsg s) st =
     (if pr_pending st \<noteq> [] then st\<lparr>pr_held := pr_held st @ [SystemMsg s]\<rparr> else append_out (SystemMsg s) st)"
| "pair_step clock (UserMsg u) st = append_out (UserMsg u) (close_pending_tool_calls clock st)"
| "pair_step clock m st = append_out m st"

definition second_pass :: "(nat \<Rightarrow> int) \<Rightarrow> message list \<Rightarrow> message list" where
  "second_pass clock transformed =
    pr_result (close_pending_tool_calls clock
      (fold (pair_step clock) transformed
        \<lparr>pr_result = [], pr_pending = [], pr_existing = [], pr_held = [], pr_clock = 0\<rparr>))"

definition transform_messages ::
  "(nat \<Rightarrow> int) \<Rightarrow> raw_message list \<Rightarrow> model_ref \<Rightarrow> id_normalizer option \<Rightarrow> message list" where
  "transform_messages clock messages model normalizer =
    (let normalized = map normalize_null_content messages;
         image_aware = downgrade_unsupported_images normalized model
     in second_pass clock (first_pass normalizer model image_aware []))"

subsection \<open>Histories a provider accepts\<close>

text \<open>
  The automaton that reads a history: whether the current turn called tools, whether a system
  message has followed in that turn, and the ids of the calls still unanswered. \<open>None\<close> is
  rejection. The strict reading also rejects a tool result after such a system message.
\<close>

type_synonym turn_state = "bool \<times> bool \<times> pystr list"

fun turn_step :: "bool \<Rightarrow> message \<Rightarrow> turn_state \<Rightarrow> turn_state option" where
  "turn_step strict (AssistantMsg m) (turn, sealed, open_ids) =
     (if open_ids \<noteq> [] \<or> failed_turn m then None
      else Some (tool_calls_of (am_content m) \<noteq> [], False, map call_id (tool_calls_of (am_content m))))"
| "turn_step strict (ToolResultMsg r) (turn, sealed, open_ids) =
     (if strict \<and> sealed then None else Some (turn, sealed, filter (\<lambda>i. i \<noteq> trm_tool_call_id r) open_ids))"
| "turn_step strict (SystemMsg s) (turn, sealed, open_ids) = (if open_ids \<noteq> [] then None else Some (turn, turn, []))"
| "turn_step strict (UserMsg u) (turn, sealed, open_ids) = (if open_ids \<noteq> [] then None else Some (False, False, []))"
| "turn_step strict m (turn, sealed, open_ids) = (if strict \<and> sealed then None else Some (turn, sealed, open_ids))"

fun turn_run :: "bool \<Rightarrow> turn_state \<Rightarrow> message list \<Rightarrow> turn_state option" where
  "turn_run strict st [] = Some st"
| "turn_run strict st (m # ms) = (case turn_step strict m st of None \<Rightarrow> None | Some st' \<Rightarrow> turn_run strict st' ms)"

definition well_paired :: "bool \<Rightarrow> message list \<Rightarrow> bool" where
  "well_paired strict ms =
    (case turn_run strict (False, False, []) ms of None \<Rightarrow> False | Some (turn, sealed, open_ids) \<Rightarrow> open_ids = [])"

lemma turn_run_append:
  "turn_run strict st (xs @ ys) = (case turn_run strict st xs of None \<Rightarrow> None | Some st' \<Rightarrow> turn_run strict st' ys)"
  by (induction xs arbitrary: st) (auto split: option.splits)

definition unanswered :: "pairing \<Rightarrow> pystr list" where
  "unanswered st = filter (\<lambda>i. i \<notin> set (pr_existing st)) (map call_id (pr_pending st))"

text \<open>What the second pass keeps of its state; strictly, as long as it meets no failed turn.\<close>

definition pairing_ok :: "bool \<Rightarrow> pairing \<Rightarrow> bool" where
  "pairing_ok strict st \<longleftrightarrow>
     (\<exists>turn sealed. turn_run strict (False, False, []) (pr_result st) = Some (turn, sealed, unanswered st) \<and>
        (strict \<longrightarrow> turn = (pr_pending st \<noteq> []) \<and> \<not> sealed)) \<and>
     list_all is_system_msg (pr_held st) \<and> (pr_held st \<noteq> [] \<longrightarrow> pr_pending st \<noteq> [])"

lemma turn_run_synthesize:
  "\<not> (strict \<and> sealed) \<Longrightarrow>
   turn_run strict (turn, sealed, filter (\<lambda>i. i \<notin> E) (map call_id cs)) (synthesize clock n (filter (\<lambda>c. call_id c \<notin> E) cs))
     = Some (turn, sealed, [])"
proof -
  assume "\<not> (strict \<and> sealed)"
  then have "turn_run strict (turn, sealed, ids) (synthesize clock n ds) =
      Some (turn, sealed, filter (\<lambda>i. i \<notin> call_id ` set ds) ids)"
    for ids ds
    by (induction ds arbitrary: ids n) (auto simp: no_result_def intro: filter_cong)
  then show ?thesis by (force simp: filter_empty_conv)
qed

lemma turn_run_held:
  "list_all is_system_msg hs \<Longrightarrow>
   turn_run strict (turn, sealed, []) hs = Some (turn, if hs = [] then sealed else turn, [])"
proof (induction hs arbitrary: sealed)
  case Nil
  then show ?case by simp
next
  case (Cons h hs)
  then show ?case by (cases h) auto
qed

lemma close_result:
  assumes "pairing_ok strict st"
  shows "\<exists>turn sealed. turn_run strict (False, False, []) (pr_result (close_pending_tool_calls clock st)) = Some (turn, sealed, [])"
proof (cases "pr_pending st = []")
  case True
  with assms show ?thesis
    by (auto simp: pairing_ok_def close_pending_tool_calls_def unanswered_def Let_def)
next
  case False
  from assms obtain turn sealed where st:
    "turn_run strict (False, False, []) (pr_result st) = Some (turn, sealed, unanswered st)" "\<not> (strict \<and> sealed)"
    "list_all is_system_msg (pr_held st)"
    by (auto simp: pairing_ok_def)
  with False show ?thesis
    using turn_run_synthesize [OF st(2), of turn "set (pr_existing st)" "pr_pending st" clock "pr_clock st"]
    by (simp add: close_pending_tool_calls_def unanswered_def Let_def turn_run_append turn_run_held)
qed

lemma close_clears [simp]:
  "pr_pending (close_pending_tool_calls clock st) = []" "pr_held (close_pending_tool_calls clock st) = []"
  by (simp_all add: close_pending_tool_calls_def Let_def)

fun is_failed_turn :: "message \<Rightarrow> bool" where
  "is_failed_turn (AssistantMsg m) = failed_turn m"
| "is_failed_turn _ = False"

lemma pairing_okI:
  "turn_run strict (False, False, []) (pr_result st) = Some before \<Longrightarrow>
   turn_step strict m before = Some (turn, sealed, unanswered st') \<Longrightarrow> pr_result st' = pr_result st @ [m] \<Longrightarrow>
   (strict \<longrightarrow> turn = (pr_pending st' \<noteq> []) \<and> \<not> sealed) \<Longrightarrow>
   list_all is_system_msg (pr_held st') \<Longrightarrow> (pr_held st' \<noteq> [] \<longrightarrow> pr_pending st' \<noteq> []) \<Longrightarrow> pairing_ok strict st'"
  unfolding pairing_ok_def by (auto simp: turn_run_append)

lemma pair_step_ok:
  assumes ok: "pairing_ok strict st" and clean: "strict \<Longrightarrow> \<not> is_failed_turn m"
  shows "pairing_ok strict (pair_step clock m st)"
proof -
  from ok obtain turn sealed where
    run: "turn_run strict (False, False, []) (pr_result st) = Some (turn, sealed, unanswered st)" and
    strict: "strict \<longrightarrow> turn = (pr_pending st \<noteq> []) \<and> \<not> sealed" and
    held: "list_all is_system_msg (pr_held st)" "pr_held st \<noteq> [] \<longrightarrow> pr_pending st \<noteq> []"
    by (auto simp: pairing_ok_def)
  note here = pairing_okI [OF run, of m turn sealed "pair_step clock m st"]
  show ?thesis
  proof (cases m)
    case (AssistantMsg a)
    from close_result [OF ok, of clock] obtain turn sealed where
      "turn_run strict (False, False, []) (pr_result (close_pending_tool_calls clock st)) = Some (turn, sealed, [])" by blast
    with AssistantMsg clean show ?thesis
      by (auto simp: pairing_ok_def Let_def append_out_def turn_run_append unanswered_def)
  next
    case (UserMsg u)
    from close_result [OF ok, of clock] obtain turn sealed where
      "turn_run strict (False, False, []) (pr_result (close_pending_tool_calls clock st)) = Some (turn, sealed, [])" by blast
    from pairing_okI [OF this, of m False False "pair_step clock m st"] UserMsg show ?thesis
      by (simp add: append_out_def unanswered_def)
  next
    case (SystemMsg s)
    show ?thesis
    proof (cases "pr_pending st = []")
      case True
      with pairing_okI [OF run, of m turn turn "pair_step clock m st"] SystemMsg strict held show ?thesis
        by (simp add: append_out_def unanswered_def)
    next
      case False
      with ok SystemMsg show ?thesis by (simp add: pairing_ok_def unanswered_def)
    qed
  next
    case (ToolResultMsg r)
    have "filter (\<lambda>i. i \<noteq> trm_tool_call_id r) (unanswered st) = unanswered (pair_step clock m st)"
      using ToolResultMsg by (auto simp: unanswered_def append_out_def intro: filter_cong)
    with here ToolResultMsg strict held show ?thesis by (auto simp: append_out_def)
  qed (use here strict held in \<open>auto simp: append_out_def unanswered_def\<close>)
qed

abbreviation pairing_start :: pairing where
  "pairing_start \<equiv> \<lparr>pr_result = [], pr_pending = [], pr_existing = [], pr_held = [], pr_clock = 0\<rparr>"

lemma pairing_ok_fold:
  "pairing_ok strict st \<Longrightarrow> (strict \<longrightarrow> list_all (\<lambda>m. \<not> is_failed_turn m) ms) \<Longrightarrow>
   pairing_ok strict (fold (pair_step clock) ms st)"
  by (induction ms arbitrary: st) (auto simp: pair_step_ok)

lemma second_pass_well_paired:
  "(strict \<longrightarrow> list_all (\<lambda>m. \<not> is_failed_turn m) ms) \<Longrightarrow> well_paired strict (second_pass clock ms)"
proof -
  assume "strict \<longrightarrow> list_all (\<lambda>m. \<not> is_failed_turn m) ms"
  moreover have "pairing_ok strict pairing_start"
    by (simp add: pairing_ok_def unanswered_def ex_bool_eq)
  ultimately have "pairing_ok strict (fold (pair_step clock) ms pairing_start)"
    by (simp add: pairing_ok_fold)
  from close_result [OF this, of clock] show ?thesis
    by (auto simp: well_paired_def second_pass_def)
qed

text \<open>The second pass has no effect on a strictly paired history.\<close>

definition caught_up :: "message list \<Rightarrow> pairing \<Rightarrow> bool" where
  "caught_up seen st \<longleftrightarrow> pr_result st @ pr_held st = seen \<and>
     (\<exists>sealed. turn_run True (False, False, []) seen = Some (pr_pending st \<noteq> [], sealed, unanswered st) \<and>
       (sealed \<longleftrightarrow> pr_held st \<noteq> [])) \<and> (pr_held st \<noteq> [] \<longrightarrow> pr_pending st \<noteq> [])"

lemma close_idle:
  "pr_pending st \<noteq> [] \<longrightarrow> unanswered st = [] \<Longrightarrow>
   pr_result (close_pending_tool_calls clock st) = pr_result st @ pr_held st"
  by (auto simp: close_pending_tool_calls_def Let_def unanswered_def filter_empty_conv)

lemma caught_up_step:
  assumes "caught_up seen st" "turn_run True (False, False, []) (seen @ [m]) = Some x"
  shows "caught_up (seen @ [m]) (pair_step clock m st)"
proof -
  from assms(1) obtain sealed where st: "pr_result st @ pr_held st = seen"
    "turn_run True (False, False, []) seen = Some (pr_pending st \<noteq> [], sealed, unanswered st)"
    "sealed \<longleftrightarrow> pr_held st \<noteq> []" "pr_held st \<noteq> [] \<Longrightarrow> pr_pending st \<noteq> []"
    by (auto simp: caught_up_def)
  from st(2) assms(2) have step: "turn_step True m (pr_pending st \<noteq> [], sealed, unanswered st) = Some x"
    by (simp add: turn_run_append split: option.splits)
  note facts = st step close_idle [of st clock]
  show ?thesis
    by (cases m) (use facts in \<open>auto simp: caught_up_def Let_def append_out_def turn_run_append unanswered_def split: if_splits intro: filter_cong\<close>)
qed

lemma caught_up_fold:
  "caught_up seen st \<Longrightarrow> turn_run True (False, False, []) (seen @ ms) = Some x \<Longrightarrow>
   caught_up (seen @ ms) (fold (pair_step clock) ms st)"
proof (induction ms arbitrary: seen st)
  case Nil
  then show ?case by simp
next
  case (Cons m ms)
  have "turn_run True (False, False, []) (seen @ [m]) \<noteq> None"
    using Cons.prems(2) turn_run_append [of True "(False, False, [])" "seen @ [m]" ms] by (auto split: option.splits)
  then obtain y where "turn_run True (False, False, []) (seen @ [m]) = Some y" by blast
  from Cons.IH [OF caught_up_step [OF Cons.prems(1) this]] Cons.prems(2) show ?case by simp
qed

lemma second_pass_fixed: "well_paired True ms \<Longrightarrow> second_pass clock ms = ms"
proof -
  assume "well_paired True ms"
  then obtain turn sealed where run: "turn_run True (False, False, []) ms = Some (turn, sealed, [])"
    by (auto simp: well_paired_def split: option.splits prod.splits)
  have "caught_up [] pairing_start" by (simp add: caught_up_def unanswered_def ex_bool_eq)
  from caught_up_fold [OF this, of ms] run
  have "caught_up ms (fold (pair_step clock) ms pairing_start)" by simp
  with run show ?thesis by (auto simp: caught_up_def second_pass_def close_idle)
qed

fun is_tool_result_msg :: "message \<Rightarrow> bool" where
  "is_tool_result_msg (ToolResultMsg r) = True"
| "is_tool_result_msg _ = False"

definition conversational :: "message \<Rightarrow> bool" where
  "conversational m \<longleftrightarrow> \<not> is_tool_result_msg m \<and> \<not> is_system_msg m"

lemma conversational_simps [simp]:
  "conversational (AssistantMsg a)" "conversational (UserMsg u)" "\<not> conversational (ToolResultMsg r)"
  "\<not> conversational (SystemMsg s)" "conversational (BashMsg b)" "conversational (CustomMsg c)"
  "conversational (BranchSummaryMsg x)" "conversational (CompactionSummaryMsg y)" "conversational (OtherMsg z)"
  by (simp_all add: conversational_def)

lemma synthesize_tool_results: "m \<in> set (synthesize clock n cs) \<Longrightarrow> is_tool_result_msg m"
  by (induction cs arbitrary: n) (auto simp: no_result_def)

lemma system_of_synthesize [simp]: "system_messages (synthesize clock n cs) = []"
  by (rule system_messages_none) (metis is_system_msg.elims(2) is_tool_result_msg.simps(2) synthesize_tool_results)

lemma conversation_of_synthesize [simp]: "filter conversational (synthesize clock n cs) = []"
  by (auto simp: filter_empty_conv conversational_def dest: synthesize_tool_results)

lemma conversation_of_held [simp]: "list_all is_system_msg hs \<Longrightarrow> filter conversational hs = []"
  by (auto simp: filter_empty_conv conversational_def list_all_iff)

lemma results_of_held: "list_all is_system_msg hs \<Longrightarrow> filter is_tool_result_msg hs = []"
  by (auto simp: filter_empty_conv list_all_iff elim!: is_system_msg.elims)

text \<open>What the second pass has emitted or holds back, after the messages \<open>seen\<close>.\<close>

definition conserved :: "message list \<Rightarrow> pairing \<Rightarrow> bool" where
  "conserved seen st \<longleftrightarrow>
     filter conversational (pr_result st) = filter (\<lambda>m. conversational m \<and> \<not> is_failed_turn m) seen \<and>
     system_messages (pr_result st @ pr_held st) = system_messages seen \<and>
     subseq (filter is_tool_result_msg seen) (filter is_tool_result_msg (pr_result st)) \<and>
     list_all is_system_msg (pr_held st)"

lemma conserved_close: "conserved seen st \<Longrightarrow> conserved seen (close_pending_tool_calls clock st)"
  by (auto simp: conserved_def close_pending_tool_calls_def Let_def results_of_held intro: subseq_order.trans)

lemma conserved_step:
  assumes "conserved seen st" "pr_held st \<noteq> [] \<longrightarrow> pr_pending st \<noteq> []"
  shows "conserved (seen @ [m]) (pair_step clock m st)"
proof (cases m)
  case (AssistantMsg a)
  with conserved_close [OF assms(1), of clock] show ?thesis
    by (auto simp: conserved_def append_out_def Let_def)
next
  case (UserMsg a)
  with conserved_close [OF assms(1), of clock] show ?thesis
    by (auto simp: conserved_def append_out_def Let_def)
qed (use assms in \<open>auto simp: conserved_def append_out_def list_emb_append_mono\<close>)

lemma conserved_fold:
  "conserved seen st \<Longrightarrow> pairing_ok False st \<Longrightarrow> conserved (seen @ ms) (fold (pair_step clock) ms st)"
proof (induction ms arbitrary: seen st)
  case Nil
  then show ?case by simp
next
  case (Cons m ms)
  have "conserved (seen @ [m]) (pair_step clock m st)"
    by (rule conserved_step [OF Cons.prems(1)]) (use Cons.prems(2) in \<open>simp add: pairing_ok_def\<close>)
  from Cons.IH [OF this pair_step_ok [OF Cons.prems(2)]] show ?case by simp
qed

lemma second_pass_conserves:
  "filter conversational (second_pass clock ms) = filter (\<lambda>m. conversational m \<and> \<not> is_failed_turn m) ms"
  "system_messages (second_pass clock ms) = system_messages ms"
  "subseq (filter is_tool_result_msg ms) (filter is_tool_result_msg (second_pass clock ms))"
proof -
  have "conserved [] pairing_start" "pairing_ok False pairing_start"
    by (simp_all add: conserved_def pairing_ok_def unanswered_def ex_bool_eq)
  then have "conserved ms (close_pending_tool_calls clock (fold (pair_step clock) ms pairing_start))"
    using conserved_close conserved_fold by force
  then show "filter conversational (second_pass clock ms) = filter (\<lambda>m. conversational m \<and> \<not> is_failed_turn m) ms"
    "system_messages (second_pass clock ms) = system_messages ms"
    "subseq (filter is_tool_result_msg ms) (filter is_tool_result_msg (second_pass clock ms))"
    by (simp_all add: conserved_def second_pass_def)
qed

subsection \<open>The first pass\<close>

lemma transform_message_shape:
  "is_failed_turn (fst (transform_message nz model m ids)) = is_failed_turn m"
  "conversational (fst (transform_message nz model m ids)) = conversational m"
  "is_system_msg (fst (transform_message nz model m ids)) = is_system_msg m"
  by (cases m; auto simp: failed_turn_def split: option.splits prod.splits)+

lemma first_pass_shape:
  "list_all (\<lambda>m. \<not> is_failed_turn m) (first_pass nz model ms ids) = list_all (\<lambda>m. \<not> is_failed_turn m) ms"
  "system_messages (first_pass nz model ms ids) = system_messages ms"
  "length (first_pass nz model ms ids) = length ms"
proof (induction ms arbitrary: ids)
  case (Cons m ms)
  {
    case 1
    with Cons.IH show ?case by (simp add: case_prod_beta transform_message_shape)
  next
    case 2
    with Cons.IH show ?case by (cases m) (auto simp: split: option.splits prod.splits)
  next
    case 3
    with Cons.IH show ?case by (simp add: case_prod_beta)
  }
qed simp_all

lemma downgrade_shape:
  "list_all (\<lambda>m. \<not> is_failed_turn m) (downgrade_unsupported_images ms model) = list_all (\<lambda>m. \<not> is_failed_turn m) ms"
  "system_messages (downgrade_unsupported_images ms model) = system_messages ms"
proof -
  have 1: "is_failed_turn (downgrade_message m) = is_failed_turn m" for m
    by (cases m) (auto split: content.split)
  show "list_all (\<lambda>m. \<not> is_failed_turn m) (downgrade_unsupported_images ms model) = list_all (\<lambda>m. \<not> is_failed_turn m) ms"
    by (simp add: downgrade_unsupported_images_def list.pred_map comp_def 1)
  have "system_messages (map downgrade_message ms) = system_messages ms"
  proof (induction ms)
    case (Cons m ms)
    then show ?case by (cases m) (auto split: content.split)
  qed simp
  then show "system_messages (downgrade_unsupported_images ms model) = system_messages ms"
    by (simp add: downgrade_unsupported_images_def)
qed

text \<open>
  C29. The transformed history is one a provider accepts: every tool call of an assistant message is
  answered before the next assistant, user or system message and before the end, whatever the
  input, and no failed turn remains. Without failed turns in the input the results even come
  before every system message of their turn. System messages keep their number and order.
\<close>

theorem transform_answers_every_tool_call:
  "let input = map normalize_null_content ms;
       out = transform_messages clock ms model nz
   in well_paired False out \<and> list_all (\<lambda>m. \<not> is_failed_turn m) out \<and>
      (if list_all (\<lambda>m. \<not> is_failed_turn m) input then well_paired True out else True) \<and>
      system_messages out = system_messages input"
proof -
  have clean: "list_all (\<lambda>m. \<not> is_failed_turn m) xs" if "turn_run s st xs = Some x" for s st xs x
    using that
  proof (induction xs arbitrary: st)
    case (Cons m xs)
    then obtain st' where "turn_step s m st = Some st'" "turn_run s st' xs = Some x"
      by (auto split: option.splits)
    moreover obtain a b c where "st = (a, b, c)" by (rule prod_cases3)
    ultimately show ?case using Cons.IH by (cases m) (auto split: if_splits)
  qed simp
  have "well_paired False (second_pass clock xs)" for xs by (rule second_pass_well_paired) simp
  moreover have "list_all (\<lambda>m. \<not> is_failed_turn m) (second_pass clock xs)" for xs
    using calculation [of xs] by (auto simp: well_paired_def split: option.splits dest: clean)
  ultimately show ?thesis
    by (simp add: transform_messages_def Let_def second_pass_well_paired first_pass_shape downgrade_shape
        second_pass_conserves)
qed

subsection \<open>Content that fits the model\<close>

fun block_fits :: "id_normalizer option \<Rightarrow> bool \<Rightarrow> assistant_message \<Rightarrow> block \<Rightarrow> bool" where
  "block_fits nz is_same m (ThinkingContent t sig redacted) \<longleftrightarrow>
     is_same \<and> (redacted \<or> truthy_str sig \<or> py_strip t \<noteq> [])"
| "block_fits nz is_same m (TextContent t sig) \<longleftrightarrow> is_same \<or> sig = None"
| "block_fits nz is_same m (ToolCallContent c) \<longleftrightarrow>
     is_same \<or> call_thought_signature c = None \<and>
       (case nz of None \<Rightarrow> True | Some norm \<Rightarrow> norm (call_id c) m = call_id c)"
| "block_fits nz is_same m (ImageContent d mt) \<longleftrightarrow> True"

fun message_fits :: "id_normalizer option \<Rightarrow> model_ref \<Rightarrow> message \<Rightarrow> bool" where
  "message_fits nz model (AssistantMsg m) \<longleftrightarrow> list_all (block_fits nz (same_model model m) m) (am_content m)"
| "message_fits nz model (UserMsg u) \<longleftrightarrow>
     lit ''image'' \<in> set (md_input model) \<or>
     (case um_content u of StrContent s \<Rightarrow> True | Blocks bs \<Rightarrow> list_all (\<lambda>b. \<not> is_image b) bs)"
| "message_fits nz model (ToolResultMsg r) \<longleftrightarrow>
     lit ''image'' \<in> set (md_input model) \<or> list_all (\<lambda>b. \<not> is_image b) (trm_content r)"
| "message_fits nz model m \<longleftrightarrow> True"

lemma py_strip_Nil [simp]: "py_strip [] = []"
  by (simp add: py_strip_def)

lemma replaced_no_images [simp]: "list_all (\<lambda>b. \<not> is_image b) (replace_images_with_placeholder bs p)"
proof -
  have "list_all (\<lambda>b. \<not> is_image b) (replace_images_loop p prev bs)" for prev
    by (induction p prev bs rule: replace_images_loop.induct) auto
  then show ?thesis by (simp add: replace_images_with_placeholder_def)
qed

lemma replace_nothing: "list_all (\<lambda>b. \<not> is_image b) bs \<Longrightarrow> replace_images_with_placeholder bs p = bs"
proof -
  have "list_all (\<lambda>b. \<not> is_image b) bs \<Longrightarrow> replace_images_loop p prev bs = bs" for prev
    by (induction p prev bs rule: replace_images_loop.induct) auto
  then show "list_all (\<lambda>b. \<not> is_image b) bs \<Longrightarrow> ?thesis" by (simp add: replace_images_with_placeholder_def)
qed

definition normalizer_stable :: "id_normalizer option \<Rightarrow> bool" where
  "normalizer_stable nz \<longleftrightarrow> (case nz of None \<Rightarrow> True | Some norm \<Rightarrow> (\<forall>i m m'. norm (norm i m) m' = norm i m))"

lemma transform_blocks_fit:
  "normalizer_stable nz \<Longrightarrow>
   list_all (block_fits nz is_same m') (fst (transform_blocks nz is_same m bs ids))"
proof (induction nz is_same m bs ids rule: transform_blocks.induct)
  case (4 nz is_same m call bs ids)
  then show ?case
    by (auto simp: case_prod_beta Let_def transform_tool_call_def normalizer_stable_def split: option.splits if_splits)
      metis+
qed (auto simp: case_prod_beta Let_def)

text \<open>Whatever the normalizer, foreign content loses its thinking and its signatures.\<close>

lemma transform_blocks_fit_any:
  "list_all (block_fits None is_same m') (fst (transform_blocks nz is_same m bs ids))"
proof (induction nz is_same m bs ids rule: transform_blocks.induct)
  case (4 nz is_same m call bs ids)
  then show ?case
    by (auto simp: case_prod_beta Let_def transform_tool_call_def split: option.splits if_splits)
qed (auto simp: case_prod_beta Let_def)

lemma transform_blocks_id:
  "list_all (block_fits nz is_same m) bs \<Longrightarrow> transform_blocks nz is_same m bs ids = (bs, ids)"
proof (induction nz is_same m bs ids rule: transform_blocks.induct)
  case (4 nz is_same m call bs ids)
  then show ?case by (auto simp: transform_tool_call_def Let_def split: option.splits)
qed (auto simp: Let_def)

lemma first_pass_id: "list_all (message_fits nz model) ms \<Longrightarrow> first_pass nz model ms [] = ms"
proof (induction ms)
  case (Cons m ms)
  then have "transform_message nz model m [] = (m, [])"
    by (cases m) (auto simp: transform_blocks_id)
  with Cons show ?case by simp
qed simp

lemma downgrade_id:
  "list_all (message_fits nz model) ms \<Longrightarrow> downgrade_unsupported_images ms model = ms"
proof -
  assume fits: "list_all (message_fits nz model) ms"
  show ?thesis
  proof (cases "lit ''image'' \<in> set (md_input model)")
    case False
    have "downgrade_message m = m" if "message_fits nz model m" for m
      using that False by (cases m) (auto simp: replace_nothing split: content.splits)
    with fits have "map downgrade_message ms = ms" by (simp add: list_all_iff map_idI)
    with False show ?thesis by (simp add: downgrade_unsupported_images_def)
  qed (simp add: downgrade_unsupported_images_def)
qed

lemma first_pass_fits:
  assumes "nz' = None \<or> nz' = nz \<and> normalizer_stable nz"
  shows "list_all (message_fits nz' model) (first_pass nz model (downgrade_unsupported_images ms model) ids)"
proof -
  have blocks: "list_all (block_fits nz' s m') (fst (transform_blocks nz s m bs i))" for s m' m bs i
    using assms transform_blocks_fit transform_blocks_fit_any by blast
  have same: "same_model model (m\<lparr>am_content := c\<rparr>) = same_model model m" for m c
    by (simp add: same_model_def)
  have first: "list_all (message_fits nz' model) (first_pass nz model xs ids)"
    if "list_all (\<lambda>m. is_assistant_msg m \<or> message_fits nz' model m) xs" for xs
    using that
  proof (induction xs arbitrary: ids)
    case (Cons x xs)
    then have "message_fits nz' model (fst (transform_message nz model x ids))"
      using blocks by (cases x) (auto simp: case_prod_beta same split: option.splits)
    with Cons show ?case by (simp add: case_prod_beta)
  qed simp
  have "is_assistant_msg (downgrade_message m) \<or> message_fits nz' model (downgrade_message m)" for m
    by (cases m) (auto split: content.splits)
  moreover have "is_assistant_msg m \<or> message_fits nz' model m" if "lit ''image'' \<in> set (md_input model)" for m
    using that by (cases m) auto
  ultimately show ?thesis
    by (intro first) (simp add: downgrade_unsupported_images_def list_all_iff)
qed

lemma second_pass_fits:
  assumes "list_all (message_fits nz model) ms"
  shows "list_all (message_fits nz model) (second_pass clock ms)"
proof -
  have syn: "list_all (message_fits nz model) (synthesize clock n cs)" for n cs
    by (induction cs arbitrary: n) (auto simp: no_result_def)
  define ok where "ok st \<longleftrightarrow> list_all (message_fits nz model) (pr_result st @ pr_held st)" for st :: pairing
  have close: "ok st \<Longrightarrow> ok (close_pending_tool_calls clock st)" for st
    by (auto simp: ok_def close_pending_tool_calls_def Let_def syn)
  have step: "ok st \<Longrightarrow> message_fits nz model m \<Longrightarrow> ok (pair_step clock m st)" for m st
  proof (cases m)
    case (AssistantMsg a)
    then show "ok st \<Longrightarrow> message_fits nz model m \<Longrightarrow> ?thesis"
      using close [of st] by (auto simp: ok_def append_out_def Let_def)
  next
    case (UserMsg u)
    then show "ok st \<Longrightarrow> message_fits nz model m \<Longrightarrow> ?thesis"
      using close [of st] by (auto simp: ok_def append_out_def)
  qed (auto simp: ok_def append_out_def)
  have "ok st \<Longrightarrow> list_all (message_fits nz model) xs \<Longrightarrow> ok (fold (pair_step clock) xs st)" for xs st
    by (induction xs arbitrary: st) (auto simp: step)
  from close [OF this [of pairing_start, OF _ assms]] show ?thesis
    by (simp add: ok_def second_pass_def)
qed


text \<open>
  Transforming is idempotent: with a normalizer that leaves its own ids alone, and no failed
  turn in the input, transforming the output again for the same model changes nothing.
\<close>

theorem transform_idempotent:
  assumes "normalizer_stable nz" "list_all (\<lambda>m. \<not> is_failed_turn m) (map normalize_null_content ms)"
  shows "let out = transform_messages clock ms model nz
         in transform_messages clock' (map FullMsg out) model nz = out"
proof -
  let ?out = "transform_messages clock ms model nz"
  have fits: "list_all (message_fits nz model) ?out"
    using assms(1) by (simp add: transform_messages_def Let_def second_pass_fits first_pass_fits)
  have paired: "well_paired True ?out"
    using assms(2)
    by (simp add: transform_messages_def Let_def second_pass_well_paired first_pass_shape downgrade_shape)
  have "map normalize_null_content (map FullMsg ?out) = ?out" by (simp add: map_idI)
  with second_pass_fixed [OF paired] show ?thesis
    by (simp add: Let_def transform_messages_def [of clock'] downgrade_id [OF fits] first_pass_id [OF fits])
qed

definition example_assistant :: "block list \<Rightarrow> stop_reason \<Rightarrow> assistant_message" where
  "example_assistant bs stop = \<lparr>am_content = bs, am_api = lit ''api'', am_provider = lit ''p'', am_model = lit ''old'',
     am_usage = None, am_stop_reason = stop, am_timestamp = 1, am_response_model = None, am_response_id = None,
     am_provider_thinking_level = None, am_thinking_level = None, am_diagnostics = None, am_error_message = None,
     am_raw_stop_reason = None, am_end_turn = None, am_deferred = None, am_duration_ms = None\<rparr>"

definition example_call :: "string \<Rightarrow> tool_call" where
  "example_call i = \<lparr>call_id = lit i, call_name = lit ''read'', call_arguments = [], call_thought_signature = None,
     call_namespace = None, call_arguments_error = None\<rparr>"

definition example_model :: model_ref where
  "example_model = \<lparr>md_id = lit ''new'', md_provider = lit ''p'', md_api = lit ''api'', md_input = [lit ''text'']\<rparr>"

theorem transform_idempotent_witness:
  "let norm = (\<lambda>i m. take 4 i);
       call = AssistantMsg (example_assistant [ThinkingContent (lit ''hm'') None False, ToolCallContent (example_call ''call-1'')] ToolUse);
       out = transform_messages (\<lambda>n. 7) [FullMsg call] example_model (Some norm)
   in out = [AssistantMsg (example_assistant [ToolCallContent (example_call ''call'')] ToolUse),
             no_result 7 (example_call ''call'')] \<and>
      transform_messages (\<lambda>n. 8) (map FullMsg out) example_model (Some norm) = out"
proof -
  let ?norm = "\<lambda>(i :: pystr) (m :: assistant_message). take 4 i"
  let ?ms = "[FullMsg (AssistantMsg (example_assistant
      [ThinkingContent (lit ''hm'') None False, ToolCallContent (example_call ''call-1'')] ToolUse))]"
  have "normalizer_stable (Some ?norm)" by (simp add: normalizer_stable_def)
  moreover have "list_all (\<lambda>m. \<not> is_failed_turn m) (map normalize_null_content ?ms)"
    by (simp add: failed_turn_def example_assistant_def)
  ultimately have "let out = transform_messages (\<lambda>n. 7) ?ms example_model (Some ?norm)
     in transform_messages (\<lambda>n. 8) (map FullMsg out) example_model (Some ?norm) = out"
    by (rule transform_idempotent)
  moreover have "transform_messages (\<lambda>n. 7) ?ms example_model (Some ?norm) =
     [AssistantMsg (example_assistant [ToolCallContent (example_call ''call'')] ToolUse),
      no_result 7 (example_call ''call'')]"
    by (simp add: transform_messages_def downgrade_unsupported_images_def example_model_def second_pass_def
        same_model_def example_assistant_def transform_tool_call_def example_call_def close_pending_tool_calls_def
        append_out_def failed_turn_def no_result_def Let_def pystr_simps)
  ultimately show ?thesis by (simp add: Let_def)
qed

end
