(* ===== verification/Session_Entry.thy ===== *)
theory Session_Entry
  imports Transcript
begin

section \<open>Session entries and context building (core/session_manager.py)\<close>

text \<open>
  A session is a tree of entries, each naming its parent; the context of a leaf is built from the
  path to it. This theory holds the entries, the walk from a leaf to its root, the settings, the
  compaction-aware selection of entries, context edits and the projection to messages. The fields
  of an entry's dict that a function here reads are fields of the records. The conversion of an ISO
  timestamp to milliseconds is the parameter \<open>epoch\<close>. A walk that follows a cycle of parents (a
  damaged file) does not end in the program; here it is \<open>None\<close>.
\<close>

subsection \<open>Entries\<close>

record compaction_body =
  cb_summary :: pystr
  cb_first_kept :: "pystr option"
  cb_tokens_before :: int
  cb_details :: "json option"
  cb_usage :: "usage option"
  cb_from_hook :: "bool option"
  cb_system :: "system_message option"

record branch_summary_body =
  bb_summary :: pystr
  bb_from_id :: "pystr option"
  bb_details :: "json option"
  bb_usage :: "usage option"
  bb_from_hook :: "bool option"

datatype entry_body =
    MessageE raw_message
  | ThinkingLevelE pystr
  | ModelChangeE pystr pystr
  | UsageE pystr pystr pystr usage "pystr option"
  | CompactionE compaction_body
  | BranchSummaryE branch_summary_body
  | CustomE pystr "json option"
  | CustomMessageE pystr "content option" bool "json option"
  | LabelE pystr "pystr option"
  | SessionInfoE "pystr option"
  | ContextEditE pystr "content option"
  | OtherE pystr json

record entry =
  en_id :: pystr
  en_parent :: "pystr option"
  en_timestamp :: pystr
  en_body :: entry_body

type_synonym index = "(pystr, entry) dict"

fun raw_system :: "raw_message \<Rightarrow> bool" where
  "raw_system (FullMsg m) = is_system_msg m"
| "raw_system (NullContent m) = is_system_msg m"

fun is_compaction :: "entry_body \<Rightarrow> bool" where
  "is_compaction (CompactionE c) = True"
| "is_compaction _ = False"

fun is_label :: "entry_body \<Rightarrow> bool" where
  "is_label (LabelE t l) = True"
| "is_label _ = False"

fun is_system_entry :: "entry_body \<Rightarrow> bool" where
  "is_system_entry (MessageE m) = raw_system m"
| "is_system_entry _ = False"

definition get_latest_compaction_entry :: "entry list \<Rightarrow> entry option" where
  "get_latest_compaction_entry entries = find (\<lambda>e. is_compaction (en_body e)) (rev entries)"

subsection \<open>Paths\<close>

definition index_entries :: "entry list \<Rightarrow> index \<Rightarrow> index" where
  "index_entries entries idx = fold (\<lambda>e. dict_set (en_id e) e) entries idx"

definition build_entry_index :: "entry list \<Rightarrow> index option \<Rightarrow> index" where
  "build_entry_index entries by_id = (case by_id of Some idx \<Rightarrow> idx | None \<Rightarrow> index_entries entries [])"

text \<open>\<open>index.get(parent_id) if parent_id else None\<close>\<close>

definition parent_of :: "index \<Rightarrow> entry \<Rightarrow> entry option" where
  "parent_of idx e = (case en_parent e of None \<Rightarrow> None | Some p \<Rightarrow> if p = [] then None else dict_get idx p)"

text \<open>
  The loop that collects the entries from a leaf to its root, leaf first. The fuel bounds the number
  of entries; one more than the size of the index is enough for every walk that ends.
\<close>

fun walk_up :: "nat \<Rightarrow> index \<Rightarrow> entry option \<Rightarrow> entry list option" where
  "walk_up fuel idx None = Some []"
| "walk_up 0 idx (Some e) = None"
| "walk_up (Suc fuel) idx (Some e) = map_option (\<lambda>es. e # es) (walk_up fuel idx (parent_of idx e))"

definition path_from :: "index \<Rightarrow> entry option \<Rightarrow> entry list option" where
  "path_from idx leaf = map_option rev (walk_up (Suc (length idx)) idx leaf)"

text \<open>The \<open>leaf_id\<close> argument: not given, explicitly none, or an id.\<close>

datatype leaf_arg = LeafUnset | LeafNone | LeafId pystr

definition last_entry :: "'a list \<Rightarrow> 'a option" where
  "last_entry xs = (if xs = [] then None else Some (last xs))"

definition build_session_path :: "entry list \<Rightarrow> leaf_arg \<Rightarrow> index option \<Rightarrow> entry list option" where
  "build_session_path entries leaf_id by_id =
    (let idx = build_entry_index entries by_id
     in case leaf_id of
          LeafNone \<Rightarrow> Some []
        | LeafUnset \<Rightarrow> path_from idx (last_entry entries)
        | LeafId i \<Rightarrow>
            (case dict_get idx i of
               Some leaf \<Rightarrow> path_from idx (Some leaf)
             | None \<Rightarrow> path_from idx (last_entry entries)))"

subsection \<open>Settings\<close>

record context_model =
  cmod_provider :: pystr
  cmod_model_id :: pystr

fun apply_setting :: "entry_body \<Rightarrow> pystr \<times> context_model option \<Rightarrow> pystr \<times> context_model option" where
  "apply_setting (ThinkingLevelE level) (thinking, model) = (level, model)"
| "apply_setting (ModelChangeE provider mid) (thinking, model) =
     (thinking, Some \<lparr>cmod_provider = provider, cmod_model_id = mid\<rparr>)"
| "apply_setting (MessageE (FullMsg (AssistantMsg m))) (thinking, model) =
     (thinking, Some \<lparr>cmod_provider = am_provider m, cmod_model_id = am_model m\<rparr>)"
| "apply_setting (MessageE (NullContent (AssistantMsg m))) (thinking, model) =
     (thinking, Some \<lparr>cmod_provider = am_provider m, cmod_model_id = am_model m\<rparr>)"
| "apply_setting _ (thinking, model) = (thinking, model)"

definition get_session_context_settings :: "entry list \<Rightarrow> pystr \<times> context_model option" where
  "get_session_context_settings path = fold (\<lambda>e. apply_setting (en_body e)) path (lit ''off'', None)"

subsection \<open>Messages of an entry\<close>

text \<open>
  Null content of a system message becomes the empty string, of a user, assistant or tool-result
  message the empty list; other messages pass as they are.
\<close>

fun context_message :: "raw_message \<Rightarrow> message" where
  "context_message (FullMsg m) = m"
| "context_message (NullContent (SystemMsg m)) = SystemMsg (m\<lparr>sm_content := StrContent []\<rparr>)"
| "context_message (NullContent (UserMsg m)) = UserMsg (m\<lparr>um_content := Blocks []\<rparr>)"
| "context_message (NullContent (AssistantMsg m)) = AssistantMsg (m\<lparr>am_content := []\<rparr>)"
| "context_message (NullContent (ToolResultMsg m)) = ToolResultMsg (m\<lparr>trm_content := []\<rparr>)"
| "context_message (NullContent m) = m"

definition create_custom_message :: "(pystr \<Rightarrow> int) \<Rightarrow> pystr \<Rightarrow> content \<Rightarrow> bool \<Rightarrow> json option \<Rightarrow> pystr \<Rightarrow> message" where
  "create_custom_message epoch custom_type body display details timestamp =
    CustomMsg \<lparr>cm_custom_type = custom_type, cm_content = body, cm_display = display, cm_timestamp = epoch timestamp,
               cm_details = (case details of None \<Rightarrow> JNull | Some d \<Rightarrow> d)\<rparr>"

definition create_branch_summary_message :: "(pystr \<Rightarrow> int) \<Rightarrow> pystr \<Rightarrow> pystr option \<Rightarrow> pystr \<Rightarrow> message" where
  "create_branch_summary_message epoch summary from_id timestamp =
    BranchSummaryMsg \<lparr>bs_summary = summary, bs_from_id = from_id, bs_timestamp = epoch timestamp\<rparr>"

definition create_compaction_summary_message :: "(pystr \<Rightarrow> int) \<Rightarrow> pystr \<Rightarrow> int \<Rightarrow> pystr \<Rightarrow> message" where
  "create_compaction_summary_message epoch summary tokens_before timestamp =
    CompactionSummaryMsg \<lparr>cs_summary = summary, cs_tokens_before = tokens_before, cs_timestamp = epoch timestamp\<rparr>"

definition session_entry_to_context_messages :: "(pystr \<Rightarrow> int) \<Rightarrow> entry \<Rightarrow> message list" where
  "session_entry_to_context_messages epoch entry =
    (case en_body entry of
       MessageE m \<Rightarrow> [context_message m]
     | CustomMessageE custom_type body display details \<Rightarrow>
         [create_custom_message epoch custom_type (case body of None \<Rightarrow> Blocks [] | Some c \<Rightarrow> c) display details
            (en_timestamp entry)]
     | BranchSummaryE b \<Rightarrow>
         (if bb_summary b \<noteq> [] then
            [create_branch_summary_message epoch (bb_summary b) (bb_from_id b) (en_timestamp entry)]
          else [])
     | CompactionE c \<Rightarrow>
         (let summary = create_compaction_summary_message epoch (cb_summary c) (cb_tokens_before c) (en_timestamp entry)
          in case cb_system c of Some s \<Rightarrow> [SystemMsg s, summary] | None \<Rightarrow> [summary])
     | _ \<Rightarrow> [])"

subsection \<open>Selection of the context entries\<close>

text \<open>The loop over the entries before the compaction, with \<open>found_first_kept\<close>.\<close>

fun kept_entries :: "pystr option \<Rightarrow> bool \<Rightarrow> entry list \<Rightarrow> entry list" where
  "kept_entries first_kept found [] = []"
| "kept_entries first_kept found (e # es) =
     (let found' = (found \<or> first_kept = Some (en_id e))
      in (if found' \<and> \<not> is_system_entry (en_body e) then [e] else []) @ kept_entries first_kept found' es)"

fun first_kept_of :: "entry_body \<Rightarrow> pystr option" where
  "first_kept_of (CompactionE c) = cb_first_kept c"
| "first_kept_of _ = None"

definition select_context_entries :: "entry list \<Rightarrow> entry list" where
  "select_context_entries path =
    (case get_latest_compaction_entry path of
       None \<Rightarrow> path
     | Some compaction \<Rightarrow>
         (case find_index (\<lambda>e. en_id e = en_id compaction) path of
            None \<Rightarrow> path
          | Some i \<Rightarrow>
              compaction # kept_entries (first_kept_of (en_body compaction)) False (take i path) @ drop (i + 1) path))"

definition build_context_entries :: "entry list \<Rightarrow> leaf_arg \<Rightarrow> index option \<Rightarrow> entry list option" where
  "build_context_entries entries leaf_id by_id =
    map_option select_context_entries (build_session_path entries leaf_id by_id)"

subsection \<open>Projection\<close>

fun edit_content :: "content \<Rightarrow> message \<Rightarrow> message" where
  "edit_content c (UserMsg m) = UserMsg (m\<lparr>um_content := c\<rparr>)"
| "edit_content c (CustomMsg m) = CustomMsg (m\<lparr>cm_content := c\<rparr>)"
| "edit_content c (AssistantMsg m) =
     AssistantMsg (m\<lparr>am_content := (case c of StrContent s \<Rightarrow> [TextContent s None] | Blocks bs \<Rightarrow> bs)\<rparr>)"
| "edit_content c (ToolResultMsg m) =
     ToolResultMsg (m\<lparr>trm_content := (case c of StrContent s \<Rightarrow> [TextContent s None] | Blocks bs \<Rightarrow> bs)\<rparr>)"
| "edit_content c m = m"

text \<open>The edit is given by its replacement: \<open>Some None\<close> omits the entry from the context.\<close>

definition project_context_entry :: "(pystr \<Rightarrow> int) \<Rightarrow> entry \<Rightarrow> content option option \<Rightarrow> message list" where
  "project_context_entry epoch entry edit =
    (let messages = session_entry_to_context_messages epoch entry
     in case edit of
          None \<Rightarrow> messages
        | Some None \<Rightarrow> []
        | Some (Some c) \<Rightarrow> map (edit_content c) messages)"

fun record_edit :: "entry_body \<Rightarrow> (pystr, content option) dict \<Rightarrow> (pystr, content option) dict" where
  "record_edit (ContextEditE target replacement) edits = dict_set target replacement edits"
| "record_edit _ edits = edits"

definition collect_edits :: "entry list \<Rightarrow> (pystr, content option) dict" where
  "collect_edits entries = fold (\<lambda>e. record_edit (en_body e)) entries []"

record projected_entry =
  pe_source :: entry
  pe_messages :: "message list"

record session_projection =
  sp_entries :: "projected_entry list"
  sp_messages :: "message list"
  sp_thinking_level :: pystr
  sp_model :: "context_model option"

definition project_entries :: "(pystr \<Rightarrow> int) \<Rightarrow> entry list \<Rightarrow> projected_entry list" where
  "project_entries epoch context_entries =
    (let edits = collect_edits context_entries
     in map (\<lambda>(i, e). \<lparr>pe_source = e,
               pe_messages = (if is_compaction (en_body e) \<and> i > 0 then []
                              else project_context_entry epoch e (dict_get edits (en_id e)))\<rparr>)
          (enumerate 0 context_entries))"

definition build_session_projection ::
  "(pystr \<Rightarrow> int) \<Rightarrow> entry list \<Rightarrow> leaf_arg \<Rightarrow> index option \<Rightarrow> session_projection option" where
  "build_session_projection epoch entries leaf_id by_id =
    (case build_session_path entries leaf_id by_id of
       None \<Rightarrow> None
     | Some path \<Rightarrow>
         let (thinking, model) = get_session_context_settings path;
             projected = project_entries epoch (select_context_entries path)
         in Some \<lparr>sp_entries = projected, sp_messages = concat (map pe_messages projected),
                  sp_thinking_level = thinking, sp_model = model\<rparr>)"

record session_context =
  sc_messages :: "message list"
  sc_thinking_level :: pystr
  sc_model :: "context_model option"

definition build_session_context ::
  "(pystr \<Rightarrow> int) \<Rightarrow> entry list \<Rightarrow> leaf_arg \<Rightarrow> index option \<Rightarrow> session_context option" where
  "build_session_context epoch entries leaf_id by_id =
    map_option (\<lambda>p. \<lparr>sc_messages = sp_messages p, sc_thinking_level = sp_thinking_level p, sc_model = sp_model p\<rparr>)
      (build_session_projection epoch entries leaf_id by_id)"

subsection \<open>Well-formed entry lists\<close>

text \<open>
  Ids are non-empty and unique, a parent stands before its children, and labels and context edits
  name earlier entries.
\<close>

fun body_target :: "entry_body \<Rightarrow> pystr list" where
  "body_target (LabelE t l) = [t]"
| "body_target (ContextEditE t r) = [t]"
| "body_target _ = []"

definition entry_fits :: "pystr set \<Rightarrow> entry \<Rightarrow> bool" where
  "entry_fits seen e \<longleftrightarrow> en_id e \<noteq> [] \<and> en_id e \<notin> seen \<and>
     (case en_parent e of None \<Rightarrow> True | Some p \<Rightarrow> p \<in> seen) \<and> set (body_target (en_body e)) \<subseteq> seen"

fun tree_ok_from :: "pystr set \<Rightarrow> entry list \<Rightarrow> bool" where
  "tree_ok_from seen [] = True"
| "tree_ok_from seen (e # es) = (entry_fits seen e \<and> tree_ok_from (insert (en_id e) seen) es)"

abbreviation tree_ok :: "entry list \<Rightarrow> bool" where
  "tree_ok es \<equiv> tree_ok_from {} es"

abbreviation ids_of :: "entry list \<Rightarrow> pystr set" where
  "ids_of es \<equiv> en_id ` set es"

definition by_ids :: "entry list \<Rightarrow> index" where
  "by_ids es = map (\<lambda>e. (en_id e, e)) es"

lemma by_ids_simps [simp]: "by_ids [] = []" "by_ids (e # es) = (en_id e, e) # by_ids es"
  "by_ids (es @ fs) = by_ids es @ by_ids fs" "length (by_ids es) = length es"
  "map fst (by_ids es) = map en_id es" "map snd (by_ids es) = es"
  by (simp_all add: by_ids_def comp_def)

lemma tree_ok_snoc: "tree_ok_from seen (es @ [e]) \<longleftrightarrow> tree_ok_from seen es \<and> entry_fits (seen \<union> ids_of es) e"
  by (induction es arbitrary: seen) auto

lemma tree_ok_prefix: "tree_ok_from seen (xs @ ys) \<Longrightarrow> tree_ok_from seen xs"
  by (induction xs arbitrary: seen) auto

lemma tree_ok_ids: "tree_ok_from seen es \<Longrightarrow> distinct (map en_id es) \<and> [] \<notin> ids_of es \<and> ids_of es \<inter> seen = {}"
  by (induction es arbitrary: seen) (auto simp: entry_fits_def)

lemma get_by_ids: "distinct (map en_id es) \<Longrightarrow> e \<in> set es \<Longrightarrow> dict_get (by_ids es) (en_id e) = Some e"
  by (induction es) (auto simp: image_iff)

lemma get_by_ids_Some: "dict_get (by_ids es) i = Some e \<Longrightarrow> e \<in> set es \<and> en_id e = i"
  by (induction es) (auto split: if_splits)

lemma get_by_ids_None: "dict_get (by_ids es) i = None \<longleftrightarrow> i \<notin> ids_of es"
  by (induction es) auto

lemma index_entries_by_ids:
  "distinct (map en_id (xs @ es)) \<Longrightarrow> index_entries es (by_ids xs) = by_ids (xs @ es)"
proof (induction es arbitrary: xs)
  case Nil
  then show ?case by (simp add: index_entries_def)
next
  case (Cons e es)
  have "dict_get (by_ids xs) (en_id e) = None"
    using Cons.prems by (auto simp: get_by_ids_None)
  with Cons show ?case
    using Cons.IH [of "xs @ [e]"] by (simp add: index_entries_def dict_set_fresh)
qed

lemma build_entry_index_ok:
  "tree_ok es \<Longrightarrow> build_entry_index es None = by_ids es"
  using index_entries_by_ids [of "[]" es] tree_ok_ids [of "{}" es] by (simp add: build_entry_index_def)

subsection \<open>Paths in a well-formed tree\<close>

text \<open>A path from a root: each entry's parent is the entry before it.\<close>

fun linked :: "pystr option \<Rightarrow> entry list \<Rightarrow> bool" where
  "linked par [] = True"
| "linked par (e # es) = (en_parent e = par \<and> linked (Some (en_id e)) es)"

lemma linked_snoc:
  "linked par (p @ [e]) \<longleftrightarrow> linked par p \<and> en_parent e = (if p = [] then par else Some (en_id (last p)))"
  by (induction p arbitrary: par) auto

lemma walk_of_linked:
  "linked None p \<Longrightarrow> \<forall>x \<in> set p. dict_get idx (en_id x) = Some x \<and> en_id x \<noteq> [] \<Longrightarrow> p \<noteq> [] \<Longrightarrow>
   length p \<le> n \<Longrightarrow> walk_up n idx (Some (last p)) = Some (rev p)"
proof (induction p arbitrary: n rule: rev_induct)
  case Nil
  then show ?case by simp
next
  case (snoc e p)
  then obtain k where n: "n = Suc k" "length p \<le> k" by (cases n) auto
  show ?case
  proof (cases "p = []")
    case True
    with snoc.prems n show ?thesis by (simp add: parent_of_def)
  next
    case False
    then have "parent_of idx e = Some (last p)"
      using snoc.prems by (simp add: linked_snoc parent_of_def)
    with snoc n False show ?thesis by (simp add: linked_snoc)
  qed
qed

lemma tree_ok_parent:
  "tree_ok_from seen es \<Longrightarrow> x \<in> set es \<Longrightarrow> en_parent x = Some q \<Longrightarrow> q \<in> seen \<union> ids_of es"
  by (induction es arbitrary: seen) (auto simp: entry_fits_def)

lemma tree_ok_parent_snoc:
  "tree_ok (es @ [e]) \<Longrightarrow> x \<in> set (es @ [e]) \<Longrightarrow> en_parent x = Some q \<Longrightarrow> q \<in> ids_of es"
  using tree_ok_parent [of "{}" es x q] by (auto simp: tree_ok_snoc entry_fits_def)

lemma linked_split: "linked par (xs @ x # y # ys) \<Longrightarrow> en_parent y = Some (en_id x)"
  by (induction xs arbitrary: par) auto

lemma linked_subseq: "tree_ok es \<Longrightarrow> linked None p \<Longrightarrow> set p \<subseteq> set es \<Longrightarrow> subseq p es"
proof (induction es arbitrary: p rule: rev_induct)
  case Nil
  then show ?case by simp
next
  case (snoc e es)
  have ok: "tree_ok es" using snoc.prems(1) by (simp add: tree_ok_snoc)
  show ?case
  proof (cases "e \<in> set p")
    case False
    with snoc ok have "subseq p es" by auto
    then show ?thesis by (simp add: subseq_rev_drop_many)
  next
    case True
    then obtain xs ys where p: "p = xs @ e # ys" "e \<notin> set xs" by (meson split_list_first)
    have "ys = []"
    proof (cases ys)
      case (Cons y zs)
      have "en_parent y = Some (en_id e)" using snoc.prems(2) p Cons linked_split by blast
      moreover have "y \<in> set (es @ [e])" using snoc.prems(3) p Cons by auto
      ultimately have "en_id e \<in> ids_of es" using tree_ok_parent_snoc [OF snoc.prems(1)] by blast
      moreover have "en_id e \<notin> ids_of es" using snoc.prems(1) by (simp add: tree_ok_snoc entry_fits_def)
      ultimately show ?thesis by simp
    qed simp
    then have "linked None xs" "set xs \<subseteq> set es" using snoc.prems p by (auto simp: linked_snoc)
    with snoc.IH [OF ok] p \<open>ys = []\<close> show ?thesis by (simp add: list_emb_append_mono)
  qed
qed

lemma path_of_linked:
  assumes "linked None p" "set p \<subseteq> set es" "tree_ok es" "p \<noteq> []"
  shows "path_from (by_ids es) (Some (last p)) = Some p"
proof -
  have ids: "distinct (map en_id es)" "[] \<notin> ids_of es"
    using tree_ok_ids [OF assms(3)] by auto
  have len: "length p \<le> Suc (length es)"
    using linked_subseq [OF assms(3,1,2)] list_emb_length le_SucI by blast
  have look: "\<forall>x \<in> set p. dict_get (by_ids es) (en_id x) = Some x \<and> en_id x \<noteq> []"
    using ids assms(2) by (metis get_by_ids image_eqI subsetD)
  from walk_of_linked [OF assms(1) look assms(4) len] show ?thesis
    by (simp add: path_from_def del: walk_up.simps)
qed

lemma path_exists:
  "tree_ok es \<Longrightarrow> e \<in> set es \<Longrightarrow> \<exists>p. linked None p \<and> p \<noteq> [] \<and> last p = e \<and> set p \<subseteq> set es"
proof (induction es arbitrary: e rule: rev_induct)
  case Nil
  then show ?case by simp
next
  case (snoc x es)
  have ok: "tree_ok es" using snoc.prems(1) by (simp add: tree_ok_snoc)
  show ?case
  proof (cases "e \<in> set es")
    case True
    from snoc.IH [OF ok this] obtain p where "linked None p" "p \<noteq> []" "last p = e" "set p \<subseteq> set es" by blast
    then show ?thesis by (intro exI [of _ p]) auto
  next
    case False
    with snoc.prems have e: "e = x" by simp
    show ?thesis
    proof (cases "en_parent x")
      case None
      then have "linked None [x]" by simp
      with e show ?thesis by (intro exI [of _ "[x]"]) auto
    next
      case (Some q)
      with snoc.prems(1) obtain y where "y \<in> set es" "en_id y = q"
        by (auto simp: tree_ok_snoc entry_fits_def)
      moreover from snoc.IH [OF ok this(1)] obtain p where
        "linked None p" "p \<noteq> []" "last p = y" "set p \<subseteq> set es" by blast
      ultimately have "linked None (p @ [x])" using Some by (simp add: linked_snoc)
      with \<open>set p \<subseteq> set es\<close> e show ?thesis by (intro exI [of _ "p @ [x]"]) auto
    qed
  qed
qed

text \<open>The path of an entry: a function of the well-formed tree, whatever is appended later.\<close>

lemma path_from_ok:
  assumes "tree_ok es" "e \<in> set es"
  obtains p where "path_from (by_ids es) (Some e) = Some p" "linked None p" "p \<noteq> []" "last p = e"
    "subseq p es"
proof -
  from path_exists [OF assms] obtain p where p: "linked None p" "p \<noteq> []" "last p = e" "set p \<subseteq> set es" by blast
  with path_of_linked [OF p(1,4) assms(1) p(2)] linked_subseq [OF assms(1) p(1,4)] that show thesis by simp
qed

lemma path_from_append:
  assumes "tree_ok (es @ fs)" "e \<in> set es"
  shows "path_from (by_ids (es @ fs)) (Some e) = path_from (by_ids es) (Some e)"
proof -
  from path_from_ok [OF tree_ok_prefix [OF assms(1)] assms(2)] obtain p where
    p: "path_from (by_ids es) (Some e) = Some p" "linked None p" "p \<noteq> []" "last p = e" "subseq p es" .
  have "set p \<subseteq> set (es @ fs)" using p(5) by (auto dest: subseq_set_subset)
  from path_of_linked [OF p(2) this assms(1) p(3)] p show ?thesis by simp
qed

lemma path_from_child:
  assumes "tree_ok (es @ [c])" "e \<in> set es" "en_parent c = Some (en_id e)"
    "path_from (by_ids es) (Some e) = Some p"
  shows "path_from (by_ids (es @ [c])) (Some c) = Some (p @ [c])"
proof -
  from path_from_ok [OF tree_ok_prefix [OF assms(1)] assms(2)] assms(4) have
    p: "linked None p" "p \<noteq> []" "last p = e" "subseq p es" by auto
  then have "linked None (p @ [c])" "set (p @ [c]) \<subseteq> set (es @ [c])"
    using assms(3) by (auto simp: linked_snoc dest: subseq_set_subset)
  from path_of_linked [OF this assms(1)] show ?thesis by simp
qed

lemma path_from_root:
  assumes "tree_ok (es @ [c])" "en_parent c = None"
  shows "path_from (by_ids (es @ [c])) (Some c) = Some [c]"
  using path_of_linked [of "[c]" "es @ [c]"] assms by simp

subsection \<open>The selected entries\<close>

abbreviation not_system :: "entry \<Rightarrow> bool" where
  "not_system e \<equiv> \<not> is_system_entry (en_body e)"

definition from_first_kept :: "pystr option \<Rightarrow> entry list \<Rightarrow> entry list" where
  "from_first_kept fk es = dropWhile (\<lambda>e. fk \<noteq> Some (en_id e)) es"

lemma kept_entries_from: "kept_entries fk False es = filter not_system (from_first_kept fk es)"
proof -
  have all: "kept_entries fk' True es' = filter not_system es'" for fk' es'
    by (induction es') auto
  show ?thesis
    by (induction es) (auto simp: from_first_kept_def all)
qed

lemma latest_compaction_None: "get_latest_compaction_entry p = None \<longleftrightarrow> (\<forall>e \<in> set p. \<not> is_compaction (en_body e))"
  by (auto simp: get_latest_compaction_entry_def find_None_iff)

lemma latest_compaction_split:
  assumes "get_latest_compaction_entry p = Some c"
  obtains xs ys where "p = xs @ c # ys" "is_compaction (en_body c)" "\<forall>e \<in> set ys. \<not> is_compaction (en_body e)"
proof -
  from find_Some_split [OF assms [unfolded get_latest_compaction_entry_def]] obtain us vs where
    "rev p = us @ c # vs" "is_compaction (en_body c)" "\<forall>e \<in> set us. \<not> is_compaction (en_body e)" by blast
  moreover from this(1) have "p = rev vs @ c # rev us" by (simp add: rev_swap)
  ultimately show thesis using that [of "rev vs" "rev us"] by simp
qed

lemma find_index_split: "\<not> (\<exists>x \<in> set xs. f x) \<Longrightarrow> f y \<Longrightarrow> find_index f (xs @ y # ys) = Some (length xs)"
  by (induction xs) auto

lemma select_no_compaction:
  "\<forall>e \<in> set p. \<not> is_compaction (en_body e) \<Longrightarrow> select_context_entries p = p"
  by (simp add: select_context_entries_def latest_compaction_None [THEN iffD2])

lemma select_at_compaction:
  assumes "distinct (map en_id (xs @ c # ys))" "is_compaction (en_body c)" "\<forall>e \<in> set ys. \<not> is_compaction (en_body e)"
  shows "select_context_entries (xs @ c # ys) =
    c # filter not_system (from_first_kept (first_kept_of (en_body c)) xs) @ ys"
proof -
  have "find (\<lambda>e. is_compaction (en_body e)) (rev ys @ c # rev xs) = Some c"
    using assms(2,3) by (induction ys rule: rev_induct) auto
  then have latest: "get_latest_compaction_entry (xs @ c # ys) = Some c"
    by (simp add: get_latest_compaction_entry_def)
  have "en_id c \<notin> ids_of xs" using assms(1) by simp
  then have "find_index (\<lambda>e. en_id e = en_id c) (xs @ c # ys) = Some (length xs)"
    by (intro find_index_split) (auto simp: image_iff)
  with latest show ?thesis by (simp add: select_context_entries_def kept_entries_from)
qed

subsection \<open>Edits\<close>

fun edits_target :: "pystr \<Rightarrow> entry \<Rightarrow> bool" where
  "edits_target t e = (case en_body e of ContextEditE u r \<Rightarrow> u = t | _ \<Rightarrow> False)"

declare edits_target.simps [simp del]

lemma collect_edits_snoc: "collect_edits (es @ [e]) = record_edit (en_body e) (collect_edits es)"
  by (simp add: collect_edits_def)

lemma edits_of_filter: "dict_get (collect_edits es) t = dict_get (collect_edits (filter (edits_target t) es)) t"
proof (induction es rule: rev_induct)
  case Nil
  then show ?case by simp
next
  case (snoc e es)
  then show ?case
    by (cases "en_body e") (auto simp: collect_edits_snoc edits_target.simps dict_simps)
qed

text \<open>An edit or a label names an entry that stands before it.\<close>

fun targets_ok :: "entry list \<Rightarrow> bool" where
  "targets_ok [] = True"
| "targets_ok (e # es) = (set (body_target (en_body e)) \<inter> ids_of (e # es) = {} \<and> targets_ok es)"

lemma tree_ok_targets: "tree_ok_from seen es \<Longrightarrow> targets_ok es"
proof (induction es arbitrary: seen)
  case (Cons e es)
  then have "set (body_target (en_body e)) \<subseteq> seen" "ids_of (e # es) \<inter> seen = {}"
    using tree_ok_ids [of seen "e # es"] by (auto simp: entry_fits_def)
  with Cons show ?case by (auto simp del: tree_ok_from.simps) (auto simp: entry_fits_def)
qed simp

lemma targets_ok_subseq: "subseq p es \<Longrightarrow> targets_ok es \<Longrightarrow> targets_ok p"
proof (induction p es rule: list_emb.induct)
  case (list_emb_Cons2 x y xs ys)
  then have "set xs \<subseteq> set ys" by (simp add: subseq_set_subset)
  with list_emb_Cons2 show ?case by auto
qed auto

lemma targets_ok_append: "targets_ok (xs @ ys) \<Longrightarrow> targets_ok xs \<and> targets_ok ys"
  by (induction xs) auto

lemma no_edits_before:
  "targets_ok (xs @ ys) \<Longrightarrow> k \<in> set ys \<Longrightarrow> filter (edits_target (en_id k)) xs = []"
  by (induction xs) (auto simp: edits_target.simps split: entry_body.splits)

lemma edits_not_system: "filter (edits_target t) (filter not_system es) = filter (edits_target t) es"
  by (induction es) (auto simp: edits_target.simps split: entry_body.splits)

lemma from_first_kept_split: "es = takeWhile (\<lambda>e. fk \<noteq> Some (en_id e)) es @ from_first_kept fk es"
  by (simp add: from_first_kept_def)

lemma edits_of_kept:
  assumes "targets_ok xs" "k \<in> set (from_first_kept fk xs)"
  shows "filter (edits_target (en_id k)) (filter not_system (from_first_kept fk xs)) = filter (edits_target (en_id k)) xs"
proof -
  let ?E = "edits_target (en_id k)" and ?out = "takeWhile (\<lambda>e. fk \<noteq> Some (en_id e)) xs"
  have split: "xs = ?out @ from_first_kept fk xs" by (rule from_first_kept_split)
  then have "filter ?E ?out = []"
    using no_edits_before [of ?out "from_first_kept fk xs" k] assms by simp
  then have "filter ?E xs = filter ?E (from_first_kept fk xs)"
    by (subst split) simp
  then show ?thesis unfolding edits_not_system by simp
qed

text \<open>For a selected entry the selected edits are all the edits of the path.\<close>

lemma selected_edits:
  assumes "targets_ok p" "distinct (map en_id p)" "k \<in> set (select_context_entries p)"
  shows "dict_get (collect_edits (select_context_entries p)) (en_id k) = dict_get (collect_edits p) (en_id k)"
proof (cases "get_latest_compaction_entry p")
  case None
  then show ?thesis by (simp add: select_context_entries_def)
next
  case (Some c)
  from latest_compaction_split [OF this] obtain xs ys where
    p: "p = xs @ c # ys" "is_compaction (en_body c)" "\<forall>e \<in> set ys. \<not> is_compaction (en_body e)" .
  let ?kept = "from_first_kept (first_kept_of (en_body c)) xs"
  let ?E = "edits_target (en_id k)"
  have sel: "select_context_entries p = c # filter not_system ?kept @ ys"
    unfolding p(1) by (rule select_at_compaction) (use assms p in auto)
  have c: "\<not> ?E c" using p(2) by (cases "en_body c") (auto simp: edits_target.simps)
  have "filter ?E (filter not_system ?kept) = filter ?E xs"
  proof (cases "k \<in> set ?kept")
    case True
    then show ?thesis using edits_of_kept targets_ok_append assms(1) p(1) by blast
  next
    case False
    with assms(3) sel have "k \<in> set (c # ys)" by auto
    from no_edits_before [OF assms(1) [unfolded p(1)] this] have none: "filter ?E xs = []" .
    moreover have "set ?kept \<subseteq> set xs" by (auto simp: from_first_kept_def dest: set_dropWhileD)
    ultimately show ?thesis by (auto simp: filter_empty_conv)
  qed
  then have "filter ?E (select_context_entries p) = filter ?E p"
    unfolding sel using p(1) c by simp
  then show ?thesis by (metis edits_of_filter)
qed

subsection \<open>Projected messages\<close>

definition plain_messages :: "(pystr \<Rightarrow> int) \<Rightarrow> (pystr, content option) dict \<Rightarrow> entry \<Rightarrow> message list" where
  "plain_messages epoch edits e =
    (if is_compaction (en_body e) then [] else project_context_entry epoch e (dict_get edits (en_id e)))"

lemma project_entries_Cons:
  "project_entries epoch (c # es) =
    \<lparr>pe_source = c, pe_messages = project_context_entry epoch c (dict_get (collect_edits (c # es)) (en_id c))\<rparr>
    # map (\<lambda>e. \<lparr>pe_source = e, pe_messages = plain_messages epoch (collect_edits (c # es)) e\<rparr>) es"
proof -
  have "map (\<lambda>(i, e). f (is_compaction (en_body e) \<and> 0 < i) e) (enumerate (Suc n) xs) =
      map (\<lambda>e. f (is_compaction (en_body e)) e) xs" for f n xs
    by (induction xs arbitrary: n) auto
  from this [of "\<lambda>b e. \<lparr>pe_source = e, pe_messages = (if b then [] else
      project_context_entry epoch e (dict_get (collect_edits (c # es)) (en_id e)))\<rparr>" 0 es]
  show ?thesis
    by (simp add: project_entries_def plain_messages_def Let_def cong: if_cong)
qed

lemma project_entries_sources: "map pe_source (project_entries epoch es) = es"
  by (cases es) (simp_all add: project_entries_Cons comp_def, simp add: project_entries_def)

lemma set_enumerateD: "(i, x) \<in> set (enumerate n xs) \<Longrightarrow> x \<in> set xs"
  by (auto simp: in_set_enumerate_eq)


end
