(* ===== verification/Session_Manager.thy ===== *)
theory Session_Manager
  imports Session_Entry
begin

section \<open>The session manager (core/session_manager.py)\<close>

text \<open>
  The state of a \<open>SessionManager\<close>, its operations and the file it writes. An operation returns the
  new state, the new disk and its result, which is \<open>Inl\<close> of the error when the code raises; the
  state and the disk are those at that moment. Operations that walk the tree return \<open>None\<close> when the
  walk does not end. The two locks of the class make each operation one step. Drawing random ids,
  reading the clock and turning an ISO time into milliseconds are parameters (\<open>env\<close>), and so is the
  text of one line of the file (\<open>ser\<close>, the wire codec followed by \<open>json.dumps\<close>).
\<close>

subsection \<open>State\<close>

record header =
  hdr_version :: int
  hdr_id :: pystr
  hdr_timestamp :: pystr
  hdr_cwd :: pystr
  hdr_parent_session :: "pystr option"

datatype file_entry = HeaderF header | EntryF entry

record session =
  ss_id :: pystr
  ss_file :: "pystr option"
  ss_cwd :: pystr
  ss_dir :: pystr
  ss_persist :: bool
  ss_flushed :: bool
  ss_entries :: "file_entry list"
  ss_revision :: nat
  ss_by_id :: index
  ss_labels :: "(pystr, pystr) dict"
  ss_label_timestamps :: "(pystr, pystr) dict"
  ss_leaf :: "pystr option"

text \<open>\<open>ev_uuid4 n\<close> is the \<open>n\<close>-th random id an operation draws.\<close>

record env =
  ev_uuid4 :: "nat \<Rightarrow> pystr"
  ev_uuidv7 :: pystr
  ev_now :: pystr
  ev_epoch :: "pystr \<Rightarrow> int"

definition CURRENT_SESSION_VERSION :: int where "CURRENT_SESSION_VERSION = 3"

fun body_entries :: "file_entry list \<Rightarrow> entry list" where
  "body_entries [] = []"
| "body_entries (HeaderF h # es) = body_entries es"
| "body_entries (EntryF e # es) = e # body_entries es"

definition get_entries :: "session \<Rightarrow> entry list" where
  "get_entries s = body_entries (ss_entries s)"

fun get_header_of :: "file_entry list \<Rightarrow> header option" where
  "get_header_of [] = None"
| "get_header_of (HeaderF h # es) = Some h"
| "get_header_of (EntryF e # es) = get_header_of es"

definition get_header :: "session \<Rightarrow> header option" where
  "get_header s = get_header_of (ss_entries s)"

subsection \<open>Ids\<close>

definition ascii_alnum :: "nat \<Rightarrow> bool" where
  "ascii_alnum c \<longleftrightarrow> 48 \<le> c \<and> c \<le> 57 \<or> 65 \<le> c \<and> c \<le> 90 \<or> 97 \<le> c \<and> c \<le> 122"

definition assert_valid_session_id :: "pystr \<Rightarrow> unit result" where
  "assert_valid_session_id session_id =
    (if session_id \<noteq> [] \<and> ascii_alnum (hd session_id) \<and> ascii_alnum (last session_id) \<and>
        list_all (\<lambda>c. ascii_alnum c \<or> c = 46 \<or> c = 95 \<or> c = 45) session_id then Inr ()
     else Inl (lit ''Session id must be non-empty, contain only alphanumeric characters, '' @
       [39] @ lit ''-'' @ [39] @ lit '', '' @ [39] @ lit ''_'' @ [39] @ lit '', and '' @ [39] @ lit ''.'' @ [39] @
       lit '', and start and end with an alphanumeric character''))"

text \<open>\<open>_generate_id\<close>, with the number of ids drawn before; it also returns the number drawn after.\<close>

definition generate_id :: "env \<Rightarrow> nat \<Rightarrow> pystr list \<Rightarrow> pystr \<times> nat" where
  "generate_id env n existing =
    (case find (\<lambda>i. take 8 (ev_uuid4 env i) \<notin> set existing) [n..<n + 100] of
       Some i \<Rightarrow> (take 8 (ev_uuid4 env i), Suc i)
     | None \<Rightarrow> (ev_uuid4 env (n + 100), n + 101))"

subsection \<open>The file\<close>

record disk =
  dk_files :: "(pystr, pystr) dict"
  dk_fails :: bool

datatype write_mode = Exclusive | AppendTo | Rewrite

text \<open>\<open>dk_fails\<close>: the operating system refuses the next write (no space, no permission).\<close>

definition write_session_bytes :: "disk \<Rightarrow> pystr \<Rightarrow> write_mode \<Rightarrow> pystr \<Rightarrow> disk result" where
  "write_session_bytes d path mode payload =
    (let old = dict_get (dk_files d) path
     in if dk_fails d then Inl (lit ''OSError'')
        else if mode = Exclusive \<and> old \<noteq> None then Inl (lit ''FileExistsError'')
        else Inr (d\<lparr>dk_files := dict_set path
               (if mode = AppendTo then (case old of None \<Rightarrow> [] | Some t \<Rightarrow> t) @ payload else payload) (dk_files d)\<rparr>))"

definition file_text :: "(file_entry \<Rightarrow> pystr) \<Rightarrow> file_entry list \<Rightarrow> pystr" where
  "file_text ser es = concat (map (\<lambda>e. ser e @ [NL]) es)"

fun raw_conversation :: "raw_message \<Rightarrow> bool" where
  "raw_conversation (FullMsg (UserMsg m)) = True"
| "raw_conversation (FullMsg (AssistantMsg m)) = True"
| "raw_conversation (NullContent (UserMsg m)) = True"
| "raw_conversation (NullContent (AssistantMsg m)) = True"
| "raw_conversation _ = False"

fun is_conversation :: "file_entry \<Rightarrow> bool" where
  "is_conversation (HeaderF h) = False"
| "is_conversation (EntryF e) = (case en_body e of MessageE m \<Rightarrow> raw_conversation m | _ \<Rightarrow> False)"

definition has_conversation :: "session \<Rightarrow> bool" where
  "has_conversation s = list_ex is_conversation (ss_entries s)"

definition plan_persist :: "(file_entry \<Rightarrow> pystr) \<Rightarrow> session \<Rightarrow> entry \<Rightarrow> (pystr \<times> write_mode \<times> pystr) option" where
  "plan_persist ser s entry =
    (case ss_file s of
       None \<Rightarrow> None
     | Some path \<Rightarrow>
         if \<not> ss_persist s \<or> path = [] then None
         else if \<not> ss_flushed s then
           (if \<not> has_conversation s then None else Some (path, Exclusive, file_text ser (ss_entries s)))
         else Some (path, AppendTo, file_text ser [EntryF entry]))"

type_synonym 'a outcome = "session \<times> disk \<times> 'a result"

definition persist_entry :: "(file_entry \<Rightarrow> pystr) \<Rightarrow> entry \<Rightarrow> session \<Rightarrow> disk \<Rightarrow> unit outcome" where
  "persist_entry ser entry s d =
    (case plan_persist ser s entry of
       None \<Rightarrow> (s, d, Inr ())
     | Some (path, mode, payload) \<Rightarrow>
         (case write_session_bytes d path mode payload of
            Inl err \<Rightarrow> (s, d, Inl err)
          | Inr d' \<Rightarrow> (if mode = Exclusive then s\<lparr>ss_flushed := True\<rparr> else s, d', Inr ())))"

subsection \<open>Appends\<close>

definition append_entry_locked :: "entry \<Rightarrow> session \<Rightarrow> session" where
  "append_entry_locked entry s =
    s\<lparr>ss_entries := ss_entries s @ [EntryF entry], ss_revision := ss_revision s + 1,
      ss_by_id := dict_set (en_id entry) entry (ss_by_id s), ss_leaf := Some (en_id entry)\<rparr>"

definition new_entry :: "env \<Rightarrow> session \<Rightarrow> pystr option \<Rightarrow> (pystr \<Rightarrow> entry_body) \<Rightarrow> entry" where
  "new_entry env s parent body =
    (let i = fst (generate_id env 0 (map fst (ss_by_id s)))
     in \<lparr>en_id = i, en_parent = parent, en_timestamp = ev_now env, en_body = body i\<rparr>)"

text \<open>The write that ends every append; the entry is in memory even when it fails.\<close>

definition commit :: "(file_entry \<Rightarrow> pystr) \<Rightarrow> entry \<Rightarrow> session \<Rightarrow> disk \<Rightarrow> pystr outcome" where
  "commit ser entry s d =
    (case persist_entry ser entry s d of
       (s', d', Inl err) \<Rightarrow> (s', d', Inl err)
     | (s', d', Inr _) \<Rightarrow> (s', d', Inr (en_id entry)))"

definition append_body :: "(file_entry \<Rightarrow> pystr) \<Rightarrow> env \<Rightarrow> (pystr \<Rightarrow> entry_body) \<Rightarrow> session \<Rightarrow> disk \<Rightarrow> pystr outcome" where
  "append_body ser env body s d =
    (let entry = new_entry env s (ss_leaf s) body in commit ser entry (append_entry_locked entry s) d)"

definition append_message :: "(file_entry \<Rightarrow> pystr) \<Rightarrow> env \<Rightarrow> raw_message \<Rightarrow> session \<Rightarrow> disk \<Rightarrow> pystr outcome" where
  "append_message ser env message = append_body ser env (\<lambda>_. MessageE message)"

definition append_thinking_level_change :: "(file_entry \<Rightarrow> pystr) \<Rightarrow> env \<Rightarrow> pystr \<Rightarrow> session \<Rightarrow> disk \<Rightarrow> pystr outcome" where
  "append_thinking_level_change ser env level = append_body ser env (\<lambda>_. ThinkingLevelE level)"

definition append_model_change :: "(file_entry \<Rightarrow> pystr) \<Rightarrow> env \<Rightarrow> pystr \<Rightarrow> pystr \<Rightarrow> session \<Rightarrow> disk \<Rightarrow> pystr outcome" where
  "append_model_change ser env provider model_id = append_body ser env (\<lambda>_. ModelChangeE provider model_id)"

text \<open>\<open>append_usage\<close> returns the entry; its id stands for it here. An empty note is not stored.\<close>

definition append_usage ::
  "(file_entry \<Rightarrow> pystr) \<Rightarrow> env \<Rightarrow> pystr \<Rightarrow> pystr \<Rightarrow> pystr \<Rightarrow> usage \<Rightarrow> pystr option \<Rightarrow> session \<Rightarrow> disk \<Rightarrow> pystr outcome" where
  "append_usage ser env kind provider model usage note =
    append_body ser env (\<lambda>_. UsageE kind provider model usage (if note = Some [] then None else note))"

definition append_custom_entry :: "(file_entry \<Rightarrow> pystr) \<Rightarrow> env \<Rightarrow> pystr \<Rightarrow> json option \<Rightarrow> session \<Rightarrow> disk \<Rightarrow> pystr outcome" where
  "append_custom_entry ser env custom_type data = append_body ser env (\<lambda>_. CustomE custom_type data)"

definition append_custom_message_entry ::
  "(file_entry \<Rightarrow> pystr) \<Rightarrow> env \<Rightarrow> pystr \<Rightarrow> content \<Rightarrow> bool \<Rightarrow> json option \<Rightarrow> session \<Rightarrow> disk \<Rightarrow> pystr outcome" where
  "append_custom_message_entry ser env custom_type body display details =
    append_body ser env (\<lambda>_. CustomMessageE custom_type (Some body) display details)"

text \<open>\<open>re.sub(r"[\r\n]+", " ", name)\<close>\<close>

fun newlines_to_space :: "bool \<Rightarrow> pystr \<Rightarrow> pystr" where
  "newlines_to_space in_run [] = []"
| "newlines_to_space in_run (c # cs) =
     (if c = CR \<or> c = NL then (if in_run then [] else [32]) @ newlines_to_space True cs
      else c # newlines_to_space False cs)"

definition append_session_info :: "(file_entry \<Rightarrow> pystr) \<Rightarrow> env \<Rightarrow> pystr \<Rightarrow> session \<Rightarrow> disk \<Rightarrow> pystr outcome" where
  "append_session_info ser env name =
    append_body ser env (\<lambda>_. SessionInfoE (Some (py_strip (newlines_to_space False name))))"

fun is_session_info :: "file_entry \<Rightarrow> bool" where
  "is_session_info (HeaderF h) = False"
| "is_session_info (EntryF e) = (case en_body e of SessionInfoE n \<Rightarrow> True | _ \<Rightarrow> False)"

fun session_info_name :: "file_entry \<Rightarrow> pystr option" where
  "session_info_name (HeaderF h) = None"
| "session_info_name (EntryF e) =
     (case en_body e of
        SessionInfoE (Some raw) \<Rightarrow> if py_strip raw = [] then None else Some (py_strip raw)
      | _ \<Rightarrow> None)"

definition get_session_name :: "session \<Rightarrow> pystr option" where
  "get_session_name s =
    (case find is_session_info (rev (ss_entries s)) of None \<Rightarrow> None | Some e \<Rightarrow> session_info_name e)"

subsection \<open>Traversal\<close>

definition get_entry :: "session \<Rightarrow> pystr \<Rightarrow> entry option" where
  "get_entry s i = dict_get (ss_by_id s) i"

definition get_leaf_entry :: "session \<Rightarrow> entry option" where
  "get_leaf_entry s =
    (case ss_leaf s of None \<Rightarrow> None | Some i \<Rightarrow> if i = [] then None else dict_get (ss_by_id s) i)"

definition get_children :: "session \<Rightarrow> pystr \<Rightarrow> entry list" where
  "get_children s parent_id = filter (\<lambda>e. en_parent e = Some parent_id) (map snd (ss_by_id s))"

definition get_label :: "session \<Rightarrow> pystr \<Rightarrow> pystr option" where
  "get_label s i = dict_get (ss_labels s) i"

definition get_branch :: "session \<Rightarrow> pystr option \<Rightarrow> entry list option" where
  "get_branch s from_id =
    (let start_id = (if from_id \<noteq> None then from_id else ss_leaf s)
     in path_from (ss_by_id s)
          (case start_id of None \<Rightarrow> None | Some i \<Rightarrow> if i = [] then None else dict_get (ss_by_id s) i))"

definition leaf_arg_of :: "pystr option \<Rightarrow> leaf_arg" where
  "leaf_arg_of leaf = (case leaf of None \<Rightarrow> LeafNone | Some i \<Rightarrow> LeafId i)"

definition session_projection_of :: "env \<Rightarrow> session \<Rightarrow> session_projection option" where
  "session_projection_of env s =
    build_session_projection (ev_epoch env) (get_entries s) (leaf_arg_of (ss_leaf s)) (Some (ss_by_id s))"

definition session_context_of :: "env \<Rightarrow> session \<Rightarrow> session_context option" where
  "session_context_of env s =
    map_option (\<lambda>p. \<lparr>sc_messages = sp_messages p, sc_thinking_level = sp_thinking_level p, sc_model = sp_model p\<rparr>)
      (session_projection_of env s)"

definition not_found :: "pystr \<Rightarrow> pystr" where
  "not_found i = lit ''Entry '' @ i @ lit '' not found''"

subsection \<open>Compactions, edits and labels\<close>

definition append_compaction ::
  "(file_entry \<Rightarrow> pystr) \<Rightarrow> env \<Rightarrow> pystr \<Rightarrow> pystr option \<Rightarrow> int \<Rightarrow> json option \<Rightarrow> bool option \<Rightarrow> usage option \<Rightarrow>
   session \<Rightarrow> disk \<Rightarrow> pystr outcome option" where
  "append_compaction ser env summary first_kept tokens_before details from_hook usage s d =
    (case session_projection_of env s of
       None \<Rightarrow> None
     | Some projection \<Rightarrow>
         (let system_message = get_current_system_message (sp_messages projection)
          in Some (append_body ser env (\<lambda>i. CompactionE
               \<lparr>cb_summary = summary,
                cb_first_kept = Some (case first_kept of Some k \<Rightarrow> k | None \<Rightarrow> i),
                cb_tokens_before = tokens_before, cb_details = details, cb_usage = usage, cb_from_hook = from_hook,
                cb_system = map_option (\<lambda>m. m\<lparr>sm_timestamp := ev_epoch env (ev_now env)\<rparr>) system_message\<rparr>) s d)))"

text \<open>The role of the entry's message: whether its content can be edited, and whether a string replacement is wrapped.\<close>

fun raw_role_editable :: "raw_message \<Rightarrow> bool" where
  "raw_role_editable (FullMsg (ToolResultMsg m)) = True"
| "raw_role_editable (NullContent (ToolResultMsg m)) = True"
| "raw_role_editable m = raw_conversation m"

fun raw_role_wraps :: "raw_message \<Rightarrow> bool" where
  "raw_role_wraps (FullMsg (ToolResultMsg m)) = True"
| "raw_role_wraps (NullContent (ToolResultMsg m)) = True"
| "raw_role_wraps (FullMsg (AssistantMsg m)) = True"
| "raw_role_wraps (NullContent (AssistantMsg m)) = True"
| "raw_role_wraps m = False"

definition editable_body :: "entry_body \<Rightarrow> bool" where
  "editable_body b = (case b of CustomMessageE t c dp dt \<Rightarrow> True | MessageE m \<Rightarrow> raw_role_editable m | _ \<Rightarrow> False)"

definition normalize_replacement :: "entry_body \<Rightarrow> content option \<Rightarrow> content option" where
  "normalize_replacement target replacement =
    (case (target, replacement) of
       (MessageE m, Some (StrContent t)) \<Rightarrow>
         if raw_role_wraps m then Some (Blocks [TextContent t None]) else replacement
     | _ \<Rightarrow> replacement)"

definition append_context_edit ::
  "(file_entry \<Rightarrow> pystr) \<Rightarrow> env \<Rightarrow> pystr \<Rightarrow> content option \<Rightarrow> session \<Rightarrow> disk \<Rightarrow> pystr outcome option" where
  "append_context_edit ser env target_id replacement s d =
    (case dict_get (ss_by_id s) target_id of
       None \<Rightarrow> Some (s, d, Inl (not_found target_id))
     | Some target \<Rightarrow>
         (case get_branch s None of
            None \<Rightarrow> None
          | Some path \<Rightarrow>
              Some (if \<not> list_ex (\<lambda>e. en_id e = target_id) path
                    then (s, d, Inl (lit ''Entry '' @ target_id @ lit '' is not on the active branch''))
                    else if \<not> editable_body (en_body target)
                    then (s, d, Inl (lit ''Entry '' @ target_id @ lit '' does not contribute editable model content''))
                    else append_body ser env
                           (\<lambda>_. ContextEditE target_id (normalize_replacement (en_body target) replacement)) s d)))"

definition truthy_label :: "pystr option \<Rightarrow> pystr option" where
  "truthy_label label = (if label = Some [] then None else label)"

definition set_label :: "pystr \<Rightarrow> pystr option \<Rightarrow> pystr \<Rightarrow> session \<Rightarrow> session" where
  "set_label target_id label timestamp s =
    (case truthy_label label of
       Some l \<Rightarrow> s\<lparr>ss_labels := dict_set target_id l (ss_labels s),
                   ss_label_timestamps := dict_set target_id timestamp (ss_label_timestamps s)\<rparr>
     | None \<Rightarrow> s\<lparr>ss_labels := dict_pop target_id (ss_labels s),
                 ss_label_timestamps := dict_pop target_id (ss_label_timestamps s)\<rparr>)"

definition append_label_change ::
  "(file_entry \<Rightarrow> pystr) \<Rightarrow> env \<Rightarrow> pystr \<Rightarrow> pystr option \<Rightarrow> session \<Rightarrow> disk \<Rightarrow> pystr outcome" where
  "append_label_change ser env target_id label s d =
    (if dict_get (ss_by_id s) target_id = None then (s, d, Inl (not_found target_id))
     else let entry = new_entry env s (ss_leaf s) (\<lambda>_. LabelE target_id label);
              s1 = append_entry_locked entry s
          in commit ser entry (set_label target_id label (en_timestamp entry) s1) d)"

subsection \<open>Branching\<close>

definition branch :: "pystr \<Rightarrow> session \<Rightarrow> session \<times> unit result" where
  "branch branch_from_id s =
    (if dict_get (ss_by_id s) branch_from_id = None then (s, Inl (not_found branch_from_id))
     else (s\<lparr>ss_leaf := Some branch_from_id\<rparr>, Inr ()))"

definition reset_leaf :: "session \<Rightarrow> session" where
  "reset_leaf s = s\<lparr>ss_leaf := None\<rparr>"

definition branch_with_summary ::
  "(file_entry \<Rightarrow> pystr) \<Rightarrow> env \<Rightarrow> pystr option \<Rightarrow> pystr \<Rightarrow> json option \<Rightarrow> bool option \<Rightarrow> usage option \<Rightarrow>
   session \<Rightarrow> disk \<Rightarrow> pystr outcome" where
  "branch_with_summary ser env branch_from_id summary details from_hook usage s d =
    (case branch_from_id of
       Some b \<Rightarrow> if dict_get (ss_by_id s) b = None then (s, d, Inl (not_found b))
                 else (let from_id = (case ss_leaf s of Some l \<Rightarrow> l | None \<Rightarrow> lit ''root'')
                       in append_body ser env (\<lambda>_. BranchSummaryE
                            \<lparr>bb_summary = summary, bb_from_id = Some from_id, bb_details = details, bb_usage = usage,
                             bb_from_hook = from_hook\<rparr>) (s\<lparr>ss_leaf := branch_from_id\<rparr>) d)
     | None \<Rightarrow> (let from_id = (case ss_leaf s of Some l \<Rightarrow> l | None \<Rightarrow> lit ''root'')
                in append_body ser env (\<lambda>_. BranchSummaryE
                     \<lparr>bb_summary = summary, bb_from_id = Some from_id, bb_details = details, bb_usage = usage,
                      bb_from_hook = from_hook\<rparr>) (s\<lparr>ss_leaf := None\<rparr>) d))"

subsection \<open>New sessions and the index\<close>

definition path_join :: "pystr \<Rightarrow> pystr \<Rightarrow> pystr" where
  "path_join dir name = (if dir = [] \<or> last dir = 47 then dir @ name else dir @ [47] @ name)"

text \<open>\<open>timestamp.replace(":", "-").replace(".", "-")\<close>\<close>

definition file_timestamp :: "pystr \<Rightarrow> pystr" where
  "file_timestamp timestamp = map (\<lambda>c. if c = 58 \<or> c = 46 then 45 else c) timestamp"

definition session_file_name :: "pystr \<Rightarrow> pystr \<Rightarrow> pystr \<Rightarrow> pystr" where
  "session_file_name dir timestamp session_id =
    path_join dir (file_timestamp timestamp @ lit ''_'' @ session_id @ lit ''.jsonl'')"

definition new_session :: "env \<Rightarrow> pystr option \<Rightarrow> pystr option \<Rightarrow> session \<Rightarrow> session \<times> pystr option result" where
  "new_session env option_id parent_session s =
    (case (case option_id of None \<Rightarrow> Inr () | Some i \<Rightarrow> assert_valid_session_id i) of
       Inl err \<Rightarrow> (s, Inl err)
     | Inr _ \<Rightarrow>
         (let i = (case option_id of Some i \<Rightarrow> i | None \<Rightarrow> ev_uuidv7 env);
              file = (if ss_persist s then Some (session_file_name (ss_dir s) (ev_now env) i) else ss_file s)
          in (s\<lparr>ss_id := i,
                ss_entries := [HeaderF \<lparr>hdr_version = CURRENT_SESSION_VERSION, hdr_id = i, hdr_timestamp = ev_now env,
                                        hdr_cwd = ss_cwd s, hdr_parent_session = parent_session\<rparr>],
                ss_revision := ss_revision s + 1, ss_by_id := [], ss_labels := [], ss_label_timestamps := [],
                ss_leaf := None, ss_flushed := False, ss_file := file\<rparr>,
              Inr file)))"

fun index_label :: "entry \<Rightarrow> (pystr, pystr) dict \<times> (pystr, pystr) dict \<Rightarrow> (pystr, pystr) dict \<times> (pystr, pystr) dict" where
  "index_label e (labels, timestamps) =
    (case en_body e of
       LabelE target_id label \<Rightarrow>
         (case truthy_label label of
            Some l \<Rightarrow> (dict_set target_id l labels, dict_set target_id (en_timestamp e) timestamps)
          | None \<Rightarrow> (dict_pop target_id labels, dict_pop target_id timestamps))
     | _ \<Rightarrow> (labels, timestamps))"

text \<open>One iteration of the loop of \<open>_build_index\<close>, for an entry that is not a header.\<close>

definition index_entry :: "entry \<Rightarrow> session \<Rightarrow> session" where
  "index_entry e s =
    (let (labels, timestamps) = index_label e (ss_labels s, ss_label_timestamps s)
     in s\<lparr>ss_by_id := dict_set (en_id e) e (ss_by_id s), ss_leaf := Some (en_id e),
          ss_labels := labels, ss_label_timestamps := timestamps\<rparr>)"

definition build_index :: "session \<Rightarrow> session" where
  "build_index s =
    fold index_entry (body_entries (ss_entries s))
      (s\<lparr>ss_by_id := [], ss_labels := [], ss_label_timestamps := [], ss_leaf := None\<rparr>)"

text \<open>
  \<open>_load_entries\<close> for entries that are already decoded and of the current version: with a header
  they replace the session, without one they become the body of a new session.
\<close>

definition load_entries :: "env \<Rightarrow> pystr option \<Rightarrow> pystr option \<Rightarrow> file_entry list \<Rightarrow> session \<Rightarrow> session \<times> unit result" where
  "load_entries env option_id parent_session entries s =
    (case get_header_of entries of
       Some h \<Rightarrow>
         (build_index (s\<lparr>ss_id := (if hdr_id h \<noteq> [] then hdr_id h else ev_uuidv7 env),
                         ss_entries := entries, ss_revision := ss_revision s + 1\<rparr>), Inr ())
     | None \<Rightarrow>
         (case new_session env option_id parent_session s of
            (s1, Inl err) \<Rightarrow> (s1, Inl err)
          | (s1, Inr _) \<Rightarrow>
              (build_index (s1\<lparr>ss_entries := ss_entries s1 @ entries, ss_revision := ss_revision s1 + 1\<rparr>), Inr ())))"

subsection \<open>Branched sessions\<close>

fun remap_first_kept :: "(pystr, pystr) dict \<Rightarrow> pystr \<Rightarrow> entry_body \<Rightarrow> entry_body result" where
  "remap_first_kept replacements i (CompactionE c) =
     (case cb_first_kept c of
        None \<Rightarrow> Inl (lit ''firstKeptEntryId'')
      | Some k \<Rightarrow> Inr (CompactionE (c\<lparr>cb_first_kept :=
            Some (if k = i then i else case dict_get replacements k of Some r \<Rightarrow> r | None \<Rightarrow> k)\<rparr>)))"
| "remap_first_kept replacements i b = Inr b"

text \<open>The loop that drops the labels of the path and re-chains the rest: parent, pending labels, replacements.\<close>

fun strip_labels :: "pystr option \<Rightarrow> pystr list \<Rightarrow> (pystr, pystr) dict \<Rightarrow> entry list \<Rightarrow> entry list result" where
  "strip_labels parent pending replacements [] = Inr []"
| "strip_labels parent pending replacements (e # es) =
    (if is_label (en_body e) then strip_labels parent (pending @ [en_id e]) replacements es
     else let replacements' = fold (\<lambda>l. dict_set l (en_id e)) pending replacements
       in case remap_first_kept replacements' (en_id e) (en_body e) of
            Inl err \<Rightarrow> Inl err
          | Inr body \<Rightarrow>
              (case strip_labels (Some (en_id e)) [] replacements' es of
                 Inl err \<Rightarrow> Inl err
               | Inr rest \<Rightarrow> Inr (e\<lparr>en_parent := parent, en_body := body\<rparr> # rest)))"

text \<open>The loop that writes the labels again: ids drawn, ids in use, parent.\<close>

fun chain_labels :: "env \<Rightarrow> nat \<Rightarrow> pystr list \<Rightarrow> pystr option \<Rightarrow> (pystr \<times> pystr \<times> pystr) list \<Rightarrow> entry list" where
  "chain_labels env n used parent [] = []"
| "chain_labels env n used parent ((target_id, label, timestamp) # ls) =
    (let (i, n') = generate_id env n used
     in \<lparr>en_id = i, en_parent = parent, en_timestamp = timestamp, en_body = LabelE target_id (Some label)\<rparr>
        # chain_labels env n' (i # used) (Some i) ls)"

text \<open>\<open>self._label_timestamps_by_id[target_id]\<close> raises when the two label maps disagree.\<close>

fun labels_to_write :: "pystr list \<Rightarrow> (pystr, pystr) dict \<Rightarrow> (pystr, pystr) dict \<Rightarrow> (pystr \<times> pystr \<times> pystr) list result" where
  "labels_to_write path_ids timestamps [] = Inr []"
| "labels_to_write path_ids timestamps ((target_id, label) # ls) =
    (if target_id \<notin> set path_ids then labels_to_write path_ids timestamps ls
     else case dict_get timestamps target_id of
            None \<Rightarrow> Inl target_id
          | Some t \<Rightarrow>
              (case labels_to_write path_ids timestamps ls of
                 Inl err \<Rightarrow> Inl err
               | Inr rest \<Rightarrow> Inr ((target_id, label, t) # rest)))"

definition branched_entries :: "env \<Rightarrow> session \<Rightarrow> entry list \<Rightarrow> entry list result" where
  "branched_entries env s path =
    (case strip_labels None [] [] path of
       Inl err \<Rightarrow> Inl err
     | Inr kept \<Rightarrow>
         (let ids = map en_id kept
          in case labels_to_write ids (ss_label_timestamps s) (ss_labels s) of
               Inl err \<Rightarrow> Inl err
             | Inr ls \<Rightarrow> Inr (kept @ chain_labels env 0 ids (if kept \<noteq> [] then Some (en_id (last kept)) else None) ls)))"

definition create_branched_session ::
  "(file_entry \<Rightarrow> pystr) \<Rightarrow> env \<Rightarrow> pystr \<Rightarrow> session \<Rightarrow> disk \<Rightarrow> pystr option outcome option" where
  "create_branched_session ser env leaf_id s d =
    (case get_branch s (Some leaf_id) of
       None \<Rightarrow> None
     | Some path \<Rightarrow> Some
        (if path = [] then (s, d, Inl (not_found leaf_id))
         else case branched_entries env s path of
           Inl err \<Rightarrow> (s, d, Inl err)
         | Inr entries \<Rightarrow>
            (let i = ev_uuidv7 env;
                 file = session_file_name (ss_dir s) (ev_now env) i;
                 header = HeaderF \<lparr>hdr_version = CURRENT_SESSION_VERSION, hdr_id = i, hdr_timestamp = ev_now env,
                            hdr_cwd = ss_cwd s, hdr_parent_session = (if ss_persist s then ss_file s else None)\<rparr>;
                 s1 = build_index (s\<lparr>ss_entries := header # map EntryF entries, ss_revision := ss_revision s + 1,
                        ss_id := i, ss_file := (if ss_persist s then Some file else ss_file s)\<rparr>)
             in if \<not> ss_persist s then (s1, d, Inr None)
                else let s2 = s1\<lparr>ss_flushed := False\<rparr>
                     in if \<not> has_conversation s2 then (s2, d, Inr (Some file))
                        else case write_session_bytes d file Rewrite (file_text ser (ss_entries s2)) of
                          Inl err \<Rightarrow> (s2, d, Inl err)
                        | Inr d' \<Rightarrow> (s2\<lparr>ss_flushed := True\<rparr>, d', Inr (Some file)))))"

subsection \<open>Steps\<close>

text \<open>The operations that change a session, each with its arguments and what it drew from the environment.\<close>

datatype session_op =
    AppendMessage raw_message
  | AppendThinkingLevel pystr
  | AppendModelChange pystr pystr
  | AppendUsage pystr pystr pystr usage "pystr option"
  | AppendCompaction pystr "pystr option" int "json option" "bool option" "usage option"
  | AppendCustom pystr "json option"
  | AppendSessionInfo pystr
  | AppendCustomMessage pystr content bool "json option"
  | AppendContextEdit pystr "content option"
  | AppendLabel pystr "pystr option"
  | Branch pystr
  | ResetLeaf
  | BranchWithSummary "pystr option" pystr "json option" "bool option" "usage option"
  | CreateBranched pystr
  | NewSession "pystr option" "pystr option"

text \<open>The state, the disk and whether the operation succeeded; \<open>None\<close> when it does not return.\<close>

definition ended :: "'a outcome \<Rightarrow> (session \<times> disk \<times> bool)" where
  "ended out = (case out of (s, d, r) \<Rightarrow> (s, d, \<not> isl r))"

fun run_op :: "(file_entry \<Rightarrow> pystr) \<Rightarrow> env \<Rightarrow> session_op \<Rightarrow> session \<times> disk \<Rightarrow> (session \<times> disk \<times> bool) option" where
  "run_op ser env (AppendMessage m) (s, d) = Some (ended (append_message ser env m s d))"
| "run_op ser env (AppendThinkingLevel l) (s, d) = Some (ended (append_thinking_level_change ser env l s d))"
| "run_op ser env (AppendModelChange p m) (s, d) = Some (ended (append_model_change ser env p m s d))"
| "run_op ser env (AppendUsage k p m u n) (s, d) = Some (ended (append_usage ser env k p m u n s d))"
| "run_op ser env (AppendCompaction sm fk tb dt fh u) (s, d) =
     map_option ended (append_compaction ser env sm fk tb dt fh u s d)"
| "run_op ser env (AppendCustom t x) (s, d) = Some (ended (append_custom_entry ser env t x s d))"
| "run_op ser env (AppendSessionInfo n) (s, d) = Some (ended (append_session_info ser env n s d))"
| "run_op ser env (AppendCustomMessage t c dp dt) (s, d) =
     Some (ended (append_custom_message_entry ser env t c dp dt s d))"
| "run_op ser env (AppendContextEdit t r) (s, d) = map_option ended (append_context_edit ser env t r s d)"
| "run_op ser env (AppendLabel t l) (s, d) = Some (ended (append_label_change ser env t l s d))"
| "run_op ser env (Branch i) (s, d) = (case branch i s of (s', r) \<Rightarrow> Some (s', d, \<not> isl r))"
| "run_op ser env ResetLeaf (s, d) = Some (reset_leaf s, d, True)"
| "run_op ser env (BranchWithSummary b sm dt fh u) (s, d) =
     Some (ended (branch_with_summary ser env b sm dt fh u s d))"
| "run_op ser env (CreateBranched i) (s, d) = map_option ended (create_branched_session ser env i s d)"
| "run_op ser env (NewSession i p) (s, d) = (case new_session env i p s of (s', r) \<Rightarrow> Some (s', d, \<not> isl r))"

subsection \<open>Fresh ids\<close>

text \<open>
  What the code relies on of \<open>uuid.uuid4()\<close>: its text has 36 characters, two draws differ, and a
  whole drawn id is never one in use. (A prefix of eight characters may be; the code checks.)
\<close>

definition draws_ok :: "env \<Rightarrow> pystr set \<Rightarrow> bool" where
  "draws_ok env used \<longleftrightarrow> inj (ev_uuid4 env) \<and> (\<forall>n. length (ev_uuid4 env n) = 36 \<and> ev_uuid4 env n \<notin> used)"

lemma generate_id_cases:
  assumes "generate_id env n used = (i, m)"
  shows "n < m \<and> i \<notin> set used \<and> (\<exists>k. i = take 8 (ev_uuid4 env k)) \<or> n < m \<and> (\<exists>k. i = ev_uuid4 env k \<and> n \<le> k \<and> k < m)"
proof (cases "find (\<lambda>i. take 8 (ev_uuid4 env i) \<notin> set used) [n..<n + 100]")
  case None
  with assms show ?thesis by (auto simp: generate_id_def)
next
  case (Some k)
  then obtain ys zs where "[n..<n + 100] = ys @ k # zs" "take 8 (ev_uuid4 env k) \<notin> set used"
    using find_Some_split by fast
  moreover have "k \<in> set [n..<n + 100]" unfolding calculation(1) by simp
  then have "n \<le> k" by simp
  ultimately show ?thesis using assms Some by (auto simp: generate_id_def)
qed

lemma generate_id_fresh:
  assumes "draws_ok env used" "set xs \<subseteq> used"
  shows "fst (generate_id env n xs) \<notin> set xs \<and> fst (generate_id env n xs) \<noteq> []"
proof -
  obtain i m where g: "generate_id env n xs = (i, m)" by force
  have "take 8 (ev_uuid4 env k) \<noteq> [] \<and> ev_uuid4 env k \<noteq> []" for k
    using assms(1) by (auto simp: draws_ok_def dest: spec [of _ k])
  with generate_id_cases [OF g] assms g show ?thesis by (auto simp: draws_ok_def)
qed

subsection \<open>The invariant of a session\<close>

definition replay_labels :: "entry list \<Rightarrow> (pystr, pystr) dict \<times> (pystr, pystr) dict" where
  "replay_labels es = fold index_label es ([], [])"

definition edits_on_branch :: "entry list \<Rightarrow> bool" where
  "edits_on_branch es \<longleftrightarrow> (\<forall>e \<in> set es. \<forall>t r. en_body e = ContextEditE t r \<longrightarrow>
     (\<exists>p x. path_from (by_ids es) (Some e) = Some p \<and> x \<in> set p \<and> en_id x = t \<and> \<not> is_label (en_body x)))"

definition compactions_ok :: "entry list \<Rightarrow> bool" where
  "compactions_ok es \<longleftrightarrow> (\<forall>e \<in> set es. is_compaction (en_body e) \<longrightarrow> first_kept_of (en_body e) \<noteq> None)"

definition session_ok :: "session \<Rightarrow> bool" where
  "session_ok s \<longleftrightarrow>
     (\<exists>h es. ss_entries s = HeaderF h # map EntryF es) \<and>
     tree_ok (get_entries s) \<and> ss_by_id s = by_ids (get_entries s) \<and>
     (case ss_leaf s of None \<Rightarrow> True | Some i \<Rightarrow> i \<in> ids_of (get_entries s)) \<and>
     (ss_labels s, ss_label_timestamps s) = replay_labels (get_entries s) \<and>
     edits_on_branch (get_entries s) \<and> compactions_ok (get_entries s)"

lemma body_entries_map [simp]: "body_entries (map EntryF es) = es"
  by (induction es) auto

lemma body_entries_append [simp]: "body_entries (xs @ ys) = body_entries xs @ body_entries ys"
  by (induction xs rule: body_entries.induct) auto

lemma get_entries_append [simp]: "get_entries (append_entry_locked e s) = get_entries s @ [e]"
  by (simp add: get_entries_def append_entry_locked_def)

lemma replay_labels_snoc: "replay_labels (es @ [e]) = index_label e (replay_labels es)"
  by (simp add: replay_labels_def)

lemma index_label_other: "\<not> is_label (en_body e) \<Longrightarrow> index_label e ls = ls"
  by (cases ls; cases "en_body e") auto

text \<open>What an entry must satisfy to be appended.\<close>

definition may_append :: "entry list \<Rightarrow> entry \<Rightarrow> bool" where
  "may_append es e \<longleftrightarrow> entry_fits (ids_of es) e \<and>
     (is_compaction (en_body e) \<longrightarrow> first_kept_of (en_body e) \<noteq> None) \<and>
     (\<forall>t r. en_body e = ContextEditE t r \<longrightarrow>
        (\<exists>p x leaf. leaf \<in> set es \<and> en_parent e = Some (en_id leaf) \<and> path_from (by_ids es) (Some leaf) = Some p \<and>
           x \<in> set p \<and> en_id x = t \<and> \<not> is_label (en_body x)))"

lemma edits_on_branch_append:
  assumes "tree_ok (es @ [e])" "edits_on_branch es" "may_append es e"
  shows "edits_on_branch (es @ [e])"
  unfolding edits_on_branch_def
proof (intro ballI allI impI)
  fix y t r assume y: "y \<in> set (es @ [e])" and body: "en_body y = ContextEditE t r"
  show "\<exists>p x. path_from (by_ids (es @ [e])) (Some y) = Some p \<and> x \<in> set p \<and> en_id x = t \<and> \<not> is_label (en_body x)"
  proof (cases "y \<in> set es")
    case True
    with assms(2) body path_from_append [OF assms(1)] show ?thesis
      unfolding edits_on_branch_def by fastforce
  next
    case False
    with y body assms(3) obtain p x leaf where *: "leaf \<in> set es" "en_parent e = Some (en_id leaf)"
      "path_from (by_ids es) (Some leaf) = Some p" "x \<in> set p" "en_id x = t" "\<not> is_label (en_body x)"
      unfolding may_append_def by auto
    from path_from_child [OF assms(1) *(1-3)] False y *(4-6) show ?thesis by auto
  qed
qed

lemma append_entry_ok:
  assumes ok: "session_ok s" and e: "may_append (get_entries s) e" and "\<not> is_label (en_body e)"
  shows "session_ok (append_entry_locked e s)"
proof -
  let ?es = "get_entries s"
  from ok obtain h es where h: "ss_entries s = HeaderF h # map EntryF es" by (auto simp: session_ok_def)
  from ok e have tree: "tree_ok (?es @ [e])" by (simp add: session_ok_def may_append_def tree_ok_snoc)
  have "dict_get (by_ids ?es) (en_id e) = None"
    using e by (simp add: may_append_def entry_fits_def get_by_ids_None)
  then have "dict_set (en_id e) e (ss_by_id s) = by_ids (?es @ [e])"
    using ok by (simp add: session_ok_def dict_set_fresh)
  moreover have "\<exists>h' es'. ss_entries s @ [EntryF e] = HeaderF h' # map EntryF es'"
    using h by (intro exI [of _ h] exI [of _ "es @ [e]"]) simp
  moreover have "compactions_ok (?es @ [e])"
    using ok e by (auto simp: session_ok_def compactions_ok_def may_append_def)
  ultimately show ?thesis
    using ok tree edits_on_branch_append [OF tree _ e] assms(3)
    unfolding session_ok_def get_entries_append
    by (simp add: append_entry_locked_def replay_labels_snoc index_label_other)
qed

text \<open>The write changes neither the entries nor what is derived from them.\<close>

definition same_tree :: "session \<Rightarrow> session \<Rightarrow> bool" where
  "same_tree s s' \<longleftrightarrow> s' = s\<lparr>ss_flushed := ss_flushed s'\<rparr>"

lemma get_entries_update [simp]:
  "get_entries (s\<lparr>ss_flushed := b\<rparr>) = get_entries s" "get_entries (s\<lparr>ss_leaf := l\<rparr>) = get_entries s"
  "get_entries (s\<lparr>ss_labels := ls, ss_label_timestamps := ts\<rparr>) = get_entries s"
  "get_entries (s\<lparr>ss_entries := es\<rparr>) = body_entries es"
  by (simp_all add: get_entries_def)

lemma session_ok_flushed [simp]: "session_ok (s\<lparr>ss_flushed := b\<rparr>) = session_ok s"
  by (simp add: session_ok_def split: option.split)

lemma same_tree_ok: "same_tree s s' \<Longrightarrow> session_ok s \<Longrightarrow> session_ok s'"
  by (metis same_tree_def session_ok_flushed)

lemma commit_same_tree:
  assumes "commit ser e s d = (s', d', r)"
  shows "same_tree s s' \<and> (isl r \<longrightarrow> d' = d) \<and> (\<not> isl r \<longrightarrow> r = Inr (en_id e))"
  using assms
  by (auto simp: commit_def persist_entry_def same_tree_def split: option.splits sum.splits prod.splits if_splits)


lemma commit_ok: "commit ser e s d = (s', d', r) \<Longrightarrow> session_ok s \<Longrightarrow> session_ok s'"
  using commit_same_tree same_tree_ok by blast

lemma new_entry_fits:
  assumes "session_ok s" "draws_ok env (ids_of (get_entries s))"
    "parent = None \<or> (\<exists>i. parent = Some i \<and> i \<in> ids_of (get_entries s))"
    "set (body_target (body (fst (generate_id env 0 (map fst (ss_by_id s)))))) \<subseteq> ids_of (get_entries s)"
  shows "entry_fits (ids_of (get_entries s)) (new_entry env s parent body)"
proof -
  have "set (map fst (ss_by_id s)) = ids_of (get_entries s)"
    using assms(1) by (simp add: session_ok_def)
  with generate_id_fresh [OF assms(2), of "map fst (ss_by_id s)" 0] assms show ?thesis
    by (auto simp: new_entry_def Let_def entry_fits_def)
qed

lemma session_leaf: "session_ok s \<Longrightarrow> ss_leaf s = None \<or> (\<exists>i. ss_leaf s = Some i \<and> i \<in> ids_of (get_entries s))"
  by (auto simp: session_ok_def split: option.splits)

text \<open>Bodies that need nothing but a fresh id.\<close>

definition plain_body :: "entry_body \<Rightarrow> bool" where
  "plain_body b \<longleftrightarrow> body_target b = [] \<and> (is_compaction b \<longrightarrow> first_kept_of b \<noteq> None)"

lemma plain_body_simps [simp]:
  "plain_body (MessageE m)" "plain_body (ThinkingLevelE l)" "plain_body (ModelChangeE p i)" "plain_body (UsageE k p md u nt)"
  "plain_body (BranchSummaryE b)" "plain_body (CustomE t x)" "plain_body (CustomMessageE t c dp dt)"
  "plain_body (SessionInfoE nm)" "plain_body (CompactionE cb) \<longleftrightarrow> cb_first_kept cb \<noteq> None"
  by (simp_all add: plain_body_def)

lemma plain_body_not: "plain_body b \<Longrightarrow> \<not> is_label b \<and> (\<forall>t r. b \<noteq> ContextEditE t r)"
  by (cases b) (auto simp: plain_body_def)

lemma new_plain_entry_ok:
  assumes "session_ok s" "draws_ok env (ids_of (get_entries s))" "\<And>i. plain_body (body i)"
  shows "session_ok (append_entry_locked (new_entry env s (ss_leaf s) body) s)"
proof -
  let ?i = "fst (generate_id env 0 (map fst (ss_by_id s)))"
  have b: "en_body (new_entry env s (ss_leaf s) body) = body ?i" by (simp add: new_entry_def Let_def)
  have "entry_fits (ids_of (get_entries s)) (new_entry env s (ss_leaf s) body)"
    using assms session_leaf [OF assms(1)] by (intro new_entry_fits) (simp_all add: plain_body_def)
  then have "may_append (get_entries s) (new_entry env s (ss_leaf s) body)"
    using assms(3) [of ?i] plain_body_not by (auto simp: may_append_def b plain_body_def)
  with append_entry_ok [OF assms(1)] b plain_body_not [OF assms(3)] show ?thesis by metis
qed

lemma append_body_ok:
  assumes "session_ok s" "draws_ok env (ids_of (get_entries s))" "\<And>i. plain_body (body i)"
    "append_body ser env body s d = (s', d', r)"
  shows "session_ok s'"
  using assms(4) commit_ok new_plain_entry_ok [OF assms(1-3)] by (auto simp: append_body_def Let_def)

lemma branch_leaf_ok:
  "session_ok s \<Longrightarrow> l = None \<or> (\<exists>i. l = Some i \<and> i \<in> ids_of (get_entries s)) \<Longrightarrow> session_ok (s\<lparr>ss_leaf := l\<rparr>)"
  by (auto simp: session_ok_def split: option.splits)

lemma by_id_mem: "session_ok s \<Longrightarrow> dict_get (ss_by_id s) i \<noteq> None \<longleftrightarrow> i \<in> ids_of (get_entries s)"
  by (simp add: session_ok_def get_by_ids_None)

lemma by_id_Some: "session_ok s \<Longrightarrow> dict_get (ss_by_id s) i = Some e \<Longrightarrow> e \<in> set (get_entries s) \<and> en_id e = i"
  using get_by_ids_Some by (simp add: session_ok_def)

lemma append_label_ok:
  assumes ok: "session_ok s" and dr: "draws_ok env (ids_of (get_entries s))"
    and out: "append_label_change ser env target_id label s d = (s', d', r)"
  shows "session_ok s'"
proof (cases "dict_get (ss_by_id s) target_id = None")
  case True
  with ok out show ?thesis by (simp add: append_label_change_def)
next
  case False
  let ?e = "new_entry env s (ss_leaf s) (\<lambda>_. LabelE target_id label)"
  let ?s = "set_label target_id label (en_timestamp ?e) (append_entry_locked ?e s)"
  have body: "en_body ?e = LabelE target_id label" by (simp add: new_entry_def Let_def)
  have fits: "entry_fits (ids_of (get_entries s)) ?e"
    using ok dr session_leaf [OF ok] False by_id_mem [OF ok] by (intro new_entry_fits) auto
  then have may: "may_append (get_entries s) ?e" by (simp add: may_append_def body)
  have tree: "tree_ok (get_entries s @ [?e])" using ok fits by (simp add: session_ok_def tree_ok_snoc)
  have entries: "get_entries ?s = get_entries s @ [?e]"
    by (simp add: set_label_def split: option.split)
  have "replay_labels (get_entries s) = (ss_labels s, ss_label_timestamps s)"
    using ok by (simp add: session_ok_def)
  then have "(ss_labels ?s, ss_label_timestamps ?s) = replay_labels (get_entries s @ [?e])"
    by (simp add: replay_labels_snoc body set_label_def append_entry_locked_def split: option.split)
  moreover have "dict_set (en_id ?e) ?e (ss_by_id s) = by_ids (get_entries s @ [?e])"
    using fits ok by (simp add: session_ok_def dict_set_fresh get_by_ids_None entry_fits_def)
  then have "ss_by_id ?s = by_ids (get_entries s @ [?e])" "ss_leaf ?s = Some (en_id ?e)"
    by (simp_all add: set_label_def append_entry_locked_def split: option.split)
  moreover have "\<exists>h es. ss_entries ?s = HeaderF h # map EntryF es"
  proof -
    from ok obtain h es where "ss_entries s = HeaderF h # map EntryF es" by (auto simp: session_ok_def)
    then have "ss_entries ?s = HeaderF h # map EntryF (es @ [?e])"
      by (simp add: set_label_def append_entry_locked_def split: option.split)
    then show ?thesis by blast
  qed
  moreover have "edits_on_branch (get_entries s @ [?e])"
    using edits_on_branch_append [OF tree _ may] ok by (simp add: session_ok_def)
  moreover have "compactions_ok (get_entries s @ [?e])"
    using ok by (auto simp: session_ok_def compactions_ok_def body)
  ultimately have "session_ok ?s"
    using ok tree by (simp add: session_ok_def entries)
  with commit_ok out False show ?thesis by (auto simp: append_label_change_def Let_def)
qed

lemma session_tree: "session_ok s \<Longrightarrow> tree_ok (get_entries s)"
  by (simp add: session_ok_def)

lemma session_id_ne: "session_ok s \<Longrightarrow> i \<in> ids_of (get_entries s) \<Longrightarrow> i \<noteq> []"
  by (metis session_tree tree_ok_ids)

text \<open>In a well-formed session the walk ends, with a linked path of entries in file order.\<close>

lemma get_branch_cases:
  assumes ok: "session_ok s"
  obtains (none) "get_branch s from = Some []"
      "(case (if from \<noteq> None then from else ss_leaf s) of None \<Rightarrow> True | Some i \<Rightarrow> i \<notin> ids_of (get_entries s))"
    | (some) p e where "get_branch s from = Some p" "(if from \<noteq> None then from else ss_leaf s) = Some (en_id e)"
      "e \<in> set (get_entries s)" "path_from (by_ids (get_entries s)) (Some e) = Some p"
      "linked None p" "p \<noteq> []" "last p = e" "subseq p (get_entries s)"
proof -
  let ?start = "if from \<noteq> None then from else ss_leaf s"
  have idx: "ss_by_id s = by_ids (get_entries s)" using ok by (simp add: session_ok_def)
  show thesis
  proof (cases "case ?start of None \<Rightarrow> None | Some i \<Rightarrow> if i = [] then None else dict_get (ss_by_id s) i")
    case None
    then have "get_branch s from = Some []" by (simp add: get_branch_def path_from_def Let_def)
    moreover have "case ?start of None \<Rightarrow> True | Some i \<Rightarrow> i \<notin> ids_of (get_entries s)"
    proof (cases ?start)
      case (Some i)
      with None have "i = [] \<or> dict_get (ss_by_id s) i = None" by (auto split: if_splits)
      with session_id_ne [OF ok, of i] idx have "i \<notin> ids_of (get_entries s)" by (metis get_by_ids_None)
      then show ?thesis unfolding Some by simp
    qed simp
    ultimately show thesis by (rule none)
  next
    case (Some e)
    then obtain i where i: "?start = Some i" "dict_get (ss_by_id s) i = Some e"
      by (auto split: option.splits if_splits)
    with by_id_Some [OF ok] have e: "e \<in> set (get_entries s)" "en_id e = i" by auto
    from path_from_ok [OF session_tree [OF ok] e(1)] obtain p where
      "path_from (by_ids (get_entries s)) (Some e) = Some p" "linked None p" "p \<noteq> []" "last p = e"
      "subseq p (get_entries s)" .
    moreover from this(1) Some have "get_branch s from = Some p"
      unfolding get_branch_def Let_def idx by (simp add: idx)
    ultimately show thesis using some i e by blast
  qed
qed

lemma append_context_edit_ok:
  assumes ok: "session_ok s" and dr: "draws_ok env (ids_of (get_entries s))"
  shows "\<exists>s' d' r. append_context_edit ser env t rep s d = Some (s', d', r) \<and> session_ok s'"
proof (cases "dict_get (ss_by_id s) t")
  case None
  with ok show ?thesis by (simp add: append_context_edit_def)
next
  case (Some target)
  show ?thesis
  proof (cases rule: get_branch_cases [OF ok, of None])
    case 1
    with Some ok show ?thesis by (simp add: append_context_edit_def)
  next
    case (2 p leaf)
    show ?thesis
    proof (cases "list_ex (\<lambda>e. en_id e = t) p \<and> editable_body (en_body target)")
      case False
      with 2 Some ok show ?thesis by (auto simp: append_context_edit_def)
    next
      case True
      then obtain x where x: "x \<in> set p" "en_id x = t" by (auto simp: list_ex_iff)
      have "x \<in> set (get_entries s)" using x 2 subseq_set_subset by blast
      with x Some ok have "x = target"
        using get_by_ids [of "get_entries s" x] tree_ok_ids [OF session_tree [OF ok]] by (simp add: session_ok_def)
      with True have nl: "\<not> is_label (en_body x)" by (cases "en_body x") (auto simp: editable_body_def)
      let ?body = "ContextEditE t (normalize_replacement (en_body target) rep)"
      let ?e = "new_entry env s (ss_leaf s) (\<lambda>_. ?body)"
      have leaf: "ss_leaf s = Some (en_id leaf)" using 2 by simp
      have e: "en_body ?e = ?body" "en_parent ?e = Some (en_id leaf)"
        by (simp_all add: new_entry_def Let_def leaf)
      have "entry_fits (ids_of (get_entries s)) ?e"
        using session_leaf [OF ok] x \<open>x \<in> set (get_entries s)\<close> by (intro new_entry_fits [OF ok dr]) auto
      then have "may_append (get_entries s) ?e"
        using 2 x nl e by (auto simp: may_append_def)
      then have "session_ok (append_entry_locked ?e s)"
        using append_entry_ok [OF ok] e by simp
      moreover obtain s' d' r where out: "commit ser ?e (append_entry_locked ?e s) d = (s', d', r)" by (rule prod_cases3)
      ultimately have "session_ok s'" using commit_ok by blast
      with out True Some 2 show ?thesis by (auto simp: append_context_edit_def append_body_def Let_def)
    qed
  qed
qed

lemma build_session_path_manager:
  assumes ok: "session_ok s"
  shows "build_session_path (get_entries s) (leaf_arg_of (ss_leaf s)) (Some (ss_by_id s)) = get_branch s None"
proof (cases "ss_leaf s")
  case None
  then show ?thesis
    by (simp add: build_session_path_def leaf_arg_of_def get_branch_def path_from_def)
next
  case (Some i)
  with ok have i: "i \<in> ids_of (get_entries s)" by (simp add: session_ok_def)
  then obtain e where "dict_get (ss_by_id s) i = Some e" using by_id_mem [OF ok] by blast
  moreover have "i \<noteq> []" using session_id_ne [OF ok i] .
  ultimately show ?thesis using Some
    by (simp add: build_session_path_def leaf_arg_of_def get_branch_def build_entry_index_def)
qed

lemma get_branch_returns: "session_ok s \<Longrightarrow> \<exists>p. get_branch s from = Some p"
  by (erule get_branch_cases [of s "from"]) auto

lemma session_projection_returns: "session_ok s \<Longrightarrow> session_projection_of env s \<noteq> None"
  using get_branch_returns [of s None]
  by (auto simp: session_projection_of_def build_session_projection_def build_session_path_manager Let_def
      split: prod.splits)

lemma append_compaction_ok:
  assumes ok: "session_ok s" and dr: "draws_ok env (ids_of (get_entries s))"
  shows "\<exists>s' d' r. append_compaction ser env sm fk tb dt fh u s d = Some (s', d', r) \<and> session_ok s'"
proof -
  obtain pr where pr: "session_projection_of env s = Some pr" using session_projection_returns [OF ok] by blast
  let ?body = "\<lambda>i. CompactionE \<lparr>cb_summary = sm, cb_first_kept = Some (case fk of Some k \<Rightarrow> k | None \<Rightarrow> i),
      cb_tokens_before = tb, cb_details = dt, cb_usage = u, cb_from_hook = fh,
      cb_system = map_option (\<lambda>m. m\<lparr>sm_timestamp := ev_epoch env (ev_now env)\<rparr>) (get_current_system_message (sp_messages pr))\<rparr>"
  obtain s' d' r where out: "append_body ser env ?body s d = (s', d', r)" by (rule prod_cases3)
  from append_body_ok [OF ok dr _ this] pr out show ?thesis
    by (simp add: append_compaction_def Let_def)
qed

subsection \<open>Building the index\<close>

lemma fold_index_entry:
  "fold index_entry es s =
     s\<lparr>ss_by_id := index_entries es (ss_by_id s),
       ss_leaf := (if es = [] then ss_leaf s else Some (en_id (last es))),
       ss_labels := fst (fold index_label es (ss_labels s, ss_label_timestamps s)),
       ss_label_timestamps := snd (fold index_label es (ss_labels s, ss_label_timestamps s))\<rparr>"
proof (induction es arbitrary: s)
  case Nil
  then show ?case by (simp add: index_entries_def)
next
  case (Cons e es)
  obtain ls ts where l: "index_label e (ss_labels s, ss_label_timestamps s) = (ls, ts)" by force
  have "index_entry e s = s\<lparr>ss_by_id := dict_set (en_id e) e (ss_by_id s), ss_leaf := Some (en_id e),
      ss_labels := ls, ss_label_timestamps := ts\<rparr>"
    by (simp add: index_entry_def l del: index_label.simps)
  then show ?case
    by (simp add: Cons.IH l index_entries_def del: index_label.simps)
qed

lemma build_index_eq:
  "build_index s = s\<lparr>ss_by_id := index_entries (get_entries s) [],
     ss_leaf := map_option en_id (last_entry (get_entries s)),
     ss_labels := fst (replay_labels (get_entries s)), ss_label_timestamps := snd (replay_labels (get_entries s))\<rparr>"
  by (simp add: build_index_def fold_index_entry replay_labels_def get_entries_def last_entry_def)

lemma build_index_ok:
  assumes "ss_entries s = HeaderF h # map EntryF es" "tree_ok es" "edits_on_branch es" "compactions_ok es"
  shows "session_ok (build_index s)" "get_entries (build_index s) = es"
proof -
  have es: "get_entries s = es" by (simp add: get_entries_def assms(1))
  then show "get_entries (build_index s) = es" by (simp add: build_index_eq get_entries_def)
  have "index_entries es [] = by_ids es"
    using index_entries_by_ids [of "[]" es] tree_ok_ids [OF assms(2)] by simp
  moreover have "\<exists>h' es'. ss_entries s = HeaderF h' # map EntryF es'" using assms(1) by blast
  ultimately show "session_ok (build_index s)"
    using assms(2-4) \<open>get_entries (build_index s) = es\<close>
    unfolding session_ok_def by (simp add: build_index_eq es last_entry_def)
qed


subsection \<open>Branched sessions keep the invariant\<close>

fun edits_in :: "pystr set \<Rightarrow> entry list \<Rightarrow> bool" where
  "edits_in seen [] = True"
| "edits_in seen (e # es) =
     ((is_label (en_body e) \<or> set (body_target (en_body e)) \<subseteq> seen) \<and>
      edits_in (if is_label (en_body e) then seen else insert (en_id e) seen) es)"

lemma remap_body:
  assumes "remap_first_kept m i b = Inr b'" "\<not> is_label b"
  shows "body_target b' = body_target b \<and> \<not> is_label b' \<and> is_compaction b' = is_compaction b \<and>
         (is_compaction b' \<longrightarrow> first_kept_of b' \<noteq> None)"
  using assms by (cases b) (auto split: option.splits)

lemma strip_labels_ok:
  assumes "strip_labels par pending m es = Inr K" "edits_in seen es" "distinct (map en_id es)"
    "ids_of es \<inter> seen = {}" "[] \<notin> ids_of es" "case par of None \<Rightarrow> True | Some p \<Rightarrow> p \<in> seen"
  shows "tree_ok_from seen K \<and> linked par K \<and> map en_id K = map en_id (filter (\<lambda>e. \<not> is_label (en_body e)) es) \<and>
    list_all (\<lambda>e. \<not> is_label (en_body e) \<and> (is_compaction (en_body e) \<longrightarrow> first_kept_of (en_body e) \<noteq> None)) K"
  using assms
proof (induction par pending m es arbitrary: seen K rule: strip_labels.induct)
  case (1 par pending m)
  then show ?case by simp
next
  case (2 par pending m e es)
  show ?case
  proof (cases "is_label (en_body e)")
    case True
    with 2 show ?thesis by auto
  next
    case False
    let ?m = "fold (\<lambda>l. dict_set l (en_id e)) pending m"
    from False "2.prems"(1) obtain b rest where
      b: "remap_first_kept ?m (en_id e) (en_body e) = Inr b" and
      rest: "strip_labels (Some (en_id e)) [] ?m es = Inr rest" and
      K: "K = e\<lparr>en_parent := par, en_body := b\<rparr> # rest"
      by (auto simp: Let_def split: sum.splits)
    note body = remap_body [OF b False]
    have "tree_ok_from (insert (en_id e) seen) rest \<and> linked (Some (en_id e)) rest \<and>
        map en_id rest = map en_id (filter (\<lambda>e. \<not> is_label (en_body e)) es) \<and>
        list_all (\<lambda>e. \<not> is_label (en_body e) \<and> (is_compaction (en_body e) \<longrightarrow> first_kept_of (en_body e) \<noteq> None)) rest"
      by (rule "2.IH"(2) [OF False refl b rest]) (use "2.prems" False in auto)
    moreover have "entry_fits seen (e\<lparr>en_parent := par, en_body := b\<rparr>)"
      using "2.prems" False body by (auto simp: entry_fits_def)
    ultimately show ?thesis using False K body by simp
  qed
qed

lemma strip_labels_total:
  "compactions_ok es \<Longrightarrow> \<exists>K. strip_labels par pending m es = Inr K"
proof (induction par pending m es rule: strip_labels.induct)
  case (2 par pending m e es)
  have ok: "compactions_ok es" using "2.prems" by (simp add: compactions_ok_def)
  show ?case
  proof (cases "is_label (en_body e)")
    case True
    with 2 ok show ?thesis by simp
  next
    case False
    obtain b where b: "remap_first_kept (fold (\<lambda>l. dict_set l (en_id e)) pending m) (en_id e) (en_body e) = Inr b"
      using "2.prems" by (cases "en_body e") (auto simp: compactions_ok_def)
    from "2.IH"(2) [OF False refl b ok] False b show ?thesis by (auto simp: Let_def)
  qed
qed simp

lemma linked_prefix: "linked par (xs @ ys) \<Longrightarrow> linked par xs"
  by (induction xs arbitrary: par) auto

lemma target_not_self: "targets_ok es \<Longrightarrow> e \<in> set es \<Longrightarrow> t \<in> set (body_target (en_body e)) \<Longrightarrow> t \<noteq> en_id e"
  by (induction es) auto

text \<open>The path to an edit holds the entry it edits, so the stripped path still does.\<close>

lemma edits_in_path:
  assumes "tree_ok es" "edits_on_branch es" "linked None (A @ P)" "set (A @ P) \<subseteq> set es"
  shows "edits_in (ids_of (filter (\<lambda>e. \<not> is_label (en_body e)) A)) P"
  using assms(3,4)
proof (induction P arbitrary: A)
  case Nil
  then show ?case by simp
next
  case (Cons e P)
  have "is_label (en_body e) \<or> set (body_target (en_body e)) \<subseteq> ids_of (filter (\<lambda>e. \<not> is_label (en_body e)) A)"
  proof (cases "en_body e")
    case (ContextEditE t r)
    have "linked None (A @ [e])" using Cons.prems(1) linked_prefix [of None "A @ [e]" P] by simp
    with path_of_linked [OF this _ assms(1)] Cons.prems(2)
    have path: "path_from (by_ids es) (Some e) = Some (A @ [e])" by simp
    have e: "e \<in> set es" using Cons.prems(2) by simp
    from assms(2) e ContextEditE path obtain x where x: "x \<in> set (A @ [e])" "en_id x = t" "\<not> is_label (en_body x)"
      unfolding edits_on_branch_def by fastforce
    have "t \<noteq> en_id e"
      using target_not_self [OF tree_ok_targets [OF assms(1)] e] ContextEditE by simp
    with x show ?thesis using ContextEditE by auto
  qed auto
  moreover have "edits_in (ids_of (filter (\<lambda>e. \<not> is_label (en_body e)) (A @ [e]))) P"
    by (rule Cons.IH) (use Cons.prems in auto)
  ultimately show ?case by (auto split: if_splits)
qed


lemma linked_edits_on_branch:
  assumes "tree_ok (K @ L)" "linked None K" "\<forall>e \<in> set K. \<not> is_label (en_body e)" "\<forall>e \<in> set L. is_label (en_body e)"
  shows "edits_on_branch (K @ L)"
  unfolding edits_on_branch_def
proof (intro ballI allI impI)
  fix e t r assume e: "e \<in> set (K @ L)" and body: "en_body e = ContextEditE t r"
  with assms(4) have "e \<in> set K" by auto
  then obtain A B where K: "K = A @ e # B" by (meson split_list)
  have "linked None (A @ [e])" using assms(2) linked_prefix [of None "A @ [e]" B] by (simp add: K)
  moreover have "set (A @ [e]) \<subseteq> set (K @ L)" by (auto simp: K)
  ultimately have path: "path_from (by_ids (K @ L)) (Some e) = Some (A @ [e])"
    using path_of_linked [of "A @ [e]" "K @ L"] assms(1) by simp
  have "tree_ok (A @ [e])" using tree_ok_prefix [of "{}" "A @ [e]" "B @ L"] assms(1) by (simp add: K)
  then have "t \<in> ids_of A" by (simp add: tree_ok_snoc entry_fits_def body)
  then obtain x where "x \<in> set A" "en_id x = t" by auto
  with path assms(3) show "\<exists>p x. path_from (by_ids (K @ L)) (Some e) = Some p \<and> x \<in> set p \<and> en_id x = t \<and> \<not> is_label (en_body x)"
    by (intro exI [of _ "A @ [e]"] exI [of _ x]) (simp add: K)
qed

text \<open>The labels written again: the ids in use are of the path, short, or drawn before.\<close>

definition used_ok :: "env \<Rightarrow> pystr set \<Rightarrow> nat \<Rightarrow> pystr list \<Rightarrow> bool" where
  "used_ok env known n used \<longleftrightarrow>
     (\<forall>u \<in> set used. u \<in> known \<or> length u \<le> 8 \<or> (\<exists>k < n. u = ev_uuid4 env k))"

lemma generate_id_used:
  assumes dr: "draws_ok env known" and used: "used_ok env known n used" and g: "generate_id env n used = (i, m)"
  shows "i \<notin> set used" "i \<noteq> []" "used_ok env known m (i # used)"
proof -
  have len: "length (ev_uuid4 env k) = 36" "ev_uuid4 env k \<notin> known" for k using dr by (simp_all add: draws_ok_def)
  from generate_id_cases [OF g] consider (short) k where "n < m" "i \<notin> set used" "i = take 8 (ev_uuid4 env k)"
    | (whole) k where "n < m" "i = ev_uuid4 env k" "n \<le> k" "k < m" by blast
  then have "i \<notin> set used \<and> i \<noteq> [] \<and> (length i \<le> 8 \<or> (\<exists>k < m. i = ev_uuid4 env k)) \<and> n < m"
  proof cases
    case short
    moreover have "take 8 (ev_uuid4 env k) \<noteq> []" using len(1) [of k] by auto
    ultimately show ?thesis by simp
  next
    case whole
    have "ev_uuid4 env k \<noteq> ev_uuid4 env k'" if "k' < n" for k'
      using dr whole(3) that by (auto simp: draws_ok_def dest: injD)
    then have "i \<notin> set used" using used whole(2) len by (fastforce simp: used_ok_def)
    moreover have "i \<noteq> []" using len(1) [of k] whole(2) by auto
    ultimately show ?thesis using whole by blast
  qed
  moreover from this used have "used_ok env known m used"
    unfolding used_ok_def by (meson less_trans)
  ultimately show "i \<notin> set used" "i \<noteq> []" "used_ok env known m (i # used)"
    by (auto simp: used_ok_def)
qed

lemma chain_labels_ok:
  assumes "draws_ok env known" "used_ok env known n used" "seen \<subseteq> set used" "\<forall>l \<in> set ls. fst l \<in> seen"
    "case par of None \<Rightarrow> True | Some p \<Rightarrow> p \<in> seen"
  shows "tree_ok_from seen (chain_labels env n used par ls) \<and> linked par (chain_labels env n used par ls) \<and>
    (\<forall>e \<in> set (chain_labels env n used par ls). is_label (en_body e))"
  using assms
proof (induction ls arbitrary: n used par seen)
  case Nil
  then show ?case by simp
next
  case (Cons l ls)
  obtain t label ts where l: "l = (t, label, ts)" by (rule prod_cases3)
  obtain i m where g: "generate_id env n used = (i, m)" by force
  note gen = generate_id_used [OF Cons.prems(1,2) g]
  have "tree_ok_from (insert i seen) (chain_labels env m (i # used) (Some i) ls) \<and>
      linked (Some i) (chain_labels env m (i # used) (Some i) ls) \<and>
      (\<forall>e \<in> set (chain_labels env m (i # used) (Some i) ls). is_label (en_body e))"
    by (rule Cons.IH [OF Cons.prems(1) gen(3)]) (use Cons.prems in auto)
  with gen Cons.prems l g show ?case by (auto simp: entry_fits_def)
qed

lemma labels_to_write_ok:
  "\<forall>l \<in> set labels. dict_get timestamps (fst l) \<noteq> None \<Longrightarrow>
   \<exists>ls. labels_to_write ids timestamps labels = Inr ls \<and> (\<forall>l \<in> set ls. fst l \<in> set ids)"
proof (induction labels)
  case (Cons l labels)
  then obtain ls where "labels_to_write ids timestamps labels = Inr ls" "\<forall>l \<in> set ls. fst l \<in> set ids" by auto
  with Cons.prems show ?case by (cases l) auto
qed simp

lemma replay_labels_keys: "fst ` set (fst (replay_labels es)) = fst ` set (snd (replay_labels es))"
proof (induction es rule: rev_induct)
  case Nil
  then show ?case by (simp add: replay_labels_def)
next
  case (snoc e es)
  obtain ls ts where lt: "replay_labels es = (ls, ts)" by force
  with snoc have "fst ` set ls = fst ` set ts" by simp
  then show ?case
    by (cases "en_body e") (simp_all add: replay_labels_snoc lt dict_keys_set dict_keys_pop split: option.splits)
qed

lemma branched_entries_ok:
  assumes ok: "session_ok s" and dr: "draws_ok env (ids_of (get_entries s))"
    and path: "linked None p" "set p \<subseteq> set (get_entries s)"
  obtains K ls where "strip_labels None [] [] p = Inr K"
    "labels_to_write (map en_id K) (ss_label_timestamps s) (ss_labels s) = Inr ls"
    "branched_entries env s p = Inr (K @ chain_labels env 0 (map en_id K) (if K \<noteq> [] then Some (en_id (last K)) else None) ls)"
    "tree_ok (K @ chain_labels env 0 (map en_id K) (if K \<noteq> [] then Some (en_id (last K)) else None) ls)"
    "linked None (K @ chain_labels env 0 (map en_id K) (if K \<noteq> [] then Some (en_id (last K)) else None) ls)"
    "map en_id K = map en_id (filter (\<lambda>e. \<not> is_label (en_body e)) p)"
    "\<forall>e \<in> set K. \<not> is_label (en_body e) \<and> (is_compaction (en_body e) \<longrightarrow> first_kept_of (en_body e) \<noteq> None)"
    "\<forall>e \<in> set (chain_labels env 0 (map en_id K) (if K \<noteq> [] then Some (en_id (last K)) else None) ls). is_label (en_body e)"
proof -
  let ?es = "get_entries s"
  have facts: "tree_ok ?es" "edits_on_branch ?es" "compactions_ok ?es" using ok by (simp_all add: session_ok_def)
  have sub: "subseq p ?es" by (rule linked_subseq [OF facts(1) path])
  have "compactions_ok p" using facts(3) path(2) by (auto simp: compactions_ok_def)
  then obtain K where K: "strip_labels None [] [] p = Inr K" using strip_labels_total by blast
  have "edits_in {} p" using edits_in_path [OF facts(1,2), of "[]" p] path by simp
  moreover have "distinct (map en_id p)"
    using subseq_map [OF sub, of en_id] tree_ok_ids [OF facts(1)] subseq_distinct_list by blast
  moreover have "[] \<notin> ids_of p" using tree_ok_ids [OF facts(1)] path(2) by (meson image_mono subset_iff)
  ultimately have strip: "tree_ok K" "linked None K" "map en_id K = map en_id (filter (\<lambda>e. \<not> is_label (en_body e)) p)"
    "\<forall>e \<in> set K. \<not> is_label (en_body e) \<and> (is_compaction (en_body e) \<longrightarrow> first_kept_of (en_body e) \<noteq> None)"
    using strip_labels_ok [OF K, of "{}"] by (simp_all add: list_all_iff)
  have "replay_labels ?es = (ss_labels s, ss_label_timestamps s)" using ok by (simp add: session_ok_def)
  then have "fst ` set (ss_labels s) = fst ` set (ss_label_timestamps s)"
    using replay_labels_keys [of ?es] by simp
  then have "\<forall>l \<in> set (ss_labels s). dict_get (ss_label_timestamps s) (fst l) \<noteq> None"
    unfolding map_of_eq_None_iff by (metis image_eqI)
  from labels_to_write_ok [OF this, of "map en_id K"] obtain ls where
    ls: "labels_to_write (map en_id K) (ss_label_timestamps s) (ss_labels s) = Inr ls" "\<forall>l \<in> set ls. fst l \<in> ids_of K"
    by auto
  let ?par = "if K \<noteq> [] then Some (en_id (last K)) else None"
  let ?L = "chain_labels env 0 (map en_id K) ?par ls"
  have "ids_of K \<subseteq> ids_of ?es" using strip(3) path(2) by (metis (mono_tags, lifting) filter_is_subset image_mono image_set subset_trans)
  then have "used_ok env (ids_of ?es) 0 (map en_id K)" by (auto simp: used_ok_def)
  from chain_labels_ok [OF dr this, of "ids_of K" ls ?par] ls(2)
  have L: "tree_ok_from (ids_of K) ?L" "linked ?par ?L" "\<forall>e \<in> set ?L. is_label (en_body e)" by simp_all
  have "tree_ok_from seen (xs @ ys) = (tree_ok_from seen xs \<and> tree_ok_from (seen \<union> ids_of xs) ys)" for seen xs ys
    by (induction xs arbitrary: seen) auto
  with strip(1) L(1) have tree: "tree_ok (K @ ?L)" by simp
  have "linked par (xs @ ys) = (linked par xs \<and> linked (if xs \<noteq> [] then Some (en_id (last xs)) else par) ys)" for par xs ys
    by (induction xs arbitrary: par) auto
  with strip(2) L(2) have lin: "linked None (K @ ?L)" by (simp cong: if_cong)
  from K ls(1) have be: "branched_entries env s p = Inr (K @ ?L)"
    by (simp add: branched_entries_def Let_def)
  show thesis by (rule that [OF K ls(1) be tree lin strip(3,4) L(3)])
qed

lemma branched_state_ok:
  assumes "session_ok s" "draws_ok env (ids_of (get_entries s))" "linked None p" "set p \<subseteq> set (get_entries s)"
    "branched_entries env s p = Inr es"
  shows "tree_ok es \<and> edits_on_branch es \<and> compactions_ok es"
proof -
  obtain K L where
    es: "es = K @ L" "tree_ok (K @ L)" "linked None (K @ L)"
    "\<forall>e \<in> set K. \<not> is_label (en_body e) \<and> (is_compaction (en_body e) \<longrightarrow> first_kept_of (en_body e) \<noteq> None)"
    "\<forall>e \<in> set L. is_label (en_body e)"
  proof (rule branched_entries_ok [OF assms(1-4)])
    fix K :: "entry list" and ls
    let ?L = "chain_labels env 0 (map en_id K) (if K \<noteq> [] then Some (en_id (last K)) else None) ls"
    assume "branched_entries env s p = Inr (K @ ?L)" "tree_ok (K @ ?L)" "linked None (K @ ?L)"
      "\<forall>e \<in> set K. \<not> is_label (en_body e) \<and> (is_compaction (en_body e) \<longrightarrow> first_kept_of (en_body e) \<noteq> None)"
      "\<forall>e \<in> set ?L. is_label (en_body e)"
    moreover from this(1) assms(5) have "es = K @ ?L" by simp
    ultimately show thesis by (intro that [of K ?L])
  qed
  have "compactions_ok (K @ L)"
  proof -
    have "\<not> is_compaction b" if "is_label b" for b using that by (cases b) auto
    with es(4,5) show ?thesis by (auto simp: compactions_ok_def)
  qed
  with es linked_edits_on_branch [OF es(2) linked_prefix [OF es(3)]] show ?thesis by blast
qed

lemma create_branched_ok:
  assumes ok: "session_ok s" and dr: "draws_ok env (ids_of (get_entries s))"
  shows "\<exists>s' d' r. create_branched_session ser env i s d = Some (s', d', r) \<and> session_ok s'"
proof -
  obtain p where p: "get_branch s (Some i) = Some p" using get_branch_returns [OF ok] by blast
  show ?thesis
  proof (cases "p = []")
    case True
    with p ok show ?thesis by (simp add: create_branched_session_def)
  next
    case False
    have path: "linked None p \<and> subseq p (get_entries s)"
    proof (cases rule: get_branch_cases [OF ok, of "Some i"])
      case 1
      with p False show ?thesis by simp
    next
      case (2 q e)
      with p show ?thesis by simp
    qed
    then have path: "linked None p" "set p \<subseteq> set (get_entries s)" using subseq_set_subset by blast+
    obtain es where es: "branched_entries env s p = Inr es"
      by (rule branched_entries_ok [OF ok dr path], rule that, assumption)
    note st = branched_state_ok [OF ok dr path es]
    define target where "target = session_file_name (ss_dir s) (ev_now env) (ev_uuidv7 env)"
    define hdr where "hdr = \<lparr>hdr_version = CURRENT_SESSION_VERSION, hdr_id = ev_uuidv7 env, hdr_timestamp = ev_now env,
        hdr_cwd = ss_cwd s, hdr_parent_session = (if ss_persist s then ss_file s else None)\<rparr>"
    define s1 where "s1 = build_index (s\<lparr>ss_entries := HeaderF hdr # map EntryF es, ss_revision := ss_revision s + 1,
        ss_id := ev_uuidv7 env, ss_file := (if ss_persist s then Some target else ss_file s)\<rparr>)"
    have s1: "session_ok s1"
      unfolding s1_def by (rule build_index_ok(1) [of _ hdr es]) (use st in simp_all)
    have out: "create_branched_session ser env i s d = Some
       (if \<not> ss_persist s then (s1, d, Inr None)
        else if \<not> has_conversation (s1\<lparr>ss_flushed := False\<rparr>) then (s1\<lparr>ss_flushed := False\<rparr>, d, Inr (Some target))
        else case write_session_bytes d target Rewrite (file_text ser (ss_entries (s1\<lparr>ss_flushed := False\<rparr>))) of
               Inl err \<Rightarrow> (s1\<lparr>ss_flushed := False\<rparr>, d, Inl err)
             | Inr d' \<Rightarrow> (s1\<lparr>ss_flushed := False\<rparr>\<lparr>ss_flushed := True\<rparr>, d', Inr (Some target)))"
      unfolding create_branched_session_def p
      by (simp only: option.case es sum.case Let_def False if_False s1_def hdr_def target_def)
    have "session_ok (s1\<lparr>ss_flushed := False\<rparr>)" "session_ok (s1\<lparr>ss_flushed := False\<rparr>\<lparr>ss_flushed := True\<rparr>)"
      using s1 by simp_all
    with s1 show ?thesis
      unfolding out
      by (cases "ss_persist s"; cases "has_conversation (s1\<lparr>ss_flushed := False\<rparr>)";
          cases "write_session_bytes d target Rewrite (file_text ser (ss_entries (s1\<lparr>ss_flushed := False\<rparr>)))")
        (simp_all del: session_ok_flushed)
  qed
qed

lemma new_session_cases:
  assumes "new_session env i p s = (s', r)"
  shows "isl r \<and> s' = s \<or>
    (\<not> isl r \<and> (\<exists>h. ss_entries s' = [HeaderF h]) \<and> ss_by_id s' = [] \<and> ss_labels s' = [] \<and> ss_label_timestamps s' = [] \<and>
     ss_leaf s' = None \<and> ss_flushed s' = False)"
  using assms
  by (cases "case i of None \<Rightarrow> Inr () | Some i \<Rightarrow> assert_valid_session_id i")
    (auto simp: new_session_def Let_def)

lemma empty_session_ok:
  "ss_entries s = [HeaderF h] \<Longrightarrow> ss_by_id s = [] \<Longrightarrow> ss_labels s = [] \<Longrightarrow> ss_label_timestamps s = [] \<Longrightarrow>
   ss_leaf s = None \<Longrightarrow> session_ok s"
  by (simp add: session_ok_def get_entries_def replay_labels_def edits_on_branch_def compactions_ok_def)

lemma new_session_ok: "new_session env i p s = (s', r) \<Longrightarrow> session_ok s \<or> \<not> isl r \<Longrightarrow> session_ok s'"
  using new_session_cases empty_session_ok by blast

subsection \<open>Reachable sessions\<close>

lemma run_op_ok:
  assumes ok: "session_ok s" and dr: "draws_ok env (ids_of (get_entries s))"
  shows "\<exists>s' d' r. run_op ser env op (s, d) = Some (s', d', r) \<and> session_ok s'"
proof -
  have app: "\<exists>s' d' r. ended (append_body ser env body s d) = (s', d', r) \<and> session_ok s'"
    if "\<And>i. plain_body (body i)" for body
  proof -
    obtain s' d' r where out: "append_body ser env body s d = (s', d', r)" by (rule prod_cases3)
    from append_body_ok [OF ok dr that this] out show ?thesis by (simp add: ended_def)
  qed
  have leaf: "session_ok (s\<lparr>ss_leaf := l\<rparr>)" if "l = None \<or> (\<exists>i. l = Some i \<and> dict_get (ss_by_id s) i \<noteq> None)" for l
    using branch_leaf_ok [OF ok] that by_id_mem [OF ok] by blast
  show ?thesis
  proof (cases op)
    case (AppendLabel t l)
    then show ?thesis using append_label_ok [OF ok dr] by (cases "append_label_change ser env t l s d") (auto simp: ended_def)
  next
    case (AppendCompaction sm fk tb dt fh u)
    from append_compaction_ok [OF ok dr] obtain s' d' r where
      "append_compaction ser env sm fk tb dt fh u s d = Some (s', d', r)" "session_ok s'" by blast
    with AppendCompaction show ?thesis by (simp add: ended_def)
  next
    case (AppendContextEdit t r)
    from append_context_edit_ok [OF ok dr] obtain s' d' x where
      "append_context_edit ser env t r s d = Some (s', d', x)" "session_ok s'" by blast
    with AppendContextEdit show ?thesis by (simp add: ended_def)
  next
    case (CreateBranched i)
    from create_branched_ok [OF ok dr] obtain s' d' x where
      "create_branched_session ser env i s d = Some (s', d', x)" "session_ok s'" by blast
    with CreateBranched show ?thesis by (simp add: ended_def)
  next
    case (NewSession i p)
    with new_session_ok ok show ?thesis by (cases "new_session env i p s") auto
  next
    case (BranchWithSummary b sm dt fh u)
    have "session_ok s'" if "append_body ser env (\<lambda>_. BranchSummaryE x) (s\<lparr>ss_leaf := l\<rparr>) d = (s', d', r)"
      "l = None \<or> (\<exists>i. l = Some i \<and> dict_get (ss_by_id s) i \<noteq> None)" for x l s' d' r
      using append_body_ok [OF leaf [OF that(2)] _ _ that(1)] dr by simp
    with BranchWithSummary ok show ?thesis
      by (cases b; cases "branch_with_summary ser env b sm dt fh u s d")
        (auto simp: branch_with_summary_def ended_def Let_def split: if_splits)
  next
    case (Branch i)
    with ok leaf [of "Some i"] show ?thesis by (auto simp: branch_def)
  next
    case ResetLeaf
    with leaf [of None] show ?thesis by (auto simp: reset_leaf_def)
  qed (use app in \<open>simp_all add: append_message_def append_thinking_level_change_def append_model_change_def
      append_usage_def append_custom_entry_def append_session_info_def append_custom_message_entry_def\<close>)
qed

definition initial_session :: "pystr \<Rightarrow> pystr \<Rightarrow> bool \<Rightarrow> session" where
  "initial_session cwd dir persist =
    \<lparr>ss_id = [], ss_file = None, ss_cwd = cwd, ss_dir = dir, ss_persist = persist, ss_flushed = False, ss_entries = [],
     ss_revision = 0, ss_by_id = [], ss_labels = [], ss_label_timestamps = [], ss_leaf = None\<rparr>"

definition session_start :: "session \<times> disk \<Rightarrow> bool" where
  "session_start st \<longleftrightarrow> (\<exists>env option_id parent cwd dir persist file.
     new_session env option_id parent (initial_session cwd dir persist) = (fst st, Inr file))"

inductive session_step :: "(file_entry \<Rightarrow> pystr) \<Rightarrow> session \<times> disk \<Rightarrow> session \<times> disk \<Rightarrow> bool" for ser where
  op: "draws_ok env (ids_of (get_entries s)) \<Longrightarrow> run_op ser env op (s, d) = Some (s', d', ok) \<Longrightarrow>
       session_step ser (s, d) (s', d')"
| disk_changes: "session_step ser (s, d) (s, d\<lparr>dk_fails := b\<rparr>)"

inductive_cases session_stepE: "session_step ser st st'"

interpretation sess: invariant_system session_start "session_step ser" "\<lambda>st. session_ok (fst st)"
proof unfold_locales
  show "session_ok (fst st)" if "session_start st" for st
    using that new_session_ok unfolding session_start_def by fastforce
  show "session_ok (fst st')" if "session_ok (fst st)" "session_step ser st st'" for st st'
    using that(2,1)
  proof cases
    case (op env s op d s' d' ok)
    with that(1) run_op_ok [of s env ser op d] show ?thesis by auto
  qed simp
qed

subsection \<open>What one operation does\<close>

text \<open>An append: the entry goes below \<open>parent\<close>, the label maps may change, and the entry is written.\<close>

definition appended :: "(file_entry \<Rightarrow> pystr) \<Rightarrow> pystr option \<Rightarrow> entry \<Rightarrow> session \<Rightarrow> disk \<Rightarrow> session \<Rightarrow> disk \<Rightarrow> bool \<Rightarrow> bool" where
  "appended ser parent e s d s' d' ok \<longleftrightarrow>
     en_parent e = parent \<and>
     (\<exists>labels timestamps r. ok = (\<not> isl r) \<and>
       commit ser e (append_entry_locked e s\<lparr>ss_labels := labels, ss_label_timestamps := timestamps\<rparr>) d = (s', d', r))"

definition replaces_session :: "session_op \<Rightarrow> bool" where
  "replaces_session op = (case op of CreateBranched i \<Rightarrow> True | NewSession i p \<Rightarrow> True | _ \<Rightarrow> False)"

definition moves_leaf :: "session_op \<Rightarrow> bool" where
  "moves_leaf op = (case op of Branch i \<Rightarrow> True | ResetLeaf \<Rightarrow> True | BranchWithSummary b sm dt fh u \<Rightarrow> True | _ \<Rightarrow> False)"

lemma append_body_appended:
  assumes "ended (append_body ser env body s d) = (s', d', ok)"
  shows "appended ser (ss_leaf s) (new_entry env s (ss_leaf s) body) s d s' d' ok"
proof -
  obtain r where "append_body ser env body s d = (s', d', r)" "ok = (\<not> isl r)"
    using assms by (cases "append_body ser env body s d") (auto simp: ended_def)
  then show ?thesis
    unfolding appended_def append_body_def Let_def
    by (intro conjI exI [of _ "ss_labels (append_entry_locked (new_entry env s (ss_leaf s) body) s)"]
        exI [of _ "ss_label_timestamps (append_entry_locked (new_entry env s (ss_leaf s) body) s)"] exI [of _ r])
      (simp_all add: new_entry_def Let_def)
qed

lemma run_op_cases:
  assumes "run_op ser env op (s, d) = Some (s', d', ok)"
  obtains (moved) l where "\<not> replaces_session op" "s' = s\<lparr>ss_leaf := l\<rparr>" "d' = d" "\<not> moves_leaf op \<longrightarrow> l = ss_leaf s \<and> \<not> ok"
    | (appended) l body where "\<not> replaces_session op"
      "appended ser l (new_entry env (s\<lparr>ss_leaf := l\<rparr>) l body) (s\<lparr>ss_leaf := l\<rparr>) d s' d' ok"
      "\<not> moves_leaf op \<longrightarrow> l = ss_leaf s"
    | (replaced) "replaces_session op"
proof -
  have refused: thesis if "s' = s" "d' = d" "\<not> ok" "\<not> replaces_session op"
    using that moved [of "ss_leaf s"] by simp
  have app: thesis if "ended (append_body ser env body (s\<lparr>ss_leaf := l\<rparr>) d) = (s', d', ok)"
    "\<not> replaces_session op" "\<not> moves_leaf op \<longrightarrow> l = ss_leaf s" for body l
    using append_body_appended [OF that(1)] that(2,3) appended by simp
  note app_here = app [of _ "ss_leaf s", simplified]
  show thesis
  proof (cases op)
    case (AppendCompaction sm fk tb dt fh u)
    with assms show thesis
      by (cases "session_projection_of env s")
        (auto simp: append_compaction_def Let_def replaces_session_def moves_leaf_def intro: app_here)
  next
    case (AppendContextEdit t r)
    have other: "\<not> replaces_session (AppendContextEdit t r)" "\<not> moves_leaf (AppendContextEdit t r)"
      by (simp_all add: replaces_session_def moves_leaf_def)
    let ?body = "\<lambda>target. ContextEditE t (normalize_replacement (en_body target) r)"
    show thesis
    proof (cases "dict_get (ss_by_id s) t")
      case None
      with assms AppendContextEdit show thesis
        by (intro refused) (simp_all add: append_context_edit_def ended_def other)
    next
      case (Some target)
      obtain p where p: "get_branch s None = Some p"
        using assms AppendContextEdit Some by (cases "get_branch s None") (simp_all add: append_context_edit_def)
      show thesis
      proof (cases "list_ex (\<lambda>e. en_id e = t) p \<and> editable_body (en_body target)")
        case True
        then have "ended (append_body ser env (\<lambda>_. ?body target) s d) = (s', d', ok)"
          using assms AppendContextEdit Some p by (simp add: append_context_edit_def)
        then show thesis by (rule app_here) (simp_all add: other AppendContextEdit)
      next
        case False
        then show thesis using assms AppendContextEdit Some p
          by (intro refused) (auto simp: append_context_edit_def ended_def other split: if_splits)
      qed
    qed
  next
    case (AppendLabel t l)
    show thesis
    proof (cases "dict_get (ss_by_id s) t = None")
      case True
      with AppendLabel assms show thesis
        by (intro refused) (auto simp: append_label_change_def ended_def replaces_session_def)
    next
      case False
      let ?e = "new_entry env s (ss_leaf s) (\<lambda>_. LabelE t l)"
      let ?s = "set_label t l (en_timestamp ?e) (append_entry_locked ?e s)"
      obtain r where out: "commit ser ?e ?s d = (s', d', r)" "ok = (\<not> isl r)"
        using False AppendLabel assms
        by (cases "commit ser ?e ?s d") (auto simp: append_label_change_def ended_def Let_def)
      have eq: "?s = append_entry_locked ?e s\<lparr>ss_labels := ss_labels ?s, ss_label_timestamps := ss_label_timestamps ?s\<rparr>"
        by (simp add: set_label_def split: option.split)
      have "en_parent ?e = ss_leaf s" by (simp add: new_entry_def Let_def)
      moreover have "commit ser ?e (append_entry_locked ?e s\<lparr>ss_labels := ss_labels ?s,
          ss_label_timestamps := ss_label_timestamps ?s\<rparr>) d = (s', d', r)"
        using out(1) unfolding eq [symmetric] .
      ultimately have "appended ser (ss_leaf s) ?e s d s' d' ok"
        unfolding appended_def using out(2) by blast
      with appended [of "ss_leaf s" "\<lambda>_. LabelE t l"] AppendLabel show thesis
        by (simp add: replaces_session_def)
    qed
  next
    case (Branch i)
    with assms show thesis
      by (auto simp: branch_def replaces_session_def moves_leaf_def intro: moved [of "ss_leaf s"] moved [of "Some i"] split: if_splits)
  next
    case ResetLeaf
    with assms show thesis
      by (intro moved [of None]) (auto simp: reset_leaf_def replaces_session_def moves_leaf_def)
  next
    case (BranchWithSummary b sm dt fh u)
    with assms show thesis
      by (auto simp: branch_with_summary_def replaces_session_def moves_leaf_def Let_def ended_def [of "(s, d, Inl x)" for x]
          intro: app moved [of "ss_leaf s"] split: option.splits if_splits)
  qed (use assms in \<open>auto simp: append_message_def append_thinking_level_change_def append_model_change_def
      append_usage_def append_custom_entry_def append_session_info_def append_custom_message_entry_def
      replaces_session_def moves_leaf_def intro: app_here replaced\<close>)
qed

lemma appended_entries:
  assumes "appended ser l e s d s' d' ok"
  shows "get_entries s' = get_entries s @ [e]" "ss_entries s' = ss_entries s @ [EntryF e]"
    "ss_leaf s' = Some (en_id e)" "ss_by_id s' = dict_set (en_id e) e (ss_by_id s)"
    "ss_revision s' = ss_revision s + 1" "ss_file s' = ss_file s" "ss_persist s' = ss_persist s"
proof -
  from assms obtain labels timestamps r where
    c: "commit ser e (append_entry_locked e s\<lparr>ss_labels := labels, ss_label_timestamps := timestamps\<rparr>) d = (s', d', r)"
    unfolding appended_def by blast
  obtain b where s': "s' = append_entry_locked e s\<lparr>ss_labels := labels, ss_label_timestamps := timestamps\<rparr>\<lparr>ss_flushed := b\<rparr>"
    using commit_same_tree [OF c] unfolding same_tree_def by blast
  show "get_entries s' = get_entries s @ [e]" unfolding s' by simp
  show "ss_entries s' = ss_entries s @ [EntryF e]" "ss_leaf s' = Some (en_id e)"
    "ss_by_id s' = dict_set (en_id e) e (ss_by_id s)" "ss_revision s' = ss_revision s + 1" "ss_file s' = ss_file s"
    "ss_persist s' = ss_persist s"
    unfolding s' by (simp_all add: append_entry_locked_def)
qed

subsection \<open>Consequences for the branch and the history\<close>

lemma appended_branch:
  assumes ok: "session_ok s" "session_ok s'" and app: "appended ser l e s d s' d' r" and l: "l = ss_leaf s"
  shows "\<exists>p. get_branch s None = Some p \<and> get_branch s' None = Some (p @ [e])"
proof -
  have es: "get_entries s' = get_entries s @ [e]" "ss_leaf s' = Some (en_id e)" "en_parent e = ss_leaf s"
    using appended_entries [OF app] app l by (simp_all add: appended_def)
  have tree: "tree_ok (get_entries s @ [e])" using session_tree [OF ok(2)] es by simp
  have branch': "get_branch s' None = path_from (by_ids (get_entries s @ [e])) (Some e)"
  proof -
    have "dict_get (ss_by_id s') (en_id e) = Some e"
      using ok(2) es tree_ok_ids [OF tree] get_by_ids [of "get_entries s @ [e]" e] by (simp add: session_ok_def)
    moreover have "en_id e \<noteq> []" using session_id_ne [OF ok(2)] es by simp
    moreover have "ss_by_id s' = by_ids (get_entries s @ [e])" using ok(2) es by (simp add: session_ok_def)
    ultimately show ?thesis using es(2) by (simp add: get_branch_def)
  qed
  show ?thesis
  proof (cases rule: get_branch_cases [OF ok(1), of None])
    case 1
    then have "ss_leaf s = None" using session_leaf [OF ok(1)] by (auto split: option.splits)
    with path_from_root [OF tree] es(3) 1(1) branch' show ?thesis by simp
  next
    case (2 p x)
    then have "en_parent e = Some (en_id x)" using es(3) by simp
    from path_from_child [OF tree 2(3) this 2(4)] 2(1) branch' show ?thesis by simp
  qed
qed

lemma get_branch_of_id:
  "session_ok s \<Longrightarrow> e \<in> set (get_entries s) \<Longrightarrow> get_branch s (Some (en_id e)) = path_from (by_ids (get_entries s)) (Some e)"
  using session_id_ne [of s "en_id e"] tree_ok_ids [of "{}" "get_entries s"] get_by_ids [of "get_entries s" e]
  by (auto simp: get_branch_def session_ok_def)

lemma same_branches:
  assumes "session_ok s" "session_ok s'" "get_entries s' = get_entries s @ new" "i \<in> ids_of (get_entries s)"
  shows "get_branch s' (Some i) = get_branch s (Some i)"
proof -
  from assms(4) obtain e where e: "e \<in> set (get_entries s)" "en_id e = i" by auto
  then have "e \<in> set (get_entries s')" using assms(3) by simp
  with get_branch_of_id [OF assms(1) e(1)] get_branch_of_id [OF assms(2) this] e
    path_from_append [OF _ e(1), of new] session_tree [OF assms(2)] assms(3)
  show ?thesis by simp
qed

text \<open>
  C7. Every session that operations can reach, with or without failing writes, is a tree: ids are
  unique, every parent, label target and edit target is an earlier entry, the leaf is an entry, the
  index and the label maps are those of the entries, and every walk to the root ends with the path
  of linked entries in file order.
\<close>

theorem reachable_sessions_are_trees:
  assumes "reachable session_start (session_step ser) (s, d)"
  shows "session_ok s \<and> distinct (map en_id (get_entries s)) \<and>
    (\<exists>p. get_branch s from = Some p \<and> linked None p \<and> subseq p (get_entries s)) \<and>
    build_index s = s\<lparr>ss_leaf := map_option en_id (last_entry (get_entries s))\<rparr>"
proof -
  from sess.reachable_inv [OF assms] have ok: "session_ok s" by simp
  have "\<exists>p. get_branch s from = Some p \<and> linked None p \<and> subseq p (get_entries s)"
    by (cases rule: get_branch_cases [OF ok, of "from"]) auto
  moreover have "build_index s = s\<lparr>ss_leaf := map_option en_id (last_entry (get_entries s))\<rparr>"
  proof -
    have "index_entries (get_entries s) [] = ss_by_id s"
      using index_entries_by_ids [of "[]" "get_entries s"] tree_ok_ids [OF session_tree [OF ok]] ok
      by (simp add: session_ok_def)
    moreover have "replay_labels (get_entries s) = (ss_labels s, ss_label_timestamps s)"
      using ok by (simp add: session_ok_def)
    ultimately show ?thesis by (simp add: build_index_eq)
  qed
  ultimately show ?thesis using ok tree_ok_ids [OF session_tree [OF ok]] by simp
qed

text \<open>
  The history is append-only: no operation but a branched or a new session changes or removes an
  entry or the path of an existing entry, each adds at most one entry, and the revision counter
  changes exactly when an entry is added.
\<close>

theorem history_is_append_only:
  assumes "reachable session_start (session_step ser) (s, d)" "draws_ok env (ids_of (get_entries s))"
    "run_op ser env op (s, d) = Some (s', d', ok)" "\<not> replaces_session op"
  shows "\<exists>new. get_entries s' = get_entries s @ new \<and> length new \<le> 1 \<and>
    ss_revision s' = ss_revision s + length new \<and>
    list_all (\<lambda>e. get_branch s' (Some (en_id e)) = get_branch s (Some (en_id e))) (get_entries s)"
proof -
  from sess.reachable_inv [OF assms(1)] have ok: "session_ok s" by simp
  from run_op_ok [OF ok assms(2), of ser op d] assms(3) have ok': "session_ok s'" by simp
  have "\<exists>new. get_entries s' = get_entries s @ new \<and> length new \<le> 1 \<and> ss_revision s' = ss_revision s + length new"
    using assms(3)
  proof (cases rule: run_op_cases)
    case (moved l)
    then show ?thesis by (intro exI [of _ "[]"]) simp
  next
    case (appended l body)
    from appended_entries [OF appended(2)] show ?thesis by (intro exI [of _ "[_]"]) auto
  next
    case replaced
    with assms(4) show ?thesis by simp
  qed
  with same_branches [OF ok ok'] show ?thesis by (fastforce simp: list_all_iff)
qed

text \<open>
  A successful append extends the current branch by exactly its entry, which becomes the leaf,
  is the child of the old leaf, and has a fresh id.
\<close>

theorem append_extends_the_branch:
  assumes "reachable session_start (session_step ser) (s, d)" "draws_ok env (ids_of (get_entries s))"
    "run_op ser env op (s, d) = Some (s', d', True)" "\<not> replaces_session op" "\<not> moves_leaf op"
  shows "\<exists>p e. get_branch s None = Some p \<and> get_branch s' None = Some (p @ [e]) \<and>
    get_entries s' = get_entries s @ [e] \<and> en_parent e = ss_leaf s \<and> ss_leaf s' = Some (en_id e) \<and>
    en_id e \<notin> ids_of (get_entries s) \<and> en_timestamp e = ev_now env"
proof -
  from sess.reachable_inv [OF assms(1)] have ok: "session_ok s" by simp
  from run_op_ok [OF ok assms(2), of ser op d] assms(3) have ok': "session_ok s'" by simp
  show ?thesis
    using assms(3)
  proof (cases rule: run_op_cases)
    case (moved l)
    with assms(5) show ?thesis by simp
  next
    case (appended l body)
    let ?e = "new_entry env (s\<lparr>ss_leaf := l\<rparr>) l body"
    from appended(3) assms(5) have l: "l = ss_leaf s" by simp
    with appended(2) have app: "appended ser (ss_leaf s) ?e s d s' d' True" by simp
    note es = appended_entries [OF app]
    from appended_branch [OF ok ok' app refl] obtain p where
      "get_branch s None = Some p" "get_branch s' None = Some (p @ [?e])" by blast
    moreover have "en_id ?e \<notin> ids_of (get_entries s)"
      using tree_ok_ids [OF session_tree [OF ok']] es(1) by simp
    moreover have "en_parent ?e = ss_leaf s" "en_timestamp ?e = ev_now env"
      by (simp_all add: new_entry_def Let_def l)
    ultimately show ?thesis using es by blast
  next
    case replaced
    with assms(4) show ?thesis by simp
  qed
qed

subsection \<open>The file\<close>

text \<open>A flushed session's file holds exactly its entries; an unflushed one has no conversation yet.\<close>

definition file_synced :: "(file_entry \<Rightarrow> pystr) \<Rightarrow> session \<Rightarrow> disk \<Rightarrow> bool" where
  "file_synced ser s d \<longleftrightarrow>
     (case ss_file s of
        Some path \<Rightarrow> ss_persist s \<and> path \<noteq> [] \<longrightarrow>
          (if ss_flushed s then dict_get (dk_files d) path = Some (file_text ser (ss_entries s))
           else \<not> has_conversation s)
      | None \<Rightarrow> True)"

lemma file_text_append: "file_text ser (xs @ ys) = file_text ser xs @ file_text ser ys"
  by (simp add: file_text_def)

lemma write_other: "write_session_bytes d path mode payload = Inr d' \<Longrightarrow> f \<noteq> path \<Longrightarrow>
  dict_get (dk_files d') f = dict_get (dk_files d) f"
  by (auto simp: write_session_bytes_def Let_def dict_simps split: if_splits)

lemma commit_synced:
  assumes "commit ser e s d = (s', d', Inr i)" "ss_entries s = old @ [EntryF e]"
    "file_synced ser (s\<lparr>ss_entries := old\<rparr>) d"
  shows "file_synced ser s' d' \<and> (\<forall>f. ss_file s \<noteq> Some f \<longrightarrow> dict_get (dk_files d') f = dict_get (dk_files d) f)"
proof (cases "plan_persist ser s e")
  case None
  with assms have s': "s' = s" "d' = d" by (auto simp: commit_def persist_entry_def)
  from None assms(3) have "file_synced ser s d"
    by (auto simp: plan_persist_def file_synced_def split: option.splits if_splits)
  with s' show ?thesis by simp
next
  case (Some plan)
  obtain path mode payload where plan: "plan = (path, mode, payload)" by (rule prod_cases3)
  with Some assms(1) obtain d1 where w: "write_session_bytes d path mode payload = Inr d1"
    "s' = (if mode = Exclusive then s\<lparr>ss_flushed := True\<rparr> else s)" "d' = d1"
    by (auto simp: commit_def persist_entry_def split: sum.splits)
  from Some plan have p: "ss_file s = Some path" "ss_persist s" "path \<noteq> []"
    by (auto simp: plan_persist_def split: option.splits if_splits)
  have "file_synced ser s' d'"
  proof (cases "ss_flushed s")
    case True
    with Some plan p have "mode = AppendTo" "payload = file_text ser [EntryF e]"
      by (auto simp: plan_persist_def split: if_splits)
    moreover have "dict_get (dk_files d) path = Some (file_text ser old)"
      using assms(3) p True by (simp add: file_synced_def)
    ultimately show ?thesis
      using w p True assms(2)
      by (auto simp: file_synced_def write_session_bytes_def Let_def dict_simps file_text_append split: if_splits)
  next
    case False
    with Some plan p have "mode = Exclusive" "payload = file_text ser (ss_entries s)"
      by (auto simp: plan_persist_def split: if_splits)
    with w p show ?thesis
      by (auto simp: file_synced_def write_session_bytes_def Let_def dict_simps split: if_splits)
  qed
  moreover have "\<forall>f. ss_file s \<noteq> Some f \<longrightarrow> dict_get (dk_files d') f = dict_get (dk_files d) f"
    using write_other [OF w(1)] w(3) p by auto
  ultimately show ?thesis by blast
qed

lemma file_synced_cong:
  "ss_file s' = ss_file s \<Longrightarrow> ss_persist s' = ss_persist s \<Longrightarrow> ss_flushed s' = ss_flushed s \<Longrightarrow>
   ss_entries s' = ss_entries s \<Longrightarrow> file_synced ser s' d = file_synced ser s d"
  by (simp add: file_synced_def has_conversation_def split: option.split)

lemma build_index_fields [simp]:
  "ss_file (build_index s) = ss_file s" "ss_persist (build_index s) = ss_persist s"
  "ss_entries (build_index s) = ss_entries s" "ss_flushed (build_index s) = ss_flushed s"
  by (simp_all add: build_index_eq)

lemma create_branched_synced:
  assumes "create_branched_session ser env i s d = Some (s', d', Inr x)"
  shows "file_synced ser s' d' \<and> (\<forall>f. ss_file s' \<noteq> Some f \<longrightarrow> dict_get (dk_files d') f = dict_get (dk_files d) f)"
proof -
  obtain p es where p: "get_branch s (Some i) = Some p" "p \<noteq> []" "branched_entries env s p = Inr es"
    using assms by (auto simp: create_branched_session_def split: option.splits if_splits sum.splits)
  define target where "target = session_file_name (ss_dir s) (ev_now env) (ev_uuidv7 env)"
  define s2 where "s2 = (build_index (s\<lparr>ss_entries := HeaderF \<lparr>hdr_version = CURRENT_SESSION_VERSION, hdr_id = ev_uuidv7 env,
      hdr_timestamp = ev_now env, hdr_cwd = ss_cwd s, hdr_parent_session = (if ss_persist s then ss_file s else None)\<rparr>
      # map EntryF es, ss_revision := ss_revision s + 1, ss_id := ev_uuidv7 env,
      ss_file := (if ss_persist s then Some target else ss_file s)\<rparr>))\<lparr>ss_flushed := False\<rparr>"
  have f: "ss_persist s2 = ss_persist s" "ss_persist s \<Longrightarrow> ss_file s2 = Some target" "\<not> ss_flushed s2"
    by (simp_all add: s2_def)
  show ?thesis
  proof (cases "ss_persist s")
    case False
    with assms p have "d' = d" "\<not> ss_persist s'"
      by (auto simp: create_branched_session_def Let_def)
    then show ?thesis by (simp add: file_synced_def split: option.split)
  next
    case True
    have out: "create_branched_session ser env i s d = Some
       (if \<not> has_conversation s2 then (s2, d, Inr (Some target))
        else case write_session_bytes d target Rewrite (file_text ser (ss_entries s2)) of
               Inl err \<Rightarrow> (s2, d, Inl err) | Inr d' \<Rightarrow> (s2\<lparr>ss_flushed := True\<rparr>, d', Inr (Some target)))"
      unfolding create_branched_session_def p(1)
      by (simp only: option.case p(2,3) sum.case Let_def if_False if_True True not_True_eq_False s2_def target_def)
    show ?thesis
    proof (cases "has_conversation s2")
      case False
      with assms out f have "s' = s2" "d' = d" by auto
      with False f show ?thesis by (simp add: file_synced_def split: option.split)
    next
      case conv: True
      with assms out obtain d1 where w: "write_session_bytes d target Rewrite (file_text ser (ss_entries s2)) = Inr d1"
        "s' = s2\<lparr>ss_flushed := True\<rparr>" "d' = d1"
        by (auto split: sum.splits)
      have "dict_get (dk_files d1) target = Some (file_text ser (ss_entries s2))"
        using w(1) by (auto simp: write_session_bytes_def Let_def dict_simps split: if_splits)
      with w f(2) [OF True] write_other [OF w(1)] show ?thesis by (auto simp: file_synced_def)
    qed
  qed
qed

text \<open>
  C15. Persistence: as long as writes succeed, the session file is the text of all entries in order
  from the first user or assistant message on (before it there is no file to keep in step), after
  every operation, and no operation touches a file that is not the session's own before or after it.
\<close>

theorem session_file_follows_the_entries:
  assumes "run_op ser env op (s, d) = Some (s', d', True)" "file_synced ser s d"
  shows "file_synced ser s' d' \<and>
    (ss_file s \<noteq> Some f \<and> ss_file s' \<noteq> Some f \<longrightarrow> dict_get (dk_files d') f = dict_get (dk_files d) f)"
  using assms(1)
proof (cases rule: run_op_cases)
  case (moved l)
  with assms(2) file_synced_cong [of s' s ser d] show ?thesis by simp
next
  case (appended l body)
  let ?e = "new_entry env (s\<lparr>ss_leaf := l\<rparr>) l body"
  from appended(2) obtain labels timestamps r where
    c: "commit ser ?e (append_entry_locked ?e (s\<lparr>ss_leaf := l\<rparr>)\<lparr>ss_labels := labels, ss_label_timestamps := timestamps\<rparr>) d
      = (s', d', r)" "\<not> isl r"
    unfolding appended_def by auto
  then obtain i where r: "r = Inr i" by (cases r) auto
  from commit_synced [OF c(1) [unfolded r], of "ss_entries s"] assms(2)
    file_synced_cong [of "append_entry_locked ?e (s\<lparr>ss_leaf := l\<rparr>)\<lparr>ss_labels := labels,
      ss_label_timestamps := timestamps, ss_entries := ss_entries s\<rparr>" s ser d]
  show ?thesis by (simp add: append_entry_locked_def)
next
  case replaced
  show ?thesis
  proof (cases op)
    case (CreateBranched i)
    with assms(1) obtain x where "create_branched_session ser env i s d = Some (s', d', Inr x)"
      by (auto simp: ended_def isl_def split: prod.splits) (metis sum.exhaust_sel)
    from create_branched_synced [OF this] show ?thesis by blast
  next
    case (NewSession i p)
    with assms(1) obtain r where r: "new_session env i p s = (s', r)" "\<not> isl r" "d' = d"
      by (auto split: prod.splits)
    from new_session_cases [OF r(1)] r(2,3) show ?thesis
      by (auto simp: file_synced_def has_conversation_def split: option.split)
  qed (use replaced in \<open>simp_all add: replaces_session_def\<close>)
qed

subsection \<open>Labels\<close>

definition labels_entry :: "pystr \<Rightarrow> entry \<Rightarrow> bool" where
  "labels_entry t e \<longleftrightarrow> (case en_body e of LabelE u l \<Rightarrow> u = t | _ \<Rightarrow> False)"

fun label_of :: "entry \<Rightarrow> pystr option" where
  "label_of e = (case en_body e of LabelE u l \<Rightarrow> truthy_label l | _ \<Rightarrow> None)"

declare label_of.simps [simp del]

lemma replay_labels_last:
  "dict_get (fst (replay_labels es)) t = Option.bind (find (labels_entry t) (rev es)) label_of \<and>
   dict_get (snd (replay_labels es)) t =
     (case find (labels_entry t) (rev es) of None \<Rightarrow> None | Some e \<Rightarrow> map_option (\<lambda>_. en_timestamp e) (label_of e))"
proof (induction es rule: rev_induct)
  case Nil
  then show ?case by (simp add: replay_labels_def)
next
  case (snoc e es)
  obtain ls ts where lt: "replay_labels es = (ls, ts)" by force
  with snoc show ?case
    by (cases "en_body e")
      (auto simp: replay_labels_snoc labels_entry_def label_of.simps dict_simps split: option.splits)
qed

text \<open>
  The label of an entry in any reachable session is what the last label entry naming it says
  (an empty or absent label clears it), and its timestamp is that entry's.
\<close>

theorem label_is_the_last_label_entry:
  assumes "reachable session_start (session_step ser) (s, d)"
  shows "get_label s t = Option.bind (find (labels_entry t) (rev (get_entries s))) label_of \<and>
    dict_get (ss_label_timestamps s) t =
      (case find (labels_entry t) (rev (get_entries s)) of
         None \<Rightarrow> None | Some e \<Rightarrow> map_option (\<lambda>_. en_timestamp e) (label_of e))"
proof -
  from sess.reachable_inv [OF assms] have "(ss_labels s, ss_label_timestamps s) = replay_labels (get_entries s)"
    by (simp add: session_ok_def)
  with replay_labels_last [of "get_entries s" t] show ?thesis
    by (metis fst_conv get_label_def snd_conv)
qed

subsection \<open>The prompt survives a compaction\<close>

lemma edit_content_system: "is_system_msg (edit_content c m) = is_system_msg m"
  by (cases m) auto

lemma context_message_system: "is_system_msg (context_message m) = raw_system m"
  by (cases m rule: context_message.cases) auto

lemma plain_messages_no_system:
  assumes "\<not> is_system_entry (en_body e)"
  shows "system_messages (plain_messages epoch edits e) = []"
proof (rule system_messages_none, rule ballI)
  fix m assume "m \<in> set (plain_messages epoch edits e)"
  with assms show "\<not> is_system_msg m"
    by (cases "en_body e")
      (auto simp: plain_messages_def project_context_entry_def session_entry_to_context_messages_def Let_def
        create_custom_message_def create_branch_summary_message_def context_message_system edit_content_system
        split: option.splits if_splits)
qed

lemma system_messages_concat: "\<forall>ms \<in> set mss. system_messages ms = [] \<Longrightarrow> system_messages (concat mss) = []"
  by (induction mss) auto

definition projected_messages :: "(pystr \<Rightarrow> int) \<Rightarrow> entry list \<Rightarrow> message list" where
  "projected_messages epoch path = concat (map pe_messages (project_entries epoch (select_context_entries path)))"

lemma projection_of_branch:
  "session_ok s \<Longrightarrow> get_branch s None = Some p \<Longrightarrow> session_projection_of env s = Some pr \<Longrightarrow>
   sp_messages pr = projected_messages (ev_epoch env) p"
  by (auto simp: session_projection_of_def build_session_projection_def build_session_path_manager projected_messages_def
      Let_def split: prod.splits)

lemma no_edit_of_fresh:
  "\<forall>e \<in> set es. t \<notin> set (body_target (en_body e)) \<Longrightarrow> dict_get (collect_edits es) t = None"
proof -
  assume "\<forall>e \<in> set es. t \<notin> set (body_target (en_body e))"
  then have "filter (edits_target t) es = []"
    by (auto simp: filter_empty_conv edits_target.simps split: entry_body.splits)
  then show ?thesis using edits_of_filter [of es t] by (simp add: collect_edits_def)
qed

lemma projected_compaction:
  assumes "tree_ok (es @ [c])" "subseq p es" "en_body c = CompactionE cb"
  shows "projected_messages epoch (p @ [c]) =
    ((case cb_system cb of None \<Rightarrow> [] | Some m \<Rightarrow> [SystemMsg m]) @
     [create_compaction_summary_message epoch (cb_summary cb) (cb_tokens_before cb) (en_timestamp c)]) @
    (let kept = filter not_system (from_first_kept (cb_first_kept cb) p)
     in concat (map (plain_messages epoch (collect_edits (c # kept))) kept))"
proof -
  have sub: "subseq (p @ [c]) (es @ [c])" using assms(2) by (simp add: list_emb_append_mono)
  have dist: "distinct (map en_id (p @ [c]))"
    using subseq_distinct_list [OF subseq_map [OF sub, of en_id]] tree_ok_ids [OF assms(1)] by simp
  let ?kept = "filter not_system (from_first_kept (cb_first_kept cb) p)"
  have sel: "select_context_entries (p @ [c]) = c # ?kept"
    using select_at_compaction [of p c "[]"] dist assms(3) by simp
  have "\<forall>e \<in> set (c # ?kept). en_id c \<notin> set (body_target (en_body e))"
  proof
    fix e assume "e \<in> set (c # ?kept)"
    then have "e \<in> set (p @ [c])" by (auto simp: from_first_kept_def dest: set_dropWhileD)
    then have e: "e \<in> set (es @ [c])" using sub subseq_set_subset by blast
    show "en_id c \<notin> set (body_target (en_body e))"
    proof
      assume t: "en_id c \<in> set (body_target (en_body e))"
      from e consider "e = c" | "e \<in> set es" by auto
      then show False
      proof cases
        case 1
        with t assms(3) show ?thesis by simp
      next
        case 2
        have "tree_ok_from seen xs \<Longrightarrow> x \<in> set xs \<Longrightarrow> set (body_target (en_body x)) \<subseteq> seen \<union> ids_of xs" for seen xs x
          by (induction xs arbitrary: seen) (auto simp: entry_fits_def)
        from this [of "{}" es e] 2 assms(1) t show ?thesis by (auto simp: tree_ok_snoc entry_fits_def)
      qed
    qed
  qed
  from no_edit_of_fresh [OF this]
  have first: "project_context_entry epoch c (dict_get (collect_edits (c # ?kept)) (en_id c)) =
      (case cb_system cb of None \<Rightarrow> [] | Some m \<Rightarrow> [SystemMsg m]) @
      [create_compaction_summary_message epoch (cb_summary cb) (cb_tokens_before cb) (en_timestamp c)]"
    by (auto simp: project_context_entry_def session_entry_to_context_messages_def assms(3) Let_def split: option.split)
  moreover have "projected_messages epoch (p @ [c]) =
      project_context_entry epoch c (dict_get (collect_edits (c # ?kept)) (en_id c)) @
      concat (map (plain_messages epoch (collect_edits (c # ?kept))) ?kept)"
    by (simp add: projected_messages_def sel project_entries_Cons comp_def)
  ultimately show ?thesis by (simp only: Let_def)
qed

lemma projected_after_compaction:
  assumes "tree_ok (es @ [c])" "subseq p es" "en_body c = CompactionE cb"
  shows "\<exists>rest. system_messages rest = [] \<and> projected_messages epoch (p @ [c]) =
    (case cb_system cb of None \<Rightarrow> [] | Some m \<Rightarrow> [SystemMsg m]) @
    create_compaction_summary_message epoch (cb_summary cb) (cb_tokens_before cb) (en_timestamp c) # rest"
proof -
  let ?kept = "filter not_system (from_first_kept (cb_first_kept cb) p)"
  let ?rest = "concat (map (plain_messages epoch (collect_edits (c # ?kept))) ?kept)"
  have "system_messages ?rest = []"
    by (rule system_messages_concat) (auto simp: plain_messages_no_system)
  with projected_compaction [OF assms, of epoch] show ?thesis by (auto simp: Let_def)
qed

text \<open>
  C4. A compaction keeps the system prompt and the tools: after \<open>append_compaction\<close> the context
  replays to the system message it replayed to before, with the compaction's time as timestamp, and
  declares the same tools, whatever was summarized away and wherever the kept range begins.
\<close>

theorem compaction_keeps_the_prompt:
  assumes "reachable session_start (session_step ser) (s, d)" "draws_ok env (ids_of (get_entries s))"
    "append_compaction ser env summary first_kept tokens_before details from_hook usage s d = Some (s', d', Inr i)"
  shows "\<exists>before after. session_context_of env s = Some before \<and> session_context_of env s' = Some after \<and>
    get_current_system_message (sc_messages after) =
      map_option (\<lambda>m. m\<lparr>sm_timestamp := ev_epoch env (ev_now env)\<rparr>) (get_current_system_message (sc_messages before)) \<and>
    get_current_tools (sc_messages after) = get_current_tools (sc_messages before)"
proof -
  from sess.reachable_inv [OF assms(1)] have ok: "session_ok s" by simp
  have run: "run_op ser env (AppendCompaction summary first_kept tokens_before details from_hook usage) (s, d) = Some (s', d', True)"
    using assms(3) by (simp add: ended_def)
  have ok': "session_ok s'" using run_op_ok [OF ok assms(2)] run by (metis option.inject prod.inject)
  obtain pr where pr: "session_projection_of env s = Some pr" using session_projection_returns [OF ok] by blast
  obtain pr' where pr': "session_projection_of env s' = Some pr'" using session_projection_returns [OF ok'] by blast
  let ?cur = "get_current_system_message (sp_messages pr)"
  let ?t = "ev_epoch env (ev_now env)"
  let ?cb = "\<lambda>i. \<lparr>cb_summary = summary, cb_first_kept = Some (case first_kept of Some k \<Rightarrow> k | None \<Rightarrow> i),
      cb_tokens_before = tokens_before, cb_details = details, cb_usage = usage, cb_from_hook = from_hook,
      cb_system = map_option (\<lambda>m. m\<lparr>sm_timestamp := ?t\<rparr>) ?cur\<rparr>"
  let ?c = "new_entry env s (ss_leaf s) (\<lambda>i. CompactionE (?cb i))"
  have "ended (append_body ser env (\<lambda>i. CompactionE (?cb i)) s d) = (s', d', True)"
    using assms(3) pr by (simp add: append_compaction_def Let_def ended_def)
  from append_body_appended [OF this] have app: "appended ser (ss_leaf s) ?c s d s' d' True" .
  from appended_branch [OF ok ok' app refl] obtain p where
    p: "get_branch s None = Some p" "get_branch s' None = Some (p @ [?c])" by blast
  obtain cid where body: "en_body ?c = CompactionE (?cb cid)" by (simp add: new_entry_def Let_def)
  have tree: "tree_ok (get_entries s @ [?c])"
    using session_tree [OF ok'] appended_entries(1) [OF app] by simp
  have sub: "subseq p (get_entries s)"
    by (cases rule: get_branch_cases [OF ok, of None]) (use p(1) in auto)
  from projected_after_compaction [OF tree sub body, of "ev_epoch env"] obtain rest where
    rest: "system_messages rest = []" "sp_messages pr' =
      (case map_option (\<lambda>m. m\<lparr>sm_timestamp := ?t\<rparr>) ?cur of None \<Rightarrow> [] | Some m \<Rightarrow> [SystemMsg m]) @
      create_compaction_summary_message (ev_epoch env) summary tokens_before (en_timestamp ?c) # rest"
    using projection_of_branch [OF ok' p(2) pr'] by auto
  let ?rest = "create_compaction_summary_message (ev_epoch env) summary tokens_before (en_timestamp ?c) # rest"
  have sys: "system_messages ?rest = []" using rest(1) by (simp add: create_compaction_summary_message_def)
  have "get_current_system_message (sp_messages pr') = map_option (\<lambda>m. m\<lparr>sm_timestamp := ?t\<rparr>) ?cur \<and>
      get_current_tools (sp_messages pr') = get_current_tools (sp_messages pr)"
  proof (cases ?cur)
    case None
    then have "get_current_tools (sp_messages pr) = []"
      by (auto simp: get_current_system_message_def Let_def split: prod.splits if_splits)
    then show ?thesis
      using None sys unfolding rest(2)
      by (simp add: get_current_system_message_def get_current_tools_def)
  next
    case (Some h)
    from replay_of_current [OF Some sys, of ?t] show ?thesis unfolding rest(2) using Some by simp
  qed
  then show ?thesis using pr pr' by (auto simp: session_context_of_def)
qed

end
