(* ===== verification/Session_Branching.thy ===== *)
theory Session_Branching
  imports Session_Manager
begin

text \<open>What \<open>create_branched_session\<close> of \<open>session_manager.py\<close> keeps. It copies the path to a leaf into a
  new session without the label entries, reconnects the parents, redirects the first kept entry of
  a compaction that pointed at a dropped label, and writes the labels of the kept entries again at
  the end. The context built from the copy is the context built from the original path.\<close>

section \<open>A branched session has the context of its path\<close>

abbreviation unlabeled :: "entry list \<Rightarrow> entry list" where
  "unlabeled es \<equiv> filter (\<lambda>e. \<not> is_label (en_body e)) es"

text \<open>Pending labels and replacements after a part of the path.\<close>

fun label_state :: "pystr list \<Rightarrow> (pystr, pystr) dict \<Rightarrow> entry list \<Rightarrow> pystr list \<times> (pystr, pystr) dict" where
  "label_state pending m [] = (pending, m)"
| "label_state pending m (e # es) =
    (if is_label (en_body e) then label_state (pending @ [en_id e]) m es
     else label_state [] (fold (\<lambda>l. dict_set l (en_id e)) pending m) es)"

text \<open>The entry an id is replaced by when the next entry kept is \<open>c\<close>.\<close>

definition replaced_by :: "entry list \<Rightarrow> pystr \<Rightarrow> pystr \<Rightarrow> pystr" where
  "replaced_by xs c k =
    (case dict_get (fold (\<lambda>l. dict_set l c) (fst (label_state [] [] xs)) (snd (label_state [] [] xs))) k of
       Some r \<Rightarrow> r | None \<Rightarrow> k)"

lemma get_fold_set: "dict_get (fold (\<lambda>l. dict_set l c) ks m) k = (if k \<in> set ks then Some c else dict_get m k)"
  by (induction ks arbitrary: m) (auto simp: dict_simps)

lemma label_state_append: "label_state pending m (xs @ ys) = (case label_state pending m xs of (p, m') \<Rightarrow> label_state p m' ys)"
  by (induction pending m xs rule: label_state.induct) auto

lemma replaced_by_snoc:
  "replaced_by (xs @ [e]) c k =
    (if is_label (en_body e) then (if k = en_id e then c else replaced_by xs c k) else replaced_by xs (en_id e) k)"
  by (cases "label_state [] [] xs") (auto simp: replaced_by_def label_state_append get_fold_set)

lemma from_first_kept_append:
  "from_first_kept (Some k) (xs @ ys) =
    (if k \<in> ids_of xs then from_first_kept (Some k) xs @ ys else from_first_kept (Some k) ys)"
  unfolding from_first_kept_def by (auto simp: dropWhile_append image_iff)

lemma from_first_kept_none: "k \<notin> ids_of xs \<Longrightarrow> from_first_kept (Some k) xs = []"
  unfolding from_first_kept_def by (auto simp: image_iff)

lemma replaced_by_spec:
  assumes "distinct (map en_id xs)" "c \<notin> ids_of xs"
  shows "(k \<notin> ids_of xs \<longrightarrow> replaced_by xs c k = k) \<and>
    (k \<in> ids_of xs \<longrightarrow> replaced_by xs c k \<in> insert c (ids_of (unlabeled xs))) \<and>
    unlabeled (from_first_kept (Some k) xs) = from_first_kept (Some (replaced_by xs c k)) (unlabeled xs)"
  using assms
proof (induction xs arbitrary: c rule: rev_induct)
  case Nil
  then show ?case by (simp add: replaced_by_def from_first_kept_def)
next
  case (snoc e xs)
  have d: "distinct (map en_id xs)" "c \<notin> ids_of xs" "en_id e \<notin> ids_of xs" "c \<noteq> en_id e"
    using snoc.prems by auto
  note IHc = snoc.IH [OF d(1,2)] and IHe = snoc.IH [OF d(1,3)]
  show ?case
  proof (cases "is_label (en_body e)")
    case True
    show ?thesis
    proof (cases "k = en_id e")
      case k: True
      have "from_first_kept (Some c) (unlabeled xs) = []" using d(2) by (intro from_first_kept_none) auto
      moreover have "from_first_kept (Some k) (xs @ [e]) = [e]"
        using d(3) k by (simp add: from_first_kept_append) (simp add: from_first_kept_def)
      ultimately show ?thesis using True k d by (simp add: replaced_by_snoc)
    next
      case False
      then have "unlabeled (from_first_kept (Some k) (xs @ [e])) = unlabeled (from_first_kept (Some k) xs)"
        using True from_first_kept_none [of k xs] by (auto simp: from_first_kept_append) (simp add: from_first_kept_def)
      with False True IHc show ?thesis by (simp add: replaced_by_snoc)
    qed
  next
    case False
    let ?r = "replaced_by xs (en_id e) k"
    have r: "replaced_by (xs @ [e]) c k = ?r" using False by (simp add: replaced_by_snoc)
    consider (before) "k \<in> ids_of xs" | (here) "k = en_id e" "k \<notin> ids_of xs" | (absent) "k \<notin> ids_of (xs @ [e])" by auto
    then have "unlabeled (from_first_kept (Some k) (xs @ [e])) = from_first_kept (Some ?r) (unlabeled xs @ [e])"
    proof cases
      case before
      then have "?r = en_id e \<or> ?r \<in> ids_of (unlabeled xs)" using IHe by auto
      then have "from_first_kept (Some ?r) (unlabeled xs @ [e]) = from_first_kept (Some ?r) (unlabeled xs) @ [e]"
      proof
        assume q: "?r = en_id e"
        have "en_id e \<notin> ids_of (unlabeled xs)" using d(3) by auto
        with q show ?thesis using from_first_kept_none [of "en_id e" "unlabeled xs"]
          by (simp add: from_first_kept_append) (simp add: from_first_kept_def)
      qed (simp add: from_first_kept_append)
      moreover have "from_first_kept (Some k) (xs @ [e]) = from_first_kept (Some k) xs @ [e]"
        using before by (simp add: from_first_kept_append)
      ultimately show ?thesis using IHe False by simp
    next
      case here
      have "en_id e \<notin> ids_of (unlabeled xs)" using d(3) by auto
      with here IHe False show ?thesis
        by (simp add: from_first_kept_append) (simp add: from_first_kept_def)
    next
      case absent
      then have "?r = k" "k \<notin> ids_of (unlabeled xs @ [e])" using IHe by auto
      with absent show ?thesis using from_first_kept_none by simp
    qed
    moreover have "(k \<notin> ids_of (xs @ [e]) \<longrightarrow> ?r = k) \<and>
        (k \<in> ids_of (xs @ [e]) \<longrightarrow> ?r \<in> insert c (ids_of (unlabeled (xs @ [e]))))"
      using IHe False by auto
    ultimately show ?thesis using False r by simp
  qed
qed

text \<open>The same entry but for its parent and, on a compaction, the first kept id.\<close>

fun same_body :: "entry_body \<Rightarrow> entry_body \<Rightarrow> bool" where
  "same_body (CompactionE c) b = (\<exists>k. b = CompactionE (c\<lparr>cb_first_kept := k\<rparr>))"
| "same_body a b = (a = b)"

definition same_entry :: "entry \<Rightarrow> entry \<Rightarrow> bool" where
  "same_entry e e' \<longleftrightarrow> en_id e' = en_id e \<and> en_timestamp e' = en_timestamp e \<and> same_body (en_body e) (en_body e')"

lemma same_body_cases:
  "same_body b b' \<Longrightarrow> b' = b \<or> (\<exists>c k. b = CompactionE c \<and> b' = CompactionE (c\<lparr>cb_first_kept := k\<rparr>))"
  by (cases b) simp_all

lemma same_body_refl: "\<not> is_compaction b \<Longrightarrow> same_body b b"
  by (cases b) simp_all

lemma same_entry_facts:
  assumes "same_entry e e'"
  shows "session_entry_to_context_messages epoch e' = session_entry_to_context_messages epoch e"
    "is_compaction (en_body e') = is_compaction (en_body e)" "is_system_entry (en_body e') = is_system_entry (en_body e)"
    "record_edit (en_body e') = record_edit (en_body e)" "apply_setting (en_body e') = apply_setting (en_body e)"
    "is_label (en_body e') = is_label (en_body e)"
proof -
  have comp: "record_edit (CompactionE c) = record_edit (CompactionE c')" "apply_setting (CompactionE c) = apply_setting (CompactionE c')"
    for c c' by (simp_all add: fun_eq_iff)
  have ts: "en_timestamp e' = en_timestamp e" using assms by (simp add: same_entry_def)
  from assms consider "en_body e' = en_body e"
    | c k where "en_body e = CompactionE c" "en_body e' = CompactionE (c\<lparr>cb_first_kept := k\<rparr>)"
    using same_body_cases unfolding same_entry_def by blast
  then have "session_entry_to_context_messages epoch e' = session_entry_to_context_messages epoch e \<and>
    is_compaction (en_body e') = is_compaction (en_body e) \<and> is_system_entry (en_body e') = is_system_entry (en_body e) \<and>
    record_edit (en_body e') = record_edit (en_body e) \<and> apply_setting (en_body e') = apply_setting (en_body e) \<and>
    is_label (en_body e') = is_label (en_body e)"
  proof cases
    case 1
    then show ?thesis by (simp only: session_entry_to_context_messages_def ts simp_thms)
  next
    case (2 c k)
    have "session_entry_to_context_messages epoch e' = session_entry_to_context_messages epoch e"
      by (simp add: session_entry_to_context_messages_def ts 2)
    with comp [of c "c\<lparr>cb_first_kept := k\<rparr>"] 2 show ?thesis
      by (simp only: is_compaction.simps is_system_entry.simps is_label.simps simp_thms)
  qed
  then show "session_entry_to_context_messages epoch e' = session_entry_to_context_messages epoch e"
    "is_compaction (en_body e') = is_compaction (en_body e)" "is_system_entry (en_body e') = is_system_entry (en_body e)"
    "record_edit (en_body e') = record_edit (en_body e)" "apply_setting (en_body e') = apply_setting (en_body e)"
    "is_label (en_body e') = is_label (en_body e)"
    by blast+
qed

lemma remap_same:
  assumes "remap_first_kept m i b = Inr b'" "\<not> is_label b"
  shows "same_body b b' \<and>
   (is_compaction b \<longrightarrow> (\<exists>k. first_kept_of b = Some k \<and>
      first_kept_of b' = Some (if k = i then i else case dict_get m k of Some r \<Rightarrow> r | None \<Rightarrow> k)))"
proof (cases "is_compaction b")
  case True
  then obtain c where b: "b = CompactionE c" by (cases b) simp_all
  with assms obtain k where k: "cb_first_kept c = Some k" by (cases "cb_first_kept c") simp_all
  with assms b have "b' = CompactionE (c\<lparr>cb_first_kept := Some (if k = i then i else case dict_get m k of Some r \<Rightarrow> r | None \<Rightarrow> k)\<rparr>)"
    by simp
  with b k show ?thesis by auto
next
  case False
  then have "b' = b" using assms by (cases b) simp_all
  with False same_body_refl show ?thesis by simp
qed

lemma strip_labels_split:
  "strip_labels par pending m (xs @ ys) = Inr K \<Longrightarrow>
   \<exists>Kx Ky par'. K = Kx @ Ky \<and> list_all2 same_entry (unlabeled xs) Kx \<and>
     strip_labels par' (fst (label_state pending m xs)) (snd (label_state pending m xs)) ys = Inr Ky"
proof (induction pending m xs arbitrary: par K rule: label_state.induct)
  case (1 pending m)
  then show ?case by (intro exI [of _ "[]"] exI [of _ K]) auto
next
  case (2 pending m e es)
  show ?case
  proof (cases "is_label (en_body e)")
    case True
    with 2 show ?thesis by simp
  next
    case False
    let ?m = "fold (\<lambda>l. dict_set l (en_id e)) pending m"
    from False "2.prems" obtain b rest where
      b: "remap_first_kept ?m (en_id e) (en_body e) = Inr b" and
      rest: "strip_labels (Some (en_id e)) [] ?m (es @ ys) = Inr rest" and
      K: "K = e\<lparr>en_parent := par, en_body := b\<rparr> # rest"
      by (auto simp: Let_def split: sum.splits)
    from "2.IH"(2) [OF False rest] obtain Kx Ky par' where
      "rest = Kx @ Ky" "list_all2 same_entry (unlabeled es) Kx"
      "strip_labels par' (fst (label_state [] ?m es)) (snd (label_state [] ?m es)) ys = Inr Ky" by blast
    moreover have "same_entry e (e\<lparr>en_parent := par, en_body := b\<rparr>)"
      using remap_same [OF b False] by (simp add: same_entry_def)
    ultimately show ?thesis using False K
      by (intro exI [of _ "e\<lparr>en_parent := par, en_body := b\<rparr> # Kx"] exI [of _ Ky] exI [of _ par']) simp
  qed
qed


subsection \<open>Messages of corresponding entries\<close>

lemma all2_same_map:
  assumes "list_all2 same_entry es fs" "\<And>e f. same_entry e f \<Longrightarrow> g f = g e"
  shows "map g fs = map g es"
  using assms(1) by induction (auto simp: assms(2))

lemma same_filter:
  "list_all2 same_entry es fs \<Longrightarrow> list_all2 same_entry (filter not_system es) (filter not_system fs)"
  by (induction rule: list_all2_induct) (auto simp: same_entry_facts)

lemma same_from_first_kept:
  "list_all2 same_entry es fs \<Longrightarrow> list_all2 same_entry (from_first_kept k es) (from_first_kept k fs)"
  unfolding from_first_kept_def by (induction rule: list_all2_induct) (auto simp: same_entry_def)

lemma collect_edits_same: "list_all2 same_entry es fs \<Longrightarrow> collect_edits fs = collect_edits es"
proof -
  assume "list_all2 same_entry es fs"
  then have "fold (\<lambda>e. record_edit (en_body e)) fs d = fold (\<lambda>e. record_edit (en_body e)) es d" for d
    by (induction arbitrary: d rule: list_all2_induct) (auto simp: same_entry_facts)
  then show ?thesis by (simp add: collect_edits_def)
qed

lemma collect_edits_unlabeled: "collect_edits (unlabeled es) = collect_edits es"
proof (induction es rule: rev_induct)
  case (snoc e es)
  then show ?case by (cases "en_body e") (simp_all add: collect_edits_snoc)
qed simp

lemma settings_unlabeled: "get_session_context_settings (unlabeled es) = get_session_context_settings es"
proof (induction es rule: rev_induct)
  case (snoc e es)
  obtain t m where tm: "get_session_context_settings es = (t, m)" by force
  with snoc show ?case by (cases "en_body e") (simp_all add: get_session_context_settings_def)
qed simp

lemma settings_same: "list_all2 same_entry es fs \<Longrightarrow> get_session_context_settings fs = get_session_context_settings es"
proof -
  assume "list_all2 same_entry es fs"
  then have "fold (\<lambda>e. apply_setting (en_body e)) fs d = fold (\<lambda>e. apply_setting (en_body e)) es d" for d
    by (induction arbitrary: d rule: list_all2_induct) (auto simp: same_entry_facts)
  then show ?thesis by (simp add: get_session_context_settings_def)
qed

definition messages_with :: "(pystr \<Rightarrow> int) \<Rightarrow> (pystr, content option) dict \<Rightarrow> entry list \<Rightarrow> message list" where
  "messages_with epoch edits es = concat (map (plain_messages epoch edits) es)"

lemma messages_same: "list_all2 same_entry es fs \<Longrightarrow> messages_with epoch edits fs = messages_with epoch edits es"
  unfolding messages_with_def
  by (rule arg_cong [of _ _ concat], rule all2_same_map)
    (auto simp: plain_messages_def project_context_entry_def same_entry_facts same_entry_def)

lemma label_messages: "is_label (en_body e) \<Longrightarrow> plain_messages epoch edits e = []"
  by (cases "en_body e")
    (auto simp: plain_messages_def project_context_entry_def session_entry_to_context_messages_def split: option.split)

lemma messages_unlabeled: "messages_with epoch edits (unlabeled es) = messages_with epoch edits es"
  unfolding messages_with_def by (induction es) (auto simp: label_messages)

lemma projected_no_compaction:
  assumes "\<forall>e \<in> set p. \<not> is_compaction (en_body e)"
  shows "projected_messages epoch p = messages_with epoch (collect_edits p) p"
proof -
  have "map pe_messages (project_entries epoch p) = map (plain_messages epoch (collect_edits p)) p"
    using assms by (cases p) (auto simp: project_entries_Cons plain_messages_def comp_def, simp add: project_entries_def)
  then show ?thesis using assms
    by (simp add: projected_messages_def select_no_compaction messages_with_def)
qed

lemma projected_at_compaction:
  assumes "distinct (map en_id (xs @ c # ys))" "is_compaction (en_body c)" "\<forall>e \<in> set ys. \<not> is_compaction (en_body e)"
  shows "projected_messages epoch (xs @ c # ys) =
    (let kept = filter not_system (from_first_kept (first_kept_of (en_body c)) xs) @ ys; edits = collect_edits kept
     in project_context_entry epoch c (dict_get edits (en_id c)) @ messages_with epoch edits kept)"
proof -
  have "collect_edits (c # es) = collect_edits es" for es
    using assms(2) by (cases "en_body c") (auto simp: collect_edits_def)
  then show ?thesis
    unfolding projected_messages_def select_at_compaction [OF assms] Let_def
    by (simp only: project_entries_Cons list.map concat.simps projected_entry.simps messages_with_def map_map comp_def)
qed


lemma corresponding:
  assumes "list_all2 same_entry (unlabeled es) (unlabeled fs)"
  shows "collect_edits fs = collect_edits es" "messages_with epoch edits fs = messages_with epoch edits es"
    "get_session_context_settings fs = get_session_context_settings es"
  using collect_edits_same [OF assms] messages_same [OF assms] settings_same [OF assms]
  by (simp_all add: collect_edits_unlabeled messages_unlabeled settings_unlabeled)

lemma unlabeled_of_labels: "\<forall>e \<in> set L. is_label (en_body e) \<Longrightarrow> unlabeled L = []"
  by (simp add: filter_empty_conv)

lemma unlabeled_id: "\<forall>e \<in> set K. \<not> is_label (en_body e) \<Longrightarrow> unlabeled K = K"
  by (simp add: filter_id_conv)

lemma filter_commute: "filter P (filter Q xs) = filter Q (filter P xs)"
  by (simp add: conj_commute)

lemma branched_projection:
  assumes strip: "strip_labels None [] [] p = Inr K"
    and p: "distinct (map en_id p)" and KL: "distinct (map en_id (K @ L))"
    and K: "\<forall>e \<in> set K. \<not> is_label (en_body e)" and L: "\<forall>e \<in> set L. is_label (en_body e)"
  shows "projected_messages epoch (K @ L) = projected_messages epoch p \<and>
    get_session_context_settings (K @ L) = get_session_context_settings p"
proof -
  have nocomp: "\<not> is_compaction b" if "is_label b" for b using that by (cases b) auto
  have whole: "list_all2 same_entry (unlabeled p) K"
    using strip_labels_split [of None "[]" "[]" p "[]" K] strip by auto
  have corr: "list_all2 same_entry (unlabeled p) (unlabeled (K @ L))"
    using whole unlabeled_of_labels [OF L] unlabeled_id [OF K] by simp
  have "projected_messages epoch (K @ L) = projected_messages epoch p"
  proof (cases "get_latest_compaction_entry p")
    case None
    then have none: "\<forall>e \<in> set p. \<not> is_compaction (en_body e)" by (simp add: latest_compaction_None)
    then have "\<forall>e \<in> set (unlabeled p). \<not> is_compaction (en_body e)" by simp
    with whole have "\<forall>e \<in> set K. \<not> is_compaction (en_body e)"
      by (induction rule: list_all2_induct) (auto simp: same_entry_facts)
    with L nocomp have "\<forall>e \<in> set (K @ L). \<not> is_compaction (en_body e)" by auto
    with none corresponding [OF corr] show ?thesis by (simp only: projected_no_compaction)
  next
    case (Some c)
    from latest_compaction_split [OF this] obtain xs ys where
      split: "p = xs @ c # ys" "is_compaction (en_body c)" "\<forall>e \<in> set ys. \<not> is_compaction (en_body e)" .
    from strip_labels_split [OF strip [unfolded split(1)]] obtain Kx Ky0 par' where
      Kx: "K = Kx @ Ky0" "list_all2 same_entry (unlabeled xs) Kx"
      "strip_labels par' (fst (label_state [] [] xs)) (snd (label_state [] [] xs)) (c # ys) = Inr Ky0" by blast
    have nl: "\<not> is_label (en_body c)" using split(2) nocomp by blast
    let ?m = "fold (\<lambda>l. dict_set l (en_id c)) (fst (label_state [] [] xs)) (snd (label_state [] [] xs))"
    from Kx(3) nl obtain b Ky where b: "remap_first_kept ?m (en_id c) (en_body c) = Inr b"
      "strip_labels (Some (en_id c)) [] ?m ys = Inr Ky" "Ky0 = c\<lparr>en_parent := par', en_body := b\<rparr> # Ky"
      by (auto simp: Let_def split: sum.splits)
    let ?c = "c\<lparr>en_parent := par', en_body := b\<rparr>"
    note same = remap_same [OF b(1) nl]
    have same_c: "same_entry c ?c" using same by (simp add: same_entry_def)
    have Ky: "list_all2 same_entry (unlabeled ys) Ky"
      using strip_labels_split [of _ _ _ ys "[]" Ky] b(2) by auto
    obtain k where k: "first_kept_of (en_body c) = Some k"
      "first_kept_of b = Some (if k = en_id c then en_id c else replaced_by xs (en_id c) k)"
      using same split(2) by (auto simp: replaced_by_def)
    let ?k = "if k = en_id c then en_id c else replaced_by xs (en_id c) k"
    have xs: "distinct (map en_id xs)" "en_id c \<notin> ids_of xs" using p split(1) by auto
    have "unlabeled (from_first_kept (Some k) xs) = from_first_kept (Some ?k) (unlabeled xs)"
    proof (cases "k = en_id c")
      case True
      have "en_id c \<notin> ids_of (unlabeled xs)" using xs(2) by auto
      with True xs(2) show ?thesis by (simp add: from_first_kept_none)
    next
      case False
      with replaced_by_spec [OF xs, of k] show ?thesis by simp
    qed
    then have kept: "list_all2 same_entry (unlabeled (from_first_kept (Some k) xs)) (from_first_kept (Some ?k) Kx)"
      using same_from_first_kept [OF Kx(2)] by simp
    let ?kept = "filter not_system (from_first_kept (Some k) xs) @ ys"
    let ?kept' = "filter not_system (from_first_kept (Some ?k) Kx) @ Ky @ L"
    have "unlabeled ?kept' = filter not_system (from_first_kept (Some ?k) Kx) @ Ky"
    proof -
      let ?F = "filter not_system (from_first_kept (Some ?k) Kx)"
      have "set ?F \<subseteq> set K" using Kx(1) by (auto simp: from_first_kept_def dest!: set_dropWhileD)
      with K have F: "unlabeled ?F = ?F" by (intro unlabeled_id) blast
      have Y: "unlabeled Ky = Ky" using K Kx(1) b(3) by (intro unlabeled_id) auto
      show ?thesis
        by (simp only: filter_append [of "\<lambda>e. \<not> is_label (en_body e)"] F Y unlabeled_of_labels [OF L] append_Nil2)
    qed
    moreover have "list_all2 same_entry (unlabeled ?kept) (filter not_system (from_first_kept (Some ?k) Kx) @ Ky)"
      using same_filter [OF kept] Ky by (simp only: filter_append filter_commute [of "\<lambda>e. \<not> is_label (en_body e)" not_system])
        (rule list_all2_appendI)
    ultimately have corr_kept: "list_all2 same_entry (unlabeled ?kept) (unlabeled ?kept')" by simp
    have comp: "is_compaction (en_body ?c)" using same_entry_facts(2) [OF same_c] split(2) by simp
    have ys': "\<forall>e \<in> set (Ky @ L). \<not> is_compaction (en_body e)"
    proof -
      have "\<forall>e \<in> set (unlabeled ys). \<not> is_compaction (en_body e)" using split(3) by simp
      with Ky have "\<forall>e \<in> set Ky. \<not> is_compaction (en_body e)"
        by (induction rule: list_all2_induct) (auto simp: same_entry_facts)
      with L nocomp show ?thesis by auto
    qed
    have KL': "K @ L = Kx @ ?c # (Ky @ L)" using Kx(1) b(3) by simp
    have head: "project_context_entry epoch ?c x = project_context_entry epoch c x" for x
      by (simp only: project_context_entry_def same_entry_facts(1) [OF same_c])
    have fk: "first_kept_of (en_body ?c) = Some ?k" using k(2) by simp
    have "projected_messages epoch (K @ L) =
        project_context_entry epoch c (dict_get (collect_edits ?kept') (en_id c)) @ messages_with epoch (collect_edits ?kept') ?kept'"
      unfolding KL' projected_at_compaction [OF KL [unfolded KL'] comp ys'] Let_def fk head by simp
    also have "\<dots> = project_context_entry epoch c (dict_get (collect_edits ?kept) (en_id c)) @
        messages_with epoch (collect_edits ?kept) ?kept"
      by (simp only: corresponding [OF corr_kept])
    also have "\<dots> = projected_messages epoch p"
      unfolding split(1) projected_at_compaction [OF p [unfolded split(1)] split(2,3)] Let_def k(1) by simp
    finally show ?thesis .
  qed
  with corresponding(3) [OF corr] show ?thesis by simp
qed

text \<open>The label entries of the copy.\<close>

lemma replay_labels_dict:
  "dict_ok (fst (replay_labels es)) \<and> (\<forall>l \<in> set (fst (replay_labels es)). snd l \<noteq> [])"
proof (induction es rule: rev_induct)
  case Nil
  then show ?case by (simp add: replay_labels_def)
next
  case (snoc e es)
  obtain ls ts where lt: "replay_labels es = (ls, ts)" by force
  have upd: "snd x \<noteq> []" if "x \<in> set (dict_set t l ls)" "l \<noteq> []" "\<forall>y \<in> set ls. snd y \<noteq> []" for x t l
    using that by (induction ls) (auto split: if_splits)
  have del: "set (dict_pop t ls) \<subseteq> set ls" for t by (auto simp: AList.delete_eq)
  from snoc lt show ?case
    by (cases "en_body e") (auto simp: replay_labels_snoc truthy_label_def dest: upd set_mp [OF del] split: option.splits if_splits)
qed

lemma labels_to_write_eq:
  "labels_to_write ids timestamps labels = Inr ls \<Longrightarrow>
   map (\<lambda>(t, l, ts). (t, l)) ls = filter (\<lambda>l. fst l \<in> set ids) labels"
  by (induction labels arbitrary: ls) (auto split: if_splits option.splits sum.splits)

lemma replay_chain:
  assumes "distinct (map fst labels @ map fst ls)" "\<forall>(t, l, ts) \<in> set ls. l \<noteq> []"
  shows "fst (fold index_label (chain_labels env n used par ls) (labels, timestamps)) = labels @ map (\<lambda>(t, l, ts). (t, l)) ls"
  using assms
proof (induction env n used par ls arbitrary: labels timestamps rule: chain_labels.induct)
  case (2 env n used parent t l ts ls)
  obtain i n' where g: "generate_id env n used = (i, n')" by force
  have fresh: "dict_set t l labels = labels @ [(t, l)]"
    using "2.prems"(1) by (intro dict_set_fresh) (auto simp: map_of_eq_None_iff)
  have "distinct (map fst (labels @ [(t, l)]) @ map fst ls)" using "2.prems"(1) by auto
  from "2.IH" [OF g [symmetric] refl this] "2.prems"(2) show ?case
    by (simp add: g truthy_label_def fresh)
qed simp

lemma replay_unlabeled: "\<forall>e \<in> set K. \<not> is_label (en_body e) \<Longrightarrow> fold index_label K ls = ls"
  by (induction K) (simp_all add: index_label_other)

lemma get_filtered: "dict_get (filter (\<lambda>l. fst l \<in> A) d) k = (if k \<in> A then dict_get d k else None)"
  by (induction d) auto

lemma branched_labels:
  assumes K: "\<forall>e \<in> set K. \<not> is_label (en_body e)"
    and ls: "labels_to_write ids timestamps (fst (replay_labels es)) = Inr ls"
  shows "dict_get (fst (replay_labels (K @ chain_labels env n used par ls))) t =
    (if t \<in> set ids then dict_get (fst (replay_labels es)) t else None)"
proof -
  note eq = labels_to_write_eq [OF ls]
  let ?f = "\<lambda>(t, l, ts). (t, l)"
  have keys: "map fst ls = map fst (map ?f ls)" by (simp add: case_prod_beta comp_def)
  have "distinct (map fst ls)"
    unfolding keys eq using replay_labels_dict [of es] by (simp add: dict_ok_def distinct_map_filter)
  moreover have "l \<noteq> []" if "(t, l, ts) \<in> set ls" for t l ts
  proof -
    have "(t, l) \<in> set (map ?f ls)" using that by force
    then show ?thesis unfolding eq using replay_labels_dict [of es] by auto
  qed
  ultimately have "fst (replay_labels (K @ chain_labels env n used par ls)) = map ?f ls"
    using replay_chain [of "[]" ls env n used par "[]"]
    by (auto simp: replay_labels_def replay_unlabeled [OF K])
  then show ?thesis by (simp add: eq get_filtered)
qed

text \<open>What a successful \<open>create_branched_session\<close> leaves in memory.\<close>

lemma create_branched_state:
  assumes "create_branched_session ser env leaf s d = Some (s', d', Inr x)"
  obtains p es h where "get_branch s (Some leaf) = Some p" "p \<noteq> []" "branched_entries env s p = Inr es"
    "ss_entries s' = HeaderF h # map EntryF es" "ss_by_id s' = index_entries es []"
    "ss_leaf s' = map_option en_id (last_entry es)" "(ss_labels s', ss_label_timestamps s') = replay_labels es"
proof -
  obtain p es where p: "get_branch s (Some leaf) = Some p" "p \<noteq> []" "branched_entries env s p = Inr es"
    using assms by (auto simp: create_branched_session_def split: option.splits if_splits sum.splits)
  define h where "h = \<lparr>hdr_version = CURRENT_SESSION_VERSION, hdr_id = ev_uuidv7 env,
      hdr_timestamp = ev_now env, hdr_cwd = ss_cwd s, hdr_parent_session = (if ss_persist s then ss_file s else None)\<rparr>"
  define s0 where "s0 = s\<lparr>ss_entries := HeaderF h # map EntryF es, ss_revision := ss_revision s + 1, ss_id := ev_uuidv7 env,
      ss_file := (if ss_persist s then Some (session_file_name (ss_dir s) (ev_now env) (ev_uuidv7 env)) else ss_file s)\<rparr>"
  have s': "\<exists>b. s' = build_index s0 \<or> s' = (build_index s0)\<lparr>ss_flushed := b\<rparr>"
    using assms unfolding create_branched_session_def p(1) s0_def h_def
    by (simp only: option.case p(2,3) sum.case Let_def if_False)
      (auto split: if_splits sum.splits)
  have ents: "ss_entries s0 = HeaderF h # map EntryF es" by (simp add: s0_def)
  show thesis
    by (rule that [OF p, of h]) (use s' in \<open>auto simp: build_index_eq ents get_entries_def\<close>)
qed

text \<open>
  C2. A branched session starts from the context of its leaf: although the copy has lost the label
  entries of the path, has new parents and may keep a compaction from another entry on, the messages,
  thinking level and model it builds are those of the original path, its branch has the ids of the
  path's other entries, and exactly those keep their labels.
\<close>

theorem branched_session_keeps_the_context:
  assumes "reachable session_start (session_step ser) (s, d)" "draws_ok env (ids_of (get_entries s))"
    "create_branched_session ser env leaf s d = Some (s', d', Inr x)"
  shows "session_context_of env s' = build_session_context (ev_epoch env) (get_entries s) (LeafId leaf) (Some (ss_by_id s)) \<and>
    (\<exists>p p'. get_branch s (Some leaf) = Some p \<and> p \<noteq> [] \<and> get_branch s' None = Some p' \<and>
       map en_id (unlabeled p') = map en_id (unlabeled p) \<and>
       get_label s' t = (if t \<in> ids_of (unlabeled p) then get_label s t else None))"
proof -
  from sess.reachable_inv [OF assms(1)] have ok: "session_ok s" by simp
  from create_branched_ok [OF ok assms(2), of ser leaf d] assms(3) have ok': "session_ok s'" by auto
  from create_branched_state [OF assms(3)] obtain p es h where
    st: "get_branch s (Some leaf) = Some p" "p \<noteq> []" "branched_entries env s p = Inr es"
      "ss_entries s' = HeaderF h # map EntryF es" "ss_by_id s' = index_entries es []"
      "ss_leaf s' = map_option en_id (last_entry es)" "(ss_labels s', ss_label_timestamps s') = replay_labels es" .
  obtain e where e: "leaf = en_id e" "e \<in> set (get_entries s)" "path_from (by_ids (get_entries s)) (Some e) = Some p"
    and path: "linked None p" "set p \<subseteq> set (get_entries s)"
  proof (cases rule: get_branch_cases [OF ok, of "Some leaf"])
    case 1
    with st(1,2) that show thesis by simp
  next
    case (2 q e)
    with st(1) that [of e] subseq_set_subset [of q] show thesis by simp
  qed
  show ?thesis
  proof (rule branched_entries_ok [OF ok assms(2) path])
    fix K :: "entry list" and ls
    let ?L = "chain_labels env 0 (map en_id K) (if K \<noteq> [] then Some (en_id (last K)) else None) ls"
    assume strip: "strip_labels None [] [] p = Inr K"
      and ls: "labels_to_write (map en_id K) (ss_label_timestamps s) (ss_labels s) = Inr ls"
      and be: "branched_entries env s p = Inr (K @ ?L)" and tree: "tree_ok (K @ ?L)" and lin: "linked None (K @ ?L)"
      and ids: "map en_id K = map en_id (unlabeled p)"
      and K: "\<forall>e \<in> set K. \<not> is_label (en_body e) \<and> (is_compaction (en_body e) \<longrightarrow> first_kept_of (en_body e) \<noteq> None)"
      and L: "\<forall>e \<in> set ?L. is_label (en_body e)"
    have K': "\<forall>e \<in> set K. \<not> is_label (en_body e)" using K by blast
    from be st(3) have es: "es = K @ ?L" by simp
    have ge: "get_entries s' = es" using st(4) by (simp add: get_entries_def)
    have branch: "get_branch s' None = Some es"
    proof (cases "es = []")
      case True
      then show ?thesis using st(6) by (simp add: get_branch_def last_entry_def path_from_def)
    next
      case False
      have "get_branch s' (Some (en_id (last es))) = Some es"
        using get_branch_of_id [OF ok', of "last es", unfolded ge] last_in_set [OF False]
          path_of_linked [OF lin [folded es] subset_refl tree [folded es] False] by simp
      moreover have "ss_leaf s' = Some (en_id (last es))" using False st(6) by (simp add: last_entry_def)
      ultimately show ?thesis by (simp add: get_branch_def)
    qed
    have "distinct (map en_id p)"
      using subseq_distinct_list [OF subseq_map [OF linked_subseq [OF session_tree [OF ok] path]]]
        tree_ok_ids [OF session_tree [OF ok]] by blast
    note proj = branched_projection [OF strip this _ K' L, of "ev_epoch env"]
    have idx: "ss_by_id s = by_ids (get_entries s)" using ok by (simp add: session_ok_def)
    have "dict_get (ss_by_id s) leaf = Some e"
      unfolding idx e(1) using get_by_ids tree_ok_ids [OF session_tree [OF ok]] e(2) by blast
    then have old: "build_session_path (get_entries s) (LeafId leaf) (Some (ss_by_id s)) = Some p"
      using e(3) by (simp add: build_session_path_def build_entry_index_def idx)
    have new: "build_session_path (get_entries s') (leaf_arg_of (ss_leaf s')) (Some (ss_by_id s')) = Some es"
      using build_session_path_manager [OF ok'] branch by simp
    have "session_context_of env s' = build_session_context (ev_epoch env) (get_entries s) (LeafId leaf) (Some (ss_by_id s))"
      using proj tree_ok_ids [OF tree]
      unfolding session_context_of_def session_projection_of_def build_session_context_def build_session_projection_def old new
      by (simp add: Let_def es projected_messages_def [symmetric] split: prod.split)
    moreover have "get_label s' t = (if t \<in> ids_of (unlabeled p) then get_label s t else None)"
    proof -
      have r: "fst (replay_labels (get_entries s)) = ss_labels s"
        using ok unfolding session_ok_def by (metis fst_conv)
      have r': "ss_labels s' = fst (replay_labels es)" using st(7) by (metis fst_conv)
      show ?thesis
        unfolding get_label_def r' es
        by (subst branched_labels [OF K' ls [folded r]]) (simp only: r ids set_map)
    qed
    moreover have "map en_id (unlabeled es) = map en_id (unlabeled p)"
      unfolding es filter_append unlabeled_of_labels [OF L] unlabeled_id [OF K'] using ids by simp
    ultimately show ?thesis using st(1,2) branch by blast
  qed
qed

end
