(* ===== verification/Session_Example.thy ===== *)
theory Session_Example
  imports Session_Branching
begin

section \<open>A concrete session\<close>

definition example_env :: "nat \<Rightarrow> env" where
  "example_env k = \<lparr>ev_uuid4 = (\<lambda>n. replicate 6 48 @ [k, n] @ replicate 28 48), ev_uuidv7 = lit ''session'',
     ev_now = lit ''now'', ev_epoch = (\<lambda>_. 0)\<rparr>"

definition example_ser :: "file_entry \<Rightarrow> pystr" where
  "example_ser f = (case f of HeaderF h \<Rightarrow> hdr_id h | EntryF e \<Rightarrow> en_id e)"

fun example_run :: "nat \<Rightarrow> session_op list \<Rightarrow> session \<times> disk \<Rightarrow> session \<times> disk" where
  "example_run k [] st = st"
| "example_run k (op # ops) st =
    (case run_op example_ser (example_env k) op st of
       Some (s, d, ok) \<Rightarrow> example_run (k + 1) ops (s, d)
     | None \<Rightarrow> st)"

definition example_new :: "session \<times> disk" where
  "example_new = (fst (new_session (example_env 0) None None (initial_session (lit ''/w'') (lit ''/s'') True)),
     \<lparr>dk_files = [], dk_fails = False\<rparr>)"

definition example_message :: "string \<Rightarrow> session_op" where
  "example_message t = AppendMessage (FullMsg (UserMsg \<lparr>um_content = StrContent (lit t), um_timestamp = 0\<rparr>))"

definition example_prompt :: session_op where
  "example_prompt = AppendMessage (FullMsg (SystemMsg (example_system [example_tool ''a'' ''x''] [])))"

definition example_id :: "nat \<Rightarrow> pystr" where
  "example_id k = replicate 6 48 @ [k, 0]"

text \<open>Eight characters are the length of every id but the whole ones drawn last.\<close>

definition short_ids :: "session \<times> disk \<Rightarrow> bool" where
  "short_ids st = list_all (\<lambda>e. length (en_id e) = 8) (get_entries (fst st))"

lemma example_draws: "short_ids st \<Longrightarrow> draws_ok (example_env k) (ids_of (get_entries (fst st)))"
proof -
  assume short: "short_ids st"
  have "ev_uuid4 (example_env k) n \<notin> ids_of (get_entries (fst st))" for n
  proof
    assume "ev_uuid4 (example_env k) n \<in> ids_of (get_entries (fst st))"
    with short have "length (ev_uuid4 (example_env k) n) = 8" by (auto simp: short_ids_def list_all_iff)
    then show False by (simp add: example_env_def)
  qed
  then show ?thesis by (auto simp: draws_ok_def example_env_def inj_def)
qed

fun short_run :: "nat \<Rightarrow> session_op list \<Rightarrow> session \<times> disk \<Rightarrow> bool" where
  "short_run k [] st = True"
| "short_run k (op # ops) st =
    (short_ids st \<and> (case run_op example_ser (example_env k) op st of
       Some (s, d, ok) \<Rightarrow> short_run (k + 1) ops (s, d)
     | None \<Rightarrow> True))"

lemma example_run_reachable:
  assumes "reachable session_start (session_step example_ser) st" "short_run k ops st"
  shows "reachable session_start (session_step example_ser) (example_run k ops st)"
  using assms
proof (induction k ops st rule: example_run.induct)
  case (2 k op ops st)
  show ?case
  proof (cases "run_op example_ser (example_env k) op st")
    case None
    with 2(2) show ?thesis by simp
  next
    case (Some out)
    obtain s' d' ok where out: "out = (s', d', ok)" by (cases out)
    obtain s d where st: "st = (s, d)" by force
    have "session_step example_ser (s, d) (s', d')"
      by (rule session_step.op [of "example_env k" s example_ser op d s' d' ok])
        (use example_draws [of st k] 2(3) Some out st in simp_all)
    then have "reachable session_start (session_step example_ser) (s', d')"
      using 2(2) st sess.reachable_step by blast
    with 2(1) [of "(s', d', ok)" s' "(d', ok)" d' ok] 2(3) Some out show ?thesis by simp
  qed
qed simp

lemma example_new_reachable: "reachable session_start (session_step example_ser) example_new"
proof -
  let ?new = "new_session (example_env 0) None None (initial_session (lit ''/w'') (lit ''/s'') True)"
  have "\<not> isl (snd ?new)" by (simp add: new_session_def Let_def)
  then obtain f where "snd ?new = Inr f" by (cases "snd ?new") auto
  then have "?new = (fst example_new, Inr f)" by (simp add: example_new_def prod_eq_iff)
  then have "session_start example_new" unfolding session_start_def by blast
  then show ?thesis unfolding reachable_def by blast
qed

lemmas example_reachable = example_run_reachable [OF example_new_reachable]

definition example_ops :: "session_op list" where
  "example_ops = [example_prompt, example_message ''hi'', AppendLabel (example_id 1) (Some (lit ''here'')),
     example_message ''more'']"

definition example_session :: "session \<times> disk" where
  "example_session = example_run 0 example_ops example_new"

text \<open>The session as a value, for the evaluations below.\<close>

definition example_entries :: "entry list" where
  "example_entries =
    [\<lparr>en_id = example_id 0, en_parent = None, en_timestamp = lit ''now'',
       en_body = MessageE (FullMsg (SystemMsg (example_system [example_tool ''a'' ''x''] [])))\<rparr>,
     \<lparr>en_id = example_id 1, en_parent = Some (example_id 0), en_timestamp = lit ''now'',
       en_body = MessageE (FullMsg (UserMsg \<lparr>um_content = StrContent (lit ''hi''), um_timestamp = 0\<rparr>))\<rparr>,
     \<lparr>en_id = example_id 2, en_parent = Some (example_id 1), en_timestamp = lit ''now'',
       en_body = LabelE (example_id 1) (Some (lit ''here''))\<rparr>,
     \<lparr>en_id = example_id 3, en_parent = Some (example_id 2), en_timestamp = lit ''now'',
       en_body = MessageE (FullMsg (UserMsg \<lparr>um_content = StrContent (lit ''more''), um_timestamp = 0\<rparr>))\<rparr>]"

lemma example_session_value [code]:
  "example_session =
    (\<lparr>ss_id = lit ''session'', ss_file = Some (lit ''/s/now_session.jsonl''), ss_cwd = lit ''/w'', ss_dir = lit ''/s'',
       ss_persist = True, ss_flushed = True,
       ss_entries = HeaderF \<lparr>hdr_version = 3, hdr_id = lit ''session'', hdr_timestamp = lit ''now'', hdr_cwd = lit ''/w'',
         hdr_parent_session = None\<rparr> # map EntryF example_entries,
       ss_revision = 5, ss_by_id = map (\<lambda>e. (en_id e, e)) example_entries,
       ss_labels = [(example_id 1, lit ''here'')], ss_label_timestamps = [(example_id 1, lit ''now'')],
       ss_leaf = Some (example_id 3)\<rparr>,
     \<lparr>dk_files = [(lit ''/s/now_session.jsonl'',
        concat (map (\<lambda>i. i @ [NL]) (lit ''session'' # map example_id [0, 1, 2, 3])))], dk_fails = False\<rparr>)"
  by code_simp

lemma example_short: "short_run 0 example_ops example_new"
  by code_simp


lemma example_session_reachable: "reachable session_start (session_step example_ser) (fst example_session, snd example_session)"
  using example_reachable [OF example_short] by (simp add: example_session_def)

lemma example_session_draws: "draws_ok (example_env k) (ids_of (get_entries (fst example_session)))"
proof -
  have "short_ids example_session" by code_simp
  then show ?thesis by (rule example_draws)
qed

lemma example_op:
  "map_option (snd \<circ> snd) (run_op example_ser (example_env k) op st) = Some ok \<Longrightarrow>
   run_op example_ser (example_env k) op (fst st, snd st) = Some (fst (example_run k [op] st), snd (example_run k [op] st), ok)"
  by (cases st) (auto split: option.split)


theorem reachable_sessions_are_trees_witness:
  "\<exists>p. get_branch (fst example_session) None = Some p \<and> linked None p \<and> length p = 4"
proof -
  have "map_option length (get_branch (fst example_session) None) = Some 4" by code_simp
  with reachable_sessions_are_trees [OF example_session_reachable, of None] show ?thesis by auto
qed

theorem history_is_append_only_witness:
  "let s = fst example_session; s' = fst (example_run 4 [AppendLabel (example_id 0) None] example_session)
   in (\<exists>new. get_entries s' = get_entries s @ new) \<and> length (get_entries s') = 5"
proof -
  let ?op = "AppendLabel (example_id 0) None"
  have run: "map_option (snd \<circ> snd) (run_op example_ser (example_env 4) ?op example_session) = Some True" by code_simp
  have "\<not> replaces_session ?op" by (simp add: replaces_session_def)
  from history_is_append_only [OF example_session_reachable example_session_draws example_op [OF run] this]
  have "\<exists>new. get_entries (fst (example_run 4 [?op] example_session)) = get_entries (fst example_session) @ new" by blast
  moreover have "length (get_entries (fst (example_run 4 [?op] example_session))) = 5" by code_simp
  ultimately show ?thesis by (simp only: Let_def)
qed

theorem append_extends_the_branch_witness:
  "let s = fst example_session; s' = fst (example_run 4 [example_message ''again''] example_session)
   in \<exists>p e. get_branch s None = Some p \<and> get_branch s' None = Some (p @ [e]) \<and> en_parent e = Some (example_id 3)"
proof -
  let ?op = "example_message ''again''"
  have run: "map_option (snd \<circ> snd) (run_op example_ser (example_env 4) ?op example_session) = Some True" by code_simp
  have leaf: "ss_leaf (fst example_session) = Some (example_id 3)" by code_simp
  have "\<not> replaces_session ?op" "\<not> moves_leaf ?op"
    by (simp_all add: example_message_def replaces_session_def moves_leaf_def)
  from append_extends_the_branch [OF example_session_reachable example_session_draws example_op [OF run] this]
  show ?thesis unfolding leaf Let_def by blast
qed

theorem session_file_follows_the_entries_witness:
  "let st' = example_run 4 [example_message ''again''] example_session
   in file_synced example_ser (fst st') (snd st') \<and> ss_flushed (fst st')"
proof -
  let ?op = "example_message ''again''"
  have run: "map_option (snd \<circ> snd) (run_op example_ser (example_env 4) ?op example_session) = Some True" by code_simp
  have sync: "file_synced example_ser (fst example_session) (snd example_session)" by code_simp
  have "ss_flushed (fst (example_run 4 [?op] example_session))" by code_simp
  with session_file_follows_the_entries [OF example_op [OF run] sync, of "[]"] show ?thesis by (simp only: Let_def)
qed

theorem label_is_the_last_label_entry_witness:
  "get_label (fst example_session) (example_id 1) =
     Option.bind (find (labels_entry (example_id 1)) (rev (get_entries (fst example_session)))) label_of \<and>
   get_label (fst example_session) (example_id 1) = Some (lit ''here'')"
proof -
  have "get_label (fst example_session) (example_id 1) = Some (lit ''here'')" by code_simp
  with label_is_the_last_label_entry [OF example_session_reachable, of "example_id 1"] show ?thesis by simp
qed

theorem compaction_keeps_the_prompt_witness:
  "\<exists>s' d' i after. append_compaction example_ser (example_env 4) (lit ''summary'') (Some (example_id 3)) 9 None None None
       (fst example_session) (snd example_session) = Some (s', d', Inr i) \<and>
     session_context_of (example_env 4) s' = Some after \<and> get_current_tools (sc_messages after) = [example_tool ''a'' ''x'']"
proof -
  let ?app = "append_compaction example_ser (example_env 4) (lit ''summary'') (Some (example_id 3)) 9 None None None
       (fst example_session) (snd example_session)"
  have "case ?app of Some (s, d, Inr i) \<Rightarrow> True | _ \<Rightarrow> False" by code_simp
  then obtain s' d' i where app: "?app = Some (s', d', Inr i)" by (auto split: option.splits prod.splits sum.splits)
  have tools: "map_option (\<lambda>c. get_current_tools (sc_messages c)) (session_context_of (example_env 4) (fst example_session)) =
      Some [example_tool ''a'' ''x'']"
    by code_simp
  from compaction_keeps_the_prompt [OF example_session_reachable example_session_draws app] tools app
  show ?thesis by auto
qed

theorem branched_session_keeps_the_context_witness:
  "\<exists>s' d' x. create_branched_session example_ser (example_env 4) (example_id 3) (fst example_session) (snd example_session) =
       Some (s', d', Inr x) \<and>
     session_context_of (example_env 4) s' = session_context_of (example_env 4) (fst example_session) \<and>
     get_label s' (example_id 1) = Some (lit ''here'')"
proof -
  let ?out = "create_branched_session example_ser (example_env 4) (example_id 3) (fst example_session) (snd example_session)"
  have "case ?out of Some (s, d, Inr i) \<Rightarrow> True | _ \<Rightarrow> False" by code_simp
  then obtain s' d' x where out: "?out = Some (s', d', Inr x)" by (auto split: option.splits prod.splits sum.splits)
  have "ss_leaf (fst example_session) = Some (example_id 3)" by code_simp
  then have same: "session_context_of (example_env 4) (fst example_session) =
      build_session_context (ev_epoch (example_env 4)) (get_entries (fst example_session)) (LeafId (example_id 3))
        (Some (ss_by_id (fst example_session)))"
    by (simp add: session_context_of_def session_projection_of_def build_session_context_def leaf_arg_of_def)
  have mem: "map_option (\<lambda>p. example_id 1 \<in> ids_of (unlabeled p)) (get_branch (fst example_session) (Some (example_id 3))) = Some True"
    and lab: "get_label (fst example_session) (example_id 1) = Some (lit ''here'')" by code_simp+
  from branched_session_keeps_the_context [OF example_session_reachable example_session_draws out, of "example_id 1"] mem lab
  show ?thesis unfolding same using out by auto
qed

end
