(* ===== verification/Compaction.thy ===== *)
theory Compaction
  imports Session_Example
begin

section \<open>Compaction (core/compaction/compaction.py)\<close>

text \<open>
  Token estimates, the search for the cut point, and the preparation of a compaction: which messages
  of the projected context are summarized and from which entry on the context is kept. The summaries
  themselves are in \<open>Summaries\<close>. Token counts are whole numbers; a JSON value always serializes.
\<close>

subsection \<open>Token estimates\<close>

record compaction_settings =
  cfg_enabled :: bool
  cfg_reserve_tokens :: int
  cfg_keep_recent_tokens :: int

definition DEFAULT_COMPACTION_SETTINGS :: compaction_settings where
  "DEFAULT_COMPACTION_SETTINGS = \<lparr>cfg_enabled = True, cfg_reserve_tokens = 16384, cfg_keep_recent_tokens = 20000\<rparr>"

definition calculate_context_tokens :: "usage \<Rightarrow> int" where
  "calculate_context_tokens u =
    (if us_total_tokens u \<noteq> 0 then us_total_tokens u
     else us_input u + us_output u + us_cache_read u + us_cache_write u)"

fun get_assistant_usage :: "message \<Rightarrow> usage option" where
  "get_assistant_usage (AssistantMsg m) =
     (if am_stop_reason m = Aborted \<or> am_stop_reason m = StopError then None
      else case am_usage m of None \<Rightarrow> None | Some u \<Rightarrow> if calculate_context_tokens u > 0 then Some u else None)"
| "get_assistant_usage _ = None"

fun raw_message :: "raw_message \<Rightarrow> message" where
  "raw_message (FullMsg m) = m"
| "raw_message (NullContent m) = m"

fun entry_usage :: "entry_body \<Rightarrow> usage option" where
  "entry_usage (MessageE m) = get_assistant_usage (raw_message m)"
| "entry_usage _ = None"

fun first_some :: "('a \<Rightarrow> 'b option) \<Rightarrow> 'a list \<Rightarrow> 'b option" where
  "first_some f [] = None"
| "first_some f (x # xs) = (case f x of Some y \<Rightarrow> Some y | None \<Rightarrow> first_some f xs)"

definition get_last_assistant_usage :: "entry list \<Rightarrow> usage option" where
  "get_last_assistant_usage entries = first_some (\<lambda>e. entry_usage (en_body e)) (rev entries)"

definition find_last_index :: "('a \<Rightarrow> bool) \<Rightarrow> 'a list \<Rightarrow> nat option" where
  "find_last_index f xs = map_option (\<lambda>i. length xs - 1 - i) (find_index f (rev xs))"

definition get_last_assistant_usage_info :: "message list \<Rightarrow> (usage \<times> nat) option" where
  "get_last_assistant_usage_info messages =
    (case find_last_index (\<lambda>m. get_assistant_usage m \<noteq> None) messages of
       None \<Rightarrow> None
     | Some i \<Rightarrow> map_option (\<lambda>u. (u, i)) (get_assistant_usage (messages ! i)))"

definition ESTIMATED_IMAGE_CHARS :: nat where "ESTIMATED_IMAGE_CHARS = 4800"

fun block_chars :: "block \<Rightarrow> nat" where
  "block_chars (TextContent t s) = length t"
| "block_chars (ImageContent d m) = ESTIMATED_IMAGE_CHARS"
| "block_chars _ = 0"

fun content_chars :: "content \<Rightarrow> nat" where
  "content_chars (StrContent s) = length s"
| "content_chars (Blocks bs) = sum_list (map block_chars bs)"

definition safe_json_stringify :: "json \<Rightarrow> pystr" where
  "safe_json_stringify v = json_dumps False (lit '','') (lit '':'') v"

fun assistant_block_chars :: "block \<Rightarrow> nat" where
  "assistant_block_chars (TextContent t s) = length t"
| "assistant_block_chars (ThinkingContent t s r) = length t"
| "assistant_block_chars (ToolCallContent c) = length (call_name c) + length (safe_json_stringify (JObj (call_arguments c)))"
| "assistant_block_chars _ = 0"

definition system_chars :: "system_message \<Rightarrow> nat" where
  "system_chars m =
    content_chars (sm_content m) + sum_list (map length (List.map_filter snd (sections_of m))) +
    (if or_empty (sm_tools_added m) \<noteq> [] then length (safe_json_stringify (JArr (map serialize_tool (or_empty (sm_tools_added m))))) else 0)"

fun message_chars :: "message \<Rightarrow> nat" where
  "message_chars (SystemMsg m) = system_chars m"
| "message_chars (UserMsg m) = content_chars (um_content m)"
| "message_chars (AssistantMsg m) = sum_list (map assistant_block_chars (am_content m))"
| "message_chars (ToolResultMsg m) = content_chars (Blocks (trm_content m))"
| "message_chars (CustomMsg m) = content_chars (cm_content m)"
| "message_chars (BashMsg m) = length (bm_command m) + length (bm_output m)"
| "message_chars (BranchSummaryMsg m) = length (bs_summary m)"
| "message_chars (CompactionSummaryMsg m) = length (cs_summary m)"
| "message_chars (OtherMsg r) = 0"

text \<open>\<open>math.ceil(chars / 4)\<close>.\<close>

definition estimate_tokens :: "message \<Rightarrow> nat" where
  "estimate_tokens m = (message_chars m + 3) div 4"

definition estimate_all :: "message list \<Rightarrow> nat" where
  "estimate_all ms = sum_list (map estimate_tokens ms)"

record usage_estimate =
  ue_tokens :: int
  ue_usage_tokens :: int
  ue_trailing_tokens :: int
  ue_last_usage_index :: "nat option"

definition estimate_context_tokens :: "message list \<Rightarrow> usage_estimate" where
  "estimate_context_tokens messages =
    (case get_last_assistant_usage_info messages of
       None \<Rightarrow> (let estimated = int (estimate_all messages)
                in \<lparr>ue_tokens = estimated, ue_usage_tokens = 0, ue_trailing_tokens = estimated, ue_last_usage_index = None\<rparr>)
     | Some (u, i) \<Rightarrow>
         (let usage_tokens = calculate_context_tokens u; trailing = int (estimate_all (drop (i + 1) messages))
          in \<lparr>ue_tokens = usage_tokens + trailing, ue_usage_tokens = usage_tokens, ue_trailing_tokens = trailing,
              ue_last_usage_index = Some i\<rparr>))"

text \<open>The entry whose projected messages cover a message index.\<close>

fun covering_entry :: "nat \<Rightarrow> projected_entry list \<Rightarrow> pystr option" where
  "covering_entry i [] = None"
| "covering_entry i (e # es) =
     (if i < length (pe_messages e) then Some (en_id (pe_source e)) else covering_entry (i - length (pe_messages e)) es)"

definition is_context_edit :: "entry_body \<Rightarrow> bool" where
  "is_context_edit b = (case b of ContextEditE t r \<Rightarrow> True | _ \<Rightarrow> False)"

definition index_or_minus_one :: "nat option \<Rightarrow> int" where
  "index_or_minus_one i = (case i of None \<Rightarrow> - 1 | Some k \<Rightarrow> int k)"

definition usage_still_valid :: "session_projection \<Rightarrow> entry list \<Rightarrow> nat \<Rightarrow> bool" where
  "usage_still_valid projection branch_entries i =
    (let usage_entry = (case covering_entry i (sp_entries projection) of
           None \<Rightarrow> None | Some k \<Rightarrow> if k = [] then None else find_index (\<lambda>e. en_id e = k) branch_entries);
         invalidating = find_last_index (\<lambda>e. is_context_edit (en_body e) \<or> is_compaction (en_body e)) branch_entries
     in index_or_minus_one usage_entry > index_or_minus_one invalidating)"

definition estimate_projected_context_tokens :: "session_projection \<Rightarrow> entry list \<Rightarrow> usage_estimate" where
  "estimate_projected_context_tokens projection branch_entries =
    (let estimate = estimate_context_tokens (sp_messages projection)
     in if (case ue_last_usage_index estimate of None \<Rightarrow> False | Some i \<Rightarrow> usage_still_valid projection branch_entries i)
        then estimate
        else let system = (case get_current_system_message (sp_messages projection) of
                   None \<Rightarrow> 0 | Some m \<Rightarrow> estimate_tokens (SystemMsg m));
                 tokens = int (system + estimate_all (filter (\<lambda>m. \<not> is_system_msg m) (sp_messages projection)))
             in \<lparr>ue_tokens = tokens, ue_usage_tokens = 0, ue_trailing_tokens = tokens, ue_last_usage_index = None\<rparr>)"

definition should_compact :: "int \<Rightarrow> int \<Rightarrow> compaction_settings \<Rightarrow> bool" where
  "should_compact context_tokens context_window settings \<longleftrightarrow>
     cfg_enabled settings \<and> context_tokens > context_window - cfg_reserve_tokens settings"

subsection \<open>Cut points\<close>

fun is_cut_point_message :: "message \<Rightarrow> bool" where
  "is_cut_point_message (SystemMsg m) = False"
| "is_cut_point_message (ToolResultMsg m) = False"
| "is_cut_point_message (OtherMsg r) = False"
| "is_cut_point_message m = True"

fun is_turn_start_message :: "message \<Rightarrow> bool" where
  "is_turn_start_message (SystemMsg m) = False"
| "is_turn_start_message (AssistantMsg m) = False"
| "is_turn_start_message (ToolResultMsg m) = False"
| "is_turn_start_message (OtherMsg r) = False"
| "is_turn_start_message m = True"

text \<open>
  The search reads an entry by whether it is a compaction and by its messages, which differ between
  raw and projected entries.
\<close>

record view =
  vw_compaction :: bool
  vw_messages :: "message list"

definition raw_view :: "(pystr \<Rightarrow> int) \<Rightarrow> entry \<Rightarrow> view" where
  "raw_view epoch e = \<lparr>vw_compaction = is_compaction (en_body e), vw_messages = session_entry_to_context_messages epoch e\<rparr>"

definition projected_view :: "projected_entry \<Rightarrow> view" where
  "projected_view e = \<lparr>vw_compaction = is_compaction (en_body (pe_source e)), vw_messages = pe_messages e\<rparr>"

definition is_turn_start_view :: "view \<Rightarrow> bool" where
  "is_turn_start_view v \<longleftrightarrow> \<not> vw_compaction v \<and> list_ex is_turn_start_message (vw_messages v)"

definition is_cut_point_view :: "view \<Rightarrow> bool" where
  "is_cut_point_view v \<longleftrightarrow> \<not> vw_compaction v \<and> list_ex is_cut_point_message (vw_messages v)"

definition find_valid_cut_points :: "view list \<Rightarrow> nat \<Rightarrow> nat \<Rightarrow> nat list" where
  "find_valid_cut_points vs start_index end_index = filter (\<lambda>i. is_cut_point_view (vs ! i)) [start_index..<end_index]"

definition find_turn_start_index :: "view list \<Rightarrow> nat \<Rightarrow> nat \<Rightarrow> nat option" where
  "find_turn_start_index vs entry_index start_index = find (\<lambda>i. is_turn_start_view (vs ! i)) (rev [start_index..<entry_index + 1])"

record cut_point =
  cp_first_kept :: nat
  cp_turn_start :: "nat option"
  cp_split :: bool

text \<open>The walk from the newest entry back, over the remaining indices; \<open>None\<close> when the budget is never reached.\<close>

fun budget_cut :: "view list \<Rightarrow> int \<Rightarrow> nat list \<Rightarrow> nat list \<Rightarrow> int \<Rightarrow> nat option" where
  "budget_cut vs keep cut_points [] accumulated = None"
| "budget_cut vs keep cut_points (i # is) accumulated =
     (let tokens = int (estimate_all (vw_messages (vs ! i)))
      in if tokens = 0 then budget_cut vs keep cut_points is accumulated
         else if accumulated + tokens \<ge> keep
              then Some (case find (\<lambda>c. c \<ge> i) cut_points of Some c \<Rightarrow> c | None \<Rightarrow> last cut_points)
              else budget_cut vs keep cut_points is (accumulated + tokens))"

text \<open>The scan back over entries without messages.\<close>

fun include_metadata :: "view list \<Rightarrow> nat \<Rightarrow> nat \<Rightarrow> nat" where
  "include_metadata vs start_index 0 = 0"
| "include_metadata vs start_index (Suc i) =
     (if Suc i > start_index \<and> \<not> (vw_compaction (vs ! i) \<or> vw_messages (vs ! i) \<noteq> [])
      then include_metadata vs start_index i else Suc i)"

definition close_cut :: "view list \<Rightarrow> nat \<Rightarrow> nat \<Rightarrow> cut_point" where
  "close_cut vs start_index i =
    (let cut_index = include_metadata vs start_index i;
         starts_turn = is_turn_start_view (vs ! cut_index);
         turn_start = (if starts_turn then None else find_turn_start_index vs cut_index start_index)
     in \<lparr>cp_first_kept = cut_index, cp_turn_start = turn_start, cp_split = (\<not> starts_turn \<and> turn_start \<noteq> None)\<rparr>)"

definition no_cut :: "nat \<Rightarrow> cut_point" where
  "no_cut start_index = \<lparr>cp_first_kept = start_index, cp_turn_start = None, cp_split = False\<rparr>"

definition find_cut_point :: "(pystr \<Rightarrow> int) \<Rightarrow> entry list \<Rightarrow> nat \<Rightarrow> nat \<Rightarrow> int \<Rightarrow> cut_point" where
  "find_cut_point epoch entries start_index end_index keep =
    (let vs = map (raw_view epoch) entries; cut_points = find_valid_cut_points vs start_index end_index
     in if cut_points = [] then no_cut start_index
        else close_cut vs start_index
          (case budget_cut vs keep cut_points (rev [start_index..<end_index]) 0 of None \<Rightarrow> hd cut_points | Some i \<Rightarrow> i))"

text \<open>The suffix after the cut that only a failed and omitted attempt left.\<close>

definition intrinsically_visible :: "(pystr \<Rightarrow> int) \<Rightarrow> projected_entry \<Rightarrow> bool" where
  "intrinsically_visible epoch e \<longleftrightarrow>
     \<not> is_context_edit (en_body (pe_source e)) \<and> session_entry_to_context_messages epoch (pe_source e) \<noteq> []"

definition omitted :: "(pystr \<Rightarrow> int) \<Rightarrow> projected_entry \<Rightarrow> bool" where
  "omitted epoch e \<longleftrightarrow> intrinsically_visible epoch e \<and> pe_messages e = []"

fun replaces_outside :: "pystr list \<Rightarrow> entry_body \<Rightarrow> bool" where
  "replaces_outside ids (ContextEditE target (Some replacement)) = (target \<notin> set ids)"
| "replaces_outside ids _ = False"

fun assistant_entry :: "entry_body \<Rightarrow> bool" where
  "assistant_entry (MessageE m) = is_assistant_msg (raw_message m)"
| "assistant_entry _ = False"

definition recovery_suffix :: "(pystr \<Rightarrow> int) \<Rightarrow> projected_entry list \<Rightarrow> bool" where
  "recovery_suffix epoch es =
    (let omitted_ids = map (\<lambda>e. en_id (pe_source e)) (filter (omitted epoch) es)
     in \<not> list_ex (\<lambda>e. replaces_outside omitted_ids (en_body (pe_source e))) es \<and>
        list_ex (\<lambda>e. assistant_entry (en_body (pe_source e)) \<and> omitted epoch e) es \<and>
        list_all (\<lambda>e. \<not> is_compaction (en_body (pe_source e)) \<and> (\<not> intrinsically_visible epoch e \<or> omitted epoch e)) es)"

definition find_projected_cut_point ::
  "(pystr \<Rightarrow> int) \<Rightarrow> projected_entry list \<Rightarrow> nat \<Rightarrow> nat \<Rightarrow> int \<Rightarrow> cut_point" where
  "find_projected_cut_point epoch entries start_index end_index keep =
    (let vs = map projected_view entries; cut_points = find_valid_cut_points vs start_index end_index
     in if cut_points = [] then no_cut start_index
        else let budget = budget_cut vs keep cut_points (rev [start_index..<end_index]) 0;
                 i = (case budget of None \<Rightarrow> hd cut_points | Some i \<Rightarrow> i);
                 recovers = (budget \<noteq> None \<and> recovery_suffix epoch (take (end_index - (i + 1)) (drop (i + 1) entries)))
             in close_cut vs start_index (if recovers then i + 1 else i))"

subsection \<open>File operations\<close>

record file_operations =
  fo_read :: "pystr set"
  fo_written :: "pystr set"
  fo_edited :: "pystr set"

definition create_file_ops :: file_operations where
  "create_file_ops = \<lparr>fo_read = {}, fo_written = {}, fo_edited = {}\<rparr>"

definition add_file_op :: "pystr \<Rightarrow> (pystr, json) dict option \<Rightarrow> file_operations \<Rightarrow> file_operations" where
  "add_file_op name args ops =
    (case Option.bind args (\<lambda>a. dict_get a (lit ''path'')) of
       Some (JStr path) \<Rightarrow>
         if path = [] then ops
         else if name = lit ''read'' then ops\<lparr>fo_read := insert path (fo_read ops)\<rparr>
         else if name = lit ''write'' then ops\<lparr>fo_written := insert path (fo_written ops)\<rparr>
         else if name = lit ''edit'' then ops\<lparr>fo_edited := insert path (fo_edited ops)\<rparr>
         else ops
     | _ \<Rightarrow> ops)"

fun extract_file_ops_from_message :: "message \<Rightarrow> file_operations \<Rightarrow> file_operations" where
  "extract_file_ops_from_message (ToolResultMsg m) ops =
     (case trm_nested_calls m of
        None \<Rightarrow> ops
      | Some nested \<Rightarrow> fold (\<lambda>c. add_file_op (nc_name c) (nc_arguments c)) (ntc_calls nested) ops)"
| "extract_file_ops_from_message (AssistantMsg m) ops =
     fold (\<lambda>c. add_file_op (call_name c) (Some (call_arguments c))) (tool_calls_of (am_content m)) ops"
| "extract_file_ops_from_message m ops = ops"

definition compute_file_lists :: "file_operations \<Rightarrow> pystr list \<times> pystr list" where
  "compute_file_lists ops =
    (let modified = fo_edited ops \<union> fo_written ops
     in (sorted_list_of_set (fo_read ops - modified), sorted_list_of_set modified))"

text \<open>The names a list in the stored details holds.\<close>

fun json_strings :: "json option \<Rightarrow> pystr set" where
  "json_strings (Some (JArr vs)) = set (List.map_filter (\<lambda>v. case v of JStr s \<Rightarrow> Some s | _ \<Rightarrow> None) vs)"
| "json_strings _ = {}"

text \<open>The file lists a summary entry's details hold are added as read and as edited files.\<close>

definition add_details :: "json option \<Rightarrow> file_operations \<Rightarrow> file_operations" where
  "add_details details ops =
    (case details of
       Some (JObj d) \<Rightarrow>
         ops\<lparr>fo_read := fo_read ops \<union> json_strings (dict_get d (lit ''readFiles'')),
             fo_edited := fo_edited ops \<union> json_strings (dict_get d (lit ''modifiedFiles''))\<rparr>
     | _ \<Rightarrow> ops)"

fun previous_details :: "entry_body \<Rightarrow> json option" where
  "previous_details (CompactionE c) = (if cb_from_hook c = Some True then None else cb_details c)"
| "previous_details _ = None"

definition extract_file_operations :: "message list \<Rightarrow> entry list \<Rightarrow> nat option \<Rightarrow> file_operations" where
  "extract_file_operations messages entries prev_compaction_index =
    fold extract_file_ops_from_message messages
      (case prev_compaction_index of
         None \<Rightarrow> create_file_ops
       | Some i \<Rightarrow> add_details (previous_details (en_body (entries ! i))) create_file_ops)"

subsection \<open>Preparation\<close>

record preparation_of_compaction =
  pr_first_kept :: pystr
  pr_summarize :: "message list"
  pr_turn_prefix :: "message list"
  pr_split :: bool
  pr_tokens_before :: int
  pr_file_ops :: file_operations
  pr_settings :: compaction_settings
  pr_previous_summary :: "pystr option"

definition messages_for_compaction :: "projected_entry \<Rightarrow> message list" where
  "messages_for_compaction e =
    (if is_compaction (en_body (pe_source e)) then [] else filter (\<lambda>m. \<not> is_system_msg m) (pe_messages e))"

definition previous_compaction :: "projected_entry list \<Rightarrow> nat option" where
  "previous_compaction es = find_index (\<lambda>e. is_compaction (en_body (pe_source e)) \<and> pe_messages e \<noteq> []) es"

fun summary_of :: "entry_body \<Rightarrow> pystr option" where
  "summary_of (CompactionE c) = Some (cb_summary c)"
| "summary_of _ = None"

definition boundary_start :: "projected_entry list \<Rightarrow> nat" where
  "boundary_start es = (case previous_compaction es of None \<Rightarrow> 0 | Some i \<Rightarrow> i + 1)"

definition prepare_from :: "(pystr \<Rightarrow> int) \<Rightarrow> session_projection \<Rightarrow> entry list \<Rightarrow> compaction_settings \<Rightarrow> preparation_of_compaction option" where
  "prepare_from epoch projection path_entries settings =
    (let es = sp_entries projection;
         prev = previous_compaction es;
         start = boundary_start es;
         cut = find_projected_cut_point epoch es start (length es) (cfg_keep_recent_tokens settings);
         k = cp_first_kept cut;
         turn_start = (case cp_turn_start cut of None \<Rightarrow> k | Some t \<Rightarrow> t);
         history_end = (if cp_split cut then turn_start else k);
         summarize = concat (map messages_for_compaction (slice start history_end es));
         turn_prefix = (if cp_split cut then concat (map messages_for_compaction (slice turn_start k es)) else []);
         ops = extract_file_operations summarize (map pe_source es) prev
     in if k \<ge> length es \<or> en_id (pe_source (es ! k)) = [] then None
        else if summarize = [] \<and> turn_prefix = [] then None
        else Some \<lparr>pr_first_kept = en_id (pe_source (es ! k)), pr_summarize = summarize, pr_turn_prefix = turn_prefix,
          pr_split = cp_split cut, pr_tokens_before = ue_tokens (estimate_projected_context_tokens projection path_entries),
          pr_file_ops = (if cp_split cut then fold extract_file_ops_from_message turn_prefix ops else ops),
          pr_settings = settings,
          pr_previous_summary = (case prev of None \<Rightarrow> None | Some i \<Rightarrow> summary_of (en_body (pe_source (es ! i))))\<rparr>)"

text \<open>\<open>None\<close> outside: the walk to the root did not end.\<close>

definition prepare_compaction ::
  "(pystr \<Rightarrow> int) \<Rightarrow> entry list \<Rightarrow> compaction_settings \<Rightarrow> preparation_of_compaction option option" where
  "prepare_compaction epoch path_entries settings =
    (if path_entries \<noteq> [] \<and> is_compaction (en_body (last path_entries)) then Some None
     else map_option (\<lambda>projection. prepare_from epoch projection path_entries settings)
            (build_session_projection epoch path_entries LeafUnset None))"

subsection \<open>The cut\<close>

lemma find_Some_in: "find f xs = Some x \<Longrightarrow> x \<in> set xs \<and> f x"
  by (induction xs) (auto split: if_splits)

lemma find_valid_cut_points_set:
  "i \<in> set (find_valid_cut_points vs a b) \<longleftrightarrow> a \<le> i \<and> i < b \<and> is_cut_point_view (vs ! i)"
  by (auto simp: find_valid_cut_points_def)

lemma budget_cut_in:
  "budget_cut vs keep cps is acc = Some i \<Longrightarrow> cps \<noteq> [] \<Longrightarrow> i \<in> set cps"
proof (induction "is" arbitrary: acc)
  case (Cons j js)
  then show ?case by (auto simp: Let_def find_Some_iff split: if_splits option.splits)
qed simp

lemma include_metadata_facts:
  "start \<le> i \<Longrightarrow> start \<le> include_metadata vs start i \<and> include_metadata vs start i \<le> i \<and>
   (\<forall>j. include_metadata vs start i \<le> j \<and> j < i \<longrightarrow> vw_messages (vs ! j) = [] \<and> \<not> vw_compaction (vs ! j))"
proof (induction i)
  case (Suc i)
  show ?case
  proof (cases "Suc i > start \<and> \<not> (vw_compaction (vs ! i) \<or> vw_messages (vs ! i) \<noteq> [])")
    case True
    with Suc have "start \<le> include_metadata vs start i \<and> include_metadata vs start i \<le> i \<and>
        (\<forall>j. include_metadata vs start i \<le> j \<and> j < i \<longrightarrow> vw_messages (vs ! j) = [] \<and> \<not> vw_compaction (vs ! j))" by simp
    with True show ?thesis by (auto simp: less_Suc_eq)
  next
    case False
    then have "include_metadata vs start (Suc i) = Suc i" by (simp only: include_metadata.simps if_False)
    with Suc.prems show ?thesis by (auto simp del: include_metadata.simps)
  qed
qed simp

lemma include_metadata_stop:
  "vw_messages (vs ! i) \<noteq> [] \<Longrightarrow> include_metadata vs start (Suc i) = Suc i"
  by simp

lemma find_turn_start_facts:
  assumes "find_turn_start_index vs k start = Some t"
  shows "start \<le> t \<and> t \<le> k \<and> is_turn_start_view (vs ! t)"
proof -
  from find_Some_in [OF assms [unfolded find_turn_start_index_def]] show ?thesis by auto
qed

text \<open>
  The entries of a projection: one message at most outside the compaction it starts with, none for a
  context edit.
\<close>

definition projected_entry_ok :: "(pystr \<Rightarrow> int) \<Rightarrow> projected_entry \<Rightarrow> bool" where
  "projected_entry_ok epoch e \<longleftrightarrow>
     (\<not> is_compaction (en_body (pe_source e)) \<longrightarrow> length (pe_messages e) \<le> 1) \<and>
     (session_entry_to_context_messages epoch (pe_source e) = [] \<longrightarrow> pe_messages e = [])"

lemma session_entry_messages_length:
  "\<not> is_compaction (en_body e) \<Longrightarrow> length (session_entry_to_context_messages epoch e) \<le> 1"
  by (cases "en_body e") (auto simp: session_entry_to_context_messages_def)

lemma project_context_entry_ok:
  "projected_entry_ok epoch \<lparr>pe_source = e, pe_messages = project_context_entry epoch e edit\<rparr>"
  using session_entry_messages_length [of e epoch]
  by (auto simp: projected_entry_ok_def project_context_entry_def Let_def split: option.splits)

lemma projected_entries_ok: "pe \<in> set (project_entries epoch es) \<Longrightarrow> projected_entry_ok epoch pe"
proof (cases es)
  case (Cons c cs)
  assume "pe \<in> set (project_entries epoch es)"
  then show ?thesis
    using project_context_entry_ok
    by (auto simp: Cons project_entries_Cons plain_messages_def projected_entry_ok_def project_context_entry_def split: option.splits)
qed (simp add: project_entries_def)

text \<open>Only the first projected entry can be a compaction with messages.\<close>

lemma later_compactions_empty:
  assumes "i > 0" "i < length es" "is_compaction (en_body (es ! i))"
  shows "pe_messages (project_entries epoch es ! i) = []"
  using assms by (cases es) (auto simp: project_entries_Cons nth_Cons' plain_messages_def)

lemma length_project_entries [simp]: "length (project_entries epoch es) = length es"
  by (metis length_map project_entries_sources)

lemma source_nth: "i < length es \<Longrightarrow> pe_source (project_entries epoch es ! i) = es ! i"
  by (metis length_project_entries nth_map project_entries_sources)

lemma boundary_facts:
  assumes "es = project_entries epoch sel"
  shows "boundary_start es \<le> 1 \<and> (\<forall>i. boundary_start es \<le> i \<and> i < length es \<and> is_compaction (en_body (pe_source (es ! i))) \<longrightarrow>
    pe_messages (es ! i) = [])"
proof (cases "previous_compaction es")
  case None
  then have none: "\<not> (is_compaction (en_body (pe_source (es ! i))) \<and> pe_messages (es ! i) \<noteq> [])" if "i < length es" for i
    using that nth_mem unfolding previous_compaction_def find_index_None_iff by blast
  with None show ?thesis by (auto simp: boundary_start_def)
next
  case (Some i)
  then have i: "i < length es" "is_compaction (en_body (pe_source (es ! i)))" "pe_messages (es ! i) \<noteq> []"
    using find_index_Some unfolding previous_compaction_def by fast+
  have "i = 0"
  proof (rule ccontr)
    assume "i \<noteq> 0"
    with later_compactions_empty [of i sel epoch] i assms show False by (simp add: source_nth)
  qed
  with Some later_compactions_empty [of _ sel epoch] assms show ?thesis by (auto simp: boundary_start_def source_nth)
qed

text \<open>What the search over projected entries returns.\<close>

definition cut_ok :: "projected_entry list \<Rightarrow> nat \<Rightarrow> cut_point \<Rightarrow> bool" where
  "cut_ok es start c \<longleftrightarrow>
     (let k = cp_first_kept c in start \<le> k \<and> k < length es \<and> \<not> is_compaction (en_body (pe_source (es ! k))) \<and>
        (case concat (map pe_messages (drop k es)) of [] \<Rightarrow> True | m # _ \<Rightarrow> is_cut_point_message m) \<and>
        (cp_split c \<longrightarrow> (\<exists>t. cp_turn_start c = Some t \<and> start \<le> t \<and> t < k \<and> is_turn_start_view (projected_view (es ! t)))))"

lemma concat_drop_empty:
  "(\<And>j. k \<le> j \<Longrightarrow> j < i \<Longrightarrow> j < length es \<Longrightarrow> f (es ! j) = []) \<Longrightarrow> k \<le> i \<Longrightarrow>
   concat (map f (drop k es)) = concat (map f (drop i es))"
proof (induction "i - k" arbitrary: k)
  case (Suc n)
  show ?case
  proof (cases "k < length es")
    case True
    then have "drop k es = es ! k # drop (Suc k) es" by (simp add: Cons_nth_drop_Suc)
    moreover have "f (es ! k) = []" using Suc.prems(1) [of k] Suc.hyps(2) True by simp
    moreover have "concat (map f (drop (Suc k) es)) = concat (map f (drop i es))"
      by (rule Suc.hyps(1)) (use Suc in auto)
    ultimately show ?thesis by simp
  next
    case False
    with Suc.prems(2) show ?thesis by simp
  qed
qed simp

lemma close_cut_ok:
  assumes "start \<le> i" "i < length es" "\<not> is_compaction (en_body (pe_source (es ! i)))"
    "case concat (map pe_messages (drop i es)) of [] \<Rightarrow> True | m # _ \<Rightarrow> is_cut_point_message m"
  shows "cut_ok es start (close_cut (map projected_view es) start i)"
proof -
  let ?vs = "map projected_view es"
  define k where "k = include_metadata ?vs start i"
  note meta = include_metadata_facts [OF assms(1), of ?vs, folded k_def]
  have empty: "pe_messages (es ! j) = [] \<and> \<not> is_compaction (en_body (pe_source (es ! j)))" if "k \<le> j" "j < i" for j
    using meta that assms(2) by (auto simp: projected_view_def)
  then have same: "concat (map pe_messages (drop k es)) = concat (map pe_messages (drop i es))"
    using meta by (intro concat_drop_empty) auto
  have plain: "\<not> is_compaction (en_body (pe_source (es ! k)))"
    using empty [of k] assms(3) meta by (cases "k = i") auto
  have turn: "\<exists>t. find_turn_start_index ?vs k start = Some t \<and> start \<le> t \<and> t < k \<and> is_turn_start_view (projected_view (es ! t))"
    if "\<not> is_turn_start_view (?vs ! k)" "find_turn_start_index ?vs k start \<noteq> None"
  proof -
    from that(2) obtain t where t: "find_turn_start_index ?vs k start = Some t" by blast
    from find_turn_start_facts [OF this] have "start \<le> t" "t \<le> k" "is_turn_start_view (?vs ! t)" by auto
    with that(1) t meta assms(2) show ?thesis by (cases "t = k") auto
  qed
  show ?thesis
    unfolding cut_ok_def close_cut_def Let_def k_def [symmetric]
    using meta assms(2,4) same plain turn by auto
qed

lemma cut_point_head:
  assumes "i < length es" "projected_entry_ok epoch (es ! i)" "is_cut_point_view (projected_view (es ! i))"
  shows "\<not> is_compaction (en_body (pe_source (es ! i))) \<and>
    (\<exists>m. pe_messages (es ! i) = [m] \<and> is_cut_point_message m \<and>
      concat (map pe_messages (drop i es)) = m # concat (map pe_messages (drop (Suc i) es)))"
proof -
  from assms(3) have plain: "\<not> is_compaction (en_body (pe_source (es ! i)))" "list_ex is_cut_point_message (pe_messages (es ! i))"
    by (simp_all add: is_cut_point_view_def projected_view_def)
  with assms(2) obtain m where "pe_messages (es ! i) = [m]" "is_cut_point_message m"
    by (cases "pe_messages (es ! i)") (auto simp: projected_entry_ok_def)
  moreover have "drop i es = es ! i # drop (Suc i) es" using assms(1) by (simp add: Cons_nth_drop_Suc)
  ultimately show ?thesis using plain by simp
qed

lemma recovery_suffix_silent:
  assumes "recovery_suffix epoch es" "\<And>e. e \<in> set es \<Longrightarrow> projected_entry_ok epoch e"
  shows "es \<noteq> [] \<and> concat (map pe_messages es) = [] \<and> (\<forall>e \<in> set es. \<not> is_compaction (en_body (pe_source e)))"
proof -
  from assms(1) have all: "\<not> is_compaction (en_body (pe_source e)) \<and> (\<not> intrinsically_visible epoch e \<or> omitted epoch e)"
    if "e \<in> set es" for e
    using that by (simp add: recovery_suffix_def Let_def list_all_iff)
  have "session_entry_to_context_messages epoch e = []" if "is_context_edit (en_body e)" for e
    using that by (cases "en_body e") (auto simp: is_context_edit_def session_entry_to_context_messages_def)
  then have "pe_messages e = []" if "e \<in> set es" for e
    using all [OF that] assms(2) [OF that] by (auto simp: projected_entry_ok_def intrinsically_visible_def omitted_def)
  with all assms(1) show ?thesis by (auto simp: recovery_suffix_def Let_def list_ex_iff)
qed

lemma projected_cut_ok:
  assumes "\<And>e. e \<in> set es \<Longrightarrow> projected_entry_ok epoch e" "find_projected_cut_point epoch es start (length es) keep = c"
  shows "c = no_cut start \<and> find_valid_cut_points (map projected_view es) start (length es) = [] \<or> cut_ok es start c"
proof -
  let ?vs = "map projected_view es" and ?cps = "find_valid_cut_points (map projected_view es) start (length es)"
  let ?budget = "budget_cut ?vs keep ?cps (rev [start..<length es]) 0"
  define i where "i = (case ?budget of None \<Rightarrow> hd ?cps | Some i \<Rightarrow> i)"
  show ?thesis
  proof (cases "?cps = []")
    case True
    with assms(2) show ?thesis by (simp add: find_projected_cut_point_def Let_def)
  next
    case False
    then have "i \<in> set ?cps" unfolding i_def using budget_cut_in by (auto split: option.splits)
    then have i: "start \<le> i" "i < length es" "is_cut_point_view (projected_view (es ! i))"
      unfolding find_valid_cut_points_set by auto
    from cut_point_head [OF i(2) assms(1) [OF nth_mem [OF i(2)]] i(3)] obtain m where
      head: "\<not> is_compaction (en_body (pe_source (es ! i)))" "is_cut_point_message m"
        "concat (map pe_messages (drop i es)) = m # concat (map pe_messages (drop (Suc i) es))" by auto
    define b where "b \<longleftrightarrow> ?budget \<noteq> None \<and> recovery_suffix epoch (drop (Suc i) es)"
    have c: "c = close_cut ?vs start (if b then Suc i else i)"
      using assms(2) False unfolding find_projected_cut_point_def Let_def i_def [symmetric] by (cases b) (auto simp: b_def)
    show ?thesis
    proof (cases b)
      case True
      then have "recovery_suffix epoch (drop (Suc i) es)" by (simp add: b_def)
      from recovery_suffix_silent [OF this] assms(1) have silent: "drop (Suc i) es \<noteq> []"
        "concat (map pe_messages (drop (Suc i) es)) = []"
        "\<forall>e \<in> set (drop (Suc i) es). \<not> is_compaction (en_body (pe_source e))"
        by (auto dest: in_set_dropD)
      then have less: "Suc i < length es" by simp
      then have "es ! Suc i \<in> set (drop (Suc i) es)" by (metis Cons_nth_drop_Suc list.set_intros(1))
      with silent(3) have "\<not> is_compaction (en_body (pe_source (es ! Suc i)))" by blast
      moreover have "case concat (map pe_messages (drop (Suc i) es)) of [] \<Rightarrow> True | m # _ \<Rightarrow> is_cut_point_message m"
        unfolding silent(2) by simp
      ultimately have "cut_ok es start (close_cut ?vs start (Suc i))"
        using i(1) by (intro close_cut_ok [OF _ less]) simp_all
      with c True show ?thesis by simp
    next
      case no: False
      have "cut_ok es start (close_cut ?vs start i)"
        using i(1,2) head by (intro close_cut_ok) simp_all
      moreover have "c = close_cut ?vs start i" using c no by simp
      ultimately show ?thesis by simp
    qed
  qed
qed


subsection \<open>What a compaction summarizes and keeps\<close>

lemma concat_slices:
  "a \<le> b \<Longrightarrow> b \<le> length xs \<Longrightarrow> concat (map f (slice a b xs)) @ concat (map f (drop b xs)) = concat (map f (drop a xs))"
proof -
  assume "a \<le> b" "b \<le> length xs"
  then have "drop a xs = slice a b xs @ drop b xs"
    by (simp add: slice_def) (metis append_take_drop_id drop_append length_take min.absorb2 min.absorb4 diff_is_0_eq drop_0)
  then show ?thesis by simp
qed

lemma boundary_skips_nothing:
  "concat (map messages_for_compaction (drop (boundary_start es) es)) = concat (map messages_for_compaction es)"
  if "boundary_start es \<le> 1" for es
proof (cases "previous_compaction es")
  case (Some i)
  with that have "previous_compaction es = Some 0" by (simp add: boundary_start_def)
  then have "es \<noteq> []" "is_compaction (en_body (pe_source (es ! 0)))"
    using find_index_Some unfolding previous_compaction_def by fastforce+
  with Some that show ?thesis by (cases es) (simp_all add: boundary_start_def messages_for_compaction_def)
qed (simp add: boundary_start_def)

lemma kept_messages:
  assumes "\<forall>i. k \<le> i \<and> i < length es \<and> is_compaction (en_body (pe_source (es ! i))) \<longrightarrow> pe_messages (es ! i) = []"
  shows "concat (map messages_for_compaction (drop k es)) = filter (\<lambda>m. \<not> is_system_msg m) (concat (map pe_messages (drop k es)))"
proof -
  have "messages_for_compaction e = filter (\<lambda>m. \<not> is_system_msg m) (pe_messages e)" if e: "e \<in> set (drop k es)" for e
  proof -
    obtain j where "j < length es - k" "e = es ! (k + j)" using e by (auto simp: in_set_conv_nth)
    with assms show ?thesis by (auto simp: messages_for_compaction_def)
  qed
  then have "concat (map messages_for_compaction (drop k es)) =
      concat (map (filter (\<lambda>m. \<not> is_system_msg m)) (map pe_messages (drop k es)))"
    by (simp cong: map_cong)
  then show ?thesis by (simp only: filter_concat)
qed

lemma kept_head:
  assumes "start \<le> 1 \<and> (\<forall>i. start \<le> i \<and> i < length es \<and> is_compaction (en_body (pe_source (es ! i))) \<longrightarrow> pe_messages (es ! i) = [])"
    "start \<le> k" "case concat (map pe_messages (drop k es)) of [] \<Rightarrow> True | m # _ \<Rightarrow> is_cut_point_message m"
  shows "case concat (map messages_for_compaction (drop k es)) of [] \<Rightarrow> True | m # _ \<Rightarrow> is_cut_point_message m"
proof -
  have eq: "concat (map messages_for_compaction (drop k es)) = filter (\<lambda>m. \<not> is_system_msg m) (concat (map pe_messages (drop k es)))"
    by (rule kept_messages) (use assms(1,2) in auto)
  show ?thesis
  proof (cases "concat (map pe_messages (drop k es))")
    case (Cons m ms)
    with assms(3) have "is_cut_point_message m" by simp
    moreover from this have "\<not> is_system_msg m" by (cases m) auto
    ultimately show ?thesis unfolding eq Cons by simp
  qed (simp only: eq filter.simps list.case)
qed

lemma prepare_from_facts:
  assumes "es = project_entries epoch sel" "sp_entries pr = es" "prepare_from epoch pr path settings = Some p"
  shows "\<exists>k. boundary_start es \<le> k \<and> k < length es \<and> pr_first_kept p = en_id (pe_source (es ! k)) \<and>
    \<not> is_compaction (en_body (pe_source (es ! k))) \<and>
    pr_summarize p @ pr_turn_prefix p \<noteq> [] \<and>
    pr_summarize p @ pr_turn_prefix p @ concat (map messages_for_compaction (drop k es)) =
      concat (map messages_for_compaction es) \<and>
    (case concat (map messages_for_compaction (drop k es)) of [] \<Rightarrow> True | m # _ \<Rightarrow> is_cut_point_message m) \<and>
    (pr_split p \<longrightarrow> pr_turn_prefix p \<noteq> [] \<and> is_turn_start_message (hd (pr_turn_prefix p)))"
proof -
  let ?start = "boundary_start es"
  define c where "c = find_projected_cut_point epoch es ?start (length es) (cfg_keep_recent_tokens settings)"
  let ?k = "cp_first_kept c" and ?msgs = "\<lambda>xs. concat (map messages_for_compaction xs)"
  have ok: "projected_entry_ok epoch e" if "e \<in> set es" for e
    using projected_entries_ok that unfolding assms(1) by blast
  note bound = boundary_facts [OF assms(1)]
  from projected_cut_ok [OF ok c_def [symmetric]] consider
    (none) "c = no_cut ?start" | (cut) "cut_ok es ?start c" by blast
  then show ?thesis
  proof cases
    case none
    with assms(3) show ?thesis
      by (simp add: prepare_from_def Let_def assms(2) c_def [symmetric] no_cut_def slice_def split: if_splits)
  next
    case cut
    from cut have k: "?start \<le> ?k" "?k < length es" "\<not> is_compaction (en_body (pe_source (es ! ?k)))"
      "case concat (map pe_messages (drop ?k es)) of [] \<Rightarrow> True | m # _ \<Rightarrow> is_cut_point_message m"
      by (simp_all add: cut_ok_def Let_def)
    from assms(3) have p: "pr_first_kept p = en_id (pe_source (es ! ?k))" "pr_split p = cp_split c"
      "pr_summarize p @ pr_turn_prefix p \<noteq> []"
      by (auto simp: prepare_from_def Let_def assms(2) c_def [symmetric] split: if_splits)
    have "pr_summarize p @ pr_turn_prefix p @ ?msgs (drop ?k es) = ?msgs (drop ?start es) \<and>
      (pr_split p \<longrightarrow> pr_turn_prefix p \<noteq> [] \<and> is_turn_start_message (hd (pr_turn_prefix p)))"
    proof (cases "cp_split c")
      case False
      with assms(3) have "pr_summarize p = ?msgs (slice ?start ?k es)" "pr_turn_prefix p = []"
        by (auto simp: prepare_from_def Let_def assms(2) c_def [symmetric] split: if_splits)
      with concat_slices [of ?start ?k es messages_for_compaction] k p False show ?thesis by simp
    next
      case True
      with cut obtain t where t: "cp_turn_start c = Some t" "?start \<le> t" "t < ?k" "is_turn_start_view (projected_view (es ! t))"
        by (auto simp: cut_ok_def Let_def)
      with assms(3) True have parts: "pr_summarize p = ?msgs (slice ?start t es)" "pr_turn_prefix p = ?msgs (slice t ?k es)"
        by (auto simp: prepare_from_def Let_def assms(2) c_def [symmetric] split: if_splits)
      have "t < length es" using t k by simp
      from ok [OF nth_mem [OF this]] t(4) obtain m where m: "pe_messages (es ! t) = [m]" "is_turn_start_message m"
        "\<not> is_compaction (en_body (pe_source (es ! t)))"
        by (cases "pe_messages (es ! t)") (auto simp: projected_entry_ok_def is_turn_start_view_def projected_view_def)
      then have "messages_for_compaction (es ! t) = [m]" by (cases m) (simp_all add: messages_for_compaction_def)
      moreover have "slice t ?k es = es ! t # slice (Suc t) ?k es"
        using t k by (simp add: slice_def) (metis Cons_nth_drop_Suc length_take min.absorb4 nth_take order.strict_trans)
      ultimately have "pr_turn_prefix p = m # ?msgs (slice (Suc t) ?k es)" by (simp add: parts)
      with m(2) have "pr_turn_prefix p \<noteq> [] \<and> is_turn_start_message (hd (pr_turn_prefix p))" by (metis list.sel(1) list.discI)
      moreover have "pr_summarize p @ pr_turn_prefix p @ ?msgs (drop ?k es) = ?msgs (drop ?start es)"
        using concat_slices [of t ?k es messages_for_compaction] concat_slices [of ?start t es messages_for_compaction]
          t k unfolding parts by simp
      ultimately show ?thesis by blast
    qed
    with k(1-3) p kept_head [OF bound k(1,4)] boundary_skips_nothing [OF bound [THEN conjunct1]] show ?thesis by auto
  qed
qed


text \<open>Over a branch, the entry list itself is the path.\<close>

lemma build_session_path_branch:
  assumes "linked None p" "distinct (map en_id p)" "[] \<notin> ids_of p" "p \<noteq> []"
  shows "build_session_path p LeafUnset None = Some p"
proof -
  have idx: "build_entry_index p None = by_ids p"
    using index_entries_by_ids [of "[]" p] assms(2) by (simp add: build_entry_index_def)
  have look: "\<forall>x \<in> set p. dict_get (by_ids p) (en_id x) = Some x \<and> en_id x \<noteq> []"
    using get_by_ids [OF assms(2)] assms(3) by (metis image_eqI)
  have "length p \<le> Suc (length (by_ids p))" by simp
  from walk_of_linked [OF assms(1) look assms(4) this] show ?thesis
    using assms(4) by (simp add: build_session_path_def idx path_from_def last_entry_def del: walk_up.simps)
qed

lemma drop_at: "distinct (map f (A @ x # B)) \<Longrightarrow> j < length (A @ x # B) \<Longrightarrow> (A @ x # B) ! j = x \<Longrightarrow> drop j (A @ x # B) = x # B"
proof -
  assume a: "distinct (map f (A @ x # B))" "j < length (A @ x # B)" "(A @ x # B) ! j = x"
  from a(1) have d: "distinct (A @ x # B)" using distinct_map by blast
  have "j = length A"
    by (rule nth_eq_iff_index_eq [OF d a(2), THEN iffD1]) (use a(3) in simp_all)
  then show ?thesis by simp
qed

lemma nth_Cons_in_tail: "k \<noteq> 0 \<Longrightarrow> k < Suc (length xs) \<Longrightarrow> (c # xs) ! k \<in> set xs"
  by (cases k) simp_all

lemma from_first_kept_at: "en_id x \<notin> ids_of A \<Longrightarrow> from_first_kept (Some (en_id x)) (A @ x # B) = x # B"
  by (induction A) (auto simp: from_first_kept_def)

lemma from_first_kept_suffix: "\<exists>A. xs = A @ from_first_kept fk xs"
  using from_first_kept_split by blast

text \<open>
  Cutting the selected entries at one of them is cutting the whole path there, for what compactions
  and system prompts do not contribute to.
\<close>

lemma kept_suffix:
  assumes "distinct (map en_id p)" "k < length (select_context_entries p)"
    "\<not> is_compaction (en_body (select_context_entries p ! k))"
    "\<And>e. is_compaction (en_body e) \<or> is_system_entry (en_body e) \<Longrightarrow> f e = []"
  shows "concat (map f (from_first_kept (Some (en_id (select_context_entries p ! k))) p)) =
    concat (map f (drop k (select_context_entries p)))"
proof (cases "get_latest_compaction_entry p")
  case None
  then have sel: "select_context_entries p = p" by (simp add: select_context_entries_def)
  with assms(2) have p: "p = take k p @ p ! k # drop (Suc k) p" by (simp add: id_take_nth_drop)
  with assms(1) have "en_id (p ! k) \<notin> ids_of (take k p)"
    by (metis (no_types) distinct_append disjoint_iff image_eqI list.set_intros(1) list.set_map map_append list.simps(9))
  from from_first_kept_at [OF this, of "drop (Suc k) p"] p have "from_first_kept (Some (en_id (p ! k))) p = drop k p"
    by (metis Cons_nth_drop_Suc assms(2) sel)
  with sel show ?thesis by simp
next
  case (Some c)
  from latest_compaction_split [OF this] obtain xs ys where
    p: "p = xs @ c # ys" "is_compaction (en_body c)" "\<forall>e \<in> set ys. \<not> is_compaction (en_body e)" .
  define K where "K = from_first_kept (first_kept_of (en_body c)) xs"
  have sel: "select_context_entries p = c # filter not_system K @ ys"
    unfolding p(1) K_def by (rule select_at_compaction) (use assms p in auto)
  obtain A where A: "xs = A @ K" unfolding K_def using from_first_kept_suffix by blast
  have "distinct (map en_id (A @ K @ c # ys))" using assms(1) by (simp add: p(1) A)
  then have dist: "distinct (map en_id (select_context_entries p))"
    unfolding sel by (auto simp: distinct_map_filter)
  define x where "x = select_context_entries p ! k"
  have silent: "concat (map f (filter not_system es)) = concat (map f es)" for es
    using assms(4) by (induction es) auto
  have fc: "f c = []" using assms(4) p(2) by blast
  have k: "k \<noteq> 0" using assms(3) p(2) sel by (cases k) auto
  have "x \<in> set (filter not_system K @ ys)"
    unfolding x_def sel by (rule nth_Cons_in_tail) (use k assms(2) sel in simp_all)
  then consider (kept) "x \<in> set K" "not_system x" | (after) "x \<in> set ys" by auto
  then have "concat (map f (from_first_kept (Some (en_id x)) p)) = concat (map f (drop k (select_context_entries p)))"
  proof cases
    case kept
    from kept(1) obtain B C where K: "K = B @ x # C" by (meson split_list)
    have split: "select_context_entries p = (c # filter not_system B) @ x # filter not_system C @ ys" using sel K kept by simp
    have "p = (A @ B) @ x # C @ c # ys" using p A K by simp
    moreover from this assms(1) have "en_id x \<notin> ids_of (A @ B)" by auto
    ultimately have "from_first_kept (Some (en_id x)) p = x # C @ c # ys" using from_first_kept_at by metis
    moreover from drop_at [OF dist [unfolded split]] have "drop k (select_context_entries p) = x # filter not_system C @ ys"
      using assms(2) x_def unfolding split by simp
    ultimately show ?thesis using silent fc by simp
  next
    case after
    then obtain B C where ys: "ys = B @ x # C" by (meson split_list)
    have split: "select_context_entries p = (c # filter not_system K @ B) @ x # C" using sel ys by simp
    have "p = (xs @ c # B) @ x # C" using p ys by simp
    moreover from this assms(1) have "en_id x \<notin> ids_of (xs @ c # B)" by auto
    ultimately have "from_first_kept (Some (en_id x)) p = x # C" using from_first_kept_at by metis
    moreover from drop_at [OF dist [unfolded split]] have "drop k (select_context_entries p) = x # C"
      using assms(2) x_def unfolding split by simp
    ultimately show ?thesis by simp
  qed
  then show ?thesis by (simp only: x_def)
qed


lemma system_messages_none_iff: "system_messages ms = [] \<longleftrightarrow> (\<forall>m \<in> set ms. \<not> is_system_msg m)"
  by (induction ms rule: system_messages.induct) auto

definition compaction_messages :: "(pystr \<Rightarrow> int) \<Rightarrow> (pystr, content option) dict \<Rightarrow> entry \<Rightarrow> message list" where
  "compaction_messages epoch edits e =
    (if is_compaction (en_body e) then []
     else filter (\<lambda>m. \<not> is_system_msg m) (project_context_entry epoch e (dict_get edits (en_id e))))"

lemma compaction_messages_silent:
  assumes "is_compaction (en_body e) \<or> is_system_entry (en_body e)"
  shows "compaction_messages epoch edits e = []"
proof (cases "is_compaction (en_body e)")
  case False
  with assms obtain m where "en_body e = MessageE m" "raw_system m" by (cases "en_body e") auto
  then show ?thesis
    by (auto simp: compaction_messages_def project_context_entry_def session_entry_to_context_messages_def
        context_message_system edit_content_system Let_def split: option.split)
qed (simp add: compaction_messages_def)

lemma compaction_messages_plain:
  assumes "not_system e" "dict_get edits (en_id e) = dict_get edits' (en_id e)"
  shows "plain_messages epoch edits e = compaction_messages epoch edits' e"
proof -
  have "filter (\<lambda>m. \<not> is_system_msg m) (plain_messages epoch edits e) = plain_messages epoch edits e"
    using system_messages_none_iff plain_messages_no_system [OF assms(1), of epoch edits] by (metis filter_True)
  then show ?thesis using assms(2) by (auto simp: plain_messages_def compaction_messages_def split: if_splits)
qed

lemma messages_of_projected:
  assumes "targets_ok p" "distinct (map en_id p)" "i < length (select_context_entries p)"
  shows "messages_for_compaction (project_entries epoch (select_context_entries p) ! i) =
    compaction_messages epoch (collect_edits p) (select_context_entries p ! i)"
proof -
  let ?sel = "select_context_entries p"
  from assms(3) have "project_entries epoch ?sel ! i =
      \<lparr>pe_source = ?sel ! i, pe_messages = (if is_compaction (en_body (?sel ! i)) \<and> i > 0 then []
         else project_context_entry epoch (?sel ! i) (dict_get (collect_edits ?sel) (en_id (?sel ! i))))\<rparr>"
    by (simp add: project_entries_def Let_def nth_enumerate_eq)
  then show ?thesis
    using selected_edits [OF assms(1,2) nth_mem [OF assms(3)]]
    by (simp add: messages_for_compaction_def compaction_messages_def)
qed

lemma messages_of_projected_drop:
  assumes "targets_ok p" "distinct (map en_id p)"
  shows "map messages_for_compaction (drop k (project_entries epoch (select_context_entries p))) =
    map (compaction_messages epoch (collect_edits p)) (drop k (select_context_entries p))"
  by (rule nth_equalityI) (simp_all add: messages_of_projected [OF assms])


lemma kept_messages_after:
  assumes "targets_ok path" "distinct (map en_id path)" "k < length (select_context_entries path)"
    "\<not> is_compaction (en_body (select_context_entries path ! k))" "is_compaction (en_body c)"
  shows "let kept = filter not_system (from_first_kept (Some (en_id (select_context_entries path ! k))) path)
    in concat (map (plain_messages epoch (collect_edits (c # kept))) kept) =
      concat (map messages_for_compaction (drop k (project_entries epoch (select_context_entries path))))"
proof -
  let ?fk = "Some (en_id (select_context_entries path ! k))"
  let ?kept = "filter not_system (from_first_kept ?fk path)"
  let ?f = "compaction_messages epoch (collect_edits path)"
  have "plain_messages epoch (collect_edits (c # ?kept)) e = ?f e" if e: "e \<in> set ?kept" for e
  proof (rule compaction_messages_plain)
    show "not_system e" using e by simp
    have "filter (edits_target (en_id e)) (c # ?kept) = filter (edits_target (en_id e)) path"
      using edits_of_kept [OF assms(1), of e ?fk] e assms(5) by (cases "en_body c") (auto simp: edits_target.simps)
    then show "dict_get (collect_edits (c # ?kept)) (en_id e) = dict_get (collect_edits path) (en_id e)"
      by (metis edits_of_filter)
  qed
  then have "map (plain_messages epoch (collect_edits (c # ?kept))) ?kept = map ?f ?kept" by (intro map_cong [OF refl])
  then have "concat (map (plain_messages epoch (collect_edits (c # ?kept))) ?kept) = concat (map ?f ?kept)" by (rule arg_cong)
  moreover have "concat (map ?f (filter not_system es)) = concat (map ?f es)" for es
    using compaction_messages_silent by (induction es) auto
  ultimately show ?thesis
    using kept_suffix [OF assms(2-4), of ?f] compaction_messages_silent
    unfolding Let_def messages_of_projected_drop [OF assms(1,2)] by simp
qed

lemma path_of_branch:
  "session_ok s \<Longrightarrow> get_branch s None = Some path \<Longrightarrow> linked None path \<and> subseq path (get_entries s)"
  by (erule get_branch_cases [of s None]) auto

lemma prepared_from:
  assumes "prepare_compaction epoch path settings = Some (Some p)" "linked None path" "distinct (map en_id path)" "[] \<notin> ids_of path"
  shows "\<exists>pr. sp_entries pr = project_entries epoch (select_context_entries path) \<and> prepare_from epoch pr path settings = Some p"
proof -
  from assms(1) obtain pr where pr: "build_session_projection epoch path LeafUnset None = Some pr" "prepare_from epoch pr path settings = Some p"
    by (auto simp: prepare_compaction_def split: if_splits)
  show ?thesis
  proof (cases "path = []")
    case True
    with pr have "sp_entries pr = []"
      by (auto simp: build_session_projection_def build_session_path_def last_entry_def path_from_def project_entries_def
          select_context_entries_def get_latest_compaction_entry_def Let_def get_session_context_settings_def)
    with True pr(2) show ?thesis by (auto simp: project_entries_def select_context_entries_def get_latest_compaction_entry_def)
  next
    case False
    with pr(1) build_session_path_branch [OF assms(2-4)] have "sp_entries pr = project_entries epoch (select_context_entries path)"
      by (auto simp: build_session_projection_def Let_def split: prod.splits)
    with pr(2) show ?thesis by blast
  qed
qed

text \<open>
  C5. A compaction loses no message: after the prepared compaction is appended, the context is the
  system prompt's checkpoint, the summary and the kept messages; the messages given to be summarized
  (history and turn prefix, not both empty) followed by the kept ones are the conversation before.
  The kept part starts with a message a context can start with, never a tool result, and the prefix
  of a split turn starts with the message that opened the turn.
\<close>

theorem compaction_loses_no_message:
  assumes "reachable session_start (session_step ser) (s, d)" "draws_ok env (ids_of (get_entries s))"
    "get_branch s None = Some path" "prepare_compaction (ev_epoch env) path settings = Some (Some p)"
    "append_compaction ser env summary (Some (pr_first_kept p)) (pr_tokens_before p) details from_hook usage s d = Some (s', d', Inr i)"
  shows "\<exists>before after kept at. session_projection_of env s = Some before \<and> session_context_of env s' = Some after \<and>
    sc_messages after =
      (case get_current_system_message (sp_messages before) of
         None \<Rightarrow> [] | Some m \<Rightarrow> [SystemMsg (m\<lparr>sm_timestamp := ev_epoch env (ev_now env)\<rparr>)]) @
      create_compaction_summary_message (ev_epoch env) summary (pr_tokens_before p) at # kept \<and>
    pr_summarize p @ pr_turn_prefix p \<noteq> [] \<and>
    pr_summarize p @ pr_turn_prefix p @ kept = concat (map messages_for_compaction (sp_entries before)) \<and>
    (case kept of [] \<Rightarrow> True | m # _ \<Rightarrow> is_cut_point_message m) \<and>
    (pr_split p \<longrightarrow> pr_turn_prefix p \<noteq> [] \<and> is_turn_start_message (hd (pr_turn_prefix p)))"
proof -
  let ?fk = "Some (pr_first_kept p)" and ?epoch = "ev_epoch env" and ?sel = "select_context_entries path"
  from sess.reachable_inv [OF assms(1)] have ok: "session_ok s" by simp
  have run: "run_op ser env (AppendCompaction summary ?fk (pr_tokens_before p) details from_hook usage) (s, d) = Some (s', d', True)"
    using assms(5) by (simp add: ended_def)
  have ok': "session_ok s'" using run_op_ok [OF ok assms(2)] run by (metis option.inject prod.inject)
  obtain pr where pr: "session_projection_of env s = Some pr" using session_projection_returns [OF ok] by blast
  obtain pr' where pr': "session_projection_of env s' = Some pr'" using session_projection_returns [OF ok'] by blast
  let ?cb = "\<lambda>i. \<lparr>cb_summary = summary, cb_first_kept = Some (pr_first_kept p),
      cb_tokens_before = pr_tokens_before p, cb_details = details, cb_usage = usage, cb_from_hook = from_hook,
      cb_system = map_option (\<lambda>m. m\<lparr>sm_timestamp := ?epoch (ev_now env)\<rparr>) (get_current_system_message (sp_messages pr))\<rparr>"
  let ?c = "new_entry env s (ss_leaf s) (\<lambda>i. CompactionE (?cb i))"
  have "ended (append_body ser env (\<lambda>i. CompactionE (?cb i)) s d) = (s', d', True)"
    using assms(5) pr by (simp add: append_compaction_def Let_def ended_def)
  from append_body_appended [OF this] have app: "appended ser (ss_leaf s) ?c s d s' d' True" .
  from appended_branch [OF ok ok' app refl] assms(3) have branch: "get_branch s' None = Some (path @ [?c])" by auto
  obtain cid where body: "en_body ?c = CompactionE (?cb cid)" by (simp add: new_entry_def Let_def)
  have comp: "is_compaction (en_body ?c)" using body by simp
  have tree: "tree_ok (get_entries s @ [?c])" using session_tree [OF ok'] appended_entries(1) [OF app] by simp
  from path_of_branch [OF ok assms(3)] have path: "linked None path" "subseq path (get_entries s)" by auto
  note ids = tree_ok_ids [OF session_tree [OF ok]]
  have dist: "distinct (map en_id path)" using subseq_distinct_list [OF subseq_map [OF path(2)]] ids by blast
  have tg: "targets_ok path" using targets_ok_subseq [OF path(2) tree_ok_targets [OF session_tree [OF ok]]] .
  have pe: "sp_entries pr = project_entries ?epoch ?sel"
    using pr build_session_path_manager [OF ok] assms(3)
    by (auto simp: session_projection_of_def build_session_projection_def Let_def split: prod.splits)
  from prepared_from [OF assms(4) path(1) dist] ids path(2) obtain q where
    q: "sp_entries q = project_entries ?epoch ?sel" "prepare_from ?epoch q path settings = Some p"
    using subseq_set_subset by (metis (no_types, opaque_lifting) image_mono subsetD)
  from prepare_from_facts [OF refl q] obtain k where
    k: "k < length ?sel" "pr_first_kept p = en_id (?sel ! k)" "\<not> is_compaction (en_body (?sel ! k))"
      "pr_summarize p @ pr_turn_prefix p \<noteq> []"
      "pr_summarize p @ pr_turn_prefix p @ concat (map messages_for_compaction (drop k (project_entries ?epoch ?sel))) =
       concat (map messages_for_compaction (project_entries ?epoch ?sel))"
      "case concat (map messages_for_compaction (drop k (project_entries ?epoch ?sel))) of [] \<Rightarrow> True | m # _ \<Rightarrow> is_cut_point_message m"
      "pr_split p \<longrightarrow> pr_turn_prefix p \<noteq> [] \<and> is_turn_start_message (hd (pr_turn_prefix p))"
    by (auto simp: source_nth)
  let ?kept = "filter not_system (from_first_kept ?fk path)"
  have "concat (map (plain_messages ?epoch (collect_edits (?c # ?kept))) ?kept) =
      concat (map messages_for_compaction (drop k (project_entries ?epoch ?sel)))"
    by (rule kept_messages_after [OF tg dist k(1,3) comp, unfolded Let_def, folded k(2)])
  then have "projected_messages ?epoch (path @ [?c]) =
      (case get_current_system_message (sp_messages pr) of
         None \<Rightarrow> [] | Some m \<Rightarrow> [SystemMsg (m\<lparr>sm_timestamp := ?epoch (ev_now env)\<rparr>)]) @
      create_compaction_summary_message ?epoch summary (pr_tokens_before p) (en_timestamp ?c) #
      concat (map messages_for_compaction (drop k (project_entries ?epoch ?sel)))"
    using projected_compaction [OF tree path(2) body, of ?epoch] by (simp add: Let_def option.case_distrib split: option.split)
  with projection_of_branch [OF ok' branch pr'] pr' have
    "\<exists>after at. session_context_of env s' = Some after \<and> sc_messages after =
      (case get_current_system_message (sp_messages pr) of
         None \<Rightarrow> [] | Some m \<Rightarrow> [SystemMsg (m\<lparr>sm_timestamp := ?epoch (ev_now env)\<rparr>)]) @
      create_compaction_summary_message ?epoch summary (pr_tokens_before p) at #
      concat (map messages_for_compaction (drop k (project_entries ?epoch ?sel)))"
    by (auto simp: session_context_of_def)
  with pr k(4-7) pe show ?thesis by auto
qed

subsection \<open>The budget\<close>

definition tokens_from :: "projected_entry list \<Rightarrow> nat \<Rightarrow> int" where
  "tokens_from es i = int (estimate_all (concat (map pe_messages (drop i es))))"

lemma estimate_all_append: "estimate_all (xs @ ys) = estimate_all xs + estimate_all ys"
  by (simp add: estimate_all_def)

lemma tokens_from_step:
  "i < length es \<Longrightarrow> tokens_from es i = int (estimate_all (pe_messages (es ! i))) + tokens_from es (Suc i)"
  by (simp add: tokens_from_def Cons_nth_drop_Suc [symmetric] estimate_all_append del: drop_Suc)

lemma tokens_from_mono: "i \<le> j \<Longrightarrow> tokens_from es j \<le> tokens_from es i"
proof (induction j rule: dec_induct)
  case (step j)
  have "tokens_from es (Suc j) \<le> tokens_from es j"
  proof (cases "j < length es")
    case False
    then show ?thesis by (simp add: tokens_from_def)
  qed (simp add: tokens_from_step)
  with step show ?case by simp
qed simp

lemma budget_cut_spec:
  assumes "j \<le> length es" "tokens_from es j < keep"
  shows "case budget_cut (map projected_view es) keep cps (rev [start..<j]) (tokens_from es j) of
      None \<Rightarrow> start \<le> j \<longrightarrow> tokens_from es start < keep
    | Some c \<Rightarrow> \<exists>i. start \<le> i \<and> i < j \<and> tokens_from es (Suc i) < keep \<and>
        c = (case find (\<lambda>c. c \<ge> i) cps of Some c \<Rightarrow> c | None \<Rightarrow> last cps)"
  using assms
proof (induction j)
  case 0
  then show ?case by (cases "start = 0") auto
next
  case (Suc j)
  show ?case
  proof (cases "start \<le> j")
    case False
    then show ?thesis using Suc.prems by (cases "start = Suc j") auto
  next
    case True
    let ?t = "int (estimate_all (pe_messages (es ! j)))"
    have step: "tokens_from es j = ?t + tokens_from es (Suc j)" using Suc.prems by (simp add: tokens_from_step)
    have eq: "budget_cut (map projected_view es) keep cps (rev [start..<Suc j]) (tokens_from es (Suc j)) =
        (if ?t \<noteq> 0 \<and> tokens_from es j \<ge> keep
         then Some (case find (\<lambda>c. c \<ge> j) cps of Some c \<Rightarrow> c | None \<Rightarrow> last cps)
         else budget_cut (map projected_view es) keep cps (rev [start..<j]) (tokens_from es j))"
      using True Suc.prems step by (simp add: projected_view_def Let_def add.commute)
    show ?thesis
    proof (cases "?t \<noteq> 0 \<and> tokens_from es j \<ge> keep")
      case reached: True
      then show ?thesis unfolding eq using True Suc.prems by auto
    next
      case no: False
      with step Suc.prems have "tokens_from es j < keep" by auto
      from Suc.IH [OF _ this] Suc.prems True show ?thesis
        unfolding eq if_not_P [OF no]
        by (cases "budget_cut (map projected_view es) keep cps (rev [start..<j]) (tokens_from es j)") (auto intro: less_SucI)
    qed
  qed
qed


text \<open>What is kept from an index on: within the budget after its first message, or no later place to cut.\<close>

definition within_keep :: "int \<Rightarrow> message list \<Rightarrow> bool" where
  "within_keep keep kept \<longleftrightarrow>
     int (estimate_all (tl kept)) < keep \<or> list_all (\<lambda>m. \<not> is_cut_point_message m) (tl kept)"

lemma estimate_all_tl: "estimate_all (tl ms) \<le> estimate_all ms"
  by (cases ms) (simp_all add: estimate_all_def)

lemma within_keep_tokens: "tokens_from es k < keep \<Longrightarrow> within_keep keep (concat (map pe_messages (drop k es)))"
  using estimate_all_tl [of "concat (map pe_messages (drop k es))"] by (simp add: within_keep_def tokens_from_def)

lemma no_cut_after:
  assumes "\<forall>i. start \<le> i \<and> i < length es \<and> is_compaction (en_body (pe_source (es ! i))) \<longrightarrow> pe_messages (es ! i) = []"
    "start \<le> k" "\<forall>c \<in> set (find_valid_cut_points (map projected_view es) start (length es)). c < k"
  shows "list_all (\<lambda>m. \<not> is_cut_point_message m) (concat (map pe_messages (drop k es)))"
  unfolding list_all_iff
proof
  fix m assume "m \<in> set (concat (map pe_messages (drop k es)))"
  then obtain e where e: "e \<in> set (drop k es)" "m \<in> set (pe_messages e)" by auto
  from e(1) obtain j where "j < length es - k" "e = es ! (k + j)" by (auto simp: in_set_conv_nth)
  with e(2) have j: "j < length es - k" "m \<in> set (pe_messages (es ! (k + j)))" by auto
  let ?i = "k + j"
  have "?i \<notin> set (find_valid_cut_points (map projected_view es) start (length es))" using assms(3) by auto
  with j assms(2) have "\<not> is_cut_point_view (projected_view (es ! ?i))" unfolding find_valid_cut_points_set by auto
  moreover have "\<not> is_compaction (en_body (pe_source (es ! ?i)))" using assms(1,2) j by fastforce
  ultimately show "\<not> is_cut_point_message m"
    using j by (auto simp: is_cut_point_view_def projected_view_def list_ex_iff)
qed

lemma list_all_tl: "list_all P xs \<Longrightarrow> list_all P (tl xs)"
  by (cases xs) auto

lemma last_find_None:
  assumes "find (\<lambda>c. c \<ge> i) cps = None" "cps \<noteq> []" "sorted (cps :: nat list)"
  shows "last cps < i \<and> (\<forall>c \<in> set cps. c < Suc (last cps))"
proof -
  have "last cps < i" using assms(1,2) by (auto simp: find_None_iff not_le)
  moreover have "c \<le> last cps" if "c \<in> set cps" for c
    using that assms(2,3) by (induction cps) auto
  ultimately show ?thesis by (auto simp: less_Suc_eq_le)
qed

lemma budget_keeps:
  assumes "\<And>e. e \<in> set es \<Longrightarrow> projected_entry_ok epoch e"
    "\<forall>i. start \<le> i \<and> i < length es \<and> is_compaction (en_body (pe_source (es ! i))) \<longrightarrow> pe_messages (es ! i) = []"
    "cps = find_valid_cut_points (map projected_view es) start (length es)" "cps \<noteq> []" "0 < keep"
    "c = (case budget_cut (map projected_view es) keep cps (rev [start..<length es]) 0 of None \<Rightarrow> hd cps | Some i \<Rightarrow> i)"
  shows "within_keep keep (concat (map pe_messages (drop c es)))"
proof -
  have mem: "start \<le> x \<and> x < length es \<and> is_cut_point_view (projected_view (es ! x))" if "x \<in> set cps" for x
    using that assms(3) unfolding assms(3) find_valid_cut_points_set by auto
  have zero: "tokens_from es (length es) = 0" by (simp add: tokens_from_def estimate_all_def)
  note spec = budget_cut_spec [of "length es" es keep start cps, OF order_refl, unfolded zero, OF assms(5)]
  have at: "\<exists>m. pe_messages (es ! x) = [m] \<and>
      concat (map pe_messages (drop x es)) = m # concat (map pe_messages (drop (Suc x) es))" if "x \<in> set cps" for x
    using cut_point_head [of x es epoch] assms(1) mem [OF that] by auto
  show ?thesis
  proof (cases "budget_cut (map projected_view es) keep cps (rev [start..<length es]) 0")
    case None
    have hd: "hd cps \<in> set cps" using assms(4) by simp
    have "tokens_from es start < keep" using spec None mem [OF hd] by simp
    moreover have "tokens_from es c \<le> tokens_from es start" using mem [OF hd] assms(6) None by (simp add: tokens_from_mono)
    ultimately show ?thesis using within_keep_tokens by simp
  next
    case (Some c')
    with assms(6) have c: "c' = c" by simp
    with spec Some obtain i where i: "start \<le> i" "i < length es" "tokens_from es (Suc i) < keep"
      "c = (case find (\<lambda>c. c \<ge> i) cps of Some c \<Rightarrow> c | None \<Rightarrow> last cps)" by auto
    show ?thesis
    proof (cases "find (\<lambda>c. c \<ge> i) cps")
      case None
      with i(4) have last: "c = last cps" by simp
      have "sorted cps" unfolding assms(3) find_valid_cut_points_def by (simp add: sorted_wrt_filter)
      from last_find_None [OF None assms(4) this] have "\<forall>x \<in> set cps. x < Suc c" unfolding last by blast
      moreover have "c \<in> set cps" using last assms(4) by simp
      ultimately show ?thesis
        using no_cut_after [OF assms(2), of "Suc c"] at [of c] mem [of c] by (auto simp: within_keep_def assms(3))
    next
      case (Some x)
      with i(4) have x: "c \<in> set cps" "i \<le> c" using find_Some_in [OF Some] by auto
      then obtain m where "concat (map pe_messages (drop c es)) = m # concat (map pe_messages (drop (Suc c) es))" using at by blast
      moreover have "tokens_from es (Suc c) < keep" using tokens_from_mono [of "Suc i" "Suc c" es] x(2) i(3) by simp
      ultimately show ?thesis by (simp add: within_keep_def tokens_from_def)
    qed
  qed
qed

text \<open>
  The kept part of the conversation stays within the budget: after its first message it is
  estimated below \<open>keep_recent_tokens\<close>, unless it has no later message a cut could be made at.
\<close>

theorem kept_part_is_within_the_budget:
  assumes "0 < cfg_keep_recent_tokens settings" "prepare_from epoch pr path settings = Some p"
    "sp_entries pr = project_entries epoch sel"
  shows "\<exists>k. k < length (sp_entries pr) \<and> pr_first_kept p = en_id (pe_source (sp_entries pr ! k)) \<and>
    (let kept = concat (map pe_messages (drop k (sp_entries pr)))
     in int (estimate_all (tl kept)) < cfg_keep_recent_tokens settings \<or>
        list_all (\<lambda>m. \<not> is_cut_point_message m) (tl kept))"
proof -
  let ?es = "sp_entries pr" and ?keep = "cfg_keep_recent_tokens settings"
  let ?start = "boundary_start ?es" and ?vs = "map projected_view ?es"
  let ?cps = "find_valid_cut_points ?vs ?start (length ?es)"
  let ?k = "cp_first_kept (find_projected_cut_point epoch ?es ?start (length ?es) ?keep)"
  have ok: "projected_entry_ok epoch e" if "e \<in> set ?es" for e
    using projected_entries_ok that unfolding assms(3) by blast
  note bound = boundary_facts [OF assms(3)]
  have k: "?k < length ?es" "pr_first_kept p = en_id (pe_source (?es ! ?k))"
    using assms(2) by (auto simp: prepare_from_def Let_def split: if_splits)
  have "within_keep ?keep (concat (map pe_messages (drop ?k ?es)))"
  proof (cases "?cps = []")
    case True
    have "list_all (\<lambda>m. \<not> is_cut_point_message m) (concat (map pe_messages (drop ?start ?es)))"
      by (rule no_cut_after [OF bound [THEN conjunct2] order_refl]) (simp add: True)
    moreover have "?k = ?start" using True by (simp add: find_projected_cut_point_def no_cut_def Let_def)
    ultimately show ?thesis unfolding within_keep_def by (metis list_all_tl)
  next
    case False
    define i where "i = (case budget_cut ?vs ?keep ?cps (rev [?start..<length ?es]) 0 of None \<Rightarrow> hd ?cps | Some i \<Rightarrow> i)"
    have "i \<in> set ?cps" unfolding i_def using False budget_cut_in by (auto split: option.splits)
    then have i: "?start \<le> i" "i < length ?es" unfolding find_valid_cut_points_set by auto
    define b where "b \<longleftrightarrow> budget_cut ?vs ?keep ?cps (rev [?start..<length ?es]) 0 \<noteq> None \<and>
      recovery_suffix epoch (drop (Suc i) ?es)"
    have "find_projected_cut_point epoch ?es ?start (length ?es) ?keep = close_cut ?vs ?start (if b then Suc i else i)"
      using False unfolding find_projected_cut_point_def Let_def i_def [symmetric] by (cases b) (auto simp: b_def)
    then have k_eq: "?k = include_metadata ?vs ?start (if b then Suc i else i)" by (simp add: close_cut_def Let_def)
    have "within_keep ?keep (concat (map pe_messages (drop (if b then Suc i else i) ?es)))"
    proof (cases b)
      case True
      from recovery_suffix_silent [of epoch "drop (Suc i) ?es"] True ok have "concat (map pe_messages (drop (Suc i) ?es)) = []"
        by (auto simp: b_def dest: in_set_dropD)
      with True show ?thesis by (simp only: if_True within_keep_def) simp
    next
      case no: False
      from budget_keeps [OF ok bound [THEN conjunct2] refl False assms(1) i_def] no show ?thesis by simp
    qed
    moreover have "concat (map pe_messages (drop ?k ?es)) = concat (map pe_messages (drop (if b then Suc i else i) ?es))"
    proof (rule concat_drop_empty)
      have "?start \<le> (if b then Suc i else i)" using i by simp
      note meta = include_metadata_facts [OF this, of ?vs, folded k_eq]
      then show "?k \<le> (if b then Suc i else i)" by blast
      show "pe_messages (?es ! j) = []" if j: "?k \<le> j" "j < (if b then Suc i else i)" "j < length ?es" for j
      proof -
        from meta j(1,2) have "vw_messages (?vs ! j) = []" by blast
        with j(3) show ?thesis by (simp add: projected_view_def)
      qed
    qed
    ultimately show ?thesis by simp
  qed
  with k show ?thesis unfolding within_keep_def Let_def by blast
qed


subsection \<open>On the example session\<close>

definition example_keep_one :: compaction_settings where
  "example_keep_one = \<lparr>cfg_enabled = True, cfg_reserve_tokens = 0, cfg_keep_recent_tokens = 1\<rparr>"

definition example_prepared :: "preparation_of_compaction option option" where
  "example_prepared = prepare_compaction (ev_epoch (example_env 4))
     (case get_branch (fst example_session) None of Some path \<Rightarrow> path | None \<Rightarrow> []) example_keep_one"

lemma example_branch: "\<exists>path. get_branch (fst example_session) None = Some path"
proof -
  have "get_branch (fst example_session) None \<noteq> None" by code_simp
  then show ?thesis by blast
qed

text \<open>
  A label stands between the two user messages of the session, the cut at the second one moves back
  onto the label, and the first message becomes the prefix of a split turn.
\<close>

lemma example_split_turn:
  "case example_prepared of Some (Some p) \<Rightarrow>
     pr_first_kept p = example_id 2 \<and> pr_split p \<and> pr_summarize p = [] \<and>
     pr_turn_prefix p = [UserMsg \<lparr>um_content = StrContent (lit ''hi''), um_timestamp = 0\<rparr>] | _ \<Rightarrow> False"
  by code_simp

theorem compaction_loses_no_message_witness:
  "\<exists>p s' d' i after kept at. example_prepared = Some (Some p) \<and>
     append_compaction example_ser (example_env 4) (lit ''summary'') (Some (pr_first_kept p)) (pr_tokens_before p) None None None
       (fst example_session) (snd example_session) = Some (s', d', Inr i) \<and>
     session_context_of (example_env 4) s' = Some after \<and>
     pr_turn_prefix p = [UserMsg \<lparr>um_content = StrContent (lit ''hi''), um_timestamp = 0\<rparr>] \<and>
     sc_messages after = SystemMsg at # create_compaction_summary_message (\<lambda>_. 0) (lit ''summary'') (pr_tokens_before p) (lit ''now'') # kept"
proof -
  from example_split_turn obtain p where
    p: "example_prepared = Some (Some p)" "pr_turn_prefix p = [UserMsg \<lparr>um_content = StrContent (lit ''hi''), um_timestamp = 0\<rparr>]"
    by (auto split: option.splits)
  obtain path where path: "get_branch (fst example_session) None = Some path" using example_branch by blast
  then have prep: "prepare_compaction (ev_epoch (example_env 4)) path example_keep_one = Some (Some p)"
    using p(1) by (simp add: example_prepared_def)
  let ?app = "\<lambda>p. append_compaction example_ser (example_env 4) (lit ''summary'') (Some (pr_first_kept p)) (pr_tokens_before p) None None None
       (fst example_session) (snd example_session)"
  have "case example_prepared of Some (Some p) \<Rightarrow> (case ?app p of Some (s, d, Inr i) \<Rightarrow>
      (case session_context_of (example_env 4) s of Some after \<Rightarrow> is_system_msg (hd (sc_messages after)) | None \<Rightarrow> False) | _ \<Rightarrow> False) | _ \<Rightarrow> False"
    by code_simp
  with p(1) have "case ?app p of Some (s, d, Inr i) \<Rightarrow>
      (case session_context_of (example_env 4) s of Some after \<Rightarrow> is_system_msg (hd (sc_messages after)) | None \<Rightarrow> False) | _ \<Rightarrow> False"
    by (simp only: p(1) option.simps)
  then obtain s' d' i after where app: "?app p = Some (s', d', Inr i)"
      "session_context_of (example_env 4) s' = Some after" "is_system_msg (hd (sc_messages after))"
    by (auto split: option.splits prod.splits sum.splits)
  have "(ev_epoch (example_env 4)) = (\<lambda>_. 0)" by (simp add: example_env_def)
  with compaction_loses_no_message [OF example_session_reachable example_session_draws path prep app(1)] app(2,3)
  obtain y kept where "sc_messages after = SystemMsg y #
      create_compaction_summary_message (\<lambda>_. 0) (lit ''summary'') (pr_tokens_before p) (lit ''now'') # kept"
    by (auto simp: create_compaction_summary_message_def split: option.splits)
  with app(1,2) p show ?thesis by blast
qed

theorem kept_part_is_within_the_budget_witness:
  "\<exists>pr p k. prepare_from (\<lambda>_. 0) pr [] example_keep_one = Some p \<and> k < length (sp_entries pr) \<and>
     pr_first_kept p = en_id (pe_source (sp_entries pr ! k)) \<and> pr_first_kept p = example_id 2"
proof -
  let ?sel = "select_context_entries (get_entries (fst example_session))"
  let ?pr = "\<lparr>sp_entries = project_entries (\<lambda>_. 0) ?sel, sp_messages = [], sp_thinking_level = [], sp_model = None\<rparr>"
  have "map_option pr_first_kept (prepare_from (\<lambda>_. 0) ?pr [] example_keep_one) = Some (example_id 2)" by code_simp
  then obtain p where p: "prepare_from (\<lambda>_. 0) ?pr [] example_keep_one = Some p" "pr_first_kept p = example_id 2" by blast
  have "0 < cfg_keep_recent_tokens example_keep_one" by (simp add: example_keep_one_def)
  from kept_part_is_within_the_budget [OF this p(1), of ?sel] p show ?thesis by fastforce
qed

end
