(* ===== verification/Patterns.thy ===== *)
theory Patterns
  imports Messages
begin

section \<open>Patterns\<close>

text \<open>
  The fragment of \<open>re\<close> syntax that the error patterns of \<open>ai/utils/retry.py\<close> and \<open>ai/utils/overflow.py\<close>
  use, searched with \<open>re.IGNORECASE\<close>: matching returns every position a match can end at.
\<close>

text \<open>\<open>.\<close>, \<open>\s\<close>, \<open>\S\<close>, \<open>\d\<close>, \<open>[\d,]\<close> and a class of characters, given by the ones it lists.\<close>

datatype char_class = AnyChar | Space | NonSpace | Digit | DigitOrComma | OneOf pystr

text \<open>
  A literal, a class, its repetitions, \<open>(?:..)?\<close>, \<open>(?:..|..)\<close>, \<open>(?<![a-z0-9])\<close>, \<open>(?![a-z0-9])\<close>,
  \<open>^\<close> and \<open>$\<close>.
\<close>

datatype rx = Lit pystr | One char_class | Many char_class | Some_of char_class | Opt "rx list" | Alt "rx list list"
  | NotAfterAlnum | NotBeforeAlnum | AtStart | AtEnd

text \<open>
  Case folding of the characters the patterns hold: the ASCII letters, and the four other characters
  Python matches with one of them.
\<close>

definition fold_case :: "nat \<Rightarrow> nat" where
  "fold_case c =
    (if 65 \<le> c \<and> c \<le> 90 then c + 32
     else if c = 304 \<or> c = 305 then 105
     else if c = 383 then 115
     else if c = 8490 then 107
     else c)"

definition is_alnum :: "nat \<Rightarrow> bool" where
  "is_alnum c \<longleftrightarrow> 48 \<le> c \<and> c \<le> 57 \<or> 97 \<le> fold_case c \<and> fold_case c \<le> 122"

text \<open>The decimal digits of Unicode stand in runs of ten.\<close>

definition digit_runs :: "nat list" where
  "digit_runs =
    [1632, 1776, 1984, 2406, 2534, 2662, 2790, 2918, 3046, 3174, 3302, 3430, 3558, 3664, 3792, 3872, 4160, 4240,
     6112, 6160, 6470, 6608, 6784, 6800, 6992, 7088, 7232, 7248, 42528, 43216, 43264, 43472, 43504, 43600, 44016,
     65296, 66720, 68912, 68928, 69734, 69872, 69942, 70096, 70384, 70736, 70864, 71248, 71360, 71376, 71386,
     71472, 71904, 72016, 72688, 72784, 73040, 73120, 73552, 92768, 92864, 93008, 93552, 118000, 120782, 120792,
     120802, 120812, 120822, 123200, 123632, 124401, 125264, 130032]"

definition is_digit :: "nat \<Rightarrow> bool" where
  "is_digit c \<longleftrightarrow> 48 \<le> c \<and> c \<le> 57 \<or> 127 < c \<and> list_ex (\<lambda>z. z \<le> c \<and> c \<le> z + 9) digit_runs"

fun in_class :: "char_class \<Rightarrow> nat \<Rightarrow> bool" where
  "in_class AnyChar c = (c \<noteq> NL)"
| "in_class Space c = py_isspace c"
| "in_class NonSpace c = (\<not> py_isspace c)"
| "in_class Digit c = is_digit c"
| "in_class DigitOrComma c = (is_digit c \<or> c = 44)"
| "in_class (OneOf cs) c = list_ex (\<lambda>d. fold_case d = fold_case c) cs"

text \<open>A position is the character before it, if any, and the rest of the text.\<close>

type_synonym position = "nat option \<times> pystr"

fun match_lit :: "pystr \<Rightarrow> position \<Rightarrow> position list" where
  "match_lit [] p = [p]"
| "match_lit (c # cs) (b, []) = []"
| "match_lit (c # cs) (b, d # ds) = (if fold_case c = fold_case d then match_lit cs (Some d, ds) else [])"

text \<open>The ends of \<open>x+\<close>.\<close>

fun match_some :: "char_class \<Rightarrow> position \<Rightarrow> position list" where
  "match_some k (b, []) = []"
| "match_some k (b, d # ds) = (if in_class k d then (Some d, ds) # match_some k (Some d, ds) else [])"

fun rx_match :: "rx \<Rightarrow> position \<Rightarrow> position list" and rx_seq :: "rx list \<Rightarrow> position \<Rightarrow> position list"
  and rx_alt :: "rx list list \<Rightarrow> position \<Rightarrow> position list" where
  "rx_match (Lit s) p = match_lit s p"
| "rx_match (One k) p = (case p of (b, d # ds) \<Rightarrow> if in_class k d then [(Some d, ds)] else [] | _ \<Rightarrow> [])"
| "rx_match (Many k) p = p # match_some k p"
| "rx_match (Some_of k) p = match_some k p"
| "rx_match (Opt rs) p = rx_seq rs p @ [p]"
| "rx_match (Alt rss) p = rx_alt rss p"
| "rx_match NotAfterAlnum p = (case p of (Some b, _) \<Rightarrow> if is_alnum b then [] else [p] | _ \<Rightarrow> [p])"
| "rx_match NotBeforeAlnum p = (case p of (_, d # ds) \<Rightarrow> if is_alnum d then [] else [p] | _ \<Rightarrow> [p])"
| "rx_match AtStart p = (if fst p = None then [p] else [])"
| "rx_match AtEnd p = (if snd p = [] \<or> snd p = [NL] then [p] else [])"
| "rx_seq [] p = [p]"
| "rx_seq (r # rs) p = concat (map (rx_seq rs) (rx_match r p))"
| "rx_alt [] p = []"
| "rx_alt (rs # rss) p = rx_seq rs p @ rx_alt rss p"

text \<open>\<open>pattern.search(text)\<close> finds a match; a list of patterns stands for their alternatives.\<close>

fun search_from :: "rx list list \<Rightarrow> nat option \<Rightarrow> pystr \<Rightarrow> bool" where
  "search_from rss b [] = (rx_alt rss (b, []) \<noteq> [])"
| "search_from rss b (d # ds) = (rx_alt rss (b, d # ds) \<noteq> [] \<or> search_from rss (Some d) ds)"

definition search :: "rx list list \<Rightarrow> pystr \<Rightarrow> bool" where
  "search rss s = search_from rss None s"

text \<open>Searching a longer list of patterns finds at least as much.\<close>

lemma search_append: "search (xs @ ys) s \<longleftrightarrow> search xs s \<or> search ys s"
proof -
  have alt: "rx_alt (xs @ ys) p = rx_alt xs p @ rx_alt ys p" for p by (induction xs) auto
  have "search_from (xs @ ys) b s \<longleftrightarrow> search_from xs b s \<or> search_from ys b s" for b
    by (induction s arbitrary: b) (auto simp: alt)
  then show ?thesis by (simp add: search_def)
qed

end
