(* ===== verification/Retry.thy ===== *)
theory Retry
  imports Patterns
begin

section \<open>Retrying an assistant call (ai/utils/retry.py)\<close>

text \<open>
  The classification of failed responses by their error text, and the retry loop. Delays are whole
  milliseconds. The calls, and whether the cancel token is set when a sleep ends, are parameters
  indexed by the number of the attempt; callbacks are recorded as events and do not raise.
\<close>

subsection \<open>Retryable errors\<close>

definition non_retryable_patterns :: "rx list list" where
  \<open>non_retryable_patterns =
    [[Lit (lit ''GoUsageLimitError'')],
     [Lit (lit ''FreeUsageLimitError'')],
     [Lit (lit ''Monthly usage limit reached'')],
     [Lit (lit ''available balance'')],
     [Lit (lit ''insufficient_quota'')],
     [Lit (lit ''out of budget'')],
     [Lit (lit ''quota exceeded'')],
     [Lit (lit ''billing'')],
     [Lit (lit ''subscription_sharing_usage_limit_exceeded'')],
     [Lit (lit ''subscription_sharing_workplace_individual_usage_limit_exceeded'')]]\<close>


text \<open>Status codes must not be part of a longer word or number.\<close>

definition status_code_pattern :: "rx list" where
  "status_code_pattern =
    [NotAfterAlnum, Alt
      [[Lit (lit ''429'')], [Lit (lit ''500'')], [Lit (lit ''502'')], [Lit (lit ''503'')], [Lit (lit ''504'')], [Lit (lit ''520'')], [Lit (lit ''524'')]],
     NotBeforeAlnum]"

definition retryable_patterns :: "rx list list" where
  \<open>retryable_patterns =
    [[Lit (lit ''overloaded'')],
     [Lit (lit ''server_busy'')],
     [Lit (lit ''servers are currently busy'')],
     [Lit (lit ''currently experiencing high demand'')],
     [Lit (lit ''model is at capacity'')],
     [Lit (lit ''rate''), Opt [One AnyChar], Lit (lit ''limit'')],
     [Lit (lit ''too many requests'')],
     status_code_pattern,
     [Lit (lit ''service''), Opt [One AnyChar], Opt [Lit (lit ''is''), Opt [One AnyChar]], Opt [Lit (lit ''temporarily''), Opt [One AnyChar]], Lit (lit ''unavailable'')],
     [Lit (lit ''server''), Opt [One AnyChar], Lit (lit ''error'')],
     [Lit (lit ''internal''), Opt [One AnyChar], Lit (lit ''error'')],
     [Lit (lit ''provider''), Opt [One AnyChar], Lit (lit ''returned''), Opt [One AnyChar], Opt [Lit (lit ''an''), Opt [One AnyChar]], Lit (lit ''error'')],
     [Lit (lit ''exceeded request buffer limit while retrying upstream'')],
     [Lit (lit ''unable to forward upstream'')],
     [Lit (lit ''upstream''), Opt [One AnyChar], Lit (lit ''request''), Opt [One AnyChar], Lit (lit ''failed'')],
     [Lit (lit ''upstream_stream_read_error'')],
     [Lit (lit ''stream was interrupted'')],
     [Lit (lit ''http''), Opt [Lit (lit ''/'')], Lit (lit ''2 stream failed'')],
     [Lit (lit ''network''), Opt [One AnyChar], Lit (lit ''error'')],
     [Lit (lit ''connection''), Opt [One AnyChar], Lit (lit ''error'')],
     [Lit (lit ''connection''), Opt [One AnyChar], Lit (lit ''refused'')],
     [Lit (lit ''connection''), Opt [One AnyChar], Lit (lit ''lost'')],
     [Lit (lit ''other side closed'')],
     [Lit (lit ''fetch failed'')],
     [Lit (lit ''request to ''), Some_of NonSpace, Lit (lit '' failed, reason:'')],
     [Lit (lit ''getaddrinfo'')],
     [Lit (lit ''ENOTFOUND'')],
     [Lit (lit ''EAI_AGAIN'')],
     [Lit (lit ''upstream''), Opt [One AnyChar], Lit (lit ''connect'')],
     [Lit (lit ''reset before headers'')],
     [Lit (lit ''socket hang up'')],
     [Lit (lit ''socket connection was closed'')],
     [Lit (lit ''time''), Opt [Lit (lit ''d'')], Lit (lit '' out'')],
     [Lit (lit ''timeout'')],
     [Lit (lit ''terminated'')],
     [Lit (lit ''websocket''), Opt [One AnyChar], Lit (lit ''closed'')],
     [Lit (lit ''websocket''), Opt [One AnyChar], Lit (lit ''error'')],
     [Lit (lit ''ended without'')],
     [Lit (lit ''stream ended before message_stop'')],
     [Lit (lit ''stream ended before a terminal response event'')],
     [Lit (lit ''http2 request did not get a response'')],
     [Lit (lit ''stream disconnected before completion'')],
     [Lit (lit ''pending stream has been canceled'')],
     [Lit (lit ''retry delay'')],
     [Lit (lit ''you can retry your request'')],
     [Lit (lit ''try your request again'')],
     [Lit (lit ''please retry your request'')],
     [Lit (lit ''ResourceExhausted'')],
     [Lit (lit ''subscription_sharing_usage_unavailable'')],
     [Lit (lit ''subscription_sharing_user_unavailable'')]]\<close>

definition is_retryable_assistant_error :: "assistant_message \<Rightarrow> bool" where
  "is_retryable_assistant_error message \<longleftrightarrow>
     am_stop_reason message = StopError \<and>
     (case am_error_message message of
        None \<Rightarrow> False
      | Some e \<Rightarrow> e \<noteq> [] \<and> \<not> search non_retryable_patterns e \<and> search retryable_patterns e)"

subsection \<open>The retry loop\<close>

record retry_policy =
  rp_enabled :: bool
  rp_max_retries :: int
  rp_base_delay_ms :: int
  rp_max_agent_delay_ms :: "int option"

definition DEFAULT_MAX_AGENT_RETRY_DELAY_MS :: int where "DEFAULT_MAX_AGENT_RETRY_DELAY_MS = 60000"

definition retry_cap :: "retry_policy \<Rightarrow> int" where
  "retry_cap policy =
    (case rp_max_agent_delay_ms policy of Some c \<Rightarrow> c | None \<Rightarrow> DEFAULT_MAX_AGENT_RETRY_DELAY_MS)"

definition retry_delay_ms :: "retry_policy \<Rightarrow> nat \<Rightarrow> int" where
  "retry_delay_ms policy attempt = min (rp_base_delay_ms policy * 2 ^ (attempt - 1)) (retry_cap policy)"

datatype retry_event =
    RetryScheduled nat int int pystr
  | RetryAttemptStart
  | RetryFinished bool nat "pystr option option"

definition or_unknown :: "pystr option \<Rightarrow> pystr" where
  "or_unknown e = (case e of Some t \<Rightarrow> if t = [] then lit ''Unknown error'' else t | None \<Rightarrow> lit ''Unknown error'')"

definition report_finish :: "(nat \<times> pystr) option \<Rightarrow> bool \<Rightarrow> pystr option option \<Rightarrow> retry_event list" where
  "report_finish last_retry ok e = (case last_retry of None \<Rightarrow> [] | Some (n, _) \<Rightarrow> [RetryFinished ok n e])"

definition max_attempts :: "retry_policy option \<Rightarrow> int" where
  "max_attempts policy = (case policy of Some p \<Rightarrow> if rp_enabled p then rp_max_retries p else 0 | None \<Rightarrow> 0)"

text \<open>
  The events, the number of calls made and what the loop raised or returned. \<open>produce n\<close> is the
  outcome of call \<open>n\<close>, \<open>cancelled n\<close> whether the token is set after the sleep before attempt \<open>n\<close>.
\<close>

function retry_from ::
  "(nat \<Rightarrow> assistant_message result) \<Rightarrow> retry_policy option \<Rightarrow> (nat \<Rightarrow> bool) \<Rightarrow> nat \<Rightarrow> (nat \<times> pystr) option \<Rightarrow>
   retry_event list \<times> nat \<times> assistant_message result" where
  "retry_from produce policy cancelled attempt last_retry =
    (case produce attempt of
       Inl e \<Rightarrow> ([], attempt + 1, Inl e)
     | Inr response \<Rightarrow>
         if am_stop_reason response = Aborted
         then (report_finish last_retry False None, attempt + 1, Inr response)
         else if am_stop_reason response \<noteq> StopError
         then (report_finish last_retry True None, attempt + 1, Inr response)
         else if int attempt \<ge> max_attempts policy \<or> \<not> is_retryable_assistant_error response
         then (report_finish last_retry False (Some (am_error_message response)), attempt + 1, Inr response)
         else
           (let attempt' = attempt + 1; last_retry' = (attempt', or_unknown (am_error_message response));
                delay = (case policy of Some p \<Rightarrow> retry_delay_ms p attempt' | None \<Rightarrow> 0);
                scheduled = RetryScheduled attempt' (max_attempts policy) delay (snd last_retry')
            in if cancelled attempt'
               then ([scheduled, RetryFinished False attempt' (Some (Some (snd last_retry')))], attempt',
                     Inr (response\<lparr>am_stop_reason := Aborted, am_error_message := None\<rparr>))
               else let (events, calls, out) = retry_from produce policy cancelled attempt' (Some last_retry')
                    in (scheduled # RetryAttemptStart # events, calls, out)))"
  by pat_completeness auto
termination
  by (relation "measure (\<lambda>(produce, policy, cancelled, attempt, last_retry). nat (max_attempts policy) - attempt)") auto

declare retry_from.simps [simp del]

definition retry_assistant_call ::
  "(nat \<Rightarrow> assistant_message result) \<Rightarrow> retry_policy option \<Rightarrow> (nat \<Rightarrow> bool) \<Rightarrow>
   retry_event list \<times> nat \<times> assistant_message result" where
  "retry_assistant_call produce policy cancelled = retry_from produce policy cancelled 0 None"

subsection \<open>What the loop does\<close>

fun scheduled :: "retry_event \<Rightarrow> (nat \<times> int) option" where
  "scheduled (RetryScheduled n m d e) = Some (n, d)"
| "scheduled _ = None"

fun is_finish :: "retry_event \<Rightarrow> bool" where
  "is_finish (RetryFinished ok n e) = True"
| "is_finish _ = False"

definition succeeded :: "assistant_message result \<Rightarrow> bool" where
  "succeeded out = (case out of Inl e \<Rightarrow> False | Inr r \<Rightarrow> am_stop_reason r \<noteq> StopError \<and> am_stop_reason r \<noteq> Aborted)"

definition delay_of :: "retry_policy option \<Rightarrow> nat \<Rightarrow> int" where
  "delay_of policy n = (case policy of Some p \<Rightarrow> retry_delay_ms p n | None \<Rightarrow> 0)"

definition transient :: "assistant_message result \<Rightarrow> bool" where
  "transient out = (case out of Inl e \<Rightarrow> False | Inr r \<Rightarrow> is_retryable_assistant_error r)"

text \<open>
  What holds from attempt \<open>a\<close> on: the calls before the last one failed transiently and were not
  cancelled after; the last one ended the loop, or the sleep after it was cancelled.
\<close>

definition retry_spec ::
  "(nat \<Rightarrow> assistant_message result) \<Rightarrow> retry_policy option \<Rightarrow> (nat \<Rightarrow> bool) \<Rightarrow> nat \<Rightarrow> bool \<Rightarrow>
   retry_event list \<times> nat \<times> assistant_message result \<Rightarrow> bool" where
  "retry_spec produce policy cancelled a retried run =
    (case run of (events, calls, out) \<Rightarrow>
      a < calls \<and> int calls \<le> max (int a) (max_attempts policy) + 1 \<and>
      (\<forall>n. a \<le> n \<and> n + 1 < calls \<longrightarrow> transient (produce n) \<and> \<not> cancelled (n + 1)) \<and>
      (let final = produce (calls - 1);
           given_up = transient final \<and> int calls \<le> max_attempts policy
       in (if given_up
           then cancelled calls \<and> (\<exists>r. final = Inr r \<and> out = Inr (r\<lparr>am_stop_reason := Aborted, am_error_message := None\<rparr>))
           else out = final) \<and>
          List.map_filter scheduled events =
            map (\<lambda>n. (n, delay_of policy n)) [a + 1..<(if given_up then calls + 1 else calls)] \<and>
          list_all (\<lambda>e. \<not> is_finish e) (butlast events) \<and>
          (events \<noteq> [] \<longrightarrow> is_finish (last events) = (\<not> isl out)) \<and>
          (isl out \<or> (events = [] \<longleftrightarrow> \<not> retried \<and> calls = a + 1 \<and> \<not> given_up)) \<and>
          (\<forall>ok n e. RetryFinished ok n e \<in> set events \<longrightarrow> ok = succeeded out)))"

lemma retry_spec_step:
  assumes "retry_spec produce policy cancelled (a + 1) True rest" "run = (RetryScheduled (a + 1) m d e # RetryAttemptStart # fst rest, snd rest)"
    "d = delay_of policy (a + 1)" "transient (produce a)" "\<not> cancelled (a + 1)" "int a < max_attempts policy"
  shows "retry_spec produce policy cancelled a retried run"
proof -
  obtain events calls out where rest: "rest = (events, calls, out)" by (cases rest) auto
  let ?given_up = "transient (produce (calls - 1)) \<and> int calls \<le> max_attempts policy"
  note spec = assms(1) [unfolded rest retry_spec_def prod.case Let_def]
  from spec have less: "a + 1 < calls" by simp
  let ?run = "RetryScheduled (a + 1) m d e # RetryAttemptStart # events"
  from spec have finish: "list_all (\<lambda>e. \<not> is_finish e) (butlast ?run)" "is_finish (last ?run) = (\<not> isl out)"
    by (cases "events = []"; auto)+
  have "transient (produce n) \<and> \<not> cancelled (n + 1)" if "a \<le> n" "n + 1 < calls" for n
    using that spec assms(4,5) by (cases "n = a") auto
  moreover have "[a + 1..<(if ?given_up then calls + 1 else calls)] =
      (a + 1) # [a + 1 + 1..<(if ?given_up then calls + 1 else calls)]"
    using less by (subst upt_conv_Cons) auto
  ultimately show ?thesis
    using spec assms(3,6) less finish unfolding assms(2) rest retry_spec_def Let_def
    by (auto simp: List.map_filter_simps split: if_splits)
qed

lemma retry_from_spec: "retry_spec produce policy cancelled a (last_retry \<noteq> None) (retry_from produce policy cancelled a last_retry)"
proof (induction produce policy cancelled a last_retry rule: retry_from.induct)
  case (1 produce policy cancelled a last_retry)
  show ?case
  proof (cases "produce a")
    case (Inl e)
    then show ?thesis
      by (subst retry_from.simps) (auto simp: retry_spec_def transient_def Let_def)
  next
    case (Inr r)
    show ?thesis
    proof (cases "am_stop_reason r = StopError \<and> int a < max_attempts policy \<and> is_retryable_assistant_error r")
      case False
      then have no: "\<not> (transient (Inr r) \<and> int (a + 1) \<le> max_attempts policy)"
        by (auto simp: transient_def is_retryable_assistant_error_def)
      have "\<exists>e. retry_from produce policy cancelled a last_retry =
          (report_finish last_retry (succeeded (Inr r)) e, a + 1, Inr r)"
        by (subst retry_from.simps) (use False in \<open>auto simp: Inr succeeded_def\<close>)
      then obtain e where eq: "retry_from produce policy cancelled a last_retry =
          (report_finish last_retry (succeeded (Inr r)) e, a + 1, Inr r)" by blast
      show ?thesis
        unfolding eq retry_spec_def using no by (cases last_retry) (auto simp: Inr report_finish_def Let_def)
    next
      case True
      let ?a = "a + 1" and ?e = "or_unknown (am_error_message r)"
      let ?delay = "delay_of policy ?a"
      let ?rest = "retry_from produce policy cancelled ?a (Some (?a, ?e))"
      have tr: "transient (produce a)" using True Inr by (simp add: transient_def)
      show ?thesis
      proof (cases "cancelled ?a")
        case stop: True
        then have "retry_from produce policy cancelled a last_retry =
            ([RetryScheduled ?a (max_attempts policy) ?delay ?e, RetryFinished False ?a (Some (Some ?e))], ?a,
             Inr (r\<lparr>am_stop_reason := Aborted, am_error_message := None\<rparr>))"
          using True by (subst retry_from.simps) (simp add: Inr Let_def delay_of_def)
        with True stop tr Inr show ?thesis
          by (auto simp: retry_spec_def Let_def succeeded_def delay_of_def split: option.splits)
      next
        case go: False
        have eq: "retry_from produce policy cancelled a last_retry =
            (RetryScheduled ?a (max_attempts policy) ?delay ?e # RetryAttemptStart # fst ?rest, snd ?rest)"
          using True go by (subst retry_from.simps) (simp add: Inr Let_def delay_of_def split: prod.split)
        from 1 Inr True go have "retry_spec produce policy cancelled ?a True ?rest" by simp
        then show ?thesis
          unfolding eq by (rule retry_spec_step [OF _ refl]) (use True go tr in \<open>simp_all add: delay_of_def\<close>)
      qed
    qed
  qed
qed


text \<open>
  Retrying a call returns, after at most \<open>max_retries + 1\<close> calls. Every call but the last failed
  with a retryable error; the result is the last call's outcome, when that is final or the retries are
  used up, or else an aborted message, when the sleep before the next attempt was cancelled. The
  scheduled attempts count up from one, each with its delay; what the callbacks hear last is one
  finish, true exactly when the call succeeded, if anything was retried and nothing was raised.
\<close>

theorem retries_are_bounded:
  "case retry_assistant_call produce policy cancelled of (events, calls, out) \<Rightarrow>
     0 < calls \<and> int calls \<le> max 0 (max_attempts policy) + 1 \<and>
     (\<forall>n. n + 1 < calls \<longrightarrow> transient (produce n) \<and> \<not> cancelled (n + 1)) \<and>
     (let given_up = transient (produce (calls - 1)) \<and> int calls \<le> max_attempts policy
      in (if given_up
          then cancelled calls \<and>
            (\<exists>r. produce (calls - 1) = Inr r \<and> out = Inr (r\<lparr>am_stop_reason := Aborted, am_error_message := None\<rparr>))
          else out = produce (calls - 1)) \<and>
         List.map_filter scheduled events =
           map (\<lambda>n. (n, delay_of policy n)) [1..<(if given_up then calls + 1 else calls)]) \<and>
     list_all (\<lambda>e. \<not> is_finish e) (butlast events) \<and>
     (events \<noteq> [] \<longrightarrow> is_finish (last events) = (\<not> isl out)) \<and>
     (\<forall>ok n e. RetryFinished ok n e \<in> set events \<longrightarrow> ok = succeeded out)"
proof -
  obtain events calls out where run: "retry_from produce policy cancelled 0 None = (events, calls, out)"
    by (cases "retry_from produce policy cancelled 0 None") auto
  note spec = retry_from_spec [of produce policy cancelled 0 None, unfolded retry_spec_def run prod.case Let_def]
  show ?thesis
  proof (cases "transient (produce (calls - 1)) \<and> int calls \<le> max_attempts policy")
    case True
    from spec [unfolded if_P [OF True]] show ?thesis
      unfolding retry_assistant_call_def run prod.case Let_def if_P [OF True] by (elim conjE) simp
  next
    case False
    from spec [unfolded if_not_P [OF False]] show ?thesis
      unfolding retry_assistant_call_def run prod.case Let_def if_not_P [OF False] by (elim conjE) simp
  qed
qed

text \<open>The delay doubles until it reaches the cap.\<close>

lemma retry_delay_doubles:
  "0 \<le> rp_base_delay_ms policy \<Longrightarrow> 0 < n \<Longrightarrow> 0 \<le> retry_cap policy \<Longrightarrow>
   retry_delay_ms policy (n + 1) = min (2 * retry_delay_ms policy n) (retry_cap policy)"
  by (cases n) (auto simp: retry_delay_ms_def min_def)


text \<open>A status code alone is matched; in a request id it is not.\<close>

lemma classified_status_codes:
  "search [status_code_pattern] (lit ''HTTP 429: no'')" "\<not> search [status_code_pattern] (lit ''id a429f'')"
  by (simp_all add: search_def status_code_pattern_def is_alnum_def fold_case_def lit_def)

lemma classified_limits: "search retryable_patterns (lit ''Rate limit'')" "search non_retryable_patterns (lit ''Quota Exceeded'')"
  by (simp_all add: search_def retryable_patterns_def non_retryable_patterns_def status_code_pattern_def is_alnum_def fold_case_def
      lit_def)

end
