(* ===== verification/Summaries.thy ===== *)
theory Summaries
  imports Compaction Retry
begin

section \<open>Summaries (core/compaction/)\<close>

text \<open>
  The text a conversation is summarized from, the requests for the summaries of a compaction and of an
  abandoned branch, and what becomes of the responses. The model's stream function, the clock and the
  routing ids are parameters, indexed by the request; headers and keys are passed through and left out.
  The two calls of a split turn are independent; what the group reports when both raise is a parameter.
\<close>

subsection \<open>Serialized conversations (utils.py)\<close>

definition TOOL_RESULT_MAX_CHARS :: nat where "TOOL_RESULT_MAX_CHARS = 2000"

definition truncate_for_summary :: "pystr \<Rightarrow> nat \<Rightarrow> pystr" where
  "truncate_for_summary text max_chars =
    (if length text \<le> max_chars then text
     else take max_chars text @ [NL, NL] @ lit ''[... '' @ int_str (int (length text - max_chars)) @
       lit '' more characters truncated]'')"

definition format_file_operations :: "pystr list \<Rightarrow> pystr list \<Rightarrow> pystr" where
  "format_file_operations read_files modified_files =
    (let sections =
       (if read_files \<noteq> [] then [lit ''<read-files>'' @ [NL] @ str_join [NL] read_files @ [NL] @ lit ''</read-files>''] else []) @
       (if modified_files \<noteq> [] then [lit ''<modified-files>'' @ [NL] @ str_join [NL] modified_files @ [NL] @ lit ''</modified-files>''] else [])
     in if sections = [] then [] else [NL, NL] @ str_join [NL, NL] sections)"

definition call_text :: "tool_call \<Rightarrow> pystr" where
  "call_text c =
    call_name c @ lit ''('' @
    str_join (lit '', '') (map (\<lambda>(k, v). k @ lit ''='' @ safe_json_stringify v) (call_arguments c)) @ lit '')''"

fun conversation_parts :: "message \<Rightarrow> pystr list" where
  "conversation_parts (UserMsg m) =
     (let text = content_text [] (um_content m) in if text \<noteq> [] then [lit ''[User]: '' @ text] else [])"
| "conversation_parts (AssistantMsg m) =
     (if list_ex is_text (am_content m) then [lit ''[Assistant]: '' @ content_text [NL] (Blocks (am_content m))] else []) @
     (let calls = map call_text (tool_calls_of (am_content m))
      in if calls \<noteq> [] then [lit ''[Assistant tool calls]: '' @ str_join (lit ''; '') calls] else [])"
| "conversation_parts (ToolResultMsg m) =
     (let text = content_text [] (Blocks (trm_content m))
      in if text \<noteq> [] then [lit ''[Tool result]: '' @ truncate_for_summary text TOOL_RESULT_MAX_CHARS] else [])"
| "conversation_parts _ = []"

definition serialize_conversation :: "message list \<Rightarrow> pystr" where
  "serialize_conversation messages = str_join [NL, NL] (concat (map conversation_parts messages))"

subsection \<open>Prompts\<close>

definition SUMMARIZATION_SYSTEM_PROMPT :: pystr where
  \<open>SUMMARIZATION_SYSTEM_PROMPT = str_join [NL]
    [lit ''You are a context summarization assistant. Your task is to read a conversation between a user and an AI assistant, then produce a structured summary following the exact format specified.'',
     lit '''',
     lit ''Do NOT continue the conversation. Do NOT respond to any questions in the conversation. ONLY output the structured summary.'']\<close>

definition SUMMARIZATION_PROMPT :: pystr where
  \<open>SUMMARIZATION_PROMPT = str_join [NL]
    [lit ''The messages above are a conversation to summarize. Create a structured context checkpoint summary that another LLM will use to continue the work.'',
     lit '''',
     lit ''Use this EXACT format:'',
     lit '''',
     lit ''## Goal'',
     lit ''[What is the user trying to accomplish? Can be multiple items if the session covers different tasks.]'',
     lit '''',
     lit ''## Constraints & Preferences'',
     lit ''- [Any constraints, preferences, or requirements mentioned by user]'',
     lit ''- [Or "(none)" if none were mentioned]'',
     lit '''',
     lit ''## Progress'',
     lit ''### Done'',
     lit ''- [x] [Completed tasks/changes]'',
     lit '''',
     lit ''### In Progress'',
     lit ''- [ ] [Current work]'',
     lit '''',
     lit ''### Blocked'',
     lit ''- [Issues preventing progress, if any]'',
     lit '''',
     lit ''## Key Decisions'',
     lit ''- **[Decision]**: [Brief rationale]'',
     lit '''',
     lit ''## Next Steps'',
     lit ''1. [Ordered list of what should happen next]'',
     lit '''',
     lit ''## Critical Context'',
     lit ''- [Any data, examples, or references needed to continue]'',
     lit ''- [Or "(none)" if not applicable]'',
     lit '''',
     lit ''Keep each section concise. Preserve exact file paths, function names, and error messages.'']\<close>

definition UPDATE_SUMMARIZATION_INSTRUCTIONS :: pystr where
  \<open>UPDATE_SUMMARIZATION_INSTRUCTIONS = str_join [NL]
    [lit ''Update the existing structured summary with new information. RULES:'',
     lit ''- PRESERVE all existing information from the previous summary'',
     lit ''- ADD new progress, decisions, and context from the new messages'',
     lit ''- UPDATE the Progress section: move items from "In Progress" to "Done" when completed'',
     lit ''- UPDATE "Next Steps" based on what was accomplished'',
     lit ''- PRESERVE exact file paths, function names, and error messages'',
     lit ''- If something is no longer relevant, you may remove it'',
     lit '''',
     lit ''Use this EXACT format:'',
     lit '''',
     lit ''## Goal'',
     lit ''[Preserve existing goals, add new ones if the task expanded]'',
     lit '''',
     lit ''## Constraints & Preferences'',
     lit ''- [Preserve existing, add new ones discovered]'',
     lit '''',
     lit ''## Progress'',
     lit ''### Done'',
     lit ''- [x] [Include previously done items AND newly completed items]'',
     lit '''',
     lit ''### In Progress'',
     lit ''- [ ] [Current work - update based on progress]'',
     lit '''',
     lit ''### Blocked'',
     lit ''- [Current blockers - remove if resolved]'',
     lit '''',
     lit ''## Key Decisions'',
     lit ''- **[Decision]**: [Brief rationale] (preserve all previous, add new)'',
     lit '''',
     lit ''## Next Steps'',
     lit ''1. [Update based on current state]'',
     lit '''',
     lit ''## Critical Context'',
     lit ''- [Preserve important context, add new if needed]'',
     lit '''',
     lit ''Keep each section concise. Preserve exact file paths, function names, and error messages.'']\<close>

definition UPDATE_SUMMARIZATION_PROMPT :: pystr where
  "UPDATE_SUMMARIZATION_PROMPT =
    lit ''The messages above are NEW conversation messages to incorporate into the existing summary provided in <previous-summary> tags.'' @
    [NL, NL] @ UPDATE_SUMMARIZATION_INSTRUCTIONS"

definition TURN_PREFIX_SUMMARIZATION_PROMPT :: pystr where
  \<open>TURN_PREFIX_SUMMARIZATION_PROMPT = str_join [NL]
    [lit ''The messages above are earlier context from an ongoing conversation. Later messages are stored separately and do not need to be reconstructed.'',
     lit '''',
     lit ''Create a concise checkpoint of the user's request and the progress shown above. This checkpoint will be placed before the later messages so the conversation can continue with the necessary context.'',
     lit '''',
     lit ''## Original Request'',
     lit ''[What did the user ask for?]'',
     lit '''',
     lit ''## Progress So Far'',
     lit ''- [Key decisions and work completed in these messages]'',
     lit '''',
     lit ''## Context Needed to Continue'',
     lit ''- [Information from these messages needed to understand the later work]'',
     lit '''',
     lit ''Only summarize information explicitly present above. Do not infer or recreate later messages.'']\<close>

definition BRANCH_SUMMARY_PREAMBLE :: pystr where
  \<open>BRANCH_SUMMARY_PREAMBLE = str_join [NL]
    [lit ''The user explored a different conversation branch before returning here.'',
     lit ''Summary of that exploration:'',
     lit '''',
     lit '''']\<close>

definition BRANCH_SUMMARY_PROMPT :: pystr where
  \<open>BRANCH_SUMMARY_PROMPT = str_join [NL]
    [lit ''Create a structured summary of this conversation branch for context when returning later.'',
     lit '''',
     lit ''Use this EXACT format:'',
     lit '''',
     lit ''## Goal'',
     lit ''[What was the user trying to accomplish in this branch?]'',
     lit '''',
     lit ''## Constraints & Preferences'',
     lit ''- [Any constraints, preferences, or requirements mentioned]'',
     lit ''- [Or "(none)" if none were mentioned]'',
     lit '''',
     lit ''## Progress'',
     lit ''### Done'',
     lit ''- [x] [Completed tasks/changes]'',
     lit '''',
     lit ''### In Progress'',
     lit ''- [ ] [Work that was started but not finished]'',
     lit '''',
     lit ''### Blocked'',
     lit ''- [Issues preventing progress, if any]'',
     lit '''',
     lit ''## Key Decisions'',
     lit ''- **[Decision]**: [Brief rationale]'',
     lit '''',
     lit ''## Next Steps'',
     lit ''1. [What should happen next to continue this work]'',
     lit '''',
     lit ''Keep each section concise. Preserve exact file paths, function names, and error messages.'']\<close>

subsection \<open>A summarization call (compaction.py)\<close>

definition get_summarization_failure :: "assistant_message \<Rightarrow> pystr \<Rightarrow> pystr option" where
  "get_summarization_failure response label =
    (if am_stop_reason response = StopError
     then Some (label @ lit '' failed: '' @ or_unknown (am_error_message response))
     else if am_stop_reason response = StopLength
     then Some (label @ lit '' failed: generation hit the token cap and the summary is incomplete'')
     else None)"

text \<open>The options that depend on the settings; the cache retention is \<open>none\<close> for every request.\<close>

record summary_request =
  rq_messages :: "message list"
  rq_reasoning :: "pystr option"
  rq_cache_retention :: pystr
  rq_session_id :: pystr

record summary_service =
  sv_stream :: "(summary_request \<Rightarrow> nat \<Rightarrow> assistant_message result) option"
  sv_policy :: "retry_policy option"
  sv_cancelled :: "nat \<Rightarrow> nat \<Rightarrow> bool"
  sv_now :: "nat \<Rightarrow> int"
  sv_uuid :: "nat \<Rightarrow> pystr"
  sv_model_reasoning :: bool
  sv_thinking_level :: "pystr option"
  sv_session_id :: "pystr option"
  sv_fadd :: "pyfloat \<Rightarrow> pyfloat \<Rightarrow> pyfloat"
  sv_group_error :: "pystr \<Rightarrow> pystr \<Rightarrow> pystr"

definition build_summarization_context :: "pystr \<Rightarrow> int \<Rightarrow> message list" where
  "build_summarization_context prompt_text now =
    normalize_context (CallerContext
      \<lparr>cx_system_prompt = Some SUMMARIZATION_SYSTEM_PROMPT,
       cx_messages = [UserMsg \<lparr>um_content = Blocks [text_block prompt_text], um_timestamp = now\<rparr>],
       cx_tools = None\<rparr>)"

definition summarization_reasoning :: "bool \<Rightarrow> pystr option \<Rightarrow> pystr option" where
  "summarization_reasoning model_reasoning thinking_level =
    (case thinking_level of
       Some l \<Rightarrow> if model_reasoning \<and> l \<noteq> [] \<and> l \<noteq> lit ''off'' then Some l else None
     | None \<Rightarrow> None)"

text \<open>Request \<open>n\<close> of a run.\<close>

definition complete_summarization ::
  "summary_service \<Rightarrow> nat \<Rightarrow> pystr option \<Rightarrow> message list \<Rightarrow> retry_event list \<times> nat \<times> assistant_message result" where
  "complete_summarization sv n reasoning ctx =
    (let request = \<lparr>rq_messages = ctx, rq_reasoning = reasoning, rq_cache_retention = lit ''none'',
           rq_session_id = (case sv_session_id sv of Some i \<Rightarrow> i | None \<Rightarrow> sv_uuid sv n)\<rparr>
     in case sv_stream sv of
          None \<Rightarrow> ([], 0, Inl (lit ''complete_summarization requires a stream function (pi's compat registry is not ported)''))
        | Some stream \<Rightarrow> retry_assistant_call (stream request) (sv_policy sv) (sv_cancelled sv n))"

record summary_with_usage =
  su_text :: pystr
  su_usage :: "usage option"

text \<open>The checks on a response, with the label of the call.\<close>

definition accept_summary :: "pystr \<Rightarrow> assistant_message \<Rightarrow> summary_with_usage result" where
  "accept_summary label response =
    (case get_summarization_failure response label of
       Some failure \<Rightarrow> Inl failure
     | None \<Rightarrow>
         if tool_calls_of (am_content response) \<noteq> [] then Inl (label @ lit '' attempted to call a tool'')
         else Inr \<lparr>su_text = content_text [NL] (Blocks (am_content response)), su_usage = am_usage response\<rparr>)"

definition run_summary :: "summary_service \<Rightarrow> nat \<Rightarrow> pystr \<Rightarrow> pystr \<Rightarrow> summary_with_usage result" where
  "run_summary sv n label prompt_text =
    (case snd (snd (complete_summarization sv n (summarization_reasoning (sv_model_reasoning sv) (sv_thinking_level sv))
        (build_summarization_context prompt_text (sv_now sv n)))) of
       Inl e \<Rightarrow> Inl e
     | Inr response \<Rightarrow> accept_summary label response)"

definition with_focus :: "pystr \<Rightarrow> pystr option \<Rightarrow> pystr" where
  "with_focus prompt custom =
    (case custom of Some c \<Rightarrow> if c = [] then prompt else prompt @ [NL, NL] @ lit ''Additional focus: '' @ c | None \<Rightarrow> prompt)"

definition history_prompt :: "message list \<Rightarrow> pystr option \<Rightarrow> pystr option \<Rightarrow> pystr" where
  "history_prompt messages custom previous_summary =
    (let previous = (case previous_summary of Some s \<Rightarrow> s | None \<Rightarrow> []);
         base_prompt = with_focus (if previous \<noteq> [] then UPDATE_SUMMARIZATION_PROMPT else SUMMARIZATION_PROMPT) custom
     in lit ''<conversation>'' @ [NL] @ serialize_conversation (convert_to_llm messages) @ [NL] @ lit ''</conversation>'' @ [NL, NL] @
        (if previous \<noteq> [] then lit ''<previous-summary>'' @ [NL] @ previous @ [NL] @ lit ''</previous-summary>'' @ [NL, NL] else []) @
        base_prompt)"

definition generate_summary_with_usage ::
  "summary_service \<Rightarrow> nat \<Rightarrow> message list \<Rightarrow> pystr option \<Rightarrow> pystr option \<Rightarrow> summary_with_usage result" where
  "generate_summary_with_usage sv n messages custom previous_summary =
    run_summary sv n (lit ''Summarization'') (history_prompt messages custom previous_summary)"

definition generate_summary ::
  "summary_service \<Rightarrow> nat \<Rightarrow> message list \<Rightarrow> pystr option \<Rightarrow> pystr option \<Rightarrow> pystr result" where
  "generate_summary sv n messages custom previous_summary =
    map_sum id su_text (generate_summary_with_usage sv n messages custom previous_summary)"

definition turn_prefix_prompt :: "message list \<Rightarrow> pystr option \<Rightarrow> pystr" where
  "turn_prefix_prompt messages custom =
    with_focus (lit ''# Conversation'' @ [NL] @ serialize_conversation (convert_to_llm messages) @ [NL, NL] @
      lit ''# Instructions'' @ [NL] @ TURN_PREFIX_SUMMARIZATION_PROMPT) custom"

definition generate_turn_prefix_summary ::
  "summary_service \<Rightarrow> nat \<Rightarrow> message list \<Rightarrow> pystr option \<Rightarrow> summary_with_usage result" where
  "generate_turn_prefix_summary sv n messages custom =
    run_summary sv n (lit ''Turn prefix summarization'') (turn_prefix_prompt messages custom)"

subsection \<open>A compaction\<close>

record compaction_result =
  cr_summary :: pystr
  cr_first_kept :: pystr
  cr_tokens_before :: int
  cr_usage :: "usage option"
  cr_details :: json

text \<open>\<open>gather\<close> of two calls: both results, or the error.\<close>

definition gather2 :: "(pystr \<Rightarrow> pystr \<Rightarrow> pystr) \<Rightarrow> 'a result \<Rightarrow> 'b result \<Rightarrow> ('a \<times> 'b) result" where
  "gather2 group_error x y =
    (case (x, y) of
       (Inr a, Inr b) \<Rightarrow> Inr (a, b)
     | (Inl e, Inr _) \<Rightarrow> Inl e
     | (Inr _, Inl e) \<Rightarrow> Inl e
     | (Inl e, Inl f) \<Rightarrow> Inl (group_error e f))"

text \<open>The usage of two calls; a response without usage has no fields to add.\<close>

definition merge_usage :: "(pyfloat \<Rightarrow> pyfloat \<Rightarrow> pyfloat) \<Rightarrow> usage option \<Rightarrow> usage option \<Rightarrow> usage option result" where
  "merge_usage fadd history turn_prefix =
    (case (history, turn_prefix) of
       (None, u) \<Rightarrow> Inr u
     | (Some h, Some u) \<Rightarrow> Inr (Some (combine_usage fadd h u))
     | (Some h, None) \<Rightarrow> Inl (lit ''AttributeError''))"

definition split_turn_text :: "pystr \<Rightarrow> pystr \<Rightarrow> pystr" where
  "split_turn_text history turn_prefix =
    history @ [NL, NL] @ lit ''---'' @ [NL, NL] @ lit ''**Turn Context (split turn):**'' @ [NL, NL] @ turn_prefix"

definition compaction_summary ::
  "summary_service \<Rightarrow> preparation_of_compaction \<Rightarrow> pystr option \<Rightarrow> summary_with_usage result" where
  "compaction_summary sv p custom =
    (if pr_split p \<and> pr_turn_prefix p \<noteq> [] then
       (let prefix_call = generate_turn_prefix_summary sv 1 (pr_turn_prefix p) custom;
            both = (if pr_summarize p \<noteq> []
              then map_sum id (\<lambda>(h, t). (su_text h, su_usage h, t))
                (gather2 (sv_group_error sv) (generate_summary_with_usage sv 0 (pr_summarize p) custom (pr_previous_summary p)) prefix_call)
              else map_sum id (\<lambda>t. (case pr_previous_summary p of Some s \<Rightarrow> s | None \<Rightarrow> lit ''No prior history.'', None, t)) prefix_call)
        in case both of
             Inl e \<Rightarrow> Inl e
           | Inr (history_text, history_usage, t) \<Rightarrow>
               map_sum id (\<lambda>u. \<lparr>su_text = split_turn_text history_text (su_text t), su_usage = u\<rparr>)
                 (merge_usage (sv_fadd sv) history_usage (su_usage t)))
     else generate_summary_with_usage sv 0 (pr_summarize p) custom (pr_previous_summary p))"

definition file_details :: "pystr list \<Rightarrow> pystr list \<Rightarrow> json" where
  "file_details read_files modified_files =
    JObj [(lit ''readFiles'', JArr (map JStr read_files)), (lit ''modifiedFiles'', JArr (map JStr modified_files))]"

definition compact :: "summary_service \<Rightarrow> preparation_of_compaction \<Rightarrow> pystr option \<Rightarrow> compaction_result result" where
  "compact sv p custom =
    (case compaction_summary sv p custom of
       Inl e \<Rightarrow> Inl e
     | Inr s \<Rightarrow>
         (let (read_files, modified_files) = compute_file_lists (pr_file_ops p)
          in if pr_first_kept p = [] then Inl (lit ''First kept entry has no id - session may need migration'')
             else Inr \<lparr>cr_summary = su_text s @ format_file_operations read_files modified_files,
               cr_first_kept = pr_first_kept p, cr_tokens_before = pr_tokens_before p, cr_usage = su_usage s,
               cr_details = file_details read_files modified_files\<rparr>))"


subsection \<open>Abandoned branches (branch_summarization.py)\<close>

record collect_result =
  co_entries :: "entry list"
  co_common_ancestor :: "pystr option"

text \<open>The walk from the old leaf up to the common ancestor; \<open>None\<close> when it does not end within the fuel.\<close>

fun collect_up :: "nat \<Rightarrow> session \<Rightarrow> pystr option \<Rightarrow> pystr option \<Rightarrow> entry list option" where
  "collect_up fuel s stop None = Some []"
| "collect_up fuel s stop (Some current) =
     (if current = [] \<or> Some current = stop then Some []
      else case get_entry s current of
        None \<Rightarrow> Some []
      | Some e \<Rightarrow> (case fuel of 0 \<Rightarrow> None | Suc f \<Rightarrow> map_option (\<lambda>es. e # es) (collect_up f s stop (en_parent e))))"

definition common_ancestor :: "entry list \<Rightarrow> entry list \<Rightarrow> pystr option" where
  "common_ancestor old_branch target_path =
    map_option en_id (find (\<lambda>e. en_id e \<in> set (map en_id old_branch)) (rev target_path))"

definition collect_entries_for_branch_summary :: "session \<Rightarrow> pystr option \<Rightarrow> pystr \<Rightarrow> collect_result option" where
  "collect_entries_for_branch_summary s old_leaf_id target_id =
    (case old_leaf_id of
       None \<Rightarrow> Some \<lparr>co_entries = [], co_common_ancestor = None\<rparr>
     | Some old \<Rightarrow>
         if old = [] then Some \<lparr>co_entries = [], co_common_ancestor = None\<rparr>
         else case (get_branch s (Some old), get_branch s (Some target_id)) of
           (Some old_branch, Some target_path) \<Rightarrow>
             (let ancestor = common_ancestor old_branch target_path
              in map_option (\<lambda>es. \<lparr>co_entries = rev es, co_common_ancestor = ancestor\<rparr>)
                   (collect_up (length (ss_by_id s)) s ancestor (Some old)))
         | _ \<Rightarrow> None)"

text \<open>The message of an entry, as the file has it: its content may be null.\<close>

fun raw_tool_result :: "raw_message \<Rightarrow> bool" where
  "raw_tool_result (FullMsg (ToolResultMsg m)) = True"
| "raw_tool_result (NullContent (ToolResultMsg m)) = True"
| "raw_tool_result _ = False"

definition get_message_from_entry :: "(pystr \<Rightarrow> int) \<Rightarrow> entry \<Rightarrow> raw_message option" where
  "get_message_from_entry epoch e =
    (case en_body e of
       MessageE m \<Rightarrow> if raw_tool_result m then None else Some m
     | CustomMessageE custom_type body display details \<Rightarrow>
         Some (case body of
           Some c \<Rightarrow> FullMsg (create_custom_message epoch custom_type c display details (en_timestamp e))
         | None \<Rightarrow> NullContent (create_custom_message epoch custom_type (Blocks []) display details (en_timestamp e)))
     | BranchSummaryE b \<Rightarrow> Some (FullMsg (create_branch_summary_message epoch (bb_summary b) (bb_from_id b) (en_timestamp e)))
     | CompactionE c \<Rightarrow> Some (FullMsg (create_compaction_summary_message epoch (cb_summary c) (cb_tokens_before c) (en_timestamp e)))
     | _ \<Rightarrow> None)"

text \<open>Estimating a message whose content is null iterates over \<open>None\<close>.\<close>

fun has_content :: "message \<Rightarrow> bool" where
  "has_content (SystemMsg m) = True"
| "has_content (UserMsg m) = True"
| "has_content (AssistantMsg m) = True"
| "has_content (ToolResultMsg m) = True"
| "has_content (CustomMsg m) = True"
| "has_content _ = False"

fun estimate_raw :: "raw_message \<Rightarrow> nat result" where
  "estimate_raw (FullMsg m) = Inr (estimate_tokens m)"
| "estimate_raw (NullContent m) = (if has_content m then Inl (lit ''TypeError'') else Inr (estimate_tokens m))"

fun extract_raw :: "raw_message \<Rightarrow> file_operations \<Rightarrow> file_operations" where
  "extract_raw (FullMsg m) ops = extract_file_ops_from_message m ops"
| "extract_raw (NullContent m) ops = ops"

record branch_preparation =
  bp_messages :: "message list"
  bp_file_ops :: file_operations
  bp_total_tokens :: nat

fun branch_details :: "entry_body \<Rightarrow> json option" where
  "branch_details (BranchSummaryE b) = (if bb_from_hook b = Some True then None else bb_details b)"
| "branch_details _ = None"

definition is_summary_entry :: "entry_body \<Rightarrow> bool" where
  "is_summary_entry b = (case b of CompactionE c \<Rightarrow> True | BranchSummaryE b \<Rightarrow> True | _ \<Rightarrow> False)"

text \<open>
  The second pass, over the remaining entries from the newest on. A total below 0.9 of the budget is
  one with ten times the total below nine times the budget: for budgets below \<open>2 ^ 50\<close> the float product
  is on the same side of every whole number.
\<close>

fun branch_pass :: "(pystr \<Rightarrow> int) \<Rightarrow> int \<Rightarrow> entry list \<Rightarrow> message list \<Rightarrow> file_operations \<Rightarrow> nat \<Rightarrow> branch_preparation result" where
  "branch_pass epoch budget [] messages ops acc =
     Inr \<lparr>bp_messages = messages, bp_file_ops = ops, bp_total_tokens = acc\<rparr>"
| "branch_pass epoch budget (e # es) messages ops acc =
     (case get_message_from_entry epoch e of
        None \<Rightarrow> branch_pass epoch budget es messages ops acc
      | Some m \<Rightarrow>
          (let ops' = extract_raw m ops
           in case estimate_raw m of
                Inl err \<Rightarrow> Inl err
              | Inr tokens \<Rightarrow>
                  if budget > 0 \<and> int (acc + tokens) > budget then
                    (if is_summary_entry (en_body e) \<and> 10 * int acc < 9 * budget
                     then Inr \<lparr>bp_messages = raw_message m # messages, bp_file_ops = ops', bp_total_tokens = acc + tokens\<rparr>
                     else Inr \<lparr>bp_messages = messages, bp_file_ops = ops', bp_total_tokens = acc\<rparr>)
                  else branch_pass epoch budget es (raw_message m # messages) ops' (acc + tokens)))"

definition prepare_branch_entries :: "(pystr \<Rightarrow> int) \<Rightarrow> entry list \<Rightarrow> int \<Rightarrow> branch_preparation result" where
  "prepare_branch_entries epoch entries token_budget =
    branch_pass epoch token_budget (rev entries) []
      (fold (\<lambda>e. add_details (branch_details (en_body e))) entries create_file_ops) 0"

record branch_summary_result =
  br_summary :: "pystr option"
  br_usage :: "usage option"
  br_read_files :: "pystr list option"
  br_modified_files :: "pystr list option"
  br_aborted :: "bool option"
  br_error :: "pystr option"

definition no_branch_result :: branch_summary_result where
  "no_branch_result = \<lparr>br_summary = None, br_usage = None, br_read_files = None, br_modified_files = None,
     br_aborted = None, br_error = None\<rparr>"

definition branch_prompt :: "message list \<Rightarrow> pystr option \<Rightarrow> bool option \<Rightarrow> pystr" where
  "branch_prompt messages custom replace_instructions =
    (let focus = (case custom of Some c \<Rightarrow> c | None \<Rightarrow> []);
         instructions = (if replace_instructions = Some True \<and> focus \<noteq> [] then focus else with_focus BRANCH_SUMMARY_PROMPT custom)
     in lit ''<conversation>'' @ [NL] @ serialize_conversation (convert_to_llm messages) @ [NL] @ lit ''</conversation>'' @
        [NL, NL] @ instructions)"

definition accept_branch_summary :: "file_operations \<Rightarrow> assistant_message \<Rightarrow> branch_summary_result" where
  "accept_branch_summary ops response =
    (if am_stop_reason response = Aborted then no_branch_result\<lparr>br_aborted := Some True\<rparr>
     else case accept_summary (lit ''Branch summarization'') response of
       Inl e \<Rightarrow> no_branch_result\<lparr>br_error := Some e\<rparr>
     | Inr s \<Rightarrow>
         (let (read_files, modified_files) = compute_file_lists ops;
              summary = BRANCH_SUMMARY_PREAMBLE @ su_text s @ format_file_operations read_files modified_files
          in no_branch_result\<lparr>br_summary := Some (if summary = [] then lit ''No summary generated'' else summary),
               br_usage := su_usage s, br_read_files := Some read_files, br_modified_files := Some modified_files\<rparr>))"

definition generate_branch_summary ::
  "summary_service \<Rightarrow> (pystr \<Rightarrow> int) \<Rightarrow> entry list \<Rightarrow> int \<Rightarrow> int \<Rightarrow> pystr option \<Rightarrow> bool option \<Rightarrow> branch_summary_result result" where
  "generate_branch_summary sv epoch entries context_window reserve_tokens custom replace_instructions =
    (let token_budget = (if context_window \<noteq> 0 then context_window else 128000) - reserve_tokens
     in case prepare_branch_entries epoch entries token_budget of
          Inl e \<Rightarrow> Inl e
        | Inr p \<Rightarrow>
            if bp_messages p = [] then Inr (no_branch_result\<lparr>br_summary := Some (lit ''No content to summarize'')\<rparr>)
            else case snd (snd (complete_summarization (sv\<lparr>sv_session_id := None\<rparr>) 0 None
                (build_summarization_context (branch_prompt (bp_messages p) custom replace_instructions) (sv_now sv 0)))) of
              Inl e \<Rightarrow> Inl e
            | Inr response \<Rightarrow> Inr (accept_branch_summary (bp_file_ops p) response))"

subsection \<open>Accepted summaries\<close>

definition complete_response :: "assistant_message \<Rightarrow> bool" where
  "complete_response r \<longleftrightarrow> am_stop_reason r \<noteq> StopError \<and> am_stop_reason r \<noteq> StopLength \<and> tool_calls_of (am_content r) = []"

definition response_to :: "summary_service \<Rightarrow> nat \<Rightarrow> pystr \<Rightarrow> assistant_message result" where
  "response_to sv n prompt =
    snd (snd (complete_summarization sv n (summarization_reasoning (sv_model_reasoning sv) (sv_thinking_level sv))
      (build_summarization_context prompt (sv_now sv n))))"

definition response_text :: "assistant_message \<Rightarrow> pystr" where
  "response_text r = content_text [NL] (Blocks (am_content r))"

lemma accept_summary_Inr:
  "accept_summary label r = Inr s \<longleftrightarrow>
     complete_response r \<and> s = \<lparr>su_text = response_text r, su_usage = am_usage r\<rparr>"
  by (auto simp: accept_summary_def get_summarization_failure_def complete_response_def response_text_def)

lemma run_summary_Inr:
  "run_summary sv n label prompt = Inr s \<longleftrightarrow>
     (\<exists>r. response_to sv n prompt = Inr r \<and> complete_response r \<and> s = \<lparr>su_text = response_text r, su_usage = am_usage r\<rparr>)"
  by (auto simp: run_summary_def response_to_def accept_summary_Inr split: sum.splits)

text \<open>The requests of a compaction.\<close>

definition compaction_requests :: "preparation_of_compaction \<Rightarrow> pystr option \<Rightarrow> (nat \<times> pystr) list" where
  "compaction_requests p custom =
    (if pr_split p \<and> pr_turn_prefix p \<noteq> [] then
       (if pr_summarize p \<noteq> [] then [(0, history_prompt (pr_summarize p) custom (pr_previous_summary p))] else []) @
       [(1, turn_prefix_prompt (pr_turn_prefix p) custom)]
     else [(0, history_prompt (pr_summarize p) custom (pr_previous_summary p))])"

lemma gather2_Inr: "gather2 f x y = Inr (a, b) \<longleftrightarrow> x = Inr a \<and> y = Inr b"
  by (auto simp: gather2_def split: sum.splits)

lemma map_sum_Inr: "map_sum f g x = Inr y \<longleftrightarrow> (\<exists>z. x = Inr z \<and> y = g z)"
  by (cases x) auto

lemmas summary_call_defs = generate_summary_with_usage_def generate_turn_prefix_summary_def run_summary_Inr

lemma compaction_summary_Inr:
  assumes "compaction_summary sv p custom = Inr s"
  shows "\<exists>rs. list_all2 (\<lambda>(n, prompt) r. response_to sv n prompt = Inr r \<and> complete_response r) (compaction_requests p custom) rs \<and>
    su_text s =
      (if pr_split p \<and> pr_turn_prefix p \<noteq> []
       then split_turn_text
         (if pr_summarize p \<noteq> [] then response_text (hd rs)
          else case pr_previous_summary p of Some t \<Rightarrow> t | None \<Rightarrow> lit ''No prior history.'') (response_text (last rs))
       else response_text (hd rs))"
proof (cases "pr_split p \<and> pr_turn_prefix p \<noteq> []")
  case False
  with assms obtain r where "response_to sv 0 (history_prompt (pr_summarize p) custom (pr_previous_summary p)) = Inr r"
      "complete_response r" "su_text s = response_text r"
    by (auto simp: compaction_summary_def summary_call_defs)
  with False show ?thesis
    by (intro exI [of _ "[r]"]) (auto simp: compaction_requests_def)
next
  case True
  show ?thesis
  proof (cases "pr_summarize p = []")
    case empty: True
    with assms True obtain t where "response_to sv 1 (turn_prefix_prompt (pr_turn_prefix p) custom) = Inr t" "complete_response t"
        "su_text s = split_turn_text (case pr_previous_summary p of Some t \<Rightarrow> t | None \<Rightarrow> lit ''No prior history.'') (response_text t)"
      by (auto simp: compaction_summary_def summary_call_defs map_sum_Inr Let_def split: sum.splits)
    with True empty show ?thesis
      by (intro exI [of _ "[t]"]) (auto simp: compaction_requests_def)
  next
    case False
    with assms True obtain h t where "response_to sv 0 (history_prompt (pr_summarize p) custom (pr_previous_summary p)) = Inr h"
        "complete_response h" "response_to sv 1 (turn_prefix_prompt (pr_turn_prefix p) custom) = Inr t" "complete_response t"
        "su_text s = split_turn_text (response_text h) (response_text t)"
      by (auto simp: compaction_summary_def summary_call_defs map_sum_Inr gather2_Inr Let_def split: sum.splits)
    with True False show ?thesis
      by (intro exI [of _ "[h, t]"]) (auto simp: compaction_requests_def)
  qed
qed



text \<open>What does not come out complete is raised.\<close>

lemma failed_summary_is_raised:
  "response_to sv n prompt = Inr r \<Longrightarrow> \<not> complete_response r \<Longrightarrow> \<exists>e. run_summary sv n label prompt = Inl e"
  using run_summary_Inr [of sv n label prompt] by (cases "run_summary sv n label prompt") auto

subsection \<open>File lists\<close>

definition files_finite :: "file_operations \<Rightarrow> bool" where
  "files_finite ops \<longleftrightarrow> finite (fo_read ops) \<and> finite (fo_written ops) \<and> finite (fo_edited ops)"

definition touched :: "file_operations \<Rightarrow> pystr set" where
  "touched ops = fo_read ops \<union> fo_written ops \<union> fo_edited ops"

text \<open>Recording an operation only adds files.\<close>

definition ops_le :: "file_operations \<Rightarrow> file_operations \<Rightarrow> bool" where
  "ops_le a b \<longleftrightarrow> fo_read a \<subseteq> fo_read b \<and> fo_written a \<subseteq> fo_written b \<and> fo_edited a \<subseteq> fo_edited b \<and>
     (files_finite a \<longrightarrow> files_finite b)"

lemma ops_le_refl [intro, simp]: "ops_le a a"
  by (simp add: ops_le_def)

lemma ops_le_trans: "ops_le a b \<Longrightarrow> ops_le b c \<Longrightarrow> ops_le a c"
  by (auto simp: ops_le_def)

lemma ops_le_fold: "(\<And>x a. ops_le a (f x a)) \<Longrightarrow> ops_le a (fold f xs a)"
  by (induction xs arbitrary: a) (auto intro: ops_le_trans)

lemma add_file_op_le: "ops_le ops (add_file_op name args ops)"
  by (auto simp: add_file_op_def ops_le_def files_finite_def split: option.split json.split)

lemma extract_message_le: "ops_le ops (extract_file_ops_from_message m ops)"
  by (cases m) (auto intro: ops_le_fold add_file_op_le split: option.split)

lemma json_strings_finite: "finite (json_strings v)"
  by (cases v rule: json_strings.cases) auto

lemma add_details_le: "ops_le ops (add_details d ops)"
  by (auto simp: add_details_def ops_le_def files_finite_def json_strings_finite split: option.split json.split)

lemma extract_operations_le:
  "ops_le (case prev of None \<Rightarrow> create_file_ops | Some i \<Rightarrow> add_details (previous_details (en_body (entries ! i))) create_file_ops)
     (extract_file_operations ms entries prev)"
  unfolding extract_file_operations_def by (intro ops_le_fold extract_message_le)

lemma extract_operations_finite: "files_finite (extract_file_operations ms entries prev)"
proof -
  have "files_finite create_file_ops" by (simp add: files_finite_def create_file_ops_def)
  moreover from this have "files_finite (add_details d create_file_ops)" for d
    using add_details_le ops_le_def by blast
  ultimately show ?thesis
    using extract_operations_le [of entries prev ms] by (cases prev) (simp_all add: ops_le_def)
qed

lemma file_lists_sets:
  assumes "files_finite ops" "compute_file_lists ops = (rd, md)"
  shows "set md = fo_edited ops \<union> fo_written ops" "set rd = fo_read ops - set md" "sorted rd" "distinct rd" "sorted md" "distinct md"
  using assms by (auto simp: compute_file_lists_def files_finite_def Let_def)

lemma strings_of_list: "json_strings (Some (JArr (map JStr xs))) = set xs"
  by (induction xs) (auto simp: List.map_filter_simps)

text \<open>
  The file lists of a compaction accumulate: when its details are what the compaction before
  stored, every file listed as modified before is listed as modified again, every file listed as
  read is still listed, and both lists are sorted, without repetition and without a common file.
\<close>

theorem file_lists_accumulate:
  assumes "compute_file_lists (extract_file_operations ms entries prev) = (rd, md)"
    "en_body (entries' ! i) = CompactionE c" "cb_details c = Some (file_details rd md)" "cb_from_hook c \<noteq> Some True"
    "compute_file_lists (extract_file_operations ms' entries' (Some i)) = (rd', md')"
  shows "set md \<subseteq> set md' \<and> set rd \<subseteq> set rd' \<union> set md' \<and>
    sorted rd' \<and> sorted md' \<and> distinct (rd' @ md')"
proof -
  have details: "add_details (previous_details (en_body (entries' ! i))) create_file_ops =
      \<lparr>fo_read = set rd, fo_written = {}, fo_edited = set md\<rparr>"
    using assms(2-4)
    by (simp add: add_details_def create_file_ops_def file_details_def strings_of_list lit_def del: json_strings.simps)
  note new = file_lists_sets [OF extract_operations_finite assms(5)]
  have "ops_le \<lparr>fo_read = set rd, fo_written = {}, fo_edited = set md\<rparr> (extract_file_operations ms' entries' (Some i))"
    using extract_operations_le [of entries' "Some i" ms'] by (simp add: details)
  then have "set rd \<subseteq> fo_read (extract_file_operations ms' entries' (Some i))"
    "set md \<subseteq> fo_edited (extract_file_operations ms' entries' (Some i))" by (simp_all add: ops_le_def)
  with new show ?thesis by auto
qed


subsection \<open>The entries of an abandoned branch\<close>

lemma collect_up_path:
  assumes "linked None p" "\<forall>x \<in> set p. get_entry s (en_id x) = Some x \<and> en_id x \<noteq> []" "distinct (map en_id p)"
    "p = common @ rest" "stop = (if common = [] then None else Some (en_id (last common)))" "length rest \<le> fuel"
  shows "collect_up fuel s stop (if rest = [] then stop else Some (en_id (last rest))) = Some (rev rest)"
  using assms
proof (induction rest arbitrary: p fuel rule: rev_induct)
  case Nil
  then show ?case by (cases fuel) auto
next
  case (snoc e rest)
  then obtain f where f: "fuel = Suc f" "length rest \<le> f" by (cases fuel) auto
  have e: "get_entry s (en_id e) = Some e" "en_id e \<noteq> []" using snoc.prems by auto
  have differs: "Some (en_id e) \<noteq> stop" using snoc.prems(3,4,5) by auto
  have linked: "linked None (common @ rest)" "en_parent e = (if common @ rest = [] then None else Some (en_id (last (common @ rest))))"
    using snoc.prems(1,4) by (simp_all add: linked_snoc flip: append_assoc)
  have parent: "en_parent e = (if rest = [] then stop else Some (en_id (last rest)))"
    using linked(2) snoc.prems(5) by auto
  have "collect_up f s stop (if rest = [] then stop else Some (en_id (last rest))) = Some (rev rest)"
    by (rule snoc.IH [OF linked(1) _ _ refl snoc.prems(5) f(2)]) (use snoc.prems in auto)
  then show ?case using e differs parent f by simp
qed

text \<open>Two paths of a tree share their beginning up to the last entry they have in common.\<close>

lemma linked_same_beginning:
  assumes "linked None p" "linked None q" "\<forall>x \<in> set p \<union> set q. \<forall>y \<in> set p \<union> set q. en_id x = en_id y \<longrightarrow> x = y"
    "p = a @ x # b" "q = c @ x # d"
  shows "a = c"
  using assms
proof (induction a arbitrary: p q x b c d rule: rev_induct)
  case Nil
  then have "en_parent x = None" by auto
  moreover have "en_parent x = Some (en_id z)" if "c = c' @ [z]" for c' z
    using Nil.prems(2,5) that linked_split [of None c' z x d] by simp
  ultimately show ?case by (cases c rule: rev_cases) simp_all
next
  case (snoc y a)
  have par: "en_parent x = Some (en_id y)" using snoc.prems(1,4) linked_split [of None a y x b] by simp
  show ?case
  proof (cases c rule: rev_cases)
    case Nil
    then have "en_parent x = None" using snoc.prems(2,5) by simp
    with par show ?thesis by simp
  next
    case (snoc c' z)
    then have "en_parent x = Some (en_id z)" using \<open>linked None q\<close> snoc.prems(5) linked_split [of None c' z x d] by simp
    with par have "en_id y = en_id z" by simp
    moreover have "y \<in> set p \<union> set q" "z \<in> set p \<union> set q" using snoc.prems(4,5) snoc by simp_all
    ultimately have z: "z = y" using snoc.prems(3) by metis
    have "a = c'"
      by (rule snoc.IH [OF snoc.prems(1-3), of y "x # b" c' "x # d"]) (use snoc.prems(4,5) snoc z in simp_all)
    with snoc z show ?thesis by simp
  qed
qed


lemma find_rev_split:
  "find P (rev q) = Some x \<Longrightarrow> \<exists>c d. q = c @ x # d \<and> P x \<and> (\<forall>y \<in> set d. \<not> P y)"
  using find_Some_split [of P "rev q" x] by (metis append.assoc append_Cons append_Nil rev.simps(2) rev_append rev_rev_ident set_rev)

lemma ids_of_set: "\<forall>x \<in> E. \<forall>y \<in> E. en_id x = en_id y \<longrightarrow> x = y \<Longrightarrow> set p \<subseteq> E \<Longrightarrow> x \<in> E \<Longrightarrow> en_id x \<in> ids_of p \<longleftrightarrow> x \<in> set p"
  by auto

text \<open>
  Leaving a branch summarizes exactly what is left: the collected entries are the part of the
  old path after what it shares with the path to the target, in order; nothing of the target's path
  is among them, and the reported ancestor is the last shared entry, if any.
\<close>

theorem abandoned_branch_is_collected:
  assumes "reachable session_start (session_step ser) (s, d)"
  shows "\<exists>common abandoned ahead. get_branch s (Some old) = Some (common @ abandoned) \<and>
    get_branch s (Some target) = Some (common @ ahead) \<and> set abandoned \<inter> set ahead = {} \<and>
    collect_entries_for_branch_summary s (Some old) target =
      Some \<lparr>co_entries = abandoned, co_common_ancestor = (if common = [] then None else Some (en_id (last common)))\<rparr>"
proof -
  from sess.reachable_inv [OF assms] have ok: "session_ok s" by simp
  have idx: "ss_by_id s = by_ids (get_entries s)" using ok by (simp add: session_ok_def)
  note ids = tree_ok_ids [OF session_tree [OF ok]]
  have same: "\<forall>x \<in> set (get_entries s). \<forall>y \<in> set (get_entries s). en_id x = en_id y \<longrightarrow> x = y"
    using ids by (meson distinct_map inj_onD)
  obtain p where p: "get_branch s (Some old) = Some p" "linked None p" "subseq p (get_entries s)"
      "p = [] \<and> (old = [] \<or> get_entry s old = None) \<or> p \<noteq> [] \<and> old = en_id (last p) \<and> old \<noteq> []"
  proof (cases rule: get_branch_cases [OF ok, of "Some old"])
    case 1
    then have "get_entry s old = None" by (simp add: get_entry_def idx get_by_ids_None)
    with 1 show ?thesis by (intro that [of "[]"]) simp_all
  next
    case (2 q e)
    then have "old = en_id e" "en_id e \<in> ids_of (get_entries s)" by simp_all
    with ids have "old \<noteq> []" by metis
    with 2 show ?thesis by (intro that [of q]) auto
  qed
  obtain q where q: "get_branch s (Some target) = Some q" "linked None q" "subseq q (get_entries s)"
    by (cases rule: get_branch_cases [OF ok, of "Some target"]) auto
  have sub: "set p \<subseteq> set (get_entries s)" "set q \<subseteq> set (get_entries s)" using p(3) q(3) subseq_set_subset by blast+
  have dist: "distinct (map en_id p)" using subseq_distinct_list [OF subseq_map [OF p(3)]] ids by blast
  have look: "\<forall>x \<in> set p. get_entry s (en_id x) = Some x \<and> en_id x \<noteq> []"
  proof
    fix x assume "x \<in> set p"
    with sub(1) have x: "x \<in> set (get_entries s)" by blast
    then have "en_id x \<in> ids_of (get_entries s)" by simp
    with ids have "en_id x \<noteq> []" by metis
    moreover have "get_entry s (en_id x) = Some x" using get_by_ids x ids by (simp add: get_entry_def idx)
    ultimately show "get_entry s (en_id x) = Some x \<and> en_id x \<noteq> []" by blast
  qed
  have len: "length p \<le> length (ss_by_id s)" using list_emb_length [OF p(3)] by (simp add: idx)
  have "\<exists>common abandoned ahead. p = common @ abandoned \<and> q = common @ ahead \<and> set abandoned \<inter> set ahead = {} \<and>
      common_ancestor p q = (if common = [] then None else Some (en_id (last common)))"
  proof (cases "find (\<lambda>e. en_id e \<in> ids_of p) (rev q)")
    case None
    then have "set p \<inter> set q = {}" by (auto simp: find_None_iff)
    with None show ?thesis
      by - (rule exI [of _ "[]"], rule exI [of _ p], rule exI [of _ q], simp add: common_ancestor_def)
  next
    case (Some x)
    from find_rev_split [OF Some] obtain c d where split: "q = c @ x # d" "en_id x \<in> ids_of p" "\<forall>y \<in> set d. en_id y \<notin> ids_of p" by blast
    then have "x \<in> set p" using ids_of_set [OF same sub(1)] sub(2) by auto
    then obtain a b where ab: "p = a @ x # b" by (meson split_list)
    have "a = c"
      by (rule linked_same_beginning [OF p(2) q(2) _ ab split(1)]) (use same sub in blast)
    moreover have "set b \<inter> set d = {}" using split(3) ab by auto
    moreover have "common_ancestor p q = Some (en_id x)" using Some by (simp add: common_ancestor_def)
    ultimately show ?thesis using ab split(1)
      by - (rule exI [of _ "a @ [x]"], rule exI [of _ b], rule exI [of _ d], simp)
  qed
  then obtain common abandoned ahead where parts: "p = common @ abandoned" "q = common @ ahead" "set abandoned \<inter> set ahead = {}"
      "common_ancestor p q = (if common = [] then None else Some (en_id (last common)))" by blast
  let ?anc = "common_ancestor p q"
  have up: "collect_up (length (ss_by_id s)) s ?anc (if abandoned = [] then ?anc else Some (en_id (last abandoned))) = Some (rev abandoned)"
    by (rule collect_up_path [OF p(2) look dist parts(1,4)]) (use len parts(1) in simp)
  have up_old: "collect_up (length (ss_by_id s)) s ?anc (Some old) = Some (rev abandoned)" if old: "old \<noteq> []"
  proof (cases "p = []")
    case True
    with p(4) old parts(1,4) show ?thesis by simp
  next
    case False
    with p(4) parts(1,4) have "Some old = (if abandoned = [] then ?anc else Some (en_id (last abandoned)))" by auto
    with up show ?thesis by (simp only:)
  qed
  have "collect_entries_for_branch_summary s (Some old) target = Some \<lparr>co_entries = abandoned, co_common_ancestor = ?anc\<rparr>"
  proof (cases "old = []")
    case True
    with p(4) have "p = []" by auto
    with parts(1,4) True show ?thesis by (simp add: collect_entries_for_branch_summary_def)
  next
    case False
    with up_old [OF False] p(1) q(1) show ?thesis
      by (simp add: collect_entries_for_branch_summary_def del: collect_up.simps)
  qed
  then show ?thesis using p(1) q(1) unfolding parts(4) unfolding parts(1,2) using parts(3) by blast
qed


subsection \<open>The budget of a branch summary\<close>

fun is_summary_message :: "message \<Rightarrow> bool" where
  "is_summary_message (BranchSummaryMsg m) = True"
| "is_summary_message (CompactionSummaryMsg m) = True"
| "is_summary_message _ = False"

definition branch_messages :: "(pystr \<Rightarrow> int) \<Rightarrow> entry list \<Rightarrow> message list" where
  "branch_messages epoch es = map raw_message (List.map_filter (get_message_from_entry epoch) es)"

definition fits :: "int \<Rightarrow> message list \<Rightarrow> bool" where
  "fits budget ms \<longleftrightarrow> budget \<le> 0 \<or> int (estimate_all ms) \<le> budget \<or>
     (\<exists>m rest. ms = m # rest \<and> is_summary_message m \<and> int (estimate_all rest) \<le> budget \<and> 10 * int (estimate_all rest) < 9 * budget)"

lemma summary_entry_message:
  "get_message_from_entry epoch e = Some m \<Longrightarrow> is_summary_entry (en_body e) \<Longrightarrow> is_summary_message (raw_message m)"
  by (cases "en_body e") (auto simp: get_message_from_entry_def is_summary_entry_def
      create_branch_summary_message_def create_compaction_summary_message_def)

lemma estimate_raw_Inr: "estimate_raw m = Inr n \<Longrightarrow> n = estimate_tokens (raw_message m)"
  by (cases m) (auto split: if_splits)

lemma branch_pass_spec:
  assumes "branch_pass epoch budget es messages ops acc = Inr p" "acc = estimate_all messages" "budget \<le> 0 \<or> int acc \<le> budget"
  shows "\<exists>skipped taken. rev (branch_messages epoch es) = skipped @ taken \<and> bp_messages p = taken @ messages \<and>
    bp_total_tokens p = estimate_all (bp_messages p) \<and> (budget \<le> 0 \<longrightarrow> skipped = []) \<and> fits budget (bp_messages p) \<and>
    (skipped \<noteq> [] \<longrightarrow> int (estimate_all (last skipped # bp_messages p)) > budget)"
  using assms
proof (induction epoch budget es messages ops acc rule: branch_pass.induct)
  case (1 epoch budget messages ops acc)
  then show ?case by (auto simp: branch_messages_def List.map_filter_simps fits_def)
next
  case (2 epoch budget e es messages ops acc)
  show ?case
  proof (cases "get_message_from_entry epoch e")
    case None
    with 2 show ?thesis by (simp add: branch_messages_def List.map_filter_simps)
  next
    case (Some m)
    let ?m = "raw_message m"
    from 2(3) Some obtain n where "estimate_raw m = Inr n" by (auto simp: Let_def split: sum.splits)
    note n = this estimate_raw_Inr [OF this]
    have tokens: "estimate_all (?m # ms) = n + estimate_all ms" for ms by (simp add: estimate_all_def n(2))
    have all: "rev (branch_messages epoch (e # es)) = rev (branch_messages epoch es) @ [?m]"
      by (simp add: branch_messages_def List.map_filter_simps Some)
    show ?thesis
    proof (cases "budget > 0 \<and> int (acc + n) > budget")
      case False
      with 2(2) [OF Some refl n(1)] 2(3-5) Some n tokens obtain skipped taken where
        "rev (branch_messages epoch es) = skipped @ taken" "bp_messages p = taken @ ?m # messages"
        "bp_total_tokens p = estimate_all (bp_messages p)" "budget \<le> 0 \<longrightarrow> skipped = []" "fits budget (bp_messages p)"
        "skipped \<noteq> [] \<longrightarrow> int (estimate_all (last skipped # bp_messages p)) > budget" by auto
      then show ?thesis unfolding all by (intro exI [of _ skipped] exI [of _ "taken @ [?m]"]) simp
    next
      case over: True
      show ?thesis
      proof (cases "is_summary_entry (en_body e) \<and> 10 * int acc < 9 * budget")
        case True
        with over 2(3) Some n(1) have p: "bp_messages p = ?m # messages" "bp_total_tokens p = acc + n" by (auto simp: Let_def)
        have "fits budget (?m # messages)"
          using True over 2(4,5) summary_entry_message [OF Some] unfolding fits_def by auto
        moreover have "int (estimate_all (x # ?m # messages)) > budget" for x
          using over tokens [of messages] 2(4) by (simp add: estimate_all_def)
        ultimately show ?thesis unfolding all p using over tokens 2(4)
          by (intro exI [of _ "rev (branch_messages epoch es)"] exI [of _ "[?m]"]) auto
      next
        case False
        with over 2(3) Some n(1) have p: "bp_messages p = messages" "bp_total_tokens p = acc" by (auto simp: Let_def)
        have "fits budget messages" using over 2(4,5) by (auto simp: fits_def)
        then show ?thesis unfolding all p using over tokens [of messages] 2(4)
          by (intro exI [of _ "rev (branch_messages epoch es) @ [?m]"] exI [of _ "[]"]) auto
      qed
    qed
  qed
qed

text \<open>
  The messages given to a branch summary are the newest ones of the branch: leaving out none when
  there is no budget; with one, their estimated tokens are within it, or they start with an older
  summary squeezed in while the rest was below nine tenths of it, and the next older message would
  have exceeded it. The total is their estimate.
\<close>

theorem branch_summary_fits_the_budget:
  assumes "prepare_branch_entries epoch entries budget = Inr p"
  shows "\<exists>skipped. map raw_message (List.map_filter (get_message_from_entry epoch) entries) = skipped @ bp_messages p \<and>
    bp_total_tokens p = estimate_all (bp_messages p) \<and> (budget \<le> 0 \<longrightarrow> skipped = []) \<and>
    (budget > 0 \<longrightarrow> int (estimate_all (bp_messages p)) \<le> budget \<or>
       (\<exists>m rest. bp_messages p = m # rest \<and> is_summary_message m \<and> 10 * int (estimate_all rest) < 9 * budget)) \<and>
    (skipped \<noteq> [] \<longrightarrow> int (estimate_all (last skipped # bp_messages p)) > budget)"
proof -
  have reversed: "rev (branch_messages epoch (rev entries)) = branch_messages epoch entries"
    by (induction entries) (auto simp: branch_messages_def List.map_filter_def)
  have "0 = estimate_all []" "budget \<le> 0 \<or> int 0 \<le> budget" by (auto simp: estimate_all_def)
  from branch_pass_spec [OF assms [unfolded prepare_branch_entries_def] this] obtain skipped where
    "branch_messages epoch entries = skipped @ bp_messages p" "bp_total_tokens p = estimate_all (bp_messages p)"
    "budget \<le> 0 \<longrightarrow> skipped = []" "fits budget (bp_messages p)"
    "skipped \<noteq> [] \<longrightarrow> int (estimate_all (last skipped # bp_messages p)) > budget" unfolding reversed by auto
  then show ?thesis unfolding branch_messages_def fits_def by (intro exI [of _ skipped]) auto
qed

subsection \<open>Witnesses\<close>

definition example_response :: "string \<Rightarrow> assistant_message" where
  "example_response t = \<lparr>am_content = [text_block (lit t)], am_api = [], am_provider = [], am_model = [], am_usage = None,
     am_stop_reason = Stop, am_timestamp = 0, am_response_model = None, am_response_id = None,
     am_provider_thinking_level = None, am_thinking_level = None, am_diagnostics = None, am_error_message = None,
     am_raw_stop_reason = None, am_end_turn = None, am_deferred = None, am_duration_ms = None\<rparr>"

definition example_service :: summary_service where
  "example_service = \<lparr>sv_stream = Some (\<lambda>r n. Inr (example_response ''done'')), sv_policy = None, sv_cancelled = (\<lambda>_ _. False),
     sv_now = (\<lambda>_. 0), sv_uuid = (\<lambda>_. []), sv_model_reasoning = False, sv_thinking_level = None, sv_session_id = None,
     sv_fadd = (+), sv_group_error = (\<lambda>a b. a)\<rparr>"

definition example_details :: compaction_body where
  "example_details = \<lparr>cb_summary = [], cb_first_kept = None, cb_tokens_before = 0,
     cb_details = Some (file_details [lit ''a''] [lit ''b'']), cb_usage = None, cb_from_hook = None, cb_system = None\<rparr>"

definition example_compaction :: entry where
  "example_compaction = \<lparr>en_id = lit ''c'', en_parent = None, en_timestamp = [], en_body = CompactionE example_details\<rparr>"

definition example_preparation :: preparation_of_compaction where
  "example_preparation = \<lparr>pr_first_kept = lit ''k'', pr_summarize = [UserMsg \<lparr>um_content = StrContent (lit ''hi''), um_timestamp = 0\<rparr>],
     pr_turn_prefix = [], pr_split = False, pr_tokens_before = 7,
     pr_file_ops = \<lparr>fo_read = {lit ''a''}, fo_written = {}, fo_edited = {lit ''b''}\<rparr>,
     pr_settings = DEFAULT_COMPACTION_SETTINGS, pr_previous_summary = None\<rparr>"

lemma example_response_to: "response_to example_service n prompt = Inr (example_response ''done'')"
  by (simp add: response_to_def complete_summarization_def example_service_def retry_assistant_call_def
      retry_from.simps report_finish_def example_response_def)


theorem file_lists_accumulate_witness:
  "\<exists>rd md. compute_file_lists (extract_file_operations [] [example_compaction] (Some 0)) = (rd, md) \<and> lit ''b'' \<in> set md"
proof -
  have first: "compute_file_lists (extract_file_operations [] [example_compaction] (Some 0)) = ([lit ''a''], [lit ''b''])"
    by (simp add: extract_file_operations_def example_compaction_def example_details_def add_details_def create_file_ops_def
        file_details_def compute_file_lists_def List.map_filter_simps lit_def)
  have body: "en_body ([example_compaction] ! 0) = CompactionE example_details" by (simp add: example_compaction_def)
  have "cb_details example_details = Some (file_details [lit ''a''] [lit ''b''])" "cb_from_hook example_details \<noteq> Some True"
    by (simp_all add: example_details_def)
  from file_lists_accumulate [OF first body this first] first show ?thesis by auto
qed

theorem abandoned_branch_is_collected_witness:
  "\<exists>r. collect_entries_for_branch_summary (fst example_session) (Some (example_id 3)) (example_id 1) = Some r \<and>
     map en_id (co_entries r) = [example_id 2, example_id 3]"
proof -
  have "map_option (\<lambda>r. map en_id (co_entries r))
      (collect_entries_for_branch_summary (fst example_session) (Some (example_id 3)) (example_id 1)) = Some [example_id 2, example_id 3]"
    by code_simp
  with abandoned_branch_is_collected [OF example_session_reachable, of "example_id 3" "example_id 1"] show ?thesis by auto
qed

theorem branch_summary_fits_the_budget_witness:
  "\<exists>p. prepare_branch_entries (\<lambda>_. 0) [example_compaction] 5 = Inr p \<and> bp_total_tokens p = estimate_all (bp_messages p)"
proof -
  have "\<exists>p. prepare_branch_entries (\<lambda>_. 0) [example_compaction] 5 = Inr p"
    by (simp add: prepare_branch_entries_def example_compaction_def example_details_def get_message_from_entry_def Let_def
        create_compaction_summary_message_def estimate_tokens_def)
  then obtain p where "prepare_branch_entries (\<lambda>_. 0) [example_compaction] 5 = Inr p" by blast
  with branch_summary_fits_the_budget [OF this] show ?thesis by blast
qed

end
