(* ===== verification/Overflow.thy ===== *)
theory Overflow
  imports Patterns
begin

section \<open>Context overflow (ai/utils/overflow.py)\<close>

text \<open>
  Whether a response says that its request did not fit the context window: an error whose text a
  provider uses for it, a completed response that reports more input than the window holds, or one
  that stopped at the token cap with no output because the input filled the window. A response
  without usage, as an old file may hold, raises where its usage is read.
\<close>

definition OVERFLOW_PATTERNS :: "rx list list" where
  \<open>OVERFLOW_PATTERNS =
    [[Lit (lit ''prompt ''), Opt [Lit (lit ''is '')], Lit (lit ''too long'')],
     [Lit (lit ''prompt exceeds max length'')],
     [Lit (lit ''request_too_large'')],
     [Lit (lit ''input is too long for requested model'')],
     [Lit (lit ''exceeds the context window'')],
     [Lit (lit ''exceeds ''), Opt [Lit (lit ''the '')], Opt [Lit (lit ''model''), Opt [Lit [39]], Lit (lit ''s '')], Lit (lit ''maximum context length''), Alt [[Lit (lit '' of ''), Some_of DigitOrComma, Lit (lit '' token''), Opt [Lit (lit ''s'')]], [Many Space, Lit (lit ''(''), Some_of DigitOrComma, Lit (lit '')'')]]],
     [Lit (lit ''input token count''), Many AnyChar, Lit (lit ''exceeds the maximum'')],
     [Lit (lit ''maximum prompt length is ''), Some_of Digit],
     [Lit (lit ''reduce the length of the messages'')],
     [Lit (lit ''maximum context length is ''), Some_of Digit, Lit (lit '' tokens'')],
     [Lit (lit ''exceeds ''), Opt [Lit (lit ''the '')], Lit (lit ''maximum allowed input length of ''), Some_of DigitOrComma, Lit (lit '' token''), Opt [Lit (lit ''s'')]],
     [Lit (lit ''input (''), Some_of Digit, Lit (lit '' tokens) is longer than the model''), Opt [Lit [39]], Lit (lit ''s context length (''), Some_of Digit, Lit (lit '' tokens)'')],
     [Lit (lit ''exceeds the limit of ''), Some_of Digit],
     [Lit (lit ''exceeds the available context size'')],
     [Lit (lit ''greater than the context length'')],
     [Lit (lit ''context window exceeds limit'')],
     [Lit (lit ''exceeded model token limit'')],
     [Lit (lit ''too large for model with ''), Some_of Digit, Lit (lit '' maximum context length'')],
     [Lit (lit ''prompt has ''), Some_of DigitOrComma, Lit (lit '' token''), Opt [Lit (lit ''s'')], Lit (lit '', but the configured context size is ''), Some_of DigitOrComma, Lit (lit '' token''), Opt [Lit (lit ''s'')]],
     [Lit (lit ''model_context_window_exceeded'')],
     [Lit (lit ''prompt too long; exceeded ''), Opt [Lit (lit ''max '')], Lit (lit ''context length'')],
     [Lit (lit ''range of input length should be'')],
     [Lit (lit ''context''), One (OneOf (lit ''_ '')), Lit (lit ''length''), One (OneOf (lit ''_ '')), Lit (lit ''exceeded'')],
     [Lit (lit ''too many tokens'')],
     [Lit (lit ''token limit exceeded'')],
     [AtStart, Alt [[Some_of (OneOf (lit ''abcdefghijklmnopqrstuvwxyz0123456789_ -'')), Lit (lit '' API error (413):'')], [Lit (lit ''413''), Alt [[One Space], [Lit (lit '':'')], [AtEnd]]]]]]\<close>

definition CEREBRAS_BODYLESS_OVERFLOW_PATTERN :: "rx list list" where
  \<open>CEREBRAS_BODYLESS_OVERFLOW_PATTERN =
    [[AtStart, Lit (lit ''4''), Alt [[Lit (lit ''00'')], [Lit (lit ''13'')]], Many Space, Opt [Lit (lit ''status code'')], Many Space, Lit (lit ''(no body)'')]]\<close>

definition NON_OVERFLOW_PATTERNS :: "rx list list" where
  \<open>NON_OVERFLOW_PATTERNS =
    [[AtStart, Alt [[Lit (lit ''Throttling error'')], [Lit (lit ''Service unavailable'')]], Lit (lit '':'')],
     [Lit (lit ''rate limit'')],
     [Lit (lit ''too many requests'')]]\<close>

definition usage_of :: "assistant_message \<Rightarrow> usage result" where
  "usage_of m = (case am_usage m of Some u \<Rightarrow> Inr u | None \<Rightarrow> Inl (lit ''AttributeError''))"

definition error_says_overflow :: "assistant_message \<Rightarrow> bool" where
  "error_says_overflow message \<longleftrightarrow>
     am_stop_reason message = StopError \<and>
     (case am_error_message message of
        None \<Rightarrow> False
      | Some e \<Rightarrow> e \<noteq> [] \<and> \<not> search NON_OVERFLOW_PATTERNS e \<and>
          (search OVERFLOW_PATTERNS e \<or>
           am_provider message = lit ''cerebras'' \<and> search CEREBRAS_BODYLESS_OVERFLOW_PATTERN e))"

text \<open>
  \<open>None\<close> and zero both stand for no window. The float product with 0.99 is on the same side of every
  whole number as the exact one, for windows below \<open>2 ^ 50\<close>.
\<close>

definition is_context_overflow :: "assistant_message \<Rightarrow> int option \<Rightarrow> bool result" where
  "is_context_overflow message context_window =
    (if error_says_overflow message then Inr True
     else let window = (case context_window of Some w \<Rightarrow> w | None \<Rightarrow> 0)
     in if window \<noteq> 0 \<and> am_stop_reason message = Stop
        then map_sum id (\<lambda>u. us_input u + us_cache_read u > window) (usage_of message)
        else if window \<noteq> 0 \<and> am_stop_reason message = StopLength
        then map_sum id (\<lambda>u. us_output u = 0 \<and> 100 * (us_input u + us_cache_read u) \<ge> 99 * window) (usage_of message)
        else Inr False)"

definition is_recoverable_length :: "assistant_message \<Rightarrow> int \<Rightarrow> bool result" where
  "is_recoverable_length message desired_max_output =
    (if am_stop_reason message = StopLength \<and> desired_max_output > 0
     then map_sum id (\<lambda>u. us_output u < desired_max_output) (usage_of message)
     else Inr False)"

lemma overflow_reasons:
  "is_context_overflow m w = Inr True \<Longrightarrow> am_stop_reason m \<in> {StopError, Stop, StopLength}"
  by (auto simp: is_context_overflow_def error_says_overflow_def Let_def split: if_splits)

lemma recoverable_length_reason: "is_recoverable_length m n = Inr True \<Longrightarrow> am_stop_reason m = StopLength"
  by (simp add: is_recoverable_length_def split: if_splits)

text \<open>Error texts of providers.\<close>

lemma overflow_texts:
  "search OVERFLOW_PATTERNS (lit ''Prompt is too long'')" "search CEREBRAS_BODYLESS_OVERFLOW_PATTERN (lit ''413 (no body)'')"
  "search NON_OVERFLOW_PATTERNS (lit ''Throttling error: too many tokens'')"
  by (simp_all add: search_def OVERFLOW_PATTERNS_def CEREBRAS_BODYLESS_OVERFLOW_PATTERN_def NON_OVERFLOW_PATTERNS_def
      fold_case_def lit_def py_isspace_def)

end
