(* ===== verification/Recovery.thy ===== *)
theory Recovery
  imports Summaries Overflow
begin

section \<open>Recovery after a run (core/agent_session.py)\<close>

text \<open>
  What the session does between two runs of its agent: retry a transient error with backoff, compact
  after a context overflow and retry once, compact at the threshold, continue for queued messages.
  An action runs on the session state and returns or raises; \<open>None\<close> stands for a walk that does not
  end. Python compares messages by identity: the objects of the agent's messages carry a number, and
  which object an entry holds or a projection creates is a parameter. Also parameters: the models,
  the settings, the extension hooks, the summarizer, the agent's runs, and the moment a cancel token
  fires, counted in the checks that read it.
\<close>

subsection \<open>State\<close>

record session_model =
  md_provider :: pystr
  md_id :: pystr
  md_context_window :: int
  md_max_tokens :: int
  md_virtual :: bool

datatype compaction_reason = ManualCompaction | OverflowCompaction | ThresholdCompaction

datatype recovery_event =
    CompactionStarted compaction_reason
  | CompactionEnded compaction_reason "(compaction_result \<times> nat) option" bool bool "pystr option"
  | SessionCompacted entry bool compaction_reason bool
  | SessionCompactFailed compaction_reason "pystr option" bool bool bool
  | AutoRetryStarted int int int pystr
  | AutoRetryEnded bool int "pystr option"
  | EntryAppended entry

record recovery =
  rv_session :: session
  rv_disk :: disk
  rv_step :: nat
  rv_messages :: "(nat \<times> message) list"
  rv_entry_ids :: "(nat, pystr) dict"
  rv_retry_attempt :: int
  rv_overflow_attempted :: bool
  rv_run_active :: bool
  rv_abort_requested :: bool
  rv_queued :: bool
  rv_failed :: "(nat \<times> assistant_message) option"
  rv_last :: "(nat \<times> assistant_message) option"
  rv_events :: "recovery_event list"

text \<open>What the handlers of \<open>session_before_compact\<close> answer.\<close>

datatype hook_result = HookNothing | HookCancel | HookCompaction compaction_result | HookRaises pystr

record recovery_host =
  rh_ser :: "file_entry \<Rightarrow> pystr"
  rh_env :: "nat \<Rightarrow> env"
  rh_epoch :: "pystr \<Rightarrow> int"
  rh_settings :: compaction_settings
  rh_retry :: retry_policy
  rh_model :: "session_model option"
  rh_physical :: "pystr \<Rightarrow> pystr \<Rightarrow> session_model option"
  rh_no_model_text :: pystr
  rh_before_compact :: "(preparation_of_compaction \<Rightarrow> hook_result) option"
  rh_failed_handlers :: bool
  rh_summarizer :: "summary_service result"
  rh_cancel_at :: "nat option"
  rh_retry_cancelled :: "int \<Rightarrow> bool"
  rh_object_of_entry :: "pystr \<Rightarrow> nat option"
  rh_projected_object :: "session \<Rightarrow> nat \<Rightarrow> nat"

type_synonym 'a act = "recovery \<Rightarrow> ('a result \<times> recovery) option"

definition ret :: "'a \<Rightarrow> 'a act" where
  "ret x s = Some (Inr x, s)"

definition raise :: "pystr \<Rightarrow> 'a act" where
  "raise e s = Some (Inl e, s)"

definition and_then :: "'a act \<Rightarrow> ('a \<Rightarrow> 'b act) \<Rightarrow> 'b act" where
  "and_then m f s =
    (case m s of
       None \<Rightarrow> None
     | Some (Inl e, s') \<Rightarrow> Some (Inl e, s')
     | Some (Inr x, s') \<Rightarrow> f x s')"

definition lift_result :: "'a result \<Rightarrow> 'a act" where
  "lift_result r s = Some (r, s)"

definition emit :: "recovery_event \<Rightarrow> recovery \<Rightarrow> recovery" where
  "emit e s = s\<lparr>rv_events := rv_events s @ [e]\<rparr>"

subsection \<open>The session's transcript\<close>

definition current_env :: "recovery_host \<Rightarrow> recovery \<Rightarrow> env" where
  "current_env h s = rh_env h (rv_step s)"

definition current_branch :: "entry list act" where
  "current_branch s = map_option (\<lambda>p. (Inr p, s)) (get_branch (rv_session s) None)"

definition current_projection :: "recovery_host \<Rightarrow> session_projection act" where
  "current_projection h s = map_option (\<lambda>p. (Inr p, s)) (session_projection_of (current_env h s) (rv_session s))"

text \<open>An append of the session manager.\<close>

definition append_with :: "(env \<Rightarrow> session \<Rightarrow> disk \<Rightarrow> 'a outcome option) \<Rightarrow> recovery_host \<Rightarrow> 'a act" where
  "append_with op h s =
    (case op (current_env h s) (rv_session s) (rv_disk s) of
       None \<Rightarrow> None
     | Some (session', disk', r) \<Rightarrow> Some (r, s\<lparr>rv_session := session', rv_disk := disk', rv_step := rv_step s + 1\<rparr>))"

definition refresh_finalized_context :: "recovery_host \<Rightarrow> unit act" where
  "refresh_finalized_context h = and_then (current_projection h) (\<lambda>p s.
    Some (Inr (), s\<lparr>rv_messages := map (\<lambda>(i, m). (rh_projected_object h (rv_session s) i, m)) (enumerate 0 (sp_messages p))\<rparr>))"

definition estimate_messages_tokens :: "message list \<Rightarrow> nat" where
  "estimate_messages_tokens messages = sum_list (map estimate_tokens messages)"

fun holds_object :: "(pystr \<Rightarrow> nat option) \<Rightarrow> nat \<Rightarrow> entry \<Rightarrow> bool" where
  "holds_object object_of obj e = (case en_body e of MessageE m \<Rightarrow> object_of (en_id e) = Some obj | _ \<Rightarrow> False)"

definition find_persisted_message_entry_id :: "recovery_host \<Rightarrow> nat \<Rightarrow> pystr option act" where
  "find_persisted_message_entry_id h obj s =
    (case dict_get (rv_entry_ids s) obj of
       Some i \<Rightarrow> ret (Some i) s
     | None \<Rightarrow>
         and_then current_branch (\<lambda>path.
           case find (holds_object (rh_object_of_entry h) obj) (rev path) of
             Some e \<Rightarrow> ret (Some (en_id e))
           | None \<Rightarrow>
               (\<lambda>s. case find_index (\<lambda>(o1, _). o1 = obj) (rv_messages s) of
                      None \<Rightarrow> ret None s
                    | Some i \<Rightarrow> and_then (current_projection h) (\<lambda>p. ret (covering_entry i (sp_entries p))) s)) s)"

text \<open>The position of a projected entry among the messages; \<open>None\<close> stands for \<open>-1\<close>.\<close>

fun projected_position :: "pystr \<Rightarrow> nat \<Rightarrow> nat \<Rightarrow> projected_entry list \<Rightarrow> nat option" where
  "projected_position i count position [] = None"
| "projected_position i count position (e # es) =
     (if en_id (pe_source e) = i \<and> pe_messages e \<noteq> []
      then (if position < count then Some position else None)
      else projected_position i count (position + length (pe_messages e)) es)"

text \<open>The results of the attempt's calls, up to the next assistant message.\<close>

fun attempt_results :: "pystr list \<Rightarrow> (nat \<times> message) list \<Rightarrow> nat list" where
  "attempt_results ids [] = []"
| "attempt_results ids ((obj, AssistantMsg m) # ms) = []"
| "attempt_results ids ((obj, ToolResultMsg m) # ms) =
     (if trm_tool_call_id m \<in> set ids then obj # attempt_results ids ms else attempt_results ids ms)"
| "attempt_results ids (_ # ms) = attempt_results ids ms"

fun find_entry_ids :: "recovery_host \<Rightarrow> nat list \<Rightarrow> pystr option list act" where
  "find_entry_ids h [] = ret []"
| "find_entry_ids h (obj # objs) =
     and_then (find_persisted_message_entry_id h obj) (\<lambda>i. and_then (find_entry_ids h objs) (\<lambda>is. ret (i # is)))"

fun omit_entries :: "recovery_host \<Rightarrow> pystr option list \<Rightarrow> unit act" where
  "omit_entries h [] = ret ()"
| "omit_entries h (None # targets) = omit_entries h targets"
| "omit_entries h (Some target # targets) =
     (if target = [] then omit_entries h targets
      else and_then (append_with (\<lambda>env. append_context_edit (rh_ser h) env target None) h) (\<lambda>edit_id s.
        omit_entries h targets
          (case get_entry (rv_session s) edit_id of Some e \<Rightarrow> emit (EntryAppended e) s | None \<Rightarrow> s)))"

definition attempt_index :: "recovery_host \<Rightarrow> nat \<Rightarrow> pystr option \<Rightarrow> nat option act" where
  "attempt_index h obj entry_id s =
    (case (find_index (\<lambda>(o1, _). o1 = obj) (rv_messages s), entry_id) of
       (None, Some i) \<Rightarrow>
         and_then (current_projection h) (\<lambda>p s. ret (projected_position i (length (rv_messages s)) 0 (sp_entries p)) s) s
     | (index, _) \<Rightarrow> ret index s)"

definition omit_recovery_attempt :: "recovery_host \<Rightarrow> nat \<times> assistant_message \<Rightarrow> unit act" where
  "omit_recovery_attempt h attempt =
    (case attempt of (obj, message) \<Rightarrow>
      and_then (find_persisted_message_entry_id h obj) (\<lambda>entry_id.
      and_then (attempt_index h obj entry_id) (\<lambda>index s.
        (let messages = rv_messages s;
             results = (case index of
               Some i \<Rightarrow> attempt_results (map call_id (tool_calls_of (am_content message))) (drop (i + 1) messages)
             | None \<Rightarrow> []);
             targets = obj # results
         in and_then (find_entry_ids h targets) (\<lambda>ids.
              if list_ex (\<lambda>(i, target). i = None \<and> list_ex (\<lambda>(o1, _). o1 = target) messages) (zip ids targets)
              then raise (lit ''Cannot persist recovery omission because a projected message has no source entry'')
              else and_then (omit_entries h ids) (\<lambda>_. refresh_finalized_context h)) s))))"

subsection \<open>Running a compaction\<close>

definition cancelled_by :: "recovery_host \<Rightarrow> recovery \<Rightarrow> nat \<Rightarrow> bool" where
  "cancelled_by h s k \<longleftrightarrow>
     rv_run_active s \<and> rv_abort_requested s \<or> (case rh_cancel_at h of None \<Rightarrow> False | Some c \<Rightarrow> c \<le> k)"

text \<open>
  The content of a compaction: whether an extension gave it, whether one cancelled it, and the content
  or the error. Checks 0 to 2 of the token are after the start, after the hook and after the summary.
\<close>

definition compaction_content ::
  "recovery_host \<Rightarrow> preparation_of_compaction \<Rightarrow> pystr option \<Rightarrow> pystr \<Rightarrow> (nat \<Rightarrow> bool) \<Rightarrow> bool \<times> bool \<times> compaction_result result" where
  "compaction_content h p custom cancelled_text stopped =
    (if stopped 0 then (False, False, Inl cancelled_text)
     else let hook = (case rh_before_compact h of Some f \<Rightarrow> f p | None \<Rightarrow> HookNothing)
     in case hook of
          HookRaises e \<Rightarrow> (False, False, Inl e)
        | HookCancel \<Rightarrow> (False, True, Inl (lit ''Compaction cancelled''))
        | HookCompaction c \<Rightarrow>
            (True, False, if stopped 1 \<or> stopped 2 then Inl cancelled_text else Inr c)
        | HookNothing \<Rightarrow>
            (False, False,
             if stopped 1 then Inl cancelled_text
             else case rh_summarizer h of
               Inl e \<Rightarrow> Inl e
             | Inr sv \<Rightarrow> (case compact sv p custom of
                 Inl e \<Rightarrow> Inl e
               | Inr c \<Rightarrow> if stopped 2 then Inl cancelled_text else Inr c)))"

definition compaction_with_summary :: "pystr \<Rightarrow> entry \<Rightarrow> bool" where
  "compaction_with_summary summary e = (case en_body e of CompactionE c \<Rightarrow> cb_summary c = summary | _ \<Rightarrow> False)"

text \<open>\<open>None\<close> as details.\<close>

definition given_details :: "json \<Rightarrow> json option" where
  "given_details d = (if d = JNull then None else Some d)"

text \<open>Storing it: the estimated tokens of the context afterwards.\<close>

definition store_compaction :: "recovery_host \<Rightarrow> compaction_reason \<Rightarrow> bool \<Rightarrow> bool \<Rightarrow> compaction_result \<Rightarrow> nat act" where
  "store_compaction h reason will_retry from_extension c =
    and_then (append_with (\<lambda>env. append_compaction (rh_ser h) env (cr_summary c) (Some (cr_first_kept c)) (cr_tokens_before c)
        (given_details (cr_details c)) (Some from_extension) (cr_usage c)) h) (\<lambda>_.
    and_then (refresh_finalized_context h) (\<lambda>_.
    and_then (current_projection h) (\<lambda>p s.
      ret (estimate_messages_tokens (sp_messages p))
        (case find (compaction_with_summary (cr_summary c)) (get_entries (rv_session s)) of
           Some e \<Rightarrow> emit (SessionCompacted e from_extension reason will_retry) s
         | None \<Rightarrow> s))))"

definition end_failed_compaction ::
  "recovery_host \<Rightarrow> compaction_reason \<Rightarrow> pystr option \<Rightarrow> bool \<Rightarrow> bool \<Rightarrow> recovery \<Rightarrow> recovery" where
  "end_failed_compaction h reason error_message aborted from_extension s =
    (let s' = emit (CompactionEnded reason None aborted False error_message) s
     in if rh_failed_handlers h then emit (SessionCompactFailed reason error_message aborted False from_extension) s' else s')"

definition auto_error :: "compaction_reason \<Rightarrow> bool \<Rightarrow> pystr \<Rightarrow> pystr option" where
  "auto_error reason aborted e =
    (let message = (if e = [] then lit ''compaction failed'' else e)
     in if aborted then None
        else if reason = OverflowCompaction then Some (lit ''Context overflow recovery failed: '' @ message)
        else Some (lit ''Auto-compaction failed: '' @ message))"

definition run_auto_compaction :: "recovery_host \<Rightarrow> compaction_reason \<Rightarrow> bool \<Rightarrow> bool act" where
  "run_auto_compaction h reason will_retry s =
    (case rh_model h of
       None \<Rightarrow> ret False s
     | Some model \<Rightarrow>
         (case get_branch (rv_session s) None of
            None \<Rightarrow> None
          | Some path \<Rightarrow>
              (case prepare_compaction (rh_epoch h) path (rh_settings h) of
                 None \<Rightarrow> None
               | Some None \<Rightarrow> ret False s
               | Some (Some p) \<Rightarrow>
                   (let s1 = emit (CompactionStarted reason) s;
                        stopped = cancelled_by h s
                    in case compaction_content h p None (lit ''cancelled'') stopped of
                         (from_extension, by_extension, Inl e) \<Rightarrow>
                           (let aborted = (stopped 3 \<or> by_extension)
                            in ret False (end_failed_compaction h reason (auto_error reason aborted e) aborted from_extension s1))
                       | (from_extension, by_extension, Inr c) \<Rightarrow>
                           (case store_compaction h reason will_retry from_extension c s1 of
                              None \<Rightarrow> None
                            | Some (Inl e, s2) \<Rightarrow>
                                ret False (end_failed_compaction h reason (auto_error reason (stopped 3) e) (stopped 3) from_extension s2)
                            | Some (Inr tokens, s2) \<Rightarrow>
                                ret (will_retry \<or> rv_queued s2)
                                  (emit (CompactionEnded reason (Some (c, tokens)) False will_retry None) s2))))))"

text \<open>The manual entry point; the agent has been aborted and is idle.\<close>

definition manual_checks :: "(nat \<Rightarrow> bool) \<Rightarrow> nat \<Rightarrow> bool" where
  "manual_checks stopped k \<longleftrightarrow> k = 2 \<and> stopped 2"

definition manual_compact :: "recovery_host \<Rightarrow> pystr option \<Rightarrow> compaction_result act" where
  "manual_compact h custom s =
    (let s1 = emit (CompactionStarted ManualCompaction) s;
         stopped = (\<lambda>k. case rh_cancel_at h of None \<Rightarrow> False | Some c \<Rightarrow> c \<le> k);
         fail = (\<lambda>e by_extension from_extension s. (let aborted = (stopped 3 \<or> by_extension)
           in Some (Inl e, end_failed_compaction h ManualCompaction
                (if aborted then None else Some (lit ''Compaction failed: '' @ e)) aborted from_extension s)))
     in if rh_model h = None then fail (rh_no_model_text h) False False s1
        else case get_branch (rv_session s) None of
          None \<Rightarrow> None
        | Some path \<Rightarrow>
            (case prepare_compaction (rh_epoch h) path (rh_settings h) of
               None \<Rightarrow> None
             | Some None \<Rightarrow>
                 fail (if path \<noteq> [] \<and> is_compaction (en_body (last path)) then lit ''Already compacted''
                       else lit ''Nothing to compact (session too small)'') False False s1
             | Some (Some p) \<Rightarrow>
                 (case compaction_content h p custom (lit ''Compaction cancelled'') (manual_checks stopped) of
                    (from_extension, by_extension, Inl e) \<Rightarrow> fail e by_extension from_extension s1
                  | (from_extension, by_extension, Inr c) \<Rightarrow>
                      (case store_compaction h ManualCompaction False from_extension c s1 of
                         None \<Rightarrow> None
                       | Some (Inl e, s2) \<Rightarrow> fail e False from_extension s2
                       | Some (Inr tokens, s2) \<Rightarrow>
                           Some (Inr c, emit (CompactionEnded ManualCompaction (Some (c, tokens)) False False None) s2)))))"


subsection \<open>Deciding on a compaction\<close>

definition model_for_message :: "recovery_host \<Rightarrow> assistant_message \<Rightarrow> session_model option" where
  "model_for_message h message =
    (case rh_model h of
       None \<Rightarrow> None
     | Some model \<Rightarrow>
         if md_virtual model then rh_physical h (am_provider message) (am_model message)
         else if md_provider model = am_provider message \<and> md_id model = am_model message then Some model else None)"

text \<open>The context window of the model whose limits apply.\<close>

definition limits_window :: "recovery_host \<Rightarrow> assistant_message \<Rightarrow> int" where
  "limits_window h message =
    (case model_for_message h message of
       Some m \<Rightarrow> md_context_window m
     | None \<Rightarrow> (case rh_model h of Some m \<Rightarrow> md_context_window m | None \<Rightarrow> 0))"

definition from_before_compaction :: "recovery_host \<Rightarrow> entry list \<Rightarrow> assistant_message \<Rightarrow> bool" where
  "from_before_compaction h path message =
    (case get_latest_compaction_entry path of
       None \<Rightarrow> False
     | Some e \<Rightarrow> am_timestamp message \<le> rh_epoch h (en_timestamp e))"

definition is_assistant_projected :: "projected_entry list \<Rightarrow> pystr option \<Rightarrow> bool" where
  "is_assistant_projected es entry_id =
    (case entry_id of
       None \<Rightarrow> True
     | Some i \<Rightarrow> list_ex (\<lambda>e. en_id (pe_source e) = i \<and> list_ex is_assistant_msg (pe_messages e)) es)"

definition entries_after :: "entry list \<Rightarrow> pystr option \<Rightarrow> entry list" where
  "entries_after path entry_id =
    (case entry_id of
       None \<Rightarrow> []
     | Some i \<Rightarrow> if i = [] then []
         else (case find_index (\<lambda>e. en_id e = i) path of None \<Rightarrow> [] | Some k \<Rightarrow> drop (k + 1) path))"

text \<open>The attempt's entry is kept for an explicit recovery: no compaction after it, and its last edit does not omit it.\<close>

definition retained_for_recovery :: "entry list \<Rightarrow> pystr option \<Rightarrow> bool" where
  "retained_for_recovery after entry_id =
    (case entry_id of
       None \<Rightarrow> True
     | Some i \<Rightarrow>
         \<not> list_ex (\<lambda>e. is_compaction (en_body e)) after \<and>
         (case find (\<lambda>e. case en_body e of ContextEditE t r \<Rightarrow> t = i | _ \<Rightarrow> False) (rev after) of
            None \<Rightarrow> True
          | Some e \<Rightarrow> (case en_body e of ContextEditE t r \<Rightarrow> r \<noteq> None | _ \<Rightarrow> True)))"

text \<open>Whether the response overflowed the context, and whether it stopped short of the output limit.\<close>

definition overflow_kind ::
  "recovery_host \<Rightarrow> projected_entry list \<Rightarrow> entry list \<Rightarrow> pystr option \<Rightarrow> assistant_message \<Rightarrow> (bool \<times> bool) result" where
  "overflow_kind h es path entry_id message =
    (let projected = is_assistant_projected es entry_id;
         after = entries_after path entry_id;
         matches_usage = (projected \<and> \<not> list_ex (\<lambda>e. is_context_edit (en_body e)) after);
         explicit = (am_stop_reason message = StopError \<and> is_context_overflow message None = Inr True);
         same_model = (model_for_message h message \<noteq> None);
         overflow = (if \<not> same_model then Inr False
           else if explicit \<and> retained_for_recovery after entry_id then Inr True
           else if matches_usage then is_context_overflow message (Some (limits_window h message))
           else Inr False)
     in case overflow of
          Inl e \<Rightarrow> Inl e
        | Inr context_overflow \<Rightarrow>
            map_sum id (\<lambda>recoverable. (context_overflow, recoverable))
              (case model_for_message h message of
                 Some m \<Rightarrow> if projected then is_recoverable_length message (md_max_tokens m) else Inr False
               | None \<Rightarrow> Inr False))"

text \<open>The tokens compared with the threshold; \<open>None\<close> when the only usage is from before the compaction.\<close>

definition threshold_tokens ::
  "recovery_host \<Rightarrow> session_projection \<Rightarrow> entry list \<Rightarrow> message list \<Rightarrow> assistant_message \<Rightarrow> int option" where
  "threshold_tokens h projection path messages message =
    (let direct = (case am_usage message of Some u \<Rightarrow> calculate_context_tokens u | None \<Rightarrow> 0)
     in if list_ex (\<lambda>e. is_context_edit (en_body (pe_source e))) (sp_entries projection)
        then Some (ue_tokens (estimate_projected_context_tokens projection path))
        else if am_stop_reason message = StopError \<or> direct = 0
        then (let estimate = estimate_context_tokens messages;
                  stale = (case ue_last_usage_index estimate of
                    None \<Rightarrow> False
                  | Some i \<Rightarrow> (case messages ! i of AssistantMsg m \<Rightarrow> from_before_compaction h path m | _ \<Rightarrow> False))
              in if stale then None else Some (ue_tokens estimate))
        else Some direct)"

definition recovery_failed_text :: "bool \<Rightarrow> pystr" where
  "recovery_failed_text context_overflow =
    (if context_overflow
     then lit ''Context overflow recovery failed after one compact-and-retry attempt. '' @
       lit ''Try reducing context or switching to a larger-context model.''
     else lit ''Truncated response recovery failed after one compact-and-retry attempt.'')"

definition recover_overflow :: "recovery_host \<Rightarrow> nat \<times> assistant_message \<Rightarrow> bool \<Rightarrow> bool act" where
  "recover_overflow h attempt context_overflow s =
    (if am_stop_reason (snd attempt) = Stop then run_auto_compaction h OverflowCompaction False s
     else if rv_overflow_attempted s
     then ret False (end_failed_compaction h OverflowCompaction (Some (recovery_failed_text context_overflow)) False False s)
     else and_then (omit_recovery_attempt h attempt) (\<lambda>_.
            and_then (run_auto_compaction h OverflowCompaction True) (\<lambda>retry s.
              ret retry (if retry then s\<lparr>rv_failed := Some attempt\<rparr> else s)))
            (s\<lparr>rv_overflow_attempted := True\<rparr>))"

definition compact_after ::
  "recovery_host \<Rightarrow> nat \<times> assistant_message \<Rightarrow> session_projection \<Rightarrow> entry list \<Rightarrow> bool \<times> bool \<Rightarrow> bool act" where
  "compact_after h attempt projection path kind s =
    (if fst kind \<or> snd kind then recover_overflow h attempt (fst kind) s
     else case threshold_tokens h projection path (map snd (rv_messages s)) (snd attempt) of
       None \<Rightarrow> ret False s
     | Some tokens \<Rightarrow>
         if should_compact tokens (limits_window h (snd attempt)) (rh_settings h)
         then run_auto_compaction h ThresholdCompaction False s
         else ret False s)"

definition check_compaction :: "recovery_host \<Rightarrow> nat \<times> assistant_message \<Rightarrow> bool \<Rightarrow> bool act" where
  "check_compaction h attempt skip_aborted =
    (let message = snd attempt
     in if \<not> cfg_enabled (rh_settings h) then ret False
        else if skip_aborted \<and> am_stop_reason message = Aborted then ret False
        else and_then current_branch (\<lambda>path.
          if from_before_compaction h path message then ret False
          else and_then (current_projection h) (\<lambda>projection.
               and_then (find_persisted_message_entry_id h (fst attempt)) (\<lambda>entry_id.
               and_then (lift_result (overflow_kind h (sp_entries projection) path entry_id message))
                 (compact_after h attempt projection path)))))"

subsection \<open>Retrying\<close>

definition finish_cancelled_retry :: "recovery \<Rightarrow> recovery" where
  "finish_cancelled_retry s =
    (if rv_retry_attempt s = 0 then s
     else emit (AutoRetryEnded False (rv_retry_attempt s) (Some (lit ''Retry cancelled''))) (s\<lparr>rv_retry_attempt := 0\<rparr>))"

definition is_retryable_error :: "recovery_host \<Rightarrow> assistant_message \<Rightarrow> bool result" where
  "is_retryable_error h message =
    map_sum id (\<lambda>overflow. \<not> overflow \<and> is_retryable_assistant_error message)
      (is_context_overflow message (Some (limits_window h message)))"

definition prepare_retry :: "recovery_host \<Rightarrow> nat \<times> assistant_message \<Rightarrow> bool act" where
  "prepare_retry h attempt s =
    (let settings = rh_retry h; n = rv_retry_attempt s + 1
     in if \<not> rp_enabled settings then ret False s
        else if n > rp_max_retries settings then ret False s
        else let stopped = rv_abort_requested s;
                 s1 = emit (AutoRetryStarted n (rp_max_retries settings) (retry_delay_ms settings (nat n))
                        (or_unknown (am_error_message (snd attempt)))) (s\<lparr>rv_retry_attempt := n\<rparr>)
             in and_then (omit_recovery_attempt h attempt) (\<lambda>_ s2.
                  if stopped \<or> rh_retry_cancelled h n then ret False (finish_cancelled_retry s2) else ret True s2) s1)"

definition end_failed_retry :: "assistant_message \<Rightarrow> recovery \<Rightarrow> recovery" where
  "end_failed_retry message s =
    (if am_stop_reason message = StopError \<and> rv_retry_attempt s > 0
     then (emit (AutoRetryEnded False (rv_retry_attempt s) (am_error_message message)) s)\<lparr>rv_retry_attempt := 0\<rparr>
     else s)"

definition after_retry_decision :: "recovery_host \<Rightarrow> nat \<times> assistant_message \<Rightarrow> bool \<Rightarrow> bool act" where
  "after_retry_decision h attempt retry s =
    (if retry then
       (let s1 = (if rv_abort_requested s then finish_cancelled_retry s else s)
        in ret (\<not> rv_abort_requested s1) (s1\<lparr>rv_failed := Some attempt\<rparr>))
     else if rv_abort_requested s then ret False (finish_cancelled_retry s)
     else and_then (check_compaction h attempt True) (\<lambda>continue s1.
            ret (\<not> rv_abort_requested s1 \<and> (continue \<or> rv_queued s1)) s1)
            (end_failed_retry (snd attempt) s))"

definition handle_post_agent_run :: "recovery_host \<Rightarrow> bool act" where
  "handle_post_agent_run h s0 =
    (let s = s0\<lparr>rv_last := None\<rparr>
     in if rv_abort_requested s then ret False (finish_cancelled_retry s)
        else case rv_last s0 of
          None \<Rightarrow> ret (rv_queued s) s
        | Some attempt \<Rightarrow>
            and_then (lift_result (is_retryable_error h (snd attempt))) (\<lambda>retryable.
            and_then (if retryable then prepare_retry h attempt else ret False)
              (after_retry_decision h attempt)) s)"

text \<open>What the handler of agent events records of an assistant message that ended.\<close>

definition observe_response :: "nat \<times> assistant_message \<Rightarrow> recovery \<Rightarrow> recovery" where
  "observe_response attempt s =
    (let message = snd attempt;
         s1 = s\<lparr>rv_last := Some attempt,
           rv_overflow_attempted := (if am_stop_reason message \<noteq> StopError \<and> am_stop_reason message \<noteq> StopLength
             then False else rv_overflow_attempted s)\<rparr>
     in if am_stop_reason message \<noteq> StopError \<and> rv_retry_attempt s1 > 0
        then (emit (AutoRetryEnded True (rv_retry_attempt s1) None) s1)\<lparr>rv_retry_attempt := 0\<rparr> else s1)"

text \<open>
  The loop of \<open>_start_run\<close> after the prompt, counting its continuations: a run of the agent and the
  settlement boundary are parameters. It ends normally or by a raise; \<open>None\<close> when the fuel is used up.
\<close>

fun post_run_loop ::
  "recovery_host \<Rightarrow> (nat \<Rightarrow> unit act) \<Rightarrow> bool act \<Rightarrow> nat \<Rightarrow> nat \<Rightarrow> recovery \<Rightarrow> (nat \<times> unit result \<times> recovery) option" where
  "post_run_loop h run settle 0 n s = None"
| "post_run_loop h run settle (Suc fuel) n s =
     (let continue = (\<lambda>s. case run (n + 1) s of
            None \<Rightarrow> None
          | Some (Inl e, s') \<Rightarrow> Some (n + 1, Inl e, s')
          | Some (Inr _, s') \<Rightarrow> post_run_loop h run settle fuel (n + 1) s')
      in if rv_abort_requested s then Some (n, Inr (), s)
         else case handle_post_agent_run h s of
           None \<Rightarrow> None
         | Some (Inl e, s1) \<Rightarrow> Some (n, Inl e, s1)
         | Some (Inr True, s1) \<Rightarrow> if rv_abort_requested s1 then Some (n, Inr (), s1) else continue s1
         | Some (Inr False, s1) \<Rightarrow>
             if rv_abort_requested s1 then Some (n, Inr (), s1)
             else (case settle s1 of
               None \<Rightarrow> None
             | Some (Inl e, s2) \<Rightarrow> Some (n, Inl e, s2)
             | Some (Inr go, s2) \<Rightarrow> if \<not> go \<or> rv_abort_requested s2 then Some (n, Inr (), s2) else continue s2))"

definition clear_run_state :: "recovery \<Rightarrow> recovery" where
  "clear_run_state s =
    (if rv_abort_requested s then finish_cancelled_retry s else s)\<lparr>rv_failed := None, rv_entry_ids := []\<rparr>"

text \<open>Without handlers the settlement boundary is the last look at the queue.\<close>

definition settle_without_handlers :: "bool act" where
  "settle_without_handlers s = ret (rv_queued s) s"

definition run_claimed :: "recovery_host \<Rightarrow> (nat \<Rightarrow> unit act) \<Rightarrow> bool act \<Rightarrow> nat \<Rightarrow> recovery \<Rightarrow> (nat \<times> unit result \<times> recovery) option" where
  "run_claimed h run settle fuel s =
    map_option (\<lambda>(n, r, s'). (n, r, (clear_run_state s')\<lparr>rv_run_active := False\<rparr>))
      (case run 0 (s\<lparr>rv_failed := None\<rparr>) of
         None \<Rightarrow> None
       | Some (Inl e, s1) \<Rightarrow> Some (0, Inl e, s1)
       | Some (Inr _, s1) \<Rightarrow> post_run_loop h run settle fuel 0 s1)"

end
