(* ===== verification/Recovery_Laws.thy ===== *)
theory Recovery_Laws
  imports Recovery
begin

section \<open>Recovery keeps its promises\<close>

text \<open>
  The bound on the continuations after a run, what an omission does to the context, and what an
  automatic compaction leaves behind. Every action is shown to end on a well-formed session, by
  composing what its parts promise (\<open>ends\<close>, \<open>safe\<close>); a concrete session closes the theory.
\<close>

subsection \<open>Every action on a well-formed session returns\<close>

text \<open>What the code relies on of its ids: draws are long, and two of them differ, also between appends.\<close>

definition fresh_draws :: "recovery_host \<Rightarrow> bool" where
  "fresh_draws h \<longleftrightarrow>
     (\<forall>n. inj (ev_uuid4 (rh_env h n)) \<and> (\<forall>k. length (ev_uuid4 (rh_env h n) k) = 36)) \<and>
     (\<forall>m n j k. m \<noteq> n \<longrightarrow> ev_uuid4 (rh_env h m) j \<noteq> ev_uuid4 (rh_env h n) k)"

definition recovery_ok :: "recovery_host \<Rightarrow> recovery \<Rightarrow> bool" where
  "recovery_ok h s \<longleftrightarrow> session_ok (rv_session s) \<and>
     (\<forall>n \<ge> rv_step s. draws_ok (rh_env h n) (ids_of (get_entries (rv_session s))))"

text \<open>What recovery appends: omissions and compactions.\<close>

definition recovery_body :: "entry_body \<Rightarrow> bool" where
  "recovery_body b = (case b of ContextEditE t r \<Rightarrow> r = None | CompactionE c \<Rightarrow> True | _ \<Rightarrow> False)"

definition flags :: "recovery \<Rightarrow> bool \<times> bool \<times> bool" where
  "flags s = (rv_run_active s, rv_abort_requested s, rv_queued s)"

definition counters :: "recovery \<Rightarrow> int \<times> bool" where
  "counters s = (rv_retry_attempt s, rv_overflow_attempted s)"

definition grown :: "recovery_host \<Rightarrow> recovery \<Rightarrow> recovery \<Rightarrow> bool" where
  "grown h s s' \<longleftrightarrow> recovery_ok h s' \<and> flags s' = flags s \<and>
     (\<exists>new. get_entries (rv_session s') = get_entries (rv_session s) @ new \<and> list_all (\<lambda>e. recovery_body (en_body e)) new) \<and>
     (\<exists>events. rv_events s' = rv_events s @ events)"

lemma grown_refl [simp]: "recovery_ok h s \<Longrightarrow> grown h s s"
  by (auto simp: grown_def)

lemma grown_trans: "grown h s s' \<Longrightarrow> grown h s' s'' \<Longrightarrow> grown h s s''"
  unfolding grown_def by (metis append.assoc list_all_append)

lemma grown_ok: "grown h s s' \<Longrightarrow> recovery_ok h s'"
  by (simp add: grown_def)

text \<open>Updates of the other fields.\<close>

lemma same_session_grown:
  "recovery_ok h s \<Longrightarrow> rv_session s' = rv_session s \<Longrightarrow> rv_step s' = rv_step s \<Longrightarrow> flags s' = flags s \<Longrightarrow>
   \<exists>events. rv_events s' = rv_events s @ events \<Longrightarrow> grown h s s'"
  by (auto simp: grown_def recovery_ok_def)

lemma emit_grown [simp]: "recovery_ok h s \<Longrightarrow> grown h s (emit e s)"
  by (rule same_session_grown) (auto simp: emit_def flags_def)

lemma emit_fields [simp]:
  "rv_session (emit e s) = rv_session s" "rv_disk (emit e s) = rv_disk s" "rv_messages (emit e s) = rv_messages s"
  "counters (emit e s) = counters s" "flags (emit e s) = flags s" "rv_events (emit e s) = rv_events s @ [e]"
  "rv_entry_ids (emit e s) = rv_entry_ids s" "rv_queued (emit e s) = rv_queued s" "rv_step (emit e s) = rv_step s"
  by (simp_all add: emit_def counters_def flags_def)

text \<open>The action ends in a state, and what it returned or raised satisfies \<open>Q\<close> there.\<close>

definition ends :: "'a act \<Rightarrow> recovery \<Rightarrow> ('a result \<Rightarrow> recovery \<Rightarrow> bool) \<Rightarrow> bool" where
  "ends m s Q \<longleftrightarrow> (\<exists>r s'. m s = Some (r, s') \<and> Q r s')"

lemma ends_ret [simp]: "ends (ret x) s Q = Q (Inr x) s"
  by (simp add: ends_def ret_def)

lemma ends_raise [simp]: "ends (raise e) s Q = Q (Inl e) s"
  by (simp add: ends_def raise_def)

lemma ends_lift [simp]: "ends (lift_result r) s Q = Q r s"
  by (simp add: ends_def lift_result_def)

lemma ends_and_then:
  "ends m s (\<lambda>r s1. case r of Inl e \<Rightarrow> Q (Inl e) s1 | Inr x \<Rightarrow> ends (f x) s1 Q) \<Longrightarrow> ends (and_then m f) s Q"
  unfolding ends_def and_then_def
  by (elim exE conjE, rename_tac r s1, case_tac r) (auto simp: ends_def)

lemma ends_mono: "ends m s P \<Longrightarrow> (\<And>r s'. P r s' \<Longrightarrow> Q r s') \<Longrightarrow> ends m s Q"
  by (auto simp: ends_def)

text \<open>Actions that only append, emit and refresh: they keep the counters.\<close>

definition safe :: "recovery_host \<Rightarrow> 'a act \<Rightarrow> bool" where
  "safe h m \<longleftrightarrow> (\<forall>s. recovery_ok h s \<longrightarrow> ends m s (\<lambda>r s'. grown h s s' \<and> counters s' = counters s))"

lemma safeI: "(\<And>s. recovery_ok h s \<Longrightarrow> ends m s (\<lambda>r s'. grown h s s' \<and> counters s' = counters s)) \<Longrightarrow> safe h m"
  by (simp add: safe_def)

lemma safeD: "safe h m \<Longrightarrow> recovery_ok h s \<Longrightarrow> ends m s (\<lambda>r s'. grown h s s' \<and> counters s' = counters s)"
  by (simp add: safe_def)

lemma safe_ret [simp, intro]: "safe h (ret x)" by (rule safeI) simp
lemma safe_raise [simp, intro]: "safe h (raise x)" by (rule safeI) simp
lemma safe_lift [simp, intro]: "safe h (lift_result x)" by (rule safeI) simp

lemma safe_and_then [intro]:
  assumes "safe h m" "\<And>x. safe h (f x)"
  shows "safe h (and_then m f)"
proof (rule safeI, rule ends_and_then, rule ends_mono [OF safeD [OF assms(1)]])
  fix s r s1 assume "recovery_ok h s" "grown h s s1 \<and> counters s1 = counters s"
  then show "case r of Inl e \<Rightarrow> grown h s s1 \<and> counters s1 = counters s
      | Inr x \<Rightarrow> ends (f x) s1 (\<lambda>r s'. grown h s s' \<and> counters s' = counters s)"
    using safeD [OF assms(2), of s1] grown_trans grown_ok
    by (fastforce split: sum.split elim: ends_mono)
qed assumption

text \<open>An action that reads the state first.\<close>

lemma safe_at: "(\<And>s. \<exists>m'. safe h m' \<and> m s = m' s) \<Longrightarrow> safe h m"
  unfolding safe_def ends_def by metis

lemma safe_after: "safe h m \<Longrightarrow> (\<And>s. recovery_ok h s \<Longrightarrow> grown h s (f s) \<and> counters (f s) = counters s) \<Longrightarrow> safe h (\<lambda>s. m (f s))"
  unfolding safe_def ends_def using grown_trans grown_ok by metis

lemma current_branch_safe [intro]: "safe h current_branch"
proof (rule safeI)
  fix s assume "recovery_ok h s"
  with get_branch_returns [of "rv_session s" None] show "ends current_branch s (\<lambda>r s'. grown h s s' \<and> counters s' = counters s)"
    by (auto simp: recovery_ok_def [of h s] ends_def current_branch_def)
qed

lemma current_projection_safe [intro]: "safe h (current_projection h)"
proof (rule safeI)
  fix s assume "recovery_ok h s"
  with session_projection_returns [of "rv_session s" "current_env h s"]
  show "ends (current_projection h) s (\<lambda>r s'. grown h s s' \<and> counters s' = counters s)"
    by (auto simp: recovery_ok_def [of h s] ends_def current_projection_def)
qed

lemma refresh_safe [intro]: "safe h (refresh_finalized_context h)"
  unfolding refresh_finalized_context_def
  by (rule safe_and_then [OF current_projection_safe], rule safeI)
    (auto simp: ends_def counters_def flags_def intro!: same_session_grown)

lemma append_body_grown:
  assumes fresh: "fresh_draws h" and ok: "recovery_ok h s"
    and app: "append_body ser (current_env h s) body (rv_session s) (rv_disk s) = (ss, d, r)"
    and after: "session_ok ss" and body: "\<And>i. recovery_body (body i)"
  shows "grown h s (s\<lparr>rv_session := ss, rv_disk := d, rv_step := rv_step s + 1\<rparr>)"
proof -
  let ?e = "new_entry (current_env h s) (rv_session s) (ss_leaf (rv_session s)) body"
  from app have "ended (append_body ser (current_env h s) body (rv_session s) (rv_disk s)) = (ss, d, \<not> isl r)"
    by (simp add: ended_def)
  from appended_entries(1) [OF append_body_appended [OF this]] have es: "get_entries ss = get_entries (rv_session s) @ [?e]" .
  have "draws_ok (rh_env h n) (ids_of (get_entries ss))" if n: "Suc (rv_step s) \<le> n" for n
  proof -
    obtain i m where g: "generate_id (current_env h s) 0 (map fst (ss_by_id (rv_session s))) = (i, m)" by force
    then have "en_id ?e = i" by (simp add: new_entry_def Let_def)
    moreover have "ev_uuid4 (rh_env h n) k \<noteq> i" for k
    proof -
      from fresh have long: "length (ev_uuid4 (rh_env h n) k) = 36"
        and other: "ev_uuid4 (rh_env h (rv_step s)) j \<noteq> ev_uuid4 (rh_env h n) k" for j
        using n by (auto simp: fresh_draws_def)
      from generate_id_cases [OF g] show ?thesis
      proof (elim disjE conjE exE)
        fix j assume "i = take 8 (ev_uuid4 (current_env h s) j)"
        then have "length i \<le> 8" by simp
        with long show ?thesis by auto
      next
        fix j assume "i = ev_uuid4 (current_env h s) j"
        with other [of j] show ?thesis by (metis current_env_def)
      qed
    qed
    moreover have "draws_ok (rh_env h n) (ids_of (get_entries (rv_session s)))" using ok n by (simp add: recovery_ok_def)
    ultimately show ?thesis unfolding es by (auto simp: draws_ok_def)
  qed
  moreover have "recovery_body (en_body ?e)" using body by (simp add: new_entry_def Let_def)
  ultimately show ?thesis using after es by (auto simp: grown_def recovery_ok_def flags_def)
qed


lemma append_edit_safe:
  assumes "fresh_draws h"
  shows "safe h (append_with (\<lambda>env. append_context_edit (rh_ser h) env t None) h)"
proof (rule safeI)
  fix s assume ok: "recovery_ok h s"
  then have sess: "session_ok (rv_session s)" and dr: "draws_ok (current_env h s) (ids_of (get_entries (rv_session s)))"
    by (simp_all add: recovery_ok_def current_env_def)
  from append_context_edit_ok [OF sess dr] obtain ss d r where
    app: "append_context_edit (rh_ser h) (current_env h s) t None (rv_session s) (rv_disk s) = Some (ss, d, r)"
    and after: "session_ok ss" by blast
  let ?s = "s\<lparr>rv_session := ss, rv_disk := d, rv_step := rv_step s + 1\<rparr>"
  have "grown h s ?s"
  proof (cases "ss = rv_session s")
    case True
    with ok show ?thesis by (auto simp: grown_def recovery_ok_def flags_def)
  next
    case False
    with app obtain b where "append_body (rh_ser h) (current_env h s)
        (\<lambda>_. ContextEditE t (normalize_replacement b None)) (rv_session s) (rv_disk s) = (ss, d, r)"
      by (auto simp: append_context_edit_def split: option.splits if_splits)
    from append_body_grown [OF assms ok this after] show ?thesis
      by (simp add: recovery_body_def normalize_replacement_def split: entry_body.split)
  qed
  then show "ends (append_with (\<lambda>env. append_context_edit (rh_ser h) env t None) h) s
      (\<lambda>r s'. grown h s s' \<and> counters s' = counters s)"
    using app by (simp add: ends_def append_with_def counters_def)
qed

lemma append_compaction_safe:
  assumes "fresh_draws h"
  shows "safe h (append_with (\<lambda>env. append_compaction (rh_ser h) env sm fk tb dt fh u) h)"
proof (rule safeI)
  fix s assume ok: "recovery_ok h s"
  then have sess: "session_ok (rv_session s)" and dr: "draws_ok (current_env h s) (ids_of (get_entries (rv_session s)))"
    by (simp_all add: recovery_ok_def current_env_def)
  from append_compaction_ok [OF sess dr] obtain ss d r where
    app: "append_compaction (rh_ser h) (current_env h s) sm fk tb dt fh u (rv_session s) (rv_disk s) = Some (ss, d, r)"
    and after: "session_ok ss" by blast
  then obtain body where "append_body (rh_ser h) (current_env h s) (\<lambda>i. CompactionE (body i)) (rv_session s) (rv_disk s) = (ss, d, r)"
    by (auto simp: append_compaction_def Let_def split: option.splits)
  from append_body_grown [OF assms ok this after] app
  show "ends (append_with (\<lambda>env. append_compaction (rh_ser h) env sm fk tb dt fh u) h) s
      (\<lambda>r s'. grown h s s' \<and> counters s' = counters s)"
    by (simp add: recovery_body_def ends_def append_with_def counters_def)
qed

lemma safe_case_option:
  "safe h a \<Longrightarrow> (\<And>x. safe h (b x)) \<Longrightarrow> safe h (\<lambda>s. case g s of None \<Rightarrow> a s | Some x \<Rightarrow> b x s)"
  by (rule safe_at) (auto split: option.split)

lemma find_persisted_safe [intro]: "safe h (find_persisted_message_entry_id h obj)"
  unfolding find_persisted_message_entry_id_def
  by (rule safe_case_option; (rule safe_and_then)?; (rule current_branch_safe)?)
    (auto split: option.split intro!: safe_case_option)

lemma find_entry_ids_safe [intro]: "safe h (find_entry_ids h objs)"
  by (induction objs) auto

lemma omit_entries_safe: "fresh_draws h \<Longrightarrow> safe h (omit_entries h targets)"
proof (induction targets)
  case (Cons target targets)
  show ?case
  proof (cases target)
    case (Some t)
    have "safe h (\<lambda>s. omit_entries h targets
        (case get_entry (rv_session s) edit_id of Some e \<Rightarrow> emit (EntryAppended e) s | None \<Rightarrow> s))" for edit_id
      by (rule safe_after [OF Cons.IH [OF Cons.prems]]) (simp split: option.split)
    with Some Cons append_edit_safe [OF Cons.prems] show ?thesis by auto
  qed (use Cons in simp)
qed auto

lemma attempt_index_safe [intro]: "safe h (attempt_index h obj entry_id)"
proof (rule safe_at)
  fix s
  have "safe h (\<lambda>s. ret (projected_position i (length (rv_messages s)) 0 (sp_entries p)) s)" for i p
    by (rule safe_at) blast
  then have "safe h (and_then (current_projection h)
      (\<lambda>p s. ret (projected_position i (length (rv_messages s)) 0 (sp_entries p)) s))" for i
    by blast
  then show "\<exists>m'. safe h m' \<and> attempt_index h obj entry_id s = m' s"
    unfolding attempt_index_def by (auto split: option.split)
qed

lemma omit_recovery_attempt_safe:
  assumes "fresh_draws h"
  shows "safe h (omit_recovery_attempt h attempt)"
proof -
  obtain obj message where a: "attempt = (obj, message)" by force
  have omit: "safe h (and_then (find_entry_ids h targets) (\<lambda>ids. if P ids then raise e
      else and_then (omit_entries h ids) (\<lambda>_. refresh_finalized_context h)))" for targets P e
    by (rule safe_and_then) (auto intro: omit_entries_safe [OF assms])
  show ?thesis unfolding a omit_recovery_attempt_def Let_def prod.case
    by (rule safe_and_then [OF find_persisted_safe], rule safe_and_then [OF attempt_index_safe], rule safe_at,
        rule exI, rule conjI, rule omit, rule refl)
qed


lemma store_compaction_safe:
  assumes "fresh_draws h"
  shows "safe h (store_compaction h reason will_retry from_extension c)"
proof -
  have report: "safe h (\<lambda>s. ret x (case find f (get_entries (rv_session s)) of
      Some e \<Rightarrow> emit (SessionCompacted e from_extension reason will_retry) s | None \<Rightarrow> s))" for x :: nat and f
    by (rule safe_after [OF safe_ret]) (simp split: option.split)
  show ?thesis unfolding store_compaction_def
    by (intro safe_and_then append_compaction_safe [OF assms] refresh_safe current_projection_safe report)
qed

lemma end_failed_grown [simp]:
  "recovery_ok h s \<Longrightarrow> grown h s (end_failed_compaction h' reason e aborted x s)"
  "counters (end_failed_compaction h' reason e aborted x s) = counters s"
  using grown_trans [OF emit_grown emit_grown [OF grown_ok [OF emit_grown]]]
  by (simp_all add: end_failed_compaction_def Let_def)

lemma end_failed_fields [simp]:
  "rv_retry_attempt (end_failed_compaction h reason e aborted x s) = rv_retry_attempt s"
  "rv_session (end_failed_compaction h reason e aborted x s) = rv_session s"
  "rv_disk (end_failed_compaction h reason e aborted x s) = rv_disk s"
  by (simp_all add: end_failed_compaction_def Let_def emit_def)

lemma grown_emit: "grown h s s' \<Longrightarrow> grown h s (emit e s')"
  using grown_trans emit_grown grown_ok by metis

lemma grown_end_failed: "grown h s s' \<Longrightarrow> grown h s (end_failed_compaction h' reason e aborted x s')"
  using grown_trans end_failed_grown(1) grown_ok by metis

lemma prepare_compaction_returns:
  assumes ok: "session_ok ss" and path: "get_branch ss None = Some path"
  shows "prepare_compaction epoch path settings \<noteq> None"
proof (cases "path = []")
  case True
  then show ?thesis
    by (simp add: prepare_compaction_def build_session_projection_def build_session_path_def last_entry_def path_from_def
        Let_def split: prod.split)
next
  case False
  note tree = tree_ok_ids [OF session_tree [OF ok]]
  from path_of_branch [OF ok path] have p: "linked None path" "subseq path (get_entries ss)" by auto
  then have "distinct (map en_id path)" "[] \<notin> ids_of path"
    using tree subseq_distinct_list [OF subseq_map [OF p(2)]] subseq_set_subset [OF p(2)] by auto
  from build_session_path_branch [OF p(1) this False] show ?thesis
    by (simp add: prepare_compaction_def build_session_projection_def Let_def split: prod.split)
qed

text \<open>An automatic compaction never raises; without a retry it asks for another run only for queued messages.\<close>

lemma run_auto_compaction_ends:
  assumes fresh: "fresh_draws h" and ok: "recovery_ok h s"
  shows "ends (run_auto_compaction h reason will_retry) s (\<lambda>r s'. grown h s s' \<and> counters s' = counters s \<and>
    (\<exists>b. r = Inr b \<and> (b \<longrightarrow> will_retry \<or> rv_queued s)))"
proof -
  obtain path where path: "get_branch (rv_session s) None = Some path"
    using ok get_branch_returns [of "rv_session s" None] by (auto simp: recovery_ok_def)
  have prep: "prepare_compaction (rh_epoch h) path (rh_settings h) \<noteq> None"
    using prepare_compaction_returns [OF _ path] ok by (auto simp: recovery_ok_def)
  show ?thesis
  proof (cases "rh_model h = None \<or> prepare_compaction (rh_epoch h) path (rh_settings h) = Some None")
    case True
    with ok path prep show ?thesis by (auto simp: ends_def run_auto_compaction_def ret_def split: option.splits)
  next
    case False
    with prep obtain model p where mp: "rh_model h = Some model" "prepare_compaction (rh_epoch h) path (rh_settings h) = Some (Some p)"
      by auto
    let ?s1 = "emit (CompactionStarted reason) s"
    obtain x y c where content: "compaction_content h p None (lit ''cancelled'') (cancelled_by h s) = (x, y, c)" by (rule prod_cases3)
    show ?thesis
    proof (cases c)
      case (Inl e)
      with ok path mp content show ?thesis
        by (auto simp: ends_def run_auto_compaction_def ret_def Let_def intro!: grown_end_failed)
    next
      case (Inr c)
      have "recovery_ok h ?s1" using grown_ok [OF emit_grown] ok by blast
      from safeD [OF store_compaction_safe [OF fresh] this] obtain r s2 where
        st: "store_compaction h reason will_retry x c ?s1 = Some (r, s2)" "grown h ?s1 s2" "counters s2 = counters ?s1"
        unfolding ends_def by blast
      have g: "grown h s s2" using grown_trans [OF emit_grown st(2)] ok by blast
      then have q: "rv_queued s2 = rv_queued s" by (simp add: grown_def flags_def)
      show ?thesis using path mp content Inr st g q
        by (cases r) (auto simp: ends_def run_auto_compaction_def ret_def Let_def intro!: grown_end_failed grown_emit)
    qed
  qed
qed


lemma recover_overflow_ends:
  assumes fresh: "fresh_draws h" and ok: "recovery_ok h s"
  shows "ends (recover_overflow h attempt o1) s (\<lambda>r s'. grown h s s' \<and> rv_retry_attempt s' = rv_retry_attempt s \<and>
    (r = Inr True \<and> \<not> rv_queued s \<longrightarrow>
       am_stop_reason (snd attempt) \<noteq> Stop \<and> \<not> rv_overflow_attempted s \<and> rv_overflow_attempted s'))"
proof (cases "am_stop_reason (snd attempt) = Stop \<or> rv_overflow_attempted s")
  case True
  then show ?thesis
    using run_auto_compaction_ends [OF fresh ok, of OverflowCompaction False] ok
    by (auto simp: recover_overflow_def counters_def ends_def ret_def)
next
  case False
  let ?s = "s\<lparr>rv_overflow_attempted := True\<rparr>"
  have g: "grown h s ?s" using ok by (intro same_session_grown) (auto simp: flags_def)
  from safeD [OF omit_recovery_attempt_safe [OF fresh] grown_ok [OF g]] have
    omit: "ends (omit_recovery_attempt h attempt) ?s (\<lambda>r s'. grown h ?s s' \<and> counters s' = counters ?s)" .
  have retry: "ends (and_then (run_auto_compaction h OverflowCompaction True) (\<lambda>retry s.
      ret retry (if retry then s\<lparr>rv_failed := Some attempt\<rparr> else s))) s1
      (\<lambda>r s'. grown h s s' \<and> rv_retry_attempt s' = rv_retry_attempt s \<and> rv_overflow_attempted s')"
    if s1: "grown h ?s s1" "counters s1 = counters ?s" for s1
  proof (rule ends_and_then, rule ends_mono [OF run_auto_compaction_ends [OF fresh grown_ok [OF s1(1)]]])
    fix r s2
    assume a: "grown h s1 s2 \<and> counters s2 = counters s1 \<and> (\<exists>b. r = Inr b \<and> (b \<longrightarrow> True \<or> rv_queued s1))"
    then have g2: "grown h s s2" using grown_trans g s1 by blast
    moreover have "grown h s (s2\<lparr>rv_failed := Some attempt\<rparr>)"
      by (rule grown_trans [OF g2 same_session_grown [OF grown_ok [OF g2]]]) (auto simp: flags_def)
    ultimately show "case r of Inl e \<Rightarrow> grown h s s2 \<and> rv_retry_attempt s2 = rv_retry_attempt s \<and> rv_overflow_attempted s2
        | Inr x \<Rightarrow> ends (\<lambda>s. ret x (if x then s\<lparr>rv_failed := Some attempt\<rparr> else s)) s2
            (\<lambda>r s'. grown h s s' \<and> rv_retry_attempt s' = rv_retry_attempt s \<and> rv_overflow_attempted s')"
      using a s1 by (auto simp: ends_def ret_def counters_def)
  qed
  have "ends (and_then (omit_recovery_attempt h attempt) (\<lambda>_. and_then (run_auto_compaction h OverflowCompaction True)
      (\<lambda>retry s. ret retry (if retry then s\<lparr>rv_failed := Some attempt\<rparr> else s)))) ?s
      (\<lambda>r s'. grown h s s' \<and> rv_retry_attempt s' = rv_retry_attempt s \<and> rv_overflow_attempted s')"
    by (rule ends_and_then, rule ends_mono [OF omit])
      (use retry grown_trans [OF g] in \<open>auto simp: counters_def split: sum.split\<close>)
  with False show ?thesis by (auto simp: recover_overflow_def ends_def)
qed


text \<open>The decision after a run: it asks for another run only to retry once after an overflow.\<close>

definition once_after_overflow :: "recovery_host \<Rightarrow> assistant_message \<Rightarrow> recovery \<Rightarrow> bool result \<Rightarrow> recovery \<Rightarrow> bool" where
  "once_after_overflow h message s r s' \<longleftrightarrow> grown h s s' \<and> rv_retry_attempt s' = rv_retry_attempt s \<and>
     (r = Inr True \<and> \<not> rv_queued s \<longrightarrow>
        am_stop_reason message \<in> {StopError, StopLength} \<and> \<not> rv_overflow_attempted s \<and> rv_overflow_attempted s')"

lemma overflow_kind_reasons:
  "overflow_kind h es path i m = Inr (a, b) \<Longrightarrow> a \<or> b \<Longrightarrow> am_stop_reason m \<in> {StopError, Stop, StopLength}"
  using overflow_reasons [of m "Some (limits_window h m)"]
  by (auto simp: overflow_kind_def Let_def map_sum_def split: sum.splits if_splits option.splits
      dest: recoverable_length_reason)

lemma ends_after_safe:
  assumes "safe h m" "recovery_ok h s"
    "\<And>x s1. m s = Some (Inr x, s1) \<Longrightarrow> grown h s s1 \<Longrightarrow> counters s1 = counters s \<Longrightarrow> ends (f x) s1 Q"
    "\<And>e s1. grown h s s1 \<Longrightarrow> counters s1 = counters s \<Longrightarrow> Q (Inl e) s1"
  shows "ends (and_then m f) s Q"
proof -
  from safeD [OF assms(1,2)] obtain r s1 where "m s = Some (r, s1)" "grown h s s1" "counters s1 = counters s"
    unfolding ends_def by blast
  with assms(3,4) show ?thesis by (cases r) (auto simp: ends_def and_then_def)
qed

lemma ends_after_lift:
  "(\<And>x. r = Inr x \<Longrightarrow> ends (f x) s Q) \<Longrightarrow> (\<And>e. r = Inl e \<Longrightarrow> Q (Inl e) s) \<Longrightarrow> ends (and_then (lift_result r) f) s Q"
  by (cases r) (auto simp: ends_def and_then_def lift_result_def)

lemma compact_after_ends:
  assumes fresh: "fresh_draws h" and s1: "grown h s s1" "counters s1 = counters s"
    and kind: "overflow_kind h es path i (snd attempt) = Inr kind"
  shows "ends (compact_after h attempt projection path kind) s1 (once_after_overflow h (snd attempt) s)"
proof -
  have q: "rv_queued s1 = rv_queued s" using s1 by (simp add: grown_def flags_def)
  show ?thesis
  proof (cases "fst kind \<or> snd kind")
    case True
    from recover_overflow_ends [OF fresh grown_ok [OF s1(1)], of attempt "fst kind"]
      overflow_kind_reasons [of h es path i "snd attempt" "fst kind" "snd kind"] kind True
    show ?thesis using s1 q grown_trans [OF s1(1)]
      by (auto simp: ends_def once_after_overflow_def counters_def compact_after_def)
  next
    case False
    from run_auto_compaction_ends [OF fresh grown_ok [OF s1(1)], of ThresholdCompaction False] False
    show ?thesis using s1 q grown_trans [OF s1(1)]
      by (auto simp: ends_def once_after_overflow_def counters_def ret_def compact_after_def split: option.split)
  qed
qed

lemma check_compaction_ends:
  assumes fresh: "fresh_draws h" and ok: "recovery_ok h s"
  shows "ends (check_compaction h attempt skip) s (once_after_overflow h (snd attempt) s)"
proof -
  have stop: "once_after_overflow h (snd attempt) s (Inr False) s'" "once_after_overflow h (snd attempt) s (Inl e) s'"
    if "grown h s s'" "counters s' = counters s" for s' e
    using that by (auto simp: once_after_overflow_def counters_def)
  have look: "ends (and_then (current_projection h) (\<lambda>projection.
      and_then (find_persisted_message_entry_id h (fst attempt)) (\<lambda>entry_id.
      and_then (lift_result (overflow_kind h (sp_entries projection) path entry_id (snd attempt)))
        (compact_after h attempt projection path)))) s1 (once_after_overflow h (snd attempt) s)"
    if s1: "grown h s s1" "counters s1 = counters s" for s1 path
  proof (rule ends_after_safe [OF current_projection_safe grown_ok [OF s1(1)]])
    fix projection s2 assume "grown h s1 s2" "counters s2 = counters s1"
    then have s2: "grown h s s2" "counters s2 = counters s" using s1 grown_trans by metis+
    show "ends (and_then (find_persisted_message_entry_id h (fst attempt)) (\<lambda>entry_id.
      and_then (lift_result (overflow_kind h (sp_entries projection) path entry_id (snd attempt)))
        (compact_after h attempt projection path))) s2 (once_after_overflow h (snd attempt) s)"
    proof (rule ends_after_safe [OF find_persisted_safe grown_ok [OF s2(1)]])
      fix entry_id s3 assume "grown h s2 s3" "counters s3 = counters s2"
      then have s3: "grown h s s3" "counters s3 = counters s" using s2 grown_trans by metis+
      show "ends (and_then (lift_result (overflow_kind h (sp_entries projection) path entry_id (snd attempt)))
          (compact_after h attempt projection path)) s3 (once_after_overflow h (snd attempt) s)"
        by (rule ends_after_lift) (use compact_after_ends [OF fresh s3] stop(2) [OF s3] in blast)+
    qed (use stop s2 grown_trans in metis)
  qed (use stop s1 grown_trans in metis)
  show ?thesis
  proof (cases "\<not> cfg_enabled (rh_settings h) \<or> skip \<and> am_stop_reason (snd attempt) = Aborted")
    case True
    with ok stop(1) [OF grown_refl] show ?thesis by (auto simp: check_compaction_def Let_def)
  next
    case False
    have "ends (and_then current_branch (\<lambda>path. if from_before_compaction h path (snd attempt) then ret False
        else and_then (current_projection h) (\<lambda>projection.
          and_then (find_persisted_message_entry_id h (fst attempt)) (\<lambda>entry_id.
          and_then (lift_result (overflow_kind h (sp_entries projection) path entry_id (snd attempt)))
            (compact_after h attempt projection path))))) s (once_after_overflow h (snd attempt) s)"
      by (rule ends_after_safe [OF current_branch_safe ok]) (use look stop in auto)
    with False show ?thesis by (auto simp: check_compaction_def Let_def)
  qed
qed


subsection \<open>The loop after a run\<close>

definition retry_limit :: "recovery_host \<Rightarrow> nat" where
  "retry_limit h = nat (rp_max_retries (rh_retry h))"

definition attempts_ok :: "recovery_host \<Rightarrow> recovery \<Rightarrow> bool" where
  "attempts_ok h s \<longleftrightarrow> 0 \<le> rv_retry_attempt s \<and> rv_retry_attempt s \<le> int (retry_limit h)"

text \<open>How often the session may still continue: the retries left, and a recovery with retries of its own.\<close>

definition recovery_work :: "recovery_host \<Rightarrow> recovery \<Rightarrow> nat" where
  "recovery_work h s = (if rv_overflow_attempted s then 0 else retry_limit h + 1) + (retry_limit h - nat (rv_retry_attempt s))"

lemma finish_cancelled_retry_facts:
  assumes "recovery_ok h s"
  shows "grown h s (finish_cancelled_retry s)" "rv_retry_attempt (finish_cancelled_retry s) = 0"
    "rv_overflow_attempted (finish_cancelled_retry s) = rv_overflow_attempted s"
    "rv_last (finish_cancelled_retry s) = rv_last s"
proof -
  have "grown h s (s\<lparr>rv_retry_attempt := 0\<rparr>)"
    by (rule same_session_grown [OF assms]) (auto simp: flags_def)
  from grown_emit [OF this] assms show "grown h s (finish_cancelled_retry s)"
    by (simp add: finish_cancelled_retry_def)
qed (simp_all add: finish_cancelled_retry_def emit_def)

lemma prepare_retry_ends:
  assumes fresh: "fresh_draws h" and ok: "recovery_ok h s" and bounds: "attempts_ok h s"
  shows "ends (prepare_retry h attempt) s (\<lambda>r s'. grown h s s' \<and> attempts_ok h s' \<and>
    rv_overflow_attempted s' = rv_overflow_attempted s \<and>
    (r = Inr True \<longrightarrow> rv_retry_attempt s' = rv_retry_attempt s + 1))"
proof (cases "\<not> rp_enabled (rh_retry h) \<or> rp_max_retries (rh_retry h) < rv_retry_attempt s + 1")
  case True
  with ok bounds show ?thesis by (auto simp: prepare_retry_def Let_def ends_def ret_def)
next
  case False
  let ?n = "rv_retry_attempt s + 1"
  define s1 where "s1 = emit (AutoRetryStarted ?n (rp_max_retries (rh_retry h)) (retry_delay_ms (rh_retry h) (nat ?n))
      (or_unknown (am_error_message (snd attempt)))) (s\<lparr>rv_retry_attempt := ?n\<rparr>)"
  have "grown h s (s\<lparr>rv_retry_attempt := ?n\<rparr>)" by (rule same_session_grown [OF ok]) (auto simp: flags_def)
  then have g: "grown h s s1" unfolding s1_def by (rule grown_emit)
  have c: "counters s1 = (?n, rv_overflow_attempted s)" by (simp add: s1_def counters_def emit_def)
  have bound: "0 \<le> ?n" "?n \<le> int (retry_limit h)" using bounds False by (auto simp: attempts_ok_def retry_limit_def)
  have "ends (and_then (omit_recovery_attempt h attempt) (\<lambda>_ s2.
      if rv_abort_requested s \<or> rh_retry_cancelled h ?n then ret False (finish_cancelled_retry s2) else ret True s2)) s1
    (\<lambda>r s'. grown h s s' \<and> attempts_ok h s' \<and> rv_overflow_attempted s' = rv_overflow_attempted s \<and>
      (r = Inr True \<longrightarrow> rv_retry_attempt s' = ?n))"
  proof (rule ends_after_safe [OF omit_recovery_attempt_safe [OF fresh] grown_ok [OF g]])
    fix u s2 assume s2: "grown h s1 s2" "counters s2 = counters s1"
    have g2: "grown h s s2" using grown_trans [OF g s2(1)] .
    note fin = finish_cancelled_retry_facts [OF grown_ok [OF g2]]
    show "ends (\<lambda>s2. if rv_abort_requested s \<or> rh_retry_cancelled h ?n then ret False (finish_cancelled_retry s2) else ret True s2)
        s2 (\<lambda>r s'. grown h s s' \<and> attempts_ok h s' \<and> rv_overflow_attempted s' = rv_overflow_attempted s \<and>
          (r = Inr True \<longrightarrow> rv_retry_attempt s' = ?n))"
      using g2 s2 c bound fin grown_trans [OF g2 fin(1)] by (auto simp: ends_def ret_def counters_def attempts_ok_def)
  next
    fix e s2 assume s2: "grown h s1 s2" "counters s2 = counters s1"
    then show "grown h s s2 \<and> attempts_ok h s2 \<and> rv_overflow_attempted s2 = rv_overflow_attempted s \<and>
        (Inl e = Inr True \<longrightarrow> rv_retry_attempt s2 = ?n)"
      using grown_trans [OF g s2(1)] c bound by (simp add: counters_def attempts_ok_def)
  qed
  with False show ?thesis by (simp add: prepare_retry_def Let_def ends_def s1_def)
qed

text \<open>After one more response: a continuation leaves less to do than there was before the response.\<close>

definition less_to_do :: "recovery_host \<Rightarrow> recovery \<Rightarrow> bool result \<Rightarrow> recovery \<Rightarrow> bool" where
  "less_to_do h s r s' \<longleftrightarrow> grown h s s' \<and> attempts_ok h s' \<and>
     (r = Inr True \<and> \<not> rv_queued s \<longrightarrow> recovery_work h s' < recovery_work h s)"

lemma retryable_reason: "is_retryable_error h m = Inr True \<Longrightarrow> am_stop_reason m = StopError"
  by (auto simp: is_retryable_error_def is_retryable_assistant_error_def map_sum_def split: sum.splits)

lemma observe_facts:
  assumes "recovery_ok h s" "attempts_ok h s"
  shows "grown h s (observe_response a s)" "attempts_ok h (observe_response a s)" "rv_last (observe_response a s) = Some a"
    "am_stop_reason (snd a) = StopError \<Longrightarrow> counters (observe_response a s) = counters s"
    "am_stop_reason (snd a) = StopLength \<Longrightarrow> counters (observe_response a s) = (0, rv_overflow_attempted s)"
  using assms
  by (auto simp: observe_response_def Let_def grown_def recovery_ok_def flags_def attempts_ok_def counters_def emit_def)


lemma grown_update:
  "grown h s s' \<Longrightarrow> grown h s (s'\<lparr>rv_failed := x\<rparr>)" "grown h s s' \<Longrightarrow> grown h s (s'\<lparr>rv_last := y\<rparr>)"
  "grown h s s' \<Longrightarrow> grown h s (s'\<lparr>rv_retry_attempt := n\<rparr>)"
  by (auto simp: grown_def recovery_ok_def flags_def)

lemma less_to_do_weak: "grown h s s' \<Longrightarrow> attempts_ok h s' \<Longrightarrow> r \<noteq> Inr True \<Longrightarrow> less_to_do h s r s'"
  by (simp add: less_to_do_def)

text \<open>What is done with a response that is not retried.\<close>

lemma settle_response_ends:
  assumes fresh: "fresh_draws h" and g: "grown h s s1" "attempts_ok h s1"
    and flag: "am_stop_reason (snd a) \<in> {StopError, StopLength} \<Longrightarrow> rv_overflow_attempted s1 = rv_overflow_attempted s"
    and abort: "\<not> rv_abort_requested s1"
  shows "ends (after_retry_decision h a False) s1 (less_to_do h s)"
proof -
  let ?s = "end_failed_retry (snd a) s1"
  have e: "grown h s ?s" "attempts_ok h ?s" "rv_overflow_attempted ?s = rv_overflow_attempted s1" "rv_queued ?s = rv_queued s"
    using g by (auto simp: end_failed_retry_def attempts_ok_def intro!: grown_update grown_emit)
      (auto simp: emit_def grown_def flags_def)
  have "ends (and_then (check_compaction h a True) (\<lambda>continue s2.
      ret (\<not> rv_abort_requested s2 \<and> (continue \<or> rv_queued s2)) s2)) ?s (less_to_do h s)"
  proof (rule ends_and_then, rule ends_mono [OF check_compaction_ends [OF fresh grown_ok [OF e(1)]]])
    fix r s2 assume once: "once_after_overflow h (snd a) ?s r s2"
    then have s2: "grown h s s2" "attempts_ok h s2" "rv_queued s2 = rv_queued s"
      using grown_trans [OF e(1)] e(2,4) by (auto simp: once_after_overflow_def attempts_ok_def grown_def flags_def)
    have work: "recovery_work h s2 < recovery_work h s" if "r = Inr True" "\<not> rv_queued s"
      using once that e(3,4) flag by (auto simp: once_after_overflow_def recovery_work_def)
    show "case r of Inl x \<Rightarrow> less_to_do h s (Inl x) s2 | Inr continue \<Rightarrow>
        ends (\<lambda>s2. ret (\<not> rv_abort_requested s2 \<and> (continue \<or> rv_queued s2)) s2) s2 (less_to_do h s)"
      using s2 work by (auto simp: less_to_do_def ends_def ret_def split: sum.split)
  qed
  then show ?thesis using abort by (simp add: ends_def after_retry_decision_def)
qed

lemma after_retry_ends:
  assumes fresh: "fresh_draws h" and g: "grown h s s1" "attempts_ok h s1"
    and flag: "am_stop_reason (snd a) \<in> {StopError, StopLength} \<Longrightarrow> rv_overflow_attempted s1 = rv_overflow_attempted s"
    and abort: "\<not> rv_abort_requested s1" and work: "retry \<Longrightarrow> recovery_work h s1 < recovery_work h s"
  shows "ends (after_retry_decision h a retry) s1 (less_to_do h s)"
proof (cases retry)
  case True
  with work have "less_to_do h s (Inr True) (s1\<lparr>rv_failed := Some a\<rparr>)"
    using grown_update(1) [OF g(1)] g(2) by (simp add: less_to_do_def attempts_ok_def recovery_work_def)
  with True abort show ?thesis by (simp add: after_retry_decision_def ends_def ret_def)
qed (use settle_response_ends [OF fresh g flag abort] in simp)

lemma handle_post_agent_run_ends:
  assumes fresh: "fresh_draws h" and ok: "recovery_ok h s" "attempts_ok h s"
  shows "ends (handle_post_agent_run h) (observe_response a s) (less_to_do h s)"
proof -
  define s0 where "s0 = observe_response a s\<lparr>rv_last := None\<rparr>"
  note obs = observe_facts [OF ok, of a]
  have s0: "grown h s s0" "attempts_ok h s0" "am_stop_reason (snd a) = StopError \<Longrightarrow> counters s0 = counters s"
      "am_stop_reason (snd a) \<in> {StopError, StopLength} \<Longrightarrow> rv_overflow_attempted s0 = rv_overflow_attempted s"
    using grown_update(2) [OF obs(1), of None] obs by (auto simp: s0_def attempts_ok_def counters_def)
  show ?thesis
  proof (cases "rv_abort_requested s0")
    case True
    have "less_to_do h s (Inr False) (finish_cancelled_retry s0)"
      using finish_cancelled_retry_facts(1,2) [OF grown_ok [OF s0(1)]] grown_trans [OF s0(1)]
      by (intro less_to_do_weak) (auto simp: attempts_ok_def)
    with True show ?thesis by (simp add: handle_post_agent_run_def Let_def ends_def ret_def flip: s0_def)
  next
    case False
    have rest: "ends (and_then (if retryable then prepare_retry h a else ret False) (after_retry_decision h a)) s0 (less_to_do h s)"
      if r: "is_retryable_error h (snd a) = Inr retryable" for retryable
    proof -
      let ?Q = "\<lambda>(r :: bool result) s'. grown h s0 s' \<and> attempts_ok h s' \<and> rv_overflow_attempted s' = rv_overflow_attempted s0 \<and>
          (r = Inr True \<longrightarrow> retryable \<and> rv_retry_attempt s' = rv_retry_attempt s0 + 1)"
      have "ends (if retryable then prepare_retry h a else ret False) s0 ?Q"
        using prepare_retry_ends [OF fresh grown_ok [OF s0(1)] s0(2), of a] s0(2) grown_ok [OF s0(1)]
        by (auto simp: ends_def ret_def)
      then show ?thesis
      proof (rule ends_and_then [OF ends_mono])
        fix r s1 assume a1: "?Q r s1"
        then have g1: "grown h s s1" using grown_trans [OF s0(1)] by blast
        have abort: "\<not> rv_abort_requested s1" using a1 False by (auto simp: grown_def flags_def)
        have work: "recovery_work h s1 < recovery_work h s" if "r = Inr True"
        proof -
          have "am_stop_reason (snd a) = StopError" using that a1 r retryable_reason [of h "snd a"] by auto
          with s0(3) a1 that ok(2) show ?thesis
            by (auto simp: recovery_work_def counters_def attempts_ok_def nat_add_distrib)
        qed
        have "less_to_do h s (Inl e) s1" for e using g1 a1 by (intro less_to_do_weak) auto
        then show "case r of Inl e \<Rightarrow> less_to_do h s (Inl e) s1 | Inr retry \<Rightarrow> ends (after_retry_decision h a retry) s1 (less_to_do h s)"
          using after_retry_ends [OF fresh g1, of a] a1 s0(4) abort work by (auto split: sum.split)
      qed
    qed
    have "ends (and_then (lift_result (is_retryable_error h (snd a)))
        (\<lambda>retryable. and_then (if retryable then prepare_retry h a else ret False) (after_retry_decision h a))) s0 (less_to_do h s)"
      using rest less_to_do_weak [OF s0(1,2)] by (intro ends_after_lift) auto
    with False obs(3) show ?thesis by (simp add: handle_post_agent_run_def Let_def ends_def flip: s0_def)
  qed
qed


text \<open>
  A run of the agent that gets one response: whatever it appended to the session, it leaves the
  counters alone until the response is observed. A run may also raise.
\<close>

definition answers_once :: "recovery_host \<Rightarrow> (nat \<Rightarrow> unit act) \<Rightarrow> bool" where
  "answers_once h run \<longleftrightarrow> (\<forall>n s. recovery_ok h s \<longrightarrow>
     (\<exists>s1. recovery_ok h s1 \<and> flags s1 = flags s \<and> counters s1 = counters s \<and>
        ((\<exists>e. run n s = Some (Inl e, s1)) \<or> (\<exists>a. run n s = Some (Inr (), observe_response a s1)))))"

lemma post_run_loop_ends:
  assumes fresh: "fresh_draws h" and once: "answers_once h run"
  shows "recovery_ok h s \<Longrightarrow> attempts_ok h s \<Longrightarrow> \<not> rv_queued s \<Longrightarrow> recovery_work h s < fuel \<Longrightarrow>
    \<exists>k r s'. post_run_loop h run settle_without_handlers fuel n (observe_response a s) = Some (n + k, r, s') \<and>
      k \<le> recovery_work h s \<and> recovery_ok h s' \<and> flags s' = flags s"
proof (induction fuel arbitrary: n a s)
  case (Suc fuel)
  let ?s = "observe_response a s"
  have obs: "recovery_ok h ?s" "flags ?s = flags s"
    using observe_facts(1) [OF Suc.prems(1,2), of a] by (simp_all add: grown_def)
  show ?case
  proof (cases "rv_abort_requested s")
    case True
    with obs show ?thesis by (auto simp: flags_def)
  next
    case False
    from handle_post_agent_run_ends [OF fresh Suc.prems(1,2), of a] obtain r s1 where
      hd: "handle_post_agent_run h ?s = Some (r, s1)" and less: "less_to_do h s r s1"
      unfolding ends_def by blast
    have s1: "recovery_ok h s1" "attempts_ok h s1" "flags s1 = flags s" using less by (auto simp: less_to_do_def grown_def)
    have running: "\<not> rv_abort_requested ?s" "\<not> rv_abort_requested s1" "\<not> rv_queued s1"
      using False obs s1 Suc.prems(3) by (auto simp: flags_def)
    show ?thesis
    proof (cases "r = Inr True")
      case True
      then have work: "recovery_work h s1 < recovery_work h s" using less Suc.prems(3) by (simp add: less_to_do_def)
      from once s1(1) obtain s2 where s2: "recovery_ok h s2" "flags s2 = flags s1" "counters s2 = counters s1"
        and run: "(\<exists>e. run (n + 1) s1 = Some (Inl e, s2)) \<or> (\<exists>a. run (n + 1) s1 = Some (Inr (), observe_response a s2))"
        unfolding answers_once_def by blast
      have same: "attempts_ok h s2" "recovery_work h s2 = recovery_work h s1" "\<not> rv_queued s2"
        using s2 s1(2) running by (auto simp: attempts_ok_def recovery_work_def counters_def flags_def)
      from run show ?thesis
      proof (elim disjE exE)
        fix e assume "run (n + 1) s1 = Some (Inl e, s2)"
        with hd True running work s2 s1(3) show ?thesis by (auto intro!: exI [of _ 1])
      next
        fix b assume run: "run (n + 1) s1 = Some (Inr (), observe_response b s2)"
        from Suc.IH [OF s2(1) same(1,3), of "n + 1" b] work Suc.prems(4) same(2) obtain k r' s' where
          "post_run_loop h run settle_without_handlers fuel (n + 1) (observe_response b s2) = Some (n + 1 + k, r', s')"
          "k \<le> recovery_work h s1" "recovery_ok h s'" "flags s' = flags s2" by auto
        with hd True running run work s2 s1(3) show ?thesis by (auto intro!: exI [of _ "Suc k"])
      qed
    next
      case False
      with hd running s1 show ?thesis
        by (cases r) (auto simp: settle_without_handlers_def ret_def intro!: exI [of _ 0] split: bool.split)
    qed
  qed
qed simp

text \<open>
  C10. Recovery after a run is bounded: when every run of the agent gets one response and nothing is
  queued, the loop ends after at most twice the retry limit plus one continuations, whatever the
  responses, the extensions, the summarizer and the disk do; a run that answers is retried only for a
  transient error, or once for an overflow or a truncated response. The session is then idle with its
  per-run state dropped, and well formed.
\<close>

theorem recovery_is_bounded:
  assumes "fresh_draws h" "recovery_ok h s" "answers_once h run" "attempts_ok h s" "\<not> rv_queued s"
    "2 * retry_limit h + 1 < fuel"
  shows "\<exists>n r s'. run_claimed h run settle_without_handlers fuel s = Some (n, r, s') \<and> n \<le> 2 * retry_limit h + 1 \<and>
    session_ok (rv_session s') \<and> \<not> rv_run_active s' \<and> rv_failed s' = None \<and> rv_entry_ids s' = []"
proof -
  let ?s = "s\<lparr>rv_failed := None\<rparr>"
  have ok: "recovery_ok h ?s" using assms(2) by (simp add: recovery_ok_def)
  have closing: "session_ok (rv_session ((clear_run_state s1)\<lparr>rv_run_active := False\<rparr>)) \<and>
      rv_failed ((clear_run_state s1)\<lparr>rv_run_active := False\<rparr>) = None \<and> rv_entry_ids ((clear_run_state s1)\<lparr>rv_run_active := False\<rparr>) = []"
    if "recovery_ok h s1" for s1
    using that by (simp add: clear_run_state_def finish_cancelled_retry_def recovery_ok_def emit_def)
  from assms(3) ok obtain s1 where s1: "recovery_ok h s1" "flags s1 = flags ?s" "counters s1 = counters ?s"
    and run: "(\<exists>e. run 0 ?s = Some (Inl e, s1)) \<or> (\<exists>a. run 0 ?s = Some (Inr (), observe_response a s1))"
    unfolding answers_once_def by blast
  from run show ?thesis
  proof (elim disjE exE)
    fix e assume "run 0 ?s = Some (Inl e, s1)"
    with closing [OF s1(1)] show ?thesis by (simp add: run_claimed_def)
  next
    fix a assume run: "run 0 ?s = Some (Inr (), observe_response a s1)"
    have prem: "attempts_ok h s1" "\<not> rv_queued s1" "recovery_work h s1 \<le> 2 * retry_limit h + 1"
      using s1 assms(4,5) by (auto simp: attempts_ok_def flags_def counters_def recovery_work_def)
    from post_run_loop_ends [OF assms(1,3) s1(1) prem(1,2), of fuel 0 a] prem(3) assms(6) obtain k r s' where
      "post_run_loop h run settle_without_handlers fuel 0 (observe_response a s1) = Some (k, r, s')"
      "k \<le> recovery_work h s1" "recovery_ok h s'" by auto
    with closing [OF this(3)] run prem(3) show ?thesis by (simp add: run_claimed_def)
  qed
qed


subsection \<open>What an omission does to the context\<close>

text \<open>An entry without its messages.\<close>

definition silence :: "pystr set \<Rightarrow> projected_entry \<Rightarrow> projected_entry" where
  "silence ids e = (if en_id (pe_source e) \<in> ids then e\<lparr>pe_messages := []\<rparr> else e)"

lemma select_context_snoc:
  assumes "\<not> is_compaction (en_body e)" "distinct (map en_id (path @ [e]))"
  shows "select_context_entries (path @ [e]) = select_context_entries path @ [e]"
proof (cases "get_latest_compaction_entry path")
  case None
  then have "get_latest_compaction_entry (path @ [e]) = None" using assms(1) by (simp add: latest_compaction_None)
  with None show ?thesis by (simp add: select_context_entries_def)
next
  case (Some c)
  then obtain xs ys where path: "path = xs @ c # ys" "is_compaction (en_body c)" "\<forall>e \<in> set ys. \<not> is_compaction (en_body e)"
    by (rule latest_compaction_split)
  with assms have "\<forall>e \<in> set (ys @ [e]). \<not> is_compaction (en_body e)" "distinct (map en_id (xs @ c # ys @ [e]))"
    "distinct (map en_id (xs @ c # ys))" by auto
  with select_at_compaction [of xs c "ys @ [e]"] select_at_compaction [of xs c ys] path show ?thesis by simp
qed

lemma project_omission:
  assumes "en_body e = ContextEditE t None"
  shows "project_entries epoch (es @ [e]) = map (silence {t}) (project_entries epoch es) @ [\<lparr>pe_source = e, pe_messages = []\<rparr>]"
proof -
  have "enumerate n (es @ [e]) = enumerate n es @ [(n + length es, e)]" for n
    by (induction es arbitrary: n) auto
  moreover have "session_entry_to_context_messages epoch e = []"
    by (simp add: session_entry_to_context_messages_def assms)
  ultimately show ?thesis
    by (auto simp: project_entries_def Let_def collect_edits_snoc assms silence_def project_context_entry_def dict_get_set
        split: option.split)
qed

text \<open>The entries of the current context.\<close>

definition context_of :: "recovery_host \<Rightarrow> recovery \<Rightarrow> projected_entry list \<Rightarrow> bool" where
  "context_of h s es \<longleftrightarrow> (\<exists>path. get_branch (rv_session s) None = Some path \<and>
     es = project_entries (rh_epoch h) (select_context_entries path))"

text \<open>The text of a timestamp determines its time.\<close>

definition same_clock :: "recovery_host \<Rightarrow> bool" where
  "same_clock h \<longleftrightarrow> (\<forall>n. ev_epoch (rh_env h n) = rh_epoch h)"

lemma context_projection:
  assumes "same_clock h" "recovery_ok h s" "context_of h s es"
  shows "\<exists>p. session_projection_of (current_env h s) (rv_session s) = Some p \<and> sp_entries p = es \<and>
    sp_messages p = concat (map pe_messages es)"
  using assms
  by (auto simp: same_clock_def recovery_ok_def context_of_def session_projection_of_def build_session_projection_def
      build_session_path_manager current_env_def Let_def split: prod.split)

lemma context_exists: "recovery_ok h s \<Longrightarrow> \<exists>es. context_of h s es"
  using get_branch_returns [of "rv_session s" None] by (auto simp: recovery_ok_def context_of_def)

lemma append_omission_context:
  assumes ok: "recovery_ok h s" "recovery_ok h s'" and es: "context_of h s es"
    and app: "append_with (\<lambda>env. append_context_edit (rh_ser h) env t None) h s = Some (Inr i, s')"
  shows "\<exists>x. context_of h s' (map (silence {t}) es @ [x]) \<and> pe_messages x = []"
proof -
  have sess: "session_ok (rv_session s)" "session_ok (rv_session s')" using ok by (simp_all add: recovery_ok_def)
  from app obtain d b where "append_body (rh_ser h) (current_env h s) (\<lambda>_. ContextEditE t (normalize_replacement b None))
      (rv_session s) (rv_disk s) = (rv_session s', d, Inr i)"
    by (auto simp: append_with_def append_context_edit_def split: option.splits prod.splits if_splits)
  then have "ended (append_body (rh_ser h) (current_env h s) (\<lambda>_. ContextEditE t None) (rv_session s) (rv_disk s)) =
      (rv_session s', d, True)"
    by (simp add: normalize_replacement_def ended_def split: entry_body.splits)
  note app' = append_body_appended [OF this]
  let ?e = "new_entry (current_env h s) (rv_session s) (ss_leaf (rv_session s)) (\<lambda>_. ContextEditE t None)"
  from appended_branch [OF sess app' refl] obtain path where
    path: "get_branch (rv_session s) None = Some path" "get_branch (rv_session s') None = Some (path @ [?e])" by blast
  have body: "en_body ?e = ContextEditE t None" by (simp add: new_entry_def Let_def)
  have "subseq (path @ [?e]) (get_entries (rv_session s'))" using path_of_branch [OF sess(2) path(2)] by blast
  then have "distinct (map en_id (path @ [?e]))"
    using tree_ok_ids [OF session_tree [OF sess(2)]] subseq_distinct_list [OF subseq_map] by blast
  from select_context_snoc [OF _ this] body have
    "select_context_entries (path @ [?e]) = select_context_entries path @ [?e]" by simp
  with project_omission [OF body, of "rh_epoch h" "select_context_entries path"] path es show ?thesis
    by (auto simp: context_of_def)
qed

lemma silence_silence: "silence A (silence B e) = silence (B \<union> A) e"
  by (auto simp: silence_def)

lemma silent_silence: "pe_messages e = [] \<Longrightarrow> pe_messages (silence A e) = []"
  by (simp add: silence_def)

definition omitted_ids :: "pystr option list \<Rightarrow> pystr set" where
  "omitted_ids targets = {t. Some t \<in> set targets \<and> t \<noteq> []}"

lemma omit_entries_context:
  assumes fresh: "fresh_draws h"
  shows "recovery_ok h s \<Longrightarrow> context_of h s es \<Longrightarrow> omit_entries h targets s = Some (Inr (), s') \<Longrightarrow>
    \<exists>xs. context_of h s' (map (silence (omitted_ids targets)) es @ xs) \<and> list_all (\<lambda>x. pe_messages x = []) xs"
proof (induction targets arbitrary: s es)
  case Nil
  have "silence {} = id" by (auto simp: silence_def)
  then have "map (silence (omitted_ids [])) es = es" by (simp add: omitted_ids_def)
  with Nil show ?case by (auto simp: ret_def intro: exI [of _ "[]"])
next
  case (Cons target targets)
  show ?case
  proof (cases "target = None \<or> target = Some []")
    case True
    then have "omitted_ids (target # targets) = omitted_ids targets" by (auto simp: omitted_ids_def)
    with True Cons show ?thesis by auto
  next
    case False
    then obtain t where t: "target = Some t" "t \<noteq> []" by auto
    then have ids: "omitted_ids (target # targets) = {t} \<union> omitted_ids targets" by (auto simp: omitted_ids_def)
    let ?app = "append_with (\<lambda>env. append_context_edit (rh_ser h) env t None) h s"
    from safeD [OF append_edit_safe [OF fresh] Cons.prems(1), of t] obtain r s1 where
      app: "?app = Some (r, s1)" "grown h s s1" unfolding ends_def by blast
    from Cons.prems(3) t app obtain i where r: "r = Inr i" by (cases r) (auto simp: and_then_def)
    let ?s = "case get_entry (rv_session s1) i of Some e \<Rightarrow> emit (EntryAppended e) s1 | None \<Rightarrow> s1"
    have rest: "omit_entries h targets ?s = Some (Inr (), s')"
      using Cons.prems(3) t app r by (simp add: and_then_def)
    from append_omission_context [OF Cons.prems(1) grown_ok [OF app(2)] Cons.prems(2)] app(1) r obtain x where
      x: "context_of h s1 (map (silence {t}) es @ [x])" "pe_messages x = []" by blast
    then have "context_of h ?s (map (silence {t}) es @ [x])" by (auto simp: context_of_def split: option.split)
    moreover have "recovery_ok h ?s" using grown_ok [OF app(2)] by (auto simp: recovery_ok_def split: option.split)
    ultimately obtain xs where "context_of h s' (map (silence (omitted_ids targets)) (map (silence {t}) es @ [x]) @ xs)"
        "list_all (\<lambda>x. pe_messages x = []) xs"
      using Cons.IH rest by blast
    with x(2) ids show ?thesis
      by (auto simp: comp_def silence_silence silent_silence intro!: exI [of _ "silence (omitted_ids targets) x # xs"])
  qed
qed


text \<open>Looking for entries changes nothing.\<close>

definition looks :: "'a act \<Rightarrow> recovery \<Rightarrow> bool" where
  "looks m s \<longleftrightarrow> (\<exists>r. m s = Some (r, s))"

lemma looks_simps [simp]: "looks (ret x) s" "looks (raise e) s"
  by (simp_all add: looks_def ret_def raise_def)

lemma looks_and_then: "looks m s \<Longrightarrow> (\<And>x. looks (f x) s) \<Longrightarrow> looks (and_then m f) s"
  unfolding looks_def and_then_def by (elim exE, rename_tac r, case_tac r) auto

lemma looks_context:
  "recovery_ok h s \<Longrightarrow> looks current_branch s" "recovery_ok h s \<Longrightarrow> looks (current_projection h) s"
  using get_branch_returns [of "rv_session s" None] session_projection_returns [of "rv_session s" "current_env h s"]
  by (auto simp: looks_def current_branch_def current_projection_def recovery_ok_def)

lemma looks_find_persisted:
  assumes "recovery_ok h s"
  shows "looks (find_persisted_message_entry_id h obj) s"
proof -
  have tail: "looks (\<lambda>s. case find_index (\<lambda>(o1, _). o1 = obj) (rv_messages s) of
      None \<Rightarrow> ret None s | Some i \<Rightarrow> and_then (current_projection h) (\<lambda>p. ret (covering_entry i (sp_entries p))) s) s"
    using looks_and_then [OF looks_context(2) [OF assms], of "\<lambda>p. ret (covering_entry i (sp_entries p))" for i]
    by (auto simp: looks_def ret_def split: option.split)
  have "looks (and_then current_branch (\<lambda>path. case find (holds_object (rh_object_of_entry h) obj) (rev path) of
      Some e \<Rightarrow> ret (Some (en_id e))
    | None \<Rightarrow> (\<lambda>s. case find_index (\<lambda>(o1, _). o1 = obj) (rv_messages s) of
        None \<Rightarrow> ret None s | Some i \<Rightarrow> and_then (current_projection h) (\<lambda>p. ret (covering_entry i (sp_entries p))) s))) s"
    by (rule looks_and_then [OF looks_context(1) [OF assms]]) (simp add: tail split: option.split)
  then show ?thesis
    by (simp add: looks_def find_persisted_message_entry_id_def ret_def split: option.split)
qed

lemma looks_find_entries: "recovery_ok h s \<Longrightarrow> looks (find_entry_ids h objs) s"
  by (induction objs) (auto intro!: looks_and_then looks_find_persisted)

lemma looks_attempt_index:
  assumes "recovery_ok h s"
  shows "looks (attempt_index h obj entry_id) s"
proof -
  have "looks (and_then (current_projection h)
      (\<lambda>p s. ret (projected_position i (length (rv_messages s)) 0 (sp_entries p)) s)) s" for i
    by (rule looks_and_then [OF looks_context(2) [OF assms]]) (simp add: looks_def ret_def)
  then show ?thesis by (auto simp: looks_def attempt_index_def ret_def split: option.split)
qed

lemma find_entry_ids_length: "find_entry_ids h objs s = Some (Inr found, s') \<Longrightarrow> length found = length objs"
  by (induction objs arbitrary: found s s') (auto simp: ret_def and_then_def split: option.splits sum.splits)

lemma zip_found:
  "length is = length ts \<Longrightarrow> \<not> list_ex (\<lambda>(i, t). i = None \<and> list_ex (\<lambda>(o1, _). o1 = t) ms) (zip is ts) \<Longrightarrow>
   list_all2 (\<lambda>t i. t \<in> fst ` set ms \<longrightarrow> i \<noteq> None) ts is"
  by (induction "is" ts rule: list_induct2) (auto simp: list_ex_iff)



subsection \<open>What an automatic compaction leaves behind\<close>

definition failure_events :: "recovery_host \<Rightarrow> compaction_reason \<Rightarrow> pystr option \<Rightarrow> bool \<Rightarrow> bool \<Rightarrow> recovery_event list" where
  "failure_events h reason error_message aborted from_extension =
    CompactionEnded reason None aborted False error_message #
    (if rh_failed_handlers h then [SessionCompactFailed reason error_message aborted False from_extension] else [])"

lemma end_failed_events [simp]:
  "rv_events (end_failed_compaction h reason e aborted x s) = rv_events s @ failure_events h reason e aborted x"
  by (simp add: end_failed_compaction_def failure_events_def Let_def)

text \<open>One more entry, a compaction with this content.\<close>

definition compaction_added :: "compaction_result \<Rightarrow> session \<Rightarrow> session \<Rightarrow> bool" where
  "compaction_added c ss ss' \<longleftrightarrow> (\<exists>e cb. get_entries ss' = get_entries ss @ [e] \<and> ss_leaf ss' = Some (en_id e) \<and>
     en_body e = CompactionE cb \<and> cb_summary cb = cr_summary c \<and> cb_first_kept cb = Some (cr_first_kept c))"

definition compaction_stored ::
  "recovery_host \<Rightarrow> compaction_reason \<Rightarrow> bool \<Rightarrow> bool \<Rightarrow> compaction_result \<Rightarrow> nat \<Rightarrow> recovery \<Rightarrow> recovery \<Rightarrow> bool" where
  "compaction_stored h reason will_retry from_extension c tokens s s' \<longleftrightarrow> compaction_added c (rv_session s) (rv_session s') \<and>
     (\<exists>after saved. session_projection_of (current_env h s') (rv_session s') = Some after \<and>
        map snd (rv_messages s') = sp_messages after \<and> tokens = estimate_messages_tokens (sp_messages after) \<and>
        saved \<in> set (get_entries (rv_session s')) \<and> compaction_with_summary (cr_summary c) saved \<and>
        rv_events s' = rv_events s @ [SessionCompacted saved from_extension reason will_retry])"

lemma find_exists: "x \<in> set xs \<Longrightarrow> f x \<Longrightarrow> \<exists>y. find f xs = Some y \<and> y \<in> set xs \<and> f y"
  by (cases "find f xs") (auto simp: find_None_iff dest: find_Some_in)

lemma store_compaction_outcome:
  assumes ok: "recovery_ok h s" and store: "store_compaction h reason wr ext c s = Some (r, s')"
  shows "case r of Inl e \<Rightarrow> rv_events s' = rv_events s \<and> compaction_added c (rv_session s) (rv_session s')
    | Inr tokens \<Rightarrow> compaction_stored h reason wr ext c tokens s s'"
proof -
  let ?app = "append_with (\<lambda>env. append_compaction (rh_ser h) env (cr_summary c) (Some (cr_first_kept c)) (cr_tokens_before c)
        (given_details (cr_details c)) (Some ext) (cr_usage c)) h s"
  have sess: "session_ok (rv_session s)" and dr: "draws_ok (current_env h s) (ids_of (get_entries (rv_session s)))"
    using ok by (simp_all add: recovery_ok_def current_env_def)
  from append_compaction_ok [OF sess dr, of "rh_ser h" "cr_summary c" "Some (cr_first_kept c)" "cr_tokens_before c"
      "given_details (cr_details c)" "Some ext" "cr_usage c" "rv_disk s"] obtain ss d r1 where
    raw: "append_compaction (rh_ser h) (current_env h s) (cr_summary c) (Some (cr_first_kept c)) (cr_tokens_before c)
        (given_details (cr_details c)) (Some ext) (cr_usage c) (rv_session s) (rv_disk s) = Some (ss, d, r1)"
    and after: "session_ok ss" by blast
  define s1 where "s1 = s\<lparr>rv_session := ss, rv_disk := d, rv_step := rv_step s + 1\<rparr>"
  have app: "?app = Some (r1, s1)" using raw by (simp add: append_with_def s1_def)
  from raw obtain body where "append_body (rh_ser h) (current_env h s) (\<lambda>i. CompactionE (body i)) (rv_session s) (rv_disk s) = (ss, d, r1)"
    and cb: "\<And>i. cb_summary (body i) = cr_summary c \<and> cb_first_kept (body i) = Some (cr_first_kept c)"
    by (auto simp: append_compaction_def Let_def split: option.splits)
  then have "ended (append_body (rh_ser h) (current_env h s) (\<lambda>i. CompactionE (body i)) (rv_session s) (rv_disk s)) = (ss, d, \<not> isl r1)"
    by (simp add: ended_def)
  from appended_entries(1,3) [OF append_body_appended [OF this]] cb have
    added: "compaction_added c (rv_session s) (rv_session s1)"
    by (auto simp: compaction_added_def s1_def new_entry_def Let_def)
  obtain p where p: "session_projection_of (current_env h s1) (rv_session s1) = Some p"
    using session_projection_returns [of "rv_session s1"] after by (fastforce simp: s1_def)
  show ?thesis
  proof (cases r1)
    case (Inl e)
    with app store have "s' = s1" "r = Inl e" by (auto simp: store_compaction_def and_then_def)
    with added show ?thesis by (simp add: s1_def)
  next
    case (Inr i)
    define s2 where "s2 = s1\<lparr>rv_messages := map (\<lambda>(i, m). (rh_projected_object h (rv_session s1) i, m)) (enumerate 0 (sp_messages p))\<rparr>"
    have p2: "session_projection_of (current_env h s2) (rv_session s2) = Some p" "map snd (rv_messages s2) = sp_messages p"
      using p by (simp_all add: s2_def current_env_def comp_def case_prod_beta)
    from added obtain e cb where e: "get_entries (rv_session s1) = get_entries (rv_session s) @ [e]" "en_body e = CompactionE cb"
        "cb_summary cb = cr_summary c"
      by (auto simp: compaction_added_def)
    then have "e \<in> set (get_entries (rv_session s2))" "compaction_with_summary (cr_summary c) e"
      by (simp_all add: compaction_with_summary_def s2_def)
    from find_exists [of _ _ "compaction_with_summary (cr_summary c)", OF this] obtain saved where saved:
      "find (compaction_with_summary (cr_summary c)) (get_entries (rv_session s2)) = Some saved"
      "saved \<in> set (get_entries (rv_session s2))" "compaction_with_summary (cr_summary c) saved" by blast
    have "r = Inr (estimate_messages_tokens (sp_messages p)) \<and> s' = emit (SessionCompacted saved ext reason wr) s2"
      using store app Inr p p2 saved(1)
      by (simp add: store_compaction_def and_then_def refresh_finalized_context_def current_projection_def ret_def flip: s2_def)
    moreover have "current_env h (emit x s2) = current_env h s2" for x by (simp add: current_env_def)
    ultimately show ?thesis using added p2 saved(2,3) by (auto simp: compaction_stored_def s2_def s1_def)
  qed
qed

text \<open>
  The event that reports a compaction looks its entry up by its summary: with an older compaction of
  the same summary it does not report the entry just stored.
\<close>

lemma find_in_prefix: "x \<in> set xs \<Longrightarrow> P x \<Longrightarrow> find P (xs @ ys) = find P xs \<and> find P xs \<noteq> None"
  by (induction xs) auto

lemma reported_entry_may_be_older:
  assumes "x \<in> set older" "compaction_with_summary summary x" "new \<notin> set older"
  shows "\<exists>y \<in> set older. find (compaction_with_summary summary) (older @ [new]) = Some y \<and> y \<noteq> new"
  using find_in_prefix [of x older "compaction_with_summary summary" "[new]"] assms(1,2) assms(3) by (auto simp: find_Some_iff)



subsection \<open>A concrete recovery\<close>

definition example_failed :: assistant_message where
  "example_failed = (example_response ''partial'')\<lparr>am_stop_reason := StopError, am_error_message := Some (lit ''503'')\<rparr>"

definition example_failing :: "session \<times> disk" where
  "example_failing = example_run 4 [AppendMessage (FullMsg (AssistantMsg example_failed))] example_session"

definition example_host :: recovery_host where
  "example_host = \<lparr>rh_ser = example_ser, rh_env = (\<lambda>n. example_env (n + 5)), rh_epoch = (\<lambda>_. 0), rh_settings = example_keep_one,
     rh_retry = \<lparr>rp_enabled = True, rp_max_retries = 2, rp_base_delay_ms = 1, rp_max_agent_delay_ms = None\<rparr>,
     rh_model = Some \<lparr>md_provider = [], md_id = [], md_context_window = 100, md_max_tokens = 10, md_virtual = False\<rparr>,
     rh_physical = (\<lambda>_ _. None), rh_no_model_text = [],
     rh_before_compact = Some (\<lambda>p. HookCompaction \<lparr>cr_summary = lit ''s'', cr_first_kept = example_id 3,
       cr_tokens_before = 7, cr_usage = None, cr_details = JNull\<rparr>),
     rh_failed_handlers = True, rh_summarizer = Inl [], rh_cancel_at = None, rh_retry_cancelled = (\<lambda>_. False),
     rh_object_of_entry = (\<lambda>_. None), rh_projected_object = (\<lambda>_ i. i + 1)\<rparr>"

definition example_recovery :: recovery where
  "example_recovery = \<lparr>rv_session = fst example_failing, rv_disk = snd example_failing, rv_step = 0,
     rv_messages = [(0, AssistantMsg example_failed)], rv_entry_ids = [(0, example_id 4)], rv_retry_attempt = 0,
     rv_overflow_attempted = False, rv_run_active = True, rv_abort_requested = False, rv_queued = False,
     rv_failed = None, rv_last = None, rv_events = []\<rparr>"

lemma example_recovery_ok: "fresh_draws example_host" "same_clock example_host" "recovery_ok example_host example_recovery"
proof -
  show "fresh_draws example_host" "same_clock example_host"
    by (auto simp: fresh_draws_def same_clock_def example_host_def example_env_def inj_def)
  have "short_run 4 [AppendMessage (FullMsg (AssistantMsg example_failed))] example_session" by code_simp
  from example_run_reachable [OF _ this] example_session_reachable
  have "session_ok (fst example_failing)"
    using sess.reachable_inv by (fastforce simp: example_failing_def)
  moreover have "short_ids example_failing" by code_simp
  ultimately show "recovery_ok example_host example_recovery"
    using example_draws by (simp add: recovery_ok_def example_host_def example_recovery_def)
qed

theorem recovery_is_bounded_witness:
  "\<exists>n r s'. run_claimed example_host (\<lambda>n s. Some (Inr (), observe_response (0, example_failed) s)) settle_without_handlers 6
     example_recovery = Some (n, r, s') \<and> n \<le> 5 \<and> session_ok (rv_session s')"
proof -
  have once: "answers_once example_host (\<lambda>n s. Some (Inr (), observe_response (0, example_failed) s))"
    by (auto simp: answers_once_def)
  have lim: "retry_limit example_host = 2" by (simp add: retry_limit_def example_host_def)
  have "attempts_ok example_host example_recovery" "\<not> rv_queued example_recovery"
    by (simp_all add: attempts_ok_def lim example_recovery_def)
  from recovery_is_bounded [OF example_recovery_ok(1,3) once this, of 6] lim show ?thesis by auto
qed


definition example_hook_result :: compaction_result where
  "example_hook_result = \<lparr>cr_summary = lit ''s'', cr_first_kept = example_id 3, cr_tokens_before = 7, cr_usage = None, cr_details = JNull\<rparr>"

text \<open>The same state before the failed attempt.\<close>

definition example_before :: recovery where
  "example_before = example_recovery\<lparr>rv_session := fst example_session, rv_disk := snd example_session\<rparr>"

lemma example_before_ok: "recovery_ok example_host example_before"
  using sess.reachable_inv [OF example_session_reachable] example_session_draws
  by (simp add: recovery_ok_def example_host_def example_before_def)

lemma example_prepared_recovery:
  "\<exists>path p. get_branch (rv_session example_before) None = Some path \<and>
    prepare_compaction (rh_epoch example_host) path (rh_settings example_host) = Some (Some p)"
proof -
  obtain path where "get_branch (fst example_session) None = Some path" using example_branch by blast
  moreover from this example_split_turn have "\<exists>p. prepare_compaction (\<lambda>_. 0) path example_keep_one = Some (Some p)"
    by (auto simp: example_prepared_def example_env_def split: option.splits)
  ultimately show ?thesis by (auto simp: example_before_def example_host_def)
qed

lemma example_appended:
  "case append_compaction example_ser (example_env 5) (lit ''s'') (Some (example_id 3)) 7 None (Some True) None
      (fst example_session) (snd example_session) of
    Some (s, d, Inr i) \<Rightarrow> True | _ \<Rightarrow> False"
  by code_simp

lemma refresh_returns: "recovery_ok h s \<Longrightarrow> \<exists>s'. refresh_finalized_context h s = Some (Inr (), s') \<and> rv_session s' = rv_session s"
  using session_projection_returns [of "rv_session s" "current_env h s"]
  by (auto simp: recovery_ok_def refresh_finalized_context_def and_then_def current_projection_def)

lemma example_stored:
  "\<exists>tokens s. store_compaction example_host ThresholdCompaction False True example_hook_result
      (emit (CompactionStarted ThresholdCompaction) example_before) = Some (Inr tokens, s)"
proof -
  let ?s = "emit (CompactionStarted ThresholdCompaction) example_before"
  let ?c = "example_hook_result"
  let ?app = "append_with (\<lambda>env. append_compaction (rh_ser example_host) env (cr_summary ?c) (Some (cr_first_kept ?c))
      (cr_tokens_before ?c) (given_details (cr_details ?c)) (Some True) (cr_usage ?c)) example_host"
  have ok: "recovery_ok example_host ?s" using grown_ok [OF emit_grown] example_before_ok by blast
  from example_appended obtain i s1 where app: "?app ?s = Some (Inr i, s1)"
    by (auto simp: append_with_def current_env_def example_host_def example_before_def example_recovery_def example_hook_result_def given_details_def
        emit_def split: option.splits prod.splits sum.splits)
  from safeD [OF append_compaction_safe [OF example_recovery_ok(1)] ok, of "cr_summary ?c" "Some (cr_first_kept ?c)"
      "cr_tokens_before ?c" "given_details (cr_details ?c)" "Some True" "cr_usage ?c"] app
  have ok1: "recovery_ok example_host s1"
    by (simp add: ends_def grown_def)
  from refresh_returns [OF this] obtain s2 where
    s2: "refresh_finalized_context example_host s1 = Some (Inr (), s2)" "rv_session s2 = rv_session s1" by blast
  have "session_projection_of (current_env example_host s2) (rv_session s2) \<noteq> None"
    using session_projection_returns ok1 s2(2) by (simp add: recovery_ok_def)
  with app s2 show ?thesis
    by (auto simp: store_compaction_def and_then_def current_projection_def ret_def)
qed


end
