(* ===== verification/Session_Navigation.thy ===== *)
theory Session_Navigation
  imports Recovery_Laws
begin

section \<open>Navigating the session tree (core/agent_session.py)\<close>

text \<open>
  \<open>navigate_tree\<close> moves the leaf to another entry of the session: before a user or custom message,
  whose text goes to the editor, or onto any other entry; what is left behind can be summarized there.
  The answers of the \<open>session_before_tree\<close> handlers, the summarization service with the window of its
  model, and whether a run or a compaction is active at the two checks are parameters. Restoring the
  tool loadout afterwards is \<open>Tool_Loadout\<close>.
\<close>

subsection \<open>Inputs and results\<close>

record navigate_options =
  opt_summarize :: bool
  opt_custom :: "pystr option"
  opt_replace :: "bool option"
  opt_label :: "pystr option"

record tree_preparation =
  tp_target :: pystr
  tp_old_leaf :: "pystr option"
  tp_common_ancestor :: "pystr option"
  tp_entries :: "entry list"
  tp_wants_summary :: bool
  tp_custom :: "pystr option"
  tp_replace :: "bool option"
  tp_label :: "pystr option"

record given_summary =
  gs_summary :: "pystr option"
  gs_details :: "json option"
  gs_usage :: "usage option"

text \<open>A dict a handler answers; an override is present or not.\<close>

record tree_answer =
  ta_cancel :: bool
  ta_summary :: "given_summary option"
  ta_custom :: "pystr option option"
  ta_replace :: "bool option option"
  ta_label :: "pystr option option"

record navigate_result =
  nr_cancelled :: bool
  nr_editor_text :: "pystr option"
  nr_aborted :: bool
  nr_summary_entry :: "entry option"

record tree_event =
  te_new_leaf :: "pystr option"
  te_old_leaf :: "pystr option"
  te_summary_entry :: "entry option"
  te_from_extension :: "bool option"

record navigation_host =
  nh_session :: recovery_host
  nh_streaming :: "nat \<Rightarrow> bool"
  nh_compacting :: "nat \<Rightarrow> bool"
  nh_before_tree :: "(tree_preparation \<Rightarrow> tree_answer option result) option"
  nh_service :: "(summary_service \<times> int) result"
  nh_reserve_tokens :: int

definition cancelled_navigation :: "bool \<Rightarrow> navigate_result" where
  "cancelled_navigation aborted = \<lparr>nr_cancelled = True, nr_editor_text = None, nr_aborted = aborted, nr_summary_entry = None\<rparr>"

definition navigation_blocked :: "navigation_host \<Rightarrow> nat \<Rightarrow> pystr option" where
  "navigation_blocked N k =
    (if nh_streaming N k then Some (lit ''Wait for the current response to finish before navigating the session tree.'')
     else if nh_compacting N k then
       Some (lit ''Wait for the current compaction or tree navigation to finish before navigating the session tree.'')
     else None)"

subsection \<open>The summary\<close>

datatype summary_choice = SummaryAborted | SummaryChoice "pystr option" "json option" "usage option"

definition truthy_text :: "pystr option \<Rightarrow> pystr option" where
  "truthy_text t = (if t = Some [] then None else t)"

definition list_or_empty :: "'a list option \<Rightarrow> 'a list" where
  "list_or_empty v = (case v of None \<Rightarrow> [] | Some xs \<Rightarrow> xs)"

definition navigation_summary ::
  "navigation_host \<Rightarrow> bool \<Rightarrow> entry list \<Rightarrow> pystr option \<Rightarrow> bool option \<Rightarrow> given_summary option \<Rightarrow> summary_choice result" where
  "navigation_summary N summarize entries custom replace given =
    (if summarize \<and> entries \<noteq> [] \<and> given = None then
       (case nh_service N of
          Inl err \<Rightarrow> Inl err
        | Inr (sv, window) \<Rightarrow>
            (case generate_branch_summary sv (rh_epoch (nh_session N)) entries window (nh_reserve_tokens N) custom replace of
               Inl err \<Rightarrow> Inl err
             | Inr r \<Rightarrow>
                 if br_aborted r = Some True then Inr SummaryAborted
                 else (case truthy_text (br_error r) of
                   Some err \<Rightarrow> Inl err
                 | None \<Rightarrow> Inr (SummaryChoice (br_summary r)
                     (Some (file_details (list_or_empty (br_read_files r)) (list_or_empty (br_modified_files r)))) (br_usage r)))))
     else case given of
       None \<Rightarrow> Inr (SummaryChoice None None None)
     | Some g \<Rightarrow> Inr (SummaryChoice (gs_summary g) (gs_details g) (gs_usage g)))"

subsection \<open>Moving the leaf\<close>

text \<open>The new leaf and the text for the editor; null content, as a damaged file may have, raises.\<close>

definition navigation_target :: "entry \<Rightarrow> (pystr option \<times> pystr option) result" where
  "navigation_target e =
    (case en_body e of
       MessageE (FullMsg (UserMsg m)) \<Rightarrow> Inr (en_parent e, Some (content_text [] (um_content m)))
     | MessageE (NullContent (UserMsg m)) \<Rightarrow> Inl (lit ''TypeError'')
     | CustomMessageE t (Some c) dp dt \<Rightarrow> Inr (en_parent e, Some (content_text [] c))
     | CustomMessageE t None dp dt \<Rightarrow> Inl (lit ''TypeError'')
     | _ \<Rightarrow> Inr (Some (en_id e), None))"

definition change_session :: "(session \<Rightarrow> session \<times> unit result) \<Rightarrow> unit act" where
  "change_session f s = (case f (rv_session s) of (ss, r) \<Rightarrow> Some (r, s\<lparr>rv_session := ss\<rparr>))"

definition attach_label :: "recovery_host \<Rightarrow> pystr \<Rightarrow> pystr option \<Rightarrow> unit act" where
  "attach_label h i label =
    (case truthy_text label of
       None \<Rightarrow> ret ()
     | Some l \<Rightarrow> and_then (append_with (\<lambda>env s d. Some (append_label_change (rh_ser h) env i (Some l) s d)) h) (\<lambda>_. ret ()))"

definition switch_leaf ::
  "recovery_host \<Rightarrow> pystr \<Rightarrow> pystr option \<Rightarrow> pystr option \<Rightarrow> json option \<Rightarrow> usage option \<Rightarrow> bool \<Rightarrow> pystr option \<Rightarrow> entry option act" where
  "switch_leaf h target new_leaf summary details usage from_extension label =
    (case truthy_text summary of
       Some t \<Rightarrow>
         and_then (append_with (\<lambda>env s d. Some (branch_with_summary (rh_ser h) env new_leaf t details (Some from_extension) usage s d)) h)
           (\<lambda>summary_id. and_then (\<lambda>s. ret (get_entry (rv_session s) summary_id) s)
             (\<lambda>entry. and_then (attach_label h summary_id label) (\<lambda>_. ret entry)))
     | None \<Rightarrow>
         and_then (change_session (case new_leaf of None \<Rightarrow> (\<lambda>s. (reset_leaf s, Inr ())) | Some l \<Rightarrow> branch l))
           (\<lambda>_. and_then (attach_label h target label) (\<lambda>_. ret None)))"

text \<open>After the handlers: summary, new leaf, label, and the context of the new leaf.\<close>

definition finish_navigation ::
  "navigation_host \<Rightarrow> bool \<Rightarrow> pystr option \<Rightarrow> entry \<Rightarrow> entry list \<Rightarrow> pystr option \<Rightarrow> bool option \<Rightarrow> pystr option \<Rightarrow>
   given_summary option \<Rightarrow> (navigate_result \<times> tree_event option) act" where
  "finish_navigation N summarize old_leaf target entries custom replace label given =
    (let h = nh_session N
     in case navigation_summary N summarize entries custom replace given of
          Inl err \<Rightarrow> raise err
        | Inr SummaryAborted \<Rightarrow> ret (cancelled_navigation True, None)
        | Inr (SummaryChoice summary details usage) \<Rightarrow>
            and_then (lift_result (navigation_target target)) (\<lambda>(new_leaf, editor_text).
            and_then (switch_leaf h (en_id target) new_leaf summary details usage (given \<noteq> None) label) (\<lambda>summary_entry.
            and_then (refresh_finalized_context h) (\<lambda>_ s.
              ret (\<lparr>nr_cancelled = False, nr_editor_text = editor_text, nr_aborted = False, nr_summary_entry = summary_entry\<rparr>,
                   Some \<lparr>te_new_leaf = ss_leaf (rv_session s), te_old_leaf = old_leaf, te_summary_entry = summary_entry,
                     te_from_extension = (if truthy_text summary \<noteq> None then Some (given \<noteq> None) else None)\<rparr>) s))))"

definition override :: "'a option \<Rightarrow> 'a \<Rightarrow> 'a" where
  "override given missing = (case given of None \<Rightarrow> missing | Some x \<Rightarrow> x)"

definition navigate_tree :: "navigation_host \<Rightarrow> pystr \<Rightarrow> navigate_options \<Rightarrow> (navigate_result \<times> tree_event option) act" where
  "navigate_tree N target_id opts s =
    (let h = nh_session N; old_leaf = ss_leaf (rv_session s)
     in case navigation_blocked N 0 of
          Some err \<Rightarrow> raise err s
        | None \<Rightarrow>
            if Some target_id = old_leaf then
              ret (\<lparr>nr_cancelled = False, nr_editor_text = None, nr_aborted = False, nr_summary_entry = None\<rparr>, None) s
            else if opt_summarize opts \<and> rh_model h = None then raise (lit ''No model available for summarization'') s
            else case get_entry (rv_session s) target_id of
              None \<Rightarrow> raise (not_found target_id) s
            | Some target \<Rightarrow>
                (case collect_entries_for_branch_summary (rv_session s) old_leaf target_id of
                   None \<Rightarrow> None
                 | Some collected \<Rightarrow>
                     (case navigation_blocked N 1 of
                        Some err \<Rightarrow> raise err s
                      | None \<Rightarrow>
                          (let finish = finish_navigation N (opt_summarize opts) old_leaf target (co_entries collected)
                           in case (case nh_before_tree N of
                                 None \<Rightarrow> Inr None
                               | Some f \<Rightarrow> f \<lparr>tp_target = target_id, tp_old_leaf = old_leaf,
                                   tp_common_ancestor = co_common_ancestor collected, tp_entries = co_entries collected,
                                   tp_wants_summary = opt_summarize opts, tp_custom = opt_custom opts,
                                   tp_replace = opt_replace opts, tp_label = opt_label opts\<rparr>) of
                                Inl err \<Rightarrow> raise err s
                              | Inr None \<Rightarrow> finish (opt_custom opts) (opt_replace opts) (opt_label opts) None s
                              | Inr (Some a) \<Rightarrow>
                                  if ta_cancel a then ret (cancelled_navigation False, None) s
                                  else finish (override (ta_custom a) (opt_custom opts)) (override (ta_replace a) (opt_replace opts))
                                    (override (ta_label a) (opt_label opts)) (if opt_summarize opts then ta_summary a else None) s))))"

subsection \<open>Where a navigation ends\<close>

text \<open>What a navigation adds: the summary and the label.\<close>

definition navigation_body :: "entry_body \<Rightarrow> bool" where
  "navigation_body b = (case b of BranchSummaryE x \<Rightarrow> True | LabelE t l \<Rightarrow> True | _ \<Rightarrow> False)"

text \<open>The session has a leaf \<open>l\<close>, or none, with path \<open>path\<close>.\<close>

definition at_path :: "session \<Rightarrow> pystr option \<Rightarrow> entry list \<Rightarrow> bool" where
  "at_path s l path \<longleftrightarrow> (case l of None \<Rightarrow> path = [] | Some i \<Rightarrow> i \<in> ids_of (get_entries s) \<and> get_branch s (Some i) = Some path)"

lemma at_path_leaf: "session_ok s \<Longrightarrow> at_path s (ss_leaf s) path \<longleftrightarrow> get_branch s None = Some path"
  using session_leaf [of s] by (auto simp: at_path_def get_branch_def path_from_def split: option.splits)

lemma at_path_moved: "session_ok s \<Longrightarrow> at_path s l path \<Longrightarrow> session_ok (s\<lparr>ss_leaf := l\<rparr>) \<and> get_branch (s\<lparr>ss_leaf := l\<rparr>) None = Some path"
  by (rule conjI, rule branch_leaf_ok) (auto simp: at_path_def get_branch_def path_from_def split: option.splits)

lemma new_id: "\<exists>k. en_id (new_entry env s p body) = take 8 (ev_uuid4 env k) \<or> en_id (new_entry env s p body) = ev_uuid4 env k"
proof -
  obtain i m where g: "generate_id env 0 (map fst (ss_by_id s)) = (i, m)" by force
  then show ?thesis using generate_id_cases [OF g] by (auto simp: new_entry_def Let_def)
qed

lemma appended_step:
  assumes fresh: "fresh_draws h" and ok: "recovery_ok h s"
    and run: "run_op ser (current_env h s) op (rv_session s, rv_disk s) = Some (ss, d, True)"
    and app: "appended ser l (new_entry (current_env h s) x l body) ((rv_session s)\<lparr>ss_leaf := l\<rparr>) (rv_disk s) ss d True"
  shows "recovery_ok h (s\<lparr>rv_session := ss, rv_disk := d, rv_step := rv_step s + 1\<rparr>)"
proof -
  let ?e = "new_entry (current_env h s) x l body"
  have sess: "session_ok (rv_session s)" "draws_ok (current_env h s) (ids_of (get_entries (rv_session s)))"
    using ok by (simp_all add: recovery_ok_def current_env_def)
  from run_op_ok [OF sess, of ser op "rv_disk s"] run have "session_ok ss" by simp
  moreover from appended_entries(1) [OF app] have es: "get_entries ss = get_entries (rv_session s) @ [?e]" by simp
  moreover have "draws_ok (rh_env h n) (ids_of (get_entries ss))" if n: "Suc (rv_step s) \<le> n" for n
  proof -
    have "ev_uuid4 (rh_env h n) k \<noteq> en_id ?e" for k
    proof -
      have long: "length (ev_uuid4 (rh_env h n) k) = 36" "ev_uuid4 (rh_env h (rv_step s)) j \<noteq> ev_uuid4 (rh_env h n) k" for j
        using fresh n by (auto simp: fresh_draws_def)
      obtain j where "en_id ?e = take 8 (ev_uuid4 (current_env h s) j) \<or> en_id ?e = ev_uuid4 (current_env h s) j"
        using new_id by blast
      moreover have "length (take 8 (ev_uuid4 (current_env h s) j)) \<le> 8" by simp
      ultimately show ?thesis using long(1) long(2) [of j] by (auto simp: current_env_def)
    qed
    moreover have "draws_ok (rh_env h n) (ids_of (get_entries (rv_session s)))" using ok n by (simp add: recovery_ok_def)
    ultimately show ?thesis unfolding es by (auto simp: draws_ok_def)
  qed
  ultimately show ?thesis by (simp add: recovery_ok_def)
qed

text \<open>From a session at a path, one more entry at its end.\<close>

lemma grown_path:
  assumes ok: "session_ok s" "session_ok s'" and path: "at_path s l path"
    and app: "appended ser l e (s\<lparr>ss_leaf := l\<rparr>) d s' d' True"
  shows "get_entries s' = get_entries s @ [e]" "get_branch s' None = Some (path @ [e])"
proof -
  show "get_entries s' = get_entries s @ [e]" using appended_entries(1) [OF app] by simp
  from at_path_moved [OF ok(1) path] have m: "session_ok (s\<lparr>ss_leaf := l\<rparr>)" "get_branch (s\<lparr>ss_leaf := l\<rparr>) None = Some path" by auto
  from appended_branch [OF m(1) ok(2) app] m(2) show "get_branch s' None = Some (path @ [e])" by simp
qed

lemma append_label_appended:
  assumes "append_label_change ser env i (Some l) s d = (s', d', Inr x)" "l \<noteq> []"
  shows "appended ser (ss_leaf s) (new_entry env s (ss_leaf s) (\<lambda>_. LabelE i (Some l))) s d s' d' True"
proof -
  let ?e = "new_entry env s (ss_leaf s) (\<lambda>_. LabelE i (Some l))"
  from assms have "commit ser ?e (set_label i (Some l) (en_timestamp ?e) (append_entry_locked ?e s)) d = (s', d', Inr x)"
    by (auto simp: append_label_change_def Let_def split: if_splits)
  moreover obtain ls ts where "set_label i (Some l) (en_timestamp ?e) (append_entry_locked ?e s) =
      append_entry_locked ?e s\<lparr>ss_labels := ls, ss_label_timestamps := ts\<rparr>"
    using assms(2) by (simp add: set_label_def truthy_label_def)
  moreover have "en_parent ?e = ss_leaf s" by (simp add: new_entry_def Let_def)
  ultimately show ?thesis unfolding appended_def
    by (intro conjI exI [of _ ls] exI [of _ ts] exI [of _ "Inr x"]) simp_all
qed

lemma branch_summary_appended:
  assumes "branch_with_summary ser env l sm dt fh u s d = (s', d', Inr x)"
  shows "\<exists>b. appended ser l (new_entry env (s\<lparr>ss_leaf := l\<rparr>) l (\<lambda>_. BranchSummaryE b)) (s\<lparr>ss_leaf := l\<rparr>) d s' d' True \<and>
    x = en_id (new_entry env (s\<lparr>ss_leaf := l\<rparr>) l (\<lambda>_. BranchSummaryE b)) \<and> bb_summary b = sm"
proof -
  let ?b = "\<lparr>bb_summary = sm, bb_from_id = Some (case ss_leaf s of Some l \<Rightarrow> l | None \<Rightarrow> lit ''root''), bb_details = dt, bb_usage = u, bb_from_hook = fh\<rparr>"
  have "append_body ser env (\<lambda>_. BranchSummaryE ?b) (s\<lparr>ss_leaf := l\<rparr>) d = (s', d', Inr x)"
    using assms by (auto simp: branch_with_summary_def Let_def split: option.splits if_splits)
  then have "ended (append_body ser env (\<lambda>_. BranchSummaryE ?b) (s\<lparr>ss_leaf := l\<rparr>) d) = (s', d', True)"
    "x = en_id (new_entry env (s\<lparr>ss_leaf := l\<rparr>) l (\<lambda>_. BranchSummaryE ?b))"
    using commit_same_tree [of ser "new_entry env (s\<lparr>ss_leaf := l\<rparr>) l (\<lambda>_. BranchSummaryE ?b)" _ d s' d' "Inr x"]
    by (simp_all add: ended_def append_body_def Let_def)
  with append_body_appended [OF this(1)] show ?thesis by (intro exI [of _ ?b]) simp
qed

text \<open>A step that has added \<open>new\<close> at the end of the path.\<close>

definition extends_path :: "recovery_host \<Rightarrow> recovery \<Rightarrow> entry list \<Rightarrow> recovery \<Rightarrow> entry list \<Rightarrow> bool" where
  "extends_path h s path s' new \<longleftrightarrow> recovery_ok h s' \<and> get_entries (rv_session s') = get_entries (rv_session s) @ new \<and>
     get_branch (rv_session s') None = Some (path @ new) \<and> list_all (\<lambda>e. navigation_body (en_body e)) new"

lemma attach_label_extends:
  assumes fresh: "fresh_draws h" and ok: "recovery_ok h s" and path: "get_branch (rv_session s) None = Some path"
    and run: "attach_label h i label s = Some (Inr x, s')"
  shows "\<exists>new. extends_path h s path s' new \<and> length new \<le> 1"
proof (cases "truthy_text label")
  case None
  with run ok path show ?thesis by (intro exI [of _ "[]"]) (simp add: attach_label_def ret_def extends_path_def)
next
  case (Some l)
  let ?e = "new_entry (current_env h s) (rv_session s) (ss_leaf (rv_session s)) (\<lambda>_. LabelE i (Some l))"
  from run Some obtain ss d y where app: "append_label_change (rh_ser h) (current_env h s) i (Some l) (rv_session s) (rv_disk s) = (ss, d, Inr y)"
    and s': "s' = s\<lparr>rv_session := ss, rv_disk := d, rv_step := rv_step s + 1\<rparr>"
    by (auto simp: attach_label_def and_then_def append_with_def ret_def split: prod.splits sum.splits)
  from Some have "l \<noteq> []" by (auto simp: truthy_text_def split: if_splits)
  note ap = append_label_appended [OF app this]
  have run: "run_op (rh_ser h) (current_env h s) (AppendLabel i (Some l)) (rv_session s, rv_disk s) = Some (ss, d, True)"
    by (simp add: app ended_def)
  have ok': "recovery_ok h s'"
    unfolding s' by (rule appended_step [OF fresh ok run, of "ss_leaf (rv_session s)" "rv_session s" "\<lambda>_. LabelE i (Some l)"]) (simp add: ap)
  have sess: "session_ok (rv_session s)" "session_ok ss" using ok ok' by (simp_all add: recovery_ok_def s')
  from grown_path [OF sess] path ap at_path_leaf [OF sess(1), of path]
  have "get_entries ss = get_entries (rv_session s) @ [?e]" "get_branch ss None = Some (path @ [?e])" by simp_all
  moreover have "navigation_body (en_body ?e)" by (simp add: new_entry_def Let_def navigation_body_def)
  ultimately show ?thesis using ok' by (intro exI [of _ "[?e]"]) (simp add: extends_path_def s')
qed

lemma extends_trans:
  "extends_path h s p s1 xs \<Longrightarrow> extends_path h s1 (p @ xs) s2 ys \<Longrightarrow> extends_path h s p s2 (xs @ ys)"
  by (simp add: extends_path_def)

lemma switch_leaf_extends:
  assumes fresh: "fresh_draws h" and ok: "recovery_ok h s" and path: "at_path (rv_session s) l path"
    and run: "switch_leaf h i l summary details usage from_extension label s = Some (Inr x, s')"
  shows "\<exists>new. extends_path h s path s' new \<and> length new \<le> 2 \<and> (\<forall>e. x = Some e \<longrightarrow> new \<noteq> [] \<and> hd new = e) \<and>
    (x = None \<longleftrightarrow> truthy_text summary = None)"
proof (cases "truthy_text summary")
  case None
  have ok1: "session_ok (rv_session s)" using ok by (simp add: recovery_ok_def)
  from at_path_moved [OF this path] have m: "session_ok ((rv_session s)\<lparr>ss_leaf := l\<rparr>)" "get_branch ((rv_session s)\<lparr>ss_leaf := l\<rparr>) None = Some path" by auto
  let ?s1 = "s\<lparr>rv_session := (rv_session s)\<lparr>ss_leaf := l\<rparr>\<rparr>"
  from run None have lab: "attach_label h i label ?s1 = Some (Inr (), s')" and x: "x = None"
    by (auto simp: switch_leaf_def and_then_def change_session_def reset_leaf_def branch_def ret_def split: option.splits sum.splits if_splits)
  have "recovery_ok h ?s1" using ok m(1) by (simp add: recovery_ok_def)
  from attach_label_extends [OF fresh this _ lab, of path] m(2) obtain new where "extends_path h ?s1 path s' new" "length new \<le> 1" by auto
  then show ?thesis using x None by (intro exI [of _ new]) (simp add: extends_path_def)
next
  case (Some t)
  from run Some obtain ss d y where app: "branch_with_summary (rh_ser h) (current_env h s) l t details (Some from_extension) usage (rv_session s) (rv_disk s) = (ss, d, Inr y)"
    and lab: "attach_label h y label (s\<lparr>rv_session := ss, rv_disk := d, rv_step := rv_step s + 1\<rparr>) = Some (Inr (), s')"
    and x: "x = get_entry ss y"
    by (auto simp: switch_leaf_def and_then_def append_with_def ret_def split: prod.splits sum.splits option.splits)
  let ?s1 = "s\<lparr>rv_session := ss, rv_disk := d, rv_step := rv_step s + 1\<rparr>"
  from branch_summary_appended [OF app] obtain b where
    ap: "appended (rh_ser h) l (new_entry (current_env h s) ((rv_session s)\<lparr>ss_leaf := l\<rparr>) l (\<lambda>_. BranchSummaryE b)) ((rv_session s)\<lparr>ss_leaf := l\<rparr>) (rv_disk s) ss d True"
    and y: "y = en_id (new_entry (current_env h s) ((rv_session s)\<lparr>ss_leaf := l\<rparr>) l (\<lambda>_. BranchSummaryE b))"
    by blast
  let ?e = "new_entry (current_env h s) ((rv_session s)\<lparr>ss_leaf := l\<rparr>) l (\<lambda>_. BranchSummaryE b)"
  have op: "run_op (rh_ser h) (current_env h s) (BranchWithSummary l t details (Some from_extension) usage) (rv_session s, rv_disk s) = Some (ss, d, True)"
    by (simp add: app ended_def)
  have ok1: "recovery_ok h ?s1" by (rule appended_step [OF fresh ok op ap])
  have sess: "session_ok (rv_session s)" "session_ok ss" using ok ok1 by (simp_all add: recovery_ok_def)
  note g = grown_path [OF sess path ap]
  have "navigation_body (en_body ?e)" by (simp add: new_entry_def Let_def navigation_body_def)
  with g ok1 have ext: "extends_path h s path ?s1 [?e]" by (simp add: extends_path_def)
  from attach_label_extends [OF fresh ok1 _ lab, of "path @ [?e]"] g(2) obtain new where
    new: "extends_path h ?s1 (path @ [?e]) s' new" "length new \<le> 1" by auto
  have "dict_get (ss_by_id ss) (en_id ?e) = Some ?e" using appended_entries(4) [OF ap] by (simp add: dict_simps)
  then have "x = Some ?e" using x y by (simp add: get_entry_def)
  with extends_trans [OF ext new(1)] new(2) Some show ?thesis by (intro exI [of _ "[?e] @ new"]) simp
qed

lemma target_path:
  assumes ok: "session_ok s" and e: "get_entry s i = Some e" and to: "navigation_target e = Inr (l, t)"
  shows "\<exists>path. at_path s l path"
proof -
  from by_id_Some [OF ok, of i e] e have mem: "e \<in> set (get_entries s)" by (simp add: get_entry_def)
  have "l = None \<or> (\<exists>p. l = Some p \<and> p \<in> ids_of (get_entries s))"
  proof -
    have "en_parent e = None \<or> (\<exists>p. en_parent e = Some p \<and> p \<in> ids_of (get_entries s))"
      using tree_ok_parent [OF session_tree [OF ok] mem] by (cases "en_parent e") auto
    with to mem show ?thesis
      by (auto simp: navigation_target_def split: entry_body.splits raw_message.splits message.splits option.splits)
  qed
  then show ?thesis using get_branch_returns [OF ok] by (auto simp: at_path_def split: option.splits)
qed

lemma refresh_messages:
  "refresh_finalized_context h s = Some (Inr x, s') \<Longrightarrow> rv_session s' = rv_session s \<and> rv_step s' = rv_step s \<and>
    map_option sp_messages (session_projection_of (current_env h s') (rv_session s')) = Some (map snd (rv_messages s'))"
  by (auto simp: refresh_finalized_context_def and_then_def current_projection_def current_env_def comp_def case_prod_unfold
    simp flip: snd_def split: option.splits)


definition example_navigation :: navigation_host where
  "example_navigation = \<lparr>nh_session = example_host, nh_streaming = (\<lambda>_. False), nh_compacting = (\<lambda>_. False),
     nh_before_tree = None, nh_service = Inl [], nh_reserve_tokens = 0\<rparr>"

definition example_options :: navigate_options where
  "example_options = \<lparr>opt_summarize = False, opt_custom = None, opt_replace = None, opt_label = None\<rparr>"


end
