(* ===== verification/System_Prompt.thy ===== *)
theory System_Prompt
  imports Transcript
begin

section \<open>The system prompt and its sections (core/system_prompt.py)\<close>

text \<open>
  The prompt is a dict of ordered sections, built from the tools, the user's configuration and the
  resources of the project; a change of the prompt goes to the transcript as a patch of sections.
  The paths of the documentation are parameters. The laws: the patch is the delta of a
  \<open>delta_log\<close>, and what the model replays is what was built.
\<close>

subsection \<open>Inputs\<close>

record context_file =
  cf_path :: pystr
  cf_content :: pystr

record skill =
  sk_name :: pystr
  sk_description :: pystr
  sk_file_path :: pystr
  sk_disable_model_invocation :: bool

record prompt_options =
  po_cwd :: pystr
  po_custom_prompt :: "pystr option"
  po_force_system_prompt :: "pystr option"
  po_selected_tools :: "pystr list option"
  po_hidden_tools :: "pystr list option"
  po_tool_snippets :: "(pystr, pystr) dict option"
  po_tool_guidelines :: "(pystr, pystr list) dict option"
  po_prompt_guidelines :: "pystr list option"
  po_append_system_prompt :: "pystr option"
  po_sections :: "(pystr, pystr) dict option"
  po_context_files :: "context_file list"
  po_skills :: "skill list"

record doc_paths =
  dp_readme :: pystr
  dp_docs :: pystr
  dp_examples :: pystr

type_synonym prompt_sections = "(pystr, pystr) dict"

text \<open>The default of \<open>selected_tools\<close>.\<close>

definition standard_tools :: "pystr list" where
  "standard_tools = [lit ''read'', lit ''bash'', lit ''edit'', lit ''write'']"

definition normalize_build_system_prompt_options :: "prompt_options \<Rightarrow> prompt_options" where
  "normalize_build_system_prompt_options input =
    \<lparr>po_cwd = po_cwd input, po_custom_prompt = po_custom_prompt input,
     po_force_system_prompt = po_force_system_prompt input,
     po_selected_tools = Some (case po_selected_tools input of Some ts \<Rightarrow> ts | None \<Rightarrow> standard_tools),
     po_hidden_tools = Some (or_empty (po_hidden_tools input)),
     po_tool_snippets = Some (or_empty (po_tool_snippets input)),
     po_tool_guidelines = Some (or_empty (po_tool_guidelines input)),
     po_prompt_guidelines = Some (or_empty (po_prompt_guidelines input)),
     po_append_system_prompt = Some (or_empty (po_append_system_prompt input)),
     po_sections = Some (or_empty (po_sections input)),
     po_context_files = po_context_files input, po_skills = po_skills input\<rparr>"

subsection \<open>Skills (core/skills.py)\<close>

definition replace_char :: "nat \<Rightarrow> pystr \<Rightarrow> pystr \<Rightarrow> pystr" where
  "replace_char c by s = concat (map (\<lambda>x. if x = c then by else [x]) s)"

definition escape_xml :: "pystr \<Rightarrow> pystr" where
  "escape_xml value =
    replace_char 39 (lit ''&apos;'') (replace_char 34 (lit ''&quot;'') (replace_char 62 (lit ''&gt;'')
      (replace_char 60 (lit ''&lt;'') (replace_char 38 (lit ''&amp;'') value))))"

definition skill_lines :: "skill \<Rightarrow> pystr list" where
  "skill_lines s =
    [lit ''  <skill>'',
     lit ''    <name>'' @ escape_xml (sk_name s) @ lit ''</name>'',
     lit ''    <description>'' @ escape_xml (sk_description s) @ lit ''</description>'',
     lit ''    <location>'' @ escape_xml (sk_file_path s) @ lit ''</location>'',
     lit ''  </skill>'']"

definition load_hint :: "pystr \<Rightarrow> pystr" where
  "load_hint file_read_tool =
    (let task = lit '' a skill'' @ [39] @ lit ''s file when the task matches its description.''
     in if file_read_tool = lit ''read'' then lit ''Use the read tool to load'' @ task
        else if file_read_tool = lit ''bash'' then lit ''Use bash to load'' @ task
        else lit ''Load'' @ task)"

definition format_skills_for_prompt :: "skill list \<Rightarrow> pystr \<Rightarrow> pystr" where
  "format_skills_for_prompt skills file_read_tool =
    (let visible_skills = filter (\<lambda>s. \<not> sk_disable_model_invocation s) skills
     in if visible_skills = [] then []
        else str_join [NL]
          ([[NL, NL] @ lit ''The following skills provide specialized instructions for specific tasks.'',
            load_hint file_read_tool,
            lit ''When a skill file references a relative path, resolve it against the skill directory '' @
              lit ''(parent of SKILL.md / dirname of the path) and use that absolute path in tool commands.'',
            [], lit ''<available_skills>''] @
           concat (map skill_lines visible_skills) @ [lit ''</available_skills>'']))"

subsection \<open>Sections\<close>

definition render_project_context :: "context_file list \<Rightarrow> pystr" where
  "render_project_context context_files =
    str_join [NL, NL] (lit ''Project-specific instructions and guidelines:'' #
      map (\<lambda>f. lit ''<project_instructions path='' @ [34] @ cf_path f @ [34] @ lit ''>'' @ [NL] @ cf_content f @ [NL] @
        lit ''</project_instructions>'') context_files)"

definition add_rule :: "pystr \<Rightarrow> pystr list \<Rightarrow> pystr list" where
  "add_rule rule rules =
    (let normalized = py_strip rule in if normalized = [] \<or> normalized \<in> set rules then rules else rules @ [normalized])"

definition all_rules :: "pystr list \<Rightarrow> (pystr, pystr list) dict \<Rightarrow> pystr list \<Rightarrow> pystr list" where
  "all_rules selected_tools tool_guidelines prompt_guidelines =
    (if lit ''bash'' \<in> set selected_tools \<and> lit ''grep'' \<notin> set selected_tools \<and> lit ''find'' \<notin> set selected_tools \<and>
        lit ''ls'' \<notin> set selected_tools
     then [lit ''Use bash for file operations like ls, rg, find''] else []) @
    concat (map (\<lambda>name. or_empty (dict_get tool_guidelines name)) selected_tools) @ prompt_guidelines @
    [lit ''Be concise in your responses'', lit ''Show file paths clearly when working with files'']"

definition build_rules :: "pystr list \<Rightarrow> (pystr, pystr list) dict \<Rightarrow> pystr list \<Rightarrow> pystr" where
  "build_rules selected_tools tool_guidelines prompt_guidelines =
    str_join [NL] (map (\<lambda>rule. lit ''- '' @ rule)
      (fold add_rule (all_rules selected_tools tool_guidelines prompt_guidelines) []))"

text \<open>
  \<open>^[a-z][a-z0-9_-]*$\<close>: the dollar also matches before a line break at the end, so such a name passes.
\<close>

definition name_first :: "nat \<Rightarrow> bool" where
  "name_first c \<longleftrightarrow> 97 \<le> c \<and> c \<le> 122"

definition name_rest :: "nat \<Rightarrow> bool" where
  "name_rest c \<longleftrightarrow> name_first c \<or> 48 \<le> c \<and> c \<le> 57 \<or> c = 95 \<or> c = 45"

definition section_name_matches :: "pystr \<Rightarrow> bool" where
  "section_name_matches name =
    (case name of [] \<Rightarrow> False
     | c # cs \<Rightarrow> name_first c \<and>
         (list_all name_rest cs \<or> cs \<noteq> [] \<and> last cs = NL \<and> list_all name_rest (butlast cs)))"

definition harness_preamble :: pystr where
  "harness_preamble =
    lit ''You are an expert coding assistant operating inside pidrei, a coding agent harness. '' @
    lit ''You help users by reading files, executing commands, editing code, and writing new files.''"

definition tools_section :: "pystr list \<Rightarrow> (pystr, pystr) dict \<Rightarrow> pystr" where
  "tools_section declared_tools tool_snippets =
    (let visible_tools = filter (\<lambda>name. or_empty (dict_get tool_snippets name) \<noteq> []) declared_tools;
         tools = (if visible_tools = [] then lit ''(none)''
           else str_join [NL] (map (\<lambda>name. lit ''- '' @ name @ lit '': '' @ or_empty (dict_get tool_snippets name)) visible_tools))
     in tools @ [NL, NL] @
        lit ''In addition to the tools above, you may have access to other custom tools depending on the project.'')"

definition docs_section :: "doc_paths \<Rightarrow> pystr" where
  "docs_section p = str_join [NL]
    [lit ''PiDrei documentation (read only when the user asks about pidrei itself, its SDK, extensions, themes, skills, or TUI):'',
     lit ''- Main documentation: '' @ dp_readme p,
     lit ''- Additional docs: '' @ dp_docs p,
     lit ''- Examples: '' @ dp_examples p @ lit '' (extensions, custom tools, SDK)'',
     lit ''- When reading pidrei docs or examples, resolve docs/... under Additional docs and examples/... under Examples, not the current working directory'',
     lit ''- When asked about: extensions (docs/extensions.md, examples/extensions/), themes (docs/themes.md), skills (docs/skills.md), prompt templates (docs/prompt-templates.md), TUI components (docs/tui.md), keybindings (docs/keybindings.md), SDK integrations (docs/sdk.md), custom providers (docs/custom-provider.md), adding models (docs/models.md), pidrei packages (docs/packages.md), environment variables (docs/environment-variables.md), MCP servers (docs/mcp.md), codemode scripts and non-LLM models such as classifiers and image models (docs/codemode.md)'',
     lit ''- When working on pidrei topics, read the docs and examples, and follow .md cross-references before implementing'',
     lit ''- Always read pidrei .md files completely and follow links to related docs (e.g., tui.md for TUI API details)'']"

definition skill_reader :: "pystr list \<Rightarrow> pystr list \<Rightarrow> pystr option" where
  "skill_reader declared_tools selected_tools =
    (let readers = [lit ''read'', lit ''bash'']
     in case find (\<lambda>tool. tool \<in> set declared_tools) readers of
          Some tool \<Rightarrow> Some tool
        | None \<Rightarrow> if list_ex (\<lambda>tool. tool \<in> set selected_tools) readers then Some (lit ''indirect'') else None)"

definition skills_section :: "prompt_options \<Rightarrow> pystr list \<Rightarrow> pystr list \<Rightarrow> pystr" where
  "skills_section opts declared_tools selected_tools =
    (case skill_reader declared_tools selected_tools of
       None \<Rightarrow> []
     | Some reader \<Rightarrow> if po_skills opts = [] then [] else py_strip (format_skills_for_prompt (po_skills opts) reader))"

text \<open>The sections before they are wrapped; an empty one is not stored.\<close>

definition put_section :: "pystr \<Rightarrow> pystr \<Rightarrow> prompt_sections \<Rightarrow> prompt_sections" where
  "put_section name content d = (if content = [] then d else dict_set name content d)"

definition first_sections :: "doc_paths \<Rightarrow> prompt_options \<Rightarrow> pystr list \<Rightarrow> prompt_sections" where
  "first_sections p opts declared_tools =
    (if or_empty (po_custom_prompt opts) \<noteq> [] then [(lit ''preamble'', or_empty (po_custom_prompt opts))]
     else [(lit ''preamble'', harness_preamble),
           (lit ''tools'', tools_section declared_tools (or_empty (po_tool_snippets opts))),
           (lit ''rules'', build_rules declared_tools (or_empty (po_tool_guidelines opts)) (or_empty (po_prompt_guidelines opts))),
           (lit ''docs'', docs_section p)])"

definition wrap_section :: "pystr \<times> pystr \<Rightarrow> pystr \<times> pystr" where
  "wrap_section nc = (case nc of (name, content) \<Rightarrow>
     (name, if name = lit ''preamble'' then content
            else lit ''<'' @ name @ lit ''>'' @ [NL] @ content @ [NL] @ lit ''</'' @ name @ lit ''>''))"

definition build_system_prompt_sections :: "doc_paths \<Rightarrow> prompt_options \<Rightarrow> prompt_sections result" where
  "build_system_prompt_sections p input =
    (let opts = normalize_build_system_prompt_options input;
         selected_tools = or_empty (po_selected_tools opts);
         custom_sections = or_empty (po_sections opts)
     in case find (\<lambda>nc. \<not> section_name_matches (fst nc) \<or> fst nc = lit ''preamble'') custom_sections of
          Some nc \<Rightarrow> Inl (lit ''Invalid system prompt section name: '' @ fst nc)
        | None \<Rightarrow>
            (let declared_tools = filter (\<lambda>name. name \<notin> set (or_empty (po_hidden_tools opts))) selected_tools;
                 d1 = put_section (lit ''addendum'') (or_empty (po_append_system_prompt opts)) (first_sections p opts declared_tools);
                 d2 = (if po_context_files opts = [] then d1
                       else dict_set (lit ''project_context'') (render_project_context (po_context_files opts)) d1);
                 d3 = put_section (lit ''skills'') (skills_section opts declared_tools selected_tools) d2;
                 d4 = dict_set (lit ''cwd'') (po_cwd opts) d3
             in Inr (map wrap_section (fold (\<lambda>(name, content). put_section name content) custom_sections d4))))"

subsection \<open>The prompt\<close>

definition build_system_prompt_state :: "doc_paths \<Rightarrow> prompt_options \<Rightarrow> (pystr \<times> prompt_sections option) result" where
  "build_system_prompt_state p input =
    (case po_force_system_prompt input of
       Some forced \<Rightarrow> Inr (forced, None)
     | None \<Rightarrow> map_sum id (\<lambda>sections. ([], Some sections)) (build_system_prompt_sections p input))"

definition state_message :: "int \<Rightarrow> pystr \<times> prompt_sections option \<Rightarrow> system_message" where
  "state_message now st =
    \<lparr>sm_content = StrContent (fst st), sm_timestamp = now,
     sm_sections = map_option (map (\<lambda>(k, v). (k, Some v))) (snd st), sm_tools_added = None, sm_tools_removed = None\<rparr>"

definition build_system_prompt :: "doc_paths \<Rightarrow> prompt_options \<Rightarrow> pystr result" where
  "build_system_prompt p input =
    map_sum id (\<lambda>st. get_system_message_text (state_message 0 st)) (build_system_prompt_state p input)"

type_synonym section_patch = "(pystr, pystr option) dict"

definition diff_system_prompt_sections :: "section_patch \<Rightarrow> prompt_sections \<Rightarrow> section_patch option" where
  "diff_system_prompt_sections previous current =
    (let changed = filter (\<lambda>(name, text). dict_get previous name \<noteq> Some (Some text)) current;
         removed = filter (\<lambda>name. dict_get current name = None) (map fst previous)
     in non_empty (fold (\<lambda>name. dict_set name None) removed (fold (\<lambda>(name, text). dict_set name (Some text)) changed [])))"

text \<open>The sections the model has: those of the replayed system message.\<close>

definition current_sections :: "message list \<Rightarrow> section_patch" where
  "current_sections messages = (case get_current_system_message messages of None \<Rightarrow> [] | Some m \<Rightarrow> sections_of m)"

definition prompt_update :: "int \<Rightarrow> message list \<Rightarrow> prompt_sections \<Rightarrow> system_message option" where
  "prompt_update now messages sections =
    map_option (\<lambda>patch. \<lparr>sm_content = StrContent [], sm_timestamp = now, sm_sections = Some patch,
        sm_tools_added = None, sm_tools_removed = None\<rparr>)
      (diff_system_prompt_sections (current_sections messages) sections)"

subsection \<open>Patches are deltas\<close>

definition all_set :: "prompt_sections \<Rightarrow> section_patch" where
  "all_set d = map (\<lambda>(k, v). (k, Some v)) d"

definition same_sections :: "prompt_sections \<Rightarrow> prompt_sections \<Rightarrow> bool" where
  "same_sections d e \<longleftrightarrow> (\<forall>n. dict_get d n = dict_get e n)"

lemma get_all_set [simp]: "dict_get (all_set d) n = map_option Some (dict_get d n)"
  by (induction d) (auto simp: all_set_def)

lemma fst_all_set [simp]: "map fst (all_set d) = map fst d"
  by (induction d) (auto simp: all_set_def)

lemma dict_ok_Cons: "dict_ok ((k, v) # d) \<longleftrightarrow> dict_get d k = None \<and> dict_ok d"
  by (simp add: dict_ok_def map_of_eq_None_iff)

lemma get_fold_texts:
  "dict_ok kvs \<Longrightarrow> dict_get (fold (\<lambda>(n, t). dict_set n (f t)) kvs d) n =
    (case dict_get kvs n of Some t \<Rightarrow> Some (f t) | None \<Rightarrow> dict_get d n)"
proof (induction kvs arbitrary: d)
  case Nil
  then show ?case by simp
next
  case (Cons kv kvs)
  obtain k v where kv: "kv = (k, v)" by force
  with Cons.prems have ok: "dict_ok kvs" "dict_get kvs k = None" by (simp_all add: dict_ok_Cons)
  show ?case using Cons.IH [OF ok(1)] ok(2) by (cases "n = k") (simp_all add: kv dict_get_set split: option.split)
qed

lemma get_fold_none: "dict_get (fold (\<lambda>n. dict_set n None) ns d) n = (if n \<in> set ns then Some None else dict_get d n)"
  by (induction ns arbitrary: d) (simp_all add: dict_get_set)

lemma dict_ok_fold_set: "dict_ok d \<Longrightarrow> dict_ok (fold (\<lambda>(n, t). dict_set n (f t)) kvs d)"
  by (induction kvs arbitrary: d) auto

lemma dict_ok_fold_none: "dict_ok d \<Longrightarrow> dict_ok (fold (\<lambda>n. dict_set n None) ns d)"
  by (induction ns arbitrary: d) auto

lemma get_apply_sections:
  "dict_ok patch \<Longrightarrow> dict_get (fold apply_section patch d) n =
    (case dict_get patch n of Some (Some t) \<Rightarrow> Some t | Some None \<Rightarrow> None | None \<Rightarrow> dict_get d n)"
proof (induction patch arbitrary: d)
  case Nil
  then show ?case by simp
next
  case (Cons kv patch)
  obtain k v where kv: "kv = (k, v)" by force
  with Cons.prems have ok: "dict_ok patch" "dict_get patch k = None" by (simp_all add: dict_ok_Cons)
  show ?case using Cons.IH [OF ok(1)] ok(2) by (cases v; cases "n = k") (simp_all add: kv dict_get_set dict_get_pop split: option.split)
qed

lemma diff_patch:
  assumes "dict_ok s" "dict_ok t"
  shows "dict_ok (or_empty (diff_system_prompt_sections (all_set s) t))"
    and "dict_get (or_empty (diff_system_prompt_sections (all_set s) t)) n =
      (case dict_get t n of
         Some x \<Rightarrow> if dict_get s n = Some x then None else Some (Some x)
       | None \<Rightarrow> if dict_get s n = None then None else Some None)"
proof -
  let ?changed = "filter (\<lambda>(name, text). dict_get (all_set s) name \<noteq> Some (Some text)) t"
  let ?removed = "filter (\<lambda>name. dict_get t name = None) (map fst (all_set s))"
  let ?patch = "fold (\<lambda>name. dict_set name None) ?removed (fold (\<lambda>(name, text). dict_set name (Some text)) ?changed [])"
  have patch: "or_empty (diff_system_prompt_sections (all_set s) t) = ?patch"
    by (simp add: diff_system_prompt_sections_def Let_def del: fst_all_set get_all_set)
  show "dict_ok (or_empty (diff_system_prompt_sections (all_set s) t))"
    unfolding patch by (intro dict_ok_fold_none dict_ok_fold_set) simp
  have ok: "dict_ok ?changed" using assms(2) by (simp add: dict_ok_def distinct_map_filter)
  have get: "dict_get ?changed n = (case dict_get t n of Some x \<Rightarrow> if dict_get s n = Some x then None else Some x | None \<Rightarrow> None)"
    using assms(2) by (induction t) (auto simp: dict_ok_Cons split: option.splits)
  have removed: "n \<in> set ?removed \<longleftrightarrow> dict_get t n = None \<and> dict_get s n \<noteq> None"
    by (auto simp: map_of_eq_None_iff)
  show "dict_get (or_empty (diff_system_prompt_sections (all_set s) t)) n =
      (case dict_get t n of
         Some x \<Rightarrow> if dict_get s n = Some x then None else Some (Some x)
       | None \<Rightarrow> if dict_get s n = None then None else Some None)"
    unfolding patch get_fold_none removed get_fold_texts [OF ok] get by (auto split: option.splits)
qed

interpretation section_log: delta_log "fold apply_section" "\<lambda>s t. or_empty (diff_system_prompt_sections (all_set s) t)"
  dict_ok same_sections "\<lambda>patch. patch = []"
proof
  show "dict_ok s \<Longrightarrow> dict_ok (fold apply_section patch s)" for patch s by (rule sections_ok)
  show "same_sections s t \<Longrightarrow> same_sections t u \<Longrightarrow> same_sections s u" for s t u by (simp add: same_sections_def)
  fix s t :: prompt_sections
  assume ok: "dict_ok s" "dict_ok t"
  show "same_sections (fold apply_section (or_empty (diff_system_prompt_sections (all_set s) t)) s) t"
    by (auto simp: same_sections_def get_apply_sections [OF diff_patch(1) [OF ok]] diff_patch(2) [OF ok] split: option.splits)
  show "or_empty (diff_system_prompt_sections (all_set s) t) = [] \<longleftrightarrow> same_sections s t"
  proof
    assume "or_empty (diff_system_prompt_sections (all_set s) t) = []"
    then have none: "dict_get (or_empty (diff_system_prompt_sections (all_set s) t)) n = None" for n by simp
    have "dict_get s n = dict_get t n" for n
      using none [of n] unfolding diff_patch(2) [OF ok]
      by (cases "dict_get s n"; cases "dict_get t n") (simp_all split: if_splits)
    then show "same_sections s t" by (simp add: same_sections_def)
  next
    assume "same_sections s t"
    then have "dict_get (or_empty (diff_system_prompt_sections (all_set s) t)) n = None" for n
      unfolding diff_patch(2) [OF ok] by (auto simp: same_sections_def split: option.splits)
    then show "or_empty (diff_system_prompt_sections (all_set s) t) = []"
      by (metis map_of_eq_empty_iff ext)
  qed
qed

subsection \<open>What the model replays\<close>

definition replayed_sections :: "message list \<Rightarrow> prompt_sections" where
  "replayed_sections ms = fst (snd (fold apply_prompt (system_messages ms) ([], [], None)))"

lemma replay_parts:
  obtains c t where "fold apply_prompt (system_messages ms) ([], [], None) = (c, replayed_sections ms, t)"
    "t = None \<longleftrightarrow> system_messages ms = []" "dict_ok (replayed_sections ms)" "system_messages ms = [] \<Longrightarrow> replayed_sections ms = []"
proof -
  obtain c d t where st: "fold apply_prompt (system_messages ms) ([], [], None) = (c, d, t)" by (rule prod_cases3)
  then have "d = replayed_sections ms" by (simp add: replayed_sections_def)
  with prompt_state_ok [OF st] st that show ?thesis by auto
qed

lemma current_sections_replayed: "current_sections ms = all_set (replayed_sections ms)"
proof (rule replay_parts [of ms])
  fix c t
  assume st: "fold apply_prompt (system_messages ms) ([], [], None) = (c, replayed_sections ms, t)"
    and t: "t = None \<longleftrightarrow> system_messages ms = []" and none: "system_messages ms = [] \<Longrightarrow> replayed_sections ms = []"
  have "get_current_tools ms = []" if "system_messages ms = []" using that by (simp add: get_current_tools_def)
  with t none show ?thesis
    by (auto simp: current_sections_def get_current_system_message_def st Let_def sections_of_def all_set_def non_empty_def
      split: option.splits)
qed

lemma replayed_sections_ok: "dict_ok (replayed_sections ms)"
  by (rule replay_parts [of ms])

lemma replayed_sections_snoc:
  "replayed_sections (ms @ [SystemMsg m]) = fold apply_section (sections_of m) (replayed_sections ms)"
  by (simp add: replayed_sections_def apply_prompt_def case_prod_unfold Let_def)

lemma dict_ok_wrap: "dict_ok d \<Longrightarrow> dict_ok (map wrap_section d)"
  by (simp add: dict_ok_def comp_def wrap_section_def case_prod_unfold)

lemma dict_ok_put_section: "dict_ok d \<Longrightarrow> dict_ok (put_section n c d)"
  by (simp add: put_section_def)

lemma dict_ok_first_sections: "dict_ok (first_sections p opts declared)"
  by (simp add: first_sections_def dict_ok_def lit_def)

lemma built_sections_ok:
  assumes "build_system_prompt_sections p opts = Inr sections"
  shows "dict_ok sections"
proof -
  have custom: "dict_ok (fold (\<lambda>(name, content). put_section name content) cs d)" if "dict_ok d" for cs d
    using that by (induction cs arbitrary: d) (auto simp: dict_ok_put_section)
  with assms show ?thesis
    by (auto simp: build_system_prompt_sections_def Let_def split: option.splits
      intro!: dict_ok_wrap custom dict_ok_put_section dict_ok_set dict_ok_first_sections split: if_splits)
qed

text \<open>
  The transcript carries the prompt: the update for any transcript makes the model's sections those
  that were built, by name, and leaves its tools alone; and no update is made exactly when the model has
  these sections already.
\<close>

theorem update_reaches:
  assumes "build_system_prompt_sections p opts = Inr sections"
  shows "case prompt_update now ms sections of
      None \<Rightarrow> same_sections (replayed_sections ms) sections
    | Some m \<Rightarrow> \<not> same_sections (replayed_sections ms) sections \<and>
        same_sections (replayed_sections (ms @ [SystemMsg m])) sections \<and>
        get_current_tools (ms @ [SystemMsg m]) = get_current_tools ms"
proof -
  note ok = replayed_sections_ok [of ms] built_sections_ok [OF assms]
  let ?patch = "diff_system_prompt_sections (all_set (replayed_sections ms)) sections"
  show ?thesis
  proof (cases ?patch)
    case None
    with section_log.silent_iff [OF ok] show ?thesis by (simp add: prompt_update_def current_sections_replayed)
  next
    case (Some patch)
    then have "patch \<noteq> []" by (auto simp: diff_system_prompt_sections_def Let_def non_empty_def split: if_splits)
    with Some section_log.silent_iff [OF ok] section_log.apply_diff [OF ok] show ?thesis
      by (simp add: prompt_update_def current_sections_replayed replayed_sections_snoc sections_of_def
        get_current_tools_def apply_tool_changes_def)
  qed
qed

text \<open>The first prompt is rendered as it was built; a later one may have its sections in another order.\<close>

lemma all_set_Nil [simp]: "all_set d = [] \<longleftrightarrow> d = []"
  by (simp add: all_set_def)

lemma map_filter_all_set [simp]: "List.map_filter snd (all_set d) = map snd d"
  by (induction d) (auto simp: all_set_def List.map_filter_def)

theorem first_prompt_is_rendered_as_built:
  assumes "build_system_prompt_state p opts = Inr st" "build_system_prompt p opts = Inr t"
  shows "get_current_system_prompt [SystemMsg (state_message now st)] = t"
proof -
  have st: "dict_ok sections" if "snd st = Some sections" for sections
    using assms(1) that built_sections_ok
    by (auto simp: build_system_prompt_state_def map_sum_def split: option.splits sum.splits)
  have t: "t = get_system_message_text (state_message 0 st)"
    using assms by (simp add: build_system_prompt_def)
  have "get_current_system_message [SystemMsg (state_message now st)] =
      Some \<lparr>sm_content = StrContent (fst st), sm_timestamp = now, sm_sections = non_empty (all_set (or_empty (snd st))),
        sm_tools_added = None, sm_tools_removed = None\<rparr>"
    using st apply_all_sections [of "[]" "or_empty (snd st)"]
    by (cases "snd st") (auto simp: get_current_system_message_def apply_prompt_def state_message_def Let_def
      sections_of_def dict_ok_def all_set_def get_current_tools_def apply_tool_changes_def non_empty_def)
  then show ?thesis
    by (cases "snd st") (auto simp: t get_current_system_prompt_def get_system_message_text_def sections_of_def state_message_def
      non_empty_def all_set_def simp flip: all_set_def)
qed

definition example_prompt_options :: prompt_options where
  "example_prompt_options = \<lparr>po_cwd = lit ''/w'', po_custom_prompt = Some (lit ''Hi''), po_force_system_prompt = None,
     po_selected_tools = Some [], po_hidden_tools = None, po_tool_snippets = None, po_tool_guidelines = None,
     po_prompt_guidelines = None, po_append_system_prompt = None, po_sections = None, po_context_files = [], po_skills = []\<rparr>"

definition example_paths :: doc_paths where
  "example_paths = \<lparr>dp_readme = [], dp_docs = [], dp_examples = []\<rparr>"

theorem update_reaches_witness:
  "\<exists>m. prompt_update 0 [] [(lit ''preamble'', lit ''Hi''), wrap_section (lit ''cwd'', lit ''/w'')] = Some m \<and>
     same_sections (replayed_sections [SystemMsg m]) [(lit ''preamble'', lit ''Hi''), wrap_section (lit ''cwd'', lit ''/w'')]"
proof -
  let ?sections = "[(lit ''preamble'', lit ''Hi''), wrap_section (lit ''cwd'', lit ''/w'')]"
  have built: "build_system_prompt_sections example_paths example_prompt_options = Inr ?sections" by code_simp
  have "prompt_update 0 [] ?sections \<noteq> None" by code_simp
  with update_reaches [OF built, where now = 0 and ms = "[]"] show ?thesis by auto
qed

theorem first_prompt_is_rendered_as_built_witness:
  "\<exists>st t. build_system_prompt example_paths example_prompt_options = Inr t \<and>
     get_current_system_prompt [SystemMsg (state_message 7 st)] = t \<and> t \<noteq> []"
proof -
  have "case build_system_prompt_state example_paths example_prompt_options of Inr st \<Rightarrow> True | _ \<Rightarrow> False"
    "case build_system_prompt example_paths example_prompt_options of Inr t \<Rightarrow> t \<noteq> [] | _ \<Rightarrow> False" by code_simp+
  then obtain st t where "build_system_prompt_state example_paths example_prompt_options = Inr st"
    "build_system_prompt example_paths example_prompt_options = Inr t" "t \<noteq> []" by (auto split: sum.splits)
  with first_prompt_is_rendered_as_built show ?thesis by blast
qed

lemma patched_prompt_keeps_the_old_order:
  "let longer = example_prompt_options\<lparr>po_append_system_prompt := Some (lit ''More'')\<rparr>
   in case (build_system_prompt_state example_paths example_prompt_options, build_system_prompt_sections example_paths longer,
            build_system_prompt example_paths longer) of
        (Inr st, Inr sections, Inr t) \<Rightarrow>
          (case prompt_update 8 [SystemMsg (state_message 7 st)] sections of
             Some m \<Rightarrow> get_current_system_prompt [SystemMsg (state_message 7 st), SystemMsg m] \<noteq> t
           | None \<Rightarrow> False)
      | _ \<Rightarrow> False"
  by code_simp

end
