(* ===== verification/Tool_Loadout.thy ===== *)
theory Tool_Loadout
  imports System_Prompt
begin

section \<open>The tool loadout of a session (core/agent_session.py)\<close>

text \<open>
  Which tools are registered, which are active (declared to the model), and which wait for their
  registration. Names are filtered by \<open>--tools\<close> and \<open>--exclude-tools\<close>; an extension's tool has an
  exposure; a \<open>prepare_loadout\<close> hook may change descriptions and hide declarations. The loadout is
  restored from the transcript. Each operation holds the loadout guard and is one step. Tools are
  their declarations: running them belongs to the agent's tool calls.
\<close>

subsection \<open>Names and patterns\<close>

definition fromkeys :: "'a list \<Rightarrow> 'a list" where
  "fromkeys xs = fold (\<lambda>x seen. if x \<in> set seen then seen else seen @ [x]) xs []"

text \<open>\<open>_tool_pattern\<close>: a dot matches no line break, and the dollar matches before one at the end.\<close>

fun skip_then :: "(pystr \<Rightarrow> bool) \<Rightarrow> pystr \<Rightarrow> bool" where
  "skip_then f [] = f []"
| "skip_then f (c # cs) = (f (c # cs) \<or> c \<noteq> NL \<and> skip_then f cs)"

primrec match_parts :: "pystr list \<Rightarrow> pystr \<Rightarrow> bool" where
  "match_parts [] s = (s = [] \<or> s = [NL])"
| "match_parts (p # ps) s = skip_then (\<lambda>t. prefix p t \<and> match_parts ps (drop (length p) t)) s"

definition tool_pattern :: "pystr \<Rightarrow> pystr \<Rightarrow> bool" where
  "tool_pattern pattern name =
    (case split_on 42 pattern of
       [] \<Rightarrow> False
     | p # ps \<Rightarrow> prefix p name \<and> match_parts ps (drop (length p) name))"

definition create_tool_name_matcher :: "pystr list \<Rightarrow> pystr \<Rightarrow> bool" where
  "create_tool_name_matcher entries name =
    (name \<in> set (filter (\<lambda>e. 42 \<notin> set e) entries) \<or>
     list_ex (\<lambda>pattern. tool_pattern pattern name) (filter (\<lambda>e. 42 \<in> set e) entries))"

definition MCP_RESOURCE_TOOLS :: "pystr list" where
  "MCP_RESOURCE_TOOLS = [lit ''list_mcp_resources'', lit ''list_mcp_resource_templates'', lit ''read_mcp_resource'']"

definition is_mcp_tool_name :: "pystr \<Rightarrow> bool" where
  "is_mcp_tool_name name \<longleftrightarrow> prefix (lit ''mcp__'') name \<or> name \<in> set MCP_RESOURCE_TOOLS"

subsection \<open>Selections (core/settings_manager.py, core/sdk.py)\<close>

definition DEFAULT_TOOL_NAMES :: "pystr list" where
  "DEFAULT_TOOL_NAMES = [lit ''read'', lit ''bash'', lit ''edit'', lit ''write'']"

definition is_tool_modifier :: "pystr \<Rightarrow> bool" where
  "is_tool_modifier entry \<longleftrightarrow> entry \<noteq> [] \<and> (hd entry = 43 \<or> hd entry = 45)"

definition get_tool_list_error :: "pystr list \<Rightarrow> pystr option" where
  "get_tool_list_error entries =
    (let modifiers = filter is_tool_modifier entries
     in if modifiers = [] then None
        else if length modifiers < length entries then Some (lit ''tool names cannot be mixed with +name or -name entries'')
        else map_option (\<lambda>pattern. lit ''+name and -name entries take exact tool names, not patterns: '' @ pattern)
          (find (\<lambda>entry. 42 \<in> set entry) modifiers))"

definition apply_modifier :: "pystr \<Rightarrow> pystr list \<Rightarrow> pystr list" where
  "apply_modifier entry tools =
    (if \<not> is_tool_modifier entry then tools
     else let name = tl entry
       in if hd entry = 43 \<and> name \<noteq> [] \<and> name \<notin> set tools then tools @ [name]
          else if hd entry = 45 \<and> name \<in> set tools then remove1 name tools
          else tools)"

definition apply_tool_modifiers :: "pystr list \<Rightarrow> pystr list \<Rightarrow> pystr list" where
  "apply_tool_modifiers base entries = fold apply_modifier entries base"

fun is_modifier_json :: "json \<Rightarrow> bool" where
  "is_modifier_json (JStr entry) = is_tool_modifier entry"
| "is_modifier_json _ = False"

definition merge_default_tools :: "json option \<Rightarrow> json \<Rightarrow> json" where
  "merge_default_tools base overrides =
    (case (base, overrides) of
       (Some (JArr xs), JArr ys) \<Rightarrow> if list_all is_modifier_json ys then JArr (xs @ ys) else overrides
     | _ \<Rightarrow> overrides)"

definition resolve_default_tools :: "pystr list \<Rightarrow> pystr list" where
  "resolve_default_tools entries =
    (let plain = filter (\<lambda>e. \<not> is_tool_modifier e) entries
     in apply_tool_modifiers (if plain \<noteq> [] \<or> entries = [] then plain else DEFAULT_TOOL_NAMES) entries)"

fun str_items :: "json list \<Rightarrow> pystr list" where
  "str_items [] = []"
| "str_items (JStr s # xs) = s # str_items xs"
| "str_items (_ # xs) = str_items xs"

definition get_default_tools :: "json option \<Rightarrow> pystr list option" where
  "get_default_tools setting =
    map_option (\<lambda>tools. resolve_default_tools (case tools of JArr xs \<Rightarrow> str_items xs | _ \<Rightarrow> [])) setting"

text \<open>What \<open>create_agent_session\<close> makes of its tool options.\<close>

record tool_options =
  to_tools :: "pystr list option"
  to_no_tools :: "pystr option"
  to_exclude :: "pystr list option"

record tool_selection =
  sel_allowed :: "pystr list option"
  sel_excluded :: "pystr list option"
  sel_initial :: "pystr list"
  sel_uses_default :: bool
  sel_modifiers :: "pystr list option"

definition select_tools :: "tool_options \<Rightarrow> pystr list option \<Rightarrow> tool_selection result" where
  "select_tools opts configured =
    (case Option.bind (to_tools opts) get_tool_list_error of
       Some err \<Rightarrow> Inl (lit ''Invalid tools option: '' @ err)
     | None \<Rightarrow>
         (let no_tools = or_empty (to_no_tools opts);
              defaults = (if no_tools \<noteq> [] then [] else case configured of Some ts \<Rightarrow> ts | None \<Rightarrow> DEFAULT_TOOL_NAMES);
              modifiers = (case to_tools opts of Some ts \<Rightarrow> if list_ex is_tool_modifier ts then Some ts else None | None \<Rightarrow> None);
              selected = (case modifiers of Some ms \<Rightarrow> Some (apply_tool_modifiers defaults ms) | None \<Rightarrow> to_tools opts);
              allowed = (if modifiers \<noteq> None then if no_tools = lit ''all'' then selected else None
                else if to_tools opts \<noteq> None then to_tools opts else if no_tools = lit ''all'' then Some [] else None);
              excluded = (\<lambda>name. case to_exclude opts of Some es \<Rightarrow> create_tool_name_matcher es name | None \<Rightarrow> False)
          in Inr \<lparr>sel_allowed = allowed, sel_excluded = to_exclude opts,
               sel_initial = filter (\<lambda>name. \<not> excluded name) (case selected of Some ts \<Rightarrow> ts | None \<Rightarrow> defaults),
               sel_uses_default = ((to_tools opts = None \<or> modifiers \<noteq> None) \<and> no_tools = []),
               sel_modifiers = modifiers\<rparr>))"

subsection \<open>Definitions and state\<close>

datatype exposure = Direct | ModelOnly | Codemode | Deferred | HiddenTool

record tool_namespace =
  ns_name :: pystr
  ns_aliases :: "pystr list option"
  ns_description :: "pystr option"
  ns_instructions :: "pystr option"

record loadout_view =
  lv_declared :: "tool list"
  lv_callable :: "tool list"
  lv_registered :: "tool list"
  lv_exposure :: "pystr \<Rightarrow> exposure"
  lv_namespace :: "pystr \<Rightarrow> tool_namespace option"
  lv_guidelines :: "pystr \<Rightarrow> pystr list"

record loadout_changes =
  ch_descriptions :: "(pystr, pystr) dict option"
  ch_hidden :: "pystr list option"

record tool_definition =
  td_tool :: tool
  td_exposure :: "exposure option"
  td_namespace :: "tool_namespace option"
  td_default_active :: "bool option"
  td_snippet :: "pystr option"
  td_guidelines :: "pystr list option"
  td_prepare :: "(loadout_view \<Rightarrow> loadout_changes option result) option"

abbreviation td_name :: "tool_definition \<Rightarrow> pystr" where
  "td_name d \<equiv> tool_name (td_tool d)"

text \<open>A definition with the path of its source, as extensions register it.\<close>

record definition_entry =
  de_definition :: tool_definition
  de_path :: pystr

record loadout_config =
  cg_allowed :: "pystr list option"
  cg_excluded :: "pystr list option"
  cg_uses_default :: bool
  cg_modifiers :: "pystr list"
  cg_custom :: "tool_definition list"
  cg_cwd :: pystr
  cg_prompt :: "pystr option"
  cg_append :: "pystr list option"
  cg_skills :: "skill list"
  cg_context_files :: "context_file list"

record loadout =
  lo_base :: "(pystr, tool_definition) dict"
  lo_extensions :: "(pystr, definition_entry) dict list"
  lo_definitions :: "(pystr, definition_entry) dict"
  lo_registry :: "(pystr, tool) dict"
  lo_snippets :: "(pystr, pystr) dict"
  lo_guidelines :: "(pystr, pystr list) dict"
  lo_tools :: "tool list"
  lo_hidden :: "pystr set"
  lo_pending :: "pystr list"
  lo_prompt :: prompt_options
  lo_errors :: "(pystr \<times> pystr) list"

subsection \<open>What may be active\<close>

definition is_excluded :: "loadout_config \<Rightarrow> pystr \<Rightarrow> bool" where
  "is_excluded c name = (case cg_excluded c of None \<Rightarrow> False | Some es \<Rightarrow> create_tool_name_matcher es name)"

definition allowlist_filters_mcp :: "loadout_config \<Rightarrow> bool" where
  "allowlist_filters_mcp c =
    (case cg_allowed c of None \<Rightarrow> False | Some es \<Rightarrow> length es = 0 \<or> list_ex (prefix (lit ''mcp__'')) es)"

definition is_allowed_tool :: "loadout_config \<Rightarrow> pystr \<Rightarrow> bool" where
  "is_allowed_tool c name =
    (if is_excluded c name then False
     else case cg_allowed c of
       None \<Rightarrow> True
     | Some es \<Rightarrow> if create_tool_name_matcher es name then True else \<not> allowlist_filters_mcp c \<and> is_mcp_tool_name name)"

definition get_tool_exposure :: "loadout \<Rightarrow> pystr \<Rightarrow> exposure" where
  "get_tool_exposure s name =
    (case dict_get (lo_definitions s) name of
       None \<Rightarrow> Direct
     | Some e \<Rightarrow> (case td_exposure (de_definition e) of None \<Rightarrow> Direct | Some x \<Rightarrow> x))"

definition is_activatable :: "loadout_config \<Rightarrow> loadout \<Rightarrow> pystr \<Rightarrow> bool" where
  "is_activatable c s name =
    (case cg_allowed c of
       None \<Rightarrow> True
     | Some es \<Rightarrow>
         if create_tool_name_matcher es name \<or> \<not> is_mcp_tool_name name then True
         else get_tool_exposure s name \<noteq> Direct \<and> dict_get (lo_registry s) (lit ''tool_search'') \<noteq> None)"

definition is_declarable :: "loadout \<Rightarrow> pystr \<Rightarrow> bool" where
  "is_declarable s name \<longleftrightarrow> get_tool_exposure s name = Direct \<or> get_tool_exposure s name = ModelOnly"

definition is_activated_on_registration :: "loadout \<Rightarrow> pystr \<Rightarrow> bool" where
  "is_activated_on_registration s name \<longleftrightarrow>
    is_declarable s name \<and>
    \<not> (case dict_get (lo_definitions s) name of None \<Rightarrow> False | Some e \<Rightarrow> td_default_active (de_definition e) = Some False)"

definition get_active_tool_names :: "loadout \<Rightarrow> pystr list" where
  "get_active_tool_names s = map tool_name (lo_tools s)"

definition get_callable_tools :: "loadout \<Rightarrow> pystr list \<Rightarrow> tool list" where
  "get_callable_tools s active =
    filter (\<lambda>tool. let exposure = get_tool_exposure s (tool_name tool)
        in exposure = Codemode \<or> exposure = Deferred \<or> exposure = Direct \<and> tool_name tool \<in> set active)
      (map snd (lo_registry s))"

subsection \<open>Applying a loadout\<close>

definition loadout_tool :: "loadout_config \<Rightarrow> loadout \<Rightarrow> pystr \<Rightarrow> tool option" where
  "loadout_tool c s name =
    (case dict_get (lo_registry s) name of
       Some tool \<Rightarrow> if get_tool_exposure s name \<noteq> HiddenTool \<and> is_activatable c s name then Some tool else None
     | None \<Rightarrow> None)"

definition loadout_tools :: "loadout_config \<Rightarrow> loadout \<Rightarrow> pystr list \<Rightarrow> tool list" where
  "loadout_tools c s tool_names = List.map_filter (loadout_tool c s) (fromkeys tool_names)"

fun prepare_hook :: "loadout \<Rightarrow> tool \<Rightarrow> definition_entry option" where
  "prepare_hook s tool =
    (case dict_get (lo_definitions s) (tool_name tool) of
       None \<Rightarrow> None
     | Some e \<Rightarrow> if td_prepare (de_definition e) = None then None else Some e)"

definition view_of :: "loadout \<Rightarrow> tool list \<Rightarrow> loadout_view" where
  "view_of s tools =
    \<lparr>lv_declared = tools, lv_callable = get_callable_tools s (map tool_name tools), lv_registered = map snd (lo_registry s),
     lv_exposure = get_tool_exposure s,
     lv_namespace = (\<lambda>name. Option.bind (dict_get (lo_definitions s) name) (\<lambda>e. td_namespace (de_definition e))),
     lv_guidelines = (\<lambda>name. or_empty (dict_get (lo_guidelines s) name))\<rparr>"

text \<open>One iteration of the loop over the hooks: descriptions, hidden names and reported errors.\<close>

definition run_hook ::
  "loadout_view \<Rightarrow> definition_entry \<Rightarrow> (pystr, pystr) dict \<times> pystr set \<times> (pystr \<times> pystr) list \<Rightarrow>
   (pystr, pystr) dict \<times> pystr set \<times> (pystr \<times> pystr) list" where
  "run_hook view e st =
    (case (st, td_prepare (de_definition e)) of
       ((descriptions, hidden, errors), Some prepare) \<Rightarrow>
         (case prepare view of
            Inl err \<Rightarrow> (descriptions, hidden, errors @ [(de_path e, err)])
          | Inr None \<Rightarrow> (descriptions, hidden, errors)
          | Inr (Some changes) \<Rightarrow>
              (fold (\<lambda>(n, d). dict_set n d) (or_empty (ch_descriptions changes)) descriptions,
               hidden \<union> set (or_empty (ch_hidden changes)), errors))
     | (_, None) \<Rightarrow> st)"

definition with_description :: "(pystr, pystr) dict \<Rightarrow> tool \<Rightarrow> tool" where
  "with_description descriptions tool =
    (case dict_get descriptions (tool_name tool) of None \<Rightarrow> tool | Some d \<Rightarrow> tool\<lparr>tool_description := d\<rparr>)"

definition apply_tool_loadout :: "loadout_config \<Rightarrow> pystr list \<Rightarrow> loadout \<Rightarrow> loadout \<times> tool list" where
  "apply_tool_loadout c tool_names s =
    (let tools = loadout_tools c s tool_names;
         hooks = List.map_filter (prepare_hook s) tools
     in case fold (run_hook (view_of s tools)) hooks ([], {}, []) of
          (descriptions, hidden, errors) \<Rightarrow>
            (let declared = map (with_description descriptions) tools
             in (s\<lparr>lo_tools := declared, lo_hidden := hidden, lo_errors := lo_errors s @ errors\<rparr>, declared)))"

definition valid_snippets :: "loadout \<Rightarrow> (pystr, pystr) dict" where
  "valid_snippets s =
    List.map_filter (\<lambda>name. case dict_get (lo_snippets s) name of
        None \<Rightarrow> None | Some t \<Rightarrow> if t = [] then None else Some (name, t)) (map fst (lo_registry s))"

definition rebuild_system_prompt :: "loadout_config \<Rightarrow> pystr list \<Rightarrow> loadout \<Rightarrow> loadout" where
  "rebuild_system_prompt c tool_names s =
    s\<lparr>lo_prompt := normalize_build_system_prompt_options
      \<lparr>po_cwd = cg_cwd c, po_custom_prompt = cg_prompt c, po_force_system_prompt = None,
       po_selected_tools = Some (filter (\<lambda>name. dict_get (lo_registry s) name \<noteq> None) tool_names),
       po_hidden_tools = Some (sorted_list_of_set (lo_hidden s)), po_tool_snippets = Some (valid_snippets s),
       po_tool_guidelines = Some (lo_guidelines s), po_prompt_guidelines = None,
       po_append_system_prompt = Some (str_join [NL, NL] (or_empty (cg_append c))), po_sections = None,
       po_context_files = cg_context_files c, po_skills = cg_skills c\<rparr>\<rparr>"

definition set_active_tools :: "loadout_config \<Rightarrow> pystr list \<Rightarrow> loadout \<Rightarrow> loadout" where
  "set_active_tools c tool_names s =
    (case apply_tool_loadout c tool_names s of
       (s1, tools) \<Rightarrow> rebuild_system_prompt c (map tool_name tools)
         (s1\<lparr>lo_pending := filter (\<lambda>n. n \<notin> set (map tool_name tools)) (lo_pending s1)\<rparr>))"

definition set_active_tools_by_name :: "loadout_config \<Rightarrow> pystr list \<Rightarrow> loadout \<Rightarrow> loadout" where
  "set_active_tools_by_name c tool_names s =
    (let s1 = set_active_tools c tool_names s
     in if list_ex (\<lambda>name. name \<notin> set (get_active_tool_names s1)) (get_active_tool_names s)
        then s1\<lparr>lo_pending := []\<rparr> else s1)"

definition update_active_tools :: "loadout_config \<Rightarrow> (pystr list \<Rightarrow> pystr list option) \<Rightarrow> loadout \<Rightarrow> loadout" where
  "update_active_tools c update s =
    (case update (get_active_tool_names s) of None \<Rightarrow> s | Some tool_names \<Rightarrow> set_active_tools_by_name c tool_names s)"

subsection \<open>Registration\<close>

text \<open>\<open>\\s+\<close> is one or more white-space characters; line breaks became spaces before.\<close>

function collapse_space :: "(nat \<Rightarrow> bool) \<Rightarrow> pystr \<Rightarrow> pystr" where
  "collapse_space p [] = []"
| "collapse_space p (c # cs) = (if p c then 32 # collapse_space p (dropWhile p cs) else c # collapse_space p cs)"
  by pat_completeness auto
termination
  by (relation "measure (length \<circ> snd)") (auto simp: le_imp_less_Suc length_dropWhile_le)

definition normalize_prompt_snippet :: "pystr option \<Rightarrow> pystr option" where
  "normalize_prompt_snippet t =
    (if or_empty t = [] then None
     else non_empty (py_strip (collapse_space py_isspace (collapse_space (\<lambda>c. c = 13 \<or> c = NL) (or_empty t)))))"

definition normalize_prompt_guidelines :: "pystr list option \<Rightarrow> pystr list" where
  "normalize_prompt_guidelines guidelines = fromkeys (filter (\<lambda>g. g \<noteq> []) (map py_strip (or_empty guidelines)))"

definition get_all_registered_tools :: "(pystr, definition_entry) dict list \<Rightarrow> definition_entry list" where
  "get_all_registered_tools extensions =
    map snd (fold (\<lambda>e d. if dict_get d (td_name (de_definition e)) = None then d @ [(td_name (de_definition e), e)] else d)
      (concat (map (map snd) extensions)) [])"

definition all_custom_tools :: "loadout_config \<Rightarrow> loadout \<Rightarrow> definition_entry list" where
  "all_custom_tools c s =
    filter (\<lambda>e. is_allowed_tool c (td_name (de_definition e)))
      (get_all_registered_tools (lo_extensions s) @
       map (\<lambda>d. \<lparr>de_definition = d, de_path = lit ''<sdk:'' @ td_name d @ lit ''>''\<rparr>) (cg_custom c))"

definition put_definition :: "definition_entry \<Rightarrow> (pystr, definition_entry) dict \<Rightarrow> (pystr, definition_entry) dict" where
  "put_definition e = dict_set (td_name (de_definition e)) e"

definition definition_registry :: "loadout_config \<Rightarrow> loadout \<Rightarrow> (pystr, definition_entry) dict" where
  "definition_registry c s =
    fold put_definition (all_custom_tools c s)
      (map (\<lambda>(name, d). (name, \<lparr>de_definition = d, de_path = lit ''builtin:'' @ name\<rparr>))
        (filter (\<lambda>(name, d). is_allowed_tool c name) (lo_base s)))"

definition put_registered :: "tool \<Rightarrow> (pystr, tool) dict \<Rightarrow> (pystr, tool) dict" where
  "put_registered tool = dict_set (tool_name tool) tool"

definition tool_registry :: "loadout_config \<Rightarrow> loadout \<Rightarrow> (pystr, tool) dict" where
  "tool_registry c s =
    fold put_registered
      (map td_tool (filter (\<lambda>d. is_allowed_tool c (td_name d)) (map snd (lo_base s))) @
       map (\<lambda>e. td_tool (de_definition e)) (all_custom_tools c s)) []"

text \<open>The registry with the snippets and guidelines of its definitions.\<close>

definition put_snippet :: "tool_definition \<Rightarrow> (pystr, pystr) dict \<Rightarrow> (pystr, pystr) dict" where
  "put_snippet d snippets =
    (case normalize_prompt_snippet (td_snippet d) of None \<Rightarrow> snippets | Some t \<Rightarrow> dict_set (td_name d) t snippets)"

definition put_guidelines :: "tool_definition \<Rightarrow> (pystr, pystr list) dict \<Rightarrow> (pystr, pystr list) dict" where
  "put_guidelines d guidelines =
    (case normalize_prompt_guidelines (td_guidelines d) of [] \<Rightarrow> guidelines | gs \<Rightarrow> dict_set (td_name d) gs guidelines)"

definition register_all :: "loadout_config \<Rightarrow> loadout \<Rightarrow> loadout" where
  "register_all c s =
    (let definitions = definition_registry c s; ds = map (\<lambda>ne. de_definition (snd ne)) definitions
     in s\<lparr>lo_definitions := definitions, lo_registry := tool_registry c s,
          lo_snippets := fold put_snippet ds [], lo_guidelines := fold put_guidelines ds []\<rparr>)"

definition activated_by_refresh ::
  "loadout_config \<Rightarrow> pystr list \<Rightarrow> pystr list option \<Rightarrow> bool option \<Rightarrow> loadout \<Rightarrow> pystr list" where
  "activated_by_refresh c previous_activated active_tool_names include_all s =
    (case cg_allowed c of
       Some es \<Rightarrow> filter (\<lambda>name. create_tool_name_matcher es name \<and> is_declarable s name) (map fst (lo_registry s))
     | None \<Rightarrow>
         if include_all = Some True then
           filter (is_activated_on_registration s) (map (\<lambda>e. td_name (de_definition e)) (all_custom_tools c s))
         else if active_tool_names = None then
           filter (\<lambda>name. name \<notin> set previous_activated \<and> is_activated_on_registration s name) (map fst (lo_registry s))
         else [])"

definition refresh_tool_registry :: "loadout_config \<Rightarrow> pystr list option \<Rightarrow> bool option \<Rightarrow> loadout \<Rightarrow> loadout" where
  "refresh_tool_registry c active_tool_names include_all s =
    (let previous_activated = filter (is_activated_on_registration s) (map fst (lo_registry s));
         previous_active = get_active_tool_names s;
         s1 = register_all c s;
         next_active = filter (is_allowed_tool c) (case active_tool_names of Some ns \<Rightarrow> ns | None \<Rightarrow> previous_active) @
           activated_by_refresh c previous_activated active_tool_names include_all s1 @ lo_pending s1
     in set_active_tools c (fromkeys next_active) s1)"

definition register_extension_tools ::
  "loadout_config \<Rightarrow> nat \<Rightarrow> definition_entry list \<Rightarrow> (pystr list \<Rightarrow> pystr list option) option \<Rightarrow> loadout \<Rightarrow> loadout" where
  "register_extension_tools c i registered update s =
    (let s1 = refresh_tool_registry c None None (s\<lparr>lo_extensions := (lo_extensions s)[i := fold put_definition registered (lo_extensions s ! i)]\<rparr>)
     in case update of None \<Rightarrow> s1 | Some f \<Rightarrow> update_active_tools c f s1)"

definition build_runtime ::
  "loadout_config \<Rightarrow> (pystr, tool_definition) dict \<Rightarrow> (pystr, definition_entry) dict list \<Rightarrow> pystr list \<Rightarrow> bool option \<Rightarrow> loadout \<Rightarrow> loadout" where
  "build_runtime c base extensions active_tool_names include_all s =
    refresh_tool_registry c (Some active_tool_names) include_all (s\<lparr>lo_base := base, lo_extensions := extensions\<rparr>)"

definition default_tool_names :: "loadout_config \<Rightarrow> json option \<Rightarrow> pystr list" where
  "default_tool_names c setting =
    (if \<not> cg_uses_default c then []
     else apply_tool_modifiers (case get_default_tools setting of Some ts \<Rightarrow> ts | None \<Rightarrow> DEFAULT_TOOL_NAMES) (cg_modifiers c))"

definition reload_tools ::
  "loadout_config \<Rightarrow> json option \<Rightarrow> json option \<Rightarrow> (pystr, tool_definition) dict \<Rightarrow> (pystr, definition_entry) dict list \<Rightarrow> loadout \<Rightarrow> loadout" where
  "reload_tools c old_setting new_setting base extensions s =
    (let added = filter (\<lambda>name. name \<notin> set (default_tool_names c old_setting)) (default_tool_names c new_setting);
         active = get_active_tool_names s
     in build_runtime c base extensions (active @ added) (Some True) (s\<lparr>lo_pending := fromkeys (lo_pending s @ active)\<rparr>))"

subsection \<open>The transcript\<close>

text \<open>The system messages of the branch; \<open>entry["message"].role\<close>.\<close>

definition mentioned_tools :: "system_message list \<Rightarrow> pystr set" where
  "mentioned_tools ms = (\<Union>m \<in> set ms. tool_name ` set (or_empty (sm_tools_added m)) \<union> set (or_empty (sm_tools_removed m)))"

definition restore_tools_from_transcript :: "loadout_config \<Rightarrow> message list \<Rightarrow> pystr list \<Rightarrow> loadout \<Rightarrow> loadout" where
  "restore_tools_from_transcript c branch modifiers s =
    (let ms = system_messages branch
     in if ms = [] then s\<lparr>lo_pending := []\<rparr>
        else
          (let new_tools = filter (\<lambda>name. name \<notin> mentioned_tools ms \<and> dict_get (lo_base s) name = None \<and>
                 is_activated_on_registration s name) (map fst (lo_registry s));
               names = apply_tool_modifiers (map tool_name (get_current_tools (map SystemMsg ms)) @ new_tools) modifiers
           in set_active_tools c names (s\<lparr>lo_pending := fromkeys (filter (is_allowed_tool c) names)\<rparr>)))"

text \<open>A session: the runtime, then the transcript's loadout if the tools come from the setting.\<close>

definition empty_loadout :: "loadout_config \<Rightarrow> loadout" where
  "empty_loadout c =
    \<lparr>lo_base = [], lo_extensions = [], lo_definitions = [], lo_registry = [], lo_snippets = [], lo_guidelines = [],
     lo_tools = [], lo_hidden = {}, lo_pending = [],
     lo_prompt = normalize_build_system_prompt_options
       \<lparr>po_cwd = cg_cwd c, po_custom_prompt = None, po_force_system_prompt = None, po_selected_tools = None,
        po_hidden_tools = None, po_tool_snippets = None, po_tool_guidelines = None, po_prompt_guidelines = None,
        po_append_system_prompt = None, po_sections = None, po_context_files = [], po_skills = []\<rparr>,
     lo_errors = []\<rparr>"

definition start_loadout ::
  "loadout_config \<Rightarrow> (pystr, tool_definition) dict \<Rightarrow> (pystr, definition_entry) dict list \<Rightarrow> pystr list \<Rightarrow> message list \<Rightarrow> loadout" where
  "start_loadout c base extensions initial branch =
    (let s = build_runtime c base extensions initial (Some True) (empty_loadout c)
     in if cg_uses_default c then restore_tools_from_transcript c branch (cg_modifiers c) s else s)"

text \<open>A run records the loadout; what is still pending is dropped.\<close>

definition start_run_tools :: "loadout \<Rightarrow> loadout" where
  "start_run_tools s = s\<lparr>lo_pending := []\<rparr>"

definition prepare_prompt_and_tool_loadout ::
  "loadout_config \<Rightarrow> doc_paths \<Rightarrow> int \<Rightarrow> prompt_options \<Rightarrow> message list \<Rightarrow> loadout \<Rightarrow>
   loadout \<times> prompt_options \<times> system_message option result" where
  "prepare_prompt_and_tool_loadout c p now opts messages s =
    (case apply_tool_loadout c (or_empty (po_selected_tools opts)) s of
       (s1, tools) \<Rightarrow>
         (let opts1 = opts\<lparr>po_selected_tools := Some (map tool_name tools),
                po_hidden_tools := Some (sorted_list_of_set (lo_hidden s1))\<rparr>
          in (s1, opts1, map_sum id (prompt_update now messages) (build_system_prompt_sections p opts1))))"

text \<open>The options of the next turn: those of the run, with the active tools and what was registered since.\<close>

definition merge_dicts :: "(pystr, 'v) dict \<Rightarrow> (pystr, 'v) dict \<Rightarrow> (pystr, 'v) dict" where
  "merge_dicts base run = fold (\<lambda>(k, v). dict_set k v) run base"

definition next_turn_options :: "loadout \<Rightarrow> prompt_options option \<Rightarrow> prompt_options" where
  "next_turn_options s run_options =
    (let base = lo_prompt s; run = (case run_options of None \<Rightarrow> base | Some r \<Rightarrow> r)
     in normalize_build_system_prompt_options (run\<lparr>po_selected_tools := Some (get_active_tool_names s),
          po_tool_snippets := Some (merge_dicts (or_empty (po_tool_snippets base)) (or_empty (po_tool_snippets run))),
          po_tool_guidelines := Some (merge_dicts (or_empty (po_tool_guidelines base)) (or_empty (po_tool_guidelines run)))\<rparr>))"

subsection \<open>Projections of a request\<close>

definition hide_declarations :: "pystr set \<Rightarrow> message list \<Rightarrow> message list" where
  "hide_declarations hidden messages =
    (if hidden = {} then messages
     else map (\<lambda>message. case message of
         SystemMsg m \<Rightarrow>
           if sm_tools_added m = None \<and> sm_tools_removed m = None then message
           else SystemMsg (m\<lparr>sm_tools_added := non_empty (filter (\<lambda>tool. tool_name tool \<notin> hidden) (or_empty (sm_tools_added m))),
             sm_tools_removed := non_empty (filter (\<lambda>name. name \<notin> hidden) (or_empty (sm_tools_removed m)))\<rparr>)
       | _ \<Rightarrow> message) messages)"

definition force_prompt :: "int \<Rightarrow> prompt_options option \<Rightarrow> message list \<Rightarrow> message list" where
  "force_prompt now run_options transformed =
    (case Option.bind run_options po_force_system_prompt of
       None \<Rightarrow> transformed
     | Some forced \<Rightarrow>
         (let current = get_current_system_message transformed
          in SystemMsg \<lparr>sm_content = StrContent forced,
               sm_timestamp = (case current of Some m \<Rightarrow> sm_timestamp m | None \<Rightarrow> now), sm_sections = None,
               sm_tools_added = Option.bind current sm_tools_added, sm_tools_removed = None\<rparr> #
             filter (\<lambda>m. \<not> is_system_msg m) transformed))"

subsection \<open>Laws of the registry\<close>

lemma fromkeys_laws: "set (fromkeys xs) = set xs" "distinct (fromkeys xs)"
proof -
  let ?f = "\<lambda>x seen. if x \<in> set seen then seen else seen @ [x]"
  have "set (fold ?f xs seen) = set seen \<union> set xs \<and> distinct (fold ?f xs seen)" if "distinct seen" for seen
    using that by (induction xs arbitrary: seen) auto
  from this [of "[]"] show "set (fromkeys xs) = set xs" "distinct (fromkeys xs)" by (simp_all add: fromkeys_def)
qed

lemma set_fromkeys [simp]: "set (fromkeys xs) = set xs"
  and distinct_fromkeys [simp]: "distinct (fromkeys xs)"
  by (rule fromkeys_laws)+

definition can_activate :: "loadout_config \<Rightarrow> loadout \<Rightarrow> pystr \<Rightarrow> bool" where
  "can_activate c s n \<longleftrightarrow> loadout_tool c s n \<noteq> None"

definition keys_ok :: "loadout_config \<Rightarrow> (pystr, tool) dict \<Rightarrow> bool" where
  "keys_ok c d \<longleftrightarrow> dict_ok d \<and> (\<forall>n t. dict_get d n = Some t \<longrightarrow> tool_name t = n \<and> is_allowed_tool c n)"

lemma keys_ok_put: "keys_ok c d \<Longrightarrow> is_allowed_tool c (tool_name t) \<Longrightarrow> keys_ok c (put_registered t d)"
  by (auto simp: keys_ok_def put_registered_def dict_get_set split: if_splits)

lemma keys_ok_fold_put:
  "keys_ok c d \<Longrightarrow> \<forall>t \<in> set ts. is_allowed_tool c (tool_name t) \<Longrightarrow> keys_ok c (fold put_registered ts d)"
  by (induction ts arbitrary: d) (simp_all add: keys_ok_put)

lemma tool_registry_laws: "keys_ok c (tool_registry c s)"
  unfolding tool_registry_def by (rule keys_ok_fold_put) (auto simp: keys_ok_def all_custom_tools_def)

definition registry_ok :: "loadout_config \<Rightarrow> loadout \<Rightarrow> bool" where
  "registry_ok c s \<longleftrightarrow> keys_ok c (lo_registry s)"

lemma registry_ok_register: "registry_ok c (register_all c s)"
  using tool_registry_laws [of c s] by (simp add: registry_ok_def register_all_def Let_def)

subsection \<open>Laws of the loadout\<close>

lemma loadout_tool_name: "registry_ok c s \<Longrightarrow> loadout_tool c s n = Some t \<Longrightarrow> tool_name t = n"
  by (auto simp: loadout_tool_def registry_ok_def keys_ok_def split: option.splits if_splits)

lemma names_map_filter:
  "(\<And>n t. f n = Some t \<Longrightarrow> tool_name t = n) \<Longrightarrow> map tool_name (List.map_filter f ns) = filter (\<lambda>n. f n \<noteq> None) ns"
  by (induction ns) (auto simp: List.map_filter_simps split: option.split)

lemma loadout_tools_names:
  "registry_ok c s \<Longrightarrow> map tool_name (loadout_tools c s names) = filter (can_activate c s) (fromkeys names)"
  unfolding loadout_tools_def by (subst names_map_filter) (auto simp: loadout_tool_name can_activate_def fun_eq_iff cong: filter_cong)

lemma with_description_laws [simp]:
  "tool_name (with_description d t) = tool_name t" "(with_description d t)\<lparr>tool_description := x\<rparr> = t\<lparr>tool_description := x\<rparr>"
  by (auto simp: with_description_def split: option.splits)

text \<open>What the operations leave alone, so that exposure and admission stay what they are.\<close>

definition same_registry :: "loadout \<Rightarrow> loadout \<Rightarrow> bool" where
  "same_registry s t \<longleftrightarrow> lo_registry t = lo_registry s \<and> lo_definitions t = lo_definitions s"

lemma same_registry_laws:
  assumes "same_registry s t"
  shows "can_activate c t n = can_activate c s n" "registry_ok c t = registry_ok c s"
proof -
  from assms have eq: "lo_registry t = lo_registry s" "lo_definitions t = lo_definitions s" by (simp_all add: same_registry_def)
  then have exposure: "get_tool_exposure t = get_tool_exposure s" by (simp add: get_tool_exposure_def fun_eq_iff)
  then have "is_activatable c t = is_activatable c s" by (simp add: is_activatable_def fun_eq_iff eq cong: option.case_cong)
  with exposure have "loadout_tool c t = loadout_tool c s"
    by (simp add: loadout_tool_def fun_eq_iff eq cong: option.case_cong if_cong)
  then show "can_activate c t n = can_activate c s n" "registry_ok c t = registry_ok c s"
    by (simp_all add: can_activate_def registry_ok_def eq)
qed

definition declares :: "loadout \<Rightarrow> tool \<Rightarrow> bool" where
  "declares s t \<longleftrightarrow> (\<exists>r. dict_get (lo_registry s) (tool_name t) = Some r \<and> t = r\<lparr>tool_description := tool_description t\<rparr>)"

lemma apply_tool_loadout_laws:
  assumes "registry_ok c s" "apply_tool_loadout c names s = (s', tools)"
  shows "lo_tools s' = tools" "map tool_name tools = filter (can_activate c s) (fromkeys names)"
    "lo_pending s' = lo_pending s" "same_registry s s'" "\<forall>t \<in> set tools. declares s t"
proof -
  let ?tools = "loadout_tools c s names"
  obtain d h e where f: "fold (run_hook (view_of s ?tools)) (List.map_filter (prepare_hook s) ?tools) ([], {}, []) = (d, h, e)"
    by (rule prod_cases3)
  with assms(2) have r: "tools = map (with_description d) ?tools"
    "s' = s\<lparr>lo_tools := tools, lo_hidden := h, lo_errors := lo_errors s @ e\<rparr>"
    by (auto simp: apply_tool_loadout_def Let_def)
  show "lo_tools s' = tools" "lo_pending s' = lo_pending s" "same_registry s s'"
    by (simp_all add: r(2) same_registry_def)
  show "map tool_name tools = filter (can_activate c s) (fromkeys names)"
    by (simp add: r(1) comp_def loadout_tools_names [OF assms(1), symmetric])
  have "declares s (with_description d t)" if t: "t \<in> set ?tools" for t
  proof -
    from t obtain n where n: "loadout_tool c s n = Some t"
      by (auto simp: loadout_tools_def List.map_filter_def)
    with loadout_tool_name [OF assms(1) n] have "dict_get (lo_registry s) (tool_name t) = Some t"
      by (auto simp: loadout_tool_def split: option.splits if_splits)
    moreover have "with_description d t = t\<lparr>tool_description := tool_description (with_description d t)\<rparr>"
      by (auto simp: with_description_def split: option.splits)
    ultimately show ?thesis unfolding declares_def by simp
  qed
  then show "\<forall>t \<in> set tools. declares s t" by (auto simp: r(1))
qed

lemma set_active_tools_laws:
  assumes "registry_ok c s"
  shows "get_active_tool_names (set_active_tools c names s) = filter (can_activate c s) (fromkeys names)"
    "lo_pending (set_active_tools c names s) = filter (\<lambda>n. \<not> (n \<in> set names \<and> can_activate c s n)) (lo_pending s)"
    "same_registry s (set_active_tools c names s)"
    "\<forall>t \<in> set (lo_tools (set_active_tools c names s)). declares s t"
    "po_selected_tools (lo_prompt (set_active_tools c names s)) = Some (get_active_tool_names (set_active_tools c names s))"
proof -
  obtain s1 tools where a: "apply_tool_loadout c names s = (s1, tools)" by force
  note l = apply_tool_loadout_laws [OF assms a]
  have active: "n \<in> tool_name ` set tools \<longleftrightarrow> n \<in> set names \<and> can_activate c s n" for n
    using arg_cong [OF l(2), of set] by auto
  have reg: "can_activate c s n \<and> (\<exists>t. dict_get (lo_registry s) n = Some t) \<longleftrightarrow> can_activate c s n" for n
    by (auto simp: can_activate_def loadout_tool_def split: option.splits)
  show "get_active_tool_names (set_active_tools c names s) = filter (can_activate c s) (fromkeys names)"
    "lo_pending (set_active_tools c names s) = filter (\<lambda>n. \<not> (n \<in> set names \<and> can_activate c s n)) (lo_pending s)"
    "same_registry s (set_active_tools c names s)" "\<forall>t \<in> set (lo_tools (set_active_tools c names s)). declares s t"
    using l by (simp_all add: set_active_tools_def a rebuild_system_prompt_def get_active_tool_names_def same_registry_def active)
  show "po_selected_tools (lo_prompt (set_active_tools c names s)) = Some (get_active_tool_names (set_active_tools c names s))"
    using l reg by (simp add: set_active_tools_def a rebuild_system_prompt_def get_active_tool_names_def
      normalize_build_system_prompt_options_def same_registry_def filter_empty_conv cong: filter_cong)
qed

subsection \<open>The invariant\<close>

text \<open>
  The active tools have distinct names, are registered and admitted, and declare what was registered but
  for their description; what is pending is allowed and could not be active, and waits once.
\<close>

definition loadout_ok :: "loadout_config \<Rightarrow> loadout \<Rightarrow> bool" where
  "loadout_ok c s \<longleftrightarrow> registry_ok c s \<and> distinct (get_active_tool_names s) \<and>
    (\<forall>n \<in> set (get_active_tool_names s). can_activate c s n) \<and> (\<forall>t \<in> set (lo_tools s). declares s t) \<and>
    distinct (lo_pending s) \<and> (\<forall>n \<in> set (lo_pending s). is_allowed_tool c n \<and> \<not> can_activate c s n)"

text \<open>Before the active tools are set, a name that could be active may be pending if it is to be set.\<close>

lemma set_active_tools_ok:
  assumes "registry_ok c s" "distinct (lo_pending s)" "\<forall>n \<in> set (lo_pending s). is_allowed_tool c n \<and> (can_activate c s n \<longrightarrow> n \<in> set names)"
  shows "loadout_ok c (set_active_tools c names s)"
proof -
  note l = set_active_tools_laws [OF assms(1), of names]
  have "declares (set_active_tools c names s) = declares s"
    using l(3) by (simp add: declares_def same_registry_def fun_eq_iff)
  with l assms show ?thesis
    by (auto simp: loadout_ok_def same_registry_laws [OF l(3)])
qed

lemma loadout_ok_clear: "loadout_ok c s \<Longrightarrow> loadout_ok c (s\<lparr>lo_pending := []\<rparr>)"
  using same_registry_laws [of s "s\<lparr>lo_pending := []\<rparr>" c]
  by (simp add: loadout_ok_def same_registry_def get_active_tool_names_def declares_def)

lemma set_active_tools_by_name_ok: "loadout_ok c s \<Longrightarrow> loadout_ok c (set_active_tools_by_name c names s)"
  unfolding set_active_tools_by_name_def Let_def
  by (auto intro!: loadout_ok_clear set_active_tools_ok) (auto simp: loadout_ok_def)

lemma update_active_tools_ok: "loadout_ok c s \<Longrightarrow> loadout_ok c (update_active_tools c f s)"
  by (auto simp: update_active_tools_def set_active_tools_by_name_ok split: option.split)

text \<open>A refresh needs only what was pending to be allowed, and establishes the invariant.\<close>

lemma register_all_pending [simp]: "lo_pending (register_all c s) = lo_pending s"
  by (simp add: register_all_def Let_def)

lemma refresh_ok:
  assumes "distinct (lo_pending s)" "\<forall>n \<in> set (lo_pending s). is_allowed_tool c n"
  shows "loadout_ok c (refresh_tool_registry c names include_all s)"
  unfolding refresh_tool_registry_def Let_def using assms
  by (intro set_active_tools_ok registry_ok_register) auto

lemma loadout_ok_pending: "loadout_ok c s \<Longrightarrow> distinct (lo_pending s) \<and> (\<forall>n \<in> set (lo_pending s). is_allowed_tool c n)"
  by (simp add: loadout_ok_def)

lemma register_extension_tools_ok: "loadout_ok c s \<Longrightarrow> loadout_ok c (register_extension_tools c i rs f s)"
  unfolding register_extension_tools_def Let_def
  by (auto simp: loadout_ok_pending intro!: update_active_tools_ok refresh_ok split: option.split)

lemma can_activate_allowed: "registry_ok c s \<Longrightarrow> can_activate c s n \<Longrightarrow> is_allowed_tool c n"
  by (auto simp: can_activate_def loadout_tool_def registry_ok_def keys_ok_def split: option.splits)

lemma reload_ok: "loadout_ok c s \<Longrightarrow> loadout_ok c (reload_tools c old new base es s)"
  unfolding reload_tools_def build_runtime_def Let_def
  by (rule refresh_ok) (auto simp: loadout_ok_def intro: can_activate_allowed)

lemma same_registry_pending: "same_registry s (s\<lparr>lo_pending := p\<rparr>)"
  by (simp add: same_registry_def)

lemma restore_ok: "loadout_ok c s \<Longrightarrow> loadout_ok c (restore_tools_from_transcript c branch modifiers s)"
  unfolding restore_tools_from_transcript_def Let_def
  by (auto intro!: loadout_ok_clear set_active_tools_ok simp: same_registry_laws(2) [OF same_registry_pending])
    (simp add: loadout_ok_def)

lemma prepare_ok:
  assumes "loadout_ok c s" "prepare_prompt_and_tool_loadout c p now opts ms s = (s', opts', r)"
  shows "loadout_ok c s'"
proof -
  obtain s1 tools where a: "apply_tool_loadout c (or_empty (po_selected_tools opts)) s = (s1, tools)" by force
  from assms(1) have reg: "registry_ok c s" by (simp add: loadout_ok_def)
  note l = apply_tool_loadout_laws [OF reg a]
  have s': "s' = s1" using assms(2) by (simp add: prepare_prompt_and_tool_loadout_def a Let_def)
  have "declares s1 = declares s" using l(4) by (simp add: declares_def same_registry_def fun_eq_iff)
  with assms(1) l reg show ?thesis
    by (auto simp: s' loadout_ok_def same_registry_laws [OF l(4)] get_active_tool_names_def)
qed

subsection \<open>The machine\<close>

inductive loadout_step :: "loadout_config \<Rightarrow> loadout \<Rightarrow> loadout \<Rightarrow> bool" for c where
  SetActive: "loadout_step c s (set_active_tools_by_name c names s)"
| UpdateActive: "loadout_step c s (update_active_tools c f s)"
| RegisterTools: "loadout_step c s (register_extension_tools c i registered update s)"
| ReloadTools: "loadout_step c s (reload_tools c old_setting new_setting base extensions s)"
| RestoreTools: "loadout_step c s (restore_tools_from_transcript c branch modifiers s)"
| StartRun: "loadout_step c s (start_run_tools s)"
| PreparePrompt: "prepare_prompt_and_tool_loadout c p now opts messages s = (s', r) \<Longrightarrow> loadout_step c s s'"

definition loadout_start :: "loadout_config \<Rightarrow> loadout \<Rightarrow> bool" where
  "loadout_start c s \<longleftrightarrow> (\<exists>base extensions initial branch. s = start_loadout c base extensions initial branch)"

lemma start_ok: "loadout_start c s \<Longrightarrow> loadout_ok c s"
  by (auto simp: loadout_start_def start_loadout_def Let_def build_runtime_def empty_loadout_def intro!: restore_ok refresh_ok)

lemma step_ok: "loadout_step c s s' \<Longrightarrow> loadout_ok c s \<Longrightarrow> loadout_ok c s'"
  by (induction rule: loadout_step.induct)
    (auto simp: start_run_tools_def set_active_tools_by_name_ok update_active_tools_ok register_extension_tools_ok
      reload_ok restore_ok loadout_ok_clear elim: prepare_ok)

interpretation loadouts: invariant_system "loadout_start c" "loadout_step c" "loadout_ok c" for c
  by unfold_locales (auto intro: start_ok step_ok)

text \<open>
  C21. The loadout stays consistent: in every state a session reaches, whatever tools are registered,
  reloaded, restored, activated or prepared in whatever order, the active tools have distinct names, each
  is registered, allowed, not hidden and admitted by the allowlist, and declares what was registered but
  for its description; what is pending is allowed, waits once, and could not be active.
\<close>

theorem reachable_loadouts_are_consistent:
  assumes "reachable (loadout_start c) (loadout_step c) s"
  shows "distinct (map tool_name (lo_tools s)) \<and>
    (\<forall>t \<in> set (lo_tools s). is_allowed_tool c (tool_name t) \<and> get_tool_exposure s (tool_name t) \<noteq> HiddenTool \<and>
       is_activatable c s (tool_name t) \<and>
       (\<exists>r. dict_get (lo_registry s) (tool_name t) = Some r \<and> t = r\<lparr>tool_description := tool_description t\<rparr>)) \<and>
    distinct (lo_pending s) \<and>
    (\<forall>n \<in> set (lo_pending s). is_allowed_tool c n \<and> loadout_tool c s n = None)"
proof -
  have ok: "loadout_ok c s" using loadouts.reachable_inv [OF assms] .
  have "is_allowed_tool c n \<and> get_tool_exposure s n \<noteq> HiddenTool \<and> is_activatable c s n" if "can_activate c s n" for n
    using that ok can_activate_allowed [of c s n]
    by (auto simp: loadout_ok_def can_activate_def loadout_tool_def split: option.splits if_splits)
  with ok show ?thesis
    by (auto simp: loadout_ok_def get_active_tool_names_def declares_def can_activate_def)
qed

subsection \<open>Restored tools\<close>

lemma modifiers_keep:
  "n \<in> set base \<Longrightarrow> 45 # n \<notin> set entries \<Longrightarrow> n \<in> set (apply_tool_modifiers base entries)"
  unfolding apply_tool_modifiers_def
proof (induction entries arbitrary: base)
  case Nil
  then show ?case by simp
next
  case (Cons e es)
  have "n \<in> set (apply_modifier e base)"
    using Cons.prems by (cases e) (auto simp: apply_modifier_def is_tool_modifier_def Let_def in_set_remove1)
  with Cons show ?case by simp
qed

text \<open>Active as soon as it can be, and pending until then.\<close>

definition kept_or_pending :: "loadout_config \<Rightarrow> pystr \<Rightarrow> loadout \<Rightarrow> bool" where
  "kept_or_pending c n s \<longleftrightarrow> loadout_ok c s \<and>
    (if can_activate c s n then n \<in> set (get_active_tool_names s) else n \<in> set (lo_pending s))"

lemma tracked_set_active:
  assumes "loadout_ok c (set_active_tools c names s)" "registry_ok c s" "n \<in> set names" "n \<in> set (lo_pending s) \<or> can_activate c s n"
  shows "kept_or_pending c n (set_active_tools c names s)"
proof -
  note l = set_active_tools_laws [OF assms(2), of names]
  show ?thesis using assms by (auto simp: kept_or_pending_def l(1,2) same_registry_laws(1) [OF l(3)])
qed

lemma restore_tracks:
  assumes "loadout_ok c s" "n \<in> tool_name ` set (get_current_tools branch)" "is_allowed_tool c n" "45 # n \<notin> set modifiers"
  shows "kept_or_pending c n (restore_tools_from_transcript c branch modifiers s)"
proof -
  have ms: "system_messages branch \<noteq> []" using assms(2) by (auto simp: get_current_tools_def)
  have same: "get_current_tools (map SystemMsg (system_messages branch)) = get_current_tools branch"
    by (simp add: get_current_tools_def)
  have reg: "registry_ok c (s\<lparr>lo_pending := p\<rparr>)" for p
    using assms(1) by (simp add: loadout_ok_def same_registry_laws(2) [OF same_registry_pending])
  from assms(2-4) have n: "n \<in> set (apply_tool_modifiers (map tool_name (get_current_tools branch) @ new) modifiers)" for new
    by (intro modifiers_keep) auto
  have "loadout_ok c (restore_tools_from_transcript c branch modifiers s)" by (rule restore_ok [OF assms(1)])
  then show ?thesis
    unfolding restore_tools_from_transcript_def Let_def same
    using ms n assms(3) by (simp only: if_False) (intro tracked_set_active reg, simp_all)
qed

lemma register_tracks:
  assumes "kept_or_pending c n s" "is_allowed_tool c n"
    "can_activate c s n \<Longrightarrow> can_activate c (register_extension_tools c i rs None s) n"
  shows "kept_or_pending c n (register_extension_tools c i rs None s)"
proof -
  let ?s = "s\<lparr>lo_extensions := (lo_extensions s)[i := fold put_definition rs (lo_extensions s ! i)]\<rparr>"
  have ok: "loadout_ok c (register_extension_tools c i rs None s)"
    using assms(1) by (simp add: kept_or_pending_def register_extension_tools_ok)
  have names: "get_active_tool_names ?s = get_active_tool_names s" by (simp add: get_active_tool_names_def)
  let ?names = "fromkeys (filter (is_allowed_tool c) (get_active_tool_names s) @
      activated_by_refresh c (filter (is_activated_on_registration ?s) (map fst (lo_registry s))) None None (register_all c ?s) @ lo_pending s)"
  have set: "register_extension_tools c i rs None s = set_active_tools c ?names (register_all c ?s)"
    by (simp add: register_extension_tools_def refresh_tool_registry_def Let_def names)
  have "can_activate c (register_extension_tools c i rs None s) n = can_activate c (register_all c ?s) n"
    unfolding set by (rule same_registry_laws(1) [OF set_active_tools_laws(3) [OF registry_ok_register]])
  with assms ok show ?thesis
    unfolding set by (intro tracked_set_active registry_ok_register) (auto simp: kept_or_pending_def split: if_splits)
qed

text \<open>A tool that can be active stays so while the others are registered.\<close>

fun stays_activatable :: "loadout_config \<Rightarrow> pystr \<Rightarrow> loadout \<Rightarrow> (nat \<times> definition_entry list) list \<Rightarrow> bool" where
  "stays_activatable c n s [] = True"
| "stays_activatable c n s ((i, rs) # later) =
    (let s' = register_extension_tools c i rs None s
     in (can_activate c s n \<longrightarrow> can_activate c s' n) \<and> stays_activatable c n s' later)"

definition register_each :: "loadout_config \<Rightarrow> (nat \<times> definition_entry list) list \<Rightarrow> loadout \<Rightarrow> loadout" where
  "register_each c regs s = fold (\<lambda>(i, rs). register_extension_tools c i rs None) regs s"

lemma registrations_track:
  "kept_or_pending c n s \<Longrightarrow> is_allowed_tool c n \<Longrightarrow> stays_activatable c n s regs \<Longrightarrow> kept_or_pending c n (register_each c regs s)"
  unfolding register_each_def
  by (induction regs arbitrary: s) (auto simp: Let_def register_tracks)

text \<open>
  C22. No recorded tool is lost: when a session is restored from a transcript that declares a tool, and
  extensions then register their tools one after another, the tool is active as soon as it is registered
  and may be active, and waits until then.
\<close>

theorem restored_tools_come_back:
  assumes "loadout_ok c s" "n \<in> tool_name ` set (get_current_tools branch)" "is_allowed_tool c n" "45 # n \<notin> set modifiers"
    "stays_activatable c n (restore_tools_from_transcript c branch modifiers s) regs"
  shows "let s' = register_each c regs (restore_tools_from_transcript c branch modifiers s)
    in if can_activate c s' n then n \<in> set (get_active_tool_names s') else n \<in> set (lo_pending s')"
  using registrations_track [OF restore_tracks [OF assms(1-4)] assms(3,5)] by (simp add: kept_or_pending_def Let_def)

subsection \<open>Requests\<close>

definition visible :: "pystr set \<Rightarrow> (pystr, tool) dict \<Rightarrow> (pystr, tool) dict" where
  "visible hidden d = filter (\<lambda>(n, t). n \<notin> hidden) d"

lemma visible_pop: "visible hidden (dict_pop n d) = (if n \<in> hidden then visible hidden d else dict_pop n (visible hidden d))"
  by (induction d) (auto simp: visible_def)

lemma visible_set:
  "visible hidden (dict_set n t d) = (if n \<in> hidden then visible hidden d else dict_set n t (visible hidden d))"
  by (induction d) (auto simp: visible_def)

lemma visible_changes:
  "visible hidden (apply_tool_changes m d) =
   apply_tool_changes (m\<lparr>sm_tools_added := non_empty (filter (\<lambda>t. tool_name t \<notin> hidden) (or_empty (sm_tools_added m))),
     sm_tools_removed := non_empty (filter (\<lambda>n. n \<notin> hidden) (or_empty (sm_tools_removed m)))\<rparr>) (visible hidden d)"
proof -
  have pops: "visible hidden (fold dict_pop ns d) = fold dict_pop (filter (\<lambda>n. n \<notin> hidden) ns) (visible hidden d)" for ns d
    by (induction ns arbitrary: d) (simp_all add: visible_pop)
  have sets: "visible hidden (fold (\<lambda>t. dict_set (tool_name t) t) ts d) =
      fold (\<lambda>t. dict_set (tool_name t) t) (filter (\<lambda>t. tool_name t \<notin> hidden) ts) (visible hidden d)" for ts d
    by (induction ts arbitrary: d) (simp_all add: visible_set)
  show ?thesis by (simp add: apply_tool_changes_def pops sets)
qed

text \<open>A system message as the projection leaves it.\<close>

definition hide_in :: "pystr set \<Rightarrow> system_message \<Rightarrow> system_message" where
  "hide_in hidden m =
    (if hidden = {} \<or> sm_tools_added m = None \<and> sm_tools_removed m = None then m
     else m\<lparr>sm_tools_added := non_empty (filter (\<lambda>t. tool_name t \<notin> hidden) (or_empty (sm_tools_added m))),
       sm_tools_removed := non_empty (filter (\<lambda>n. n \<notin> hidden) (or_empty (sm_tools_removed m)))\<rparr>)"

lemma hide_messages:
  "system_messages (hide_declarations hidden ms) = map (hide_in hidden) (system_messages ms)"
  "filter (\<lambda>m. \<not> is_system_msg m) (hide_declarations hidden ms) = filter (\<lambda>m. \<not> is_system_msg m) ms"
proof -
  have "system_messages (hide_declarations hidden ms) = map (hide_in hidden) (system_messages ms) \<and>
      filter (\<lambda>m. \<not> is_system_msg m) (hide_declarations hidden ms) = filter (\<lambda>m. \<not> is_system_msg m) ms"
  proof (cases "hidden = {}")
    case True
    then show ?thesis by (simp add: hide_declarations_def hide_in_def [abs_def])
  next
    case False
    then show ?thesis
      by (induction ms rule: system_messages.induct) (auto simp: hide_declarations_def hide_in_def)
  qed
  then show "system_messages (hide_declarations hidden ms) = map (hide_in hidden) (system_messages ms)"
    "filter (\<lambda>m. \<not> is_system_msg m) (hide_declarations hidden ms) = filter (\<lambda>m. \<not> is_system_msg m) ms" by blast+
qed

lemma visible_hide_in: "visible hidden (apply_tool_changes m d) = apply_tool_changes (hide_in hidden m) (visible hidden d)"
proof (cases "hidden = {}")
  case True
  then have "visible hidden d = d" for d by (simp add: visible_def)
  with True show ?thesis by (simp add: hide_in_def)
next
  case False
  show ?thesis
  proof (cases "sm_tools_added m = None \<and> sm_tools_removed m = None")
    case True
    then show ?thesis by (simp add: hide_in_def apply_tool_changes_def)
  next
    case none: False
    with \<open>hidden \<noteq> {}\<close> have "hide_in hidden m = m\<lparr>sm_tools_added := non_empty (filter (\<lambda>t. tool_name t \<notin> hidden) (or_empty (sm_tools_added m))),
       sm_tools_removed := non_empty (filter (\<lambda>n. n \<notin> hidden) (or_empty (sm_tools_removed m)))\<rparr>"
      by (simp only: hide_in_def if_False simp_thms)
    then show ?thesis by (simp only: visible_changes)
  qed
qed

lemma replayed_names: "(n, t) \<in> set (fold apply_tool_changes ss []) \<Longrightarrow> tool_name t = n"
  using tools_ok_replay [OF tools_ok_Nil, of ss] by (auto simp: tools_ok_def)

text \<open>
  C25. Hidden declarations are invisible and nothing else changes: the request the model gets replays to
  the declared tools without the hidden ones, in their order, to the same prompt, and keeps the other
  messages.
\<close>

theorem hidden_declarations_are_invisible:
  "get_current_tools (hide_declarations hidden ms) = filter (\<lambda>t. tool_name t \<notin> hidden) (get_current_tools ms) \<and>
   get_current_system_prompt (hide_declarations hidden ms) = get_current_system_prompt ms \<and>
   filter (\<lambda>m. \<not> is_system_msg m) (hide_declarations hidden ms) = filter (\<lambda>m. \<not> is_system_msg m) ms"
proof -
  have "visible hidden (fold apply_tool_changes ss d) = fold apply_tool_changes (map (hide_in hidden) ss) (visible hidden d)" for ss d
    by (induction ss arbitrary: d) (simp_all add: visible_hide_in)
  from this [of "system_messages ms" "[]"]
  have "fold apply_tool_changes (map (hide_in hidden) (system_messages ms)) [] = visible hidden (fold apply_tool_changes (system_messages ms) [])"
    by (simp add: visible_def)
  moreover have "map snd (visible hidden d) = filter (\<lambda>t. tool_name t \<notin> hidden) (map snd d)"
    if "\<forall>(n, t) \<in> set d. tool_name t = n" for d
    using that by (induction d) (auto simp: visible_def)
  ultimately have tools: "get_current_tools (hide_declarations hidden ms) = filter (\<lambda>t. tool_name t \<notin> hidden) (get_current_tools ms)"
    using replayed_names [of _ _ "system_messages ms"] by (auto simp: get_current_tools_def hide_messages(1))
  have "apply_prompt (hide_in hidden m) = apply_prompt m" for m
    by (simp add: fun_eq_iff apply_prompt_def hide_in_def sections_of_def)
  then have "fold apply_prompt (map (hide_in hidden) ss) = fold apply_prompt ss" for ss
    by (simp add: fold_map comp_def)
  moreover have "timestamp \<noteq> None" if "fold apply_prompt (system_messages ms) ([], [], None) = (c, d, timestamp)" "get_current_tools ms \<noteq> []"
    for c d timestamp
    using prompt_state_ok [OF that(1)] that(2) by (auto simp: get_current_tools_def)
  ultimately have "get_current_system_prompt (hide_declarations hidden ms) = get_current_system_prompt ms"
    by (auto simp: get_current_system_prompt_def get_current_system_message_def tools hide_messages(1) Let_def
      get_system_message_text_def sections_of_def split: prod.split option.splits)
  with tools hide_messages(2) show ?thesis by blast
qed

theorem forced_prompt_heads_the_request:
  assumes "po_force_system_prompt opts = Some forced"
  shows "let request = force_prompt now (Some opts) ms
    in get_current_system_prompt request = forced \<and> get_current_tools request = get_current_tools ms \<and>
       filter (\<lambda>m. \<not> is_system_msg m) request = filter (\<lambda>m. \<not> is_system_msg m) ms"
proof -
  let ?rest = "filter (\<lambda>m. \<not> is_system_msg m) ms"
  obtain h where h: "force_prompt now (Some opts) ms = SystemMsg h # ?rest" "sm_content h = StrContent forced" "sm_sections h = None"
    "sm_tools_removed h = None" "sm_tools_added h = Option.bind (get_current_system_message ms) sm_tools_added"
    using assms by (simp add: force_prompt_def Let_def)
  have "or_empty (sm_tools_added h) = get_current_tools ms"
  proof (cases "get_current_system_message ms")
    case None
    then show ?thesis
      by (auto simp: h(5) get_current_system_message_def Let_def split: prod.splits if_splits)
  next
    case (Some m)
    then have "sm_tools_added m = non_empty (get_current_tools ms)"
      by (auto simp: get_current_system_message_def Let_def split: prod.splits if_splits)
    with Some show ?thesis by (simp add: h(5))
  qed
  with h(4) have tools: "get_current_tools (SystemMsg h # ?rest) = get_current_tools ms"
    by (intro current_tools_of_head) (simp_all add: distinct_current_tools)
  have "get_current_system_prompt (SystemMsg h # ?rest) = forced"
    using h(2,3) by (simp add: get_current_system_prompt_def get_current_system_message_def system_messages_filter apply_prompt_def Let_def
      sections_of_def get_system_message_text_def non_empty_def)
  with tools show ?thesis by (simp add: h(1) Let_def)
qed

subsection \<open>The prompt and the loadout agree\<close>

lemma finite_hidden: "finite h \<Longrightarrow> fold (run_hook view) hooks (d, h, e) = (d', h', e') \<Longrightarrow> finite h'"
proof (induction hooks arbitrary: d h e)
  case Nil
  then show ?case by simp
next
  case (Cons hook hooks)
  obtain d1 h1 e1 where step: "run_hook view hook (d, h, e) = (d1, h1, e1)" by (rule prod_cases3)
  then have "finite h1" using Cons.prems(1) by (auto simp: run_hook_def split: option.splits sum.splits)
  with Cons step show ?case by simp
qed

lemma apply_tool_loadout_hidden: "apply_tool_loadout c names s = (s', tools) \<Longrightarrow> finite (lo_hidden s')"
  by (auto simp: apply_tool_loadout_def Let_def split: prod.splits intro: finite_hidden)

text \<open>
  C24. The request follows the loadout: after the prompt of a run or a turn is prepared, its options name
  exactly the active tools and the hidden ones, and the transcript with the update, if there is one,
  carries the sections built from these options and the tools it had.
\<close>

theorem prepared_prompt_follows_the_loadout:
  assumes "registry_ok c s" "prepare_prompt_and_tool_loadout c p now opts ms s = (s', opts', Inr update)"
  shows "po_selected_tools opts' = Some (get_active_tool_names s') \<and>
    get_active_tool_names s' = filter (\<lambda>n. loadout_tool c s n \<noteq> None) (fromkeys (or_empty (po_selected_tools opts))) \<and>
    set (or_empty (po_hidden_tools opts')) = lo_hidden s' \<and>
    (\<exists>sections. build_system_prompt_sections p opts' = Inr sections \<and>
      (let after = ms @ (case update of None \<Rightarrow> [] | Some m \<Rightarrow> [SystemMsg m])
       in same_sections (replayed_sections after) sections \<and> get_current_tools after = get_current_tools ms))"
proof -
  obtain s1 tools where a: "apply_tool_loadout c (or_empty (po_selected_tools opts)) s = (s1, tools)" by force
  note l = apply_tool_loadout_laws [OF assms(1) a]
  from assms(2) have r: "s' = s1" "opts' = opts\<lparr>po_selected_tools := Some (map tool_name tools),
      po_hidden_tools := Some (sorted_list_of_set (lo_hidden s1))\<rparr>"
    by (auto simp: prepare_prompt_and_tool_loadout_def a Let_def)
  from assms(2) obtain sections where built: "build_system_prompt_sections p opts' = Inr sections"
    and update: "update = prompt_update now ms sections"
    by (auto simp: prepare_prompt_and_tool_loadout_def a Let_def r(2) map_sum_def split: sum.splits)
  note ups = update_reaches [OF built, where now = now and ms = ms]
  have can: "can_activate c s = (\<lambda>n. \<exists>y. loadout_tool c s n = Some y)" by (simp add: can_activate_def fun_eq_iff)
  show ?thesis using ups built l apply_tool_loadout_hidden [OF a]
    by (auto simp: r get_active_tool_names_def update can split: option.splits)
qed

subsection \<open>The default selection\<close>

lemma plain_filter: "filter (\<lambda>e. \<not> is_tool_modifier e) (xs @ ys) = filter (\<lambda>e. \<not> is_tool_modifier e) xs"
  if "\<forall>y \<in> set ys. is_tool_modifier y"
  using that by (simp add: filter_empty_conv)

lemma override_modifies_the_inherited_selection:
  assumes "\<forall>y \<in> set ys. is_tool_modifier y" "xs \<noteq> []"
  shows "merge_default_tools (Some (JArr (map JStr xs))) (JArr (map JStr ys)) = JArr (map JStr (xs @ ys))"
    "resolve_default_tools (xs @ ys) = apply_tool_modifiers (resolve_default_tools xs) ys"
  using assms by (simp_all add: merge_default_tools_def list_all_iff resolve_default_tools_def Let_def plain_filter apply_tool_modifiers_def)

text \<open>An inherited empty selection is not modified but replaced: the defaults come back.\<close>

lemma override_of_the_empty_selection:
  "get_default_tools (Some (JArr [])) = Some []"
  "get_default_tools (Some (merge_default_tools (Some (JArr [])) (JArr [JStr (lit ''+grep'')]))) =
     Some (DEFAULT_TOOL_NAMES @ [lit ''grep''])"
  by code_simp+

lemma override_modifies_the_inherited_selection_witness:
  "resolve_default_tools ([lit ''ls''] @ [lit ''+grep'']) = apply_tool_modifiers (resolve_default_tools [lit ''ls'']) [lit ''+grep'']"
  by (rule override_modifies_the_inherited_selection(2)) code_simp+

subsection \<open>Examples\<close>

definition example_definition :: "string \<Rightarrow> tool_definition" where
  "example_definition n = \<lparr>td_tool = example_tool n ''x'', td_exposure = None, td_namespace = None, td_default_active = None,
     td_snippet = None, td_guidelines = None, td_prepare = None\<rparr>"

definition example_config :: loadout_config where
  "example_config = \<lparr>cg_allowed = None, cg_excluded = Some [lit ''b*''], cg_uses_default = True, cg_modifiers = [], cg_custom = [],
     cg_cwd = lit ''/w'', cg_prompt = None, cg_append = None, cg_skills = [], cg_context_files = []\<rparr>"

definition example_loadout :: loadout where
  "example_loadout = start_loadout example_config [(lit ''read'', example_definition ''read''), (lit ''bash'', example_definition ''bash'')]
     [[]] [lit ''read'', lit ''bash''] []"

definition example_branch :: "message list" where
  "example_branch = [SystemMsg (example_system [example_tool ''read'' ''x'', example_tool ''late'' ''y''] [])]"

lemma example_loadout_reachable: "reachable (loadout_start example_config) (loadout_step example_config) example_loadout"
  unfolding reachable_def loadout_start_def example_loadout_def by blast

theorem reachable_loadouts_are_consistent_witness:
  "\<exists>s. reachable (loadout_start example_config) (loadout_step example_config) s \<and>
     map tool_name (lo_tools s) = [lit ''read''] \<and> is_allowed_tool example_config (lit ''read'')"
proof -
  have "map tool_name (lo_tools example_loadout) = [lit ''read'']" by code_simp
  with reachable_loadouts_are_consistent [OF example_loadout_reachable] example_loadout_reachable show ?thesis
    by (intro exI [of _ example_loadout]) auto
qed

theorem restored_tools_come_back_witness:
  "let s1 = restore_tools_from_transcript example_config example_branch [] example_loadout;
       s2 = register_each example_config [(0, [\<lparr>de_definition = example_definition ''late'', de_path = []\<rparr>])] s1
   in lit ''late'' \<in> set (lo_pending s1) \<and> lit ''late'' \<in> set (get_active_tool_names s2)"
proof -
  let ?s1 = "restore_tools_from_transcript example_config example_branch [] example_loadout"
  let ?regs = "[(0, [\<lparr>de_definition = example_definition ''late'', de_path = []\<rparr>])]"
  have ok: "loadout_ok example_config example_loadout" using loadouts.reachable_inv [OF example_loadout_reachable] .
  have declared: "lit ''late'' \<in> tool_name ` set (get_current_tools example_branch)" by code_simp
  have allowed: "is_allowed_tool example_config (lit ''late'')" by code_simp
  have stays: "stays_activatable example_config (lit ''late'') ?s1 ?regs" by code_simp
  have "can_activate example_config (register_each example_config ?regs ?s1) (lit ''late'')" by code_simp
  with restored_tools_come_back [OF ok declared allowed _ stays]
  have "lit ''late'' \<in> set (get_active_tool_names (register_each example_config ?regs ?s1))" by (simp add: Let_def)
  moreover have "lit ''late'' \<in> set (lo_pending ?s1)" by code_simp
  ultimately show ?thesis by (simp add: Let_def)
qed

theorem forced_prompt_heads_the_request_witness:
  "get_current_system_prompt (force_prompt 0 (Some (example_prompt_options\<lparr>po_force_system_prompt := Some (lit ''F'')\<rparr>)) example_branch) = lit ''F''"
  using forced_prompt_heads_the_request [of "example_prompt_options\<lparr>po_force_system_prompt := Some (lit ''F'')\<rparr>" "lit ''F''" 0 example_branch]
  by (simp add: Let_def)

theorem prepared_prompt_follows_the_loadout_witness:
  "\<exists>s' opts' m. prepare_prompt_and_tool_loadout example_config example_paths 0 (lo_prompt example_loadout\<lparr>po_custom_prompt := Some (lit ''Hi'')\<rparr>)
       example_branch example_loadout = (s', opts', Inr (Some m)) \<and>
     po_selected_tools opts' = Some [lit ''read''] \<and>
     get_current_tools (example_branch @ [SystemMsg m]) = get_current_tools example_branch"
proof -
  let ?opts = "lo_prompt example_loadout\<lparr>po_custom_prompt := Some (lit ''Hi'')\<rparr>"
  have reg: "registry_ok example_config example_loadout"
    using loadouts.reachable_inv [OF example_loadout_reachable] by (simp add: loadout_ok_def)
  have "case prepare_prompt_and_tool_loadout example_config example_paths 0 ?opts example_branch example_loadout of
      (s', opts', Inr (Some m)) \<Rightarrow> po_selected_tools opts' = Some [lit ''read''] | _ \<Rightarrow> False" by code_simp
  then obtain s' opts' m where run: "prepare_prompt_and_tool_loadout example_config example_paths 0 ?opts example_branch example_loadout =
      (s', opts', Inr (Some m))" "po_selected_tools opts' = Some [lit ''read'']"
    by (auto split: prod.splits sum.splits option.splits)
  from prepared_prompt_follows_the_loadout [OF reg run(1)]
  have "get_current_tools (example_branch @ [SystemMsg m]) = get_current_tools example_branch" by (auto simp: Let_def)
  with run show ?thesis by blast
qed

end
