(* ===== verification/Agent_Tools.thy ===== *)
theory Agent_Tools
  imports Transcript "HOL-Library.Multiset"
begin

text \<open>
  Tool calls of the agent loop (\<open>pidrei_agent/agent_loop.py\<close>, with the types of
  \<open>pidrei_agent/types.py\<close>): how a call of an assistant message is resolved, validated and approved,
  run, finalized, and turned into a result message; the sequential and the parallel batch.

  Everything the loop calls (tools, hooks, the event sink, the cancel token, the clock) acts on a
  world \<open>'w\<close> and is a function of it. Tools and the two tool hooks may raise, which is an error
  value. A tool's run is given by the updates it sends before it settles and by its outcome. The
  tasks of a parallel batch interleave in any order, which is a schedule.
\<close>

subsection \<open>Results, tools and events\<close>

record agent_result =
  ar_content :: "block list option"
  ar_details :: json
  ar_structured :: "json option"
  ar_usage :: "usage option"
  ar_is_error :: "bool option"
  ar_terminate :: "bool option"
  ar_nested_calls :: "nested_tool_calls option"
  ar_nested_usage :: "usage option"

type_synonym call_args = "(pystr, json) dict"

datatype execution_mode = Sequential | Parallel

record tool_run =
  tr_updates :: "agent_result list"
  tr_outcome :: "agent_result result"
  tr_duration :: int

record 'w agent_tool =
  at_tool :: tool
  at_mode :: "execution_mode option"
  at_prepare :: "(call_args \<Rightarrow> call_args result) option"
  at_execute :: "pystr \<Rightarrow> call_args \<Rightarrow> 'w \<Rightarrow> tool_run \<times> 'w"

record 'w agent_context =
  ac_messages :: "message list"
  ac_tools :: "'w agent_tool list option"

record before_result =
  br_block :: "bool option"
  br_reason :: "pystr option"
  br_terminate :: "bool option"

record after_result =
  fr_content :: "block list option"
  fr_details :: json
  fr_structured :: "json option"
  fr_is_error :: "bool option"
  fr_usage :: "usage option"
  fr_terminate :: "bool option"

record 'w before_context =
  bc_message :: assistant_message
  bc_call :: tool_call
  bc_args :: call_args
  bc_context :: "'w agent_context"

record 'w after_context =
  fc_message :: assistant_message
  fc_call :: tool_call
  fc_args :: call_args
  fc_result :: agent_result
  fc_is_error :: bool
  fc_context :: "'w agent_context"

record 'w hooks =
  hk_before :: "('w before_context \<Rightarrow> 'w \<Rightarrow> before_result option result \<times> 'w) option"
  hk_after :: "('w after_context \<Rightarrow> 'w \<Rightarrow> after_result option result \<times> 'w) option"

text \<open>Stream events: the start, one of the nine block events, the two final ones, or another type.\<close>

datatype stream_event = StreamStart assistant_message | StreamDelta pystr assistant_message | StreamDone | StreamOther pystr

datatype event =
    AgentStart
  | AgentEnd "message list"
  | TurnStart
  | TurnEnd message "tool_result_message list"
  | MessageStart message
  | MessageUpdate message stream_event
  | MessageEnd message
  | ToolStart pystr pystr call_args
  | ToolUpdate pystr pystr call_args agent_result
  | ToolEnd pystr pystr agent_result bool "int option"

text \<open>The collaborators of the loop, and the events emitted so far with the world they led to.\<close>

record 'w host =
  ho_sink :: "event \<Rightarrow> 'w \<Rightarrow> 'w"
  ho_cancelled :: "'w \<Rightarrow> bool"
  ho_now :: "'w \<Rightarrow> int"
  ho_validate :: "tool \<Rightarrow> call_args \<Rightarrow> call_args result"
  ho_fadd :: "pyfloat \<Rightarrow> pyfloat \<Rightarrow> pyfloat"
  ho_schedule :: "'w \<Rightarrow> nat list"

record 'w run =
  ru_events :: "event list"
  ru_world :: 'w

definition emit :: "'w host \<Rightarrow> event \<Rightarrow> 'w run \<Rightarrow> 'w run" where
  "emit h e r = r\<lparr>ru_events := ru_events r @ [e], ru_world := ho_sink h e (ru_world r)\<rparr>"

subsection \<open>Preparing a call\<close>

definition error_result :: "pystr \<Rightarrow> agent_result" where
  "error_result text =
    \<lparr>ar_content = Some [TextContent text None], ar_details = JObj [], ar_structured = None, ar_usage = None,
     ar_is_error = None, ar_terminate = None, ar_nested_calls = None, ar_nested_usage = None\<rparr>"

record 'w prepared_call =
  pc_call :: tool_call
  pc_tool :: "'w agent_tool"
  pc_args :: call_args

datatype 'w preparation = Immediate agent_result bool | Prepared "'w prepared_call"

definition failed :: "pystr \<Rightarrow> 'w preparation" where
  "failed text = Immediate (error_result text) True"

definition prepare_arguments :: "'w agent_tool \<Rightarrow> tool_call \<Rightarrow> tool_call result" where
  "prepare_arguments tool call =
    (case at_prepare tool of
       None \<Rightarrow> Inr call
     | Some prepare \<Rightarrow> map_sum id (\<lambda>args. call\<lparr>call_arguments := args\<rparr>) (prepare (call_arguments call)))"

definition find_tool :: "'w agent_tool list \<Rightarrow> tool_call \<Rightarrow> 'w agent_tool option" where
  "find_tool tools call = find (\<lambda>t. tool_name (at_tool t) = call_name call) tools"

definition context_tools :: "'w agent_context \<Rightarrow> 'w agent_tool list" where
  "context_tools ctx = or_empty (ac_tools ctx)"

definition blocked :: "before_result \<Rightarrow> 'w preparation" where
  "blocked b =
    (let reason = (case br_reason b of Some r \<Rightarrow> if r = [] then lit ''Tool execution was blocked'' else r
                   | None \<Rightarrow> lit ''Tool execution was blocked'');
         result = error_result reason
     in Immediate (if br_terminate b = Some True then result\<lparr>ar_terminate := Some True\<rparr> else result) True)"

definition aborted :: "'w preparation" where
  "aborted = failed (lit ''Operation aborted'')"

definition prepare_tool_call ::
  "'w host \<Rightarrow> 'w hooks \<Rightarrow> 'w agent_context \<Rightarrow> assistant_message \<Rightarrow> tool_call \<Rightarrow> 'w agent_tool list option \<Rightarrow>
   'w \<Rightarrow> 'w preparation \<times> 'w" where
  "prepare_tool_call h hk ctx msg call tools w =
    (let candidates = (case tools of Some ts \<Rightarrow> ts | None \<Rightarrow> context_tools ctx)
     in case find_tool candidates call of
          None \<Rightarrow> (failed (lit ''Tool '' @ call_name call @ lit '' not found''), w)
        | Some tool \<Rightarrow>
            (case prepare_arguments tool call of
               Inl err \<Rightarrow> (failed err, w)
             | Inr prepared_call \<Rightarrow>
                 (case ho_validate h (at_tool tool) (call_arguments prepared_call) of
                    Inl err \<Rightarrow> (failed err, w)
                  | Inr args \<Rightarrow>
                      let prepared = Prepared \<lparr>pc_call = call, pc_tool = tool, pc_args = args\<rparr>
                      in case hk_before hk of
                           None \<Rightarrow> (if ho_cancelled h w then aborted else prepared, w)
                         | Some before \<Rightarrow>
                             (case before \<lparr>bc_message = msg, bc_call = call, bc_args = args, bc_context = ctx\<rparr> w of
                                (Inl err, w') \<Rightarrow> (failed err, w')
                              | (Inr decision, w') \<Rightarrow>
                                  (if ho_cancelled h w' then aborted
                                   else case decision of
                                     Some b \<Rightarrow> if br_block b = Some True then blocked b else prepared
                                   | None \<Rightarrow> prepared, w')))))"

subsection \<open>Running and finalizing\<close>

record executed_call =
  xc_result :: agent_result
  xc_is_error :: bool
  xc_duration :: int
  xc_nested_calls :: "nested_tool_calls option"
  xc_nested_usage :: "usage option"

record finalized_call =
  fz_call :: tool_call
  fz_result :: agent_result
  fz_is_error :: bool
  fz_nested_calls :: "nested_tool_calls option"
  fz_nested_usage :: "usage option"
  fz_duration :: "int option"

text \<open>What \<open>_execute_prepared_tool_call\<close> makes of a tool's run, its updates aside.\<close>

definition settle_run :: "tool_run \<Rightarrow> executed_call" where
  "settle_run run =
    (case tr_outcome run of
       Inl err \<Rightarrow> \<lparr>xc_result = error_result err, xc_is_error = True, xc_duration = tr_duration run,
                   xc_nested_calls = None, xc_nested_usage = None\<rparr>
     | Inr result \<Rightarrow> \<lparr>xc_result = result\<lparr>ar_nested_calls := None, ar_nested_usage := None\<rparr>,
                      xc_is_error = (ar_is_error result = Some True), xc_duration = tr_duration run,
                      xc_nested_calls = ar_nested_calls result, xc_nested_usage = ar_nested_usage result\<rparr>)"

definition or_else :: "'a option \<Rightarrow> 'a option \<Rightarrow> 'a option" where
  "or_else a b = (if a \<noteq> None then a else b)"

definition override_result :: "after_result \<Rightarrow> agent_result \<Rightarrow> agent_result" where
  "override_result after result =
    (let structured = (if fr_structured after = None \<and> fr_content after = None then ar_structured result
                       else fr_structured after)
     in result\<lparr>ar_content := or_else (fr_content after) (ar_content result),
               ar_details := (if fr_details after \<noteq> JNull then fr_details after else ar_details result),
               ar_usage := or_else (fr_usage after) (ar_usage result),
               ar_terminate := or_else (fr_terminate after) (ar_terminate result),
               ar_structured := structured\<rparr>)"

definition finalize_executed ::
  "'w hooks \<Rightarrow> 'w agent_context \<Rightarrow> assistant_message \<Rightarrow> 'w prepared_call \<Rightarrow> executed_call \<Rightarrow> 'w \<Rightarrow> finalized_call \<times> 'w" where
  "finalize_executed hk ctx msg prepared executed w =
    (let final = (\<lambda>result is_error. \<lparr>fz_call = pc_call prepared, fz_result = result, fz_is_error = is_error,
           fz_nested_calls = xc_nested_calls executed, fz_nested_usage = xc_nested_usage executed,
           fz_duration = Some (xc_duration executed)\<rparr>)
     in case hk_after hk of
          None \<Rightarrow> (final (xc_result executed) (xc_is_error executed), w)
        | Some after \<Rightarrow>
            (case after \<lparr>fc_message = msg, fc_call = pc_call prepared, fc_args = pc_args prepared,
                         fc_result = xc_result executed, fc_is_error = xc_is_error executed, fc_context = ctx\<rparr> w of
               (Inl err, w') \<Rightarrow> (final (error_result err) True, w')
             | (Inr None, w') \<Rightarrow> (final (xc_result executed) (xc_is_error executed), w')
             | (Inr (Some a), w') \<Rightarrow>
                 (final (override_result a (xc_result executed))
                    (case fr_is_error a of Some b \<Rightarrow> b | None \<Rightarrow> xc_is_error executed), w')))"

definition unexecuted :: "tool_call \<Rightarrow> agent_result \<Rightarrow> bool \<Rightarrow> finalized_call" where
  "unexecuted call result is_error =
    \<lparr>fz_call = call, fz_result = result, fz_is_error = is_error, fz_nested_calls = None, fz_nested_usage = None,
     fz_duration = None\<rparr>"

definition start_event :: "tool_call \<Rightarrow> event" where
  "start_event call = ToolStart (call_id call) (call_name call) (call_arguments call)"

definition update_event :: "tool_call \<Rightarrow> agent_result \<Rightarrow> event" where
  "update_event call partial = ToolUpdate (call_id call) (call_name call) (call_arguments call) partial"

definition end_event :: "finalized_call \<Rightarrow> event" where
  "end_event f = ToolEnd (call_id (fz_call f)) (call_name (fz_call f)) (fz_result f) (fz_is_error f) (fz_duration f)"

definition result_message :: "'w host \<Rightarrow> finalized_call \<Rightarrow> 'w \<Rightarrow> tool_result_message" where
  "result_message h f w =
    \<lparr>trm_tool_call_id = call_id (fz_call f), trm_tool_name = call_name (fz_call f),
     trm_content = or_empty (ar_content (fz_result f)), trm_is_error = fz_is_error f, trm_timestamp = ho_now h w,
     trm_details = ar_details (fz_result f),
     trm_usage = (case fz_nested_usage f of
        None \<Rightarrow> ar_usage (fz_result f)
      | Some nested \<Rightarrow> Some (case ar_usage (fz_result f) of
            None \<Rightarrow> nested | Some usage \<Rightarrow> combine_usage (ho_fadd h) usage nested)),
     trm_nested_calls = fz_nested_calls f, trm_duration_ms = fz_duration f\<rparr>"

definition emit_message :: "'w host \<Rightarrow> message \<Rightarrow> 'w run \<Rightarrow> 'w run" where
  "emit_message h m r = emit h (MessageEnd m) (emit h (MessageStart m) r)"

definition report_result :: "'w host \<Rightarrow> finalized_call \<Rightarrow> 'w run \<Rightarrow> tool_result_message \<times> 'w run" where
  "report_result h f r =
    (let m = result_message h f (ru_world r) in (m, emit_message h (ToolResultMsg m) r))"

definition emit_updates :: "'w host \<Rightarrow> tool_call \<Rightarrow> agent_result list \<Rightarrow> 'w run \<Rightarrow> 'w run" where
  "emit_updates h call updates r = fold (\<lambda>u. emit h (update_event call u)) updates r"

definition execute_prepared ::
  "'w host \<Rightarrow> 'w hooks \<Rightarrow> 'w agent_context \<Rightarrow> assistant_message \<Rightarrow> 'w prepared_call \<Rightarrow> 'w run \<Rightarrow> finalized_call \<times> 'w run" where
  "execute_prepared h hk ctx msg p r =
    (let (run, w) = at_execute (pc_tool p) (call_id (pc_call p)) (pc_args p) (ru_world r);
         r1 = emit_updates h (pc_call p) (tr_updates run) (r\<lparr>ru_world := w\<rparr>);
         (f, w') = finalize_executed hk ctx msg p (settle_run run) (ru_world r1)
     in (f, r1\<lparr>ru_world := w'\<rparr>))"

text \<open>\<open>run_tool_call\<close>: the same steps for a call another tool makes, with updates to a sink of its own.\<close>

record call_outcome =
  co_call :: tool_call
  co_result :: agent_result
  co_is_error :: bool
  co_duration :: "int option"

definition run_tool_call ::
  "'w host \<Rightarrow> 'w hooks \<Rightarrow> 'w agent_context \<Rightarrow> assistant_message \<Rightarrow> 'w agent_tool list \<Rightarrow>
   (agent_result \<Rightarrow> 'w \<Rightarrow> 'w) option \<Rightarrow> tool_call \<Rightarrow> 'w \<Rightarrow> call_outcome \<times> 'w" where
  "run_tool_call h hk ctx msg tools on_update call w =
    (case prepare_tool_call h hk ctx msg call (Some tools) w of
       (Immediate result is_error, w1) \<Rightarrow>
         (\<lparr>co_call = call, co_result = result, co_is_error = is_error, co_duration = None\<rparr>, w1)
     | (Prepared p, w1) \<Rightarrow>
         (let (run, w2) = at_execute (pc_tool p) (call_id (pc_call p)) (pc_args p) w1;
              w3 = (case on_update of None \<Rightarrow> w2 | Some sink \<Rightarrow> fold sink (tr_updates run) w2);
              (f, w4) = finalize_executed hk ctx msg p (settle_run run) w3
          in (\<lparr>co_call = fz_call f, co_result = fz_result f, co_is_error = fz_is_error f, co_duration = fz_duration f\<rparr>, w4)))"

subsection \<open>Batches\<close>

definition should_terminate :: "finalized_call list \<Rightarrow> bool" where
  "should_terminate fs \<longleftrightarrow> fs \<noteq> [] \<and> list_all (\<lambda>f. ar_terminate (fz_result f) = Some True) fs"

record batch =
  ba_messages :: "tool_result_message list"
  ba_terminate :: bool

definition truncated_text :: "pystr \<Rightarrow> pystr" where
  "truncated_text name = lit ''Tool call '' @ [34] @ name @ [34] @
     lit '' was not executed: the response hit the output token limit, '' @
     lit ''so its arguments may be truncated. Re-issue the tool call with complete arguments.''"

fun fail_truncated_calls :: "'w host \<Rightarrow> tool_call list \<Rightarrow> 'w run \<Rightarrow> tool_result_message list \<times> 'w run" where
  "fail_truncated_calls h [] r = ([], r)"
| "fail_truncated_calls h (call # calls) r =
    (let f = unexecuted call (error_result (truncated_text (call_name call))) True;
         (m, r1) = report_result h f (emit h (end_event f) (emit h (start_event call) r));
         (ms, r2) = fail_truncated_calls h calls r1
     in (m # ms, r2))"

definition fail_tool_calls_from_truncated_message :: "'w host \<Rightarrow> tool_call list \<Rightarrow> 'w run \<Rightarrow> batch \<times> 'w run" where
  "fail_tool_calls_from_truncated_message h calls r =
    (case fail_truncated_calls h calls r of (ms, r') \<Rightarrow> (\<lparr>ba_messages = ms, ba_terminate = False\<rparr>, r'))"

text \<open>The loop of the sequential batch: the calls finalized, with their messages.\<close>

fun run_sequential ::
  "'w host \<Rightarrow> 'w hooks \<Rightarrow> 'w agent_context \<Rightarrow> assistant_message \<Rightarrow> tool_call list \<Rightarrow> 'w run \<Rightarrow>
   (finalized_call \<times> tool_result_message) list \<times> 'w run" where
  "run_sequential h hk ctx msg [] r = ([], r)"
| "run_sequential h hk ctx msg (call # calls) r =
    (let r0 = emit h (start_event call) r;
         (prep, w) = prepare_tool_call h hk ctx msg call None (ru_world r0);
         r1 = r0\<lparr>ru_world := w\<rparr>;
         (f, r2) = (case prep of
             Immediate result is_error \<Rightarrow> (unexecuted call result is_error, r1)
           | Prepared p \<Rightarrow> execute_prepared h hk ctx msg p r1);
         (m, r3) = report_result h f (emit h (end_event f) r2)
     in if ho_cancelled h (ru_world r3) then ([(f, m)], r3)
        else case run_sequential h hk ctx msg calls r3 of (rest, r4) \<Rightarrow> ((f, m) # rest, r4))"

definition execute_sequential ::
  "'w host \<Rightarrow> 'w hooks \<Rightarrow> 'w agent_context \<Rightarrow> assistant_message \<Rightarrow> tool_call list \<Rightarrow> 'w run \<Rightarrow> batch \<times> 'w run" where
  "execute_sequential h hk ctx msg calls r =
    (case run_sequential h hk ctx msg calls r of
       (done, r') \<Rightarrow> (\<lparr>ba_messages = map snd done, ba_terminate = should_terminate (map fst done)\<rparr>, r'))"

text \<open>
  A task of the parallel batch: not started, running with the updates still to come, finalized with
  the end event still to come, or settled.
\<close>

datatype 'w task =
    Ready "'w prepared_call"
  | Running "'w prepared_call" "agent_result list" executed_call
  | Closing finalized_call
  | Settled finalized_call

fun task_step ::
  "'w host \<Rightarrow> 'w hooks \<Rightarrow> 'w agent_context \<Rightarrow> assistant_message \<Rightarrow> 'w task \<Rightarrow> 'w run \<Rightarrow> 'w task \<times> 'w run" where
  "task_step h hk ctx msg (Ready p) r =
    (if ho_cancelled h (ru_world r)
     then (let f = unexecuted (pc_call p) (error_result (lit ''Operation aborted'')) True
           in (Settled f, emit h (end_event f) r))
     else case at_execute (pc_tool p) (call_id (pc_call p)) (pc_args p) (ru_world r) of
       (run, w) \<Rightarrow> (Running p (tr_updates run) (settle_run run), r\<lparr>ru_world := w\<rparr>))"
| "task_step h hk ctx msg (Running p (u # us) x) r = (Running p us x, emit h (update_event (pc_call p) u) r)"
| "task_step h hk ctx msg (Running p [] x) r =
    (case finalize_executed hk ctx msg p x (ru_world r) of (f, w) \<Rightarrow> (Closing f, r\<lparr>ru_world := w\<rparr>))"
| "task_step h hk ctx msg (Closing f) r = (Settled f, emit h (end_event f) r)"
| "task_step h hk ctx msg (Settled f) r = (Settled f, r)"

fun run_schedule ::
  "'w host \<Rightarrow> 'w hooks \<Rightarrow> 'w agent_context \<Rightarrow> assistant_message \<Rightarrow> nat list \<Rightarrow> 'w task list \<Rightarrow> 'w run \<Rightarrow>
   'w task list \<times> 'w run" where
  "run_schedule h hk ctx msg [] tasks r = (tasks, r)"
| "run_schedule h hk ctx msg (i # is) tasks r =
    (if i < length tasks
     then case task_step h hk ctx msg (tasks ! i) r of
            (t, r') \<Rightarrow> run_schedule h hk ctx msg is (tasks[i := t]) r'
     else run_schedule h hk ctx msg is tasks r)"

text \<open>Tasks the schedule leaves unsettled run to their end one after the other.\<close>

fun settle_task ::
  "'w host \<Rightarrow> 'w hooks \<Rightarrow> 'w agent_context \<Rightarrow> assistant_message \<Rightarrow> 'w task \<Rightarrow> 'w run \<Rightarrow> finalized_call \<times> 'w run" where
  "settle_task h hk ctx msg (Settled f) r = (f, r)"
| "settle_task h hk ctx msg (Closing f) r = (f, emit h (end_event f) r)"
| "settle_task h hk ctx msg (Running p us x) r =
    (let r1 = emit_updates h (pc_call p) us r;
         (f, w) = finalize_executed hk ctx msg p x (ru_world r1)
     in (f, emit h (end_event f) (r1\<lparr>ru_world := w\<rparr>)))"
| "settle_task h hk ctx msg (Ready p) r =
    (if ho_cancelled h (ru_world r)
     then (let f = unexecuted (pc_call p) (error_result (lit ''Operation aborted'')) True
           in (f, emit h (end_event f) r))
     else case execute_prepared h hk ctx msg p r of (f, r1) \<Rightarrow> (f, emit h (end_event f) r1))"

fun settle_tasks ::
  "'w host \<Rightarrow> 'w hooks \<Rightarrow> 'w agent_context \<Rightarrow> assistant_message \<Rightarrow> 'w task list \<Rightarrow> 'w run \<Rightarrow> finalized_call list \<times> 'w run" where
  "settle_tasks h hk ctx msg [] r = ([], r)"
| "settle_tasks h hk ctx msg (t # ts) r =
    (let (f, r1) = settle_task h hk ctx msg t r; (fs, r2) = settle_tasks h hk ctx msg ts r1 in (f # fs, r2))"

text \<open>The loop that starts and prepares the calls in order; it stops when the run is cancelled.\<close>

fun prepare_batch ::
  "'w host \<Rightarrow> 'w hooks \<Rightarrow> 'w agent_context \<Rightarrow> assistant_message \<Rightarrow> tool_call list \<Rightarrow> 'w run \<Rightarrow> 'w task list \<times> 'w run" where
  "prepare_batch h hk ctx msg [] r = ([], r)"
| "prepare_batch h hk ctx msg (call # calls) r =
    (let r0 = emit h (start_event call) r;
         (prep, w) = prepare_tool_call h hk ctx msg call None (ru_world r0);
         r1 = r0\<lparr>ru_world := w\<rparr>;
         (t, r2) = (case prep of
             Immediate result is_error \<Rightarrow>
               (let f = unexecuted call result is_error in (Settled f, emit h (end_event f) r1))
           | Prepared p \<Rightarrow> (Ready p, r1))
     in if ho_cancelled h (ru_world r2) then ([t], r2)
        else case prepare_batch h hk ctx msg calls r2 of (ts, r3) \<Rightarrow> (t # ts, r3))"

fun report_results :: "'w host \<Rightarrow> finalized_call list \<Rightarrow> 'w run \<Rightarrow> tool_result_message list \<times> 'w run" where
  "report_results h [] r = ([], r)"
| "report_results h (f # fs) r =
    (let (m, r1) = report_result h f r; (ms, r2) = report_results h fs r1 in (m # ms, r2))"

definition execute_parallel ::
  "'w host \<Rightarrow> 'w hooks \<Rightarrow> 'w agent_context \<Rightarrow> assistant_message \<Rightarrow> tool_call list \<Rightarrow> 'w run \<Rightarrow> batch \<times> 'w run" where
  "execute_parallel h hk ctx msg calls r =
    (let (tasks, r1) = prepare_batch h hk ctx msg calls r;
         (tasks', r2) = run_schedule h hk ctx msg (ho_schedule h (ru_world r1)) tasks r1;
         (fs, r3) = settle_tasks h hk ctx msg tasks' r2;
         (ms, r4) = report_results h fs r3
     in (\<lparr>ba_messages = ms, ba_terminate = should_terminate fs\<rparr>, r4))"

definition execute_tool_calls ::
  "'w host \<Rightarrow> 'w hooks \<Rightarrow> execution_mode option \<Rightarrow> 'w agent_context \<Rightarrow> assistant_message \<Rightarrow> 'w run \<Rightarrow> batch \<times> 'w run" where
  "execute_tool_calls h hk mode ctx msg r =
    (let calls = tool_calls_of (am_content msg);
         tools = context_tools ctx;
         has_sequential = list_ex (\<lambda>c. Option.bind (find_tool tools c) at_mode = Some Sequential) calls
     in if mode = Some Sequential \<or> has_sequential then execute_sequential h hk ctx msg calls r
        else execute_parallel h hk ctx msg calls r)"

subsection \<open>Emitted messages and the event protocol\<close>

fun ended_messages :: "event list \<Rightarrow> message list" where
  "ended_messages [] = []"
| "ended_messages (MessageEnd m # es) = m # ended_messages es"
| "ended_messages (_ # es) = ended_messages es"

abbreviation ended :: "'w run \<Rightarrow> message list" where
  "ended r \<equiv> ended_messages (ru_events r)"

text \<open>The ends of messages and turns among the events.\<close>

fun is_mark :: "event \<Rightarrow> bool" where
  "is_mark (MessageEnd m) = True"
| "is_mark (TurnEnd m rs) = True"
| "is_mark _ = False"

definition marks_of :: "event list \<Rightarrow> event list" where
  "marks_of es = filter is_mark es"

abbreviation marks :: "'w run \<Rightarrow> event list" where
  "marks r \<equiv> marks_of (ru_events r)"

abbreviation result_end :: "tool_result_message \<Rightarrow> event" where
  "result_end m \<equiv> MessageEnd (ToolResultMsg m)"

lemma marks_of_simps [simp]:
  "marks_of [] = []" "marks_of (e # es) = (if is_mark e then e # marks_of es else marks_of es)"
  "marks_of (xs @ ys) = marks_of xs @ marks_of ys"
  by (simp_all add: marks_of_def)

lemma ended_of_marks: "ended_messages es = ended_messages (marks_of es)"
  by (induction es rule: ended_messages.induct) auto

text \<open>
  The protocol of a run's events. Messages do not overlap each other, tool executions or turns; an
  execution has one start, updates, and one end with its call's id; the run ends between turns.
\<close>

datatype phase = PStart | PBetween | PTurn "pystr multiset" | PMessage message | PDone

fun phase_step :: "phase \<Rightarrow> event \<Rightarrow> phase option" where
  "phase_step PStart AgentStart = Some PBetween"
| "phase_step PBetween TurnStart = Some (PTurn {#})"
| "phase_step PBetween (AgentEnd ms) = Some PDone"
| "phase_step (PTurn running) (TurnEnd m rs) = (if running = {#} then Some PBetween else None)"
| "phase_step (PTurn running) (MessageStart m) = (if running = {#} then Some (PMessage m) else None)"
| "phase_step (PTurn running) (ToolStart i n a) = Some (PTurn (add_mset i running))"
| "phase_step (PTurn running) (ToolUpdate i n a u) = (if i \<in># running then Some (PTurn running) else None)"
| "phase_step (PTurn running) (ToolEnd i n u b d) = (if i \<in># running then Some (PTurn (running - {#i#})) else None)"
| "phase_step (PMessage m) (MessageUpdate m' e) =
     (if is_assistant_msg m \<and> is_assistant_msg m' then Some (PMessage m) else None)"
| "phase_step (PMessage m) (MessageEnd m') =
     (if m' = m \<or> is_assistant_msg m \<and> is_assistant_msg m' then Some (PTurn {#}) else None)"
| "phase_step _ _ = None"

fun phases :: "phase \<Rightarrow> event list \<Rightarrow> phase option" where
  "phases p [] = Some p"
| "phases p (e # es) = (case phase_step p e of None \<Rightarrow> None | Some q \<Rightarrow> phases q es)"

definition run_phase :: "'w run \<Rightarrow> phase option" where
  "run_phase r = phases PStart (ru_events r)"

lemma ended_append [simp]: "ended_messages (xs @ ys) = ended_messages xs @ ended_messages ys"
  by (induction xs rule: ended_messages.induct) auto

lemma phases_append: "phases p (xs @ ys) = Option.bind (phases p xs) (\<lambda>q. phases q ys)"
  by (induction xs arbitrary: p) (auto split: option.split)

lemma emit_simps [simp]:
  "ru_events (emit h e r) = ru_events r @ [e]" "ru_world (emit h e r) = ho_sink h e (ru_world r)"
  by (simp_all add: emit_def)

lemma run_phase_emit [simp]: "run_phase (emit h e r) = Option.bind (run_phase r) (\<lambda>p. phase_step p e)"
  by (cases "phases PStart (ru_events r)") (auto simp: run_phase_def phases_append split: option.split)

lemma run_phase_world [simp]: "run_phase (r\<lparr>ru_world := w\<rparr>) = run_phase r"
  by (simp add: run_phase_def)

lemma emit_message_facts [simp]:
  "marks (emit_message h m r) = marks r @ [MessageEnd m]"
  "run_phase r = Some (PTurn {#}) \<Longrightarrow> run_phase (emit_message h m r) = Some (PTurn {#})"
  by (simp_all add: emit_message_def)

lemma unexecuted_simps [simp]:
  "fz_call (unexecuted c u b) = c" "fz_result (unexecuted c u b) = u" "fz_is_error (unexecuted c u b) = b"
  by (simp_all add: unexecuted_def)

lemma call_events [simp]:
  "\<not> is_mark (start_event c)" "\<not> is_mark (update_event c u)" "\<not> is_mark (end_event f)"
  "phase_step (PTurn B) (start_event c) = Some (PTurn (add_mset (call_id c) B))"
  "phase_step (PTurn B) (update_event c u) = (if call_id c \<in># B then Some (PTurn B) else None)"
  "phase_step (PTurn B) (end_event f) =
     (if call_id (fz_call f) \<in># B then Some (PTurn (B - {#call_id (fz_call f)#})) else None)"
  by (simp_all add: start_event_def update_event_def end_event_def)

lemma emit_updates_facts:
  "marks (emit_updates h c us r) = marks r"
  "run_phase r = Some (PTurn B) \<Longrightarrow> call_id c \<in># B \<Longrightarrow> run_phase (emit_updates h c us r) = Some (PTurn B)"
  unfolding emit_updates_def by (induction us arbitrary: r) simp_all

lemma finalize_call: "finalize_executed hk ctx msg p x w = (f, w') \<Longrightarrow> fz_call f = pc_call p"
  by (auto simp: finalize_executed_def Let_def split: option.splits prod.splits sum.splits)

lemma execute_prepared_facts:
  assumes "execute_prepared h hk ctx msg p r = (f, r')"
  shows "fz_call f = pc_call p" "marks r' = marks r"
    "run_phase r = Some (PTurn B) \<Longrightarrow> call_id (pc_call p) \<in># B \<Longrightarrow> run_phase r' = Some (PTurn B)"
  using assms by (auto simp: execute_prepared_def Let_def finalize_call emit_updates_facts split: prod.splits)

lemma report_result_facts:
  assumes "report_result h f r = (m, r')"
  shows "marks r' = marks r @ [result_end m]" "run_phase r = Some (PTurn {#}) \<Longrightarrow> run_phase r' = Some (PTurn {#})"
    "m = result_message h f (ru_world r)"
  using assms by (auto simp: report_result_def Let_def)

lemma result_message_of: "trm_tool_call_id (result_message h f w) = call_id (fz_call f)"
    "trm_tool_name (result_message h f w) = call_name (fz_call f)" "trm_is_error (result_message h f w) = fz_is_error f"
  by (simp_all add: result_message_def)

lemma prepared_is_the_call:
  "prepare_tool_call h hk ctx msg call tools w = (Prepared p, w') \<Longrightarrow> pc_call p = call"
  by (auto simp: prepare_tool_call_def Let_def failed_def aborted_def blocked_def
      split: option.splits sum.splits prod.splits if_splits)

subsection \<open>The sequential batch\<close>

lemma run_sequential_facts:
  assumes "run_sequential h hk ctx msg calls r = (done, r')"
  shows "map (fz_call \<circ> fst) done = take (length done) calls"
    "list_all (\<lambda>(f, m). trm_tool_call_id m = call_id (fz_call f) \<and> trm_tool_name m = call_name (fz_call f)) done"
    "calls \<noteq> [] \<Longrightarrow> done \<noteq> []" "length done < length calls \<Longrightarrow> \<exists>w. ho_cancelled h w"
    "marks r' = marks r @ map (result_end \<circ> snd) done"
    "run_phase r = Some (PTurn {#}) \<Longrightarrow> run_phase r' = Some (PTurn {#})"
proof -
  have "map (fz_call \<circ> fst) done = take (length done) calls \<and>
    list_all (\<lambda>(f, m). trm_tool_call_id m = call_id (fz_call f) \<and> trm_tool_name m = call_name (fz_call f)) done \<and>
    (calls \<noteq> [] \<longrightarrow> done \<noteq> []) \<and> (length done < length calls \<longrightarrow> (\<exists>w. ho_cancelled h w)) \<and>
    marks r' = marks r @ map (result_end \<circ> snd) done \<and>
    (run_phase r = Some (PTurn {#}) \<longrightarrow> run_phase r' = Some (PTurn {#}))"
    using assms
  proof (induction calls arbitrary: r r' "done")
    case (Cons call calls)
    let ?r0 = "emit h (start_event call) r"
    obtain prep w where prep: "prepare_tool_call h hk ctx msg call None (ru_world ?r0) = (prep, w)" by force
    let ?r1 = "?r0\<lparr>ru_world := w\<rparr>"
    obtain f r2 where f: "(case prep of Immediate result is_error \<Rightarrow> (unexecuted call result is_error, ?r1)
           | Prepared p \<Rightarrow> execute_prepared h hk ctx msg p ?r1) = (f, r2)" by force
    obtain m r3 where m: "report_result h f (emit h (end_event f) r2) = (m, r3)" by force
    have f': "fz_call f = call \<and> marks r2 = marks r \<and>
        (run_phase r = Some (PTurn {#}) \<longrightarrow> run_phase r2 = Some (PTurn {#call_id call#}))"
    proof (cases prep)
      case (Immediate result is_error)
      with f show ?thesis by (auto)
    next
      case (Prepared p)
      with f have "execute_prepared h hk ctx msg p ?r1 = (f, r2)" by simp
      from execute_prepared_facts [OF this] prepared_is_the_call [OF prep [unfolded Prepared]] show ?thesis by auto
    qed
    note r = report_result_facts [OF m]
    have head: "fz_call f = call" "marks r3 = marks r @ [result_end m]"
      "run_phase r = Some (PTurn {#}) \<longrightarrow> run_phase r3 = Some (PTurn {#})"
      using r(1,2) f' by simp_all
    have id: "trm_tool_call_id m = call_id call" "trm_tool_name m = call_name call"
      using r(3) head(1) by (simp_all add: result_message_of)
    show ?case
    proof (cases "ho_cancelled h (ru_world r3)")
      case True
      with Cons.prems prep f m have "done = [(f, m)]" "r' = r3" by (simp_all add: Let_def)
      with True head id show ?thesis by auto
    next
      case False
      obtain rest r4 where rest: "run_sequential h hk ctx msg calls r3 = (rest, r4)" by force
      with False Cons.prems prep f m have "done = (f, m) # rest" "r' = r4" by (simp_all add: Let_def)
      with Cons.IH [OF rest] head id show ?thesis by auto
    qed
  qed simp
  then show "map (fz_call \<circ> fst) done = take (length done) calls"
    "list_all (\<lambda>(f, m). trm_tool_call_id m = call_id (fz_call f) \<and> trm_tool_name m = call_name (fz_call f)) done"
    "calls \<noteq> [] \<Longrightarrow> done \<noteq> []" "length done < length calls \<Longrightarrow> \<exists>w. ho_cancelled h w"
    "marks r' = marks r @ map (result_end \<circ> snd) done"
    "run_phase r = Some (PTurn {#}) \<Longrightarrow> run_phase r' = Some (PTurn {#})"
    by blast+
qed


subsection \<open>The parallel batch\<close>

fun task_call :: "'w task \<Rightarrow> tool_call" where
  "task_call (Ready p) = pc_call p"
| "task_call (Running p us x) = pc_call p"
| "task_call (Closing f) = fz_call f"
| "task_call (Settled f) = fz_call f"

fun open_id :: "'w task \<Rightarrow> pystr multiset" where
  "open_id (Settled f) = {#}"
| "open_id t = {#call_id (task_call t)#}"

definition open_ids :: "'w task list \<Rightarrow> pystr multiset" where
  "open_ids ts = sum_list (map open_id ts)"

lemma open_ids_simps [simp]: "open_ids [] = {#}" "open_ids (t # ts) = open_id t + open_ids ts"
  by (simp_all add: open_ids_def)

lemma open_ids_update:
  assumes "i < length ts"
  obtains B where "open_ids ts = open_id (ts ! i) + B" "\<And>t. open_ids (ts[i := t]) = open_id t + B"
proof
  let ?B = "open_ids (take i ts) + open_ids (drop (Suc i) ts)"
  have app: "open_ids (xs @ ys) = open_ids xs + open_ids ys" for xs ys :: "'a task list"
    by (simp add: open_ids_def)
  have "open_ids (take i ts @ ts ! i # drop (Suc i) ts) = open_id (ts ! i) + ?B"
    by (simp only: app open_ids_simps ac_simps)
  then show "open_ids ts = open_id (ts ! i) + ?B"
    using id_take_nth_drop [OF assms] by simp
  show "open_ids (ts[i := t]) = open_id t + ?B" for t
    unfolding upd_conv_take_nth_drop [OF assms] by (simp only: app open_ids_simps ac_simps)
qed

lemma task_step_facts:
  assumes "task_step h hk ctx msg t r = (t', r')"
  shows "task_call t' = task_call t" "marks r' = marks r"
    "run_phase r = Some (PTurn (open_id t + B)) \<Longrightarrow> run_phase r' = Some (PTurn (open_id t' + B))"
proof -
  have "task_call t' = task_call t \<and> marks r' = marks r \<and>
    (run_phase r = Some (PTurn (open_id t + B)) \<longrightarrow> run_phase r' = Some (PTurn (open_id t' + B)))"
    using assms
  proof (induction h hk ctx msg t r rule: task_step.induct)
    case (1 h hk ctx msg p r)
    then show ?case by (auto simp: Let_def split: if_splits prod.splits)
  next
    case (3 h hk ctx msg p x r)
    then show ?case by (auto simp: finalize_call split: prod.splits)
  qed auto
  then show "task_call t' = task_call t" "marks r' = marks r"
    "run_phase r = Some (PTurn (open_id t + B)) \<Longrightarrow> run_phase r' = Some (PTurn (open_id t' + B))" by blast+
qed

lemma run_schedule_facts:
  assumes "run_schedule h hk ctx msg is ts r = (ts', r')"
  shows "map task_call ts' = map task_call ts \<and> marks r' = marks r \<and>
    (run_phase r = Some (PTurn (open_ids ts)) \<longrightarrow> run_phase r' = Some (PTurn (open_ids ts')))"
  using assms
proof (induction h hk ctx msg "is" ts r rule: run_schedule.induct)
  case (2 h hk ctx msg i js ts r)
  show ?case
  proof (cases "i < length ts")
    case True
    obtain t r1 where t: "task_step h hk ctx msg (ts ! i) r = (t, r1)" by force
    obtain B where B: "open_ids ts = open_id (ts ! i) + B" "\<And>t. open_ids (ts[i := t]) = open_id t + B"
      by (rule open_ids_update [OF True]) (rule that)
    note step = task_step_facts [OF t]
    have "map task_call (ts[i := t]) = map task_call ts"
      using step(1) True by (simp add: map_update list_update_same_conv)
    moreover have "run_schedule h hk ctx msg js (ts[i := t]) r1 = (ts', r')" using 2(3) True t by simp
    ultimately show ?thesis using 2(1) [OF True t [symmetric]] step(2) step(3) [of B] B by simp
  next
    case False
    with 2 show ?thesis by simp
  qed
qed auto

lemma settle_task_facts:
  assumes "settle_task h hk ctx msg t r = (f, r')"
  shows "fz_call f = task_call t" "marks r' = marks r"
    "run_phase r = Some (PTurn (open_id t + B)) \<Longrightarrow> run_phase r' = Some (PTurn B)"
proof -
  have "fz_call f = task_call t \<and> marks r' = marks r \<and>
    (run_phase r = Some (PTurn (open_id t + B)) \<longrightarrow> run_phase r' = Some (PTurn B))"
    using assms
  proof (induction h hk ctx msg t r rule: settle_task.induct)
    case (3 h hk ctx msg p us x r)
    then show ?case by (auto simp: Let_def finalize_call emit_updates_facts split: prod.splits)
  next
    case (4 h hk ctx msg p r)
    then show ?case
      by (auto simp: Let_def execute_prepared_facts split: if_splits prod.splits)
  qed auto
  then show "fz_call f = task_call t" "marks r' = marks r"
    "run_phase r = Some (PTurn (open_id t + B)) \<Longrightarrow> run_phase r' = Some (PTurn B)" by blast+
qed

lemma settle_tasks_facts:
  assumes "settle_tasks h hk ctx msg ts r = (fs, r')"
  shows "map fz_call fs = map task_call ts \<and> marks r' = marks r \<and>
    (run_phase r = Some (PTurn (open_ids ts)) \<longrightarrow> run_phase r' = Some (PTurn {#}))"
  using assms
proof (induction ts arbitrary: r fs r')
  case (Cons t ts)
  obtain f r1 where f: "settle_task h hk ctx msg t r = (f, r1)" by force
  obtain gs r2 where gs: "settle_tasks h hk ctx msg ts r1 = (gs, r2)" by force
  from Cons.prems f gs have "fs = f # gs" "r' = r2" by simp_all
  with settle_task_facts [OF f] Cons.IH [OF gs] show ?case by simp
qed simp

lemma prepare_batch_facts:
  assumes "prepare_batch h hk ctx msg calls r = (ts, r')"
  shows "map task_call ts = take (length ts) calls \<and> marks r' = marks r \<and>
    (calls \<noteq> [] \<longrightarrow> ts \<noteq> []) \<and> (length ts < length calls \<longrightarrow> (\<exists>w. ho_cancelled h w)) \<and>
    (\<forall>B. run_phase r = Some (PTurn B) \<longrightarrow> run_phase r' = Some (PTurn (open_ids ts + B)))"
  using assms
proof (induction calls arbitrary: r r' ts)
  case (Cons call calls)
  let ?r0 = "emit h (start_event call) r"
  obtain prep w where prep: "prepare_tool_call h hk ctx msg call None (ru_world ?r0) = (prep, w)" by force
  let ?r1 = "?r0\<lparr>ru_world := w\<rparr>"
  obtain t r2 where t: "(case prep of
        Immediate result is_error \<Rightarrow>
          (let f = unexecuted call result is_error in (Settled f, emit h (end_event f) ?r1))
      | Prepared p \<Rightarrow> (Ready p, ?r1)) = (t, r2)" by force
  have t': "task_call t = call \<and> marks r2 = marks r \<and>
      (\<forall>B. run_phase r = Some (PTurn B) \<longrightarrow> run_phase r2 = Some (PTurn (open_id t + B)))"
    using t prep by (cases prep) (auto simp: Let_def prepared_is_the_call)
  show ?case
  proof (cases "ho_cancelled h (ru_world r2)")
    case True
    with Cons.prems prep t have "ts = [t]" "r' = r2" by (simp_all add: Let_def)
    with True t' show ?thesis by auto
  next
    case False
    obtain us r3 where us: "prepare_batch h hk ctx msg calls r2 = (us, r3)" by force
    with False Cons.prems prep t have "ts = t # us" "r' = r3" by (simp_all add: Let_def)
    with Cons.IH [OF us] t' show ?thesis by (simp add: ac_simps)
  qed
qed simp

lemma report_results_facts:
  assumes "report_results h fs r = (ms, r')"
  shows "list_all2 (\<lambda>f m. trm_tool_call_id m = call_id (fz_call f) \<and> trm_tool_name m = call_name (fz_call f) \<and>
      trm_is_error m = fz_is_error f) fs ms \<and> marks r' = marks r @ map result_end ms \<and>
    (run_phase r = Some (PTurn {#}) \<longrightarrow> run_phase r' = Some (PTurn {#}))"
  using assms
proof (induction fs arbitrary: r r' ms)
  case (Cons f fs)
  obtain m r1 where m: "report_result h f r = (m, r1)" by force
  obtain ns r2 where ns: "report_results h fs r1 = (ns, r2)" by force
  from Cons.prems m ns have "ms = m # ns" "r' = r2" by simp_all
  with report_result_facts [OF m] Cons.IH [OF ns] show ?case by (simp add: result_message_of)
qed simp

text \<open>What the loop needs of a batch: in which order it reports which results, and its events.\<close>

definition batch_answers :: "'w host \<Rightarrow> tool_call list \<Rightarrow> 'w run \<Rightarrow> batch \<Rightarrow> 'w run \<Rightarrow> bool" where
  "batch_answers h calls r b r' \<longleftrightarrow>
     (\<exists>n. map trm_tool_call_id (ba_messages b) = map call_id (take n calls) \<and>
        map trm_tool_name (ba_messages b) = map call_name (take n calls) \<and>
        (calls \<noteq> [] \<longrightarrow> n > 0) \<and> (n < length calls \<longrightarrow> (\<exists>w. ho_cancelled h w))) \<and>
     marks r' = marks r @ map result_end (ba_messages b) \<and>
     (run_phase r = Some (PTurn {#}) \<longrightarrow> run_phase r' = Some (PTurn {#}))"

lemma sequential_answers: "execute_sequential h hk ctx msg calls r = (b, r') \<Longrightarrow> batch_answers h calls r b r'"
proof -
  assume run: "execute_sequential h hk ctx msg calls r = (b, r')"
  obtain fms r1 where fms: "run_sequential h hk ctx msg calls r = (fms, r1)" by force
  with run have b: "ba_messages b = map snd fms" "r' = r1" by (auto simp: execute_sequential_def)
  note facts = run_sequential_facts [OF fms]
  have "map trm_tool_call_id (map snd fms) = map (call_id \<circ> (fz_call \<circ> fst)) fms"
    "map trm_tool_name (map snd fms) = map (call_name \<circ> (fz_call \<circ> fst)) fms"
    using facts(2) by (auto simp: list_all_iff)
  then have ids: "map trm_tool_call_id (map snd fms) = map call_id (take (length fms) calls)"
    "map trm_tool_name (map snd fms) = map call_name (take (length fms) calls)"
    using facts(1) by (metis map_map)+
  show ?thesis
    unfolding batch_answers_def
    using ids facts(3-6) b by (intro conjI exI [of _ "length fms"]) auto
qed

lemma parallel_answers: "execute_parallel h hk ctx msg calls r = (b, r') \<Longrightarrow> batch_answers h calls r b r'"
proof -
  assume run: "execute_parallel h hk ctx msg calls r = (b, r')"
  obtain ts r1 where ts: "prepare_batch h hk ctx msg calls r = (ts, r1)" by force
  obtain us r2 where us: "run_schedule h hk ctx msg (ho_schedule h (ru_world r1)) ts r1 = (us, r2)" by force
  obtain fs r3 where fs: "settle_tasks h hk ctx msg us r2 = (fs, r3)" by force
  obtain ms r4 where ms: "report_results h fs r3 = (ms, r4)" by force
  from run ts us fs ms have b: "ba_messages b = ms" "r' = r4" by (auto simp: execute_parallel_def)
  note facts = prepare_batch_facts [OF ts] run_schedule_facts [OF us] settle_tasks_facts [OF fs] report_results_facts [OF ms]
  have calls: "map fz_call fs = take (length ts) calls" using facts by simp
  have "map trm_tool_call_id ms = map (call_id \<circ> fz_call) fs" "map trm_tool_name ms = map (call_name \<circ> fz_call) fs"
    using facts(4) by (auto simp: list_all2_conv_all_nth intro!: nth_equalityI)
  then have ids: "map trm_tool_call_id ms = map call_id (take (length ts) calls)"
    "map trm_tool_name ms = map call_name (take (length ts) calls)"
    using calls by (metis map_map)+
  have "run_phase r = Some (PTurn {#}) \<longrightarrow> run_phase r4 = Some (PTurn {#})" using facts by simp
  moreover have "marks r4 = marks r @ map result_end ms" using facts by simp
  ultimately show ?thesis
    unfolding batch_answers_def
    using ids facts(1) b by (intro conjI exI [of _ "length ts"]) auto
qed

lemma truncated_answers:
  assumes "fail_tool_calls_from_truncated_message h calls r = (b, r')"
  shows "batch_answers h calls r b r'" "list_all trm_is_error (ba_messages b)" "\<not> ba_terminate b"
    "length (ba_messages b) = length calls"
proof -
  obtain ms r1 where ms: "fail_truncated_calls h calls r = (ms, r1)" by force
  with assms have b: "ba_messages b = ms" "\<not> ba_terminate b" "r' = r1"
    by (auto simp: fail_tool_calls_from_truncated_message_def)
  have facts: "map trm_tool_call_id ms = map call_id calls \<and> map trm_tool_name ms = map call_name calls \<and>
      list_all trm_is_error ms \<and> marks r1 = marks r @ map result_end ms \<and>
      (run_phase r = Some (PTurn {#}) \<longrightarrow> run_phase r1 = Some (PTurn {#}))"
    using ms
  proof (induction calls arbitrary: r ms r1)
    case (Cons call calls)
    let ?f = "unexecuted call (error_result (truncated_text (call_name call))) True"
    obtain m r2 where m: "report_result h ?f (emit h (end_event ?f) (emit h (start_event call) r)) = (m, r2)" by force
    obtain ns r3 where ns: "fail_truncated_calls h calls r2 = (ns, r3)" by force
    from Cons.prems m ns have "ms = m # ns" "r1 = r3" by (simp_all add: Let_def)
    with report_result_facts [OF m] Cons.IH [OF ns] show ?case
      by (simp add: result_message_of)
  qed simp
  from facts have "length ms = length calls" by (metis length_map)
  with facts b show "batch_answers h calls r b r'" "list_all trm_is_error (ba_messages b)" "\<not> ba_terminate b"
    "length (ba_messages b) = length calls"
    unfolding batch_answers_def by (auto intro!: exI [of _ "length calls"])
qed

text \<open>
  C32. The results of a batch: whatever tools and hooks do, in sequence or in parallel under any
  schedule, each call of the message gets one result, in the order of the calls; only a cancelled
  run leaves the last calls without; the results are exactly the messages the batch ends, and its
  events keep the protocol.
\<close>

theorem tool_calls_get_their_results:
  assumes "execute_tool_calls h hk mode ctx msg r = (b, r')"
  shows "(\<exists>n. map (\<lambda>m. (trm_tool_call_id m, trm_tool_name m)) (ba_messages b) =
        map (\<lambda>c. (call_id c, call_name c)) (take n (tool_calls_of (am_content msg))) \<and>
      (tool_calls_of (am_content msg) \<noteq> [] \<longrightarrow> n > 0) \<and>
      (n < length (tool_calls_of (am_content msg)) \<longrightarrow> (\<exists>w. ho_cancelled h w))) \<and>
    ended r' = ended r @ map ToolResultMsg (ba_messages b) \<and>
    (run_phase r = Some (PTurn {#}) \<longrightarrow> run_phase r' = Some (PTurn {#}))"
proof -
  let ?calls = "tool_calls_of (am_content msg)"
  from assms have "batch_answers h ?calls r b r'"
    by (auto simp: execute_tool_calls_def Let_def sequential_answers parallel_answers split: if_splits)
  then obtain n where n: "map trm_tool_call_id (ba_messages b) = map call_id (take n ?calls)"
    "map trm_tool_name (ba_messages b) = map call_name (take n ?calls)"
    "?calls \<noteq> [] \<longrightarrow> n > 0" "n < length ?calls \<longrightarrow> (\<exists>w. ho_cancelled h w)"
    and rest: "marks r' = marks r @ map result_end (ba_messages b)"
      "run_phase r = Some (PTurn {#}) \<longrightarrow> run_phase r' = Some (PTurn {#})"
    by (auto simp: batch_answers_def)
  have "ended_messages (map result_end ms) = map ToolResultMsg ms" for ms by (induction ms) simp_all
  then have ends: "ended r' = ended r @ map ToolResultMsg (ba_messages b)"
    using rest(1) ended_of_marks [of "ru_events r'"] ended_of_marks [of "ru_events r"] by simp
  have pairs: "map (\<lambda>x. (f x, g x)) xs = zip (map f xs) (map g xs)" for f g and xs :: "'x list"
    by (induction xs) simp_all
  have "map (\<lambda>m. (trm_tool_call_id m, trm_tool_name m)) (ba_messages b) =
      map (\<lambda>c. (call_id c, call_name c)) (take n ?calls)"
    by (simp add: pairs n(1,2))
  with n(3,4) ends rest(2) show ?thesis by blast
qed

subsection \<open>Independent tools\<close>

text \<open>Nothing cancels the run, and what tools, hooks and the clock return does not depend on the world.\<close>

definition same_in_all :: "('w \<Rightarrow> 'a \<times> 'w) \<Rightarrow> bool" where
  "same_in_all f \<longleftrightarrow> (\<forall>w w'. fst (f w) = fst (f w'))"

definition independent :: "'w host \<Rightarrow> 'w hooks \<Rightarrow> 'w agent_context \<Rightarrow> bool" where
  "independent h hk ctx \<longleftrightarrow>
     (\<forall>w. \<not> ho_cancelled h w) \<and> (\<forall>w w'. ho_now h w = ho_now h w') \<and>
     (\<forall>t \<in> set (context_tools ctx). \<forall>i a. same_in_all (at_execute t i a)) \<and>
     (\<forall>f. hk_before hk = Some f \<longrightarrow> (\<forall>c. same_in_all (f c))) \<and>
     (\<forall>f. hk_after hk = Some f \<longrightarrow> (\<forall>c. same_in_all (f c)))"

definition call_outcome_in ::
  "'w host \<Rightarrow> 'w hooks \<Rightarrow> 'w agent_context \<Rightarrow> assistant_message \<Rightarrow> 'w \<Rightarrow> tool_call \<Rightarrow> finalized_call" where
  "call_outcome_in h hk ctx msg w call =
    (case fst (prepare_tool_call h hk ctx msg call None w) of
       Immediate result is_error \<Rightarrow> unexecuted call result is_error
     | Prepared p \<Rightarrow> fst (finalize_executed hk ctx msg p
         (settle_run (fst (at_execute (pc_tool p) (call_id (pc_call p)) (pc_args p) w))) w))"

fun task_outcome_in ::
  "'w hooks \<Rightarrow> 'w agent_context \<Rightarrow> assistant_message \<Rightarrow> 'w \<Rightarrow> 'w task \<Rightarrow> finalized_call" where
  "task_outcome_in hk ctx msg w (Ready p) = fst (finalize_executed hk ctx msg p
     (settle_run (fst (at_execute (pc_tool p) (call_id (pc_call p)) (pc_args p) w))) w)"
| "task_outcome_in hk ctx msg w (Running p us x) = fst (finalize_executed hk ctx msg p x w)"
| "task_outcome_in hk ctx msg w (Closing f) = f"
| "task_outcome_in hk ctx msg w (Settled f) = f"

fun task_of_tools :: "'w agent_tool list \<Rightarrow> 'w task \<Rightarrow> bool" where
  "task_of_tools tools (Ready p) = (pc_tool p \<in> set tools)"
| "task_of_tools tools _ = True"

lemma same_fst: "same_in_all f \<Longrightarrow> fst (f w) = fst (f w')"
  unfolding same_in_all_def by blast

lemma prepare_same:
  assumes "independent h hk ctx"
  shows "fst (prepare_tool_call h hk ctx msg call None w) = fst (prepare_tool_call h hk ctx msg call None w')"
proof (cases "hk_before hk")
  case None
  with assms show ?thesis
    by (auto simp: prepare_tool_call_def Let_def independent_def split: option.splits sum.splits)
next
  case (Some f)
  have "fst (f c w) = fst (f c w')" for c using assms Some by (intro same_fst) (simp add: independent_def)
  with assms Some show ?thesis
    by (auto simp: prepare_tool_call_def Let_def independent_def case_prod_beta split: option.splits sum.splits)
qed

lemma finalize_same:
  assumes "independent h hk ctx"
  shows "fst (finalize_executed hk ctx msg p x w) = fst (finalize_executed hk ctx msg p x w')"
proof (cases "hk_after hk")
  case (Some f)
  have "fst (f c w) = fst (f c w')" for c using assms Some by (intro same_fst) (simp add: independent_def)
  with Some show ?thesis
    by (auto simp: finalize_executed_def Let_def case_prod_beta split: option.splits sum.splits)
qed (simp add: finalize_executed_def)

lemma execute_same:
  "independent h hk ctx \<Longrightarrow> t \<in> set (context_tools ctx) \<Longrightarrow> fst (at_execute t i a w) = fst (at_execute t i a w')"
  by (rule same_fst) (simp add: independent_def)

lemma prepared_tool:
  "prepare_tool_call h hk ctx msg call None w = (Prepared p, w') \<Longrightarrow> pc_tool p \<in> set (context_tools ctx)"
  by (auto simp: prepare_tool_call_def Let_def find_tool_def failed_def aborted_def blocked_def find_Some_iff
      split: option.splits sum.splits prod.splits if_splits)

lemma run_sequential_outcomes:
  assumes "independent h hk ctx" "run_sequential h hk ctx msg calls r = (fms, r')"
  shows "map fst fms = map (call_outcome_in h hk ctx msg w) calls \<and>
    (\<forall>(f, m) \<in> set fms. m = result_message h f w)"
  using assms(2)
proof (induction calls arbitrary: r r' fms)
  case (Cons call calls)
  let ?r0 = "emit h (start_event call) r"
  obtain prep v where prep: "prepare_tool_call h hk ctx msg call None (ru_world ?r0) = (prep, v)" by force
  let ?r1 = "?r0\<lparr>ru_world := v\<rparr>"
  obtain f r2 where f: "(case prep of Immediate result is_error \<Rightarrow> (unexecuted call result is_error, ?r1)
         | Prepared p \<Rightarrow> execute_prepared h hk ctx msg p ?r1) = (f, r2)" by force
  obtain m r3 where m: "report_result h f (emit h (end_event f) r2) = (m, r3)" by force
  obtain rest r4 where rest: "run_sequential h hk ctx msg calls r3 = (rest, r4)" by force
  have "\<not> ho_cancelled h (ru_world r3)" using assms(1) by (simp add: independent_def)
  with Cons.prems prep f m rest have fms: "fms = (f, m) # rest" "r' = r4" by (simp_all add: Let_def)
  have p: "fst (prepare_tool_call h hk ctx msg call None w) = prep"
    using prepare_same [OF assms(1), of msg call w "ru_world ?r0"] prep by simp
  have "f = call_outcome_in h hk ctx msg w call"
  proof (cases prep)
    case (Prepared pc)
    let ?x = "at_execute (pc_tool pc) (call_id (pc_call pc)) (pc_args pc)"
    have tool: "pc_tool pc \<in> set (context_tools ctx)" by (rule prepared_tool [OF prep [unfolded Prepared]])
    have "f = fst (execute_prepared h hk ctx msg pc ?r1)" using f Prepared by simp
    also have "\<dots> = fst (finalize_executed hk ctx msg pc (settle_run (fst (?x v)))
        (ru_world (emit_updates h (pc_call pc) (tr_updates (fst (?x v))) (?r1\<lparr>ru_world := snd (?x v)\<rparr>))))"
      by (simp add: execute_prepared_def Let_def case_prod_beta)
    also have "\<dots> = fst (finalize_executed hk ctx msg pc (settle_run (fst (?x w))) w)"
      using finalize_same [OF assms(1)] execute_same [OF assms(1) tool, of _ _ v w] by metis
    finally show ?thesis using p Prepared by (simp add: call_outcome_in_def)
  qed (use f p in \<open>auto simp: call_outcome_in_def\<close>)
  moreover have "m = result_message h f w"
  proof -
    have "ho_now h w1 = ho_now h w2" for w1 w2 using assms(1) by (simp add: independent_def)
    then have "ho_now h (ru_world (emit h (end_event f) r2)) = ho_now h w" .
    with report_result_facts(3) [OF m] show ?thesis by (simp add: result_message_def)
  qed
  ultimately show ?case using fms Cons.IH [OF rest] by auto
qed simp


lemma prepare_batch_outcomes:
  assumes "independent h hk ctx" "prepare_batch h hk ctx msg calls r = (ts, r')"
  shows "map (task_outcome_in hk ctx msg w) ts = map (call_outcome_in h hk ctx msg w) calls \<and>
    list_all (task_of_tools (context_tools ctx)) ts"
  using assms(2)
proof (induction calls arbitrary: r r' ts)
  case (Cons call calls)
  let ?r0 = "emit h (start_event call) r"
  obtain prep v where prep: "prepare_tool_call h hk ctx msg call None (ru_world ?r0) = (prep, v)" by force
  let ?r1 = "?r0\<lparr>ru_world := v\<rparr>"
  obtain t r2 where t: "(case prep of
        Immediate result is_error \<Rightarrow>
          (let f = unexecuted call result is_error in (Settled f, emit h (end_event f) ?r1))
      | Prepared p \<Rightarrow> (Ready p, ?r1)) = (t, r2)" by force
  obtain us r3 where us: "prepare_batch h hk ctx msg calls r2 = (us, r3)" by force
  have "\<not> ho_cancelled h (ru_world r2)" using assms(1) by (simp add: independent_def)
  with Cons.prems prep t us have ts: "ts = t # us" "r' = r3" by (simp_all add: Let_def)
  have p: "fst (prepare_tool_call h hk ctx msg call None w) = prep"
    using prepare_same [OF assms(1), of msg call w "ru_world ?r0"] prep by simp
  have "task_outcome_in hk ctx msg w t = call_outcome_in h hk ctx msg w call \<and> task_of_tools (context_tools ctx) t"
  proof (cases prep)
    case (Prepared pc)
    with t p prepared_tool [OF prep [unfolded Prepared]] show ?thesis by (auto simp: call_outcome_in_def)
  qed (use t p in \<open>auto simp: call_outcome_in_def Let_def\<close>)
  with ts Cons.IH [OF us] show ?case by simp
qed simp

lemma task_step_outcome:
  assumes "independent h hk ctx" "task_step h hk ctx msg t r = (t', r')" "task_of_tools (context_tools ctx) t"
  shows "task_outcome_in hk ctx msg w t' = task_outcome_in hk ctx msg w t \<and> task_of_tools (context_tools ctx) t'"
proof -
  have nc: "\<not> ho_cancelled h v" for v using assms(1) by (simp add: independent_def)
  show ?thesis
  proof (cases t)
    case (Ready p)
    with assms(3) execute_same [OF assms(1), of "pc_tool p"]
    have "fst (at_execute (pc_tool p) (call_id (pc_call p)) (pc_args p) (ru_world r)) =
        fst (at_execute (pc_tool p) (call_id (pc_call p)) (pc_args p) w)" by simp
    with assms(2) Ready nc show ?thesis by (auto split: prod.splits)
  next
    case (Running p us x)
    with assms(2) finalize_same [OF assms(1), of msg p x w "ru_world r"] show ?thesis
      by (cases us) (auto split: prod.splits)
  qed (use assms(2) in auto)
qed

lemma run_schedule_outcomes:
  assumes "independent h hk ctx" "run_schedule h hk ctx msg is ts r = (ts', r')"
    "list_all (task_of_tools (context_tools ctx)) ts"
  shows "map (task_outcome_in hk ctx msg w) ts' = map (task_outcome_in hk ctx msg w) ts \<and>
    list_all (task_of_tools (context_tools ctx)) ts'"
  using assms(2,3)
proof (induction "is" arbitrary: ts r)
  case (Cons i js)
  show ?case
  proof (cases "i < length ts")
    case True
    obtain t r1 where t: "task_step h hk ctx msg (ts ! i) r = (t, r1)" by force
    have ok: "task_of_tools (context_tools ctx) (ts ! i)" using Cons.prems(2) True by (simp add: list_all_length)
    note step = task_step_outcome [OF assms(1) t ok, of w]
    have all: "list_all (task_of_tools (context_tools ctx)) (ts[i := t])"
      using Cons.prems(2) step True by (auto simp: list_all_length nth_list_update)
    have "map (task_outcome_in hk ctx msg w) (ts[i := t]) = map (task_outcome_in hk ctx msg w) ts"
      using step True by (simp add: map_update list_update_same_conv)
    moreover have "run_schedule h hk ctx msg js (ts[i := t]) r1 = (ts', r')" using Cons.prems(1) True t by simp
    ultimately show ?thesis using Cons.IH all by metis
  next
    case False
    with Cons show ?thesis by simp
  qed
qed auto

lemma settle_tasks_outcomes:
  assumes "independent h hk ctx" "settle_tasks h hk ctx msg ts r = (fs, r')"
    "list_all (task_of_tools (context_tools ctx)) ts"
  shows "fs = map (task_outcome_in hk ctx msg w) ts"
  using assms(2,3)
proof (induction ts arbitrary: r fs r')
  case (Cons t ts)
  have nc: "\<not> ho_cancelled h v" for v using assms(1) by (simp add: independent_def)
  obtain f r1 where f: "settle_task h hk ctx msg t r = (f, r1)" by force
  obtain gs r2 where gs: "settle_tasks h hk ctx msg ts r1 = (gs, r2)" by force
  from Cons.prems f gs have fs: "fs = f # gs" by simp
  have "f = task_outcome_in hk ctx msg w t"
  proof (cases t)
    case (Ready p)
    let ?x = "at_execute (pc_tool p) (call_id (pc_call p)) (pc_args p)"
    have "fst (?x (ru_world r)) = fst (?x w)"
      using Cons.prems(2) Ready execute_same [OF assms(1), of "pc_tool p"] by simp
    moreover have "f = fst (execute_prepared h hk ctx msg p r)" using f Ready nc by (auto split: prod.splits)
    ultimately show ?thesis
      using Ready finalize_same [OF assms(1)] by (simp add: execute_prepared_def Let_def case_prod_beta)
  next
    case (Running p us x)
    with f have "f = fst (finalize_executed hk ctx msg p x (ru_world (emit_updates h (pc_call p) us r)))"
      by (auto simp: Let_def split: prod.splits)
    with Running finalize_same [OF assms(1)] show ?thesis by (metis task_outcome_in.simps(2))
  qed (use f in auto)
  with fs Cons gs show ?case by simp
qed simp

lemma report_results_map:
  assumes "\<forall>w w'. ho_now h w = ho_now h w'" "report_results h fs r = (ms, r')"
  shows "ms = map (\<lambda>f. result_message h f w) fs"
  using assms(2)
proof (induction fs arbitrary: r ms r')
  case (Cons f fs)
  obtain m r1 where m: "report_result h f r = (m, r1)" by force
  obtain ns r2 where ns: "report_results h fs r1 = (ns, r2)" by force
  have "m = result_message h f w"
  proof -
    have "ho_now h (ru_world r) = ho_now h w" using assms(1) by blast
    with report_result_facts(3) [OF m] show ?thesis by (simp add: result_message_def)
  qed
  with Cons m ns show ?case by auto
qed simp


subsection \<open>Calls that are not approved\<close>

definition rearmed :: "('w agent_tool \<Rightarrow> pystr \<Rightarrow> call_args \<Rightarrow> 'w \<Rightarrow> tool_run \<times> 'w) \<Rightarrow> 'w agent_tool list \<Rightarrow> 'w agent_tool list" where
  "rearmed exec tools = map (\<lambda>t. t\<lparr>at_execute := exec t\<rparr>) tools"

lemma find_rearmed: "find_tool (rearmed exec tools) call = map_option (\<lambda>t. t\<lparr>at_execute := exec t\<rparr>) (find_tool tools call)"
  by (induction tools) (simp_all add: find_tool_def rearmed_def)

lemma prepare_rearmed:
  assumes "prepare_tool_call h hk ctx msg call (Some tools) w = (Immediate result is_error, w')"
  shows "prepare_tool_call h hk ctx msg call (Some (rearmed exec tools)) w = (Immediate result is_error, w')"
proof (cases "find_tool tools call")
  case None
  with assms show ?thesis by (simp add: prepare_tool_call_def find_rearmed)
next
  case tool: (Some tool)
  have args: "prepare_arguments (tool\<lparr>at_execute := exec tool\<rparr>) call = prepare_arguments tool call"
    by (simp add: prepare_arguments_def)
  show ?thesis
  proof (cases "prepare_arguments tool call")
    case (Inl err)
    with assms tool args show ?thesis by (simp add: prepare_tool_call_def find_rearmed)
  next
    case prepared: (Inr call')
    show ?thesis
    proof (cases "ho_validate h (at_tool tool) (call_arguments call')")
      case (Inl err)
      with assms tool args prepared show ?thesis by (simp add: prepare_tool_call_def find_rearmed)
    next
      case valid: (Inr args)
      show ?thesis
      proof (cases "hk_before hk")
        case None
        with assms tool args prepared valid show ?thesis
          by (simp add: prepare_tool_call_def find_rearmed Let_def split: if_splits)
      next
        case (Some before)
        obtain d w1 where d: "before \<lparr>bc_message = msg, bc_call = call, bc_args = args, bc_context = ctx\<rparr> w = (d, w1)" by force
        with assms tool args prepared valid Some show ?thesis
          by (cases d) (auto simp: prepare_tool_call_def find_rearmed Let_def split: if_splits option.splits)
      qed
    qed
  qed
qed


subsection \<open>A concrete batch\<close>

definition example_host :: "nat host" where
  "example_host = \<lparr>ho_sink = (\<lambda>e w. w), ho_cancelled = (\<lambda>w. False), ho_now = (\<lambda>w. 5), ho_validate = (\<lambda>t a. Inr a),
     ho_fadd = (\<lambda>x y. x), ho_schedule = (\<lambda>w. [1, 0, 1, 1, 0, 1])\<rparr>"

definition example_result :: "string \<Rightarrow> agent_result" where
  "example_result t = (error_result (lit t))\<lparr>ar_details := JNull\<rparr>"

definition example_agent_tool :: "nat agent_tool" where
  "example_agent_tool = \<lparr>at_tool = example_tool ''read'' ''reads'', at_mode = None, at_prepare = None,
     at_execute = (\<lambda>i a w. (\<lparr>tr_updates = [example_result ''half''], tr_outcome = Inr (example_result ''all''), tr_duration = 3\<rparr>, w + 1))\<rparr>"

definition example_agent_context :: "nat agent_context" where
  "example_agent_context = \<lparr>ac_messages = [], ac_tools = Some [example_agent_tool]\<rparr>"

definition no_hooks :: "'w hooks" where
  "no_hooks = \<lparr>hk_before = None, hk_after = None\<rparr>"

definition named_call :: "string \<Rightarrow> string \<Rightarrow> tool_call" where
  "named_call i n = \<lparr>call_id = lit i, call_name = lit n, call_arguments = [], call_thought_signature = None,
     call_namespace = None, call_arguments_error = None\<rparr>"

definition calling :: "tool_call list \<Rightarrow> assistant_message" where
  "calling cs = \<lparr>am_content = map ToolCallContent cs, am_api = lit ''api'', am_provider = lit ''p'', am_model = lit ''m'',
     am_usage = None, am_stop_reason = ToolUse, am_timestamp = 1, am_response_model = None, am_response_id = None,
     am_provider_thinking_level = None, am_thinking_level = None, am_diagnostics = None, am_error_message = None,
     am_raw_stop_reason = None, am_end_turn = None, am_deferred = None, am_duration_ms = None\<rparr>"

abbreviation example_calls :: "tool_call list" where
  "example_calls \<equiv> [named_call ''1'' ''read'', named_call ''2'' ''write'', named_call ''3'' ''read'']"

theorem tool_calls_get_their_results_witness:
  "let (b, r) = execute_tool_calls example_host no_hooks None example_agent_context (calling example_calls)
        \<lparr>ru_events = [AgentStart, TurnStart], ru_world = 0\<rparr>
   in ended r = map ToolResultMsg (ba_messages b) \<and> run_phase r = Some (PTurn {#}) \<and> length (ba_messages b) = 3"
proof -
  let ?r = "\<lparr>ru_events = [AgentStart, TurnStart], ru_world = 0\<rparr> :: nat run"
  obtain b r where run: "execute_tool_calls example_host no_hooks None example_agent_context (calling example_calls) ?r = (b, r)"
    by force
  have start: "run_phase ?r = Some (PTurn {#})" by (simp add: run_phase_def)
  have calls: "tool_calls_of (am_content (calling example_calls)) = example_calls" by (simp add: calling_def)
  have never: "\<not> (\<exists>w. ho_cancelled example_host w)" by (simp add: example_host_def)
  note all = tool_calls_get_their_results [OF run, unfolded calls]
  have facts: "ended r = map ToolResultMsg (ba_messages b)" "run_phase r = Some (PTurn {#})"
    using all start by simp_all
  obtain n where "map (\<lambda>m. (trm_tool_call_id m, trm_tool_name m)) (ba_messages b) =
        map (\<lambda>c. (call_id c, call_name c)) (take n example_calls)" "\<not> n < length example_calls"
    using all never by blast
  then have "length (map (\<lambda>m. (trm_tool_call_id m, trm_tool_name m)) (ba_messages b)) = 3" by (simp only:) simp
  then have "length (ba_messages b) = 3" by simp
  with facts run show ?thesis by (simp add: Let_def)
qed



end
