(* ===== verification/Agent_Loop.thy ===== *)
theory Agent_Loop
  imports Agent_Tools Transform
begin

text \<open>
  The agent loop (\<open>pidrei_agent/agent_loop.py\<close>): declaring tool changes, streaming one response,
  one turn, and the loop over turns, with the hooks of \<open>AgentLoopConfig\<close> as functions of the world.
  By their contract these hooks do not raise. A stream function returns all events the response will
  deliver with its final message. The loop may run forever, so it takes fuel, one unit per turn.
\<close>

subsection \<open>Configuration\<close>

record request =
  rq_model :: model_ref
  rq_messages :: "message list"
  rq_api_key :: "pystr option"
  rq_reasoning :: "pystr option"

record response =
  rs_events :: "stream_event list"
  rs_message :: assistant_message

record 'w turn_context =
  tc_message :: assistant_message
  tc_results :: "tool_result_message list"
  tc_context :: "'w agent_context"
  tc_new_messages :: "message list"

datatype turn_decision = ContinueRun | EndRun

record 'w turn_update =
  tu_context :: "'w agent_context option"
  tu_messages :: "message list option"
  tu_model :: "model_ref option"
  tu_thinking_level :: "pystr option"

record 'w request_context =
  rc_context :: "'w agent_context"
  rc_model :: model_ref
  rc_thinking_level :: pystr

record 'w request_update =
  qu_context :: "'w agent_context option"
  qu_model :: "model_ref option"
  qu_thinking_level :: "pystr option"

record 'w loop_config =
  lc_convert :: "message list \<Rightarrow> 'w \<Rightarrow> message list \<times> 'w"
  lc_transform :: "(message list \<Rightarrow> 'w \<Rightarrow> message list \<times> 'w) option"
  lc_get_api_key :: "(pystr \<Rightarrow> 'w \<Rightarrow> pystr option \<times> 'w) option"
  lc_api_key :: "pystr option"
  lc_stream :: "request \<Rightarrow> 'w \<Rightarrow> response \<times> 'w"
  lc_finish_turn :: "('w turn_context \<Rightarrow> 'w \<Rightarrow> turn_decision option \<times> 'w) option"
  lc_prepare_request :: "('w request_context \<Rightarrow> 'w \<Rightarrow> 'w request_update option \<times> 'w) option"
  lc_prepare_next_turn :: "('w turn_context \<Rightarrow> 'w \<Rightarrow> 'w turn_update option \<times> 'w) option"
  lc_steering :: "('w \<Rightarrow> message list \<times> 'w) option"
  lc_follow_up :: "('w \<Rightarrow> message list \<times> 'w) option"
  lc_mode :: "execution_mode option"
  lc_hooks :: "'w hooks"

definition poll :: "('w \<Rightarrow> message list \<times> 'w) option \<Rightarrow> 'w \<Rightarrow> message list \<times> 'w" where
  "poll source w = (case source of None \<Rightarrow> ([], w) | Some f \<Rightarrow> f w)"

subsection \<open>Declaring tool changes\<close>

definition last_system_index :: "message list \<Rightarrow> nat option" where
  "last_system_index ms = map_option (\<lambda>i. length ms - 1 - i) (find_index is_system_msg (rev ms))"

definition with_tool_changes :: "system_message \<Rightarrow> tool_state_changes \<Rightarrow> system_message" where
  "with_tool_changes m ch = m\<lparr>sm_tools_added := non_empty (tsc_added ch), sm_tools_removed := non_empty (tsc_removed ch)\<rparr>"

definition no_changes :: tool_state_changes where
  "no_changes = \<lparr>tsc_added = [], tsc_removed = []\<rparr>"

fun set_tool_changes :: "tool_state_changes \<Rightarrow> message \<Rightarrow> message" where
  "set_tool_changes ch (SystemMsg m) = SystemMsg (with_tool_changes m ch)"
| "set_tool_changes ch m = m"

fun declares_tools :: "message \<Rightarrow> bool" where
  "declares_tools (SystemMsg m) = (or_empty (sm_tools_added m) \<noteq> [] \<or> or_empty (sm_tools_removed m) \<noteq> [])"
| "declares_tools _ = False"

definition declare_tool_changes :: "int \<Rightarrow> 'w agent_context \<Rightarrow> message list \<Rightarrow> message list" where
  "declare_tool_changes now ctx pending_messages =
    (let system_index = last_system_index pending_messages;
         baseline = (case system_index of
             None \<Rightarrow> pending_messages
           | Some i \<Rightarrow> pending_messages[i := set_tool_changes no_changes (pending_messages ! i)]);
         changes = get_tool_state_changes (get_current_tools (ac_messages ctx @ baseline))
           (map (\<lambda>t. to_tool_declaration (at_tool t)) (context_tools ctx));
         unchanged = (tsc_added changes = [] \<and> tsc_removed changes = [])
     in case system_index of
          Some i \<Rightarrow>
            if unchanged \<and> \<not> declares_tools (pending_messages ! i) then pending_messages
            else baseline[i := set_tool_changes changes (pending_messages ! i)]
        | None \<Rightarrow>
            if unchanged then pending_messages
            else let update = SystemMsg (with_tool_changes \<lparr>sm_content = StrContent [], sm_timestamp = now,
                       sm_sections = None, sm_tools_added = None, sm_tools_removed = None\<rparr> changes);
                     index = (case find_index (\<lambda>m. \<not> is_system_msg m) pending_messages of
                       Some i \<Rightarrow> i | None \<Rightarrow> length pending_messages)
                 in take index pending_messages @ [update] @ drop index pending_messages)"

subsection \<open>One response\<close>

text \<open>
  The loop over the stream events. The flag is \<open>added_partial\<close>: the partial message stands last in
  the context. The stream's end and its final event are handled alike.
\<close>

definition finish_message :: "'w host \<Rightarrow> assistant_message \<Rightarrow> bool \<Rightarrow> message list \<Rightarrow> 'w run \<Rightarrow> message list \<times> 'w run" where
  "finish_message h final added ms r =
    (if added then (butlast ms @ [AssistantMsg final], emit h (MessageEnd (AssistantMsg final)) r)
     else (ms @ [AssistantMsg final], emit_message h (AssistantMsg final) r))"

fun consume_stream ::
  "'w host \<Rightarrow> assistant_message \<Rightarrow> stream_event list \<Rightarrow> bool \<Rightarrow> message list \<Rightarrow> 'w run \<Rightarrow> message list \<times> 'w run" where
  "consume_stream h final [] added ms r = finish_message h final added ms r"
| "consume_stream h final (StreamStart p # es) added ms r =
     consume_stream h final es True (ms @ [AssistantMsg p]) (emit h (MessageStart (AssistantMsg p)) r)"
| "consume_stream h final (StreamDelta k p # es) added ms r =
     (if added
      then consume_stream h final es True (butlast ms @ [AssistantMsg p])
             (emit h (MessageUpdate (AssistantMsg p) (StreamDelta k p)) r)
      else consume_stream h final es False ms r)"
| "consume_stream h final (StreamDone # es) added ms r = finish_message h final added ms r"
| "consume_stream h final (StreamOther k # es) added ms r = consume_stream h final es added ms r"

definition truthy :: "pystr option \<Rightarrow> pystr option" where
  "truthy s = (if s = Some [] then None else s)"

definition stream_assistant_response ::
  "'w host \<Rightarrow> 'w loop_config \<Rightarrow> model_ref \<Rightarrow> pystr option \<Rightarrow> 'w agent_context \<Rightarrow> 'w run \<Rightarrow>
   assistant_message \<times> 'w agent_context \<times> 'w run" where
  "stream_assistant_response h cfg model reasoning ctx r =
    (let (messages, w1) = (case lc_transform cfg of None \<Rightarrow> (ac_messages ctx, ru_world r)
           | Some f \<Rightarrow> f (ac_messages ctx) (ru_world r));
         (llm_messages, w2) = lc_convert cfg messages w1;
         llm_context = normalize_context (CallerContext \<lparr>cx_system_prompt = None, cx_messages = llm_messages, cx_tools = None\<rparr>);
         (key, w3) = (case lc_get_api_key cfg of None \<Rightarrow> (None, w2) | Some f \<Rightarrow> f (md_provider model) w2);
         (response, w4) = lc_stream cfg
           \<lparr>rq_model = model, rq_messages = llm_context, rq_api_key = or_else (truthy key) (lc_api_key cfg),
            rq_reasoning = reasoning\<rparr> w3;
         final = (rs_message response)\<lparr>am_thinking_level :=
           Some (case truthy reasoning of Some l \<Rightarrow> l | None \<Rightarrow> lit ''off'')\<rparr>;
         (ms, r') = consume_stream h final (rs_events response) False (ac_messages ctx) (r\<lparr>ru_world := w4\<rparr>)
     in (final, ctx\<lparr>ac_messages := ms\<rparr>, r'))"

subsection \<open>One turn\<close>

record 'w loop_vars =
  lv_context :: "'w agent_context"
  lv_model :: model_ref
  lv_reasoning :: "pystr option"
  lv_new_messages :: "message list"
  lv_pending :: "message list"
  lv_last_turn :: "'w turn_context option"
  lv_explicit :: bool
  lv_more_tool_calls :: bool

definition next_reasoning :: "pystr option \<Rightarrow> pystr option \<Rightarrow> pystr option" where
  "next_reasoning level reasoning =
    (case level of None \<Rightarrow> reasoning | Some l \<Rightarrow> if l = lit ''off'' then None else Some l)"

definition prepare_turn :: "'w host \<Rightarrow> 'w loop_config \<Rightarrow> 'w loop_vars \<Rightarrow> 'w run \<Rightarrow> message list \<times> 'w loop_vars \<times> 'w run" where
  "prepare_turn h cfg v r =
    (case lv_last_turn v of
       None \<Rightarrow> ([], v, r)
     | Some turn \<Rightarrow>
         (let (snapshot, w1) = (case lc_prepare_next_turn cfg of None \<Rightarrow> (None, ru_world r) | Some f \<Rightarrow> f turn (ru_world r));
              (prepared, v1) = (case snapshot of
                  None \<Rightarrow> ([], v)
                | Some u \<Rightarrow> (or_empty (tu_messages u),
                    v\<lparr>lv_context := (case tu_context u of Some c \<Rightarrow> c | None \<Rightarrow> lv_context v),
                      lv_model := (case tu_model u of Some m \<Rightarrow> m | None \<Rightarrow> lv_model v),
                      lv_reasoning := next_reasoning (tu_thinking_level u) (lv_reasoning v)\<rparr>));
              (pending, w2) = (if lv_pending v1 = [] then poll (lc_steering cfg) w1 else (lv_pending v1, w1))
          in (prepared, v1\<lparr>lv_pending := pending\<rparr>, emit h TurnStart (r\<lparr>ru_world := w2\<rparr>))))"

definition append_message_to :: "message \<Rightarrow> 'w agent_context \<Rightarrow> 'w agent_context" where
  "append_message_to m ctx = ctx\<lparr>ac_messages := ac_messages ctx @ [m]\<rparr>"

definition add_messages :: "'w host \<Rightarrow> message list \<Rightarrow> 'w loop_vars \<Rightarrow> 'w run \<Rightarrow> 'w loop_vars \<times> 'w run" where
  "add_messages h ms v r =
    fold (\<lambda>m (v, r). (v\<lparr>lv_context := append_message_to m (lv_context v), lv_new_messages := lv_new_messages v @ [m]\<rparr>,
                      emit_message h m r)) ms (v, r)"

definition prepare_request :: "'w loop_config \<Rightarrow> 'w loop_vars \<Rightarrow> 'w run \<Rightarrow> 'w loop_vars \<times> 'w run" where
  "prepare_request cfg v r =
    (case lc_prepare_request cfg of
       None \<Rightarrow> (v, r)
     | Some f \<Rightarrow>
         (case f \<lparr>rc_context = lv_context v, rc_model = lv_model v,
                  rc_thinking_level = (case lv_reasoning v of Some l \<Rightarrow> l | None \<Rightarrow> lit ''off'')\<rparr> (ru_world r) of
            (None, w) \<Rightarrow> (v, r\<lparr>ru_world := w\<rparr>)
          | (Some u, w) \<Rightarrow>
              (v\<lparr>lv_context := (case qu_context u of Some c \<Rightarrow> c | None \<Rightarrow> lv_context v),
                 lv_model := (case qu_model u of Some m \<Rightarrow> m | None \<Rightarrow> lv_model v),
                 lv_reasoning := next_reasoning (qu_thinking_level u) (lv_reasoning v)\<rparr>, r\<lparr>ru_world := w\<rparr>)))"

definition finish_turn :: "'w loop_config \<Rightarrow> 'w turn_context \<Rightarrow> 'w run \<Rightarrow> turn_decision option \<times> 'w run" where
  "finish_turn cfg turn r =
    (case lc_finish_turn cfg of
       None \<Rightarrow> (None, r)
     | Some f \<Rightarrow> (case f turn (ru_world r) of (d, w) \<Rightarrow> (d, r\<lparr>ru_world := w\<rparr>)))"

definition turn_tools ::
  "'w host \<Rightarrow> 'w loop_config \<Rightarrow> 'w agent_context \<Rightarrow> assistant_message \<Rightarrow> 'w run \<Rightarrow> batch \<times> bool \<times> 'w run" where
  "turn_tools h cfg ctx message r =
    (let calls = tool_calls_of (am_content message)
     in if calls = [] then (\<lparr>ba_messages = [], ba_terminate = False\<rparr>, False, r)
        else (case (if am_stop_reason message = StopLength then fail_tool_calls_from_truncated_message h calls r
                    else execute_tool_calls h (lc_hooks cfg) (lc_mode cfg) ctx message r) of
                (b, r') \<Rightarrow> (b, \<not> ba_terminate b, r')))"

datatype ('a, 'b) turn_result = Ended 'a | Continues 'b

text \<open>One iteration of the inner loop: the run ends with it, or it leaves the loop's variables.\<close>

definition run_turn ::
  "'w host \<Rightarrow> 'w loop_config \<Rightarrow> 'w loop_vars \<Rightarrow> 'w run \<Rightarrow>
   (message list \<times> 'w run, 'w loop_vars \<times> 'w run) turn_result" where
  "run_turn h cfg v r =
    (let (prepared, v1, r1) = prepare_turn h cfg v r;
         declared = declare_tool_changes (ho_now h (ru_world r1)) (lv_context v1) (prepared @ lv_pending v1);
         (v2, r2) = add_messages h declared v1 r1;
         (v3, r3) = prepare_request cfg (v2\<lparr>lv_pending := []\<rparr>) r2;
         (message, ctx, r4) = stream_assistant_response h cfg (lv_model v3) (lv_reasoning v3) (lv_context v3) r3;
         new_messages = lv_new_messages v3 @ [AssistantMsg message]
     in if am_stop_reason message = StopError \<or> am_stop_reason message = Aborted
        then (let turn = \<lparr>tc_message = message, tc_results = [], tc_context = ctx, tc_new_messages = new_messages\<rparr>;
                  (_, r5) = finish_turn cfg turn r4
              in Ended (new_messages,
                   emit h (AgentEnd new_messages) (emit h (TurnEnd (AssistantMsg message) []) r5)))
        else (let (b, more, r5) = turn_tools h cfg ctx message r4;
                  results = map ToolResultMsg (ba_messages b);
                  ctx' = ctx\<lparr>ac_messages := ac_messages ctx @ results\<rparr>;
                  new_messages' = new_messages @ results;
                  turn = \<lparr>tc_message = message, tc_results = ba_messages b, tc_context = ctx', tc_new_messages = new_messages'\<rparr>;
                  (decision, r6) = finish_turn cfg turn r5;
                  r7 = emit h (TurnEnd (AssistantMsg message) (ba_messages b)) r6
              in if decision = Some EndRun then Ended (new_messages', emit h (AgentEnd new_messages') r7)
                 else (let (pending, w) = poll (lc_steering cfg) (ru_world r7)
                       in Continues (v3\<lparr>lv_context := ctx', lv_new_messages := new_messages', lv_pending := pending,
                              lv_last_turn := Some turn, lv_more_tool_calls := more,
                              lv_explicit := (decision = Some ContinueRun \<and> \<not> (more \<or> pending \<noteq> []))\<rparr>,
                            r7\<lparr>ru_world := w\<rparr>))))"

subsection \<open>The loop\<close>

text \<open>
  The inner loop goes on while there are tool calls or pending messages; the outer one while there
  are follow-up messages or the turn asked to continue.
\<close>

fun run_loop :: "nat \<Rightarrow> 'w host \<Rightarrow> 'w loop_config \<Rightarrow> 'w loop_vars \<Rightarrow> 'w run \<Rightarrow> (message list \<times> 'w run) option" where
  "run_loop 0 h cfg v r = None"
| "run_loop (Suc n) h cfg v r =
    (case run_turn h cfg v r of
       Ended out \<Rightarrow> Some out
     | Continues (v1, r1) \<Rightarrow>
         if lv_more_tool_calls v1 \<or> lv_pending v1 \<noteq> [] then run_loop n h cfg v1 r1
         else (case poll (lc_follow_up cfg) (ru_world r1) of (follow_ups, w) \<Rightarrow>
           let r2 = r1\<lparr>ru_world := w\<rparr>
           in if follow_ups \<noteq> [] then run_loop n h cfg (v1\<lparr>lv_explicit := False, lv_pending := follow_ups\<rparr>) r2
              else if lv_explicit v1 then run_loop n h cfg (v1\<lparr>lv_explicit := False\<rparr>) r2
              else Some (lv_new_messages v1, emit h (AgentEnd (lv_new_messages v1)) r2)))"

definition start_loop ::
  "nat \<Rightarrow> 'w host \<Rightarrow> 'w loop_config \<Rightarrow> model_ref \<Rightarrow> pystr option \<Rightarrow> 'w agent_context \<Rightarrow> message list \<Rightarrow> 'w run \<Rightarrow>
   (message list \<times> 'w run) option" where
  "start_loop fuel h cfg model reasoning ctx new_messages r =
    (case poll (lc_steering cfg) (ru_world r) of (pending, w) \<Rightarrow>
       run_loop fuel h cfg
         \<lparr>lv_context = ctx, lv_model = model, lv_reasoning = reasoning, lv_new_messages = new_messages, lv_pending = pending,
          lv_last_turn = None, lv_explicit = False, lv_more_tool_calls = True\<rparr> (r\<lparr>ru_world := w\<rparr>))"

definition run_agent_loop ::
  "nat \<Rightarrow> 'w host \<Rightarrow> 'w loop_config \<Rightarrow> model_ref \<Rightarrow> pystr option \<Rightarrow> message list \<Rightarrow> 'w agent_context \<Rightarrow> 'w \<Rightarrow>
   (message list \<times> 'w run) option" where
  "run_agent_loop fuel h cfg model reasoning prompts ctx w =
    (let initial = declare_tool_changes (ho_now h w) ctx prompts;
         r = fold (emit_message h) initial (emit h TurnStart (emit h AgentStart \<lparr>ru_events = [], ru_world = w\<rparr>))
     in start_loop fuel h cfg model reasoning (ctx\<lparr>ac_messages := ac_messages ctx @ initial\<rparr>) initial r)"

text \<open>It raises when there is nothing to continue from; the outer option is the fuel.\<close>

definition run_agent_loop_continue ::
  "nat \<Rightarrow> 'w host \<Rightarrow> 'w loop_config \<Rightarrow> model_ref \<Rightarrow> pystr option \<Rightarrow> 'w agent_context \<Rightarrow> 'w \<Rightarrow>
   (message list \<times> 'w run) result option" where
  "run_agent_loop_continue fuel h cfg model reasoning ctx w =
    (if ac_messages ctx = [] then Some (Inl (lit ''Cannot continue: no messages in context''))
     else if is_assistant_msg (last (ac_messages ctx)) then Some (Inl (lit ''Cannot continue from message role: assistant''))
     else map_option Inr (start_loop fuel h cfg model reasoning ctx []
            (emit h TurnStart (emit h AgentStart \<lparr>ru_events = [], ru_world = w\<rparr>))))"

subsection \<open>The event protocol of a run\<close>

fun is_stream_start :: "stream_event \<Rightarrow> bool" where
  "is_stream_start (StreamStart p) = True"
| "is_stream_start _ = False"

text \<open>The protocol of response streams: at most one start.\<close>

definition streams_ok :: "'w loop_config \<Rightarrow> bool" where
  "streams_ok cfg \<longleftrightarrow> (\<forall>req w. length (filter is_stream_start (rs_events (fst (lc_stream cfg req w)))) \<le> 1)"

lemma consume_stream_facts:
  assumes "consume_stream h final es added ms r = (ms', r')"
    "length (filter is_stream_start es) + (if added then 1 else 0) \<le> 1" "added \<longrightarrow> ms \<noteq> []"
    "run_phase r = Some (if added then PMessage (AssistantMsg p) else PTurn {#})"
  shows "marks r' = marks r @ [MessageEnd (AssistantMsg final)] \<and> run_phase r' = Some (PTurn {#}) \<and>
    ms' = (if added then butlast ms else ms) @ [AssistantMsg final]"
  using assms
proof (induction h final es added ms r arbitrary: p rule: consume_stream.induct)
  case (1 h final added ms r)
  then show ?case by (auto simp: finish_message_def split: if_splits)
next
  case (2 h final q es added ms r)
  then have "\<not> added" by (auto split: if_splits)
  with 2 show ?case by simp
next
  case (3 h final k q es added ms r)
  show ?case
  proof (cases added)
    case True
    with 3 show ?thesis by (simp add: butlast_append)
  next
    case False
    with 3 show ?thesis by simp
  qed
next
  case (4 h final es added ms r)
  then show ?case by (auto simp: finish_message_def split: if_splits)
qed auto

lemma stream_response_facts:
  assumes "stream_assistant_response h cfg model reasoning ctx r = (final, ctx', r')" "streams_ok cfg"
    "run_phase r = Some (PTurn {#})"
  shows "marks r' = marks r @ [MessageEnd (AssistantMsg final)]" "run_phase r' = Some (PTurn {#})"
    "ctx' = append_message_to (AssistantMsg final) ctx"
proof -
  obtain w4 response req w3 ms where resp: "lc_stream cfg req w3 = (response, w4)"
    and ms: "consume_stream h final (rs_events response) False (ac_messages ctx) (r\<lparr>ru_world := w4\<rparr>) = (ms, r')"
    and ctx': "ctx' = ctx\<lparr>ac_messages := ms\<rparr>"
    using assms(1) by (auto simp: stream_assistant_response_def Let_def split: prod.splits)
  have "length (filter is_stream_start (rs_events response)) \<le> 1"
    using assms(2) resp unfolding streams_ok_def by (metis fst_conv)
  from consume_stream_facts [OF ms, of undefined] this assms(3)
  have "marks r' = marks r @ [MessageEnd (AssistantMsg final)] \<and> run_phase r' = Some (PTurn {#}) \<and>
      ms = ac_messages ctx @ [AssistantMsg final]" by simp
  with ctx' show "marks r' = marks r @ [MessageEnd (AssistantMsg final)]" "run_phase r' = Some (PTurn {#})"
    "ctx' = append_message_to (AssistantMsg final) ctx"
    by (simp_all add: append_message_to_def)
qed

lemma add_messages_facts:
  assumes "add_messages h ms v r = (v', r')"
  shows "marks r' = marks r @ map MessageEnd ms"
    "run_phase r = Some (PTurn {#}) \<Longrightarrow> run_phase r' = Some (PTurn {#})"
    "v' = v\<lparr>lv_context := (lv_context v)\<lparr>ac_messages := ac_messages (lv_context v) @ ms\<rparr>,
           lv_new_messages := lv_new_messages v @ ms\<rparr>"
proof -
  have "marks r' = marks r @ map MessageEnd ms \<and>
    (run_phase r = Some (PTurn {#}) \<longrightarrow> run_phase r' = Some (PTurn {#})) \<and>
    v' = v\<lparr>lv_context := (lv_context v)\<lparr>ac_messages := ac_messages (lv_context v) @ ms\<rparr>,
           lv_new_messages := lv_new_messages v @ ms\<rparr>"
    using assms
  proof (induction ms arbitrary: v r)
    case (Cons m ms)
    let ?v = "v\<lparr>lv_context := append_message_to m (lv_context v), lv_new_messages := lv_new_messages v @ [m]\<rparr>"
    have "add_messages h ms ?v (emit_message h m r) = (v', r')" using Cons.prems by (simp add: add_messages_def)
    from Cons.IH [OF this] show ?case by (simp add: append_message_to_def)
  qed (simp add: add_messages_def)
  then show "marks r' = marks r @ map MessageEnd ms"
    "run_phase r = Some (PTurn {#}) \<Longrightarrow> run_phase r' = Some (PTurn {#})"
    "v' = v\<lparr>lv_context := (lv_context v)\<lparr>ac_messages := ac_messages (lv_context v) @ ms\<rparr>,
           lv_new_messages := lv_new_messages v @ ms\<rparr>"
    by blast+
qed

lemma prepare_request_facts:
  assumes "prepare_request cfg v r = (v', r')"
  shows "ru_events r' = ru_events r" "run_phase r' = run_phase r" "lv_new_messages v' = lv_new_messages v"
  using assms by (auto simp: prepare_request_def run_phase_def split: option.splits prod.splits)

lemma finish_turn_facts:
  assumes "finish_turn cfg turn r = (d, r')"
  shows "ru_events r' = ru_events r" "run_phase r' = run_phase r"
  using assms by (auto simp: finish_turn_def run_phase_def split: option.splits prod.splits)

text \<open>What a turn's end says: the results answer the calls of its message, and a failed one has none.\<close>

definition turn_answered :: "'w host \<Rightarrow> event \<Rightarrow> bool" where
  "turn_answered h e = (case e of
     TurnEnd (AssistantMsg m) rs \<Rightarrow>
       (let calls = tool_calls_of (am_content m)
        in if am_stop_reason m = StopError \<or> am_stop_reason m = Aborted then rs = []
           else (\<exists>n. map trm_tool_call_id rs = map call_id (take n calls) \<and> map trm_tool_name rs = map call_name (take n calls) \<and>
                   (calls \<noteq> [] \<longrightarrow> n > 0) \<and> (n < length calls \<longrightarrow> (\<exists>w. ho_cancelled h w))) \<and>
                (am_stop_reason m = StopLength \<longrightarrow> list_all trm_is_error rs \<and> length rs = length calls))
   | TurnEnd m rs \<Rightarrow> False
   | _ \<Rightarrow> True)"

lemma turn_tools_facts:
  assumes "turn_tools h cfg ctx m r = (b, go_on, r')"
    "am_stop_reason m \<noteq> StopError" "am_stop_reason m \<noteq> Aborted"
  shows "marks r' = marks r @ map result_end (ba_messages b)"
    "run_phase r = Some (PTurn {#}) \<Longrightarrow> run_phase r' = Some (PTurn {#})"
    "turn_answered h (TurnEnd (AssistantMsg m) (ba_messages b))"
proof -
  let ?calls = "tool_calls_of (am_content m)"
  have "batch_answers h ?calls r b r' \<and>
    (am_stop_reason m = StopLength \<longrightarrow> list_all trm_is_error (ba_messages b) \<and> length (ba_messages b) = length ?calls)"
  proof (cases "?calls = []")
    case True
    with assms(1) show ?thesis by (auto simp: turn_tools_def batch_answers_def)
  next
    case False
    then show ?thesis
      using assms(1) truncated_answers [of h ?calls r b r']
        sequential_answers [of h "lc_hooks cfg" ctx m ?calls r b r'] parallel_answers [of h "lc_hooks cfg" ctx m ?calls r b r']
      by (auto simp: turn_tools_def execute_tool_calls_def Let_def split: if_splits prod.splits)
  qed
  then show "marks r' = marks r @ map result_end (ba_messages b)"
    "run_phase r = Some (PTurn {#}) \<Longrightarrow> run_phase r' = Some (PTurn {#})"
    "turn_answered h (TurnEnd (AssistantMsg m) (ba_messages b))"
    using assms(2,3) unfolding batch_answers_def turn_answered_def by (auto simp: Let_def)
qed

text \<open>The invariant of the loop at the start of a turn.\<close>

definition loop_ok :: "'w host \<Rightarrow> 'w loop_vars \<Rightarrow> 'w run \<Rightarrow> bool" where
  "loop_ok h v r \<longleftrightarrow>
     run_phase r = Some (if lv_last_turn v = None then PTurn {#} else PBetween) \<and>
     ended_messages (marks r) = lv_new_messages v \<and> list_all (turn_answered h) (marks r)"

definition run_ok :: "'w host \<Rightarrow> message list \<Rightarrow> 'w run \<Rightarrow> bool" where
  "run_ok h new r \<longleftrightarrow> run_phase r = Some PDone \<and> ended_messages (marks r) = new \<and>
     list_all (turn_answered h) (marks r) \<and> ru_events r \<noteq> [] \<and> last (ru_events r) = AgentEnd new"

lemma ended_of_ends [simp]: "ended_messages (map MessageEnd ms) = ms"
  "ended_messages (map (\<lambda>m. result_end m) rs) = map ToolResultMsg rs"
  by (induction ms, simp_all) (induction rs, simp_all)

lemma answered_ends [simp]: "turn_answered h (MessageEnd m)"
  by (simp add: turn_answered_def)

lemma prepare_turn_facts:
  assumes "prepare_turn h cfg v r = (prepared, v', r')" "loop_ok h v r"
  shows "run_phase r' = Some (PTurn {#})" "marks r' = marks r" "lv_new_messages v' = lv_new_messages v"
  using assms
  by (auto simp: prepare_turn_def loop_ok_def run_phase_def [symmetric] Let_def split: option.splits prod.splits if_splits)

lemma run_turn_ok:
  assumes "loop_ok h v r" "streams_ok cfg"
  shows "case run_turn h cfg v r of
      Ended (new, r') \<Rightarrow> run_ok h new r'
    | Continues (v', r') \<Rightarrow> loop_ok h v' r' \<and> lv_last_turn v' \<noteq> None"
proof -
  obtain prepared v1 r1 where prep: "prepare_turn h cfg v r = (prepared, v1, r1)" by (rule prod_cases3)
  let ?declared = "declare_tool_changes (ho_now h (ru_world r1)) (lv_context v1) (prepared @ lv_pending v1)"
  obtain v2 r2 where add: "add_messages h ?declared v1 r1 = (v2, r2)" by force
  obtain v3 r3 where request: "prepare_request cfg (v2\<lparr>lv_pending := []\<rparr>) r2 = (v3, r3)" by force
  obtain m ctx r4 where stream: "stream_assistant_response h cfg (lv_model v3) (lv_reasoning v3) (lv_context v3) r3 = (m, ctx, r4)"
    by (rule prod_cases3)
  note facts = prepare_turn_facts [OF prep assms(1)] add_messages_facts [OF add] prepare_request_facts [OF request]
  have "run_phase r3 = Some (PTurn {#})" using facts by simp
  note resp = stream_response_facts [OF stream assms(2) this]
  have new3: "lv_new_messages v3 = lv_new_messages v @ ?declared" using facts by simp
  have m3: "marks r3 = marks r @ map MessageEnd ?declared" using facts by simp
  have m4: "ended_messages (marks r4) = lv_new_messages v3 @ [AssistantMsg m] \<and> list_all (turn_answered h) (marks r4)"
    using assms(1) new3 m3 resp(1) by (auto simp: loop_ok_def list_all_iff)
  let ?new = "lv_new_messages v3 @ [AssistantMsg m]"
  show ?thesis
  proof (cases "am_stop_reason m = StopError \<or> am_stop_reason m = Aborted")
    case True
    let ?turn = "\<lparr>tc_message = m, tc_results = [], tc_context = ctx, tc_new_messages = ?new\<rparr>"
    obtain d r5 where fin: "finish_turn cfg ?turn r4 = (d, r5)" by force
    have out: "run_turn h cfg v r = Ended (?new, emit h (AgentEnd ?new) (emit h (TurnEnd (AssistantMsg m) []) r5))"
      unfolding run_turn_def using prep add request stream fin True by (simp add: Let_def)
    have "turn_answered h (TurnEnd (AssistantMsg m) [])" using True by (auto simp: turn_answered_def Let_def)
    with out m4 resp(2) finish_turn_facts [OF fin] show ?thesis by (simp add: run_ok_def)
  next
    case False
    obtain b go_on r5 where tools: "turn_tools h cfg ctx m r4 = (b, go_on, r5)" by (rule prod_cases3)
    let ?results = "map ToolResultMsg (ba_messages b)"
    let ?turn = "\<lparr>tc_message = m, tc_results = ba_messages b, tc_context = ctx\<lparr>ac_messages := ac_messages ctx @ ?results\<rparr>,
        tc_new_messages = ?new @ ?results\<rparr>"
    obtain d r6 where fin: "finish_turn cfg ?turn r5 = (d, r6)" by force
    let ?r7 = "emit h (TurnEnd (AssistantMsg m) (ba_messages b)) r6"
    obtain pending w where pending: "poll (lc_steering cfg) (ru_world ?r7) = (pending, w)" by force
    from False have ok: "am_stop_reason m \<noteq> StopError" "am_stop_reason m \<noteq> Aborted" by auto
    note t = turn_tools_facts [OF tools ok]
    have m7: "ended_messages (marks ?r7) = ?new @ ?results" "list_all (turn_answered h) (marks ?r7)"
      using m4 t(1,3) finish_turn_facts(1) [OF fin] by (auto simp: list_all_iff)
    have p7: "run_phase ?r7 = Some PBetween" using t(2) resp(2) finish_turn_facts(2) [OF fin] by simp
    show ?thesis
    proof (cases "d = Some EndRun")
      case True
      have "run_turn h cfg v r = Ended (?new @ ?results, emit h (AgentEnd (?new @ ?results)) ?r7)"
        unfolding run_turn_def using prep add request stream fin tools ok True by (simp add: Let_def)
      with m7 p7 show ?thesis by (simp add: run_ok_def)
    next
      case nend: False
      have "\<exists>v'. run_turn h cfg v r = Continues (v', ?r7\<lparr>ru_world := w\<rparr>) \<and>
          lv_new_messages v' = ?new @ ?results \<and> lv_last_turn v' = Some ?turn"
        unfolding run_turn_def using prep add request stream fin tools ok nend pending by (simp add: Let_def)
      with m7 p7 show ?thesis by (auto simp: loop_ok_def)
    qed
  qed
qed

lemma run_loop_ok:
  assumes "run_loop n h cfg v r = Some (new, r')" "loop_ok h v r" "streams_ok cfg"
  shows "run_ok h new r'"
  using assms
proof (induction n arbitrary: v r)
  case (Suc n)
  note turn = run_turn_ok [OF Suc.prems(2,3)]
  show ?case
  proof (cases "run_turn h cfg v r")
    case (Ended out)
    with Suc.prems(1) turn show ?thesis by simp
  next
    case (Continues out)
    obtain v1 r1 where out: "out = (v1, r1)" by force
    from turn Continues out have ok: "loop_ok h v1 r1" "lv_last_turn v1 \<noteq> None" by simp_all
    obtain ups w where ups: "poll (lc_follow_up cfg) (ru_world r1) = (ups, w)" by force
    have moved: "loop_ok h (v1\<lparr>lv_explicit := b\<rparr>) (r1\<lparr>ru_world := w\<rparr>)"
      "loop_ok h (v1\<lparr>lv_explicit := b, lv_pending := ms\<rparr>) (r1\<lparr>ru_world := w\<rparr>)" for b ms
      using ok by (simp_all add: loop_ok_def)
    have last: "run_ok h (lv_new_messages v1) (emit h (AgentEnd (lv_new_messages v1)) (r1\<lparr>ru_world := w\<rparr>))"
      using ok by (auto simp: loop_ok_def run_ok_def)
    have inner: "run_loop n h cfg v1 r1 = Some (new, r') \<Longrightarrow> ?thesis" using Suc.IH ok(1) assms(3) by blast
    have outer: "run_loop n h cfg (v1\<lparr>lv_explicit := b\<rparr>) (r1\<lparr>ru_world := w\<rparr>) = Some (new, r') \<Longrightarrow> ?thesis"
      "run_loop n h cfg (v1\<lparr>lv_explicit := b, lv_pending := ms\<rparr>) (r1\<lparr>ru_world := w\<rparr>) = Some (new, r') \<Longrightarrow> ?thesis" for b ms
      using Suc.IH moved assms(3) by blast+
    from Suc.prems(1) Continues out ups inner outer last show ?thesis
      by (auto simp: Let_def split: if_splits)
  qed
qed simp

subsection \<open>Declared tools\<close>

lemma current_tools_cong: "system_messages ms = system_messages ns \<Longrightarrow> get_current_tools ms = get_current_tools ns"
  by (simp add: get_current_tools_def)

lemma replay_delta:
  assumes "names_distinct current" "system_messages ns = system_messages ms @ [with_tool_changes m
      (get_tool_state_changes (get_current_tools ms) current)]"
  shows "same_declarations (get_current_tools ns) current"
proof -
  let ?ch = "get_tool_state_changes (get_current_tools ms) current"
  have d: "names_distinct (get_current_tools ms)" by (simp add: names_distinct_def distinct_current_tools)
  have eta: "\<lparr>tsc_added = tsc_added ch, tsc_removed = tsc_removed ch\<rparr> = ch" for ch :: tool_state_changes by simp
  have "get_current_tools ns = get_current_tools (ms @ [SystemMsg (with_tool_changes m ?ch)])"
    by (rule current_tools_cong) (simp add: assms(2))
  also have "same_declarations \<dots> current"
    by (simp add: with_tool_changes_def get_current_tools_snoc eta tool_log.apply_diff [OF d assms(1)])
  finally show ?thesis .
qed

lemma no_delta:
  assumes "names_distinct current" "tsc_added (get_tool_state_changes (get_current_tools ms) current) = []"
    "tsc_removed (get_tool_state_changes (get_current_tools ms) current) = []"
  shows "same_declarations (get_current_tools ms) current"
  using tool_log.silent_iff [of "get_current_tools ms" current] assms
  by (simp add: names_distinct_def distinct_current_tools)


lemma last_system_split:
  assumes "last_system_index ms = Some i"
  obtains xs m ys where "ms = xs @ SystemMsg m # ys" "i = length xs" "\<forall>y \<in> set ys. \<not> is_system_msg y"
proof -
  from assms obtain j where j: "find_index is_system_msg (rev ms) = Some j" "i = length ms - 1 - j"
    by (auto simp: last_system_index_def)
  have "\<exists>us x vs. zs = us @ x # vs \<and> k = length us \<and> is_system_msg x \<and> (\<forall>u \<in> set us. \<not> is_system_msg u)"
    if "find_index is_system_msg zs = Some k" for zs k
    using that
  proof (induction zs arbitrary: k)
    case (Cons z zs)
    show ?case
    proof (cases "is_system_msg z")
      case True
      with Cons.prems show ?thesis by (intro exI [of _ "[]"]) auto
    next
      case False
      with Cons.prems obtain k' where k': "find_index is_system_msg zs = Some k'" "k = Suc k'" by (auto split: option.splits)
      from Cons.IH [OF k'(1)] obtain us x vs where
        "zs = us @ x # vs" "k' = length us" "is_system_msg x" "\<forall>u \<in> set us. \<not> is_system_msg u" by blast
      with False k'(2) show ?thesis by (intro exI [of _ "z # us"]) auto
    qed
  qed simp
  from this [OF j(1)] obtain us x vs where
    u: "rev ms = us @ x # vs" "j = length us" "is_system_msg x" "\<forall>u \<in> set us. \<not> is_system_msg u" by blast
  obtain m where m: "x = SystemMsg m" using u(3) by (cases x) auto
  have "ms = rev vs @ SystemMsg m # rev us" using arg_cong [OF u(1), of rev] m by simp
  moreover have "i = length (rev vs)" using j(2) u(2) calculation by simp
  ultimately show thesis using that u(4) by simp
qed

lemma no_system: "last_system_index ms = None \<Longrightarrow> \<forall>m \<in> set ms. \<not> is_system_msg m"
proof -
  have "find_index f zs = None \<Longrightarrow> \<forall>z \<in> set zs. \<not> f z" for f :: "'a \<Rightarrow> bool" and zs
    by (induction zs) (auto split: if_splits option.splits)
  from this [of is_system_msg "rev ms"] show "last_system_index ms = None \<Longrightarrow> ?thesis"
    by (simp add: last_system_index_def)
qed

text \<open>
  C31. Before every request the transcript is made to declare exactly the executable tools: replaying
  the transcript with the messages to be added yields them; the other messages are added unchanged
  and in order; and once declared, the same tools are not announced again.
\<close>

theorem declared_tools_are_the_executable_ones:
  assumes "names_distinct (map (\<lambda>t. to_tool_declaration (at_tool t)) (context_tools ctx))"
  shows "let out = declare_tool_changes now ctx pending;
             tools = map (\<lambda>t. to_tool_declaration (at_tool t)) (context_tools ctx)
    in same_declarations (get_current_tools (ac_messages ctx @ out)) tools \<and>
       filter (\<lambda>m. \<not> is_system_msg m) out = filter (\<lambda>m. \<not> is_system_msg m) pending \<and>
       (out = pending \<or> map (set_tool_changes no_changes) out = map (set_tool_changes no_changes) pending \<or>
        length out = Suc (length pending)) \<and>
       declare_tool_changes now' (ctx\<lparr>ac_messages := ac_messages ctx @ out\<rparr>) [] = []"
proof -
  let ?tools = "map (\<lambda>t. to_tool_declaration (at_tool t)) (context_tools ctx)"
  let ?out = "declare_tool_changes now ctx pending"
  note dist = assms
  have main: "same_declarations (get_current_tools (ac_messages ctx @ ?out)) ?tools \<and>
      filter (\<lambda>m. \<not> is_system_msg m) ?out = filter (\<lambda>m. \<not> is_system_msg m) pending \<and>
      (?out = pending \<or> map (set_tool_changes no_changes) ?out = map (set_tool_changes no_changes) pending \<or>
       length ?out = Suc (length pending))"
  proof (cases "last_system_index pending")
    case None
    let ?ch = "get_tool_state_changes (get_current_tools (ac_messages ctx @ pending)) ?tools"
    have nosys: "system_messages pending = []" by (rule system_messages_none [OF no_system [OF None]])
    show ?thesis
    proof (cases "tsc_added ?ch = [] \<and> tsc_removed ?ch = []")
      case True
      with None have "?out = pending" by (simp add: declare_tool_changes_def Let_def)
      with no_delta [OF dist] True show ?thesis by simp
    next
      case False
      let ?u = "with_tool_changes \<lparr>sm_content = StrContent [], sm_timestamp = now, sm_sections = None,
          sm_tools_added = None, sm_tools_removed = None\<rparr> ?ch"
      define i where "i = (case find_index (\<lambda>m. \<not> is_system_msg m) pending of Some i \<Rightarrow> i | None \<Rightarrow> length pending)"
      have out: "?out = take i pending @ [SystemMsg ?u] @ drop i pending"
        unfolding declare_tool_changes_def i_def Let_def None option.case using False by (simp only: if_False)
      have "system_messages (take i pending) = [] \<and> system_messages (drop i pending) = []"
        using no_system [OF None] by (meson in_set_dropD in_set_takeD system_messages_none)
      then have "same_declarations (get_current_tools (ac_messages ctx @ ?out)) ?tools"
        unfolding out by (intro replay_delta [OF dist, of _ "ac_messages ctx @ pending"]) (simp add: nosys)
      moreover have "filter (\<lambda>m. \<not> is_system_msg m) ?out = filter (\<lambda>m. \<not> is_system_msg m) pending"
      proof -
        have "filter (\<lambda>m. \<not> is_system_msg m) ?out = filter (\<lambda>m. \<not> is_system_msg m) (take i pending @ drop i pending)"
          unfolding out by (simp del: append_take_drop_id)
        then show ?thesis by simp
      qed
      moreover have "length ?out = Suc (length pending)"
        unfolding out using arg_cong [OF append_take_drop_id [of i pending], of length] by simp
      ultimately show ?thesis by blast
    qed
  next
    case (Some i)
    from last_system_split [OF this] obtain xs m ys where
      split: "pending = xs @ SystemMsg m # ys" "i = length xs" "\<forall>y \<in> set ys. \<not> is_system_msg y" .
    let ?base = "xs @ SystemMsg (with_tool_changes m no_changes) # ys"
    let ?ch = "get_tool_state_changes (get_current_tools (ac_messages ctx @ ?base)) ?tools"
    have ys: "system_messages ys = []" by (rule system_messages_none [OF split(3)])
    have silent: "get_current_tools (ac_messages ctx @ xs @ SystemMsg n # ys) = get_current_tools (ac_messages ctx @ xs)"
      if "or_empty (sm_tools_added n) = []" "or_empty (sm_tools_removed n) = []" for n
    proof -
      have "get_current_tools (ac_messages ctx @ xs @ SystemMsg n # ys) = get_current_tools ((ac_messages ctx @ xs) @ [SystemMsg n])"
        by (rule current_tools_cong) (simp add: ys)
      then show ?thesis unfolding get_current_tools_def by (simp add: apply_tool_changes_def that)
    qed
    have base: "get_current_tools (ac_messages ctx @ ?base) = get_current_tools (ac_messages ctx @ xs)"
      by (rule silent) (simp_all add: with_tool_changes_def no_changes_def non_empty_def)
    have def_out: "?out = (if (tsc_added ?ch = [] \<and> tsc_removed ?ch = []) \<and> \<not> declares_tools (SystemMsg m) then pending
        else xs @ SystemMsg (with_tool_changes m ?ch) # ys)"
      using Some split by (simp add: declare_tool_changes_def Let_def)
    show ?thesis
    proof (cases "(tsc_added ?ch = [] \<and> tsc_removed ?ch = []) \<and> \<not> declares_tools (SystemMsg m)")
      case True
      then have "get_current_tools (ac_messages ctx @ pending) = get_current_tools (ac_messages ctx @ ?base)"
        unfolding split(1) base by (intro silent) simp_all
      with no_delta [OF dist] True def_out show ?thesis by simp
    next
      case False
      then have out: "?out = xs @ SystemMsg (with_tool_changes m ?ch) # ys" using def_out by (simp only: if_False)
      have "same_declarations (get_current_tools (ac_messages ctx @ ?out)) ?tools"
        unfolding out by (rule replay_delta [OF dist, of _ "ac_messages ctx @ xs" m]) (simp add: ys base)
      moreover have "map (set_tool_changes no_changes) ?out = map (set_tool_changes no_changes) pending"
        unfolding out unfolding split(1) by (simp add: with_tool_changes_def)
      moreover have "filter (\<lambda>m. \<not> is_system_msg m) ?out = filter (\<lambda>m. \<not> is_system_msg m) pending"
        unfolding out unfolding split(1) by simp
      ultimately show ?thesis by blast
    qed
  qed
  let ?ctx' = "ctx\<lparr>ac_messages := ac_messages ctx @ ?out\<rparr>"
  have "tsc_added (get_tool_state_changes (get_current_tools (ac_messages ctx @ ?out)) ?tools) = [] \<and>
      tsc_removed (get_tool_state_changes (get_current_tools (ac_messages ctx @ ?out)) ?tools) = []"
    using tool_log.silent_iff [of "get_current_tools (ac_messages ctx @ ?out)" ?tools] main dist
    by (simp add: names_distinct_def distinct_current_tools)
  moreover have "context_tools ?ctx' = context_tools ctx" by (simp add: context_tools_def)
  ultimately have "declare_tool_changes now' ?ctx' [] = []"
    by (simp add: declare_tool_changes_def Let_def last_system_index_def)
  with main show ?thesis by (simp only: Let_def)
qed

subsection \<open>Properties of a run\<close>

lemma start_loop_ok:
  assumes "start_loop fuel h cfg model reasoning ctx new r = Some (out, r')" "streams_ok cfg"
    "run_phase r = Some (PTurn {#})" "ended_messages (marks r) = new" "list_all (turn_answered h) (marks r)"
  shows "run_ok h out r'"
proof -
  obtain pending w where poll: "poll (lc_steering cfg) (ru_world r) = (pending, w)" by force
  show ?thesis
    by (rule run_loop_ok [OF _ _ assms(2)]) (use assms poll in \<open>auto simp: start_loop_def loop_ok_def\<close>)
qed

lemma emit_messages_facts:
  "marks (fold (emit_message h) ms r) = marks r @ map MessageEnd ms \<and>
   (run_phase r = Some (PTurn {#}) \<longrightarrow> run_phase (fold (emit_message h) ms r) = Some (PTurn {#}))"
  by (induction ms arbitrary: r) simp_all

text \<open>A prompted or a continued run that returned.\<close>

definition returned_run ::
  "nat \<Rightarrow> 'w host \<Rightarrow> 'w loop_config \<Rightarrow> model_ref \<Rightarrow> pystr option \<Rightarrow> message list option \<Rightarrow> 'w agent_context \<Rightarrow> 'w \<Rightarrow>
   message list \<Rightarrow> 'w run \<Rightarrow> bool" where
  "returned_run fuel h cfg model reasoning prompts ctx w new r \<longleftrightarrow>
     (case prompts of
        Some ps \<Rightarrow> run_agent_loop fuel h cfg model reasoning ps ctx w = Some (new, r)
      | None \<Rightarrow> run_agent_loop_continue fuel h cfg model reasoning ctx w = Some (Inr (new, r)))"

lemma returned_run_ok:
  assumes "returned_run fuel h cfg model reasoning prompts ctx w new r" "streams_ok cfg"
  shows "run_ok h new r"
proof -
  let ?r0 = "emit h TurnStart (emit h AgentStart \<lparr>ru_events = [], ru_world = w\<rparr>)"
  have r0: "run_phase ?r0 = Some (PTurn {#})" "marks ?r0 = []" by (simp_all add: run_phase_def)
  show ?thesis
  proof (cases prompts)
    case None
    with assms(1) have "start_loop fuel h cfg model reasoning ctx [] ?r0 = Some (new, r)"
      by (auto simp: returned_run_def run_agent_loop_continue_def split: if_splits)
    from start_loop_ok [OF this assms(2)] r0 show ?thesis by simp
  next
    case (Some ps)
    let ?ms = "declare_tool_changes (ho_now h w) ctx ps"
    from assms(1) Some have "start_loop fuel h cfg model reasoning (ctx\<lparr>ac_messages := ac_messages ctx @ ?ms\<rparr>) ?ms
        (fold (emit_message h) ?ms ?r0) = Some (new, r)"
      by (simp add: returned_run_def run_agent_loop_def Let_def)
    from start_loop_ok [OF this assms(2)] r0 emit_messages_facts [of h ?ms ?r0] show ?thesis
      by (simp add: list_all_iff)
  qed
qed

text \<open>
  C1. A run that returns has followed the event protocol: it starts with the agent's start, turns,
  messages and tool executions are properly nested, nothing is left running, and the last event is the
  agent's end with the messages the run returns, which are exactly the messages it has ended, in order.
\<close>

theorem agent_run_follows_the_protocol:
  assumes "returned_run fuel h cfg model reasoning prompts ctx w new r" "streams_ok cfg"
  shows "run_phase r = Some PDone \<and> last (ru_events r) = AgentEnd new \<and> ended r = new"
  using returned_run_ok [OF assms] ended_of_marks [of "ru_events r"] by (simp add: run_ok_def)

text \<open>
  C3. Every turn answers the tool calls of its message: in the order of the calls, each with its id
  and name, all of them unless the run was cancelled; a message cut off by the token limit gets an
  error for each of its calls; a failed or aborted message gets nothing.
\<close>

theorem turns_answer_their_calls:
  assumes "returned_run fuel h cfg model reasoning prompts ctx w new r" "streams_ok cfg"
    "TurnEnd (AssistantMsg m) rs \<in> set (ru_events r)"
  shows "if am_stop_reason m = StopError \<or> am_stop_reason m = Aborted then rs = []
    else (\<exists>n. map trm_tool_call_id rs = map call_id (take n (tool_calls_of (am_content m))) \<and>
            map trm_tool_name rs = map call_name (take n (tool_calls_of (am_content m))) \<and>
            (n < length (tool_calls_of (am_content m)) \<longrightarrow> n > 0 \<and> (\<exists>w. ho_cancelled h w))) \<and>
         (am_stop_reason m = StopLength \<longrightarrow> list_all trm_is_error rs \<and> length rs = length (tool_calls_of (am_content m)))"
proof -
  have "TurnEnd (AssistantMsg m) rs \<in> set (marks r)" using assms(3) by (simp add: marks_of_def)
  with returned_run_ok [OF assms(1,2)] have "turn_answered h (TurnEnd (AssistantMsg m) rs)"
    by (auto simp: run_ok_def list_all_iff)
  then show ?thesis
    by (cases "am_stop_reason m = StopError \<or> am_stop_reason m = Aborted")
      (simp_all only: turn_answered_def event.case message.case Let_def if_True if_False,
       metis length_greater_0_conv less_zeroE list.size(3))
qed

end
