(* ===== verification/Agent_Respect.thy ===== *)
theory Agent_Respect
  imports Agent_Loop
begin

text \<open>
  What tools, hooks, stream, queues and sink of the agent loop (\<open>pidrei_agent/agent_loop.py\<close>) respect,
  the loop respects: a preorder on runs that every emitted event and every call of a collaborator
  moves along relates the start and the end of batches, turns and whole runs.
\<close>

subsection \<open>Calls\<close>

definition moved :: "('w run \<Rightarrow> 'w run \<Rightarrow> bool) \<Rightarrow> 'w \<Rightarrow> 'w \<Rightarrow> bool" where
  "moved Q w w' \<longleftrightarrow> (\<forall>r. ru_world r = w \<longrightarrow> Q r (r\<lparr>ru_world := w'\<rparr>))"

definition calls_respect :: "('w run \<Rightarrow> 'w run \<Rightarrow> bool) \<Rightarrow> 'w host \<Rightarrow> 'w hooks \<Rightarrow> 'w agent_tool list \<Rightarrow> bool" where
  "calls_respect Q h hk tools \<longleftrightarrow>
     (\<forall>r. Q r r) \<and> (\<forall>s r r'. Q s r \<longrightarrow> Q r r' \<longrightarrow> Q s r') \<and>
     (\<forall>s e r. Q s r \<longrightarrow> Q s (emit h e r)) \<and>
     (\<forall>t \<in> set tools. \<forall>i a w. moved Q w (snd (at_execute t i a w))) \<and>
     (\<forall>f. hk_before hk = Some f \<longrightarrow> (\<forall>c w. moved Q w (snd (f c w)))) \<and>
     (\<forall>f. hk_after hk = Some f \<longrightarrow> (\<forall>c w. moved Q w (snd (f c w))))"

lemma respect_refl: "calls_respect Q h hk tools \<Longrightarrow> Q r r"
  and respect_trans: "calls_respect Q h hk tools \<Longrightarrow> Q s r \<Longrightarrow> Q r r' \<Longrightarrow> Q s r'"
  and respect_tool: "calls_respect Q h hk tools \<Longrightarrow> t \<in> set tools \<Longrightarrow> moved Q w (snd (at_execute t i a w))"
  and respect_before: "calls_respect Q h hk tools \<Longrightarrow> hk_before hk = Some f \<Longrightarrow> moved Q w (snd (f c w))"
  and respect_after: "calls_respect Q h hk tools \<Longrightarrow> hk_after hk = Some g \<Longrightarrow> moved Q w (snd (g c' w))"
  unfolding calls_respect_def by blast+

lemma respect_emit: "calls_respect Q h hk tools \<Longrightarrow> Q s r \<Longrightarrow> Q s (emit h e r)"
  unfolding calls_respect_def by blast

lemma respect_moved: "calls_respect Q h hk tools \<Longrightarrow> Q s r \<Longrightarrow> moved Q (ru_world r) w \<Longrightarrow> Q s (r\<lparr>ru_world := w\<rparr>)"
  by (rule respect_trans [of Q h hk tools s r]) (simp_all add: moved_def)

lemma moved_refl: "calls_respect Q h hk tools \<Longrightarrow> moved Q w w"
  by (auto simp: moved_def dest: respect_refl)

lemma respect_message: "calls_respect Q h hk tools \<Longrightarrow> Q s r \<Longrightarrow> Q s (emit_message h m r)"
  by (simp add: emit_message_def respect_emit)

lemma respect_updates: "calls_respect Q h hk tools \<Longrightarrow> Q s r \<Longrightarrow> Q s (emit_updates h c us r)"
  unfolding emit_updates_def by (induction us arbitrary: r) (simp_all add: respect_emit)

lemma respect_prepare:
  assumes "calls_respect Q h hk tools" "prepare_tool_call h hk ctx msg call ts w = (p, w')"
  shows "moved Q w w'"
proof (cases "hk_before hk")
  case None
  with assms(2) have "w' = w"
    by (auto simp: prepare_tool_call_def Let_def split: option.splits sum.splits)
  then show ?thesis by (simp add: moved_refl [OF assms(1)])
next
  case (Some f)
  from Some assms(2) have "w' = w \<or> (\<exists>c. w' = snd (f c w))"
    by (auto simp: prepare_tool_call_def Let_def split: option.splits sum.splits prod.splits) (metis snd_conv)+
  with respect_before [OF assms(1) Some] moved_refl [OF assms(1)] show ?thesis by auto
qed

lemma respect_finalize:
  assumes "calls_respect Q h hk tools" "finalize_executed hk ctx msg p x w = (f, w')"
  shows "moved Q w w'"
proof (cases "hk_after hk")
  case None
  with assms show ?thesis by (auto simp: finalize_executed_def Let_def moved_refl)
next
  case (Some g)
  from Some assms(2) have "\<exists>c. w' = snd (g c w)"
    by (auto simp: finalize_executed_def Let_def split: option.splits sum.splits prod.splits) (metis snd_conv)+
  with respect_after [OF assms(1) Some] show ?thesis by auto
qed

lemma respect_execute:
  assumes "calls_respect Q h hk tools" "execute_prepared h hk ctx msg p r = (f, r')" "pc_tool p \<in> set tools"
    "Q s r"
  shows "Q s r'"
proof -
  obtain run v where x: "at_execute (pc_tool p) (call_id (pc_call p)) (pc_args p) (ru_world r) = (run, v)" by force
  let ?r1 = "emit_updates h (pc_call p) (tr_updates run) (r\<lparr>ru_world := v\<rparr>)"
  obtain g w' where fin: "finalize_executed hk ctx msg p (settle_run run) (ru_world ?r1) = (g, w')" by force
  have "moved Q (ru_world r) v" using respect_tool [OF assms(1,3)] x by (metis snd_conv)
  from respect_updates [OF assms(1) respect_moved [OF assms(1,4) this]] have "Q s ?r1" .
  from respect_moved [OF assms(1) this respect_finalize [OF assms(1) fin]] have "Q s (?r1\<lparr>ru_world := w'\<rparr>)" .
  moreover have "r' = ?r1\<lparr>ru_world := w'\<rparr>" using assms(2) x fin by (simp add: execute_prepared_def Let_def)
  ultimately show ?thesis by simp
qed

lemma respect_report:
  assumes "calls_respect Q h hk tools" "report_result h f r = (m, r')" "Q s r"
  shows "Q s r'"
  using assms by (auto simp: report_result_def Let_def respect_message)

lemma respect_sequential:
  assumes "calls_respect Q h hk (context_tools ctx)" "run_sequential h hk ctx msg calls r = (fms, r')" "Q s r"
  shows "Q s r'"
  using assms(2,3)
proof (induction calls arbitrary: r r' fms)
  case (Cons call calls)
  let ?r0 = "emit h (start_event call) r"
  obtain prep v where prep: "prepare_tool_call h hk ctx msg call None (ru_world ?r0) = (prep, v)" by force
  let ?r1 = "?r0\<lparr>ru_world := v\<rparr>"
  obtain f r2 where f: "(case prep of Immediate result is_error \<Rightarrow> (unexecuted call result is_error, ?r1)
         | Prepared p \<Rightarrow> execute_prepared h hk ctx msg p ?r1) = (f, r2)" by force
  obtain m r3 where m: "report_result h f (emit h (end_event f) r2) = (m, r3)" by force
  have "Q s ?r0" using Cons.prems(2) by (rule respect_emit [OF assms(1)])
  then have "Q s ?r1" by (rule respect_moved [OF assms(1) _ respect_prepare [OF assms(1) prep]])
  then have "Q s r2"
  proof (cases prep)
    case (Prepared p)
    with f have "execute_prepared h hk ctx msg p ?r1 = (f, r2)" by simp
    from respect_execute [OF assms(1) this prepared_tool [OF prep [unfolded Prepared]] \<open>Q s ?r1\<close>] show ?thesis .
  qed (use f in auto)
  then have r3: "Q s r3"
    using respect_report [OF assms(1) m] respect_emit [OF assms(1)] by blast
  show ?case
  proof (cases "ho_cancelled h (ru_world r3)")
    case True
    with Cons.prems(1) prep f m have "r' = r3" by (simp add: Let_def)
    with r3 show ?thesis by simp
  next
    case False
    obtain rest r4 where rest: "run_sequential h hk ctx msg calls r3 = (rest, r4)" by force
    with False Cons.prems(1) prep f m have "r' = r4" by (simp add: Let_def)
    with Cons.IH [OF rest r3] show ?thesis by simp
  qed
qed simp

lemma respect_prepare_batch:
  assumes "calls_respect Q h hk (context_tools ctx)" "prepare_batch h hk ctx msg calls r = (ts, r')" "Q s r"
  shows "Q s r' \<and> list_all (task_of_tools (context_tools ctx)) ts"
  using assms(2,3)
proof (induction calls arbitrary: r r' ts)
  case (Cons call calls)
  let ?r0 = "emit h (start_event call) r"
  obtain prep v where prep: "prepare_tool_call h hk ctx msg call None (ru_world ?r0) = (prep, v)" by force
  let ?r1 = "?r0\<lparr>ru_world := v\<rparr>"
  obtain t r2 where t: "(case prep of
        Immediate result is_error \<Rightarrow>
          (let f = unexecuted call result is_error in (Settled f, emit h (end_event f) ?r1))
      | Prepared p \<Rightarrow> (Ready p, ?r1)) = (t, r2)" by force
  have "Q s ?r0" using Cons.prems(2) by (rule respect_emit [OF assms(1)])
  then have r1: "Q s ?r1" by (rule respect_moved [OF assms(1) _ respect_prepare [OF assms(1) prep]])
  have r2: "Q s r2"
    using t r1 respect_emit [OF assms(1)] by (cases prep) (auto simp: Let_def)
  have tools: "task_of_tools (context_tools ctx) t"
  proof (cases prep)
    case (Prepared p)
    with t prepared_tool [OF prep [unfolded Prepared]] show ?thesis by auto
  qed (use t in \<open>auto simp: Let_def\<close>)
  show ?case
  proof (cases "ho_cancelled h (ru_world r2)")
    case True
    with Cons.prems(1) prep t have "ts = [t]" "r' = r2" by (simp_all add: Let_def)
    with r2 tools show ?thesis by simp
  next
    case False
    obtain us r3 where us: "prepare_batch h hk ctx msg calls r2 = (us, r3)" by force
    with False Cons.prems(1) prep t have "ts = t # us" "r' = r3" by (simp_all add: Let_def)
    with Cons.IH [OF us r2] tools show ?thesis by simp
  qed
qed simp

lemma respect_task_step:
  assumes "calls_respect Q h hk tools" "task_step h hk ctx msg t r = (t', r')" "task_of_tools tools t" "Q s r"
  shows "Q s r' \<and> task_of_tools tools t'"
proof (cases t)
  case (Ready p)
  show ?thesis
  proof (cases "ho_cancelled h (ru_world r)")
    case True
    with assms(2,4) Ready respect_emit [OF assms(1)] show ?thesis by (auto simp: Let_def)
  next
    case False
    obtain run v where x: "at_execute (pc_tool p) (call_id (pc_call p)) (pc_args p) (ru_world r) = (run, v)" by force
    have "moved Q (ru_world r) v" using respect_tool [OF assms(1)] assms(3) Ready x by (metis snd_conv task_of_tools.simps(1))
    from respect_moved [OF assms(1,4) this] assms(2) Ready False x show ?thesis by auto
  qed
next
  case (Running p us x)
  show ?thesis
  proof (cases us)
    case Nil
    obtain f v where f: "finalize_executed hk ctx msg p x (ru_world r) = (f, v)" by force
    from respect_moved [OF assms(1,4) respect_finalize [OF assms(1) f]] Nil Running assms(2) f show ?thesis by auto
  next
    case (Cons u us)
    with Running assms(2,4) respect_emit [OF assms(1)] show ?thesis by auto
  qed
qed (use assms respect_emit [OF assms(1)] in auto)

lemma respect_schedule:
  assumes "calls_respect Q h hk tools" "run_schedule h hk ctx msg is ts r = (ts', r')"
    "list_all (task_of_tools tools) ts" "Q s r"
  shows "Q s r' \<and> list_all (task_of_tools tools) ts'"
  using assms(2-4)
proof (induction "is" arbitrary: ts r)
  case (Cons i js)
  show ?case
  proof (cases "i < length ts")
    case True
    obtain t r1 where t: "task_step h hk ctx msg (ts ! i) r = (t, r1)" by force
    have "task_of_tools tools (ts ! i)" using Cons.prems(2) True by (simp add: list_all_length)
    from respect_task_step [OF assms(1) t this Cons.prems(3)] have step: "Q s r1" "task_of_tools tools t" by auto
    have "list_all (task_of_tools tools) (ts[i := t])"
      using Cons.prems(2) step(2) True by (auto simp: list_all_length nth_list_update)
    moreover have "run_schedule h hk ctx msg js (ts[i := t]) r1 = (ts', r')" using Cons.prems(1) True t by simp
    ultimately show ?thesis using Cons.IH step(1) by blast
  qed (use Cons in simp)
qed auto

lemma respect_settle:
  assumes "calls_respect Q h hk tools" "settle_tasks h hk ctx msg ts r = (fs, r')"
    "list_all (task_of_tools tools) ts" "Q s r"
  shows "Q s r'"
  using assms(2-4)
proof (induction ts arbitrary: r fs)
  case (Cons t ts)
  obtain f r1 where f: "settle_task h hk ctx msg t r = (f, r1)" by force
  have "Q s r1"
  proof (cases t)
    case (Ready p)
    obtain g r2 where g: "execute_prepared h hk ctx msg p r = (g, r2)" by force
    have "pc_tool p \<in> set tools" using Cons.prems(2) Ready by simp
    from respect_execute [OF assms(1) g this Cons.prems(3)] f g Ready Cons.prems(3) show ?thesis
      by (auto simp: Let_def respect_emit [OF assms(1)] split: if_splits)
  next
    case (Running p us x)
    let ?r1 = "emit_updates h (pc_call p) us r"
    obtain g v where g: "finalize_executed hk ctx msg p x (ru_world ?r1) = (g, v)" by force
    have "Q s ?r1" using Cons.prems(3) by (rule respect_updates [OF assms(1)])
    from respect_moved [OF assms(1) this respect_finalize [OF assms(1) g]] have "Q s (?r1\<lparr>ru_world := v\<rparr>)" .
    with f g Running show ?thesis by (auto simp: Let_def respect_emit [OF assms(1)])
  qed (use f Cons.prems(3) in \<open>auto simp: respect_emit [OF assms(1)]\<close>)
  moreover obtain gs where "settle_tasks h hk ctx msg ts r1 = (gs, r')" using Cons.prems(1) f by (auto split: prod.splits)
  ultimately show ?case using Cons.IH Cons.prems(2) by simp
qed simp

lemma respect_reports:
  "calls_respect Q h hk tools \<Longrightarrow> report_results h fs r = (ms, r') \<Longrightarrow> Q s r \<Longrightarrow> Q s r'"
proof (induction fs arbitrary: r ms)
  case (Cons f fs)
  obtain m r1 where m: "report_result h f r = (m, r1)" by force
  obtain ns where ns: "report_results h fs r1 = (ns, r')" using Cons.prems(2) m by (auto split: prod.splits)
  from Cons.IH [OF Cons.prems(1) ns respect_report [OF Cons.prems(1) m Cons.prems(3)]] show ?case .
qed simp

lemma respect_truncated:
  "calls_respect Q h hk tools \<Longrightarrow> fail_truncated_calls h calls r = (ms, r') \<Longrightarrow> Q s r \<Longrightarrow> Q s r'"
proof (induction calls arbitrary: r ms)
  case (Cons call calls)
  let ?f = "unexecuted call (error_result (truncated_text (call_name call))) True"
  let ?r0 = "emit h (end_event ?f) (emit h (start_event call) r)"
  obtain m r1 where m: "report_result h ?f ?r0 = (m, r1)" by force
  obtain ns where ns: "fail_truncated_calls h calls r1 = (ns, r')" using Cons.prems(2) m by (auto simp: Let_def split: prod.splits)
  have "Q s ?r0" by (rule respect_emit [OF Cons.prems(1) respect_emit [OF Cons.prems(1,3)]])
  from Cons.IH [OF Cons.prems(1) ns respect_report [OF Cons.prems(1) m this]] show ?case .
qed simp

lemma respect_turn_tools:
  assumes "calls_respect Q h (lc_hooks cfg) (context_tools ctx)" "turn_tools h cfg ctx msg r = (b, go_on, r')"
    "Q s r"
  shows "Q s r'"
proof -
  let ?hk = "lc_hooks cfg" and ?calls = "tool_calls_of (am_content msg)"
  have seq: "execute_sequential h ?hk ctx msg ?calls r = (b, r') \<Longrightarrow> ?thesis"
    using respect_sequential [OF assms(1)] assms(3) by (auto simp: execute_sequential_def split: prod.splits)
  have par: "execute_parallel h ?hk ctx msg ?calls r = (b, r') \<Longrightarrow> ?thesis"
  proof -
    assume run: "execute_parallel h ?hk ctx msg ?calls r = (b, r')"
    obtain ts r1 where ts: "prepare_batch h ?hk ctx msg ?calls r = (ts, r1)" by force
    obtain us r2 where us: "run_schedule h ?hk ctx msg (ho_schedule h (ru_world r1)) ts r1 = (us, r2)" by force
    obtain fs r3 where fs: "settle_tasks h ?hk ctx msg us r2 = (fs, r3)" by force
    obtain ms r4 where ms: "report_results h fs r3 = (ms, r4)" by force
    from respect_prepare_batch [OF assms(1) ts assms(3)] have 1: "Q s r1"
      "list_all (task_of_tools (context_tools ctx)) ts" by auto
    from respect_schedule [OF assms(1) us 1(2,1)] have 2: "Q s r2"
      "list_all (task_of_tools (context_tools ctx)) us" by auto
    from respect_reports [OF assms(1) ms respect_settle [OF assms(1) fs 2(2,1)]] run ts us fs ms show ?thesis
      by (simp add: execute_parallel_def)
  qed
  have trunc: "fail_tool_calls_from_truncated_message h ?calls r = (b, r') \<Longrightarrow> ?thesis"
    using respect_truncated [OF assms(1)] assms(3) by (auto simp: fail_tool_calls_from_truncated_message_def split: prod.splits)
  from assms(2,3) seq par trunc show ?thesis
    by (auto simp: turn_tools_def execute_tool_calls_def Let_def split: if_splits prod.splits)
qed

subsection \<open>The loop\<close>

text \<open>Hooks that never replace the context.\<close>

definition keeps_context :: "'w loop_config \<Rightarrow> bool" where
  "keeps_context cfg \<longleftrightarrow>
     (\<forall>f c w u. lc_prepare_next_turn cfg = Some f \<longrightarrow> fst (f c w) = Some u \<longrightarrow> tu_context u = None) \<and>
     (\<forall>f c w u. lc_prepare_request cfg = Some f \<longrightarrow> fst (f c w) = Some u \<longrightarrow> qu_context u = None)"

definition loop_respects :: "('w run \<Rightarrow> 'w run \<Rightarrow> bool) \<Rightarrow> 'w host \<Rightarrow> 'w loop_config \<Rightarrow> 'w agent_tool list \<Rightarrow> bool" where
  "loop_respects Q h cfg tools \<longleftrightarrow>
     calls_respect Q h (lc_hooks cfg) tools \<and> keeps_context cfg \<and>
     (\<forall>ms w. moved Q w (snd (lc_convert cfg ms w))) \<and>
     (\<forall>f ms w. lc_transform cfg = Some f \<longrightarrow> moved Q w (snd (f ms w))) \<and>
     (\<forall>f p w. lc_get_api_key cfg = Some f \<longrightarrow> moved Q w (snd (f p w))) \<and>
     (\<forall>f c w. lc_prepare_next_turn cfg = Some f \<longrightarrow> moved Q w (snd (f c w))) \<and>
     (\<forall>f c w. lc_prepare_request cfg = Some f \<longrightarrow> moved Q w (snd (f c w))) \<and>
     (\<forall>req w. moved Q w (snd (lc_stream cfg req w))) \<and>
     (\<forall>f w. lc_steering cfg = Some f \<longrightarrow> moved Q w (snd (f w))) \<and>
     (\<forall>f w. lc_follow_up cfg = Some f \<longrightarrow> moved Q w (snd (f w))) \<and>
     (\<forall>f c w. lc_finish_turn cfg = Some f \<longrightarrow> moved Q w (snd (f c w)))"

lemma loop_calls: "loop_respects Q h cfg tools \<Longrightarrow> calls_respect Q h (lc_hooks cfg) tools"
  by (simp add: loop_respects_def)

lemma keeps_turn_context:
    "loop_respects Q h cfg tools \<Longrightarrow> lc_prepare_next_turn cfg = Some f \<Longrightarrow> fst (f c w) = Some u \<Longrightarrow> tu_context u = None"
  and keeps_request_context:
    "loop_respects Q h cfg tools \<Longrightarrow> lc_prepare_request cfg = Some g \<Longrightarrow> fst (g c' w) = Some u' \<Longrightarrow> qu_context u' = None"
  by (simp_all add: loop_respects_def keeps_context_def)

lemmas loop_refl = respect_refl [OF loop_calls]
lemmas loop_trans = respect_trans [OF loop_calls]
lemmas loop_emit = respect_emit [OF loop_calls]
lemmas loop_message = respect_message [OF loop_calls]
lemmas loop_moved = respect_moved [OF loop_calls]

lemma poll_moved:
  assumes "loop_respects Q h cfg tools"
  shows "poll (lc_steering cfg) w = (ms, w') \<Longrightarrow> moved Q w w'" "poll (lc_follow_up cfg) w = (ms, w') \<Longrightarrow> moved Q w w'"
proof -
  have "poll src w = (ms, w') \<Longrightarrow> \<forall>f w. src = Some f \<longrightarrow> moved Q w (snd (f w)) \<Longrightarrow> moved Q w w'" for src
    using moved_refl [OF loop_calls [OF assms]] by (auto simp: poll_def split: option.splits dest: arg_cong [where f = snd]) (metis snd_conv)
  with assms show "poll (lc_steering cfg) w = (ms, w') \<Longrightarrow> moved Q w w'" "poll (lc_follow_up cfg) w = (ms, w') \<Longrightarrow> moved Q w w'"
    by (simp_all add: loop_respects_def)
qed

lemma optional_moved:
  assumes "loop_respects Q h cfg tools" "(case opt of None \<Rightarrow> (y, w) | Some f \<Rightarrow> f x w) = (a, w')"
    "\<And>f w. opt = Some f \<Longrightarrow> moved Q w (snd (f x w))"
  shows "moved Q w w'"
proof (cases opt)
  case (Some f)
  with assms(2) assms(3) [OF Some, of w] show ?thesis by simp
qed (use assms(2) moved_refl [OF loop_calls [OF assms(1)]] in simp)

lemma prepare_turn_moved:
  assumes "loop_respects Q h cfg tools" "prepare_turn h cfg v r = (prepared, v', r')"
  shows "Q r r' \<and> lv_context v' = lv_context v"
proof (cases "lv_last_turn v")
  case None
  with assms(2) show ?thesis by (simp add: prepare_turn_def loop_refl [OF assms(1)])
next
  case (Some turn)
  obtain u w1 where u: "(case lc_prepare_next_turn cfg of None \<Rightarrow> (None, ru_world r) | Some f \<Rightarrow> f turn (ru_world r)) = (u, w1)"
    by force
  have w1: "moved Q (ru_world r) w1"
    by (rule optional_moved [OF assms(1) u]) (use assms(1) in \<open>simp add: loop_respects_def\<close>)
  have keeps: "\<forall>x. u = Some x \<longrightarrow> tu_context x = None"
  proof (cases "lc_prepare_next_turn cfg")
    case (Some f)
    with u keeps_turn_context [OF assms(1) Some, of turn "ru_world r"] show ?thesis by simp
  qed (use u in simp)
  obtain pending w2 where pending:
    "(if lv_pending v = [] then poll (lc_steering cfg) w1 else (lv_pending v, w1)) = (pending, w2)" by force
  have w2: "moved Q w1 w2"
  proof (cases "lv_pending v = []")
    case True
    with pending poll_moved(1) [OF assms(1), of w1 pending w2] show ?thesis by simp
  qed (use pending moved_refl [OF loop_calls [OF assms(1)]] in simp)
  have "r' = emit h TurnStart (r\<lparr>ru_world := w2\<rparr>) \<and> lv_context v' = lv_context v"
    using assms(2) Some u keeps pending by (cases u) (auto simp: prepare_turn_def Let_def split: if_splits)
  moreover have "Q r (r\<lparr>ru_world := w1\<rparr>)" by (rule loop_moved [OF assms(1) loop_refl [OF assms(1)] w1])
  from loop_moved [OF assms(1) this, of w2] w2 have "Q r (r\<lparr>ru_world := w2\<rparr>)" by simp
  ultimately show ?thesis using loop_emit [OF assms(1)] by simp
qed

lemma messages_moved: "loop_respects Q h cfg tools \<Longrightarrow> Q s r \<Longrightarrow> Q s (fold (emit_message h) ms r)"
proof (induction ms arbitrary: r)
  case (Cons m ms)
  from Cons.IH [OF Cons.prems(1) loop_message [OF Cons.prems]] show ?case by simp
qed simp

lemma add_messages_run: "snd (add_messages h ms v r) = fold (emit_message h) ms r"
  unfolding add_messages_def by (induction ms arbitrary: v r) simp_all

lemma add_moved:
  assumes "loop_respects Q h cfg tools" "add_messages h ms v r = (v', r')"
  shows "Q r r'"
  using messages_moved [OF assms(1) loop_refl [OF assms(1)], where ms = ms] add_messages_run [of h ms v r] assms(2) by simp

lemma request_moved:
  assumes "loop_respects Q h cfg tools" "prepare_request cfg v r = (v', r')"
  shows "Q r r' \<and> lv_context v' = lv_context v"
proof (cases "lc_prepare_request cfg")
  case (Some f)
  let ?c = "\<lparr>rc_context = lv_context v, rc_model = lv_model v,
      rc_thinking_level = (case lv_reasoning v of Some l \<Rightarrow> l | None \<Rightarrow> lit ''off'')\<rparr>"
  have "moved Q (ru_world r) (snd (f ?c (ru_world r)))" using assms(1) Some by (simp add: loop_respects_def)
  from loop_moved [OF assms(1) loop_refl [OF assms(1)] this] have "Q r (r\<lparr>ru_world := snd (f ?c (ru_world r))\<rparr>)" .
  moreover note keeps_request_context [OF assms(1) Some, of ?c "ru_world r"]
  ultimately show ?thesis
    using assms(2) Some by (auto simp: prepare_request_def split: prod.splits option.splits)
qed (use assms(2) loop_refl [OF assms(1)] in \<open>simp add: prepare_request_def\<close>)

lemma finish_message_moved:
  assumes "loop_respects Q h cfg tools" "Q s r" "finish_message h final added ms r = (ms', r')"
  shows "Q s r'"
  using assms(3) loop_emit [OF assms(1,2)] loop_message [OF assms(1,2)] by (auto simp: finish_message_def split: if_splits)

lemma consume_moved:
  assumes "loop_respects Q h cfg tools" "Q s r" "consume_stream h final es added ms r = (ms', r')"
  shows "Q s r'"
  using assms(2,3)
proof (induction es arbitrary: added ms r)
  case Nil
  from finish_message_moved [OF assms(1) Nil.prems(1)] Nil.prems(2) show ?case by simp
next
  case (Cons e es)
  note emitted = loop_emit [OF assms(1) Cons.prems(1)]
  show ?case
  proof (cases e)
    case (StreamStart p)
    with Cons.prems(2) show ?thesis by (intro Cons.IH [OF emitted]) simp
  next
    case (StreamDelta k p)
    show ?thesis
    proof (cases added)
      case True
      with StreamDelta Cons.prems(2) show ?thesis by (intro Cons.IH [OF emitted]) simp
    qed (use StreamDelta Cons in simp)
  next
    case StreamDone
    from finish_message_moved [OF assms(1) Cons.prems(1)] Cons.prems(2) StreamDone show ?thesis by simp
  qed (use Cons in simp)
qed

lemma stream_moved:
  assumes "loop_respects Q h cfg tools" "stream_assistant_response h cfg model reasoning ctx r = (m, ctx', r')"
  shows "Q r r' \<and> ac_tools ctx' = ac_tools ctx"
proof -
  obtain messages w1 where 1: "(case lc_transform cfg of None \<Rightarrow> (ac_messages ctx, ru_world r)
      | Some f \<Rightarrow> f (ac_messages ctx) (ru_world r)) = (messages, w1)" by force
  obtain llm w2 where 2: "lc_convert cfg messages w1 = (llm, w2)" by force
  obtain key w3 where 3: "(case lc_get_api_key cfg of None \<Rightarrow> (None, w2) | Some f \<Rightarrow> f (md_provider model) w2) = (key, w3)" by force
  obtain req where req: "req = \<lparr>rq_model = model, rq_messages = normalize_context (CallerContext
      \<lparr>cx_system_prompt = None, cx_messages = llm, cx_tools = None\<rparr>),
      rq_api_key = or_else (truthy key) (lc_api_key cfg), rq_reasoning = reasoning\<rparr>" by blast
  obtain resp w4 where 4: "lc_stream cfg req w3 = (resp, w4)" by force
  obtain ms r5 where 5: "consume_stream h m (rs_events resp) False (ac_messages ctx) (r\<lparr>ru_world := w4\<rparr>) = (ms, r5)" by force
  have m: "r' = r5 \<and> ac_tools ctx' = ac_tools ctx"
    using assms(2) 1 2 3 4 5 req unfolding stream_assistant_response_def by (auto simp: Let_def split: prod.splits)
  have "moved Q (ru_world r) w1"
    by (rule optional_moved [OF assms(1) 1]) (use assms(1) in \<open>simp add: loop_respects_def\<close>)
  moreover have "moved Q w1 w2" using assms(1) 2 unfolding loop_respects_def by (metis snd_conv)
  moreover have "moved Q w2 w3"
    by (rule optional_moved [OF assms(1) 3]) (use assms(1) in \<open>simp add: loop_respects_def\<close>)
  moreover have "moved Q w3 w4" using assms(1) 4 unfolding loop_respects_def by (metis snd_conv)
  ultimately have "Q r (r\<lparr>ru_world := w1\<rparr>\<lparr>ru_world := w2\<rparr>\<lparr>ru_world := w3\<rparr>\<lparr>ru_world := w4\<rparr>)"
    by (intro loop_moved [OF assms(1)] loop_refl [OF assms(1)]) simp_all
  then have "Q r (r\<lparr>ru_world := w4\<rparr>)" by simp
  from consume_moved [OF assms(1) this 5] m show ?thesis by simp
qed

lemma finish_moved:
  assumes "loop_respects Q h cfg tools" "finish_turn cfg turn r = (d, r')"
  shows "Q r r'"
proof (cases "lc_finish_turn cfg")
  case (Some f)
  then have "moved Q (ru_world r) (snd (f turn (ru_world r)))" using assms(1) by (simp add: loop_respects_def)
  from loop_moved [OF assms(1) loop_refl [OF assms(1)] this] Some assms(2) show ?thesis
    by (auto simp: finish_turn_def split: prod.splits)
qed (use assms(2) loop_refl [OF assms(1)] in \<open>simp add: finish_turn_def\<close>)

definition turn_end_run :: "(message list \<times> 'w run, 'w loop_vars \<times> 'w run) turn_result \<Rightarrow> 'w run" where
  "turn_end_run t = (case t of Ended out \<Rightarrow> snd out | Continues vr \<Rightarrow> snd vr)"

lemma turn_moved:
  assumes "loop_respects Q h cfg (context_tools (lv_context v))" "run_turn h cfg v r = t"
  shows "Q r (turn_end_run t) \<and>
    (\<forall>v' r'. t = Continues (v', r') \<longrightarrow> context_tools (lv_context v') = context_tools (lv_context v))"
proof -
  obtain prepared v1 r1 where prep: "prepare_turn h cfg v r = (prepared, v1, r1)" by (rule prod_cases3)
  obtain declared where declared:
    "declared = declare_tool_changes (ho_now h (ru_world r1)) (lv_context v1) (prepared @ lv_pending v1)" by blast
  obtain v2 r2 where add: "add_messages h declared v1 r1 = (v2, r2)" by force
  obtain v3 r3 where request: "prepare_request cfg (v2\<lparr>lv_pending := []\<rparr>) r2 = (v3, r3)" by force
  obtain m ctx r4 where stream: "stream_assistant_response h cfg (lv_model v3) (lv_reasoning v3) (lv_context v3) r3 = (m, ctx, r4)"
    by (rule prod_cases3)
  note 1 = prepare_turn_moved [OF assms(1) prep] and 2 = add_moved [OF assms(1) add]
    and 3 = request_moved [OF assms(1) request] and 4 = stream_moved [OF assms(1) stream]
  have r4: "Q r r4" using 1 2 3 4 loop_trans [OF assms(1)] by blast
  have same: "context_tools ctx = context_tools (lv_context v)"
    using 1 3 4 add_messages_facts(3) [OF add] by (simp add: context_tools_def)
  let ?new = "lv_new_messages v3 @ [AssistantMsg m]"
  show ?thesis
  proof (cases "am_stop_reason m = StopError \<or> am_stop_reason m = Aborted")
    case True
    let ?turn = "\<lparr>tc_message = m, tc_results = [], tc_context = ctx, tc_new_messages = ?new\<rparr>"
    obtain d r5 where fin: "finish_turn cfg ?turn r4 = (d, r5)" by force
    have "t = Ended (?new, emit h (AgentEnd ?new) (emit h (TurnEnd (AssistantMsg m) []) r5))"
      using assms(2) prep add request stream fin True by (auto simp: run_turn_def Let_def declared [symmetric])
    moreover have "Q r r5" using loop_trans [OF assms(1) r4 finish_moved [OF assms(1) fin]] .
    ultimately show ?thesis using loop_emit [OF assms(1)] by (simp add: turn_end_run_def)
  next
    case False
    obtain b go_on r5 where tools: "turn_tools h cfg ctx m r4 = (b, go_on, r5)" by (rule prod_cases3)
    let ?results = "map ToolResultMsg (ba_messages b)"
    let ?turn = "\<lparr>tc_message = m, tc_results = ba_messages b, tc_context = ctx\<lparr>ac_messages := ac_messages ctx @ ?results\<rparr>,
        tc_new_messages = ?new @ ?results\<rparr>"
    obtain d r6 where fin: "finish_turn cfg ?turn r5 = (d, r6)" by force
    let ?r7 = "emit h (TurnEnd (AssistantMsg m) (ba_messages b)) r6"
    obtain pending w where pending: "poll (lc_steering cfg) (ru_world ?r7) = (pending, w)" by force
    have "calls_respect Q h (lc_hooks cfg) (context_tools ctx)" using loop_calls [OF assms(1)] same by simp
    from respect_turn_tools [OF this tools r4] have "Q r r5" .
    from loop_emit [OF assms(1) loop_trans [OF assms(1) this finish_moved [OF assms(1) fin]]] have r7: "Q r ?r7" .
    have same': "context_tools (ctx\<lparr>ac_messages := ms\<rparr>) = context_tools (lv_context v)" for ms
      using same by (simp add: context_tools_def)
    show ?thesis
    proof (cases "d = Some EndRun")
      case True
      then have "t = Ended (?new @ ?results, emit h (AgentEnd (?new @ ?results)) ?r7)"
        using assms(2) prep add request stream tools fin False
        by (auto simp: run_turn_def Let_def declared [symmetric])
      with loop_emit [OF assms(1) r7] show ?thesis by (simp add: turn_end_run_def)
    next
      case go: False
      from loop_moved [OF assms(1) r7 poll_moved(1) [OF assms(1) pending]] have "Q r (?r7\<lparr>ru_world := w\<rparr>)" .
      with assms(2) prep add request stream tools fin pending False go same' show ?thesis
        by (auto simp: run_turn_def Let_def declared [symmetric] turn_end_run_def)
    qed
  qed
qed

lemma run_loop_moved:
  assumes "loop_respects Q h cfg (context_tools (lv_context v))" "run_loop n h cfg v r = Some (new, r')"
  shows "Q r r'"
  using assms
proof (induction n arbitrary: v r)
  case (Suc n)
  note respects = Suc.prems(1)
  note turn = turn_moved [OF respects refl]
  show ?case
  proof (cases "run_turn h cfg v r")
    case (Ended out)
    with Suc.prems(2) turn [of r] show ?thesis by (simp add: turn_end_run_def)
  next
    case (Continues vr)
    obtain v1 r1 where vr: "vr = (v1, r1)" by force
    from turn [of r] Continues vr have r1: "Q r r1" and same: "context_tools (lv_context v1) = context_tools (lv_context v)"
      by (simp_all add: turn_end_run_def)
    obtain ups w where ups: "poll (lc_follow_up cfg) (ru_world r1) = (ups, w)" by force
    from loop_moved [OF respects r1 poll_moved(2) [OF respects ups]] have r2: "Q r (r1\<lparr>ru_world := w\<rparr>)" .
    have rest: "run_loop n h cfg v2 r2 = Some (new, r') \<Longrightarrow> lv_context v2 = lv_context v1 \<Longrightarrow> Q r r2 \<Longrightarrow> Q r r'" for v2 r2
      using Suc.IH [of v2 r2] respects same loop_trans [OF respects, of r r2 r'] by simp
    from Suc.prems(2) Continues vr ups r1 r2 loop_emit [OF respects r2] rest show ?thesis
      by (auto simp: Let_def split: if_splits)
  qed
qed simp

lemma start_loop_moved:
  assumes "loop_respects Q h cfg (context_tools ctx)"
    "start_loop fuel h cfg model reasoning (ctx\<lparr>ac_messages := ms\<rparr>) ns s' = Some (new, r)" "Q s s'"
  shows "Q s r"
proof -
  obtain pending w' where poll: "poll (lc_steering cfg) (ru_world s') = (pending, w')" by force
  note moved = loop_moved [OF assms(1) assms(3) poll_moved(1) [OF assms(1) poll]]
  from assms(2) poll have "run_loop fuel h cfg \<lparr>lv_context = ctx\<lparr>ac_messages := ms\<rparr>, lv_model = model,
      lv_reasoning = reasoning, lv_new_messages = ns, lv_pending = pending, lv_last_turn = None, lv_explicit = False,
      lv_more_tool_calls = True\<rparr> (s'\<lparr>ru_world := w'\<rparr>) = Some (new, r)" by (simp add: start_loop_def)
  from run_loop_moved [OF _ this] assms(1) have "Q (s'\<lparr>ru_world := w'\<rparr>) r" by (simp add: context_tools_def)
  from loop_trans [OF assms(1) moved this] show ?thesis .
qed

text \<open>The run up to the loop: the start events and the messages added to the context.\<close>

definition run_start :: "'w host \<Rightarrow> 'w agent_context \<Rightarrow> message list option \<Rightarrow> 'w \<Rightarrow> 'w run" where
  "run_start h ctx prompts w =
    fold (emit_message h) (case prompts of None \<Rightarrow> [] | Some ps \<Rightarrow> declare_tool_changes (ho_now h w) ctx ps)
      (emit h TurnStart (emit h AgentStart \<lparr>ru_events = [], ru_world = w\<rparr>))"

lemma returned_run_moved:
  assumes "loop_respects Q h cfg (context_tools ctx)" "returned_run fuel h cfg model reasoning prompts ctx w new r"
  shows "Q \<lparr>ru_events = [], ru_world = w\<rparr> (run_start h ctx prompts w) \<and> Q (run_start h ctx prompts w) r"
proof
  show "Q \<lparr>ru_events = [], ru_world = w\<rparr> (run_start h ctx prompts w)"
    unfolding run_start_def
    by (intro messages_moved [OF assms(1)] loop_emit [OF assms(1)] loop_refl [OF assms(1)])
  note self = loop_refl [OF assms(1)]
  show "Q (run_start h ctx prompts w) r"
  proof (cases prompts)
    case None
    with assms(2) have "start_loop fuel h cfg model reasoning (ctx\<lparr>ac_messages := ac_messages ctx\<rparr>) []
        (run_start h ctx prompts w) = Some (new, r)"
      by (auto simp: returned_run_def run_agent_loop_continue_def run_start_def split: if_splits)
    from start_loop_moved [OF assms(1) this self] show ?thesis .
  next
    case (Some ps)
    let ?ms = "declare_tool_changes (ho_now h w) ctx ps"
    from assms(2) Some have "start_loop fuel h cfg model reasoning (ctx\<lparr>ac_messages := ac_messages ctx @ ?ms\<rparr>) ?ms
        (run_start h ctx prompts w) = Some (new, r)"
      by (simp add: returned_run_def run_agent_loop_def Let_def run_start_def)
    from start_loop_moved [OF assms(1) this self] show ?thesis .
  qed
qed

end
