(* ===== verification/Agent_Progress.thy ===== *)
theory Agent_Progress
  imports Agent_Respect
begin

text \<open>
  The agent loop of \<open>pidrei_agent/agent_loop.py\<close> returns when the work that keeps it going is
  limited: a budget that nothing raises and that every reason to go on spends bounds the turns.
\<close>

subsection \<open>The loop returns\<close>

text \<open>
  A budget for the work that makes the loop go on. Nothing raises it; a response with tool calls, a
  queue that hands out messages and a turn that asks to continue spend some of it.
\<close>

abbreviation not_raised :: "('w \<Rightarrow> nat) \<Rightarrow> 'w run \<Rightarrow> 'w run \<Rightarrow> bool" where
  "not_raised bud r r' \<equiv> bud (ru_world r') \<le> bud (ru_world r)"

definition within_budget :: "('w \<Rightarrow> nat) \<Rightarrow> 'w host \<Rightarrow> 'w loop_config \<Rightarrow> 'w agent_tool list \<Rightarrow> bool" where
  "within_budget bud h cfg tools \<longleftrightarrow>
     loop_respects (not_raised bud) h cfg tools \<and>
     (\<forall>req w. bud (snd (lc_stream cfg req w)) +
        (if tool_calls_of (am_content (rs_message (fst (lc_stream cfg req w)))) \<noteq> [] then 1 else 0) \<le> bud w) \<and>
     (\<forall>w. bud (snd (poll (lc_steering cfg) w)) + (if fst (poll (lc_steering cfg) w) \<noteq> [] then 1 else 0) \<le> bud w) \<and>
     (\<forall>w. bud (snd (poll (lc_follow_up cfg) w)) + (if fst (poll (lc_follow_up cfg) w) \<noteq> [] then 1 else 0) \<le> bud w) \<and>
     (\<forall>f c w. lc_finish_turn cfg = Some f \<longrightarrow>
        bud (snd (f c w)) + (if fst (f c w) = Some ContinueRun then 1 else 0) \<le> bud w)"

lemma budget_loop_respects: "within_budget bud h cfg tools \<Longrightarrow> loop_respects (not_raised bud) h cfg tools"
  by (simp add: within_budget_def)

lemma moved_budget: "moved (not_raised bud) w w' \<longleftrightarrow> bud w' \<le> bud w"
proof
  assume "moved (not_raised bud) w w'"
  then have "not_raised bud \<lparr>ru_events = [], ru_world = w\<rparr> (\<lparr>ru_events = [], ru_world = w\<rparr>\<lparr>ru_world := w'\<rparr>)"
    unfolding moved_def by (drule_tac x = "\<lparr>ru_events = [], ru_world = w\<rparr>" in spec) simp
  then show "bud w' \<le> bud w" by simp
qed (simp add: moved_def)

lemma budget_poll:
  assumes "within_budget bud h cfg tools"
  shows "poll (lc_steering cfg) w = (ms, w') \<Longrightarrow> bud w' + (if ms \<noteq> [] then 1 else 0) \<le> bud w"
    "poll (lc_follow_up cfg) w = (ms, w') \<Longrightarrow> bud w' + (if ms \<noteq> [] then 1 else 0) \<le> bud w"
  using assms unfolding within_budget_def by (metis fst_conv snd_conv)+

lemma budget_finish:
  assumes "within_budget bud h cfg tools" "finish_turn cfg turn r = (d, r')"
  shows "bud (ru_world r') + (if d = Some ContinueRun then 1 else 0) \<le> bud (ru_world r)"
proof (cases "lc_finish_turn cfg")
  case (Some f)
  have "bud (snd (f turn (ru_world r))) + (if fst (f turn (ru_world r)) = Some ContinueRun then 1 else 0) \<le> bud (ru_world r)"
    using assms(1) Some by (simp add: within_budget_def)
  with Some assms(2) show ?thesis by (auto simp: finish_turn_def split: prod.splits)
qed (use assms(2) in \<open>simp add: finish_turn_def\<close>)

lemma budget_stream:
  assumes "within_budget bud h cfg tools" "stream_assistant_response h cfg model reasoning ctx r = (m, ctx', r')"
  shows "bud (ru_world r') + (if tool_calls_of (am_content m) \<noteq> [] then 1 else 0) \<le> bud (ru_world r) \<and>
    ac_tools ctx' = ac_tools ctx"
proof -
  obtain messages w1 where 1: "(case lc_transform cfg of None \<Rightarrow> (ac_messages ctx, ru_world r)
      | Some f \<Rightarrow> f (ac_messages ctx) (ru_world r)) = (messages, w1)" by force
  obtain llm w2 where 2: "lc_convert cfg messages w1 = (llm, w2)" by force
  obtain key w3 where 3: "(case lc_get_api_key cfg of None \<Rightarrow> (None, w2) | Some f \<Rightarrow> f (md_provider model) w2) = (key, w3)" by force
  obtain req where req: "req = \<lparr>rq_model = model, rq_messages = normalize_context (CallerContext
      \<lparr>cx_system_prompt = None, cx_messages = llm, cx_tools = None\<rparr>),
      rq_api_key = or_else (truthy key) (lc_api_key cfg), rq_reasoning = reasoning\<rparr>" by blast
  obtain resp w4 where 4: "lc_stream cfg req w3 = (resp, w4)" by force
  obtain ms r5 where 5: "consume_stream h m (rs_events resp) False (ac_messages ctx) (r\<lparr>ru_world := w4\<rparr>) = (ms, r5)" by force
  have m: "am_content m = am_content (rs_message resp) \<and> r' = r5 \<and> ac_tools ctx' = ac_tools ctx"
    using assms(2) 1 2 3 4 5 req unfolding stream_assistant_response_def by (auto simp: Let_def split: prod.splits)
  note respects = budget_loop_respects [OF assms(1)]
  have "moved (not_raised bud) (ru_world r) w1"
    by (rule optional_moved [OF respects 1]) (use respects in \<open>simp add: loop_respects_def\<close>)
  moreover have "moved (not_raised bud) w1 w2" using respects 2 unfolding loop_respects_def by (metis snd_conv)
  moreover have "moved (not_raised bud) w2 w3"
    by (rule optional_moved [OF respects 3]) (use respects in \<open>simp add: loop_respects_def\<close>)
  moreover have "bud w4 + (if tool_calls_of (am_content m) \<noteq> [] then 1 else 0) \<le> bud w3"
    using assms(1) 4 m unfolding within_budget_def by (metis fst_conv snd_conv)
  moreover have "bud (ru_world r5) \<le> bud w4"
    using consume_moved [OF respects _ 5, of "r\<lparr>ru_world := w4\<rparr>"] by simp
  ultimately have "bud (ru_world r5) + (if tool_calls_of (am_content m) \<noteq> [] then 1 else 0) \<le> bud (ru_world r)"
    unfolding moved_budget by linarith
  with m show ?thesis by simp
qed

lemma budget_tools:
  assumes "within_budget bud h cfg (context_tools ctx)" "turn_tools h cfg ctx m r = (b, go_on, r')"
  shows "bud (ru_world r') \<le> bud (ru_world r) \<and> (go_on \<longrightarrow> tool_calls_of (am_content m) \<noteq> [])"
proof -
  have "bud (ru_world r') \<le> bud (ru_world r)"
    using respect_turn_tools [OF loop_calls [OF budget_loop_respects [OF assms(1)]] assms(2), of r] by simp
  moreover have "go_on \<longrightarrow> tool_calls_of (am_content m) \<noteq> []"
    using assms(2) by (auto simp: turn_tools_def Let_def split: if_splits)
  ultimately show ?thesis by blast
qed

lemma budget_turn:
  assumes "within_budget bud h cfg (context_tools (lv_context v))" "run_turn h cfg v r = Continues (v', r')"
  shows "context_tools (lv_context v') = context_tools (lv_context v) \<and>
    bud (ru_world r') + (if lv_more_tool_calls v' \<or> lv_pending v' \<noteq> [] \<or> lv_explicit v' then 1 else 0) \<le> bud (ru_world r)"
proof -
  obtain prepared v1 r1 where prep: "prepare_turn h cfg v r = (prepared, v1, r1)" by (rule prod_cases3)
  obtain declared where declared:
    "declared = declare_tool_changes (ho_now h (ru_world r1)) (lv_context v1) (prepared @ lv_pending v1)" by blast
  obtain v2 r2 where add: "add_messages h declared v1 r1 = (v2, r2)" by force
  obtain v3 r3 where request: "prepare_request cfg (v2\<lparr>lv_pending := []\<rparr>) r2 = (v3, r3)" by force
  obtain m ctx r4 where stream: "stream_assistant_response h cfg (lv_model v3) (lv_reasoning v3) (lv_context v3) r3 = (m, ctx, r4)"
    by (rule prod_cases3)
  obtain b go_on r5 where tools: "turn_tools h cfg ctx m r4 = (b, go_on, r5)" by (rule prod_cases3)
  let ?new = "lv_new_messages v3 @ [AssistantMsg m]" and ?results = "map ToolResultMsg (ba_messages b)"
  let ?turn = "\<lparr>tc_message = m, tc_results = ba_messages b, tc_context = ctx\<lparr>ac_messages := ac_messages ctx @ ?results\<rparr>,
      tc_new_messages = ?new @ ?results\<rparr>"
  obtain d r6 where fin: "finish_turn cfg ?turn r5 = (d, r6)" by force
  let ?r7 = "emit h (TurnEnd (AssistantMsg m) (ba_messages b)) r6"
  obtain pending w where pending: "poll (lc_steering cfg) (ru_world ?r7) = (pending, w)" by force
  have live: "am_stop_reason m \<noteq> StopError" "am_stop_reason m \<noteq> Aborted" "d \<noteq> Some EndRun"
    using assms(2) prep add request stream tools fin pending
    by (auto simp: run_turn_def Let_def declared [symmetric] split: if_splits prod.splits)
  have out: "v' = v3\<lparr>lv_context := ctx\<lparr>ac_messages := ac_messages ctx @ ?results\<rparr>, lv_new_messages := ?new @ ?results,
      lv_pending := pending, lv_last_turn := Some ?turn, lv_more_tool_calls := go_on,
      lv_explicit := (d = Some ContinueRun \<and> \<not> (go_on \<or> pending \<noteq> []))\<rparr>" "r' = ?r7\<lparr>ru_world := w\<rparr>"
    using assms(2) prep add request stream tools fin pending live
    by (simp_all add: run_turn_def Let_def declared [symmetric])
  note respects = budget_loop_respects [OF assms(1)]
  note bud = prepare_turn_moved [OF respects prep] add_moved [OF respects add] request_moved [OF respects request]
    budget_stream [OF assms(1) stream] loop_emit [OF respects loop_refl [OF respects], of "TurnEnd (AssistantMsg m) (ba_messages b)" r6]
    budget_finish [OF assms(1) fin] budget_poll(1) [OF assms(1) pending]
  have same: "context_tools ctx = context_tools (lv_context v)"
    using bud(1,3,4) add_messages_facts(3) [OF add] by (simp add: context_tools_def)
  have t: "bud (ru_world r5) \<le> bud (ru_world r4) \<and> (go_on \<longrightarrow> tool_calls_of (am_content m) \<noteq> [])"
    using budget_tools [OF _ tools] assms(1) same by simp
  have "context_tools (lv_context v') = context_tools (lv_context v)"
    using same out(1) by (simp add: context_tools_def)
  moreover have "bud w + (if go_on \<or> pending \<noteq> [] \<or> d = Some ContinueRun then 1 else 0) \<le> bud (ru_world r)"
    using bud t by (auto split: if_splits)
  ultimately show ?thesis using out by (auto split: if_splits)
qed

lemma budget_loop:
  assumes "within_budget bud h cfg (context_tools (lv_context v))" "bud (ru_world r) < fuel"
  shows "\<exists>out. \<forall>n \<ge> fuel. run_loop n h cfg v r = Some out"
  using assms
proof (induction fuel arbitrary: v r)
  case (Suc fuel)
  show ?case
  proof (cases "run_turn h cfg v r")
    case (Ended out)
    then have "run_loop (Suc n) h cfg v r = Some out" for n by simp
    then show ?thesis by (intro exI [of _ out]) (metis Suc_le_D)
  next
    case (Continues vr)
    obtain v1 r1 where vr: "vr = (v1, r1)" by force
    note turn = budget_turn [OF Suc.prems(1) Continues [unfolded vr]]
    obtain ups w where ups: "poll (lc_follow_up cfg) (ru_world r1) = (ups, w)" by force
    have w: "bud w + (if ups \<noteq> [] then 1 else 0) \<le> bud (ru_world r1)" by (rule budget_poll(2) [OF Suc.prems(1) ups])
    have step: "\<exists>out. \<forall>n \<ge> Suc fuel. run_loop n h cfg v r = Some out"
      if "\<exists>out. \<forall>n \<ge> fuel. g n = Some out" "\<And>n. run_loop (Suc n) h cfg v r = g n" for g
      using that by (metis Suc_le_D Suc_le_mono)
    have next_turn: "\<exists>out. \<forall>n \<ge> fuel. run_loop n h cfg v2 r2 = Some out"
      if "lv_context v2 = lv_context v1" "bud (ru_world r2) < bud (ru_world r)" for v2 r2
      using that turn Suc by (intro Suc.IH) (simp_all add: context_tools_def)
    let ?r2 = "r1\<lparr>ru_world := w\<rparr>"
    show ?thesis
    proof (cases "lv_more_tool_calls v1 \<or> lv_pending v1 \<noteq> []")
      case True
      then have "run_loop (Suc n) h cfg v r = run_loop n h cfg v1 r1" for n using Continues vr by simp
      with next_turn [of v1 r1] turn True show ?thesis by (intro step) auto
    next
      case idle: False
      show ?thesis
      proof (cases "ups \<noteq> []")
        case True
        let ?v2 = "v1\<lparr>lv_explicit := False, lv_pending := ups\<rparr>"
        have "run_loop (Suc n) h cfg v r = run_loop n h cfg ?v2 ?r2" for n
          using Continues vr idle ups True by (simp add: Let_def)
        with next_turn [of ?v2 ?r2] turn w True show ?thesis by (intro step) auto
      next
        case no_ups: False
        show ?thesis
        proof (cases "lv_explicit v1")
          case True
          let ?v2 = "v1\<lparr>lv_explicit := False\<rparr>"
          have "run_loop (Suc n) h cfg v r = run_loop n h cfg ?v2 ?r2" for n
            using Continues vr idle ups no_ups True by (simp add: Let_def)
          with next_turn [of ?v2 ?r2] turn w True show ?thesis by (intro step) auto
        next
          case False
          have "run_loop (Suc n) h cfg v r = Some (lv_new_messages v1, emit h (AgentEnd (lv_new_messages v1)) ?r2)" for n
            using Continues vr idle ups no_ups False by (simp add: Let_def)
          then show ?thesis by (intro step) auto
        qed
      qed
    qed
  qed
qed simp

lemma agent_run_bounded:
  assumes "within_budget bud h cfg (context_tools ctx)"
  shows "\<exists>out. \<forall>fuel > bud w. run_agent_loop fuel h cfg model reasoning prompts ctx w = Some out"
proof -
  let ?ms = "declare_tool_changes (ho_now h w) ctx prompts"
  let ?start = "emit h TurnStart (emit h AgentStart \<lparr>ru_events = [], ru_world = w\<rparr>)"
  let ?r = "fold (emit_message h) ?ms ?start"
  note respects = budget_loop_respects [OF assms]
  have start: "not_raised bud \<lparr>ru_events = [], ru_world = w\<rparr> ?start"
    by (intro loop_emit [OF respects] loop_refl [OF respects])
  have r: "bud (ru_world ?r) \<le> bud w" using messages_moved [OF respects start, of ?ms] by simp
  obtain pending w' where poll: "poll (lc_steering cfg) (ru_world ?r) = (pending, w')" by force
  have "bud w' \<le> bud (ru_world ?r)" using budget_poll(1) [OF assms poll] by simp
  with r have less: "bud w' < Suc (bud w)" by simp
  let ?v = "\<lparr>lv_context = ctx\<lparr>ac_messages := ac_messages ctx @ ?ms\<rparr>, lv_model = model, lv_reasoning = reasoning,
      lv_new_messages = ?ms, lv_pending = pending, lv_last_turn = None, lv_explicit = False, lv_more_tool_calls = True\<rparr>"
  have "context_tools (lv_context ?v) = context_tools ctx" by (simp add: context_tools_def)
  with assms less have "\<exists>out. \<forall>n \<ge> Suc (bud w). run_loop n h cfg ?v (?r\<lparr>ru_world := w'\<rparr>) = Some out"
    by (intro budget_loop [where bud = bud]) simp_all
  then show ?thesis
    by (simp add: run_agent_loop_def start_loop_def Let_def poll Suc_le_eq)
qed

text \<open>
  C33. The loop returns: where a budget bounds the responses with tool calls, the queued messages and
  the requests to continue, one unit of fuel more than the budget
  at the start makes the run return, with a result that more fuel does not change.
\<close>

theorem agent_run_returns:
  assumes "within_budget bud h cfg (context_tools ctx)"
  shows "\<exists>out. \<forall>fuel > bud w. run_agent_loop fuel h cfg model reasoning prompts ctx w = Some out"
  by (rule agent_run_bounded [OF assms])

subsection \<open>A concrete run\<close>

text \<open>The model calls a tool as often as the world counts, then stops.\<close>

definition counted_tool :: "nat agent_tool" where
  "counted_tool = example_agent_tool\<lparr>at_execute := (\<lambda>i a w.
     (\<lparr>tr_updates = [], tr_outcome = Inr (example_result ''all''), tr_duration = 3\<rparr>, w))\<rparr>"

definition counted_context :: "nat agent_context" where
  "counted_context = \<lparr>ac_messages = [SystemMsg (example_system [example_tool ''read'' ''reads''] [])], ac_tools = Some [counted_tool]\<rparr>"

definition counted_config :: "nat loop_config" where
  "counted_config = \<lparr>lc_convert = (\<lambda>ms w. (ms, w)), lc_transform = None, lc_get_api_key = None, lc_api_key = None,
     lc_stream = (\<lambda>req w. if w > 0
        then (\<lparr>rs_events = [StreamStart (calling []), StreamDone], rs_message = calling [named_call ''1'' ''read'']\<rparr>, w - 1)
        else (\<lparr>rs_events = [], rs_message = (calling [])\<lparr>am_stop_reason := Stop\<rparr>\<rparr>, 0)),
     lc_finish_turn = None, lc_prepare_request = None, lc_prepare_next_turn = None, lc_steering = None, lc_follow_up = None,
     lc_mode = None, lc_hooks = no_hooks\<rparr>"

abbreviation counted_run :: "nat \<Rightarrow> nat \<Rightarrow> (message list \<times> nat run) option" where
  "counted_run fuel w \<equiv> run_agent_loop fuel example_host counted_config example_model None [] counted_context w"

lemma counted_streams: "streams_ok counted_config"
  by (simp add: streams_ok_def counted_config_def)

lemma counted_budget: "within_budget (\<lambda>w. w) example_host counted_config (context_tools counted_context)"
  by (auto simp: within_budget_def loop_respects_def keeps_context_def moved_def calls_respect_def example_host_def counted_config_def context_tools_def
      counted_context_def counted_tool_def no_hooks_def poll_def calling_def)

theorem agent_run_returns_witness: "\<exists>out. \<forall>fuel > 2. counted_run fuel 2 = Some out"
proof -
  from agent_run_returns [OF counted_budget, of 2 example_model None "[]"] show ?thesis .
qed

text \<open>The same run without tools in the context, evaluated: the call is answered with an error.\<close>

definition toolless :: "nat agent_context" where
  "toolless = \<lparr>ac_messages = [], ac_tools = None\<rparr>"

abbreviation toolless_run :: "(message list \<times> nat run) option" where
  "toolless_run \<equiv> run_agent_loop 2 example_host counted_config example_model None [] toolless 1"

fun one_call_turn :: "event \<Rightarrow> bool" where
  "one_call_turn (TurnEnd (AssistantMsg m) rs) = (am_stop_reason m = ToolUse \<and> length (tool_calls_of (am_content m)) = 1)"
| "one_call_turn _ = False"

lemma toolless_run_value:
  "case toolless_run of None \<Rightarrow> False | Some (new, r) \<Rightarrow> length new = 3 \<and> list_ex one_call_turn (ru_events r)"
  by code_simp

lemma toolless_run_obtains:
  obtains new r m rs where "returned_run 2 example_host counted_config example_model None (Some []) toolless 1 new r"
    "length new = 3" "TurnEnd (AssistantMsg m) rs \<in> set (ru_events r)" "am_stop_reason m = ToolUse"
    "length (tool_calls_of (am_content m)) = 1"
proof -
  obtain out where out: "toolless_run = Some out"
    using toolless_run_value by (cases "toolless_run") simp_all
  obtain new r where nr: "out = (new, r)" by force
  from toolless_run_value out nr have run: "length new = 3" "list_ex one_call_turn (ru_events r)" by simp_all
  from run(2) obtain e where e: "e \<in> set (ru_events r)" "one_call_turn e" unfolding list_ex_iff by blast
  from e(2) obtain m rs where m: "e = TurnEnd (AssistantMsg m) rs" "am_stop_reason m = ToolUse"
    "length (tool_calls_of (am_content m)) = 1" by (cases e rule: one_call_turn.cases) simp_all
  have "returned_run 2 example_host counted_config example_model None (Some []) toolless 1 new r"
    unfolding returned_run_def option.case using out nr by (simp only:)
  from this run(1) e(1) [unfolded m(1)] m(2,3) show thesis by (rule that)
qed

theorem agent_run_follows_the_protocol_witness:
  "\<exists>new (r :: nat run). run_phase r = Some PDone \<and> last (ru_events r) = AgentEnd new \<and> ended r = new \<and> length new = 3"
proof -
  obtain new r where run: "returned_run 2 example_host counted_config example_model None (Some []) toolless 1 new r"
    "length new = 3" by (rule toolless_run_obtains)
  note facts = agent_run_follows_the_protocol [OF run(1) counted_streams]
  have "run_phase r = Some PDone \<and> last (ru_events r) = AgentEnd new \<and> ended r = new \<and> length new = 3"
    using facts run(2) by (simp only: simp_thms)
  then show ?thesis by blast
qed

theorem turns_answer_their_calls_witness:
  "\<exists>(m :: assistant_message) (rs :: tool_result_message list). length (tool_calls_of (am_content m)) = 1 \<and> map trm_tool_call_id rs = map call_id (tool_calls_of (am_content m))"
proof -
  obtain new r m rs where run: "returned_run 2 example_host counted_config example_model None (Some []) toolless 1 new r"
    "TurnEnd (AssistantMsg m) rs \<in> set (ru_events r)" "am_stop_reason m = ToolUse"
    "length (tool_calls_of (am_content m)) = 1" by (rule toolless_run_obtains)
  have never: "\<not> (\<exists>w. ho_cancelled example_host w)" by (simp add: example_host_def)
  note facts = turns_answer_their_calls [OF run(1) counted_streams run(2), unfolded run(3)]
  from facts obtain n where
    n: "map trm_tool_call_id rs = map call_id (take n (tool_calls_of (am_content m)))"
      "n < length (tool_calls_of (am_content m)) \<longrightarrow> n > 0 \<and> (\<exists>w. ho_cancelled example_host w)"
    by (simp only: stop_reason.distinct if_False simp_thms) blast
  have "\<not> n < length (tool_calls_of (am_content m))" using n(2) never by blast
  then have "take n (tool_calls_of (am_content m)) = tool_calls_of (am_content m)" by simp
  with n(1) run(4) have "length (tool_calls_of (am_content m)) = 1 \<and> map trm_tool_call_id rs = map call_id (tool_calls_of (am_content m))"
    by (simp only: simp_thms)
  then show ?thesis by blast
qed

theorem declared_tools_are_the_executable_ones_witness:
  "same_declarations
     (get_current_tools (ac_messages counted_context @ declare_tool_changes 7 (counted_context\<lparr>ac_tools := None\<rparr>) [])) []"
proof -
  have tools: "map (\<lambda>t. to_tool_declaration (at_tool t)) (context_tools (counted_context\<lparr>ac_tools := None\<rparr>)) = []"
    by (simp add: context_tools_def)
  then have "names_distinct (map (\<lambda>t. to_tool_declaration (at_tool t)) (context_tools (counted_context\<lparr>ac_tools := None\<rparr>)))"
    by (simp add: names_distinct_def)
  from declared_tools_are_the_executable_ones [OF this, of 7 "[]"] show ?thesis
    unfolding Let_def tools by (simp add: counted_context_def)
qed

end
