(* ===== verification/Agent_Run.thy ===== *)
theory Agent_Run
  imports Agent_Progress
begin

text \<open>
  The stateful agent around the loop (\<open>pidrei_agent/agent.py\<close>): its state and the reducer over events,
  the two message queues, the mailbox's run admission, the lifecycle of a run, and the entry points
  \<open>prompt\<close>, \<open>continue_\<close>, \<open>reset\<close> and \<open>abort\<close>.

  The mailbox executes its jobs one at a time in the order they are sent, so each job is a function
  on the agent. The executable tools are references \<open>'t\<close> which the setup resolves; \<open>'x\<close> is the state
  of everything outside the agent, which tools, hooks and listeners may change. Listeners do not raise.
\<close>

subsection \<open>State and reducer\<close>

record 't agent_state =
  as_model :: model_ref
  as_thinking_level :: pystr
  as_tools :: "'t list"
  as_messages :: "message list"
  as_is_streaming :: bool
  as_streaming_message :: "message option"
  as_pending_tool_calls :: "pystr set"
  as_error_message :: "pystr option"

definition default_model :: model_ref where
  "default_model = \<lparr>md_id = lit ''unknown'', md_provider = lit ''unknown'', md_api = lit ''unknown'', md_input = []\<rparr>"

definition initial_state ::
  "('t \<Rightarrow> tool) \<Rightarrow> pystr option \<Rightarrow> model_ref option \<Rightarrow> pystr \<Rightarrow> 't list option \<Rightarrow> message list option \<Rightarrow> 't agent_state" where
  "initial_state declaration system_prompt model thinking_level tools messages =
    (let ts = or_empty tools; ms = or_empty messages
     in \<lparr>as_model = (case model of Some m \<Rightarrow> m | None \<Rightarrow> default_model), as_thinking_level = thinking_level, as_tools = ts,
         as_messages =
           (case create_initial_system_message system_prompt (Some (map (to_tool_declaration \<circ> declaration) ts)) of
              None \<Rightarrow> ms
            | Some initial \<Rightarrow> if get_initial_system_message ms = None then SystemMsg initial # ms else ms),
         as_is_streaming = False, as_streaming_message = None, as_pending_tool_calls = {}, as_error_message = None\<rparr>)"

fun reduce :: "event \<Rightarrow> 't agent_state \<Rightarrow> 't agent_state" where
  "reduce (MessageStart m) s = s\<lparr>as_streaming_message := Some m\<rparr>"
| "reduce (MessageUpdate m e) s = s\<lparr>as_streaming_message := Some m\<rparr>"
| "reduce (MessageEnd m) s = s\<lparr>as_streaming_message := None, as_messages := as_messages s @ [m]\<rparr>"
| "reduce (ToolStart i n a) s = s\<lparr>as_pending_tool_calls := insert i (as_pending_tool_calls s)\<rparr>"
| "reduce (ToolEnd i n r e d) s = s\<lparr>as_pending_tool_calls := as_pending_tool_calls s - {i}\<rparr>"
| "reduce (TurnEnd (AssistantMsg m) rs) s =
     (case truthy (am_error_message m) of None \<Rightarrow> s | Some e \<Rightarrow> s\<lparr>as_error_message := Some e\<rparr>)"
| "reduce (AgentEnd ms) s = s\<lparr>as_streaming_message := None\<rparr>"
| "reduce _ s = s"

subsection \<open>Queues\<close>

datatype queue_mode = QueueAll | OneAtATime

record pending_messages =
  pm_messages :: "message list"
  pm_mode :: queue_mode

definition enqueue :: "message \<Rightarrow> pending_messages \<Rightarrow> pending_messages" where
  "enqueue m q = q\<lparr>pm_messages := pm_messages q @ [m]\<rparr>"

definition has_items :: "pending_messages \<Rightarrow> bool" where
  "has_items q \<longleftrightarrow> pm_messages q \<noteq> []"

definition peek_queue :: "pending_messages \<Rightarrow> message list" where
  "peek_queue q = (case pm_mode q of QueueAll \<Rightarrow> pm_messages q
     | OneAtATime \<Rightarrow> (case pm_messages q of m # _ \<Rightarrow> [m] | [] \<Rightarrow> []))"

definition drain :: "pending_messages \<Rightarrow> message list \<times> pending_messages" where
  "drain q = (let drained = peek_queue q in (drained, q\<lparr>pm_messages := drop (length drained) (pm_messages q)\<rparr>))"

definition clear_queue :: "pending_messages \<Rightarrow> pending_messages" where
  "clear_queue q = q\<lparr>pm_messages := []\<rparr>"

text \<open>A queue hands out what was put in, in order, each item once.\<close>

locale fifo =
  fixes contents :: "'q \<Rightarrow> 'a list" and push :: "'a \<Rightarrow> 'q \<Rightarrow> 'q" and pop :: "'q \<Rightarrow> 'a list \<times> 'q"
  assumes push: "contents (push x q) = contents q @ [x]"
    and pop: "pop q = (out, q') \<Longrightarrow> contents q = out @ contents q'"
    and pop_some: "pop q = ([], q') \<Longrightarrow> contents q = []"
begin

text \<open>Pushes and pops in any order: \<open>Some x\<close> pushes, \<open>None\<close> pops.\<close>

fun drive :: "'a option list \<Rightarrow> 'q \<Rightarrow> 'a list \<times> 'q" where
  "drive [] q = ([], q)"
| "drive (Some x # ops) q = drive ops (push x q)"
| "drive (None # ops) q = (case pop q of (out, q') \<Rightarrow> case drive ops q' of (rest, q'') \<Rightarrow> (out @ rest, q''))"

lemma conservation: "drive ops q = (out, q') \<Longrightarrow> contents q @ [x. Some x \<leftarrow> ops] = out @ contents q'"
proof (induction ops q arbitrary: out rule: drive.induct)
  case (3 ops q)
  obtain o1 q1 where o1: "pop q = (o1, q1)" by force
  obtain o2 where o2: "drive ops q1 = (o2, q')" "out = o1 @ o2" using 3(2) o1 by (auto split: prod.splits)
  have "contents q1 @ [x. Some x \<leftarrow> ops] = o2 @ contents q'" using 3(1) [OF o1 [symmetric]] o2(1) by simp
  with pop [OF o1] o2(2) show ?case by simp
qed (auto simp: push)

text \<open>Enough pops empty the queue.\<close>

lemma drained_by: "length (contents q) \<le> n \<Longrightarrow> contents (snd (drive (replicate n None) q)) = []"
proof (induction n arbitrary: q)
  case (Suc n)
  obtain out q1 where out: "pop q = (out, q1)" by force
  have "length (contents q1) \<le> n"
    using Suc.prems pop [OF out] pop_some [of q q1] out by (cases out) auto
  from Suc.IH [OF this] out show ?case by (simp add: case_prod_beta)
qed simp

end

interpretation pending: fifo pm_messages enqueue drain
proof
  show "pm_messages (enqueue x q) = pm_messages q @ [x]" for x q by (simp add: enqueue_def)
  show "drain q = (out, q') \<Longrightarrow> pm_messages q = out @ pm_messages q'" for q out q'
    by (auto simp: drain_def peek_queue_def Let_def split: queue_mode.splits list.splits)
  show "drain q = ([], q') \<Longrightarrow> pm_messages q = []" for q q'
    by (auto simp: drain_def peek_queue_def Let_def split: queue_mode.splits list.splits)
qed

subsection \<open>The agent and its mailbox\<close>

record active_run =
  rn_id :: nat
  rn_cancelled :: bool

text \<open>\<open>skip_steering\<close> is the flag the loop configuration of the current run closes over.\<close>

record ('t, 'x) agent =
  ag_state :: "'t agent_state"
  ag_steering :: pending_messages
  ag_follow_up :: pending_messages
  ag_current :: "active_run option"
  ag_skip_steering :: bool
  ag_outside :: 'x

definition claim :: "active_run \<Rightarrow> ('t, 'x) agent \<Rightarrow> ('t, 'x) agent result" where
  "claim run a = (if ag_current a \<noteq> None then Inl (lit ''Agent is already processing.'') else Inr (a\<lparr>ag_current := Some run\<rparr>))"

definition release :: "active_run \<Rightarrow> ('t, 'x) agent \<Rightarrow> ('t, 'x) agent" where
  "release run a = (if map_option rn_id (ag_current a) = Some (rn_id run) then a\<lparr>ag_current := None\<rparr> else a)"

definition steer :: "message \<Rightarrow> ('t, 'x) agent \<Rightarrow> ('t, 'x) agent" where
  "steer m a = a\<lparr>ag_steering := enqueue m (ag_steering a)\<rparr>"

definition follow_up :: "message \<Rightarrow> ('t, 'x) agent \<Rightarrow> ('t, 'x) agent" where
  "follow_up m a = a\<lparr>ag_follow_up := enqueue m (ag_follow_up a)\<rparr>"

definition clear_steering_queue :: "('t, 'x) agent \<Rightarrow> ('t, 'x) agent" where
  "clear_steering_queue a = a\<lparr>ag_steering := clear_queue (ag_steering a)\<rparr>"

definition clear_follow_up_queue :: "('t, 'x) agent \<Rightarrow> ('t, 'x) agent" where
  "clear_follow_up_queue a = a\<lparr>ag_follow_up := clear_queue (ag_follow_up a)\<rparr>"

definition clear_all_queues :: "('t, 'x) agent \<Rightarrow> ('t, 'x) agent" where
  "clear_all_queues a = clear_follow_up_queue (clear_steering_queue a)"

definition has_queued_messages :: "('t, 'x) agent \<Rightarrow> bool" where
  "has_queued_messages a \<longleftrightarrow> has_items (ag_steering a) \<or> has_items (ag_follow_up a)"

definition peek_queued_messages :: "('t, 'x) agent \<Rightarrow> message list" where
  "peek_queued_messages a =
    (let steering = peek_queue (ag_steering a) in if steering \<noteq> [] then steering else peek_queue (ag_follow_up a))"

definition drain_steering :: "('t, 'x) agent \<Rightarrow> message list \<times> ('t, 'x) agent" where
  "drain_steering a = (case drain (ag_steering a) of (ms, q) \<Rightarrow> (ms, a\<lparr>ag_steering := q\<rparr>))"

definition drain_follow_up :: "('t, 'x) agent \<Rightarrow> message list \<times> ('t, 'x) agent" where
  "drain_follow_up a = (case drain (ag_follow_up a) of (ms, q) \<Rightarrow> (ms, a\<lparr>ag_follow_up := q\<rparr>))"

definition abort :: "('t, 'x) agent \<Rightarrow> ('t, 'x) agent" where
  "abort a = a\<lparr>ag_current := map_option (\<lambda>run. run\<lparr>rn_cancelled := True\<rparr>) (ag_current a)\<rparr>"

definition cancelled :: "('t, 'x) agent \<Rightarrow> bool" where
  "cancelled a = (case ag_current a of None \<Rightarrow> False | Some run \<Rightarrow> rn_cancelled run)"

definition is_system_or_llm :: "message \<Rightarrow> bool" where
  "is_system_or_llm m = (case m of SystemMsg _ \<Rightarrow> True | UserMsg _ \<Rightarrow> True | AssistantMsg _ \<Rightarrow> True | ToolResultMsg _ \<Rightarrow> True | _ \<Rightarrow> False)"

definition default_convert_to_llm :: "message list \<Rightarrow> message list" where
  "default_convert_to_llm ms = filter is_system_or_llm ms"

subsection \<open>Setup, dispatch and loop configuration\<close>

text \<open>What the agent is constructed with, and what its listeners, tools and environment do.\<close>

record ('t, 'x) agent_setup =
  su_tool :: "'t \<Rightarrow> ('t, 'x) agent agent_tool"
  su_listeners :: "(event \<Rightarrow> ('t, 'x) agent \<Rightarrow> ('t, 'x) agent) list"
  su_convert :: "(message list \<Rightarrow> ('t, 'x) agent \<Rightarrow> message list \<times> ('t, 'x) agent) option"
  su_transform :: "(message list \<Rightarrow> ('t, 'x) agent \<Rightarrow> message list \<times> ('t, 'x) agent) option"
  su_get_api_key :: "(pystr \<Rightarrow> ('t, 'x) agent \<Rightarrow> pystr option \<times> ('t, 'x) agent) option"
  su_stream :: "request \<Rightarrow> ('t, 'x) agent \<Rightarrow> response \<times> ('t, 'x) agent"
  su_finish_turn :: "(('t, 'x) agent turn_context \<Rightarrow> ('t, 'x) agent \<Rightarrow> turn_decision option \<times> ('t, 'x) agent) option"
  su_prepare_request ::
    "(('t, 'x) agent request_context \<Rightarrow> ('t, 'x) agent \<Rightarrow> ('t, 'x) agent request_update option \<times> ('t, 'x) agent) option"
  su_prepare_next_turn :: "(('t, 'x) agent \<Rightarrow> ('t, 'x) agent turn_update option \<times> ('t, 'x) agent) option"
  su_prepare_next_turn_with_context ::
    "(('t, 'x) agent turn_context \<Rightarrow> ('t, 'x) agent \<Rightarrow> ('t, 'x) agent turn_update option \<times> ('t, 'x) agent) option"
  su_mode :: "execution_mode option"
  su_hooks :: "('t, 'x) agent hooks"
  su_now :: "('t, 'x) agent \<Rightarrow> int"
  su_validate :: "tool \<Rightarrow> call_args \<Rightarrow> call_args result"
  su_fadd :: "pyfloat \<Rightarrow> pyfloat \<Rightarrow> pyfloat"
  su_schedule :: "('t, 'x) agent \<Rightarrow> nat list"

definition notify :: "('t, 'x) agent_setup \<Rightarrow> event \<Rightarrow> ('t, 'x) agent \<Rightarrow> ('t, 'x) agent" where
  "notify su e a = fold (\<lambda>listener. listener e) (su_listeners su) a"

text \<open>The dispatcher reduces, then lets the listeners run in subscription order.\<close>

definition dispatch :: "('t, 'x) agent_setup \<Rightarrow> event \<Rightarrow> ('t, 'x) agent \<Rightarrow> ('t, 'x) agent" where
  "dispatch su e a = notify su e (a\<lparr>ag_state := reduce e (ag_state a)\<rparr>)"

definition observe :: "('t, 'x) agent_setup \<Rightarrow> event \<Rightarrow> ('t, 'x) agent \<Rightarrow> ('t, 'x) agent" where
  "observe su e a = (if ag_current a = None then a else notify su e a)"

definition loop_host :: "('t, 'x) agent_setup \<Rightarrow> ('t, 'x) agent host" where
  "loop_host su = \<lparr>ho_sink = dispatch su, ho_cancelled = cancelled, ho_now = su_now su, ho_validate = su_validate su,
     ho_fadd = su_fadd su, ho_schedule = su_schedule su\<rparr>"

definition get_steering_messages :: "('t, 'x) agent \<Rightarrow> message list \<times> ('t, 'x) agent" where
  "get_steering_messages a = (if ag_skip_steering a then ([], a\<lparr>ag_skip_steering := False\<rparr>) else drain_steering a)"

definition choose_prepare_next_turn ::
  "('t, 'x) agent_setup \<Rightarrow> (('t, 'x) agent turn_context \<Rightarrow> ('t, 'x) agent \<Rightarrow> ('t, 'x) agent turn_update option \<times> ('t, 'x) agent) option" where
  "choose_prepare_next_turn su =
    (case su_prepare_next_turn_with_context su of
       Some f \<Rightarrow> Some f
     | None \<Rightarrow> map_option (\<lambda>f turn a. f a) (su_prepare_next_turn su))"

definition create_loop_config :: "('t, 'x) agent_setup \<Rightarrow> ('t, 'x) agent loop_config" where
  "create_loop_config su =
    \<lparr>lc_convert = (case su_convert su of Some f \<Rightarrow> f | None \<Rightarrow> (\<lambda>ms a. (default_convert_to_llm ms, a))),
     lc_transform = su_transform su, lc_get_api_key = su_get_api_key su, lc_api_key = None, lc_stream = su_stream su,
     lc_finish_turn = su_finish_turn su, lc_prepare_request = su_prepare_request su,
     lc_prepare_next_turn = choose_prepare_next_turn su, lc_steering = Some get_steering_messages,
     lc_follow_up = Some drain_follow_up, lc_mode = su_mode su, lc_hooks = su_hooks su\<rparr>"

definition config_reasoning :: "'t agent_state \<Rightarrow> pystr option" where
  "config_reasoning s = (if as_thinking_level s = lit ''off'' then None else Some (as_thinking_level s))"

definition context_snapshot :: "('t, 'x) agent_setup \<Rightarrow> 't agent_state \<Rightarrow> ('t, 'x) agent agent_context" where
  "context_snapshot su s = \<lparr>ac_messages = as_messages s, ac_tools = Some (map (su_tool su) (as_tools s))\<rparr>"

subsection \<open>The lifecycle of a run\<close>

definition no_usage :: usage where
  "no_usage = \<lparr>us_input = 0, us_output = 0, us_cache_read = 0, us_cache_write = 0, us_cache_write_1h = None,
     us_reasoning = None, us_total_tokens = 0,
     us_cost = \<lparr>uc_input = 0, uc_output = 0, uc_cache_read = 0, uc_cache_write = 0, uc_total = 0\<rparr>\<rparr>"

definition failure_message :: "pystr \<Rightarrow> bool \<Rightarrow> model_ref \<Rightarrow> int \<Rightarrow> assistant_message" where
  "failure_message error was_aborted model now =
    \<lparr>am_content = [TextContent [] None], am_api = md_api model, am_provider = md_provider model, am_model = md_id model,
     am_usage = Some no_usage, am_stop_reason = (if was_aborted then Aborted else StopError), am_timestamp = now,
     am_response_model = None, am_response_id = None, am_provider_thinking_level = None, am_thinking_level = None,
     am_diagnostics = None, am_error_message = Some error, am_raw_stop_reason = None, am_end_turn = None,
     am_deferred = None, am_duration_ms = None\<rparr>"

definition failure_events :: "assistant_message \<Rightarrow> event list" where
  "failure_events m = [MessageStart (AssistantMsg m), MessageEnd (AssistantMsg m), TurnEnd (AssistantMsg m) [], AgentEnd [AssistantMsg m]]"

definition handle_run_failure :: "('t, 'x) agent_setup \<Rightarrow> pystr \<Rightarrow> ('t, 'x) agent \<Rightarrow> ('t, 'x) agent" where
  "handle_run_failure su error a =
    fold (dispatch su) (failure_events (failure_message error (cancelled a) (as_model (ag_state a)) (su_now su a))) a"

definition finish_run :: "active_run \<Rightarrow> ('t, 'x) agent \<Rightarrow> ('t, 'x) agent" where
  "finish_run run a = release run (a\<lparr>ag_state := (ag_state a)\<lparr>as_is_streaming := False, as_streaming_message := None,
     as_pending_tool_calls := {}\<rparr>\<rparr>)"

definition admit :: "active_run \<Rightarrow> ('t, 'x) agent \<Rightarrow> ('t, 'x) agent result" where
  "admit run a =
    (case claim run a of
       Inl e \<Rightarrow> Inl e
     | Inr a1 \<Rightarrow> Inr (a1\<lparr>ag_state := (ag_state a1)\<lparr>as_is_streaming := True, as_streaming_message := None, as_error_message := None\<rparr>\<rparr>))"

text \<open>What an executor leaves: the error that escaped it, if any, and the agent; \<open>None\<close> when it never ends.\<close>

type_synonym ('t, 'x) executor = "('t, 'x) agent \<Rightarrow> (pystr option \<times> ('t, 'x) agent) option"

definition run_lifecycle :: "('t, 'x) agent_setup \<Rightarrow> active_run \<Rightarrow> ('t, 'x) executor \<Rightarrow> ('t, 'x) agent \<Rightarrow> ('t, 'x) agent option" where
  "run_lifecycle su run executor a =
    map_option (\<lambda>(escaped, a1). finish_run run (case escaped of None \<Rightarrow> a1 | Some e \<Rightarrow> handle_run_failure su e a1)) (executor a)"

definition run_with_lifecycle ::
  "('t, 'x) agent_setup \<Rightarrow> nat \<Rightarrow> ('t, 'x) executor \<Rightarrow> ('t, 'x) agent \<Rightarrow> (unit result \<times> ('t, 'x) agent) option" where
  "run_with_lifecycle su i executor a =
    (let run = \<lparr>rn_id = i, rn_cancelled = False\<rparr>
     in case admit run a of
          Inl e \<Rightarrow> Some (Inl e, a)
        | Inr a1 \<Rightarrow> map_option (\<lambda>a2. (Inr (), a2)) (run_lifecycle su run executor a1))"

definition prompt_executor :: "('t, 'x) agent_setup \<Rightarrow> nat \<Rightarrow> message list \<Rightarrow> bool \<Rightarrow> ('t, 'x) executor" where
  "prompt_executor su fuel messages skip_steering a =
    map_option (\<lambda>(new, r). (None, ru_world r))
      (run_agent_loop fuel (loop_host su) (create_loop_config su) (as_model (ag_state a)) (config_reasoning (ag_state a))
         messages (context_snapshot su (ag_state a)) (a\<lparr>ag_skip_steering := skip_steering\<rparr>))"

definition continuation_executor :: "('t, 'x) agent_setup \<Rightarrow> nat \<Rightarrow> ('t, 'x) executor" where
  "continuation_executor su fuel a =
    (let a0 = a\<lparr>ag_skip_steering := False\<rparr>
     in map_option (\<lambda>out. case out of Inl e \<Rightarrow> (Some e, a0) | Inr (_, r) \<Rightarrow> (None, ru_world r))
          (run_agent_loop_continue fuel (loop_host su) (create_loop_config su) (as_model (ag_state a))
             (config_reasoning (ag_state a)) (context_snapshot su (ag_state a)) a0))"

subsection \<open>Entry points\<close>

datatype prompt_input = PromptText pystr | PromptMessage message | PromptMessages "message list"

definition normalize_prompt_input :: "int \<Rightarrow> prompt_input \<Rightarrow> block list option \<Rightarrow> message list" where
  "normalize_prompt_input now input images =
    (case input of
       PromptMessages ms \<Rightarrow> ms
     | PromptMessage m \<Rightarrow> [m]
     | PromptText t \<Rightarrow> [UserMsg \<lparr>um_content = Blocks (TextContent t None # or_empty images), um_timestamp = now\<rparr>])"

definition run_prompt_messages ::
  "('t, 'x) agent_setup \<Rightarrow> nat \<Rightarrow> nat \<Rightarrow> message list \<Rightarrow> bool \<Rightarrow> ('t, 'x) agent \<Rightarrow> (unit result \<times> ('t, 'x) agent) option" where
  "run_prompt_messages su fuel i messages skip a = run_with_lifecycle su i (prompt_executor su fuel messages skip) a"

definition prompt ::
  "('t, 'x) agent_setup \<Rightarrow> nat \<Rightarrow> nat \<Rightarrow> prompt_input \<Rightarrow> block list option \<Rightarrow> ('t, 'x) agent \<Rightarrow> (unit result \<times> ('t, 'x) agent) option" where
  "prompt su fuel i input images a =
    (if ag_current a \<noteq> None
     then Some (Inl (lit (''Agent is already processing a prompt. Use steer() or followUp() to queue messages, '' @
       ''or wait for completion.'')), a)
     else run_prompt_messages su fuel i (normalize_prompt_input (su_now su a) input images) False a)"

definition continue_run :: "('t, 'x) agent_setup \<Rightarrow> nat \<Rightarrow> nat \<Rightarrow> ('t, 'x) agent \<Rightarrow> (unit result \<times> ('t, 'x) agent) option" where
  "continue_run su fuel i a =
    (let ms = as_messages (ag_state a)
     in if ag_current a \<noteq> None
        then Some (Inl (lit ''Agent is already processing. Wait for completion before continuing.''), a)
        else if ms = [] \<or> list_all is_system_msg ms then Some (Inl (lit ''No messages to continue from''), a)
        else if is_assistant_msg (last ms)
        then (case drain_steering a of (steering, a1) \<Rightarrow>
                if steering \<noteq> [] then run_prompt_messages su fuel i steering True a1
                else (case drain_follow_up a1 of (follow_ups, a2) \<Rightarrow>
                        if follow_ups \<noteq> [] then run_prompt_messages su fuel i follow_ups False a2
                        else Some (Inl (lit ''Cannot continue from message role: assistant''), a2)))
        else run_with_lifecycle su i (continuation_executor su fuel) a)"

definition reset :: "('t, 'x) agent \<Rightarrow> ('t, 'x) agent result" where
  "reset a =
    (if ag_current a \<noteq> None then Inl (lit ''Agent is already processing. Wait for completion before resetting.'')
     else Inr (clear_steering_queue (clear_follow_up_queue (a\<lparr>ag_state := (ag_state a)\<lparr>
       as_messages := (case get_current_system_message (as_messages (ag_state a)) of None \<Rightarrow> [] | Some m \<Rightarrow> [SystemMsg m]),
       as_is_streaming := False, as_streaming_message := None, as_pending_tool_calls := {}, as_error_message := None\<rparr>\<rparr>))))"

subsection \<open>What a run leaves\<close>

text \<open>Everybody but the dispatcher leaves the agent's state and its run alone.\<close>

definition untouched :: "('t, 'x) agent \<Rightarrow> ('t, 'x) agent \<Rightarrow> bool" where
  "untouched a a' \<longleftrightarrow> ag_state a' = ag_state a \<and> map_option rn_id (ag_current a') = map_option rn_id (ag_current a)"

definition leaves_state :: "('t, 'x) agent_setup \<Rightarrow> bool" where
  "leaves_state su \<longleftrightarrow>
     (\<forall>l \<in> set (su_listeners su). \<forall>e a. untouched a (l e a)) \<and>
     (\<forall>t i args a. untouched a (snd (at_execute (su_tool su t) i args a))) \<and>
     (\<forall>f c a. hk_before (su_hooks su) = Some f \<longrightarrow> untouched a (snd (f c a))) \<and>
     (\<forall>f c a. hk_after (su_hooks su) = Some f \<longrightarrow> untouched a (snd (f c a))) \<and>
     (\<forall>f ms a. su_convert su = Some f \<longrightarrow> untouched a (snd (f ms a))) \<and>
     (\<forall>f ms a. su_transform su = Some f \<longrightarrow> untouched a (snd (f ms a))) \<and>
     (\<forall>f p a. su_get_api_key su = Some f \<longrightarrow> untouched a (snd (f p a))) \<and>
     (\<forall>req a. untouched a (snd (su_stream su req a))) \<and>
     (\<forall>f c a. su_finish_turn su = Some f \<longrightarrow> untouched a (snd (f c a))) \<and>
     (\<forall>f c a. su_prepare_request su = Some f \<longrightarrow> untouched a (snd (f c a))) \<and>
     (\<forall>f c a. choose_prepare_next_turn su = Some f \<longrightarrow> untouched a (snd (f c a))) \<and>
     keeps_context (create_loop_config su)"

lemma untouched_trans: "untouched a b \<Longrightarrow> untouched b c \<Longrightarrow> untouched a c"
  by (simp add: untouched_def)

lemma untouched_queues [simp]:
  "untouched a (a\<lparr>ag_steering := q\<rparr>)" "untouched a (a\<lparr>ag_follow_up := q\<rparr>)" "untouched a (a\<lparr>ag_skip_steering := b\<rparr>)" "untouched a a"
  by (simp_all add: untouched_def)

lemma notify_untouched:
  assumes "leaves_state su"
  shows "untouched a (notify su e a)"
proof -
  have "\<forall>l \<in> set ls. \<forall>e a. untouched a (l e a) \<Longrightarrow> untouched a (fold (\<lambda>l. l e) ls a)"
    for ls :: "(event \<Rightarrow> ('a, 'b) agent \<Rightarrow> ('a, 'b) agent) list" and a
  proof (induction ls arbitrary: a)
    case (Cons l ls)
    have "untouched a (l e a)" using Cons.prems by simp
    from untouched_trans [OF this Cons.IH] Cons.prems show ?case by simp
  qed simp
  with assms show ?thesis by (simp add: notify_def leaves_state_def)
qed

lemma dispatch_state:
  assumes "leaves_state su"
  shows "ag_state (dispatch su e a) = reduce e (ag_state a) \<and>
    map_option rn_id (ag_current (dispatch su e a)) = map_option rn_id (ag_current a)"
  using notify_untouched [OF assms, of "a\<lparr>ag_state := reduce e (ag_state a)\<rparr>" e] by (simp add: dispatch_def untouched_def)

text \<open>The state is the reduction of the events, whoever else acted in between.\<close>

definition tracked :: "('t, 'x) agent run \<Rightarrow> ('t, 'x) agent run \<Rightarrow> bool" where
  "tracked r r' \<longleftrightarrow> (\<exists>es. ru_events r' = ru_events r @ es \<and> ag_state (ru_world r') = fold reduce es (ag_state (ru_world r))) \<and>
     map_option rn_id (ag_current (ru_world r')) = map_option rn_id (ag_current (ru_world r))"

lemma tracked_refl: "tracked r r" by (auto simp: tracked_def)

lemma tracked_trans: "tracked s r \<Longrightarrow> tracked r r' \<Longrightarrow> tracked s r'"
  unfolding tracked_def by (metis append.assoc fold_append comp_apply)

lemma moved_tracked: "untouched w w' \<Longrightarrow> moved tracked w w'"
  by (auto simp: moved_def tracked_def untouched_def)

lemma drains_untouched: "untouched a (snd (drain_steering a))" "untouched a (snd (drain_follow_up a))"
  "untouched a (snd (get_steering_messages a))"
  by (simp_all add: drain_steering_def drain_follow_up_def get_steering_messages_def split: prod.splits)

lemma loop_tracked:
  assumes "leaves_state su"
  shows "loop_respects tracked (loop_host su) (create_loop_config su) (map (su_tool su) ts)"
proof -
  have emit: "tracked s r \<Longrightarrow> tracked s (emit (loop_host su) e r)" for s r e
    using dispatch_state [OF assms, of e "ru_world r"]
    by (auto simp: tracked_def loop_host_def)
  note own = assms [unfolded leaves_state_def, THEN conjunct2]
  have "calls_respect tracked (loop_host su) (su_hooks su) (map (su_tool su) ts)"
    unfolding calls_respect_def
  proof (intro conjI allI impI ballI)
    fix t i args w assume "t \<in> set (map (su_tool su) ts)"
    with own show "moved tracked w (snd (at_execute t i args w))" by (auto intro: moved_tracked)
  next
    show "tracked s r \<Longrightarrow> tracked r r' \<Longrightarrow> tracked s r'" for s r r' by (rule tracked_trans)
  qed (use own in \<open>simp_all add: tracked_refl emit moved_tracked\<close>)
  moreover have "moved tracked w (snd (lc_convert (create_loop_config su) ms w))" for ms w
    using own by (cases "su_convert su") (simp_all add: create_loop_config_def moved_tracked)
  moreover have "lc_steering (create_loop_config su) = Some f \<Longrightarrow> moved tracked w (snd (f w))"
    "lc_follow_up (create_loop_config su) = Some f \<Longrightarrow> moved tracked w (snd (f w))" for f w
    by (auto simp: create_loop_config_def drains_untouched intro: moved_tracked)
  ultimately show ?thesis
    unfolding loop_respects_def using own
    by (intro conjI allI impI) (simp_all add: create_loop_config_def moved_tracked)
qed

lemma reduce_messages: "as_messages (reduce e s) = as_messages s @ ended_messages [e]"
  by (induction e s rule: reduce.induct) (auto split: option.splits)

lemma fold_reduce_messages: "as_messages (fold reduce es s) = as_messages s @ ended_messages es"
proof (induction es arbitrary: s)
  case (Cons e es)
  have "ended_messages (e # es) = ended_messages [e] @ ended_messages es" using ended_append [of "[e]" es] by simp
  with Cons show ?case by (simp add: reduce_messages)
qed simp

lemma reduce_settings:
  "as_model (reduce e s) = as_model s \<and> as_thinking_level (reduce e s) = as_thinking_level s \<and> as_tools (reduce e s) = as_tools s"
  by (induction e s rule: reduce.induct) (auto split: option.splits)

lemma fold_reduce_settings:
  "as_model (fold reduce es s) = as_model s \<and> as_thinking_level (fold reduce es s) = as_thinking_level s \<and>
   as_tools (fold reduce es s) = as_tools s"
  by (induction es arbitrary: s) (simp_all add: reduce_settings)

text \<open>The error a run reports is that of the last failed turn.\<close>

fun event_error :: "event \<Rightarrow> pystr option" where
  "event_error (TurnEnd (AssistantMsg m) rs) = truthy (am_error_message m)"
| "event_error _ = None"

definition last_error :: "event list \<Rightarrow> pystr option" where
  "last_error es = (case List.map_filter event_error es of [] \<Rightarrow> None | errors \<Rightarrow> Some (last errors))"

lemma reduce_error: "as_error_message (reduce e s) = (case event_error e of None \<Rightarrow> as_error_message s | Some x \<Rightarrow> Some x)"
  by (induction e s rule: reduce.induct) (auto split: option.splits)

lemma fold_reduce_error:
  "as_error_message (fold reduce es s) = (case last_error es of None \<Rightarrow> as_error_message s | Some x \<Rightarrow> Some x)"
proof (induction es rule: rev_induct)
  case (snoc e es)
  then show ?case
    by (auto simp: reduce_error last_error_def map_filter_def split: option.splits list.splits)
qed (simp add: last_error_def map_filter_def)

text \<open>What an idle agent keeps of a run with the events \<open>es\<close>.\<close>

definition records :: "'t agent_state \<Rightarrow> event list \<Rightarrow> 't agent_state \<Rightarrow> bool" where
  "records s es s' \<longleftrightarrow>
     s' = s\<lparr>as_messages := as_messages s @ ended_messages es, as_is_streaming := False, as_streaming_message := None,
            as_pending_tool_calls := {}, as_error_message := last_error es\<rparr>"

lemma fold_reduce_records:
  "records s es ((fold reduce es (s\<lparr>as_is_streaming := True, as_streaming_message := None, as_error_message := None\<rparr>))
     \<lparr>as_is_streaming := False, as_streaming_message := None, as_pending_tool_calls := {}\<rparr>)"
  unfolding records_def
  by (rule agent_state.equality)
    (simp_all add: fold_reduce_messages fold_reduce_settings fold_reduce_error split: option.splits)

lemma lifecycle_records:
  assumes "leaves_state su" "run_with_lifecycle su i executor a = Some (Inr (), a')"
    "\<And>a1 esc a2. executor a1 = Some (esc, a2) \<Longrightarrow> \<exists>es. P es esc a1 \<and> ag_state a2 = fold reduce es (ag_state a1) \<and>
       map_option rn_id (ag_current a2) = map_option rn_id (ag_current a1)"
  shows "ag_current a = None \<and> ag_current a' = None \<and>
    (\<exists>es esc a1 now cancelled_then. P es esc a1 \<and> ag_state a1 = (ag_state a)\<lparr>as_is_streaming := True, as_streaming_message := None,
       as_error_message := None\<rparr> \<and> records (ag_state a) (es @ (case esc of None \<Rightarrow> [] | Some e \<Rightarrow>
         failure_events (failure_message e cancelled_then (as_model (ag_state a)) now))) (ag_state a'))"
proof -
  let ?run = "\<lparr>rn_id = i, rn_cancelled = False\<rparr>"
  let ?s1 = "(ag_state a)\<lparr>as_is_streaming := True, as_streaming_message := None, as_error_message := None\<rparr>"
  let ?a1 = "a\<lparr>ag_current := Some ?run, ag_state := ?s1\<rparr>"
  from assms(2) have free: "ag_current a = None" by (auto simp: run_with_lifecycle_def admit_def claim_def Let_def split: if_splits)
  then have "admit ?run a = Inr ?a1" by (simp add: admit_def claim_def)
  with assms(2) obtain esc a2 where a2: "executor ?a1 = Some (esc, a2)"
    "a' = finish_run ?run (case esc of None \<Rightarrow> a2 | Some e \<Rightarrow> handle_run_failure su e a2)"
    by (auto simp: run_with_lifecycle_def run_lifecycle_def Let_def)
  from assms(3) [OF a2(1)] obtain es where es: "P es esc ?a1" "ag_state a2 = fold reduce es ?s1"
    "map_option rn_id (ag_current a2) = Some i" by auto
  have fail: "ag_state (fold (dispatch su) fs b) = fold reduce fs (ag_state b) \<and>
      map_option rn_id (ag_current (fold (dispatch su) fs b)) = map_option rn_id (ag_current b)" for fs b
    by (induction fs arbitrary: b) (simp_all add: dispatch_state [OF assms(1)])
  let ?fs = "case esc of None \<Rightarrow> [] | Some e \<Rightarrow> failure_events (failure_message e (cancelled a2) (as_model (ag_state a2)) (su_now su a2))"
  let ?a3 = "case esc of None \<Rightarrow> a2 | Some e \<Rightarrow> handle_run_failure su e a2"
  have a3: "ag_state ?a3 = fold reduce (es @ ?fs) ?s1" "map_option rn_id (ag_current ?a3) = Some i"
    unfolding handle_run_failure_def using es fail by (cases esc; simp)+
  have model: "as_model (ag_state a2) = as_model (ag_state a)" using es(2) by (simp add: fold_reduce_settings)
  from a3 a2(2) have "ag_current a' = None"
    "ag_state a' = (fold reduce (es @ ?fs) ?s1)\<lparr>as_is_streaming := False, as_streaming_message := None, as_pending_tool_calls := {}\<rparr>"
    by (simp_all add: finish_run_def release_def)
  with fold_reduce_records [of "ag_state a" "es @ ?fs"] es(1) free show ?thesis
    unfolding model by (intro conjI exI [of _ es] exI [of _ esc] exI [of _ ?a1]) auto
qed

lemma run_start_events:
  "ru_events (run_start h ctx prompts w) = [AgentStart, TurnStart] @
     concat (map (\<lambda>m. [MessageStart m, MessageEnd m])
       (case prompts of None \<Rightarrow> [] | Some ps \<Rightarrow> declare_tool_changes (ho_now h w) ctx ps))"
proof -
  have "ru_events (fold (emit_message h) ms r) = ru_events r @ concat (map (\<lambda>m. [MessageStart m, MessageEnd m]) ms)" for ms r
    by (induction ms arbitrary: r) (simp_all add: emit_message_def)
  then show ?thesis by (simp add: run_start_def)
qed

lemma ended_pairs: "ended_messages (concat (map (\<lambda>m. [MessageStart m, MessageEnd m]) ms)) = ms"
  by (induction ms) simp_all

text \<open>The events of a run that the loop has returned from.\<close>

definition complete_run :: "message list \<Rightarrow> event list \<Rightarrow> bool" where
  "complete_run first es \<longleftrightarrow> phases PStart es = Some PDone \<and> last es = AgentEnd (ended_messages es) \<and> prefix first (ended_messages es)"

lemma returned_events:
  fixes su :: "('t, 'x) agent_setup"
  assumes "leaves_state su" "streams_ok (create_loop_config su)"
    "returned_run fuel (loop_host su) (create_loop_config su) model reasoning prompts (context_snapshot su s) a new r"
  shows "complete_run (case prompts of None \<Rightarrow> [] | Some ps \<Rightarrow> declare_tool_changes (su_now su a) (context_snapshot su s) ps) (ru_events r) \<and>
    ag_state (ru_world r) = fold reduce (ru_events r) (ag_state a) \<and>
    map_option rn_id (ag_current (ru_world r)) = map_option rn_id (ag_current a)"
proof -
  let ?h = "loop_host su" and ?ctx = "context_snapshot su s"
  have "context_tools ?ctx = map (su_tool su) (as_tools s)" by (simp add: context_tools_def context_snapshot_def)
  then have respects: "loop_respects tracked ?h (create_loop_config su) (context_tools ?ctx)"
    using loop_tracked [OF assms(1)] by simp
  note moved = returned_run_moved [OF respects assms(3)]
  let ?e = "\<lparr>ru_events = [], ru_world = a\<rparr> :: ('t, 'x) agent run"
  from moved have whole: "tracked ?e r" using tracked_trans by blast
  from moved obtain es where es: "ru_events r = ru_events (run_start ?h ?ctx prompts a) @ es" by (auto simp: tracked_def)
  have "run_ok ?h new r" by (rule returned_run_ok [OF assms(3,2)])
  then have "run_phase r = Some PDone" "last (ru_events r) = AgentEnd new" "ended_messages (ru_events r) = new"
    using ended_of_marks [of "ru_events r"] by (simp_all add: run_ok_def)
  moreover have "prefix (case prompts of None \<Rightarrow> [] | Some ps \<Rightarrow> declare_tool_changes (su_now su a) ?ctx ps) (ended_messages (ru_events r))"
    unfolding es run_start_events by (cases prompts) (simp_all add: ended_pairs loop_host_def)
  ultimately show ?thesis
    using whole by (auto simp: complete_run_def run_phase_def tracked_def)
qed

lemma prompt_executor_events:
  assumes "leaves_state su" "streams_ok (create_loop_config su)" "prompt_executor su fuel messages skip a1 = Some (esc, a2)"
  shows "\<exists>es. (\<exists>now. esc = None \<and> complete_run (declare_tool_changes now (context_snapshot su (ag_state a1)) messages) es) \<and>
    ag_state a2 = fold reduce es (ag_state a1) \<and> map_option rn_id (ag_current a2) = map_option rn_id (ag_current a1)"
proof -
  let ?a0 = "a1\<lparr>ag_skip_steering := skip\<rparr>"
  from assms(3) obtain new r where run: "run_agent_loop fuel (loop_host su) (create_loop_config su) (as_model (ag_state a1))
      (config_reasoning (ag_state a1)) messages (context_snapshot su (ag_state a1)) ?a0 = Some (new, r)"
    "esc = None" "a2 = ru_world r" by (auto simp: prompt_executor_def)
  have "returned_run fuel (loop_host su) (create_loop_config su) (as_model (ag_state a1))
      (config_reasoning (ag_state a1)) (Some messages) (context_snapshot su (ag_state a1)) ?a0 new r"
    using run(1) by (simp add: returned_run_def)
  from returned_events [OF assms(1,2) this] run(2,3) show ?thesis by auto
qed

lemma run_prompt_records:
  fixes su :: "('t, 'x) agent_setup"
  assumes "leaves_state su" "streams_ok (create_loop_config su)" "run_prompt_messages su fuel i messages skip a = Some (Inr (), a')"
  shows "ag_current a = None \<and> ag_current a' = None \<and>
    (\<exists>es now. complete_run (declare_tool_changes now (context_snapshot su (ag_state a)) messages) es \<and> records (ag_state a) es (ag_state a'))"
proof -
  let ?P = "\<lambda>es esc (a1 :: ('t, 'x) agent). \<exists>now. esc = (None :: pystr option) \<and> complete_run (declare_tool_changes now (context_snapshot su (ag_state a1)) messages) es"
  have snap: "context_snapshot su (s\<lparr>as_is_streaming := x, as_streaming_message := y, as_error_message := z\<rparr>) = context_snapshot su s" for s x y z
    by (simp add: context_snapshot_def)
  have "ag_current a = None \<and> ag_current a' = None \<and>
    (\<exists>es esc (a1 :: ('t, 'x) agent) now cancelled_then. ?P es esc a1 \<and> ag_state a1 = (ag_state a)\<lparr>as_is_streaming := True, as_streaming_message := None,
       as_error_message := None\<rparr> \<and> records (ag_state a) (es @ (case esc of None \<Rightarrow> [] | Some e \<Rightarrow>
         failure_events (failure_message e cancelled_then (as_model (ag_state a)) now))) (ag_state a'))"
    using assms(3) unfolding run_prompt_messages_def
    by (rule lifecycle_records [where P = ?P, OF assms(1)]) (rule prompt_executor_events [OF assms(1,2)])
  then obtain es esc a1 now c where es: "ag_current a = None" "ag_current a' = None" "?P es esc a1"
    "ag_state a1 = (ag_state a)\<lparr>as_is_streaming := True, as_streaming_message := None, as_error_message := None\<rparr>"
    "records (ag_state a) (es @ (case esc of None \<Rightarrow> [] | Some e \<Rightarrow>
       failure_events (failure_message e c (as_model (ag_state a)) now))) (ag_state a')" by blast
  from es(3) obtain now' where "complete_run (declare_tool_changes now' (context_snapshot su (ag_state a)) messages) es"
    unfolding es(4) snap by blast
  with es show ?thesis by (intro conjI exI [of _ es] exI [of _ now']) simp_all
qed


text \<open>
  Continuing takes over queued messages before anything else: after an assistant message the
  steering queue is drained, then the follow-up queue, and the drained messages, in their order, start
  the run; otherwise the run starts from the transcript. With nothing to continue from, nothing runs.
\<close>

theorem continue_takes_the_queued_messages:
  fixes su :: "('t, 'x) agent_setup"
  assumes "leaves_state su" "streams_ok (create_loop_config su)" "continue_run su fuel i a = Some (Inr (), a')"
  shows "let ms = as_messages (ag_state a);
             (steering, after_steering) = drain (ag_steering a);
             follow_ups = fst (drain (ag_follow_up a));
             first = (if is_assistant_msg (last ms) then (if steering \<noteq> [] then steering else follow_ups) else [])
    in \<not> list_all is_system_msg ms \<and> (is_assistant_msg (last ms) \<longrightarrow> first \<noteq> []) \<and>
       ag_current a = None \<and> ag_current a' = None \<and>
       (\<exists>es now. phases PStart es = Some PDone \<and> last es = AgentEnd (ended_messages es) \<and>
         (is_assistant_msg (last ms) \<longrightarrow>
           prefix (declare_tool_changes now (context_snapshot su (ag_state a)) first) (ended_messages es)) \<and>
         as_messages (ag_state a') = ms @ ended_messages es \<and> as_error_message (ag_state a') = last_error es)"
proof -
  let ?ms = "as_messages (ag_state a)"
  obtain steering q1 where steer: "drain (ag_steering a) = (steering, q1)" by force
  obtain follow q2 where follow: "drain (ag_follow_up a) = (follow, q2)" by force
  from assms(3) have some: "\<not> list_all is_system_msg ?ms" "?ms \<noteq> []" "ag_current a = None"
    by (auto simp: continue_run_def Let_def split: if_splits)
  have goal: ?thesis if "ag_current a' = None" "is_assistant_msg (last ?ms) \<Longrightarrow> first \<noteq> []"
    "first = (if is_assistant_msg (last ?ms) then (if steering \<noteq> [] then steering else follow) else [])"
    "is_assistant_msg (last ?ms) \<Longrightarrow> complete_run (declare_tool_changes now (context_snapshot su (ag_state a)) first) es"
    "complete_run [] es" "records (ag_state a) es (ag_state a')" for es now first
    unfolding steer follow Let_def prod.case fst_conv that(3) [symmetric]
    using that(1,2,4-6) some by (intro conjI exI [of _ es] exI [of _ now]) (simp_all add: complete_run_def records_def)
  have weaken: "complete_run xs es \<Longrightarrow> complete_run [] es" for xs es by (simp add: complete_run_def)
  show ?thesis
  proof (cases "is_assistant_msg (last ?ms)")
    case True
    obtain b a1 where run: "run_prompt_messages su fuel i (if steering \<noteq> [] then steering else follow) b a1 = Some (Inr (), a')"
      "ag_state a1 = ag_state a" "steering \<noteq> [] \<or> follow \<noteq> []"
      using assms(3) True some steer follow
      by (auto simp: continue_run_def Let_def drain_steering_def drain_follow_up_def split: if_splits)
    from run_prompt_records [OF assms(1,2) run(1)] obtain es now where
      "ag_current a' = None" "complete_run (declare_tool_changes now (context_snapshot su (ag_state a))
        (if steering \<noteq> [] then steering else follow)) es" "records (ag_state a) es (ag_state a')"
      unfolding run(2) by blast
    with True run(3) weaken show ?thesis
      by (intro goal [of "if steering \<noteq> [] then steering else follow"]) auto
  next
    case False
    with assms(3) some have run: "run_with_lifecycle su i (continuation_executor su fuel) a = Some (Inr (), a')"
      by (auto simp: continue_run_def Let_def split: if_splits)
    let ?P = "\<lambda>es esc (a1 :: ('t, 'x) agent). as_messages (ag_state a1) = ?ms \<longrightarrow> esc = (None :: pystr option) \<and> complete_run [] es"
    have executor: "\<exists>es. ?P es esc a1 \<and> ag_state a2 = fold reduce es (ag_state a1) \<and>
        map_option rn_id (ag_current a2) = map_option rn_id (ag_current a1)"
      if "continuation_executor su fuel a1 = Some (esc, a2)" for a1 esc a2
    proof -
      let ?a0 = "a1\<lparr>ag_skip_steering := False\<rparr>" and ?ctx = "context_snapshot su (ag_state a1)"
      from that obtain out where out: "run_agent_loop_continue fuel (loop_host su) (create_loop_config su) (as_model (ag_state a1))
          (config_reasoning (ag_state a1)) ?ctx ?a0 = Some out"
        "(case out of Inl e \<Rightarrow> (Some e, ?a0) | Inr (_, r) \<Rightarrow> (None, ru_world r)) = (esc, a2)"
        by (auto simp: continuation_executor_def Let_def)
      show ?thesis
      proof (cases out)
        case (Inl e)
        with out have "a2 = ?a0" "ac_messages ?ctx = [] \<or> is_assistant_msg (last (ac_messages ?ctx))"
          by (auto simp: run_agent_loop_continue_def split: if_splits)
        with False some(2) show ?thesis by (intro exI [of _ "[]"]) (auto simp: context_snapshot_def)
      next
        case (Inr nr)
        obtain new r where "nr = (new, r)" by force
        with out Inr have run: "esc = None" "a2 = ru_world r" "returned_run fuel (loop_host su) (create_loop_config su)
            (as_model (ag_state a1)) (config_reasoning (ag_state a1)) None ?ctx ?a0 new r"
          by (simp_all add: returned_run_def)
        from returned_events [OF assms(1,2) run(3)] run(1,2) show ?thesis by auto
      qed
    qed
    from lifecycle_records [where P = ?P, OF assms(1) run executor] obtain es esc a1 now c where
      "ag_current a' = None" "?P es esc a1" "as_messages (ag_state a1) = ?ms"
      "records (ag_state a) (es @ (case esc of None \<Rightarrow> [] | Some e \<Rightarrow>
         failure_events (failure_message e c (as_model (ag_state a)) now))) (ag_state a')" by auto
    with False show ?thesis by (intro goal [of "[]"]) auto
  qed
qed

subsection \<open>A run that raises\<close>

definition admitted :: "nat \<Rightarrow> ('t, 'x) agent \<Rightarrow> ('t, 'x) agent" where
  "admitted i a = a\<lparr>ag_current := Some \<lparr>rn_id = i, rn_cancelled = False\<rparr>,
     ag_state := (ag_state a)\<lparr>as_is_streaming := True, as_streaming_message := None, as_error_message := None\<rparr>\<rparr>"

text \<open>
  Whatever escapes a run, the agent ends it: it is idle and free for the next prompt, no tool call
  is pending, and the transcript closes with one assistant message that carries the error, marked
  aborted exactly if the run was cancelled by then. The awaiting caller sees no error.
\<close>

theorem an_escaped_error_ends_the_run:
  assumes "leaves_state su" "ag_current a = None"
    "executor (admitted i a) = Some (Some error, a2)" "untouched (admitted i a) a2"
  shows "\<exists>a' now. run_with_lifecycle su i executor a = Some (Inr (), a') \<and> ag_current a' = None \<and>
    ag_state a' = (ag_state a)\<lparr>as_messages := as_messages (ag_state a) @
        [AssistantMsg (failure_message error (cancelled a2) (as_model (ag_state a)) now)],
      as_is_streaming := False, as_streaming_message := None, as_pending_tool_calls := {},
      as_error_message := truthy (Some error)\<rparr>"
proof -
  let ?run = "\<lparr>rn_id = i, rn_cancelled = False\<rparr>"
  have fail: "ag_state (fold (dispatch su) fs b) = fold reduce fs (ag_state b) \<and>
      map_option rn_id (ag_current (fold (dispatch su) fs b)) = map_option rn_id (ag_current b)" for fs b
    by (induction fs arbitrary: b) (simp_all add: dispatch_state [OF assms(1)])
  let ?fs = "failure_events (failure_message error (cancelled a2) (as_model (ag_state a2)) (su_now su a2))"
  have state: "ag_state a2 = ag_state (admitted i a)" "map_option rn_id (ag_current a2) = Some i"
    using assms(4) by (simp_all add: untouched_def admitted_def)
  obtain a' where a': "a' = finish_run ?run (handle_run_failure su error a2)" by blast
  have "run_with_lifecycle su i executor a = Some (Inr (), a')"
    using assms(2,3) by (simp add: run_with_lifecycle_def run_lifecycle_def admit_def claim_def Let_def a' admitted_def)
  moreover have "map_option rn_id (ag_current (handle_run_failure su error a2)) = Some i"
    unfolding handle_run_failure_def using fail state(2) by simp
  then have "ag_current a' = None" by (simp add: a' finish_run_def release_def)
  moreover have "ag_state a' = (fold reduce ?fs (ag_state (admitted i a)))
      \<lparr>as_is_streaming := False, as_streaming_message := None, as_pending_tool_calls := {}\<rparr>"
    using fail [of ?fs a2] state(1) by (simp add: a' finish_run_def release_def handle_run_failure_def)
  moreover have "as_model (ag_state a2) = as_model (ag_state a)" using state(1) by (simp add: admitted_def)
  moreover have "am_error_message (failure_message error c m now) = Some error" for c m now
    by (simp add: failure_message_def)
  ultimately show ?thesis
    by (intro exI [of _ a'] exI [of _ "su_now su a2"] conjI)
      (auto simp: failure_events_def truthy_def admitted_def split: option.splits)
qed

subsection \<open>The mailbox\<close>

text \<open>
  The jobs any number of callers send, in the order the mailbox runs them. Claims and releases are
  those of the runs' admissions and ends; the answers that matter are what a drain hands out and
  whether an admission was granted.
\<close>

datatype job = Steer message | FollowUp message | ClearSteering | ClearFollowUp | DrainSteering | DrainFollowUp
  | Admit nat | Finish nat | Abort

datatype answer = Steered "message list" | Followed "message list" | Granted nat | Refused nat | Freed nat | Quiet

fun run_job :: "job \<Rightarrow> ('t, 'x) agent \<Rightarrow> answer \<times> ('t, 'x) agent" where
  "run_job (Steer m) a = (Quiet, steer m a)"
| "run_job (FollowUp m) a = (Quiet, follow_up m a)"
| "run_job ClearSteering a = (Quiet, clear_steering_queue a)"
| "run_job ClearFollowUp a = (Quiet, clear_follow_up_queue a)"
| "run_job DrainSteering a = (case drain_steering a of (ms, a') \<Rightarrow> (Steered ms, a'))"
| "run_job DrainFollowUp a = (case drain_follow_up a of (ms, a') \<Rightarrow> (Followed ms, a'))"
| "run_job (Admit i) a = (case admit \<lparr>rn_id = i, rn_cancelled = False\<rparr> a of Inl e \<Rightarrow> (Refused i, a) | Inr a' \<Rightarrow> (Granted i, a'))"
| "run_job (Finish i) a =
     (if map_option rn_id (ag_current a) = Some i then Freed i else Quiet, finish_run \<lparr>rn_id = i, rn_cancelled = False\<rparr> a)"
| "run_job Abort a = (Quiet, abort a)"

fun run_jobs :: "job list \<Rightarrow> ('t, 'x) agent \<Rightarrow> answer list \<times> ('t, 'x) agent" where
  "run_jobs [] a = ([], a)"
| "run_jobs (j # js) a = (case run_job j a of (x, a1) \<Rightarrow> case run_jobs js a1 of (xs, a2) \<Rightarrow> (x # xs, a2))"

text \<open>Grants and their releases alternate: the specification of run admission.\<close>

fun exclusive :: "nat option \<Rightarrow> answer list \<Rightarrow> bool" where
  "exclusive c [] = True"
| "exclusive c (Granted i # xs) = (c = None \<and> exclusive (Some i) xs)"
| "exclusive c (Freed i # xs) = (c = Some i \<and> exclusive None xs)"
| "exclusive c (Refused i # xs) = (c \<noteq> None \<and> exclusive c xs)"
| "exclusive c (_ # xs) = exclusive c xs"

fun steered :: "answer \<Rightarrow> message list" where "steered (Steered ms) = ms" | "steered _ = []"
fun followed :: "answer \<Rightarrow> message list" where "followed (Followed ms) = ms" | "followed _ = []"
fun to_steer :: "job \<Rightarrow> message list" where "to_steer (Steer m) = [m]" | "to_steer _ = []"
fun to_follow :: "job \<Rightarrow> message list" where "to_follow (FollowUp m) = [m]" | "to_follow _ = []"

lemma subseq_chain:
  assumes "subseq (s @ a1) (a0 @ t)" "subseq r (a1 @ u)"
  shows "subseq (s @ r) (a0 @ t @ u)"
proof -
  have "subseq (s @ r) ((s @ a1) @ u)" using list_emb_append_mono [OF subseq_order.refl [of s] assms(2)] by simp
  also have "subseq \<dots> ((a0 @ t) @ u)" by (rule list_emb_append_mono [OF assms(1) subseq_order.refl])
  finally show ?thesis by simp
qed

lemma queue_chain: "a0 @ t = s @ a1 \<Longrightarrow> r = a1 @ u \<Longrightarrow> s @ r = a0 @ t @ u"
  by (metis append_assoc)

text \<open>Kept or dropped by a clear: what remains of a queue's content after a job.\<close>

lemma job_queues:
  assumes "run_job j a = (x, a')"
  shows "j \<noteq> ClearSteering \<Longrightarrow> pm_messages (ag_steering a) @ to_steer j = steered x @ pm_messages (ag_steering a')"
    and "j \<noteq> ClearFollowUp \<Longrightarrow> pm_messages (ag_follow_up a) @ to_follow j = followed x @ pm_messages (ag_follow_up a')"
    and "subseq (steered x @ pm_messages (ag_steering a')) (pm_messages (ag_steering a) @ to_steer j)"
    and "subseq (followed x @ pm_messages (ag_follow_up a')) (pm_messages (ag_follow_up a) @ to_follow j)"
proof -
  note defs = steer_def follow_up_def clear_steering_queue_def clear_follow_up_queue_def drain_steering_def drain_follow_up_def
    admit_def claim_def finish_run_def release_def abort_def clear_queue_def
  show s: "j \<noteq> ClearSteering \<Longrightarrow> pm_messages (ag_steering a) @ to_steer j = steered x @ pm_messages (ag_steering a')"
    using assms pending.pop by (cases j) (auto simp: defs pending.push split: prod.splits if_splits)
  show f: "j \<noteq> ClearFollowUp \<Longrightarrow> pm_messages (ag_follow_up a) @ to_follow j = followed x @ pm_messages (ag_follow_up a')"
    using assms pending.pop by (cases j) (auto simp: defs pending.push split: prod.splits if_splits)
  show "subseq (steered x @ pm_messages (ag_steering a')) (pm_messages (ag_steering a) @ to_steer j)"
    using s assms by (cases "j = ClearSteering") (auto simp: defs)
  show "subseq (followed x @ pm_messages (ag_follow_up a')) (pm_messages (ag_follow_up a) @ to_follow j)"
    using f assms by (cases "j = ClearFollowUp") (auto simp: defs)
qed

text \<open>
  C9. Whatever callers send to the mailbox, in whatever order: at most one run holds the agent at a
  time, an admission is refused exactly while another run holds it, and only the holder's end frees it.
  Queued messages come out in the order they went in, each at most once; as long as a queue is not
  cleared, what came out and what is left is all that went in.
\<close>

theorem mailbox_admits_one_run_and_keeps_the_order:
  "case run_jobs js a of (xs, a') \<Rightarrow>
     exclusive (map_option rn_id (ag_current a)) xs \<and>
     subseq (concat (map steered xs) @ pm_messages (ag_steering a')) (pm_messages (ag_steering a) @ concat (map to_steer js)) \<and>
     subseq (concat (map followed xs) @ pm_messages (ag_follow_up a')) (pm_messages (ag_follow_up a) @ concat (map to_follow js)) \<and>
     (ClearSteering \<in> set js \<or>
       concat (map steered xs) @ pm_messages (ag_steering a') = pm_messages (ag_steering a) @ concat (map to_steer js)) \<and>
     (ClearFollowUp \<in> set js \<or>
       concat (map followed xs) @ pm_messages (ag_follow_up a') = pm_messages (ag_follow_up a) @ concat (map to_follow js))"
proof (induction js arbitrary: a)
  case (Cons j js)
  obtain x a1 where x: "run_job j a = (x, a1)" by force
  obtain xs a2 where xs: "run_jobs js a1 = (xs, a2)" by force
  note job = job_queues [OF x] and IH = Cons.IH [of a1, unfolded xs prod.case]
  have "exclusive (map_option rn_id (ag_current a)) (x # xs)"
  proof -
    have "exclusive (map_option rn_id (ag_current a)) (x # xs) = exclusive (map_option rn_id (ag_current a1)) xs"
      using x by (cases j) (auto simp: steer_def follow_up_def clear_steering_queue_def clear_follow_up_queue_def
        drain_steering_def drain_follow_up_def admit_def claim_def finish_run_def release_def abort_def option.map_comp comp_def
        split: prod.splits if_splits)
    with IH show ?thesis by blast
  qed
  moreover have "subseq (steered x @ concat (map steered xs) @ pm_messages (ag_steering a2))
      (pm_messages (ag_steering a) @ to_steer j @ concat (map to_steer js))"
    using IH by (intro subseq_chain [OF job(3)]) blast
  moreover have "subseq (followed x @ concat (map followed xs) @ pm_messages (ag_follow_up a2))
      (pm_messages (ag_follow_up a) @ to_follow j @ concat (map to_follow js))"
    using IH by (intro subseq_chain [OF job(4)]) blast
  moreover have "ClearSteering \<in> set (j # js) \<or> steered x @ concat (map steered xs) @ pm_messages (ag_steering a2) =
      pm_messages (ag_steering a) @ to_steer j @ concat (map to_steer js)"
    using IH queue_chain [OF job(1)] by (cases "j = ClearSteering") auto
  moreover have "ClearFollowUp \<in> set (j # js) \<or> followed x @ concat (map followed xs) @ pm_messages (ag_follow_up a2) =
      pm_messages (ag_follow_up a) @ to_follow j @ concat (map to_follow js)"
    using IH queue_chain [OF job(2)] by (cases "j = ClearFollowUp") auto
  ultimately show ?case by (simp add: x xs)
qed simp

text \<open>
  A reset forgets the conversation and keeps the prompt and the tools: the transcript is at most one
  system message, which replays to the same current message and tools; the queues are empty and the
  state is idle. It is refused exactly while a run holds the agent.
\<close>

theorem reset_keeps_the_baseline:
  "case reset a of
     Inl _ \<Rightarrow> ag_current a \<noteq> None
   | Inr a' \<Rightarrow> ag_current a = None \<and> length (as_messages (ag_state a')) \<le> 1 \<and>
       get_current_system_message (as_messages (ag_state a')) = get_current_system_message (as_messages (ag_state a)) \<and>
       get_current_tools (as_messages (ag_state a')) = get_current_tools (as_messages (ag_state a)) \<and>
       \<not> has_queued_messages a' \<and> as_pending_tool_calls (ag_state a') = {} \<and> as_error_message (ag_state a') = None"
proof -
  let ?ms = "as_messages (ag_state a)"
  let ?base = "case get_current_system_message ?ms of None \<Rightarrow> [] | Some m \<Rightarrow> [SystemMsg m]"
  have "get_current_system_message ?base = get_current_system_message ?ms \<and> get_current_tools ?base = get_current_tools ?ms"
  proof (cases "get_current_system_message ?ms")
    case None
    then have "get_current_tools ?ms = []"
      by (auto simp: get_current_system_message_def Let_def case_prod_beta split: if_splits)
    then show ?thesis using None by (simp add: get_current_system_message_def get_current_tools_def)
  next
    case (Some h)
    have "h\<lparr>sm_timestamp := sm_timestamp h\<rparr> = h" by simp
    with replay_of_current [OF Some, of "[]" "sm_timestamp h"] show ?thesis by (simp add: Some)
  qed
  then show ?thesis
    by (simp add: reset_def clear_steering_queue_def clear_follow_up_queue_def clear_queue_def has_queued_messages_def
        has_items_def split: option.splits)
qed

subsection \<open>A prompt returns\<close>

text \<open>The work left: what the outside still allows, and the queued messages.\<close>

definition work :: "('x \<Rightarrow> nat) \<Rightarrow> ('t, 'x) agent \<Rightarrow> nat" where
  "work k a = k (ag_outside a) + length (pm_messages (ag_steering a)) + length (pm_messages (ag_follow_up a))"

definition limited :: "('x \<Rightarrow> nat) \<Rightarrow> ('t, 'x) agent_setup \<Rightarrow> 't list \<Rightarrow> bool" where
  "limited k su ts \<longleftrightarrow>
     loop_respects (not_raised (work k)) (loop_host su) (create_loop_config su) (map (su_tool su) ts) \<and>
     (\<forall>req a. work k (snd (su_stream su req a)) +
        (if tool_calls_of (am_content (rs_message (fst (su_stream su req a)))) \<noteq> [] then 1 else 0) \<le> work k a) \<and>
     (\<forall>f c a. su_finish_turn su = Some f \<longrightarrow> work k (snd (f c a)) + (if fst (f c a) = Some ContinueRun then 1 else 0) \<le> work k a)"

lemma drained_work:
  "drain_steering a = (ms, a') \<Longrightarrow> work k a' + length ms = work k a"
  "drain_follow_up a = (ms, a') \<Longrightarrow> work k a' + length ms = work k a"
  by (auto simp: drain_steering_def drain_follow_up_def work_def split: prod.splits dest!: pending.pop arg_cong [where f = length])

lemma limited_budget:
  fixes su :: "('t, 'x) agent_setup"
  assumes "limited k su ts"
  shows "within_budget (work k) (loop_host su) (create_loop_config su) (map (su_tool su) ts)"
proof -
  let ?cfg = "create_loop_config su"
  have some: "n + (if ms \<noteq> [] then 1 else 0) \<le> m" if "n + length ms = m" for n m :: nat and ms :: "message list"
    using that by (cases ms) auto
  have steer: "poll (lc_steering ?cfg) a = (if ag_skip_steering a then ([], a\<lparr>ag_skip_steering := False\<rparr>) else drain_steering a)"
    and follow: "poll (lc_follow_up ?cfg) a = drain_follow_up a"
    and skip: "work k (a\<lparr>ag_skip_steering := False\<rparr>) = work k a" for a :: "('t, 'x) agent"
    by (simp_all add: create_loop_config_def poll_def get_steering_messages_def work_def)
  have drained: "work k (snd (drain_steering a)) + (if fst (drain_steering a) \<noteq> [] then 1 else 0) \<le> work k a"
    for a :: "('t, 'x) agent"
    by (rule some) (metis drained_work(1) prod.collapse)
  have "work k (snd (poll (lc_steering ?cfg) a)) + (if fst (poll (lc_steering ?cfg) a) \<noteq> [] then 1 else 0) \<le> work k a" for a
    unfolding steer by (cases "ag_skip_steering a") (use drained in \<open>simp_all add: skip del: if_split\<close>)
  moreover have "work k (snd (poll (lc_follow_up ?cfg) a)) + (if fst (poll (lc_follow_up ?cfg) a) \<noteq> [] then 1 else 0) \<le> work k a" for a
    unfolding follow by (rule some) (metis drained_work(2) prod.collapse)
  moreover have "lc_stream ?cfg = su_stream su" "lc_finish_turn ?cfg = su_finish_turn su"
    by (simp_all add: create_loop_config_def)
  ultimately show ?thesis
    using assms unfolding limited_def within_budget_def by (simp only: simp_thms) blast
qed

lemma run_prompt_returns:
  assumes "limited k su (as_tools (ag_state a))" "ag_current a = None"
  shows "\<exists>a'. \<forall>fuel > work k a. run_prompt_messages su fuel i messages skip a = Some (Inr (), a')"
proof -
  let ?run = "\<lparr>rn_id = i, rn_cancelled = False\<rparr>"
  let ?s = "(ag_state a)\<lparr>as_is_streaming := True, as_streaming_message := None, as_error_message := None\<rparr>"
  let ?a1 = "a\<lparr>ag_current := Some ?run, ag_state := ?s\<rparr>"
  let ?a0 = "?a1\<lparr>ag_skip_steering := skip\<rparr>"
  have "context_tools (context_snapshot su ?s) = map (su_tool su) (as_tools (ag_state a))"
    by (simp add: context_tools_def context_snapshot_def)
  then have "within_budget (work k) (loop_host su) (create_loop_config su) (context_tools (context_snapshot su ?s))"
    using limited_budget [OF assms(1)] by simp
  from agent_run_bounded [OF this] obtain out where
    "\<forall>fuel > work k ?a0. run_agent_loop fuel (loop_host su) (create_loop_config su) (as_model ?s) (config_reasoning ?s)
       messages (context_snapshot su ?s) ?a0 = Some out" by blast
  moreover have "work k ?a0 = work k a" by (simp add: work_def)
  ultimately have "\<forall>fuel > work k a. prompt_executor su fuel messages skip ?a1 = Some (None, ru_world (snd out))"
    by (auto simp: prompt_executor_def case_prod_beta)
  then show ?thesis
    using assms(2) by (simp add: run_prompt_messages_def run_with_lifecycle_def admit_def claim_def Let_def run_lifecycle_def)
qed

text \<open>
  An idle agent's prompt returns, without an error: where responses with tool calls and requests to
  go on are limited and nobody adds to the queues, one unit of fuel more than the limit and the queued
  messages suffices, and more fuel changes nothing.
\<close>

theorem prompt_returns:
  assumes "limited k su (as_tools (ag_state a))" "ag_current a = None"
  shows "\<exists>a'. \<forall>fuel > work k a. prompt su fuel i input images a = Some (Inr (), a')"
  using run_prompt_returns [OF assms] by (simp add: prompt_def assms(2))

subsection \<open>A concrete agent\<close>

text \<open>The outside counts the responses with a tool call the model still gives.\<close>

definition plain_setup :: "(unit, nat) agent_setup" where
  "plain_setup =
    \<lparr>su_tool = (\<lambda>t. \<lparr>at_tool = example_tool ''read'' ''reads'', at_mode = None, at_prepare = None,
       at_execute = (\<lambda>i args a. (\<lparr>tr_updates = [], tr_outcome = Inr (example_result ''all''), tr_duration = 3\<rparr>, a))\<rparr>),
     su_listeners = [\<lambda>e a. a], su_convert = None, su_transform = None, su_get_api_key = None,
     su_stream = (\<lambda>req a. if ag_outside a > 0
       then (\<lparr>rs_events = [StreamStart (calling []), StreamDone], rs_message = calling [named_call ''1'' ''read'']\<rparr>,
             a\<lparr>ag_outside := ag_outside a - 1\<rparr>)
       else (\<lparr>rs_events = [], rs_message = (calling [])\<lparr>am_stop_reason := Stop\<rparr>\<rparr>, a)),
     su_finish_turn = None, su_prepare_request = None, su_prepare_next_turn = None, su_prepare_next_turn_with_context = None,
     su_mode = None, su_hooks = no_hooks, su_now = (\<lambda>a. 5), su_validate = (\<lambda>t args. Inr args), su_fadd = (\<lambda>x y. x),
     su_schedule = (\<lambda>a. [])\<rparr>"

definition plain_agent :: "(unit, nat) agent" where
  "plain_agent = \<lparr>ag_state = initial_state (\<lambda>t. example_tool ''read'' ''reads'') None None (lit ''off'') None None,
     ag_steering = \<lparr>pm_messages = [], pm_mode = OneAtATime\<rparr>, ag_follow_up = \<lparr>pm_messages = [], pm_mode = OneAtATime\<rparr>,
     ag_current = None, ag_skip_steering = False, ag_outside = 1\<rparr>"

lemma plain_leaves: "leaves_state plain_setup"
  by (simp add: leaves_state_def plain_setup_def untouched_def no_hooks_def choose_prepare_next_turn_def create_loop_config_def
      keeps_context_def)

lemma plain_streams: "streams_ok (create_loop_config plain_setup)"
  by (simp add: streams_ok_def create_loop_config_def plain_setup_def)

lemma plain_limited: "limited (\<lambda>n. n) plain_setup ts"
proof -
  have "calls_respect (not_raised (work (\<lambda>n. n))) (loop_host plain_setup) (su_hooks plain_setup) (map (su_tool plain_setup) ts)"
    by (auto simp: calls_respect_def moved_def loop_host_def dispatch_def notify_def plain_setup_def no_hooks_def work_def)
  moreover have "keeps_context (create_loop_config plain_setup)"
    using plain_leaves by (simp add: leaves_state_def)
  moreover have "moved (not_raised (work (\<lambda>n. n))) a (snd (get_steering_messages a))"
    "moved (not_raised (work (\<lambda>n. n))) a (snd (drain_follow_up a))" for a :: "(unit, nat) agent"
    using drained_work [of a _ _ "\<lambda>n. n"]
    by (auto simp: moved_def get_steering_messages_def work_def) (metis le_add1 prod.collapse)+
  ultimately have "loop_respects (not_raised (work (\<lambda>n. n))) (loop_host plain_setup) (create_loop_config plain_setup)
      (map (su_tool plain_setup) ts)"
    by (auto simp: loop_respects_def create_loop_config_def plain_setup_def choose_prepare_next_turn_def moved_def work_def)
  then show ?thesis
    by (auto simp: limited_def plain_setup_def work_def calling_def)
qed

theorem prompt_returns_witness:
  "\<exists>a'. \<forall>fuel > 1. prompt plain_setup fuel 0 (PromptText []) None plain_agent = Some (Inr (), a')"
proof -
  have "limited (\<lambda>n. n) plain_setup (as_tools (ag_state plain_agent))" by (rule plain_limited)
  moreover have "ag_current plain_agent = None" by (simp add: plain_agent_def)
  moreover have "work (\<lambda>n. n) plain_agent = 1" by (simp add: work_def plain_agent_def)
  ultimately show ?thesis using prompt_returns [of "\<lambda>n. n" plain_setup plain_agent 0 "PromptText []" None] by simp
qed

lemma plain_free: "ag_current plain_agent = None" "work (\<lambda>n. n) plain_agent = 1"
  by (simp_all add: plain_agent_def work_def)


text \<open>An agent whose last message is the assistant's, with one message to steer it.\<close>

definition steered_agent :: "(unit, nat) agent" where
  "steered_agent = plain_agent
     \<lparr>ag_state := (ag_state plain_agent)\<lparr>as_messages := [AssistantMsg ((calling [])\<lparr>am_stop_reason := Stop\<rparr>)]\<rparr>,
      ag_steering := \<lparr>pm_messages = [OtherMsg [1], OtherMsg [2]], pm_mode = OneAtATime\<rparr>\<rparr>"

theorem continue_takes_the_queued_messages_witness:
  "\<exists>a' new now. continue_run plain_setup 4 0 steered_agent = Some (Inr (), a') \<and>
     prefix (declare_tool_changes now (context_snapshot plain_setup (ag_state steered_agent)) [OtherMsg [1]]) new \<and>
     as_messages (ag_state a') = as_messages (ag_state steered_agent) @ new"
proof -
  have last: "as_messages (ag_state steered_agent) = [AssistantMsg ((calling [])\<lparr>am_stop_reason := Stop\<rparr>)]"
    by (simp add: steered_agent_def)
  have drained: "drain_steering steered_agent = ([OtherMsg [1]],
      steered_agent\<lparr>ag_steering := \<lparr>pm_messages = [OtherMsg [2]], pm_mode = OneAtATime\<rparr>\<rparr>)"
    by (simp add: drain_steering_def steered_agent_def drain_def peek_queue_def)
  let ?a1 = "steered_agent\<lparr>ag_steering := \<lparr>pm_messages = [OtherMsg [2]], pm_mode = OneAtATime\<rparr>\<rparr>"
  have free: "ag_current ?a1 = None" "ag_current steered_agent = None" by (simp_all add: steered_agent_def plain_agent_def)
  moreover have "work (\<lambda>n. n) ?a1 = 2" by (simp add: work_def steered_agent_def plain_agent_def)
  ultimately obtain a' where
      "\<forall>fuel > 2. run_prompt_messages plain_setup fuel 0 [OtherMsg [1]] True ?a1 = Some (Inr (), a')"
    using run_prompt_returns [OF plain_limited free(1), of 0 "[OtherMsg [1]]" True] by metis
  then have "run_prompt_messages plain_setup 4 0 [OtherMsg [1]] True ?a1 = Some (Inr (), a')" by simp
  then have run: "continue_run plain_setup 4 0 steered_agent = Some (Inr (), a')"
    using free(2) last drained by (simp add: continue_run_def Let_def)
  have "drain (ag_steering steered_agent) = ([OtherMsg [1]], \<lparr>pm_messages = [OtherMsg [2]], pm_mode = OneAtATime\<rparr>)"
    by (simp add: steered_agent_def drain_def peek_queue_def)
  with continue_takes_the_queued_messages [OF plain_leaves plain_streams run] run last show ?thesis by auto
qed

theorem an_escaped_error_ends_the_run_witness:
  "\<exists>a' now. run_with_lifecycle plain_setup 0 (\<lambda>a. Some (Some [1], abort a)) plain_agent = Some (Inr (), a') \<and>
     as_messages (ag_state a') = [AssistantMsg (failure_message [1] True default_model now)]"
proof -
  let ?executor = "\<lambda>a. Some (Some [1], abort a)" and ?a2 = "abort (admitted 0 plain_agent)"
  have "untouched (admitted 0 plain_agent) ?a2" "cancelled ?a2"
    by (simp_all add: untouched_def abort_def admitted_def cancelled_def)
  with an_escaped_error_ends_the_run [where executor = ?executor, OF plain_leaves plain_free(1) refl this(1)]
  obtain a' now where "run_with_lifecycle plain_setup 0 ?executor plain_agent = Some (Inr (), a')"
    "as_messages (ag_state a') = as_messages (ag_state plain_agent) @
       [AssistantMsg (failure_message [1] True (as_model (ag_state plain_agent)) now)]" by force
  then show ?thesis
    by (auto simp: plain_agent_def initial_state_def create_initial_system_message_def Let_def)
qed

end
