(* ===== verification/Edit_Diff.thy ===== *)
theory Edit_Diff
  imports Messages "HOL-Library.Multiset"
begin

section \<open>Exact text replacement (core/tools/edit_diff.py, edit.py)\<close>

text \<open>
  The engine of the edit tool: every edit is matched against the same text, exactly or else in a
  normalized view of it, and the replacements are applied together; lines that no replacement
  touches keep their original characters. \<open>nfkc\<close> stands for \<open>unicodedata.normalize("NFKC", _)\<close>, the
  tables of the Unicode database. An error is \<open>Inl\<close> with its text.
\<close>

subsection \<open>Line endings\<close>

definition CRLF :: pystr where "CRLF = [CR, NL]"

definition detect_line_ending :: "pystr \<Rightarrow> pystr" where
  "detect_line_ending content =
    (case (str_find CRLF content, str_find [NL] content) of
       (Some crlf, Some lf) \<Rightarrow> if crlf < lf then CRLF else [NL]
     | _ \<Rightarrow> [NL])"

fun replace_crlf :: "pystr \<Rightarrow> pystr" where
  "replace_crlf [] = []"
| "replace_crlf [c] = [c]"
| "replace_crlf (c # d # cs) = (if c = CR \<and> d = NL then NL # replace_crlf cs else c # replace_crlf (d # cs))"

definition normalize_to_lf :: "pystr \<Rightarrow> pystr" where
  "normalize_to_lf t = map (\<lambda>c. if c = CR then NL else c) (replace_crlf t)"

definition restore_line_endings :: "pystr \<Rightarrow> pystr \<Rightarrow> pystr" where
  "restore_line_endings t ending = (if ending = CRLF then concat (map (\<lambda>c. if c = NL then CRLF else [c]) t) else t)"

definition BOM :: nat where "BOM = 65279"

definition split_bom :: "pystr \<Rightarrow> pystr \<times> pystr" where
  "split_bom content = (case content of [] \<Rightarrow> ([], []) | c # cs \<Rightarrow> if c = BOM then ([BOM], cs) else ([], content))"

subsection \<open>The normalized view\<close>

definition py_rstrip :: "pystr \<Rightarrow> pystr" where
  "py_rstrip s = rev (dropWhile py_isspace (rev s))"

definition ascii_punctuation :: "nat \<Rightarrow> nat" where
  "ascii_punctuation c =
    (if c \<in> {8216, 8217, 8218, 8219} then 39
     else if c \<in> {8220, 8221, 8222, 8223} then 34
     else if c \<in> {8208, 8209, 8210, 8211, 8212, 8213, 8722} then 45
     else if c = 160 \<or> 8194 \<le> c \<and> c \<le> 8202 \<or> c \<in> {8239, 8287, 12288} then 32
     else c)"

definition normalize_for_fuzzy_match :: "(pystr \<Rightarrow> pystr) \<Rightarrow> pystr \<Rightarrow> pystr" where
  "normalize_for_fuzzy_match nfkc t = map ascii_punctuation (str_join [NL] (map py_rstrip (split_on NL (nfkc t))))"

subsection \<open>Lines and replacements\<close>

fun split_lines_with_endings :: "pystr \<Rightarrow> pystr list" where
  "split_lines_with_endings [] = []"
| "split_lines_with_endings (c # cs) =
     (if c = NL then [NL] # split_lines_with_endings cs
      else case split_lines_with_endings cs of [] \<Rightarrow> [[c]] | l # ls \<Rightarrow> (c # l) # ls)"

record line_span =
  ls_start :: nat
  ls_end :: nat

fun line_spans :: "nat \<Rightarrow> pystr list \<Rightarrow> line_span list" where
  "line_spans offset [] = []"
| "line_spans offset (l # ls) =
     \<lparr>ls_start = offset, ls_end = offset + length l\<rparr> # line_spans (offset + length l) ls"

definition get_line_spans :: "pystr \<Rightarrow> line_span list" where
  "get_line_spans content = line_spans 0 (split_lines_with_endings content)"

record replacement =
  rp_index :: nat
  rp_length :: nat
  rp_text :: pystr
  rp_edit :: nat

definition rp_end :: "replacement \<Rightarrow> nat" where
  "rp_end r = rp_index r + rp_length r"

definition outside_text :: pystr where
  "outside_text = lit ''Replacement range is outside the base content.''"

text \<open>The first line from \<open>i\<close> on that reaches \<open>stop\<close>.\<close>

fun reaching :: "nat \<Rightarrow> nat \<Rightarrow> line_span list \<Rightarrow> nat option" where
  "reaching stop i [] = None"
| "reaching stop i (l # ls) = (if ls_end l < stop then reaching stop (i + 1) ls else Some i)"

definition get_replacement_line_range :: "line_span list \<Rightarrow> replacement \<Rightarrow> (nat \<times> nat) result" where
  "get_replacement_line_range lines r =
    (case find_index (\<lambda>l. ls_start l \<le> rp_index r \<and> rp_index r < ls_end l) lines of
       None \<Rightarrow> Inl outside_text
     | Some start_line \<Rightarrow>
         (case reaching (rp_end r) start_line (drop start_line lines) of
            None \<Rightarrow> Inl outside_text
          | Some end_line \<Rightarrow> Inr (start_line, end_line + 1)))"

definition apply_one :: "nat \<Rightarrow> replacement \<Rightarrow> pystr \<Rightarrow> pystr" where
  "apply_one offset r content =
    (let i = rp_index r - offset in take i content @ rp_text r @ drop (i + rp_length r) content)"

text \<open>In reverse order.\<close>

definition apply_replacements :: "pystr \<Rightarrow> replacement list \<Rightarrow> nat \<Rightarrow> pystr" where
  "apply_replacements content rs offset = foldr (apply_one offset) rs content"

record line_group =
  lg_start :: nat
  lg_end :: nat
  lg_replacements :: "replacement list"

fun group_replacements :: "line_span list \<Rightarrow> line_group list \<Rightarrow> replacement list \<Rightarrow> line_group list result" where
  "group_replacements lines groups [] = Inr groups"
| "group_replacements lines groups (r # rs) =
     (case get_replacement_line_range lines r of
        Inl e \<Rightarrow> Inl e
      | Inr (start_line, end_line) \<Rightarrow>
          group_replacements lines
            (if groups \<noteq> [] \<and> start_line < lg_end (last groups)
             then butlast groups @ [(last groups)\<lparr>lg_end := max (lg_end (last groups)) end_line,
                 lg_replacements := lg_replacements (last groups) @ [r]\<rparr>]
             else groups @ [\<lparr>lg_start = start_line, lg_end = end_line, lg_replacements = [r]\<rparr>]) rs)"

fun write_groups :: "pystr list \<Rightarrow> line_span list \<Rightarrow> pystr \<Rightarrow> nat \<Rightarrow> line_group list \<Rightarrow> pystr" where
  "write_groups original spans base i [] = concat (drop i original)"
| "write_groups original spans base i (g # gs) =
     (let first = ls_start (spans ! lg_start g); end_offset = ls_end (spans ! (lg_end g - 1))
      in concat (slice i (lg_start g) original) @
         apply_replacements (slice first end_offset base) (lg_replacements g) first @
         write_groups original spans base (lg_end g) gs)"

definition apply_replacements_preserving_unchanged_lines :: "pystr \<Rightarrow> pystr \<Rightarrow> replacement list \<Rightarrow> pystr result" where
  "apply_replacements_preserving_unchanged_lines original_content base_content rs =
    (let original_lines = split_lines_with_endings original_content; base_lines = get_line_spans base_content
     in if length original_lines \<noteq> length base_lines
        then Inl (lit ''Cannot preserve unchanged lines because the base content has a different line count.'')
        else map_sum id (write_groups original_lines base_lines base_content 0)
               (group_replacements base_lines [] (sort_key rp_index rs)))"

subsection \<open>Matching\<close>

text \<open>A match; \<open>None\<close> stands for a result that was not found.\<close>

record text_match =
  tm_index :: nat
  tm_length :: nat
  tm_fuzzy :: bool
  tm_content :: pystr

definition fuzzy_find_text :: "(pystr \<Rightarrow> pystr) \<Rightarrow> pystr \<Rightarrow> pystr \<Rightarrow> text_match option" where
  "fuzzy_find_text nfkc content old_text =
    (case str_find old_text content of
       Some i \<Rightarrow> Some \<lparr>tm_index = i, tm_length = length old_text, tm_fuzzy = False, tm_content = content\<rparr>
     | None \<Rightarrow>
         let fuzzy_content = normalize_for_fuzzy_match nfkc content; fuzzy_old = normalize_for_fuzzy_match nfkc old_text
         in map_option (\<lambda>i. \<lparr>tm_index = i, tm_length = length fuzzy_old, tm_fuzzy = True, tm_content = fuzzy_content\<rparr>)
              (str_find fuzzy_old fuzzy_content))"

text \<open>\<open>hay.count(needle)\<close>: occurrences that do not overlap.\<close>

function str_count :: "pystr \<Rightarrow> pystr \<Rightarrow> nat" where
  "str_count needle hay =
    (if needle = [] then length hay + 1
     else if hay = [] then 0
     else if prefix needle hay then 1 + str_count needle (drop (length needle) hay)
     else str_count needle (tl hay))"
  by pat_completeness auto
termination by (relation "measure (\<lambda>(needle, hay). length hay)") auto

declare str_count.simps [simp del]

definition count_occurrences :: "(pystr \<Rightarrow> pystr) \<Rightarrow> pystr \<Rightarrow> pystr \<Rightarrow> nat" where
  "count_occurrences nfkc content old_text =
    str_count (normalize_for_fuzzy_match nfkc old_text) (normalize_for_fuzzy_match nfkc content)"

subsection \<open>Errors\<close>

definition edits_at :: "nat \<Rightarrow> pystr" where
  "edits_at i = lit ''edits['' @ nat_digits i @ lit '']''"

definition not_found_error :: "pystr \<Rightarrow> nat \<Rightarrow> nat \<Rightarrow> pystr" where
  "not_found_error path i n =
    (if n = 1 then lit ''Could not find the exact text in '' @ path @
       lit ''. The old text must match exactly including all whitespace and newlines.''
     else lit ''Could not find '' @ edits_at i @ lit '' in '' @ path @
       lit ''. The oldText must match exactly including all whitespace and newlines.'')"

definition duplicate_error :: "pystr \<Rightarrow> nat \<Rightarrow> nat \<Rightarrow> nat \<Rightarrow> pystr" where
  "duplicate_error path i n occurrences =
    (if n = 1 then lit ''Found '' @ nat_digits occurrences @ lit '' occurrences of the text in '' @ path @
       lit ''. The text must be unique. Please provide more context to make it unique.''
     else lit ''Found '' @ nat_digits occurrences @ lit '' occurrences of '' @ edits_at i @ lit '' in '' @ path @
       lit ''. Each oldText must be unique. Please provide more context to make it unique.'')"

definition empty_old_text_error :: "pystr \<Rightarrow> nat \<Rightarrow> nat \<Rightarrow> pystr" where
  "empty_old_text_error path i n =
    (if n = 1 then lit ''oldText must not be empty in '' @ path @ lit ''.''
     else edits_at i @ lit ''.oldText must not be empty in '' @ path @ lit ''.'')"

definition no_change_error :: "pystr \<Rightarrow> nat \<Rightarrow> pystr" where
  "no_change_error path n =
    (if n = 1 then lit ''No changes made to '' @ path @ lit ''. The replacement produced identical content. '' @
       lit ''This might indicate an issue with special characters or the text not existing as expected.''
     else lit ''No changes made to '' @ path @ lit ''. The replacements produced identical content.'')"

definition overlap_error :: "pystr \<Rightarrow> replacement \<Rightarrow> replacement \<Rightarrow> pystr" where
  "overlap_error path previous current =
    edits_at (rp_edit previous) @ lit '' and '' @ edits_at (rp_edit current) @ lit '' overlap in '' @ path @
    lit ''. Merge them into one edit or target disjoint regions.''"

subsection \<open>Applying the edits\<close>

record edit =
  ed_old :: pystr
  ed_new :: pystr

definition normalize_edit :: "edit \<Rightarrow> edit" where
  "normalize_edit e = \<lparr>ed_old = normalize_to_lf (ed_old e), ed_new = normalize_to_lf (ed_new e)\<rparr>"

fun match_edits :: "(pystr \<Rightarrow> pystr) \<Rightarrow> pystr \<Rightarrow> pystr \<Rightarrow> nat \<Rightarrow> nat \<Rightarrow> edit list \<Rightarrow> replacement list result" where
  "match_edits nfkc path base n i [] = Inr []"
| "match_edits nfkc path base n i (e # es) =
     (case fuzzy_find_text nfkc base (ed_old e) of
        None \<Rightarrow> Inl (not_found_error path i n)
      | Some m \<Rightarrow>
          (let occurrences = count_occurrences nfkc base (ed_old e)
           in if occurrences > 1 then Inl (duplicate_error path i n occurrences)
              else map_sum id (\<lambda>rs. \<lparr>rp_index = tm_index m, rp_length = tm_length m, rp_text = ed_new e, rp_edit = i\<rparr> # rs)
                     (match_edits nfkc path base n (i + 1) es)))"

fun first_overlap :: "replacement list \<Rightarrow> (replacement \<times> replacement) option" where
  "first_overlap (p # c # rs) = (if rp_end p > rp_index c then Some (p, c) else first_overlap (c # rs))"
| "first_overlap _ = None"

definition uses_fuzzy_match :: "(pystr \<Rightarrow> pystr) \<Rightarrow> pystr \<Rightarrow> edit list \<Rightarrow> bool" where
  "uses_fuzzy_match nfkc content edits \<longleftrightarrow>
     list_ex (\<lambda>e. case fuzzy_find_text nfkc content (ed_old e) of Some m \<Rightarrow> tm_fuzzy m | None \<Rightarrow> False) edits"

text \<open>The new content; the base content of the result is the given one.\<close>

definition apply_edits_to_normalized_content :: "(pystr \<Rightarrow> pystr) \<Rightarrow> pystr \<Rightarrow> edit list \<Rightarrow> pystr \<Rightarrow> pystr result" where
  "apply_edits_to_normalized_content nfkc content edits path =
    (let es = map normalize_edit edits; n = length es
     in case find_index (\<lambda>e. ed_old e = []) es of
          Some i \<Rightarrow> Inl (empty_old_text_error path i n)
        | None \<Rightarrow>
            (let fuzzy = uses_fuzzy_match nfkc content es;
                 base = (if fuzzy then normalize_for_fuzzy_match nfkc content else content)
             in case match_edits nfkc path base n 0 es of
                  Inl e \<Rightarrow> Inl e
                | Inr unsorted \<Rightarrow>
                    (let rs = sort_key rp_index unsorted
                     in case first_overlap rs of
                          Some (p, c) \<Rightarrow> Inl (overlap_error path p c)
                        | None \<Rightarrow>
                            (case (if fuzzy then apply_replacements_preserving_unchanged_lines content base rs
                                   else Inr (apply_replacements base rs 0)) of
                               Inl e \<Rightarrow> Inl e
                             | Inr new_content \<Rightarrow>
                                 if content = new_content then Inl (no_change_error path n) else Inr new_content))))"


subsection \<open>The edit tool\<close>

text \<open>
  One call: what \<open>access\<close> reports, the decoded file or the error of reading it, the error of writing,
  and which of the five checks of the cancel token (at the start, after \<open>access\<close>, after the read,
  before and after the write) finds it cancelled.
\<close>

record edit_io =
  eo_access :: "pystr option"
  eo_read :: "pystr result"
  eo_write :: "pystr option"
  eo_cancelled :: "nat \<Rightarrow> bool"

definition edit_aborted :: pystr where "edit_aborted = lit ''Operation aborted''"

text \<open>The text handed to the file system, and the text of the result.\<close>

definition edit_file :: "(pystr \<Rightarrow> pystr) \<Rightarrow> edit_io \<Rightarrow> edit list \<Rightarrow> pystr \<Rightarrow> pystr option \<times> pystr result" where
  "edit_file nfkc io edits path =
    (if eo_cancelled io 0 then (None, Inl edit_aborted)
     else case eo_access io of
       Some e \<Rightarrow> (None, Inl (if eo_cancelled io 1 then edit_aborted else lit ''Could not edit file: '' @ path @ lit ''. '' @ e @ lit ''.''))
     | None \<Rightarrow>
         if eo_cancelled io 1 then (None, Inl edit_aborted)
         else case eo_read io of
           Inl e \<Rightarrow> (None, Inl e)
         | Inr raw_content \<Rightarrow>
             if eo_cancelled io 2 then (None, Inl edit_aborted)
             else (case split_bom raw_content of (bom, content) \<Rightarrow>
               case apply_edits_to_normalized_content nfkc (normalize_to_lf content) edits path of
                 Inl e \<Rightarrow> (None, Inl e)
               | Inr new_content \<Rightarrow>
                   if eo_cancelled io 3 then (None, Inl edit_aborted)
                   else (Some (bom @ restore_line_endings new_content (detect_line_ending content)),
                     case eo_write io of
                       Some e \<Rightarrow> Inl e
                     | None \<Rightarrow> if eo_cancelled io 4 then Inl edit_aborted
                         else Inr (lit ''Successfully replaced '' @ nat_digits (length edits) @ lit '' block(s) in '' @ path @ lit ''.''))))"


subsection \<open>The tool's arguments\<close>

text \<open>\<open>loads\<close> stands for \<open>json.loads\<close>, \<open>None\<close> when it raises.\<close>

definition old_text_key :: pystr where "old_text_key = lit ''oldText''"
definition new_text_key :: pystr where "new_text_key = lit ''newText''"
definition edits_key :: pystr where "edits_key = lit ''edits''"

fun is_json_str :: "json option \<Rightarrow> bool" where
  "is_json_str (Some (JStr s)) = True"
| "is_json_str _ = False"

fun is_single_edit_input :: "json \<Rightarrow> bool" where
  "is_single_edit_input (JObj d) \<longleftrightarrow> is_json_str (dict_get d old_text_key) \<and> is_json_str (dict_get d new_text_key)"
| "is_single_edit_input _ \<longleftrightarrow> False"

text \<open>Edits given as text or as a single object.\<close>

definition listed_edits :: "(pystr \<Rightarrow> json option) \<Rightarrow> (pystr, json) dict \<Rightarrow> (pystr, json) dict" where
  "listed_edits loads args =
    (case dict_get args edits_key of
       None \<Rightarrow> args
     | Some (JStr s) \<Rightarrow>
         (case loads s of
            Some (JArr xs) \<Rightarrow> dict_set edits_key (JArr xs) args
          | Some parsed \<Rightarrow> if is_single_edit_input parsed then dict_set edits_key (JArr [parsed]) args else args
          | None \<Rightarrow> args)
     | Some v \<Rightarrow> if is_single_edit_input v then dict_set edits_key (JArr [v]) args else args)"

definition prepare_edit_arguments :: "(pystr \<Rightarrow> json option) \<Rightarrow> json \<Rightarrow> json" where
  "prepare_edit_arguments loads input =
    (case input of
       JObj d \<Rightarrow>
         if d = [] then input
         else (let args = listed_edits loads d
           in case (dict_get args old_text_key, dict_get args new_text_key) of
                (Some (JStr old), Some (JStr new)) \<Rightarrow>
                  (let edits = (case dict_get args edits_key of Some (JArr xs) \<Rightarrow> xs | _ \<Rightarrow> []);
                       rest = filter (\<lambda>(k, v). k \<noteq> old_text_key \<and> k \<noteq> new_text_key) args
                   in JObj (dict_set edits_key (JArr (edits @ [JObj [(old_text_key, JStr old), (new_text_key, JStr new)]])) rest))
              | _ \<Rightarrow> JObj args)
     | _ \<Rightarrow> input)"

text \<open>After the schema check: the texts of an edit are strings.\<close>

fun edit_of :: "json \<Rightarrow> edit result" where
  "edit_of (JObj d) =
     (case (dict_get d old_text_key, dict_get d new_text_key) of
        (Some (JStr old), Some (JStr new)) \<Rightarrow> Inr \<lparr>ed_old = old, ed_new = new\<rparr>
      | (None, _) \<Rightarrow> Inl (39 # old_text_key @ [39])
      | _ \<Rightarrow> Inl (39 # new_text_key @ [39]))"
| "edit_of _ = Inl []"

fun all_results :: "'a result list \<Rightarrow> 'a list result" where
  "all_results [] = Inr []"
| "all_results (Inl e # rs) = Inl e"
| "all_results (Inr x # rs) = map_sum id ((#) x) (all_results rs)"

definition validate_edit_input :: "(pystr, json) dict \<Rightarrow> edit list result" where
  "validate_edit_input params =
    (case dict_get params edits_key of
       Some (JArr xs) \<Rightarrow>
         if xs = [] then Inl (lit ''Edit tool input is invalid. edits must contain at least one replacement.'')
         else all_results (map edit_of xs)
     | _ \<Rightarrow> Inl (lit ''Edit tool input is invalid. edits must contain at least one replacement.''))"

end
