(* ===== verification/Edit_Laws.thy ===== *)
theory Edit_Laws
  imports Edit_Diff
begin

section \<open>The edits that are applied\<close>

text \<open>
  Replacements that follow each other are a left-to-right splice (\<open>apply_splice\<close>); the groups of lines
  a fuzzy edit rewrites are exactly the lines it touches (\<open>grouped\<close>, \<open>chained\<close>), so the others keep
  their characters; a call of the tool writes at most once, and only what it announces.
\<close>

subsection \<open>Replacements in order\<close>

text \<open>Replacements that follow each other within \<open>[o, e]\<close>, and their application from left to right.\<close>

fun fits :: "nat \<Rightarrow> nat \<Rightarrow> replacement list \<Rightarrow> bool" where
  "fits i j [] \<longleftrightarrow> i \<le> j"
| "fits i j (r # rs) \<longleftrightarrow> i \<le> rp_index r \<and> rp_end r \<le> j \<and> fits (rp_end r) j rs"

fun spliced :: "nat \<Rightarrow> pystr \<Rightarrow> replacement list \<Rightarrow> pystr" where
  "spliced i c [] = c"
| "spliced i c (r # rs) = take (rp_index r - i) c @ rp_text r @ spliced (rp_end r) (drop (rp_end r - i) c) rs"

lemma rp_end_ge [simp]: "rp_index r \<le> rp_end r"
  by (simp add: rp_end_def)

lemma fits_le: "fits i j rs \<Longrightarrow> i \<le> j"
  by (induction rs arbitrary: i) (auto intro: le_trans [OF _ le_trans [OF rp_end_ge]])

lemma fits_in: "fits i j rs \<Longrightarrow> r \<in> set rs \<Longrightarrow> i \<le> rp_index r \<and> rp_end r \<le> j"
proof (induction rs arbitrary: i)
  case (Cons x xs)
  then have x: "i \<le> rp_index x" "rp_end x \<le> j" "fits (rp_end x) j xs" by auto
  show ?case
  proof (cases "r = x")
    case False
    with Cons.IH [OF x(3)] Cons.prems(2) have "rp_end x \<le> rp_index r" "rp_end r \<le> j" by auto
    with x(1) rp_end_ge [of x] show ?thesis by linarith
  qed (use x in simp)
qed simp

lemma fits_mono: "fits i j rs \<Longrightarrow> j \<le> k \<Longrightarrow> fits i k rs"
  by (induction rs arbitrary: i) auto

lemma fits_weaken: "fits i j rs \<Longrightarrow> h \<le> i \<Longrightarrow> fits h j rs"
  by (cases rs) auto

lemma fits_join: "fits i j xs \<Longrightarrow> fits j k ys \<Longrightarrow> fits i k (xs @ ys)"
  by (induction xs arbitrary: i) (auto intro: fits_weaken le_trans dest: fits_le)

lemma fits_snoc: "fits i q rs \<Longrightarrow> q \<le> rp_index r \<Longrightarrow> rp_end r \<le> j \<Longrightarrow> fits i j (rs @ [r])"
  by (induction rs arbitrary: i) (auto intro: le_trans [OF _ le_trans [OF _ rp_end_ge]] le_trans [OF fits_le])

lemma apply_splice_from:
  "fits q (i + length c) rs \<Longrightarrow> i \<le> q \<Longrightarrow>
   apply_replacements c rs i = take (q - i) c @ spliced q (drop (q - i) c) rs"
proof (induction rs arbitrary: q)
  case (Cons r rs)
  then have r: "q \<le> rp_index r" "rp_end r \<le> i + length c" "fits (rp_end r) (i + length c) rs" by auto
  then have ie: "i \<le> rp_end r" using rp_end_ge [of r] Cons.prems(2) by linarith
  let ?n = "rp_end r - i"
  have IH: "apply_replacements c rs i = take ?n c @ spliced (rp_end r) (drop ?n c) rs"
    using Cons.IH [OF r(3) ie] .
  have idx: "rp_index r - i \<le> ?n" "rp_index r - i + rp_length r = ?n" "?n \<le> length c"
    using r ie Cons.prems(2) by (auto simp: rp_end_def)
  have "apply_replacements c (r # rs) i = apply_one i r (apply_replacements c rs i)"
    by (simp add: apply_replacements_def)
  also have "\<dots> = take (rp_index r - i) c @ rp_text r @ spliced (rp_end r) (drop ?n c) rs"
    unfolding IH apply_one_def Let_def using idx by (simp add: min_def)
  also have "take (rp_index r - i) c = take (q - i) c @ take (rp_index r - q) (drop (q - i) c)"
    using r(1) Cons.prems(2) by (metis le_add_diff_inverse2 add_diff_cancel_right' diff_le_mono le_add_diff_inverse take_add Nat.diff_diff_eq diff_diff_left ordered_cancel_comm_monoid_diff_class.diff_diff_right Nat.add_diff_assoc2 le_trans)
  finally have "apply_replacements c (r # rs) i =
      (take (q - i) c @ take (rp_index r - q) (drop (q - i) c)) @ rp_text r @ spliced (rp_end r) (drop (rp_end r - i) c) rs" .
  moreover have "rp_end r - q + (q - i) = rp_end r - i" using r(1) Cons.prems(2) rp_end_ge [of r] by linarith
  ultimately show ?case by simp
qed (simp add: apply_replacements_def)

lemma apply_splice: "fits i (i + length c) rs \<Longrightarrow> apply_replacements c rs i = spliced i c rs"
  using apply_splice_from [of i i c rs] by simp

lemma spliced_after: "fits (i + length a) j rs \<Longrightarrow> spliced i (a @ b) rs = a @ spliced (i + length a) b rs"
proof (cases rs)
  case (Cons r rs')
  assume "fits (i + length a) j rs"
  with Cons have a: "i + length a \<le> rp_index r" by simp
  then have "i + length a \<le> rp_end r" using rp_end_ge [of r] by linarith
  with a Cons show ?thesis by (simp add: diff_diff_left)
qed simp

lemma spliced_append:
  "fits i (i + length a) rs \<Longrightarrow> fits (i + length a) j rs' \<Longrightarrow>
   spliced i (a @ b) (rs @ rs') = spliced i a rs @ spliced (i + length a) b rs'"
proof (induction rs arbitrary: i a)
  case Nil
  then show ?case by (simp add: spliced_after)
next
  case (Cons r rs)
  let ?d = "drop (rp_end r - i) a"
  from Cons.prems have r: "i \<le> rp_index r" "rp_end r \<le> i + length a" "fits (rp_end r) (i + length a) rs" by auto
  then have e: "i \<le> rp_end r" using rp_end_ge [of r] by linarith
  have len: "rp_end r + length ?d = i + length a" using r e by simp
  have "spliced (rp_end r) (?d @ b) (rs @ rs') = spliced (rp_end r) ?d rs @ spliced (i + length a) b rs'"
    using Cons.IH [of "rp_end r" ?d] unfolding len using r(3) Cons.prems(2) .
  moreover have "rp_index r - i \<le> length a" "rp_end r - i \<le> length a" using r e rp_end_ge [of r] by linarith+
  ultimately show ?case by simp
qed

text \<open>Texts between gaps.\<close>

fun weave :: "pystr list \<Rightarrow> pystr list \<Rightarrow> pystr" where
  "weave [] xs = []"
| "weave (u # us) [] = u"
| "weave (u # us) (x # xs) = u @ x @ weave us xs"

lemma splice_weave:
  "fits i (i + length c) rs \<Longrightarrow>
   \<exists>us. length us = length rs + 1 \<and> c = weave us (map (\<lambda>r. take (rp_length r) (drop (rp_index r - i) c)) rs) \<and>
     spliced i c rs = weave us (map rp_text rs)"
proof (induction rs arbitrary: i c)
  case Nil
  then show ?case by (intro exI [of _ "[c]"]) simp
next
  case (Cons r rs)
  let ?d = "drop (rp_end r - i) c"
  from Cons.prems have r: "i \<le> rp_index r" "rp_end r \<le> i + length c" "fits (rp_end r) (i + length c) rs" by auto
  then have e: "i \<le> rp_end r" using rp_end_ge [of r] by linarith
  then have "rp_end r + length ?d = i + length c" using r(2) by simp
  with r(3) have "fits (rp_end r) (rp_end r + length ?d) rs" by metis
  from Cons.IH [OF this] obtain us where
    us: "length us = length rs + 1" "?d = weave us (map (\<lambda>x. take (rp_length x) (drop (rp_index x - rp_end r) ?d)) rs)"
      "spliced (rp_end r) ?d rs = weave us (map rp_text rs)" by blast
  have "map (\<lambda>x. take (rp_length x) (drop (rp_index x - rp_end r) ?d)) rs = map (\<lambda>x. take (rp_length x) (drop (rp_index x - i) c)) rs"
  proof (rule map_cong [OF refl])
    fix x assume "x \<in> set rs"
    with fits_in [OF r(3)] have "rp_end r \<le> rp_index x" by blast
    with e have "rp_index x - rp_end r + (rp_end r - i) = rp_index x - i" by linarith
    then show "take (rp_length x) (drop (rp_index x - rp_end r) ?d) = take (rp_length x) (drop (rp_index x - i) c)" by simp
  qed
  note same = this
  have d: "?d = weave us (map (\<lambda>x. take (rp_length x) (drop (rp_index x - i) c)) rs)"
    using us(2) unfolding same .
  have split: "c = take (rp_index r - i) c @ take (rp_length r) (drop (rp_index r - i) c) @ ?d"
  proof -
    have "rp_end r - i = rp_length r + (rp_index r - i)" using r(1) by (simp add: rp_end_def)
    then show ?thesis by (metis append_take_drop_id drop_drop)
  qed
  show ?case
    by (intro exI [of _ "take (rp_index r - i) c # us"]) (use us d split in simp)
qed


subsection \<open>Lines\<close>

lemma concat_lines [simp]: "concat (split_lines_with_endings s) = s"
  by (induction s) (auto split: list.split)

text \<open>The offset of a line.\<close>

definition offset_of :: "pystr list \<Rightarrow> nat \<Rightarrow> nat" where
  "offset_of ls k = length (concat (take k ls))"

lemma offset_mono: "j \<le> k \<Longrightarrow> offset_of ls j \<le> offset_of ls k"
  by (metis offset_of_def append_eq_conv_conj concat_append le_add1 le_add_diff_inverse length_append take_add)

lemma offset_0 [simp]: "offset_of ls 0 = 0"
  by (simp add: offset_of_def)

lemma offset_all: "offset_of ls (length ls) = length (concat ls)"
  by (simp add: offset_of_def)

lemma line_spans_nth:
  "k < length ls \<Longrightarrow> line_spans i ls ! k = \<lparr>ls_start = i + offset_of ls k, ls_end = i + offset_of ls (Suc k)\<rparr>"
proof (induction ls arbitrary: i k)
  case (Cons l ls)
  then show ?case by (cases k) (simp_all add: offset_of_def)
qed simp

lemma length_line_spans [simp]: "length (line_spans i ls) = length ls"
  by (induction ls arbitrary: i) auto

lemma reaching_spec:
  "reaching stop i ls = Some j \<Longrightarrow> i \<le> j \<and> j < i + length ls \<and> stop \<le> ls_end (ls ! (j - i)) \<and>
     (\<forall>k. i \<le> k \<and> k < j \<longrightarrow> ls_end (ls ! (k - i)) < stop)"
proof (induction stop i ls rule: reaching.induct)
  case (2 stop i l ls)
  show ?case
  proof (cases "ls_end l < stop")
    case True
    with 2 have IH: "Suc i \<le> j" "j < Suc i + length ls" "stop \<le> ls_end (ls ! (j - Suc i))"
      "\<forall>k. Suc i \<le> k \<and> k < j \<longrightarrow> ls_end (ls ! (k - Suc i)) < stop" by auto
    have nth: "i < k \<Longrightarrow> (l # ls) ! (k - i) = ls ! (k - Suc i)" for k
      by (cases "k - i") (auto simp: Suc_diff_Suc [symmetric])
    show ?thesis
    proof (intro conjI allI impI)
      fix k assume "i \<le> k \<and> k < j"
      then show "ls_end ((l # ls) ! (k - i)) < stop" using IH(4) True nth [of k] by (cases "k = i") auto
    qed (use IH nth [of j] in auto)
  next
    case False
    with 2 show ?thesis by auto
  qed
qed simp

text \<open>A replacement reads or writes within the line.\<close>

definition touches :: "pystr list \<Rightarrow> replacement \<Rightarrow> nat \<Rightarrow> bool" where
  "touches ls r k \<longleftrightarrow> rp_index r < offset_of ls (Suc k) \<and> (offset_of ls k < rp_end r \<or> offset_of ls k \<le> rp_index r)"

lemma line_range:
  assumes "get_replacement_line_range (line_spans 0 ls) r = Inr (i, j)"
  shows "i < j" "j \<le> length ls" "offset_of ls i \<le> rp_index r" "rp_end r \<le> offset_of ls j"
    "\<forall>k. i \<le> k \<and> k < j \<longrightarrow> touches ls r k"
proof -
  let ?sp = "line_spans 0 ls"
  from assms obtain m where i: "find_index (\<lambda>l. ls_start l \<le> rp_index r \<and> rp_index r < ls_end l) ?sp = Some i"
    and m: "reaching (rp_end r) i (drop i ?sp) = Some m" "j = Suc m"
    by (auto simp: get_replacement_line_range_def split: option.splits)
  from find_index_Some [OF i] have il: "i < length ls" and at: "ls_start (?sp ! i) \<le> rp_index r" "rp_index r < ls_end (?sp ! i)"
    by auto
  from reaching_spec [OF m(1)] il have m': "i \<le> m" "m < length ls" "rp_end r \<le> ls_end (?sp ! m)"
    "\<forall>k. i \<le> k \<and> k < m \<longrightarrow> ls_end (?sp ! k) < rp_end r" by auto
  show "i < j" "j \<le> length ls" using m' m(2) by auto
  show start: "offset_of ls i \<le> rp_index r" using at(1) line_spans_nth [OF il] by simp
  show "rp_end r \<le> offset_of ls j" using m'(3) line_spans_nth [OF m'(2)] m(2) by simp
  show "\<forall>k. i \<le> k \<and> k < j \<longrightarrow> touches ls r k"
  proof (intro allI impI)
    fix k assume k: "i \<le> k \<and> k < j"
    then have "rp_index r < offset_of ls (Suc k)"
      using at(2) line_spans_nth [OF il] offset_mono [of "Suc i" "Suc k" ls] by simp
    moreover have "offset_of ls k < rp_end r \<or> offset_of ls k \<le> rp_index r"
    proof (cases "k = i")
      case False
      with k m(2) have "i \<le> k - 1 \<and> k - 1 < m" "k - 1 < length ls" "Suc (k - 1) = k" using m'(2) by auto
      with m'(4) line_spans_nth [of "k - 1" ls 0] show ?thesis by auto
    qed (use start in simp)
    ultimately show "touches ls r k" by (simp add: touches_def)
  qed
qed


subsection \<open>Groups of lines\<close>

text \<open>Groups in order between lines \<open>i\<close> and \<open>n\<close>, each made of lines its replacements touch and stay in.\<close>

definition group_ok :: "pystr list \<Rightarrow> line_group \<Rightarrow> bool" where
  "group_ok ls g \<longleftrightarrow> lg_start g < lg_end g \<and> lg_end g \<le> length ls \<and>
     fits (offset_of ls (lg_start g)) (offset_of ls (lg_end g)) (lg_replacements g) \<and>
     (\<forall>k. lg_start g \<le> k \<and> k < lg_end g \<longrightarrow> list_ex (\<lambda>r. touches ls r k) (lg_replacements g))"

fun chained :: "pystr list \<Rightarrow> nat \<Rightarrow> nat \<Rightarrow> line_group list \<Rightarrow> bool" where
  "chained ls i n [] \<longleftrightarrow> i \<le> n"
| "chained ls i n (g # gs) \<longleftrightarrow> i \<le> lg_start g \<and> group_ok ls g \<and> chained ls (lg_end g) n gs"

lemma chained_snoc: "chained ls i n (gs @ [g]) \<longleftrightarrow> chained ls i (lg_start g) gs \<and> group_ok ls g \<and> lg_end g \<le> n"
  by (induction gs arbitrary: i) auto

lemma chained_group: "chained ls i n gs \<Longrightarrow> g \<in> set gs \<Longrightarrow> group_ok ls g"
  by (induction gs arbitrary: i) auto

lemma chained_mono: "chained ls i n gs \<Longrightarrow> n \<le> m \<Longrightarrow> chained ls i m gs"
  by (induction gs arbitrary: i) auto

definition grouped :: "pystr list \<Rightarrow> nat \<Rightarrow> line_group list \<Rightarrow> bool" where
  "grouped ls q groups \<longleftrightarrow> chained ls 0 (length ls) groups \<and>
     (groups \<noteq> [] \<longrightarrow> fits (offset_of ls (lg_start (last groups))) q (lg_replacements (last groups)))"

lemma grouped_new:
  assumes g: "grouped ls q groups" and q: "q \<le> rp_index r" and range: "get_replacement_line_range (line_spans 0 ls) r = Inr (i, j)"
    and far: "\<not> (groups \<noteq> [] \<and> i < lg_end (last groups))"
  shows "grouped ls (rp_end r) (groups @ [\<lparr>lg_start = i, lg_end = j, lg_replacements = [r]\<rparr>])"
proof -
  note r = line_range [OF range]
  have "chained ls 0 i groups"
  proof (cases groups rule: rev_cases)
    case (snoc gs x)
    with g far show ?thesis by (auto simp: grouped_def chained_snoc)
  qed simp
  moreover have "group_ok ls \<lparr>lg_start = i, lg_end = j, lg_replacements = [r]\<rparr>"
    using r by (simp add: group_ok_def)
  ultimately show ?thesis using r by (simp add: grouped_def chained_snoc)
qed

lemma grouped_merge:
  assumes g: "grouped ls q (gs @ [x])" and q: "q \<le> rp_index r" and range: "get_replacement_line_range (line_spans 0 ls) r = Inr (i, j)"
    and near: "i < lg_end x"
  shows "grouped ls (rp_end r) (gs @ [x\<lparr>lg_end := max (lg_end x) j, lg_replacements := lg_replacements x @ [r]\<rparr>])"
proof -
  note r = line_range [OF range]
  from g have x: "group_ok ls x" "chained ls 0 (lg_start x) gs" "fits (offset_of ls (lg_start x)) q (lg_replacements x)"
    by (auto simp: grouped_def chained_snoc)
  let ?x = "x\<lparr>lg_end := max (lg_end x) j, lg_replacements := lg_replacements x @ [r]\<rparr>"
  have "rp_end r \<le> offset_of ls (max (lg_end x) j)" using r(4) offset_mono [of j "max (lg_end x) j" ls] by simp
  then have "fits (offset_of ls (lg_start x)) (offset_of ls (max (lg_end x) j)) (lg_replacements x @ [r])"
    by (rule fits_snoc [OF x(3) q])
  moreover have "list_ex (\<lambda>r. touches ls r k) (lg_replacements x @ [r])" if "lg_start x \<le> k" "k < max (lg_end x) j" for k
  proof (cases "k < lg_end x")
    case True
    with x(1) that show ?thesis by (auto simp: group_ok_def)
  next
    case False
    with near that r(5) show ?thesis by simp
  qed
  ultimately have "group_ok ls ?x" using x(1) r(2) by (auto simp: group_ok_def)
  moreover have "fits (offset_of ls (lg_start x)) (rp_end r) (lg_replacements x @ [r])" using fits_snoc [OF x(3) q] by blast
  ultimately show ?thesis using x(2) r(2) by (auto simp: grouped_def chained_snoc group_ok_def)
qed

definition replacements_of :: "line_group list \<Rightarrow> replacement list" where
  "replacements_of gs = concat (map lg_replacements gs)"

lemma group_replacements_spec:
  "group_replacements (line_spans 0 ls) groups rs = Inr gs \<Longrightarrow> grouped ls q groups \<Longrightarrow> fits q m rs \<Longrightarrow>
   chained ls 0 (length ls) gs \<and> replacements_of gs = replacements_of groups @ rs"
proof (induction rs arbitrary: groups q)
  case Nil
  then show ?case by (simp add: grouped_def)
next
  case (Cons r rs)
  from Cons.prems(1) obtain i j where range: "get_replacement_line_range (line_spans 0 ls) r = Inr (i, j)"
    by (auto split: sum.splits)
  have fits: "fits (rp_end r) m rs" "q \<le> rp_index r" using Cons.prems(3) by auto
  show ?case
  proof (cases "groups \<noteq> [] \<and> i < lg_end (last groups)")
    case True
    then obtain xs x where groups: "groups = xs @ [x]" "i < lg_end x" by (cases groups rule: rev_cases) auto
    let ?x = "x\<lparr>lg_end := max (lg_end x) j, lg_replacements := lg_replacements x @ [r]\<rparr>"
    have "group_replacements (line_spans 0 ls) (xs @ [?x]) rs = Inr gs" using Cons.prems(1) range groups by simp
    from Cons.IH [OF this grouped_merge [OF Cons.prems(2) [unfolded groups(1)] fits(2) range groups(2)] fits(1)] show ?thesis
      by (simp add: replacements_of_def groups)
  next
    case False
    then have "group_replacements (line_spans 0 ls) (groups @ [\<lparr>lg_start = i, lg_end = j, lg_replacements = [r]\<rparr>]) rs = Inr gs"
      using Cons.prems(1) range by auto
    from Cons.IH [OF this grouped_new [OF Cons.prems(2) fits(2) range False] fits(1)] show ?thesis
      by (simp add: replacements_of_def)
  qed
qed

text \<open>Blocks of lines and what is written for them; the lines between them are copied from a list.\<close>

fun blocks :: "pystr list \<Rightarrow> nat \<Rightarrow> (nat \<times> nat \<times> pystr) list \<Rightarrow> pystr" where
  "blocks ls i [] = concat (drop i ls)"
| "blocks ls i ((s, e, t) # bs) = concat (slice i s ls) @ t @ blocks ls e bs"

definition group_text :: "pystr list \<Rightarrow> line_group \<Rightarrow> pystr" where
  "group_text ls g = apply_replacements (concat (slice (lg_start g) (lg_end g) ls)) (lg_replacements g) (offset_of ls (lg_start g))"

definition block_of :: "pystr list \<Rightarrow> line_group \<Rightarrow> nat \<times> nat \<times> pystr" where
  "block_of ls g = (lg_start g, lg_end g, group_text ls g)"

lemma slice_concat: "i \<le> j \<Longrightarrow> j \<le> length ls \<Longrightarrow> slice (offset_of ls i) (offset_of ls j) (concat ls) = concat (slice i j ls)"
proof -
  assume ij: "i \<le> j" "j \<le> length ls"
  have t: "take (offset_of ls j) (concat ls) = concat (take j ls)"
    by (metis append_eq_conv_conj append_take_drop_id concat_append offset_of_def)
  have "concat (take j ls) = concat (take i ls) @ concat (drop i (take j ls))"
    by (metis append_take_drop_id concat_append ij(1) min_def take_take)
  then show ?thesis unfolding slice_def t by (metis append_eq_conv_conj offset_of_def)
qed

lemma offset_slice: "i \<le> j \<Longrightarrow> offset_of ls i + length (concat (slice i j ls)) = offset_of ls j"
  by (metis append_take_drop_id concat_append length_append min_def offset_of_def slice_def take_take)

lemma slices_drop: "i \<le> j \<Longrightarrow> j \<le> k \<Longrightarrow> drop i xs = slice i j xs @ slice j k xs @ drop k xs"
  unfolding slice_def by (metis append.assoc append_take_drop_id drop_take le_add_diff_inverse drop_drop add.commute le_trans min_def take_drop)

lemma write_groups_blocks:
  "chained ls i n gs \<Longrightarrow> write_groups original (line_spans 0 ls) (concat ls) i gs = blocks original i (map (block_of ls) gs)"
proof (induction gs arbitrary: i)
  case (Cons g gs)
  then have g: "lg_start g < lg_end g" "lg_end g \<le> length ls" "chained ls (lg_end g) n gs" by (auto simp: group_ok_def)
  then have "lg_start g < length ls" "lg_end g - 1 < length ls" "Suc (lg_end g - 1) = lg_end g" by auto
  with g Cons.IH [OF g(3)] slice_concat [of "lg_start g" "lg_end g" ls]
  show ?case by (simp add: Let_def line_spans_nth block_of_def group_text_def)
qed simp

text \<open>Copying the lines of the base itself is applying the replacements to the base.\<close>

lemma chained_fits:
  "chained ls i n gs \<Longrightarrow> n \<le> length ls \<Longrightarrow> fits (offset_of ls i) (offset_of ls n) (replacements_of gs)"
proof (induction gs arbitrary: i)
  case Nil
  then show ?case by (simp add: replacements_of_def offset_mono)
next
  case (Cons g gs)
  from Cons have "fits (offset_of ls (lg_end g)) (offset_of ls n) (replacements_of gs)" by simp
  moreover have "fits (offset_of ls i) (offset_of ls (lg_end g)) (lg_replacements g)"
    using Cons.prems(1) offset_mono [of i "lg_start g" ls] by (auto simp: group_ok_def intro: fits_weaken)
  ultimately show ?case using fits_join by (simp add: replacements_of_def)
qed

lemma blocks_base:
  "chained ls i (length ls) gs \<Longrightarrow> i \<le> length ls \<Longrightarrow>
   blocks ls i (map (block_of ls) gs) = spliced (offset_of ls i) (concat (drop i ls)) (replacements_of gs)"
proof (induction gs arbitrary: i)
  case Nil
  then show ?case by (simp add: replacements_of_def)
next
  case (Cons g gs)
  then have g: "i \<le> lg_start g" "lg_start g < lg_end g" "lg_end g \<le> length ls" "chained ls (lg_end g) (length ls) gs"
    "fits (offset_of ls (lg_start g)) (offset_of ls (lg_end g)) (lg_replacements g)"
    by (auto simp: group_ok_def)
  let ?a = "concat (slice i (lg_start g) ls)" and ?b = "concat (slice (lg_start g) (lg_end g) ls)" and ?c = "concat (drop (lg_end g) ls)"
  have split: "concat (drop i ls) = ?a @ ?b @ ?c"
  proof -
    have "drop i ls = slice i (lg_start g) ls @ slice (lg_start g) (lg_end g) ls @ drop (lg_end g) ls"
      using g(1,2) by (intro slices_drop) auto
    then show ?thesis by simp
  qed
  have la: "offset_of ls i + length ?a = offset_of ls (lg_start g)" and lb: "offset_of ls (lg_start g) + length ?b = offset_of ls (lg_end g)"
    using g(1-3) by (simp_all add: offset_slice)
  have rest: "fits (offset_of ls (lg_end g)) (length (concat ls)) (replacements_of gs)"
    using chained_fits [OF g(4)] by (simp add: offset_all)
  have "spliced (offset_of ls i) (?a @ ?b @ ?c) (lg_replacements g @ replacements_of gs) =
      ?a @ spliced (offset_of ls (lg_start g)) (?b @ ?c) (lg_replacements g @ replacements_of gs)"
    using spliced_after [of "offset_of ls i" ?a "length (concat ls)"] fits_join [OF g(5) rest] unfolding la by blast
  also have "spliced (offset_of ls (lg_start g)) (?b @ ?c) (lg_replacements g @ replacements_of gs) =
      spliced (offset_of ls (lg_start g)) ?b (lg_replacements g) @ spliced (offset_of ls (lg_end g)) ?c (replacements_of gs)"
    using spliced_append [of "offset_of ls (lg_start g)" ?b] g(5) rest unfolding lb by blast
  also have "spliced (offset_of ls (lg_start g)) ?b (lg_replacements g) = group_text ls g"
    using apply_splice [of "offset_of ls (lg_start g)" ?b "lg_replacements g"] g(5) unfolding lb by (simp add: group_text_def)
  finally show ?case using Cons.IH [OF g(4,3)] split by (simp add: block_of_def replacements_of_def)
qed


subsection \<open>What the edits do\<close>

lemma overlap_free_fits:
  assumes "first_overlap rs = None" "\<forall>r \<in> set rs. rp_end r \<le> m" "rs \<noteq> [] \<longrightarrow> i \<le> rp_index (hd rs)" "i \<le> m"
  shows "fits i m rs"
  using assms
proof (induction rs arbitrary: i rule: first_overlap.induct)
  case (1 p c rs)
  then have "rp_end p \<le> rp_index c" "first_overlap (c # rs) = None" by (auto split: if_splits)
  with 1 show ?case by auto
qed auto

lemma apply_edits_cases:
  assumes "apply_edits_to_normalized_content nfkc content edits path = Inr new"
  obtains unsorted where
    "match_edits nfkc path (if uses_fuzzy_match nfkc content (map normalize_edit edits)
       then normalize_for_fuzzy_match nfkc content else content) (length edits) 0 (map normalize_edit edits) = Inr unsorted"
    "first_overlap (sort_key rp_index unsorted) = None" "new \<noteq> content" "\<forall>e \<in> set edits. normalize_to_lf (ed_old e) \<noteq> []"
    "(if uses_fuzzy_match nfkc content (map normalize_edit edits)
      then apply_replacements_preserving_unchanged_lines content (normalize_for_fuzzy_match nfkc content) (sort_key rp_index unsorted)
      else Inr (apply_replacements content (sort_key rp_index unsorted) 0)) = Inr new"
proof -
  let ?es = "map normalize_edit edits"
  from assms have "find_index (\<lambda>e. ed_old e = []) ?es = None"
    by (auto simp: apply_edits_to_normalized_content_def Let_def split: option.splits)
  then have "\<forall>e \<in> set edits. normalize_to_lf (ed_old e) \<noteq> []" by (auto simp: find_index_None_iff normalize_edit_def)
  let ?fuzzy = "uses_fuzzy_match nfkc content ?es"
  let ?base = "if ?fuzzy then normalize_for_fuzzy_match nfkc content else content"
  let ?m = "match_edits nfkc path ?base (length edits) 0 ?es"
  note none = \<open>find_index (\<lambda>e. ed_old e = []) ?es = None\<close>
  from assms none obtain unsorted where m: "?m = Inr unsorted"
    unfolding apply_edits_to_normalized_content_def Let_def by (cases ?m) simp_all
  let ?rs = "sort_key rp_index unsorted"
  from assms none m have o: "first_overlap ?rs = None"
    unfolding apply_edits_to_normalized_content_def Let_def by (cases "first_overlap ?rs") auto
  let ?r = "if ?fuzzy then apply_replacements_preserving_unchanged_lines content ?base ?rs else Inr (apply_replacements ?base ?rs 0)"
  have r: "(case ?r of Inl e \<Rightarrow> Inl e | Inr x \<Rightarrow> if content = x then Inl (no_change_error path (length edits)) else Inr x) = Inr new"
    using assms unfolding apply_edits_to_normalized_content_def Let_def
    by (simp only: length_map none m o option.simps sum.simps)
  have out: "?r = Inr new" "new \<noteq> content" using r by (cases ?r; simp split: if_splits)+
  have "(if ?fuzzy then apply_replacements_preserving_unchanged_lines content (normalize_for_fuzzy_match nfkc content) ?rs
      else Inr (apply_replacements content ?rs 0)) = Inr new"
    using out(1) by (cases ?fuzzy) simp_all
  with out(2) \<open>\<forall>e \<in> set edits. normalize_to_lf (ed_old e) \<noteq> []\<close> show thesis by (intro that [OF m o])
qed

text \<open>Without the normalized view every match is an exact one.\<close>

lemma exact_matches:
  "match_edits nfkc path content n i es = Inr rs \<Longrightarrow> \<not> uses_fuzzy_match nfkc content es \<Longrightarrow>
   length rs = length es \<and> (\<forall>k < length es. rp_edit (rs ! k) = i + k \<and> rp_text (rs ! k) = ed_new (es ! k) \<and>
     rp_end (rs ! k) \<le> length content \<and> take (rp_length (rs ! k)) (drop (rp_index (rs ! k)) content) = ed_old (es ! k))"
proof (induction es arbitrary: i rs)
  case (Cons e es)
  then obtain m rest where m: "fuzzy_find_text nfkc content (ed_old e) = Some m"
    and rest: "match_edits nfkc path content n (i + 1) es = Inr rest"
      "rs = \<lparr>rp_index = tm_index m, rp_length = tm_length m, rp_text = ed_new e, rp_edit = i\<rparr> # rest"
    by (auto simp: Let_def map_sum_def split: option.splits sum.splits if_splits)
  from m Cons.prems(2) have "str_find (ed_old e) content = Some (tm_index m)" "tm_length m = length (ed_old e)"
    by (auto simp: uses_fuzzy_match_def fuzzy_find_text_def Let_def split: option.splits)
  with str_find_Some_split have here: "tm_index m + tm_length m \<le> length content"
    "take (tm_length m) (drop (tm_index m) content) = ed_old e" by fastforce+
  from Cons.prems(2) have "\<not> uses_fuzzy_match nfkc content es" by (simp add: uses_fuzzy_match_def)
  from Cons.IH [OF rest(1) this] here rest(2) show ?case
    by (auto simp: nth_Cons rp_end_def split: nat.split)
qed simp

text \<open>The exact edits in the order of their matches, between the gaps that stay.\<close>

lemma exact_edits_weave:
  assumes "apply_edits_to_normalized_content nfkc content edits path = Inr new"
    "\<not> uses_fuzzy_match nfkc content (map normalize_edit edits)"
  shows "\<exists>es us. mset es = mset (map normalize_edit edits) \<and> length us = length es + 1 \<and>
    content = weave us (map ed_old es) \<and> new = weave us (map ed_new es)"
proof -
  let ?es = "map normalize_edit edits"
  obtain unsorted where
    m: "match_edits nfkc path content (length edits) 0 ?es = Inr unsorted"
      "first_overlap (sort_key rp_index unsorted) = None" "apply_replacements content (sort_key rp_index unsorted) 0 = new"
    by (rule apply_edits_cases [OF assms(1)], rule that) (simp_all add: assms(2))
  let ?rs = "sort_key rp_index unsorted" and ?e = "\<lambda>r. ?es ! rp_edit r"
  note ex = exact_matches [OF m(1) assms(2)]
  have unsorted: "map ?e unsorted = ?es" by (rule nth_equalityI) (use ex in auto)
  have all: "rp_end r \<le> length content \<and> rp_text r = ed_new (?e r) \<and> take (rp_length r) (drop (rp_index r) content) = ed_old (?e r)"
    if "r \<in> set ?rs" for r
  proof -
    from that obtain k where k: "k < length unsorted" "r = unsorted ! k" by (auto simp: in_set_conv_nth)
    with ex show ?thesis by auto
  qed
  have "fits 0 (0 + length content) ?rs"
    by (rule overlap_free_fits [OF m(2)]) (use all in auto)
  from splice_weave [OF this] apply_splice [OF this] m(3) obtain us where
    us: "length us = length ?rs + 1" "content = weave us (map (\<lambda>r. take (rp_length r) (drop (rp_index r - 0) content)) ?rs)"
      "new = weave us (map rp_text ?rs)" by auto
  have olds: "map (\<lambda>r. take (rp_length r) (drop (rp_index r - 0) content)) ?rs = map ed_old (map ?e ?rs)"
    and news: "map rp_text ?rs = map ed_new (map ?e ?rs)"
    using all by auto
  have "mset (map ?e ?rs) = mset ?es" by (metis mset_map mset_sort unsorted)
  moreover have "content = weave us (map ed_old (map ?e ?rs))" using us(2) unfolding olds .
  moreover have "new = weave us (map ed_new (map ?e ?rs))" using us(3) unfolding news .
  moreover have "length us = length (map ?e ?rs) + 1" using us(1) by (simp only: length_map)
  ultimately show ?thesis by blast
qed

text \<open>
  With the normalized view: the replacements are applied to it, and only the lines they touch are
  taken from there.
\<close>

lemma get_line_spans_lines: "get_line_spans content = line_spans 0 (split_lines_with_endings content)"
  by (simp add: get_line_spans_def)

lemma overlay:
  assumes "apply_replacements_preserving_unchanged_lines original base rs = Inr new" "first_overlap rs = None"
    "sort_key rp_index rs = rs"
  shows "\<exists>gs. let ols = split_lines_with_endings original; bls = split_lines_with_endings base in
    length ols = length bls \<and> chained bls 0 (length bls) gs \<and> replacements_of gs = rs \<and>
    new = blocks ols 0 (map (block_of bls) gs) \<and> apply_replacements base rs 0 = blocks bls 0 (map (block_of bls) gs) \<and>
    fits 0 (length base) rs"
proof -
  let ?ols = "split_lines_with_endings original" and ?bls = "split_lines_with_endings base"
  from assms(1,3) obtain gs where len: "length ?ols = length ?bls"
    and gs: "group_replacements (line_spans 0 ?bls) [] rs = Inr gs" "new = write_groups ?ols (line_spans 0 ?bls) base 0 gs"
    by (auto simp: apply_replacements_preserving_unchanged_lines_def get_line_spans_lines Let_def map_sum_def
        split: if_splits sum.splits)
  have start: "grouped ?bls 0 []" by (simp add: grouped_def)
  let ?m = "Max (insert 0 (rp_end ` set rs))"
  have "\<forall>r \<in> set rs. rp_end r \<le> ?m" by simp
  from overlap_free_fits [OF assms(2) this, of 0] have "fits 0 ?m rs" by simp
  from group_replacements_spec [OF gs(1) start this] have
    ch: "chained ?bls 0 (length ?bls) gs" "replacements_of gs = rs" by (simp_all add: replacements_of_def)
  have "fits 0 (0 + length base) rs"
    using chained_fits [OF ch(1)] ch(2) offset_all [of ?bls] by simp
  from apply_splice [OF this] blocks_base [OF ch(1)] ch(2) have
    "apply_replacements base rs 0 = blocks ?bls 0 (map (block_of ?bls) gs)" by simp
  with write_groups_blocks [OF ch(1), of ?ols] gs(2) len ch \<open>fits 0 (0 + length base) rs\<close> show ?thesis by (auto simp: Let_def)
qed


lemma view_matches:
  "match_edits nfkc path base n i es = Inr rs \<Longrightarrow> normalize_for_fuzzy_match nfkc base = base \<Longrightarrow>
   map rp_text rs = map ed_new es \<and> list_all2 (\<lambda>e r. take (rp_length r) (drop (rp_index r) base) \<in>
     {ed_old e, normalize_for_fuzzy_match nfkc (ed_old e)}) es rs"
proof (induction es arbitrary: i rs)
  case (Cons e es)
  then obtain m rest where m: "fuzzy_find_text nfkc base (ed_old e) = Some m"
    and rest: "match_edits nfkc path base n (i + 1) es = Inr rest"
      "rs = \<lparr>rp_index = tm_index m, rp_length = tm_length m, rp_text = ed_new e, rp_edit = i\<rparr> # rest"
    by (auto simp: Let_def map_sum_def split: option.splits sum.splits if_splits)
  have "take (tm_length m) (drop (tm_index m) base) \<in> {ed_old e, normalize_for_fuzzy_match nfkc (ed_old e)}"
    using m Cons.prems(2) str_find_Some_split
    by (fastforce simp: fuzzy_find_text_def Let_def split: option.splits)
  with Cons.IH [OF rest(1) Cons.prems(2)] rest(2) show ?case by simp
qed simp

subsection \<open>Line endings\<close>

fun crlf_only :: "pystr \<Rightarrow> bool" where
  "crlf_only [] \<longleftrightarrow> True"
| "crlf_only [c] \<longleftrightarrow> c \<noteq> CR \<and> c \<noteq> NL"
| "crlf_only (c # d # cs) \<longleftrightarrow> (if c = CR then d = NL \<and> crlf_only cs else c \<noteq> NL \<and> crlf_only (d # cs))"

text \<open>Every line ends the same way.\<close>

definition uniform_endings :: "pystr \<Rightarrow> bool" where
  "uniform_endings s \<longleftrightarrow> CR \<notin> set s \<or> crlf_only s"

lemma replace_crlf_id: "CR \<notin> set s \<Longrightarrow> replace_crlf s = s"
  by (induction s rule: replace_crlf.induct) auto

lemma replace_crlf_only: "crlf_only s \<Longrightarrow> CR \<notin> set (replace_crlf s) \<and> concat (map (\<lambda>c. if c = NL then CRLF else [c]) (replace_crlf s)) = s"
  by (induction s rule: replace_crlf.induct) (auto simp: CRLF_def split: if_splits)

lemma find_crlf_only: "crlf_only s \<Longrightarrow> NL \<in> set s \<Longrightarrow> \<exists>k. str_find CRLF s = Some k \<and> str_find [NL] s = Some (Suc k)"
proof (induction s rule: replace_crlf.induct)
  case (3 c d cs)
  show ?case
  proof (cases "c = CR")
    case True
    with 3 show ?thesis by (auto simp: CRLF_def)
  next
    case False
    with 3 show ?thesis by (auto simp: CRLF_def)
  qed
qed auto

lemma crlf_only_no_nl: "crlf_only s \<Longrightarrow> NL \<notin> set s \<Longrightarrow> CR \<notin> set s"
  by (induction s rule: replace_crlf.induct) (auto split: if_splits)

lemma find_crlf_none: "CR \<notin> set s \<Longrightarrow> str_find CRLF s = None"
  by (induction s) (auto simp: CRLF_def)

lemma endings_restored:
  assumes "uniform_endings s"
  shows "restore_line_endings (normalize_to_lf s) (detect_line_ending s) = s"
proof (cases "CR \<in> set s")
  case False
  then have "detect_line_ending s = [NL]" by (simp add: detect_line_ending_def find_crlf_none)
  moreover have "normalize_to_lf s = s" using False by (auto simp: normalize_to_lf_def replace_crlf_id intro!: map_idI)
  ultimately show ?thesis by (simp add: restore_line_endings_def CRLF_def)
next
  case True
  with assms have only: "crlf_only s" by (simp add: uniform_endings_def)
  with True crlf_only_no_nl have "NL \<in> set s" by blast
  with find_crlf_only [OF only] have d: "detect_line_ending s = CRLF" by (auto simp: detect_line_ending_def)
  have "normalize_to_lf s = replace_crlf s"
    using replace_crlf_only [OF only] by (auto simp: normalize_to_lf_def intro!: map_idI)
  with replace_crlf_only [OF only] d show ?thesis by (simp add: restore_line_endings_def)
qed

lemma restore_append: "restore_line_endings (a @ b) e = restore_line_endings a e @ restore_line_endings b e"
  by (simp add: restore_line_endings_def)

lemma restore_Nil [simp]: "restore_line_endings [] e = []"
  by (simp add: restore_line_endings_def)

lemma restore_weave:
  "restore_line_endings (weave us xs) e = weave (map (\<lambda>u. restore_line_endings u e) us) (map (\<lambda>x. restore_line_endings x e) xs)"
  by (induction us xs rule: weave.induct) (simp_all add: restore_append)

lemma split_bom_parts: "fst (split_bom raw) @ snd (split_bom raw) = raw"
  by (cases raw) (auto simp: split_bom_def)


subsection \<open>What the tool does to a file\<close>

lemma edit_file_cases:
  assumes "edit_file nfkc io edits path = (Some written, r)"
  shows "\<exists>raw new. eo_access io = None \<and> eo_read io = Inr raw \<and> (\<forall>k < 4. \<not> eo_cancelled io k) \<and>
    apply_edits_to_normalized_content nfkc (normalize_to_lf (snd (split_bom raw))) edits path = Inr new \<and>
    written = fst (split_bom raw) @ restore_line_endings new (detect_line_ending (snd (split_bom raw)))"
proof -
  have k: "k < 4 \<Longrightarrow> k = 0 \<or> k = 1 \<or> k = 2 \<or> k = 3" for k :: nat by auto
  from assms show ?thesis
    by (auto simp: edit_file_def split: if_splits option.splits sum.splits prod.splits dest!: k)
qed

text \<open>
  C13. The edit tool replaces exactly what it was told to: when every text is found as it is, the file
  written is the file read with each edit's old text replaced by its new text, in the order of their
  places and with everything between them unchanged, the byte order mark and the line endings
  (of a file that ends its lines in one way) included.
\<close>

theorem edit_replaces_exactly:
  assumes "edit_file nfkc io edits path = (Some written, r)" "eo_read io = Inr raw" "uniform_endings (snd (split_bom raw))"
    "\<not> uses_fuzzy_match nfkc (normalize_to_lf (snd (split_bom raw))) (map normalize_edit edits)"
  shows "\<exists>es us. mset es = mset (map normalize_edit edits) \<and> length us = length es + 1 \<and>
    (let to_file = (\<lambda>t. restore_line_endings t (detect_line_ending (snd (split_bom raw)))) in
      raw = fst (split_bom raw) @ weave us (map (to_file \<circ> ed_old) es) \<and>
      written = fst (split_bom raw) @ weave us (map (to_file \<circ> ed_new) es))"
proof -
  let ?content = "snd (split_bom raw)"
  let ?to_file = "\<lambda>t. restore_line_endings t (detect_line_ending ?content)"
  from edit_file_cases [OF assms(1)] assms(2) obtain new where
    new: "apply_edits_to_normalized_content nfkc (normalize_to_lf ?content) edits path = Inr new"
      "written = fst (split_bom raw) @ ?to_file new" by auto
  from exact_edits_weave [OF new(1) assms(4)] obtain es us where
    es: "mset es = mset (map normalize_edit edits)" "length us = length es + 1"
      "normalize_to_lf ?content = weave us (map ed_old es)" "new = weave us (map ed_new es)" by blast
  have "?content = ?to_file (weave us (map ed_old es))" using endings_restored [OF assms(3)] unfolding es(3) by simp
  then have "raw = fst (split_bom raw) @ weave (map ?to_file us) (map (?to_file \<circ> ed_old) es)"
    using split_bom_parts [of raw] by (simp add: restore_weave)
  moreover have "written = fst (split_bom raw) @ weave (map ?to_file us) (map (?to_file \<circ> ed_new) es)"
    using new(2) unfolding es(4) by (simp add: restore_weave)
  moreover have "length (map ?to_file us) = length es + 1" using es(2) by simp
  ultimately show ?thesis using es(1) unfolding Let_def by blast
qed

text \<open>
  C26. An edit that is found only in the normalized view changes no other line: the new content is the
  old one with some blocks of lines rewritten, every line of a block is one a replacement touches,
  and with the view's own lines between the blocks it would be the view with the matched texts
  replaced. (The view must be one that normalizing again does not change.)
\<close>

theorem fuzzy_edits_keep_other_lines:
  assumes "apply_edits_to_normalized_content nfkc content edits path = Inr new"
    "uses_fuzzy_match nfkc content (map normalize_edit edits)"
    "normalize_for_fuzzy_match nfkc (normalize_for_fuzzy_match nfkc content) = normalize_for_fuzzy_match nfkc content"
  shows "\<exists>es rs us bs. let view = normalize_for_fuzzy_match nfkc content; lines = split_lines_with_endings content;
      view_lines = split_lines_with_endings view in
    mset es = mset (map normalize_edit edits) \<and> length us = length es + 1 \<and>
    list_all2 (\<lambda>e r. rp_text r = ed_new e \<and>
      take (rp_length r) (drop (rp_index r) view) \<in> {ed_old e, normalize_for_fuzzy_match nfkc (ed_old e)}) es rs \<and>
    view = weave us (map (\<lambda>r. take (rp_length r) (drop (rp_index r) view)) rs) \<and>
    length lines = length view_lines \<and> new = blocks lines 0 bs \<and> weave us (map rp_text rs) = blocks view_lines 0 bs \<and>
    list_all (\<lambda>(i, j, t). i < j \<and> j \<le> length lines \<and> (\<forall>k \<in> {i..<j}. list_ex (\<lambda>r. touches view_lines r k) rs)) bs"
proof -
  let ?es = "map normalize_edit edits" and ?view = "normalize_for_fuzzy_match nfkc content"
  let ?lines = "split_lines_with_endings content" and ?vls = "split_lines_with_endings ?view"
  obtain unsorted where
    m: "match_edits nfkc path ?view (length edits) 0 ?es = Inr unsorted" "first_overlap (sort_key rp_index unsorted) = None"
      "apply_replacements_preserving_unchanged_lines content ?view (sort_key rp_index unsorted) = Inr new"
    by (rule apply_edits_cases [OF assms(1)], rule that) (simp_all add: assms(2))
  let ?rs = "sort_key rp_index unsorted"
  let ?R = "\<lambda>e r. rp_text r = ed_new e \<and>
      take (rp_length r) (drop (rp_index r) ?view) \<in> {ed_old e, normalize_for_fuzzy_match nfkc (ed_old e)}"
  from view_matches [OF m(1) assms(3)] have "list_all2 (\<lambda>r e. ?R e r) unsorted ?es"
    unfolding list_all2_conv_all_nth by (metis (no_types, lifting) nth_map)
  from list_all2_reorder_left_invariance [OF this, of ?rs] obtain es where
    es: "list_all2 (\<lambda>r e. ?R e r) ?rs es" "mset es = mset ?es" by auto
  then have es1: "list_all2 ?R es ?rs" by (simp add: list_all2_conv_all_nth)
  have "sort_key rp_index ?rs = ?rs" by (simp add: sort_key_id_if_sorted)
  from overlay [OF m(3,2) this] obtain gs where
    gs: "length ?lines = length ?vls" "chained ?vls 0 (length ?vls) gs" "replacements_of gs = ?rs"
      "new = blocks ?lines 0 (map (block_of ?vls) gs)" "apply_replacements ?view ?rs 0 = blocks ?vls 0 (map (block_of ?vls) gs)"
      "fits 0 (length ?view) ?rs"
    by (auto simp: Let_def)
  from gs(6) have fits: "fits 0 (0 + length ?view) ?rs" by simp
  from splice_weave [OF fits] apply_splice [OF fits] obtain us where
    us: "length us = length ?rs + 1" "?view = weave us (map (\<lambda>r. take (rp_length r) (drop (rp_index r - 0) ?view)) ?rs)"
      "apply_replacements ?view ?rs 0 = weave us (map rp_text ?rs)" by auto
  have "length es = length ?rs" using es1 by (rule list_all2_lengthD)
  moreover have "list_all (\<lambda>(i, j, t). i < j \<and> j \<le> length ?lines \<and> (\<forall>k \<in> {i..<j}. list_ex (\<lambda>r. touches ?vls r k) ?rs))
      (map (block_of ?vls) gs)"
  proof -
    have "group_ok ?vls g \<and> set (lg_replacements g) \<subseteq> set ?rs" if "g \<in> set gs" for g
      using chained_group [OF gs(2) that] that unfolding gs(3) [symmetric] replacements_of_def by auto
    then show ?thesis using gs(1) by (fastforce simp: list_all_iff block_of_def group_ok_def list_ex_iff)
  qed
  moreover have "?view = weave us (map (\<lambda>r. take (rp_length r) (drop (rp_index r) ?view)) ?rs)"
    using us(2) unfolding diff_zero .
  moreover have "weave us (map rp_text ?rs) = blocks ?vls 0 (map (block_of ?vls) gs)" using us(3) gs(5) by simp
  moreover have "length us = length es + 1" using us(1) \<open>length es = length ?rs\<close> by simp
  ultimately show ?thesis using es1 es(2) gs(1,4) unfolding Let_def
    by (intro exI [of _ es] exI [of _ ?rs] exI [of _ us] exI [of _ "map (block_of ?vls) gs"] conjI)
qed

lemma matched_edits:
  "match_edits nfkc path base n i es = Inr rs \<Longrightarrow>
   list_all (\<lambda>e. fuzzy_find_text nfkc base (ed_old e) \<noteq> None \<and> count_occurrences nfkc base (ed_old e) \<le> 1) es"
  by (induction es arbitrary: i rs) (auto simp: Let_def map_sum_def split: option.splits sum.splits if_splits)

text \<open>
  C35. What the edit tool writes has been checked, and what it refuses is left alone: it hands a text to
  the file system exactly when the file can be read, no check before finds the call cancelled and the
  edits apply, and reports success exactly when the write succeeds and is not cancelled after. Edits
  that apply have non-empty texts, each found at most once in the normalized view, and change the file.
\<close>

theorem edit_file_is_all_or_nothing:
  "(fst (edit_file nfkc io edits path) \<noteq> None \<longleftrightarrow>
     eo_access io = None \<and> (\<forall>k < 4. \<not> eo_cancelled io k) \<and>
     (\<exists>raw new. eo_read io = Inr raw \<and>
        apply_edits_to_normalized_content nfkc (normalize_to_lf (snd (split_bom raw))) edits path = Inr new \<and>
        new \<noteq> normalize_to_lf (snd (split_bom raw)) \<and>
        (let content = normalize_to_lf (snd (split_bom raw));
             base = (if uses_fuzzy_match nfkc content (map normalize_edit edits) then normalize_for_fuzzy_match nfkc content else content)
         in list_all (\<lambda>e. ed_old e \<noteq> [] \<and> fuzzy_find_text nfkc base (ed_old e) \<noteq> None \<and> count_occurrences nfkc base (ed_old e) \<le> 1)
              (map normalize_edit edits)))) \<and>
   (\<not> isl (snd (edit_file nfkc io edits path)) \<longleftrightarrow>
     fst (edit_file nfkc io edits path) \<noteq> None \<and> eo_write io = None \<and> \<not> eo_cancelled io 4)"
proof (rule conjI)
  have k: "k < 4 \<Longrightarrow> k = 0 \<or> k = 1 \<or> k = 2 \<or> k = 3" for k :: nat by auto
  have checked: "new \<noteq> content \<and> (let base = (if uses_fuzzy_match nfkc content (map normalize_edit edits)
        then normalize_for_fuzzy_match nfkc content else content)
      in list_all (\<lambda>e. ed_old e \<noteq> [] \<and> fuzzy_find_text nfkc base (ed_old e) \<noteq> None \<and> count_occurrences nfkc base (ed_old e) \<le> 1)
           (map normalize_edit edits))"
    if "apply_edits_to_normalized_content nfkc content edits path = Inr new" for content new
    using that
  proof (rule apply_edits_cases)
    fix unsorted
    let ?base = "if uses_fuzzy_match nfkc content (map normalize_edit edits) then normalize_for_fuzzy_match nfkc content else content"
    assume "match_edits nfkc path ?base (length edits) 0 (map normalize_edit edits) = Inr unsorted"
      "new \<noteq> content" "\<forall>e \<in> set edits. normalize_to_lf (ed_old e) \<noteq> []"
    with matched_edits [of nfkc path ?base "length edits" 0 "map normalize_edit edits" unsorted] show ?thesis
      by (simp add: list_all_iff normalize_edit_def Let_def)
  qed
  show "fst (edit_file nfkc io edits path) \<noteq> None \<longleftrightarrow>
     eo_access io = None \<and> (\<forall>k < 4. \<not> eo_cancelled io k) \<and>
     (\<exists>raw new. eo_read io = Inr raw \<and>
        apply_edits_to_normalized_content nfkc (normalize_to_lf (snd (split_bom raw))) edits path = Inr new \<and>
        new \<noteq> normalize_to_lf (snd (split_bom raw)) \<and>
        (let content = normalize_to_lf (snd (split_bom raw));
             base = (if uses_fuzzy_match nfkc content (map normalize_edit edits) then normalize_for_fuzzy_match nfkc content else content)
         in list_all (\<lambda>e. ed_old e \<noteq> [] \<and> fuzzy_find_text nfkc base (ed_old e) \<noteq> None \<and> count_occurrences nfkc base (ed_old e) \<le> 1)
              (map normalize_edit edits)))" (is "?L \<longleftrightarrow> ?R")
  proof
    assume ?L
    then obtain w r where "edit_file nfkc io edits path = (Some w, r)" by (cases "edit_file nfkc io edits path") auto
    from edit_file_cases [OF this] checked show ?R unfolding Let_def by blast
  next
    assume ?R
    then have "eo_access io = None" "\<not> eo_cancelled io 0" "\<not> eo_cancelled io 1" "\<not> eo_cancelled io 2" "\<not> eo_cancelled io 3" by simp_all
    with \<open>?R\<close> show ?L by (auto simp: edit_file_def split: prod.split)
  qed
next
  show "\<not> isl (snd (edit_file nfkc io edits path)) \<longleftrightarrow>
      fst (edit_file nfkc io edits path) \<noteq> None \<and> eo_write io = None \<and> \<not> eo_cancelled io 4"
    by (auto simp: edit_file_def split: option.split sum.split prod.split)
qed


subsection \<open>Arguments\<close>

lemma edit_keys [simp]: "old_text_key \<noteq> new_text_key" "old_text_key \<noteq> edits_key" "new_text_key \<noteq> edits_key"
  "new_text_key \<noteq> old_text_key" "edits_key \<noteq> old_text_key" "edits_key \<noteq> new_text_key"
  by (simp_all add: old_text_key_def new_text_key_def edits_key_def lit_def)

lemma listed_twice: "dict_ok d \<Longrightarrow> listed_edits loads (listed_edits loads d) = listed_edits loads d"
  by (auto simp: listed_edits_def dict_get_set split: option.splits json.splits)

text \<open>Preparing prepared arguments changes nothing.\<close>

lemma prepare_edit_arguments_twice:
  assumes "dict_ok d"
  shows "prepare_edit_arguments loads (prepare_edit_arguments loads (JObj d)) = prepare_edit_arguments loads (JObj d)"
proof (cases "d = []")
  case False
  let ?args = "listed_edits loads d"
  let ?rest = "filter (\<lambda>(k, v). k \<noteq> old_text_key \<and> k \<noteq> new_text_key) ?args"
  have gone: "dict_get ?rest old_text_key = None" by (auto simp: map_of_eq_None_iff)
  show ?thesis
  proof (cases "is_json_str (dict_get ?args old_text_key) \<and> is_json_str (dict_get ?args new_text_key)")
    case True
    then obtain old new where "dict_get ?args old_text_key = Some (JStr old)" "dict_get ?args new_text_key = Some (JStr new)"
      by (auto elim!: is_json_str.elims)
    with False obtain xs where r: "prepare_edit_arguments loads (JObj d) = JObj (dict_set edits_key (JArr xs) ?rest)"
      by (simp add: prepare_edit_arguments_def Let_def)
    have "listed_edits loads (dict_set edits_key (JArr xs) ?rest) = dict_set edits_key (JArr xs) ?rest"
      by (simp add: listed_edits_def dict_get_set)
    with gone show ?thesis unfolding r by (simp add: prepare_edit_arguments_def dict_get_set Let_def)
  next
    case other: False
    then have "prepare_edit_arguments loads (JObj d) = JObj ?args"
      using False by (auto simp: prepare_edit_arguments_def Let_def split: option.splits json.splits)
    moreover have "prepare_edit_arguments loads (JObj ?args) = JObj ?args"
      using other listed_twice [OF assms, of loads]
      by (auto simp: prepare_edit_arguments_def Let_def split: option.splits json.splits)
    ultimately show ?thesis by simp
  qed
qed (simp add: prepare_edit_arguments_def)

subsection \<open>Examples\<close>

text \<open>Text that is all blank has an empty view, which occurs everywhere: such an edit is refused even where its text is unique.\<close>

lemma blank_edit_occurs:
  "normalize_for_fuzzy_match nfkc old = [] \<Longrightarrow> normalize_for_fuzzy_match nfkc base \<noteq> [] \<Longrightarrow> 1 < count_occurrences nfkc base old"
  by (simp add: count_occurrences_def str_count.simps)

lemmas edit_eval = apply_edits_to_normalized_content_def normalize_edit_def normalize_to_lf_def uses_fuzzy_match_def
  fuzzy_find_text_def normalize_for_fuzzy_match_def ascii_punctuation_def py_rstrip_def py_isspace_def count_occurrences_def
  str_count.simps rp_end_def apply_replacements_def apply_one_def lit_def Let_def CRLF_def BOM_def split_bom_def
  restore_line_endings_def detect_line_ending_def

lemma blank_edit_refused:
  "apply_edits_to_normalized_content (\<lambda>t. t) (lit ''a  b'') [\<lparr>ed_old = lit ''  '', ed_new = lit ''+''\<rparr>] (lit ''f'') =
     Inl (duplicate_error (lit ''f'') 0 1 5) \<and>
   str_count (lit ''  '') (lit ''a  b'') = 1"
  by (simp add: edit_eval) (simp add: eval_nat_numeral)

definition example_crlf :: pystr where
  "example_crlf = BOM # lit ''one'' @ CRLF @ lit ''two'' @ CRLF"

definition example_io :: edit_io where
  "example_io = \<lparr>eo_access = None, eo_read = Inr example_crlf, eo_write = None, eo_cancelled = (\<lambda>_. False)\<rparr>"

definition example_edits :: "edit list" where
  "example_edits = [\<lparr>ed_old = lit ''two'', ed_new = lit ''2'' @ [NL] @ lit ''3''\<rparr>]"

lemma example_edit: "edit_file (\<lambda>t. t) example_io example_edits (lit ''f'') =
    (Some (BOM # lit ''one'' @ CRLF @ lit ''2'' @ CRLF @ lit ''3'' @ CRLF), Inr (lit ''Successfully replaced 1 block(s) in f.''))"
  by (simp add: edit_eval edit_file_def example_io_def example_crlf_def example_edits_def nat_digits.simps)

theorem edit_replaces_exactly_witness:
  "\<exists>us. length us = 2 \<and> example_crlf = BOM # weave us [lit ''two''] \<and>
    BOM # lit ''one'' @ CRLF @ lit ''2'' @ CRLF @ lit ''3'' @ CRLF = BOM # weave us [lit ''2'' @ CRLF @ lit ''3'']"
proof -
  have uni: "uniform_endings (snd (split_bom example_crlf))" and exact:
    "\<not> uses_fuzzy_match (\<lambda>t. t) (normalize_to_lf (snd (split_bom example_crlf))) (map normalize_edit example_edits)"
    by (simp_all add: edit_eval uniform_endings_def example_crlf_def example_edits_def)
  have read: "eo_read example_io = Inr example_crlf" by (simp add: example_io_def)
  have vals: "fst (split_bom example_crlf) = [BOM]" "map normalize_edit example_edits = example_edits"
    "restore_line_endings (lit ''two'') (detect_line_ending (snd (split_bom example_crlf))) = lit ''two''"
    "restore_line_endings (lit ''2'' @ [NL] @ lit ''3'') (detect_line_ending (snd (split_bom example_crlf))) = lit ''2'' @ CRLF @ lit ''3''"
    by (simp_all add: edit_eval example_crlf_def example_edits_def)
  from edit_replaces_exactly [OF example_edit read uni exact] obtain es us where
    es: "mset es = mset example_edits" "length us = length es + 1"
      "example_crlf = [BOM] @ weave us (map ((\<lambda>t. restore_line_endings t (detect_line_ending (snd (split_bom example_crlf)))) \<circ> ed_old) es)"
      "BOM # lit ''one'' @ CRLF @ lit ''2'' @ CRLF @ lit ''3'' @ CRLF =
        [BOM] @ weave us (map ((\<lambda>t. restore_line_endings t (detect_line_ending (snd (split_bom example_crlf)))) \<circ> ed_new) es)"
    unfolding Let_def vals(1,2) by blast
  have "es = example_edits" using es(1) by (simp add: example_edits_def)
  then have ed: "es = [\<lparr>ed_old = lit ''two'', ed_new = lit ''2'' @ [NL] @ lit ''3''\<rparr>]" by (simp add: example_edits_def)
  have "example_crlf = [BOM] @ weave us [lit ''two'']"
    using es(3) unfolding ed by (simp only: list.map comp_apply edit.select_convs vals(3))
  moreover have "BOM # lit ''one'' @ CRLF @ lit ''2'' @ CRLF @ lit ''3'' @ CRLF = [BOM] @ weave us [lit ''2'' @ CRLF @ lit ''3'']"
    using es(4) unfolding ed by (simp only: list.map comp_apply edit.select_convs vals(4))
  ultimately show ?thesis using es(2) ed by (intro exI [of _ us]) simp
qed

text \<open>A typographic apostrophe, and a line with blanks at its end that stays.\<close>

definition example_view_text :: pystr where
  "example_view_text = lit ''keep  '' @ [NL] @ lit ''it'' @ [8217] @ lit ''s'' @ [NL]"

theorem fuzzy_edits_keep_other_lines_witness:
  "\<exists>new bs. apply_edits_to_normalized_content (\<lambda>t. t) example_view_text
      [\<lparr>ed_old = lit ''it'' @ [39] @ lit ''s'', ed_new = lit ''it is''\<rparr>] (lit ''f'') = Inr new \<and>
    new = blocks (split_lines_with_endings example_view_text) 0 bs \<and> new = lit ''keep  '' @ [NL] @ lit ''it is'' @ [NL]"
proof -
  let ?es = "[\<lparr>ed_old = lit ''it'' @ [39] @ lit ''s'', ed_new = lit ''it is''\<rparr>]"
  have out: "apply_edits_to_normalized_content (\<lambda>t. t) example_view_text ?es (lit ''f'') = Inr (lit ''keep  '' @ [NL] @ lit ''it is'' @ [NL])"
    and fuzzy: "uses_fuzzy_match (\<lambda>t. t) example_view_text (map normalize_edit ?es)"
    and idem: "normalize_for_fuzzy_match (\<lambda>t. t) (normalize_for_fuzzy_match (\<lambda>t. t) example_view_text) =
      normalize_for_fuzzy_match (\<lambda>t. t) example_view_text"
    by (simp_all add: edit_eval example_view_text_def apply_replacements_preserving_unchanged_lines_def get_line_spans_def
        get_replacement_line_range_def slice_def)
  from fuzzy_edits_keep_other_lines [OF out fuzzy idem] out show ?thesis unfolding Let_def by blast
qed

theorem edit_file_is_all_or_nothing_witness:
  "fst (edit_file (\<lambda>t. t) (example_io\<lparr>eo_cancelled := (\<lambda>k. k = 3)\<rparr>) example_edits (lit ''f'')) = None \<and>
   \<not> isl (snd (edit_file (\<lambda>t. t) example_io example_edits (lit ''f'')))"
proof
  show "fst (edit_file (\<lambda>t. t) (example_io\<lparr>eo_cancelled := (\<lambda>k. k = 3)\<rparr>) example_edits (lit ''f'')) = None"
    using edit_file_is_all_or_nothing [of "\<lambda>t. t" "example_io\<lparr>eo_cancelled := (\<lambda>k. k = 3)\<rparr>" example_edits "lit ''f''", THEN conjunct1]
    by (auto simp: eval_nat_numeral)
  show "\<not> isl (snd (edit_file (\<lambda>t. t) example_io example_edits (lit ''f'')))"
    using edit_file_is_all_or_nothing [of "\<lambda>t. t" example_io example_edits "lit ''f''", THEN conjunct2] example_edit
    by (simp add: example_io_def)
qed

end
