(* ===== verification/Mutation_Queue.thy ===== *)
theory Mutation_Queue
  imports Prelude
begin

section \<open>The queue of file mutations (core/tools/file_mutation_queue.py)\<close>

text \<open>
  The mutations of one file, as \<open>with_file_mutation_queue\<close> chains them, for one key of \<open>_queues\<close>
  (tasks of other keys share nothing with them). A mutation \<open>fn\<close> is a list of actions on the file
  and its own variables, the stretches between its awaits; an action that raises ends it. Other tasks
  run between any two actions.
\<close>

subsection \<open>Mutations\<close>

type_synonym ('f, 'l) action = "'f \<Rightarrow> 'l \<Rightarrow> 'f \<times> 'l result"

text \<open>The actions and the variables they start with.\<close>

type_synonym ('f, 'l) mutation_fn = "('f, 'l) action list \<times> 'l"

text \<open>\<open>WaitingTurn\<close> until \<open>previous.wait()\<close> returns; \<open>Leaving\<close> between the guarded deletion and \<open>done.set()\<close>.\<close>

datatype ('f, 'l) phase =
    WaitingTurn
  | Mutating "('f, 'l) action list"
  | Leaving
  | Finished

record ('f, 'l) mutation =
  mu_previous :: "nat option"
  mu_fn :: "('f, 'l) mutation_fn"
  mu_local :: 'l
  mu_phase :: "('f, 'l) phase"
  mu_outcome :: "'l result option"

text \<open>The mutations in the order of registration, the entry of \<open>_queues\<close> and the file.\<close>

record ('f, 'l) mutation_line =
  ml_tasks :: "('f, 'l) mutation list"
  ml_tail :: "nat option"
  ml_file :: 'f

subsection \<open>Steps\<close>

definition register_mutation :: "('f, 'l) mutation_fn \<Rightarrow> ('f, 'l) mutation_line \<Rightarrow> ('f, 'l) mutation_line" where
  "register_mutation fn l =
    l\<lparr>ml_tasks := ml_tasks l @
        [\<lparr>mu_previous = ml_tail l, mu_fn = fn, mu_local = snd fn, mu_phase = WaitingTurn, mu_outcome = None\<rparr>],
      ml_tail := Some (length (ml_tasks l))\<rparr>"

definition event_set :: "('f, 'l) mutation_line \<Rightarrow> nat \<Rightarrow> bool" where
  "event_set l i \<longleftrightarrow> i < length (ml_tasks l) \<and> mu_phase (ml_tasks l ! i) = Finished"

definition update_task :: "nat \<Rightarrow> ('f, 'l) mutation \<Rightarrow> ('f, 'l) mutation_line \<Rightarrow> ('f, 'l) mutation_line" where
  "update_task i t l = l\<lparr>ml_tasks := (ml_tasks l)[i := t]\<rparr>"

text \<open>The guarded deletion, with the outcome stored.\<close>

definition leave_line :: "nat \<Rightarrow> ('f, 'l) mutation \<Rightarrow> 'l result \<Rightarrow> ('f, 'l) mutation_line \<Rightarrow> ('f, 'l) mutation_line" where
  "leave_line i t r l = (update_task i (t\<lparr>mu_phase := Leaving, mu_outcome := Some r\<rparr>) l)
     \<lparr>ml_tail := (if ml_tail l = Some i then None else ml_tail l)\<rparr>"

text \<open>What task \<open>i\<close> does when it is scheduled; \<open>None\<close> while it cannot move.\<close>

definition run_mutation :: "nat \<Rightarrow> ('f, 'l) mutation_line \<Rightarrow> ('f, 'l) mutation_line option" where
  "run_mutation i l =
    (if i < length (ml_tasks l) then
       (let t = ml_tasks l ! i
        in case mu_phase t of
             WaitingTurn \<Rightarrow>
               if case mu_previous t of None \<Rightarrow> True | Some j \<Rightarrow> event_set l j
               then Some (update_task i (t\<lparr>mu_local := snd (mu_fn t), mu_phase := Mutating (fst (mu_fn t))\<rparr>) l) else None
           | Mutating [] \<Rightarrow> Some (leave_line i t (Inr (mu_local t)) l)
           | Mutating (a # as) \<Rightarrow>
               (case a (ml_file l) (mu_local t) of
                  (f, Inl e) \<Rightarrow> Some (leave_line i t (Inl e) (l\<lparr>ml_file := f\<rparr>))
                | (f, Inr v) \<Rightarrow> Some (update_task i (t\<lparr>mu_local := v, mu_phase := Mutating as\<rparr>) (l\<lparr>ml_file := f\<rparr>)))
           | Leaving \<Rightarrow> Some (update_task i (t\<lparr>mu_phase := Finished\<rparr>) l)
           | Finished \<Rightarrow> None)
     else None)"

inductive work_step :: "('f, 'l) mutation_line \<Rightarrow> ('f, 'l) mutation_line \<Rightarrow> bool" where
  work: "run_mutation i l = Some l' \<Longrightarrow> work_step l l'"

inductive line_step :: "('f, 'l) mutation_line \<Rightarrow> ('f, 'l) mutation_line \<Rightarrow> bool" where
  registered: "line_step l (register_mutation fn l)"
| worked: "work_step l l' \<Longrightarrow> line_step l l'"

inductive_cases work_stepE: "work_step l l'"
inductive_cases line_stepE: "line_step l l'"

definition empty_line :: "'f \<Rightarrow> ('f, 'l) mutation_line \<Rightarrow> bool" where
  "empty_line f l \<longleftrightarrow> ml_tasks l = [] \<and> ml_tail l = None \<and> ml_file l = f"

text \<open>\<open>join\<close>: the outcome, once the event is set.\<close>

definition join_mutation :: "nat \<Rightarrow> ('f, 'l) mutation_line \<Rightarrow> 'l result option" where
  "join_mutation i l = (if event_set l i then mu_outcome (ml_tasks l ! i) else None)"


subsection \<open>One mutation after the other\<close>

fun alone :: "('f, 'l) action list \<Rightarrow> 'f \<Rightarrow> 'l \<Rightarrow> 'f \<times> 'l result" where
  "alone [] f v = (f, Inr v)"
| "alone (a # as) f v = (case a f v of (f', Inl e) \<Rightarrow> (f', Inl e) | (f', Inr v') \<Rightarrow> alone as f' v')"

fun in_turn :: "('f, 'l) mutation_fn list \<Rightarrow> 'f \<Rightarrow> 'f \<times> 'l result list" where
  "in_turn [] f = (f, [])"
| "in_turn (fn # fns) f =
    (case alone (fst fn) f (snd fn) of (f', r) \<Rightarrow> case in_turn fns f' of (f'', rs) \<Rightarrow> (f'', r # rs))"

subsection \<open>The line\<close>

definition gone :: "('f, 'l) mutation \<Rightarrow> bool" where
  "gone t \<longleftrightarrow> mu_phase t = Leaving \<or> mu_phase t = Finished"

text \<open>
  The first \<open>p\<close> mutations are over, as if they had run one after the other; the next one is waiting or
  running, and all after it wait for the one before them.
\<close>

definition line_at :: "'f \<Rightarrow> nat \<Rightarrow> ('f, 'l) mutation_line \<Rightarrow> bool" where
  "line_at f0 p l \<longleftrightarrow>
    (let ts = ml_tasks l; n = length ts; t = ts ! p; before = in_turn (map mu_fn (take p ts)) f0
     in p \<le> n \<and> list_all gone (take p ts) \<and> map mu_outcome (take p ts) = map Some (snd before) \<and>
        (\<forall>i. p < i \<and> i < n \<longrightarrow> mu_phase (ts ! i) = WaitingTurn \<and> mu_previous (ts ! i) = Some (i - 1)) \<and>
        ml_tail l = (if p = n then None else Some (n - 1)) \<and>
        (if p = n then ml_file l = fst before
         else (mu_previous t = None \<or> (0 < p \<and> mu_previous t = Some (p - 1))) \<and>
           (case mu_phase t of
              WaitingTurn \<Rightarrow> ml_file l = fst before
            | Mutating as \<Rightarrow> alone as (ml_file l) (mu_local t) = alone (fst (mu_fn t)) (fst before) (snd (mu_fn t))
            | _ \<Rightarrow> False)))"

definition line_ok :: "'f \<Rightarrow> ('f, 'l) mutation_line \<Rightarrow> bool" where
  "line_ok f0 l \<longleftrightarrow> (\<exists>p. line_at f0 p l)"

lemma in_turn_snoc:
  "in_turn (fns @ [fn]) f = (fst (alone (fst fn) (fst (in_turn fns f)) (snd fn)),
     snd (in_turn fns f) @ [snd (alone (fst fn) (fst (in_turn fns f)) (snd fn))])"
  by (induction fns arbitrary: f) (auto split: prod.split)

lemma map_same_update: "g t = g (xs ! i) \<Longrightarrow> map g (xs[i := t]) = map g xs"
  by (metis list_update_id map_update)

lemma update_same_fields:
  assumes "mu_fn t = mu_fn (ts ! i)" "mu_outcome t = mu_outcome (ts ! i)"
  shows "map mu_fn (ts[i := t]) = map mu_fn ts" "map mu_outcome (ts[i := t]) = map mu_outcome ts"
    "map mu_fn (take p (ts[i := t])) = map mu_fn (take p ts)" "map mu_outcome (take p (ts[i := t])) = map mu_outcome (take p ts)"
  using map_same_update [of mu_fn t ts i] map_same_update [of mu_outcome t ts i] assms
  by (simp_all flip: take_map)

lemma line_at_register:
  assumes "line_at f0 p l"
  shows "line_at f0 p (register_mutation fn l)"
  using assms by (auto simp: line_at_def register_mutation_def Let_def nth_append less_Suc_eq split: if_splits phase.splits)

lemma line_at_before:
  assumes "line_at f0 p l" "i < p"
  shows "gone (ml_tasks l ! i)" "mu_outcome (ml_tasks l ! i) = Some (snd (in_turn (map mu_fn (take p (ml_tasks l))) f0) ! i)"
proof -
  let ?ts = "ml_tasks l"
  have m: "map mu_outcome (take p ?ts) = map Some (snd (in_turn (map mu_fn (take p ?ts)) f0))"
    and g: "list_all gone (take p ?ts)" and p: "p \<le> length ?ts" using assms(1) by (simp_all add: line_at_def Let_def)
  show "gone (?ts ! i)" using g p assms(2) by (simp add: list_all_length)
  have "length (take p ?ts) = length (snd (in_turn (map mu_fn (take p ?ts)) f0))"
    using arg_cong [OF m, of length] unfolding length_map .
  then show "mu_outcome (?ts ! i) = Some (snd (in_turn (map mu_fn (take p ?ts)) f0) ! i)"
    using arg_cong [OF m, of "\<lambda>xs. xs ! i"] p assms(2) by simp
qed

lemma line_at_leave:
  assumes at: "line_at f0 p l" and p: "p < length (ml_tasks l)" and t: "mu_fn t = mu_fn (ml_tasks l ! p)"
    and r: "(f, r) = alone (fst (mu_fn t)) (fst (in_turn (map mu_fn (take p (ml_tasks l))) f0)) (snd (mu_fn t))"
  shows "line_at f0 (Suc p) (leave_line p t r (l\<lparr>ml_file := f\<rparr>))"
proof -
  let ?t = "t\<lparr>mu_phase := Leaving, mu_outcome := Some r\<rparr>" and ?ts = "ml_tasks l"
  let ?l' = "leave_line p t r (l\<lparr>ml_file := f\<rparr>)" and ?before = "in_turn (map mu_fn (take p (ml_tasks l))) f0"
  have ts': "ml_tasks ?l' = ?ts[p := ?t]" and file': "ml_file ?l' = f"
    and tail': "ml_tail ?l' = (if ml_tail l = Some p then None else ml_tail l)"
    by (simp_all add: leave_line_def update_task_def)
  have prefix': "take (Suc p) (?ts[p := ?t]) = take p ?ts @ [?t]" using p by (simp add: take_Suc_conv_app_nth)
  have "alone (fst (mu_fn t)) (fst ?before) (snd (mu_fn t)) = (f, r)" using r by simp
  then have before': "in_turn (map mu_fn (take (Suc p) (?ts[p := ?t]))) f0 = (f, snd ?before @ [r])"
    unfolding prefix' by (simp add: in_turn_snoc)
  have next': "mu_phase (?ts ! Suc p) = WaitingTurn" "mu_previous (?ts ! Suc p) = Some p" if "Suc p < length ?ts"
    using at that by (simp_all add: line_at_def Let_def)
  show ?thesis
    unfolding line_at_def Let_def ts' file' tail' before'
  proof (intro conjI)
    show "map mu_outcome (take (Suc p) (?ts[p := ?t])) = map Some (snd (f, snd ?before @ [r]))"
      "list_all gone (take (Suc p) (?ts[p := ?t]))"
      using at unfolding prefix' by (simp_all add: line_at_def Let_def gone_def)
    show "(if ml_tail l = Some p then None else ml_tail l) = (if Suc p = length (?ts[p := ?t]) then None else Some (length (?ts[p := ?t]) - 1))"
      using at p by (auto simp: line_at_def Let_def)
    show "\<forall>i. Suc p < i \<and> i < length (?ts[p := ?t]) \<longrightarrow>
        mu_phase (?ts[p := ?t] ! i) = WaitingTurn \<and> mu_previous (?ts[p := ?t] ! i) = Some (i - 1)"
      using at by (simp add: line_at_def Let_def)
  qed (use p next' in \<open>auto simp: not_less\<close>)
qed

lemma line_at_work:
  assumes at: "line_at f0 p l" and step: "run_mutation i l = Some l'"
  shows "line_ok f0 l'"
proof -
  let ?ts = "ml_tasks l" and ?t = "ml_tasks l ! i"
  from step have i: "i < length ?ts" by (simp add: run_mutation_def split: if_splits)
  consider "i < p" | "i = p" | "p < i" by linarith
  then show ?thesis
  proof cases
    case 1
    with at have "gone ?t" by (simp add: line_at_def Let_def list_all_length)
    with step i have l': "l' = update_task i (?t\<lparr>mu_phase := Finished\<rparr>) l"
      by (auto simp: run_mutation_def gone_def Let_def)
    have "list_all gone (take p (?ts[i := ?t\<lparr>mu_phase := Finished\<rparr>]))"
      using at i by (auto simp: line_at_def Let_def list_all_length gone_def nth_list_update)
    have other: "?ts[i := ?t\<lparr>mu_phase := Finished\<rparr>] ! k = ?ts ! k" if "p \<le> k" for k
      using 1 that by simp
    have "line_at f0 p l' = line_at f0 p l"
      using \<open>list_all gone (take p _)\<close> at
      unfolding line_at_def Let_def l' update_task_def by (simp add: update_same_fields other cong: phase.case_cong)
    with at have "line_at f0 p l'" by simp
    then show ?thesis by (auto simp: line_ok_def)
  next
    case 2
    with i have t: "p < length ?ts" by simp
    show ?thesis
    proof (cases "mu_phase ?t")
      case WaitingTurn
      with step i have l': "l' = update_task i (?t\<lparr>mu_local := snd (mu_fn ?t), mu_phase := Mutating (fst (mu_fn ?t))\<rparr>) l"
        by (auto simp: run_mutation_def Let_def split: if_splits)
      from at t WaitingTurn 2 have "line_at f0 p l'"
        unfolding line_at_def Let_def l' update_task_def by (simp add: update_same_fields)
      then show ?thesis by (auto simp: line_ok_def)
    next
      case (Mutating as)
      with at t 2 have rest: "alone as (ml_file l) (mu_local ?t) =
          alone (fst (mu_fn ?t)) (fst (in_turn (map mu_fn (take p ?ts)) f0)) (snd (mu_fn ?t))"
        by (simp add: line_at_def Let_def)
      have leave: "line_ok f0 (leave_line i ?t r (l\<lparr>ml_file := f\<rparr>))" if "alone as (ml_file l) (mu_local ?t) = (f, r)" for f r
        using line_at_leave [OF at t, of ?t f r] that rest 2 by (auto simp: line_ok_def)
      show ?thesis
      proof (cases as)
        case Nil
        with leave [of "ml_file l" "Inr (mu_local ?t)"] step i Mutating show ?thesis
          by (simp add: run_mutation_def Let_def)
      next
        case (Cons a as')
        obtain f r where a: "a (ml_file l) (mu_local ?t) = (f, r)" by force
        show ?thesis
        proof (cases r)
          case (Inl e)
          with leave [of f "Inl e"] step i Mutating Cons a show ?thesis by (simp add: run_mutation_def Let_def)
        next
          case (Inr v)
          with step i Mutating Cons a have l': "l' = update_task i (?t\<lparr>mu_local := v, mu_phase := Mutating as'\<rparr>) (l\<lparr>ml_file := f\<rparr>)"
            by (simp add: run_mutation_def Let_def)
          from rest Cons a Inr have "alone as' f v =
              alone (fst (mu_fn ?t)) (fst (in_turn (map mu_fn (take p ?ts)) f0)) (snd (mu_fn ?t))" by simp
          with at t 2 Mutating have "line_at f0 p l'"
            unfolding line_at_def Let_def l' update_task_def by (simp add: update_same_fields)
          then show ?thesis by (auto simp: line_ok_def)
        qed
      qed
    qed (use at t 2 in \<open>simp_all add: line_at_def Let_def\<close>)
  next
    case 3
    then have waits: "mu_phase (?ts ! k) = WaitingTurn \<and> mu_previous (?ts ! k) = Some (k - 1)" if "p < k" "k < length ?ts" for k
      using at that by (simp add: line_at_def Let_def)
    have "mu_phase (?ts ! (i - 1)) \<noteq> Finished"
    proof (cases "i - 1 = p")
      case True
      with at 3 i show ?thesis by (auto simp: line_at_def Let_def)
    qed (use waits [of "i - 1"] 3 i in auto)
    moreover have "mu_phase ?t = WaitingTurn" "mu_previous ?t = Some (i - 1)" using waits 3 i by auto
    ultimately have "\<not> event_set l (i - 1)" "mu_phase ?t = WaitingTurn" "mu_previous ?t = Some (i - 1)"
      by (simp_all add: event_set_def)
    with step i show ?thesis by (simp add: run_mutation_def Let_def)
  qed
qed


interpretation mutation_line: invariant_system "empty_line f0" line_step "line_ok f0"
proof
  fix l :: "('a, 'b) mutation_line"
  show "empty_line f0 l \<Longrightarrow> line_ok f0 l"
    by (auto simp: empty_line_def line_ok_def line_at_def)
next
  fix l l' :: "('a, 'b) mutation_line"
  show "line_ok f0 l \<Longrightarrow> line_step l l' \<Longrightarrow> line_ok f0 l'"
    by (auto simp: line_ok_def elim!: line_stepE work_stepE intro: line_at_register line_at_work [unfolded line_ok_def])
qed

text \<open>What is left to do.\<close>

fun phase_work :: "('f, 'l) mutation \<Rightarrow> nat" where
  "phase_work t = (case mu_phase t of
       WaitingTurn \<Rightarrow> length (fst (mu_fn t)) + 3 | Mutating as \<Rightarrow> length as + 2 | Leaving \<Rightarrow> 1 | Finished \<Rightarrow> 0)"

definition line_work :: "('f, 'l) mutation_line \<Rightarrow> nat" where
  "line_work l = sum_list (map phase_work (ml_tasks l))"

lemma sum_list_smaller: "i < length xs \<Longrightarrow> g t < g (xs ! i) \<Longrightarrow> sum_list (map g (xs[i := t])) < sum_list (map g xs)" for g :: "'a \<Rightarrow> nat"
  by (induction xs arbitrary: i) (auto split: nat.split)

lemma work_decreases: "run_mutation i l = Some l' \<Longrightarrow> line_work l' < line_work l"
  by (auto simp: run_mutation_def line_work_def leave_line_def update_task_def Let_def intro!: sum_list_smaller
    split: if_splits phase.splits list.splits prod.splits sum.splits)

lemma some_task_moves:
  assumes "line_ok f0 l" "i < length (ml_tasks l)" "mu_phase (ml_tasks l ! i) \<noteq> Finished"
  shows "\<exists>l'. work_step l l'"
proof -
  from assms(1) obtain p where at: "line_at f0 p l" by (auto simp: line_ok_def)
  have leaving: "\<exists>l'. work_step l l'" if "k < p" "mu_phase (ml_tasks l ! k) \<noteq> Finished" for k
  proof -
    from that line_at_before(1) [OF at that(1)] at have "mu_phase (ml_tasks l ! k) = Leaving" "k < length (ml_tasks l)"
      by (auto simp: line_at_def Let_def gone_def)
    then have "\<exists>l'. run_mutation k l = Some l'" by (simp add: run_mutation_def Let_def)
    then show ?thesis by (blast intro: work_step.intros)
  qed
  show ?thesis
  proof (cases "\<exists>k < p. mu_phase (ml_tasks l ! k) \<noteq> Finished")
    case False
    with assms(2,3) have "p \<le> i" by (meson not_le)
    with at assms(2) have p: "p < length (ml_tasks l)" by simp
    let ?t = "ml_tasks l ! p"
    from at p have "mu_previous ?t = None \<or> (0 < p \<and> mu_previous ?t = Some (p - 1))" by (simp add: line_at_def Let_def)
    then have go: "case mu_previous ?t of None \<Rightarrow> True | Some j \<Rightarrow> event_set l j"
      using False p by (auto simp: event_set_def)
    have "\<exists>l'. run_mutation p l = Some l'"
    proof (cases "mu_phase ?t")
      case WaitingTurn
      with go p show ?thesis by (simp add: run_mutation_def Let_def)
    next
      case (Mutating as)
      with p show ?thesis by (auto simp: run_mutation_def Let_def split: list.split prod.split sum.split)
    qed (use at p in \<open>simp_all add: line_at_def Let_def\<close>)
    then show ?thesis by (blast intro: work_step.intros)
  qed (use leaving in blast)
qed

text \<open>
  C28. Mutations of one file take turns: at every moment at most one of them is running, and what is
  over has happened as if the mutations had run one after the other, each from start to end, in the
  order in which they were registered: the file, when none is running, and the outcome each caller
  is given, an error included.
\<close>

theorem mutations_take_turns:
  assumes "reachable (empty_line f0) line_step l"
  shows "\<exists>p \<le> length (ml_tasks l). let before = in_turn (map mu_fn (take p (ml_tasks l))) f0 in
    (\<forall>i < length (ml_tasks l). (i < p \<longrightarrow> mu_outcome (ml_tasks l ! i) = Some (snd before ! i)) \<and>
       (p < i \<longrightarrow> mu_phase (ml_tasks l ! i) = WaitingTurn) \<and> (\<forall>as. mu_phase (ml_tasks l ! i) = Mutating as \<longrightarrow> i = p)) \<and>
    ((\<forall>i < length (ml_tasks l). \<forall>as. mu_phase (ml_tasks l ! i) \<noteq> Mutating as) \<longrightarrow> ml_file l = fst before) \<and>
    (\<forall>i r. join_mutation i l = Some r \<longrightarrow> i < p \<and> r = snd before ! i)"
proof -
  from mutation_line.reachable_inv [OF assms] obtain p where at: "line_at f0 p l" by (auto simp: line_ok_def)
  let ?ts = "ml_tasks l"
  let ?before = "in_turn (map mu_fn (take p ?ts)) f0"
  have p: "p \<le> length ?ts" using at by (simp add: line_at_def Let_def)
  note out = line_at_before(2) [OF at] and gone = line_at_before(1) [OF at]
  have wait: "mu_phase (?ts ! i) = WaitingTurn" if "p < i" "i < length ?ts" for i
    using at that by (simp add: line_at_def Let_def)
  have only: "i = p" if "i < length ?ts" "mu_phase (?ts ! i) = Mutating as" for i as
    using gone [of i] wait [of i] that by (cases i p rule: linorder_cases) (auto simp: gone_def)
  have idle: "ml_file l = fst ?before" if "\<forall>i < length ?ts. \<forall>as. mu_phase (?ts ! i) \<noteq> Mutating as"
    using at that p by (cases "p = length ?ts") (auto simp: line_at_def Let_def split: phase.splits)
  have not_finished: "mu_phase (?ts ! p) \<noteq> Finished" if "p < length ?ts"
    using at that by (auto simp: line_at_def Let_def)
  have join: "i < p \<and> r = snd ?before ! i" if "join_mutation i l = Some r" for i r
  proof -
    from that have "i < length ?ts" "mu_phase (?ts ! i) = Finished" "mu_outcome (?ts ! i) = Some r"
      by (auto simp: join_mutation_def event_set_def split: if_splits)
    with wait [of i] not_finished out [of i] show ?thesis by (cases i p rule: linorder_cases) auto
  qed
  show ?thesis
    unfolding Let_def using p out wait only idle join by (intro exI [of _ p] conjI allI impI) blast+
qed

text \<open>
  C36. No place in line is left behind: whatever was registered, some mutation can move until all have
  ended, and every way of running them ends all of them within a bounded number of steps.
\<close>

theorem every_mutation_ends:
  assumes "reachable (empty_line f0) line_step l"
  shows "(\<forall>n l'. (work_step ^^ n) l l' \<longrightarrow> n \<le> line_work l) \<and>
    (\<forall>l'. work_step\<^sup>*\<^sup>* l l' \<and> (\<nexists>l''. work_step l' l'') \<longrightarrow>
       (\<forall>i < length (ml_tasks l'). join_mutation i l' \<noteq> None))"
proof (intro conjI allI impI)
  fix n l'
  have "(work_step ^^ n) l l' \<Longrightarrow> line_work l' + n \<le> line_work l" for n l'
  proof (induction n arbitrary: l')
    case (Suc n)
    then obtain m where m: "(work_step ^^ n) l m" "work_step m l'" by auto
    then have "line_work l' < line_work m" by (auto elim: work_stepE dest: work_decreases)
    with Suc.IH [OF m(1)] show ?case by simp
  qed simp
  then show "(work_step ^^ n) l l' \<Longrightarrow> n \<le> line_work l" by fastforce
next
  fix l' i
  assume run: "work_step\<^sup>*\<^sup>* l l' \<and> (\<nexists>l''. work_step l' l'')" and i: "i < length (ml_tasks l')"
  have "line_step\<^sup>*\<^sup>* l l'" using conjunct1 [OF run]
    by (induction rule: rtranclp_induct) (auto intro: rtranclp.rtrancl_into_rtrancl line_step.worked)
  with mutation_line.reachable_inv [OF assms] have ok: "line_ok f0 l'" by (rule mutation_line.steps_inv [rotated])
  with some_task_moves [OF ok i] run have fin: "mu_phase (ml_tasks l' ! i) = Finished" by blast
  from ok obtain p where at: "line_at f0 p l'" by (auto simp: line_ok_def)
  have "i < p" using at i fin by (cases i p rule: linorder_cases) (auto simp: line_at_def Let_def)
  then have "mu_outcome (ml_tasks l' ! i) \<noteq> None" using line_at_before(2) [OF at] by simp
  with i fin show "join_mutation i l' \<noteq> None" by (simp add: join_mutation_def event_set_def)
qed


subsection \<open>Example\<close>

text \<open>A schedule: registrations, and turns given to tasks.\<close>

fun play :: "(('f, 'l) mutation_fn + nat) list \<Rightarrow> ('f, 'l) mutation_line \<Rightarrow> ('f, 'l) mutation_line option" where
  "play [] l = Some l"
| "play (Inl fn # es) l = play es (register_mutation fn l)"
| "play (Inr i # es) l = (case run_mutation i l of None \<Rightarrow> None | Some l' \<Rightarrow> play es l')"

lemma play_steps: "play es l = Some l' \<Longrightarrow> line_step\<^sup>*\<^sup>* l l'"
  by (induction es l rule: play.induct)
    (auto split: option.splits intro: converse_rtranclp_into_rtranclp line_step.intros work_step.intros)

text \<open>Read, then write with one number more; the second one raises after it has written.\<close>

definition adding :: "nat \<Rightarrow> bool \<Rightarrow> (nat list, nat list) mutation_fn" where
  "adding x fails = ([\<lambda>f v. (f, Inr f), \<lambda>f v. (v @ [x], if fails then Inl [x] else Inr (v @ [x]))], [])"

definition example_start :: "(nat list, nat list) mutation_line" where
  "example_start = \<lparr>ml_tasks = [], ml_tail = None, ml_file = []\<rparr>"

definition example_line :: "(nat list, nat list) mutation_line" where
  "example_line = the (play [Inl (adding 1 False), Inr 0, Inr 0, Inl (adding 2 True), Inr 0, Inr 0, Inr 0, Inr 1, Inr 1, Inr 1,
     Inl (adding 3 False), Inr 2, Inr 1] example_start)"

lemmas play_eval = run_mutation_def register_mutation_def update_task_def leave_line_def adding_def event_set_def Let_def

lemma example_plays:
  "play [Inl (adding 1 False), Inr 0, Inr 0, Inl (adding 2 True), Inr 0, Inr 0, Inr 0, Inr 1, Inr 1, Inr 1,
     Inl (adding 3 False), Inr 2, Inr 1] example_start = Some example_line"
  "ml_file example_line = [1, 2]" "map mu_outcome (ml_tasks example_line) = [Some (Inr [1]), Some (Inl [2]), None]"
  "map mu_previous (ml_tasks example_line) = [None, Some 0, None]"
  by (simp_all add: example_line_def example_start_def play_eval)

lemma example_reachable: "reachable (empty_line []) line_step example_line"
proof -
  have "empty_line [] example_start" by (simp add: empty_line_def example_start_def)
  with play_steps [OF example_plays(1)] show ?thesis by (auto simp: reachable_def)
qed

theorem mutations_take_turns_witness:
  "\<exists>p \<le> length (ml_tasks example_line). let before = in_turn (map mu_fn (take p (ml_tasks example_line))) [] in
    (\<forall>i r. join_mutation i example_line = Some r \<longrightarrow> i < p \<and> r = snd before ! i)"
  using mutations_take_turns [OF example_reachable] unfolding Let_def by blast

theorem every_mutation_ends_witness: "\<nexists>l'. (work_step ^^ 5) example_line l'"
proof
  assume "\<exists>l'. (work_step ^^ 5) example_line l'"
  then obtain l' where "(work_step ^^ 5) example_line l'" ..
  moreover have "line_work example_line = 4" by (simp add: line_work_def example_line_def example_start_def play_eval)
  ultimately show False using every_mutation_ends [OF example_reachable] by fastforce
qed

end
