(* ===== verification/Edit_Queue.thy ===== *)
theory Edit_Queue
  imports Edit_Laws Mutation_Queue
begin

section \<open>Concurrent edits of one file\<close>

text \<open>
  The edit tool in the mutation queue: the read and the write of a call are two actions, and other
  tasks run between them. The file is accessible, reads and writes succeed and nobody cancels.
\<close>

definition readable :: "pystr \<Rightarrow> edit_io" where
  "readable raw = \<lparr>eo_access = None, eo_read = Inr raw, eo_write = None, eo_cancelled = (\<lambda>_. False)\<rparr>"

text \<open>A call, as its \<open>execute\<close> hands it to the queue: the variable is the text that was read, then the text of the result.\<close>

definition edit_mutation :: "(pystr \<Rightarrow> pystr) \<Rightarrow> edit list \<times> pystr \<Rightarrow> (pystr, pystr) mutation_fn" where
  "edit_mutation nfkc call =
    ([\<lambda>disk v. (disk, Inr disk),
      \<lambda>disk v. (case edit_file nfkc (readable v) (fst call) (snd call) of (w, r) \<Rightarrow> (case_option disk (\<lambda>x. x) w, r))], [])"

text \<open>A call on its own.\<close>

definition edit_now :: "(pystr \<Rightarrow> pystr) \<Rightarrow> pystr \<Rightarrow> edit list \<times> pystr \<Rightarrow> pystr" where
  "edit_now nfkc disk call = case_option disk (\<lambda>x. x) (fst (edit_file nfkc (readable disk) (fst call) (snd call)))"

lemma edit_alone:
  "alone (fst (edit_mutation nfkc call)) disk (snd (edit_mutation nfkc call)) =
     (edit_now nfkc disk call, snd (edit_file nfkc (readable disk) (fst call) (snd call)))"
  by (simp add: edit_mutation_def edit_now_def split: prod.split sum.split)

lemma edits_in_turn:
  "fst (in_turn (map (edit_mutation nfkc) calls) disk) = foldl (edit_now nfkc) disk calls"
  "k < length calls \<Longrightarrow> snd (in_turn (map (edit_mutation nfkc) calls) disk) ! k =
     snd (edit_file nfkc (readable (foldl (edit_now nfkc) disk (take k calls))) (fst (calls ! k)) (snd (calls ! k)))"
proof (induction calls arbitrary: disk k)
  case (Cons c cs)
  case 1
  show ?case using Cons.IH(1) by (simp add: edit_alone case_prod_beta)
  case 2
  then show ?case using Cons.IH(2) by (cases k) (simp_all add: edit_alone case_prod_beta)
qed simp_all

text \<open>
  C14. Edits of one file that are called concurrently lose nothing: when all have ended, the file is what
  applying them one by one gives, in the order in which they were called, each to what its predecessor
  left, and each caller is told what its own edit did.
\<close>

theorem concurrent_edits_all_apply:
  assumes "reachable (empty_line disk) line_step l" "map mu_fn (ml_tasks l) = map (edit_mutation nfkc) calls"
    "\<forall>k < length calls. join_mutation k l \<noteq> None"
  shows "ml_file l = foldl (edit_now nfkc) disk calls \<and>
    (\<forall>k < length calls. join_mutation k l = Some (snd (edit_file nfkc
       (readable (foldl (edit_now nfkc) disk (take k calls))) (fst (calls ! k)) (snd (calls ! k)))))"
proof -
  from mutation_line.reachable_inv [OF assms(1)] obtain p where at: "line_at disk p l" by (auto simp: line_ok_def)
  have n: "length (ml_tasks l) = length calls" using arg_cong [OF assms(2), of length] by simp
  have fin: "event_set l k" if "k < length calls" for k
    using assms(3) that by (auto simp: join_mutation_def split: if_splits)
  have "p = length (ml_tasks l)"
  proof (rule ccontr)
    assume "p \<noteq> length (ml_tasks l)"
    with at have "p < length (ml_tasks l)" "mu_phase (ml_tasks l ! p) \<noteq> Finished" by (auto simp: line_at_def Let_def)
    with fin [of p] n show False by (simp add: event_set_def)
  qed
  with at have p: "line_at disk (length calls) l" "take (length calls) (ml_tasks l) = ml_tasks l" using n by auto
  have "ml_file l = foldl (edit_now nfkc) disk calls"
    using p n assms(2) by (simp add: line_at_def Let_def edits_in_turn(1))
  moreover have "join_mutation k l = Some (snd (edit_file nfkc
      (readable (foldl (edit_now nfkc) disk (take k calls))) (fst (calls ! k)) (snd (calls ! k))))" if "k < length calls" for k
    using fin [OF that] line_at_before(2) [OF p(1) that] edits_in_turn(2) [OF that, of nfkc disk]
    unfolding p(2) assms(2) by (simp add: join_mutation_def)
  ultimately show ?thesis by blast
qed

text \<open>Two calls: the second registers while the first one has read and not yet written.\<close>

definition two_calls :: "(edit list \<times> pystr) list" where
  "two_calls = [([\<lparr>ed_old = lit ''a'', ed_new = lit ''b''\<rparr>], lit ''f''), ([\<lparr>ed_old = lit ''c'', ed_new = lit ''d''\<rparr>], lit ''f'')]"

definition two_edits :: "(pystr, pystr) mutation_line" where
  "two_edits = the (play [Inl (edit_mutation (\<lambda>t. t) (two_calls ! 0)), Inr 0, Inr 0, Inl (edit_mutation (\<lambda>t. t) (two_calls ! 1)),
     Inr 0, Inr 0, Inr 0, Inr 1, Inr 1, Inr 1, Inr 1, Inr 1] \<lparr>ml_tasks = [], ml_tail = None, ml_file = lit ''ac''\<rparr>)"

lemmas edit_call_eval = edit_eval edit_file_def readable_def two_calls_def nat_digits.simps

lemma first_call: "edit_file (\<lambda>t. t) (readable (lit ''ac'')) (fst (two_calls ! 0)) (snd (two_calls ! 0)) =
    (Some (lit ''bc''), Inr (lit ''Successfully replaced 1 block(s) in f.''))"
  by (simp add: edit_call_eval)

lemma second_call: "edit_file (\<lambda>t. t) (readable (lit ''bc'')) (fst (two_calls ! 1)) (snd (two_calls ! 1)) =
    (Some (lit ''bd''), Inr (lit ''Successfully replaced 1 block(s) in f.''))"
  by (simp add: edit_call_eval)

lemma two_edits_play:
  "play [Inl (edit_mutation (\<lambda>t. t) (two_calls ! 0)), Inr 0, Inr 0, Inl (edit_mutation (\<lambda>t. t) (two_calls ! 1)),
     Inr 0, Inr 0, Inr 0, Inr 1, Inr 1, Inr 1, Inr 1, Inr 1] \<lparr>ml_tasks = [], ml_tail = None, ml_file = lit ''ac''\<rparr> = Some two_edits"
  "map mu_fn (ml_tasks two_edits) = map (edit_mutation (\<lambda>t. t)) two_calls"
  "join_mutation 0 two_edits \<noteq> None" "join_mutation 1 two_edits \<noteq> None"
  using first_call second_call
  by (simp_all add: two_edits_def run_mutation_def register_mutation_def update_task_def leave_line_def event_set_def
    edit_mutation_def join_mutation_def Let_def) (simp add: two_calls_def edit_mutation_def)

theorem concurrent_edits_all_apply_witness: "ml_file two_edits = lit ''bd''"
proof -
  have "reachable (empty_line (lit ''ac'')) line_step two_edits"
    unfolding reachable_def by (rule exI, rule conjI [OF _ play_steps [OF two_edits_play(1)]]) (simp add: empty_line_def)
  moreover have "\<forall>k < length two_calls. join_mutation k two_edits \<noteq> None"
    using two_edits_play(3,4) by (auto simp: two_calls_def less_Suc_eq)
  ultimately have "ml_file two_edits = foldl (edit_now (\<lambda>t. t)) (lit ''ac'') two_calls"
    using concurrent_edits_all_apply [OF _ two_edits_play(2)] by blast
  moreover have "foldl g d two_calls = g (g d (two_calls ! 0)) (two_calls ! 1)" for g :: "pystr \<Rightarrow> _" and d
    by (simp add: two_calls_def)
  ultimately show ?thesis by (simp add: edit_now_def first_call second_call del: One_nat_def)
qed

end
