(* ===== verification/Sse.thy ===== *)
theory Sse
  imports Prelude
begin

section \<open>Server-sent events (ai/utils/sse.py)\<close>

text \<open>
  The incremental decoder of an event stream. A chunk is the text the incremental UTF-8 decoder of
  the standard library gives for a chunk of bytes, and the tail is what it gives at the end.
\<close>

subsection \<open>Lines\<close>

definition next_line_break_index :: "pystr \<Rightarrow> nat option" where
  "next_line_break_index text =
    (case (str_find [CR] text, str_find [NL] text) of
       (None, n) \<Rightarrow> n
     | (c, None) \<Rightarrow> c
     | (Some c, Some n) \<Rightarrow> Some (min c n))"

definition consume_line :: "pystr \<Rightarrow> (pystr \<times> pystr) option" where
  "consume_line text =
    (case next_line_break_index text of
       None \<Rightarrow> None
     | Some i \<Rightarrow>
         let after = i + 1;
             after' = (if text ! i = CR \<and> after < length text \<and> text ! after = NL then after + 1 else after)
         in Some (take i text, drop after' text))"

subsection \<open>Events\<close>

record sse_event =
  se_event :: "pystr option"
  se_data :: pystr
  se_raw :: "pystr list"

record sse_state =
  sd_event :: "pystr option"
  sd_data :: "pystr list"
  sd_raw :: "pystr list"

definition sse_start :: sse_state where
  "sse_start = \<lparr>sd_event = None, sd_data = [], sd_raw = []\<rparr>"

definition flush_sse_event :: "sse_state \<Rightarrow> sse_state \<times> sse_event option" where
  "flush_sse_event st =
    (if (sd_event st = None \<or> sd_event st = Some []) \<and> sd_data st = [] then (st, None)
     else (sse_start, Some \<lparr>se_event = sd_event st, se_data = str_join [NL] (sd_data st), se_raw = sd_raw st\<rparr>))"

definition colon :: nat where "colon = 58"

definition decode_sse_line :: "pystr \<Rightarrow> sse_state \<Rightarrow> sse_state \<times> sse_event option" where
  "decode_sse_line line st =
    (if line = [] then flush_sse_event st
     else let st1 = st\<lparr>sd_raw := sd_raw st @ [line]\<rparr>
     in if hd line = colon then (st1, None)
        else let delimiter = str_find [colon] line;
                 field_name = (case delimiter of None \<Rightarrow> line | Some i \<Rightarrow> take i line);
                 raw_value = (case delimiter of None \<Rightarrow> [] | Some i \<Rightarrow> drop (i + 1) line);
                 field_value = (case raw_value of c # cs \<Rightarrow> if c = 32 then cs else raw_value | [] \<Rightarrow> [])
             in if field_name = lit ''event'' then (st1\<lparr>sd_event := Some field_value\<rparr>, None)
                else if field_name = lit ''data'' then (st1\<lparr>sd_data := sd_data st1 @ [field_value]\<rparr>, None)
                else (st1, None))"

subsection \<open>The stream\<close>

lemma find_char_less: "str_find [c] s = Some k \<Longrightarrow> k < length s"
  using str_find_Some_split [of "[c]" s k] by simp

lemma break_index_less: "next_line_break_index s = Some i \<Longrightarrow> i < length s"
  by (auto simp: next_line_break_index_def min_def dest: find_char_less split: option.splits if_splits)

lemma consume_shorter: "consume_line text = Some (line, rest) \<Longrightarrow> length rest < length text"
  using break_index_less by (fastforce simp: consume_line_def Let_def split: option.splits)

text \<open>The inner loop: the events of the complete lines of the buffer, and what is left of it.\<close>

function decode_buffer :: "pystr \<Rightarrow> sse_state \<Rightarrow> sse_event list \<times> sse_state \<times> pystr" where
  "decode_buffer buffer st =
    (case consume_line buffer of
       None \<Rightarrow> ([], st, buffer)
     | Some (line, rest) \<Rightarrow>
         (case decode_sse_line line st of (st1, e) \<Rightarrow>
            (case decode_buffer rest st1 of (events, st2, left) \<Rightarrow> (case_option [] (\<lambda>x. [x]) e @ events, st2, left))))"
  by pat_completeness auto
termination by (relation "measure (\<lambda>(buffer, st). length buffer)") (auto simp: consume_shorter)

declare decode_buffer.simps [simp del]

text \<open>The end of the stream.\<close>

definition finish_stream :: "pystr \<Rightarrow> sse_state \<Rightarrow> sse_event list" where
  "finish_stream buffer st =
    (case decode_buffer buffer st of (events, st1, left) \<Rightarrow>
       (case (if left = [] then (st1, None) else decode_sse_line left st1) of (st2, e) \<Rightarrow>
          events @ case_option [] (\<lambda>x. [x]) e @ case_option [] (\<lambda>x. [x]) (snd (flush_sse_event st2))))"

text \<open>\<open>cancelled k\<close>: the cancel token before chunk \<open>k\<close> is taken. The events, and the error raised after them.\<close>

fun sse_chunks :: "(nat \<Rightarrow> bool) \<Rightarrow> nat \<Rightarrow> pystr list \<Rightarrow> pystr \<Rightarrow> pystr \<Rightarrow> sse_state \<Rightarrow> sse_event list \<times> pystr option" where
  "sse_chunks cancelled k [] end_text buffer st =
     (if cancelled k then ([], Some (lit ''Request was aborted'')) else (finish_stream (buffer @ end_text) st, None))"
| "sse_chunks cancelled k (chunk # chunks) end_text buffer st =
     (if cancelled k then ([], Some (lit ''Request was aborted''))
      else case decode_buffer (buffer @ chunk) st of (events, st1, left) \<Rightarrow>
        (case sse_chunks cancelled (k + 1) chunks end_text left st1 of (rest, r) \<Rightarrow> (events @ rest, r)))"

definition iterate_sse_messages :: "(nat \<Rightarrow> bool) \<Rightarrow> pystr list \<Rightarrow> pystr \<Rightarrow> sse_event list \<times> pystr option" where
  "iterate_sse_messages cancelled chunks end_text = sse_chunks cancelled 0 chunks end_text [] sse_start"

subsection \<open>Chunks do not matter\<close>

text \<open>No line break CR LF lies across the end of \<open>a\<close>.\<close>

definition no_split_break :: "pystr \<Rightarrow> pystr \<Rightarrow> bool" where
  "no_split_break a b \<longleftrightarrow> \<not> (a \<noteq> [] \<and> last a = CR \<and> b \<noteq> [] \<and> hd b = NL)"

lemma find_char_append: "str_find [c] (a @ b) = (case str_find [c] a of Some i \<Rightarrow> Some i | None \<Rightarrow> map_option ((+) (length a)) (str_find [c] b))"
proof (induction a)
  case Nil
  show ?case by (cases "str_find [c] b") auto
next
  case (Cons x xs)
  then show ?case by (cases "str_find [c] xs"; cases "str_find [c] b") auto
qed

lemma break_index_append: "next_line_break_index a = Some i \<Longrightarrow> next_line_break_index (a @ b) = Some i"
  by (cases "str_find [CR] a"; cases "str_find [NL] a"; cases "str_find [CR] b"; cases "str_find [NL] b")
    (auto simp: next_line_break_index_def find_char_append dest: find_char_less)

lemma consume_append:
  assumes "consume_line a = Some (line, rest)" "no_split_break a b"
  shows "consume_line (a @ b) = Some (line, rest @ b) \<and> no_split_break rest b"
proof -
  from assms(1) obtain i where i: "next_line_break_index a = Some i"
    and out: "line = take i a" "rest = drop (if a ! i = CR \<and> i + 1 < length a \<and> a ! (i + 1) = NL then i + 2 else i + 1) a"
    by (auto simp: consume_line_def Let_def split: option.splits)
  note il = break_index_less [OF i]
  have join: "(a @ b) ! i = CR \<and> i + 1 < length (a @ b) \<and> (a @ b) ! (i + 1) = NL \<longleftrightarrow> a ! i = CR \<and> i + 1 < length a \<and> a ! (i + 1) = NL"
  proof (cases "i + 1 < length a")
    case True
    with il show ?thesis by (auto simp: nth_append)
  next
    case False
    with il have "Suc i = length a" "a \<noteq> []" by auto
    moreover from this have "last a = a ! i" by (simp add: last_conv_nth flip: \<open>Suc i = length a\<close>)
    ultimately show ?thesis using assms(2) il by (auto simp: no_split_break_def nth_append hd_conv_nth)
  qed
  have "consume_line (a @ b) = Some (line, rest @ b)"
    unfolding consume_line_def break_index_append [OF i] Let_def option.case using il join out by auto
  moreover have "no_split_break rest b"
    using assms(2) unfolding no_split_break_def out(2) by (auto simp: last_drop)
  ultimately show ?thesis by blast
qed

lemma decode_buffer_append:
  "no_split_break a b \<Longrightarrow> decode_buffer a st = (events, st1, left) \<Longrightarrow>
   decode_buffer (a @ b) st = (case decode_buffer (left @ b) st1 of (rest, st2, left') \<Rightarrow> (events @ rest, st2, left'))"
proof (induction a st arbitrary: events st1 left rule: decode_buffer.induct)
  case (1 a st)
  show ?case
  proof (cases "consume_line a")
    case None
    with 1(3) show ?thesis by (simp add: decode_buffer.simps [of a] split: prod.split)
  next
    case (Some lr)
    obtain line rest where lr: "lr = (line, rest)" by force
    obtain s e where d: "decode_sse_line line st = (s, e)" by force
    obtain es s2 l where b: "decode_buffer rest s = (es, s2, l)" by (rule prod_cases3)
    note app = consume_append [OF Some [unfolded lr] 1(2)]
    from 1(1) [OF Some lr [symmetric] d [symmetric] conjunct2 [OF app] b] 1(3) Some lr d b app show ?thesis
      by (auto simp: decode_buffer.simps [of a] decode_buffer.simps [of "a @ b"] split: prod.split)
  qed
qed

fun breaks_kept :: "pystr list \<Rightarrow> bool" where
  "breaks_kept [] \<longleftrightarrow> True"
| "breaks_kept (c # cs) \<longleftrightarrow> no_split_break c (concat cs) \<and> breaks_kept cs"

lemma left_no_break:
  "decode_buffer a st = (events, st1, left) \<Longrightarrow> consume_line left = None"
proof (induction a st arbitrary: events rule: decode_buffer.induct)
  case (1 a st)
  then show ?case
    by (auto simp: decode_buffer.simps [of a] split: option.splits prod.splits)
qed

lemma find_char_None: "str_find [c] s = None \<longleftrightarrow> c \<notin> set s"
  by (induction s) auto

lemma break_index_None: "next_line_break_index s = None \<longleftrightarrow> CR \<notin> set s \<and> NL \<notin> set s"
  using find_char_None [of CR s] find_char_None [of NL s]
  by (cases "str_find [CR] s"; cases "str_find [NL] s") (auto simp: next_line_break_index_def)

lemma no_split_append:
  assumes "CR \<notin> set l" "no_split_break c r"
  shows "no_split_break (l @ c) r"
proof (cases "c = []")
  case True
  have "l \<noteq> [] \<Longrightarrow> last l \<noteq> CR" using assms(1) last_in_set by metis
  with True show ?thesis by (auto simp: no_split_break_def)
qed (use assms in \<open>simp add: no_split_break_def\<close>)

lemma sse_chunks_concat:
  "breaks_kept (chunks @ [end_text]) \<Longrightarrow> CR \<notin> set buffer \<Longrightarrow>
   sse_chunks (\<lambda>_. False) k chunks end_text buffer st = (finish_stream (buffer @ concat chunks @ end_text) st, None)"
proof (induction chunks arbitrary: k buffer st)
  case (Cons c cs)
  obtain events st1 left where d: "decode_buffer (buffer @ c) st = (events, st1, left)" by (rule prod_cases3)
  have no: "no_split_break (buffer @ c) (concat cs @ end_text)"
    using Cons.prems by (intro no_split_append) auto
  have "CR \<notin> set left" using left_no_break [OF d] by (simp add: consume_line_def break_index_None Let_def split: option.splits)
  with Cons have "sse_chunks (\<lambda>_. False) (k + 1) cs end_text left st1 = (finish_stream (left @ concat cs @ end_text) st1, None)" by simp
  moreover have "finish_stream (buffer @ c @ concat cs @ end_text) st = events @ finish_stream (left @ concat cs @ end_text) st1"
    using decode_buffer_append [OF no d] by (simp add: finish_stream_def split: prod.split)
  ultimately show ?case using d by simp
qed simp

text \<open>
  The events of a stream do not depend on how it is cut into chunks, as long as no line break CR LF
  is cut in two: they are those of the whole text taken at once.
\<close>

theorem sse_events_ignore_the_chunks:
  assumes "breaks_kept (chunks @ [end_text])"
  shows "iterate_sse_messages (\<lambda>_. False) chunks end_text = iterate_sse_messages (\<lambda>_. False) [] (concat chunks @ end_text)"
  using sse_chunks_concat [OF assms, of "[]"] by (simp add: iterate_sse_messages_def)

text \<open>A line break that is cut in two counts twice: the event ends before its data.\<close>

lemma cut_line_break:
  "iterate_sse_messages (\<lambda>_. False) [lit ''event: a'' @ [CR], NL # lit ''data: b'' @ [NL, NL]] [] =
     ([\<lparr>se_event = Some (lit ''a''), se_data = [], se_raw = [lit ''event: a'']\<rparr>,
       \<lparr>se_event = None, se_data = lit ''b'', se_raw = [lit ''data: b'']\<rparr>], None)"
  "iterate_sse_messages (\<lambda>_. False) [lit ''event: a'' @ [CR, NL] @ lit ''data: b'' @ [NL, NL]] [] =
     ([\<lparr>se_event = Some (lit ''a''), se_data = lit ''b'', se_raw = [lit ''event: a'', lit ''data: b'']\<rparr>], None)"
  by (simp_all add: iterate_sse_messages_def decode_buffer.simps consume_line_def next_line_break_index_def
    decode_sse_line_def flush_sse_event_def finish_stream_def sse_start_def lit_def colon_def Let_def)

theorem sse_events_ignore_the_chunks_witness:
  "iterate_sse_messages (\<lambda>_. False) [lit ''data: a'', [CR, NL, CR] ] [] =
     ([\<lparr>se_event = None, se_data = lit ''a'', se_raw = [lit ''data: a'']\<rparr>], None)"
proof -
  have "breaks_kept ([lit ''data: a'', [CR, NL, CR] ] @ [ [] ])" by (simp add: no_split_break_def lit_def)
  from sse_events_ignore_the_chunks [OF this] show ?thesis
    by (simp add: iterate_sse_messages_def decode_buffer.simps consume_line_def next_line_break_index_def
      decode_sse_line_def flush_sse_event_def finish_stream_def sse_start_def lit_def colon_def Let_def)
qed


subsection \<open>Encoding\<close>

text \<open>A message as a server sends it: a name and lines of data.\<close>

definition event_lines :: "pystr option \<times> pystr list \<Rightarrow> pystr list" where
  "event_lines m = (case fst m of None \<Rightarrow> [] | Some name \<Rightarrow> [lit ''event: '' @ name]) @ map ((@) (lit ''data: '')) (snd m)"

definition send_event :: "pystr option \<times> pystr list \<Rightarrow> pystr" where
  "send_event m = concat (map (\<lambda>l. l @ [NL]) (event_lines m)) @ [NL]"

definition one_line :: "pystr \<Rightarrow> bool" where
  "one_line l \<longleftrightarrow> CR \<notin> set l \<and> NL \<notin> set l"

definition sendable :: "pystr option \<times> pystr list \<Rightarrow> bool" where
  "sendable m \<longleftrightarrow> (snd m \<noteq> [] \<or> fst m \<notin> {None, Some []}) \<and> list_all one_line (case_option [] (\<lambda>n. [n]) (fst m) @ snd m)"

definition received :: "pystr option \<times> pystr list \<Rightarrow> sse_event" where
  "received m = \<lparr>se_event = fst m, se_data = str_join [NL] (snd m), se_raw = event_lines m\<rparr>"

lemma consume_one_line: "one_line l \<Longrightarrow> consume_line (l @ NL # rest) = Some (l, rest)"
proof -
  assume l: "one_line l"
  then have "next_line_break_index (l @ NL # rest) = Some (length l)"
    using find_char_None [of CR l] find_char_None [of NL l]
    by (cases "str_find [CR] rest") (auto simp: next_line_break_index_def find_char_append one_line_def)
  then show ?thesis by (simp add: consume_line_def)
qed

lemma decode_one_line:
  assumes "one_line l" "decode_sse_line l st = (st1, e)"
  shows "decode_buffer (l @ NL # rest) st =
    (case decode_buffer rest st1 of (events, st2, left) \<Rightarrow> (case_option [] (\<lambda>x. [x]) e @ events, st2, left))"
  using assms by (simp add: decode_buffer.simps [of "l @ NL # rest"] consume_one_line)

lemma field_line:
  "decode_sse_line (lit ''event: '' @ v) st = (st\<lparr>sd_event := Some v, sd_raw := sd_raw st @ [lit ''event: '' @ v]\<rparr>, None)"
  "decode_sse_line (lit ''data: '' @ v) st = (st\<lparr>sd_data := sd_data st @ [v], sd_raw := sd_raw st @ [lit ''data: '' @ v]\<rparr>, None)"
  by (simp_all add: decode_sse_line_def lit_def colon_def Let_def)

lemma one_line_field: "one_line (lit ''event: '' @ v) = one_line v" "one_line (lit ''data: '' @ v) = one_line v"
  by (simp_all add: one_line_def lit_def)

lemma decode_data_lines:
  "list_all one_line ds \<Longrightarrow>
   decode_buffer (concat (map (\<lambda>l. l @ [NL]) (map ((@) (lit ''data: '')) ds)) @ rest) st =
     decode_buffer rest (st\<lparr>sd_data := sd_data st @ ds, sd_raw := sd_raw st @ map ((@) (lit ''data: '')) ds\<rparr>)"
proof (induction ds arbitrary: st)
  case (Cons d ds)
  then show ?case
    using decode_one_line [of "lit ''data: '' @ d" st] by (simp add: one_line_field field_line)
qed simp

lemma decode_blank:
  "decode_buffer (NL # rest) st =
    (case flush_sse_event st of (st1, e) \<Rightarrow>
       case decode_buffer rest st1 of (events, st2, left) \<Rightarrow> (case_option [] (\<lambda>x. [x]) e @ events, st2, left))"
proof -
  obtain st1 e where f: "flush_sse_event st = (st1, e)" by force
  then have "decode_sse_line [] st = (st1, e)" by (simp add: decode_sse_line_def)
  from decode_one_line [OF _ this, of rest] f show ?thesis by (simp add: one_line_def)
qed

lemma decode_event:
  assumes "sendable m"
  shows "decode_buffer (send_event m @ rest) sse_start =
    (case decode_buffer rest sse_start of (events, st, left) \<Rightarrow> (received m # events, st, left))"
proof -
  obtain n ds where m: "m = (n, ds)" by force
  with assms have ds: "list_all one_line ds" by (simp add: sendable_def)
  show ?thesis
  proof (cases n)
    case None
    with ds m assms show ?thesis
      by (simp del: map_map add: send_event_def event_lines_def decode_data_lines decode_blank flush_sse_event_def sse_start_def
        sendable_def received_def split: prod.split)
  next
    case (Some name)
    with m assms have "one_line (lit ''event: '' @ name)" by (simp add: sendable_def one_line_field)
    from decode_one_line [OF this field_line(1)] ds m assms Some show ?thesis
      by (auto simp del: map_map simp: send_event_def event_lines_def decode_data_lines decode_blank flush_sse_event_def sse_start_def
        sendable_def received_def split: prod.split)
  qed
qed

lemma decode_events:
  "list_all sendable ms \<Longrightarrow> decode_buffer (concat (map send_event ms)) sse_start = (map received ms, sse_start, [])"
proof (induction ms)
  case Nil
  show ?case by (simp add: decode_buffer.simps consume_line_def next_line_break_index_def)
qed (simp add: decode_event)

lemma flush_start: "flush_sse_event sse_start = (sse_start, None)"
  by (simp add: flush_sse_event_def sse_start_def)

lemma no_CR_sent: "list_all sendable ms \<Longrightarrow> CR \<notin> set (concat (map send_event ms))"
proof -
  have "sendable m \<Longrightarrow> CR \<notin> set (send_event m)" for m
    by (cases "fst m") (auto simp: send_event_def event_lines_def sendable_def one_line_def list_all_iff lit_def)
  then show "list_all sendable ms \<Longrightarrow> ?thesis" by (auto simp: list_all_iff)
qed

lemma breaks_kept_no_CR: "CR \<notin> set (concat chunks) \<Longrightarrow> breaks_kept chunks"
  by (induction chunks) (auto simp: no_split_break_def dest: last_in_set)



end
