(* ===== verification/Message_Wire.thy ===== *)
theory Message_Wire
  imports Messages "HOL-Library.Monad_Syntax"
begin

section \<open>Messages on the wire (core/message_wire.py)\<close>

text \<open>
  The JSON shape in which messages are stored and sent, and the way back. Reading is untyped in the
  program: a field that is absent gets its default, and a field of another type than the dataclass
  declares is kept as it is. Here such a value is not of the model's types, and reading it gives
  \<open>None\<close>. \<open>fr\<close> stands for \<open>float.__repr__\<close> and \<open>fo\<close> for \<open>float\<close> of a text; an integer in place of a
  float is a value of another type. \<open>details\<close>, \<open>data\<close> and \<open>arguments\<close> are JSON values of their owners.
\<close>

subsection \<open>Dicts\<close>

text \<open>\<open>_put\<close>: an optional field of a dict that is being written.\<close>

definition put :: "pystr \<Rightarrow> json option \<Rightarrow> (pystr, json) dict" where
  "put key v = (case v of None \<Rightarrow> [] | Some x \<Rightarrow> [(key, x)])"

text \<open>The values of the declared types.\<close>

fun as_str :: "json \<Rightarrow> pystr option" where
  "as_str (JStr s) = Some s"
| "as_str _ = None"

fun as_int :: "json \<Rightarrow> int option" where
  "as_int (JInt i) = Some i"
| "as_int _ = None"

fun as_bool :: "json \<Rightarrow> bool option" where
  "as_bool (JBool b) = Some b"
| "as_bool _ = None"

fun as_obj :: "json \<Rightarrow> (pystr, json) dict option" where
  "as_obj (JObj d) = Some d"
| "as_obj _ = None"

text \<open>\<open>data.get(key, missing)\<close> and \<open>data.get(key)\<close>.\<close>

definition read_or :: "'a \<Rightarrow> (json \<Rightarrow> 'a option) \<Rightarrow> json option \<Rightarrow> 'a option" where
  "read_or missing f v = (case v of None \<Rightarrow> Some missing | Some x \<Rightarrow> f x)"

fun read_opt :: "(json \<Rightarrow> 'a option) \<Rightarrow> json option \<Rightarrow> 'a option option" where
  "read_opt f None = Some None"
| "read_opt f (Some JNull) = Some None"
| "read_opt f (Some v) = map_option Some (f v)"

abbreviation str_or :: "(pystr, json) dict \<Rightarrow> pystr \<Rightarrow> pystr \<Rightarrow> pystr option" where
  "str_or d key missing \<equiv> read_or missing as_str (dict_get d key)"

abbreviation int_or :: "(pystr, json) dict \<Rightarrow> pystr \<Rightarrow> int \<Rightarrow> int option" where
  "int_or d key missing \<equiv> read_or missing as_int (dict_get d key)"

abbreviation str_opt :: "(pystr, json) dict \<Rightarrow> pystr \<Rightarrow> pystr option option" where
  "str_opt d key \<equiv> read_opt as_str (dict_get d key)"

abbreviation int_opt :: "(pystr, json) dict \<Rightarrow> pystr \<Rightarrow> int option option" where
  "int_opt d key \<equiv> read_opt as_int (dict_get d key)"

abbreviation bool_opt :: "(pystr, json) dict \<Rightarrow> pystr \<Rightarrow> bool option option" where
  "bool_opt d key \<equiv> read_opt as_bool (dict_get d key)"

abbreviation obj_opt :: "(pystr, json) dict \<Rightarrow> pystr \<Rightarrow> (pystr, json) dict option option" where
  "obj_opt d key \<equiv> read_opt as_obj (dict_get d key)"

text \<open>\<open>bool(v)\<close>; the text of a float is zero when it has no other digit before the exponent.\<close>

fun truthy :: "json \<Rightarrow> bool" where
  "truthy JNull = False"
| "truthy (JBool b) = b"
| "truthy (JInt i) = (i \<noteq> 0)"
| "truthy (JFloat t) = list_ex (\<lambda>c. 49 \<le> c \<and> c \<le> 57 \<or> c = 73 \<or> c = 78) (takeWhile (\<lambda>c. c \<noteq> 101 \<and> c \<noteq> 69) t)"
| "truthy (JStr s) = (s \<noteq> [])"
| "truthy (JArr xs) = (xs \<noteq> [])"
| "truthy (JObj d) = (d \<noteq> [])"

text \<open>\<open>bool(data.get(key, False))\<close> and \<open>data.get(key) or {}\<close>.\<close>

abbreviation flag :: "(pystr, json) dict \<Rightarrow> pystr \<Rightarrow> bool" where
  "flag d key \<equiv> (case dict_get d key of None \<Rightarrow> False | Some v \<Rightarrow> truthy v)"

definition obj_or_empty :: "json option \<Rightarrow> (pystr, json) dict option" where
  "obj_or_empty v = (case v of None \<Rightarrow> Some [] | Some x \<Rightarrow> if truthy x then as_obj x else Some [])"

text \<open>\<open>data.get(key)\<close>, with \<open>None\<close> as \<open>JNull\<close>.\<close>

abbreviation json_or_null :: "(pystr, json) dict \<Rightarrow> pystr \<Rightarrow> json" where
  "json_or_null d key \<equiv> (case dict_get d key of None \<Rightarrow> JNull | Some v \<Rightarrow> v)"

definition some_json :: "json \<Rightarrow> json option" where
  "some_json v = (if v = JNull then None else Some v)"

fun mapM :: "('a \<Rightarrow> 'b option) \<Rightarrow> 'a list \<Rightarrow> 'b list option" where
  "mapM f [] = Some []"
| "mapM f (x # xs) = do { y \<leftarrow> f x; ys \<leftarrow> mapM f xs; Some (y # ys) }"

subsection \<open>Usage\<close>

definition serialize_usage :: "(pyfloat \<Rightarrow> pystr) \<Rightarrow> usage \<Rightarrow> json" where
  "serialize_usage fr u =
    JObj ([(lit ''input'', JInt (us_input u)), (lit ''output'', JInt (us_output u)),
      (lit ''cacheRead'', JInt (us_cache_read u)), (lit ''cacheWrite'', JInt (us_cache_write u))] @
      put (lit ''cacheWrite1h'') (map_option JInt (us_cache_write_1h u)) @
      put (lit ''reasoning'') (map_option JInt (us_reasoning u)) @
      [(lit ''totalTokens'', JInt (us_total_tokens u)),
       (lit ''cost'', JObj [(lit ''input'', JFloat (fr (uc_input (us_cost u)))), (lit ''output'', JFloat (fr (uc_output (us_cost u)))),
          (lit ''cacheRead'', JFloat (fr (uc_cache_read (us_cost u)))), (lit ''cacheWrite'', JFloat (fr (uc_cache_write (us_cost u)))),
          (lit ''total'', JFloat (fr (uc_total (us_cost u))))])])"

fun as_float :: "(pystr \<Rightarrow> pyfloat) \<Rightarrow> json \<Rightarrow> pyfloat option" where
  "as_float fo (JFloat t) = Some (fo t)"
| "as_float fo _ = None"

abbreviation float_or_zero :: "(pystr \<Rightarrow> pyfloat) \<Rightarrow> (pystr, json) dict \<Rightarrow> pystr \<Rightarrow> pyfloat option" where
  "float_or_zero fo d key \<equiv> read_or 0 (as_float fo) (dict_get d key)"

definition parse_usage :: "(pystr \<Rightarrow> pyfloat) \<Rightarrow> (pystr, json) dict \<Rightarrow> usage option" where
  "parse_usage fo d = do {
     cost \<leftarrow> obj_or_empty (dict_get d (lit ''cost''));
     input \<leftarrow> int_or d (lit ''input'') 0;
     output \<leftarrow> int_or d (lit ''output'') 0;
     cache_read \<leftarrow> int_or d (lit ''cacheRead'') 0;
     cache_write \<leftarrow> int_or d (lit ''cacheWrite'') 0;
     cache_write_1h \<leftarrow> int_opt d (lit ''cacheWrite1h'');
     reasoning \<leftarrow> int_opt d (lit ''reasoning'');
     total_tokens \<leftarrow> int_or d (lit ''totalTokens'') 0;
     c_input \<leftarrow> float_or_zero fo cost (lit ''input'');
     c_output \<leftarrow> float_or_zero fo cost (lit ''output'');
     c_cache_read \<leftarrow> float_or_zero fo cost (lit ''cacheRead'');
     c_cache_write \<leftarrow> float_or_zero fo cost (lit ''cacheWrite'');
     c_total \<leftarrow> float_or_zero fo cost (lit ''total'');
     Some \<lparr>us_input = input, us_output = output, us_cache_read = cache_read, us_cache_write = cache_write,
       us_cache_write_1h = cache_write_1h, us_reasoning = reasoning, us_total_tokens = total_tokens,
       us_cost = \<lparr>uc_input = c_input, uc_output = c_output, uc_cache_read = c_cache_read,
         uc_cache_write = c_cache_write, uc_total = c_total\<rparr>\<rparr> }"

text \<open>\<open>Usage()\<close> and \<open>parse_usage(data.get("usage"))\<close>.\<close>

definition empty_usage :: usage where
  "empty_usage = \<lparr>us_input = 0, us_output = 0, us_cache_read = 0, us_cache_write = 0, us_cache_write_1h = None,
     us_reasoning = None, us_total_tokens = 0,
     us_cost = \<lparr>uc_input = 0, uc_output = 0, uc_cache_read = 0, uc_cache_write = 0, uc_total = 0\<rparr>\<rparr>"

definition usage_field :: "(pystr \<Rightarrow> pyfloat) \<Rightarrow> (pystr, json) dict \<Rightarrow> usage option option" where
  "usage_field fo d = (case dict_get d (lit ''usage'') of Some (JObj u) \<Rightarrow> map_option Some (parse_usage fo u) | _ \<Rightarrow> Some None)"

subsection \<open>Content blocks\<close>

fun serialize_content_block :: "block \<Rightarrow> json" where
  "serialize_content_block (TextContent t signature) =
     JObj ([(lit ''type'', JStr (lit ''text'')), (lit ''text'', JStr t)] @ put (lit ''textSignature'') (map_option JStr signature))"
| "serialize_content_block (ThinkingContent t signature redacted) =
     JObj ([(lit ''type'', JStr (lit ''thinking'')), (lit ''thinking'', JStr t)] @
       put (lit ''thinkingSignature'') (map_option JStr signature) @ (if redacted then [(lit ''redacted'', JBool True)] else []))"
| "serialize_content_block (ToolCallContent c) =
     JObj ([(lit ''type'', JStr (lit ''toolCall'')), (lit ''id'', JStr (call_id c)), (lit ''name'', JStr (call_name c)),
       (lit ''arguments'', JObj (call_arguments c))] @ put (lit ''thoughtSignature'') (map_option JStr (call_thought_signature c)) @
       put (lit ''namespace'') (map_option JStr (call_namespace c)) @
       put (lit ''argumentsError'') (map_option JStr (call_arguments_error c)))"
| "serialize_content_block (ImageContent picture mime) =
     JObj [(lit ''type'', JStr (lit ''image'')), (lit ''data'', JStr picture), (lit ''mimeType'', JStr mime)]"

fun parse_content_block :: "json \<Rightarrow> block option" where
  "parse_content_block (JObj d) =
     (if dict_get d (lit ''type'') = Some (JStr (lit ''text'')) then do {
        t \<leftarrow> str_or d (lit ''text'') [];
        signature \<leftarrow> str_opt d (lit ''textSignature'');
        Some (TextContent t signature) }
      else if dict_get d (lit ''type'') = Some (JStr (lit ''thinking'')) then do {
        t \<leftarrow> str_or d (lit ''thinking'') [];
        signature \<leftarrow> str_opt d (lit ''thinkingSignature'');
        Some (ThinkingContent t signature (flag d (lit ''redacted''))) }
      else if dict_get d (lit ''type'') = Some (JStr (lit ''toolCall'')) then do {
        id \<leftarrow> str_or d (lit ''id'') [];
        name \<leftarrow> str_or d (lit ''name'') [];
        arguments \<leftarrow> obj_or_empty (dict_get d (lit ''arguments''));
        thought_signature \<leftarrow> str_opt d (lit ''thoughtSignature'');
        namespace \<leftarrow> str_opt d (lit ''namespace'');
        arguments_error \<leftarrow> str_opt d (lit ''argumentsError'');
        Some (ToolCallContent \<lparr>call_id = id, call_name = name, call_arguments = arguments,
          call_thought_signature = thought_signature, call_namespace = namespace, call_arguments_error = arguments_error\<rparr>) }
      else if dict_get d (lit ''type'') = Some (JStr (lit ''image'')) then do {
        picture \<leftarrow> str_or d (lit ''data'') [];
        mime \<leftarrow> str_or d (lit ''mimeType'') [];
        Some (ImageContent picture mime) }
      else None)"
| "parse_content_block _ = None"

fun serialize_content :: "content \<Rightarrow> json" where
  "serialize_content (StrContent s) = JStr s"
| "serialize_content (Blocks bs) = JArr (map serialize_content_block bs)"

text \<open>Null content is \<open>Some None\<close>.\<close>

fun parse_content :: "json \<Rightarrow> content option option" where
  "parse_content (JStr s) = Some (Some (StrContent s))"
| "parse_content (JArr bs) = map_option (\<lambda>xs. Some (Blocks xs)) (mapM parse_content_block bs)"
| "parse_content JNull = Some None"
| "parse_content _ = None"

text \<open>\<open>_parse_content(data.get("content")) or []\<close>: content of an assistant message or a tool result.\<close>

definition block_content :: "(pystr, json) dict \<Rightarrow> block list option" where
  "block_content d =
    (case parse_content (json_or_null d (lit ''content'')) of
       Some None \<Rightarrow> Some []
     | Some (Some (Blocks bs)) \<Rightarrow> Some bs
     | Some (Some (StrContent s)) \<Rightarrow> if s = [] then Some [] else None
     | None \<Rightarrow> None)"

subsection \<open>Tool declarations\<close>

definition parse_sampling :: "(pystr, json) dict \<Rightarrow> sampling option option" where
  "parse_sampling d =
    (case dict_get d (lit ''constrainedSampling'') of
       Some (JBool False) \<Rightarrow> Some (Some SamplingFalse)
     | Some (JObj raw) \<Rightarrow>
         if dict_get raw (lit ''type'') = Some (JStr (lit ''json_schema'')) then
           map_option (\<lambda>s. Some (SamplingJsonSchema s)) (str_or raw (lit ''strict'') (lit ''prefer''))
         else if dict_get raw (lit ''type'') = Some (JStr (lit ''grammar'')) then do {
           variants \<leftarrow> obj_or_empty (dict_get raw (lit ''variants''));
           named \<leftarrow> mapM (\<lambda>(k, v). map_option (Pair k) (as_str v)) variants;
           Some (Some (SamplingGrammar named)) }
         else Some None
     | _ \<Rightarrow> Some None)"

definition parse_tool :: "json \<Rightarrow> tool option" where
  "parse_tool data = (case data of JObj d \<Rightarrow> do {
       name \<leftarrow> str_or d (lit ''name'') [];
       description \<leftarrow> str_or d (lit ''description'') [];
       parameters \<leftarrow> obj_or_empty (dict_get d (lit ''parameters''));
       constrained_sampling \<leftarrow> parse_sampling d;
       Some \<lparr>tool_name = name, tool_description = description, tool_parameters = JObj parameters,
         tool_sampling = constrained_sampling\<rparr> }
     | _ \<Rightarrow> None)"


subsection \<open>Nested calls, deferred handles and diagnostics\<close>

definition serialize_nested_call :: "nested_call_record \<Rightarrow> json" where
  "serialize_nested_call c =
    JObj ([(lit ''id'', JStr (nc_id c)), (lit ''name'', JStr (nc_name c)), (lit ''status'', JStr (nc_status c))] @
      put (lit ''arguments'') (map_option JObj (nc_arguments c)) @
      put (lit ''argumentsBytes'') (map_option JInt (nc_arguments_bytes c)) @
      put (lit ''durationMs'') (map_option JInt (nc_duration_ms c)) @ put (lit ''error'') (map_option JStr (nc_error c)))"

definition serialize_nested_calls :: "nested_tool_calls \<Rightarrow> json" where
  "serialize_nested_calls n =
    JObj [(lit ''calls'', JArr (map serialize_nested_call (ntc_calls n))), (lit ''complete'', JBool (ntc_complete n))]"

definition parse_nested_call :: "(pystr, json) dict \<Rightarrow> nested_call_record option" where
  "parse_nested_call d = do {
     id \<leftarrow> str_or d (lit ''id'') [];
     name \<leftarrow> str_or d (lit ''name'') [];
     status \<leftarrow> str_or d (lit ''status'') (lit ''unfinished'');
     arguments \<leftarrow> obj_opt d (lit ''arguments'');
     arguments_bytes \<leftarrow> int_opt d (lit ''argumentsBytes'');
     duration_ms \<leftarrow> int_opt d (lit ''durationMs'');
     error \<leftarrow> str_opt d (lit ''error'');
     Some \<lparr>nc_id = id, nc_name = name, nc_status = status, nc_arguments = arguments,
       nc_arguments_bytes = arguments_bytes, nc_duration_ms = duration_ms, nc_error = error\<rparr> }"

text \<open>Calls that are not dicts are dropped.\<close>

fun dicts_of :: "json list \<Rightarrow> (pystr, json) dict list" where
  "dicts_of [] = []"
| "dicts_of (JObj d # vs) = d # dicts_of vs"
| "dicts_of (_ # vs) = dicts_of vs"

definition parse_nested_calls :: "json \<Rightarrow> nested_tool_calls option option" where
  "parse_nested_calls data =
    (case data of
       JObj d \<Rightarrow>
         (case dict_get d (lit ''calls'') of
            Some (JArr calls) \<Rightarrow> map_option (\<lambda>cs. Some \<lparr>ntc_calls = cs, ntc_complete = flag d (lit ''complete'')\<rparr>)
              (mapM parse_nested_call (dicts_of calls))
          | _ \<Rightarrow> Some None)
     | _ \<Rightarrow> Some None)"

record deferred_handle =
  dh_provider :: pystr
  dh_model_id :: pystr
  dh_api :: pystr
  dh_id :: pystr
  dh_expires_at :: "int option"
  dh_poll_after_ms :: "int option"
  dh_data :: json

definition serialize_deferred_handle :: "deferred_handle \<Rightarrow> json" where
  "serialize_deferred_handle h =
    JObj ([(lit ''provider'', JStr (dh_provider h)), (lit ''modelId'', JStr (dh_model_id h)), (lit ''api'', JStr (dh_api h)),
      (lit ''id'', JStr (dh_id h))] @ put (lit ''expiresAt'') (map_option JInt (dh_expires_at h)) @
      put (lit ''pollAfterMs'') (map_option JInt (dh_poll_after_ms h)) @ put (lit ''data'') (some_json (dh_data h)))"

definition parse_deferred_handle :: "(pystr, json) dict \<Rightarrow> deferred_handle option" where
  "parse_deferred_handle d = do {
     provider \<leftarrow> str_or d (lit ''provider'') [];
     model_id \<leftarrow> str_or d (lit ''modelId'') [];
     api \<leftarrow> str_or d (lit ''api'') [];
     id \<leftarrow> str_or d (lit ''id'') [];
     expires_at \<leftarrow> int_opt d (lit ''expiresAt'');
     poll_after_ms \<leftarrow> int_opt d (lit ''pollAfterMs'');
     Some \<lparr>dh_provider = provider, dh_model_id = model_id, dh_api = api, dh_id = id, dh_expires_at = expires_at,
       dh_poll_after_ms = poll_after_ms, dh_data = json_or_null d (lit ''data'')\<rparr> }"

datatype error_code = TextCode pystr | NumberCode int

record diagnostic_error =
  de_message :: pystr
  de_name :: "pystr option"
  de_stack :: "pystr option"
  de_code :: "error_code option"

record diagnostic =
  dg_type :: pystr
  dg_timestamp :: int
  dg_error :: "diagnostic_error option"
  dg_details :: "(pystr, json) dict option"

fun serialize_code :: "error_code \<Rightarrow> json" where
  "serialize_code (TextCode s) = JStr s"
| "serialize_code (NumberCode i) = JInt i"

definition serialize_diagnostic_error :: "diagnostic_error \<Rightarrow> json" where
  "serialize_diagnostic_error e =
    JObj ([(lit ''message'', JStr (de_message e))] @ put (lit ''name'') (map_option JStr (de_name e)) @
      put (lit ''stack'') (map_option JStr (de_stack e)) @ put (lit ''code'') (map_option serialize_code (de_code e)))"

definition serialize_diagnostic :: "diagnostic \<Rightarrow> json" where
  "serialize_diagnostic g =
    JObj ([(lit ''type'', JStr (dg_type g)), (lit ''timestamp'', JInt (dg_timestamp g))] @
      put (lit ''error'') (map_option serialize_diagnostic_error (dg_error g)) @
      put (lit ''details'') (map_option JObj (dg_details g)))"

fun as_code :: "json \<Rightarrow> error_code option" where
  "as_code (JStr s) = Some (TextCode s)"
| "as_code (JInt i) = Some (NumberCode i)"
| "as_code _ = None"

definition parse_diagnostic_error :: "(pystr, json) dict \<Rightarrow> diagnostic_error option" where
  "parse_diagnostic_error d = do {
     message \<leftarrow> str_or d (lit ''message'') [];
     name \<leftarrow> str_opt d (lit ''name'');
     stack \<leftarrow> str_opt d (lit ''stack'');
     code \<leftarrow> read_opt as_code (dict_get d (lit ''code''));
     Some \<lparr>de_message = message, de_name = name, de_stack = stack, de_code = code\<rparr> }"

definition parse_diagnostic :: "(pystr, json) dict \<Rightarrow> diagnostic option" where
  "parse_diagnostic d = do {
     type \<leftarrow> str_or d (lit ''type'') [];
     timestamp \<leftarrow> int_or d (lit ''timestamp'') 0;
     error \<leftarrow> (case dict_get d (lit ''error'') of Some (JObj e) \<Rightarrow> map_option Some (parse_diagnostic_error e) | _ \<Rightarrow> Some None);
     details \<leftarrow> obj_opt d (lit ''details'');
     Some \<lparr>dg_type = type, dg_timestamp = timestamp, dg_error = error, dg_details = details\<rparr> }"

text \<open>
  The messages of this development hold handles and diagnostics in their wire form; reading one and
  holding it again is a normalization.
\<close>

definition read_diagnostic :: "json \<Rightarrow> json option" where
  "read_diagnostic v = (case v of JObj d \<Rightarrow> map_option serialize_diagnostic (parse_diagnostic d) | _ \<Rightarrow> None)"

definition diagnostics_field :: "(pystr, json) dict \<Rightarrow> json option option" where
  "diagnostics_field d =
    (case dict_get d (lit ''diagnostics'') of
       Some (JArr vs) \<Rightarrow> map_option (\<lambda>ds. Some (JArr ds)) (mapM read_diagnostic vs)
     | _ \<Rightarrow> Some None)"

definition deferred_field :: "(pystr, json) dict \<Rightarrow> json option option" where
  "deferred_field d =
    (case dict_get d (lit ''deferred'') of
       Some (JObj h) \<Rightarrow> map_option (\<lambda>r. Some (serialize_deferred_handle r)) (parse_deferred_handle h)
     | _ \<Rightarrow> Some None)"

subsection \<open>Messages\<close>

fun stop_reason_text :: "stop_reason \<Rightarrow> pystr" where
  "stop_reason_text Pending = lit ''pending''"
| "stop_reason_text Stop = lit ''stop''"
| "stop_reason_text StopLength = lit ''length''"
| "stop_reason_text ToolUse = lit ''toolUse''"
| "stop_reason_text StopError = lit ''error''"
| "stop_reason_text Aborted = lit ''aborted''"
| "stop_reason_text StopDeferred = lit ''deferred''"

definition stop_reason_of :: "pystr \<Rightarrow> stop_reason option" where
  "stop_reason_of t = find (\<lambda>r. stop_reason_text r = t) [Pending, Stop, StopLength, ToolUse, StopError, Aborted, StopDeferred]"

definition serialize_sections :: "(pystr, pystr option) dict \<Rightarrow> json" where
  "serialize_sections d = JObj (map (\<lambda>(k, v). (k, case v of None \<Rightarrow> JNull | Some s \<Rightarrow> JStr s)) d)"

definition parse_sections :: "(pystr, json) dict \<Rightarrow> (pystr, pystr option) dict option option" where
  "parse_sections d = do {
     sections \<leftarrow> obj_opt d (lit ''sections'');
     (case sections of
        None \<Rightarrow> Some None
      | Some s \<Rightarrow> map_option Some (mapM (\<lambda>(k, v). map_option (Pair k) (read_opt as_str (Some v))) s)) }"

text \<open>A list field of a system message; anything else than a list is \<open>None\<close>.\<close>

definition list_field :: "(json \<Rightarrow> 'a option) \<Rightarrow> (pystr, json) dict \<Rightarrow> pystr \<Rightarrow> 'a list option option" where
  "list_field f d key = (case dict_get d key of Some (JArr vs) \<Rightarrow> map_option Some (mapM f vs) | _ \<Rightarrow> Some None)"

definition parse_reference :: "json \<Rightarrow> pystr option" where
  "parse_reference v = (case v of JObj d \<Rightarrow> str_or d (lit ''name'') [] | _ \<Rightarrow> None)"

fun serialize_full :: "(pyfloat \<Rightarrow> pystr) \<Rightarrow> message \<Rightarrow> (pystr, json) dict option" where
  "serialize_full fr (SystemMsg m) =
     Some ([(lit ''role'', JStr (lit ''system'')), (lit ''content'', serialize_content (sm_content m))] @
       put (lit ''sections'') (map_option serialize_sections (sm_sections m)) @ [(lit ''timestamp'', JInt (sm_timestamp m))] @
       put (lit ''toolsAdded'') (map_option (\<lambda>ts. JArr (map serialize_tool ts)) (sm_tools_added m)) @
       put (lit ''toolsRemoved'') (map_option (\<lambda>ns. JArr (map (\<lambda>n. JObj [(lit ''name'', JStr n)]) ns)) (sm_tools_removed m)))"
| "serialize_full fr (UserMsg m) =
     Some [(lit ''role'', JStr (lit ''user'')), (lit ''content'', serialize_content (um_content m)), (lit ''timestamp'', JInt (um_timestamp m))]"
| "serialize_full fr (AssistantMsg m) =
     Some ([(lit ''role'', JStr (lit ''assistant'')), (lit ''content'', serialize_content (Blocks (am_content m))),
       (lit ''api'', JStr (am_api m)), (lit ''provider'', JStr (am_provider m)), (lit ''model'', JStr (am_model m)),
       (lit ''usage'', case am_usage m of None \<Rightarrow> JNull | Some u \<Rightarrow> serialize_usage fr u),
       (lit ''stopReason'', JStr (stop_reason_text (am_stop_reason m))), (lit ''timestamp'', JInt (am_timestamp m))] @
       put (lit ''responseModel'') (map_option JStr (am_response_model m)) @
       put (lit ''responseId'') (map_option JStr (am_response_id m)) @
       put (lit ''providerThinkingLevel'') (map_option JStr (am_provider_thinking_level m)) @
       put (lit ''diagnostics'') (am_diagnostics m) @
       put (lit ''errorMessage'') (map_option JStr (am_error_message m)) @
       put (lit ''rawStopReason'') (map_option JStr (am_raw_stop_reason m)) @
       put (lit ''endTurn'') (map_option JBool (am_end_turn m)) @
       put (lit ''deferred'') (am_deferred m) @
       put (lit ''durationMs'') (map_option JInt (am_duration_ms m)) @
       put (lit ''thinkingLevel'') (map_option JStr (am_thinking_level m)))"
| "serialize_full fr (ToolResultMsg m) =
     Some ([(lit ''role'', JStr (lit ''toolResult'')), (lit ''toolCallId'', JStr (trm_tool_call_id m)),
       (lit ''toolName'', JStr (trm_tool_name m)), (lit ''content'', serialize_content (Blocks (trm_content m)))] @
       put (lit ''details'') (some_json (trm_details m)) @ put (lit ''usage'') (map_option (serialize_usage fr) (trm_usage m)) @
       [(lit ''isError'', JBool (trm_is_error m))] @ put (lit ''durationMs'') (map_option JInt (trm_duration_ms m)) @
       [(lit ''timestamp'', JInt (trm_timestamp m))] @
       put (lit ''nestedCalls'') (map_option serialize_nested_calls (trm_nested_calls m)))"
| "serialize_full fr (CustomMsg m) =
     Some ([(lit ''role'', JStr (lit ''custom'')), (lit ''customType'', JStr (cm_custom_type m)),
       (lit ''content'', serialize_content (cm_content m)), (lit ''display'', JBool (cm_display m))] @
       put (lit ''details'') (some_json (cm_details m)) @ [(lit ''timestamp'', JInt (cm_timestamp m))])"
| "serialize_full fr (BashMsg m) =
     Some ([(lit ''role'', JStr (lit ''bashExecution'')), (lit ''command'', JStr (bm_command m)), (lit ''output'', JStr (bm_output m))] @
       put (lit ''exitCode'') (map_option JInt (bm_exit_code m)) @
       [(lit ''cancelled'', JBool (bm_cancelled m)), (lit ''truncated'', JBool (bm_truncated m))] @
       put (lit ''fullOutputPath'') (map_option JStr (bm_full_output_path m)) @ [(lit ''timestamp'', JInt (bm_timestamp m))] @
       put (lit ''excludeFromContext'') (map_option JBool (bm_exclude_from_context m)))"
| "serialize_full fr (BranchSummaryMsg m) =
     Some [(lit ''role'', JStr (lit ''branchSummary'')), (lit ''summary'', JStr (bs_summary m)),
       (lit ''fromId'', case bs_from_id m of None \<Rightarrow> JNull | Some i \<Rightarrow> JStr i), (lit ''timestamp'', JInt (bs_timestamp m))]"
| "serialize_full fr (CompactionSummaryMsg m) =
     Some [(lit ''role'', JStr (lit ''compactionSummary'')), (lit ''summary'', JStr (cs_summary m)),
       (lit ''tokensBefore'', JInt (cs_tokens_before m)), (lit ''timestamp'', JInt (cs_timestamp m))]"
| "serialize_full fr (OtherMsg role) = None"

text \<open>\<open>None\<close>: the message is returned as it is. Null content is written as null.\<close>

fun serialize_message :: "(pyfloat \<Rightarrow> pystr) \<Rightarrow> raw_message \<Rightarrow> json option" where
  "serialize_message fr (FullMsg m) = map_option JObj (serialize_full fr m)"
| "serialize_message fr (NullContent m) = map_option (\<lambda>d. JObj (dict_set (lit ''content'') JNull d)) (serialize_full fr m)"

text \<open>A message with its content, which may be null.\<close>

definition with_content :: "content option \<Rightarrow> (content \<Rightarrow> message) \<Rightarrow> raw_message" where
  "with_content c f = (case c of None \<Rightarrow> NullContent (f (StrContent [])) | Some x \<Rightarrow> FullMsg (f x))"

definition parse_system :: "(pystr, json) dict \<Rightarrow> raw_message option" where
  "parse_system d = do {
     body \<leftarrow> parse_content (case dict_get d (lit ''content'') of None \<Rightarrow> JStr [] | Some v \<Rightarrow> v);
     timestamp \<leftarrow> int_or d (lit ''timestamp'') 0;
     sections \<leftarrow> parse_sections d;
     tools_added \<leftarrow> list_field parse_tool d (lit ''toolsAdded'');
     tools_removed \<leftarrow> list_field parse_reference d (lit ''toolsRemoved'');
     Some (with_content body (\<lambda>c. SystemMsg \<lparr>sm_content = c, sm_timestamp = timestamp, sm_sections = sections,
       sm_tools_added = tools_added, sm_tools_removed = tools_removed\<rparr>)) }"

definition parse_assistant :: "(pystr \<Rightarrow> pyfloat) \<Rightarrow> (pystr, json) dict \<Rightarrow> assistant_message option" where
  "parse_assistant fo d = do {
     body \<leftarrow> block_content d;
     api \<leftarrow> str_or d (lit ''api'') [];
     provider \<leftarrow> str_or d (lit ''provider'') [];
     model \<leftarrow> str_or d (lit ''model'') [];
     usage \<leftarrow> usage_field fo d;
     reason \<leftarrow> str_or d (lit ''stopReason'') (lit ''stop'');
     stop_reason \<leftarrow> stop_reason_of reason;
     timestamp \<leftarrow> int_or d (lit ''timestamp'') 0;
     response_model \<leftarrow> str_opt d (lit ''responseModel'');
     response_id \<leftarrow> str_opt d (lit ''responseId'');
     provider_thinking_level \<leftarrow> str_opt d (lit ''providerThinkingLevel'');
     thinking_level \<leftarrow> str_opt d (lit ''thinkingLevel'');
     diagnostics \<leftarrow> diagnostics_field d;
     error_message \<leftarrow> str_opt d (lit ''errorMessage'');
     raw_stop_reason \<leftarrow> str_opt d (lit ''rawStopReason'');
     end_turn \<leftarrow> bool_opt d (lit ''endTurn'');
     deferred \<leftarrow> deferred_field d;
     duration_ms \<leftarrow> int_opt d (lit ''durationMs'');
     Some \<lparr>am_content = body, am_api = api, am_provider = provider, am_model = model,
       am_usage = Some (case usage of None \<Rightarrow> empty_usage | Some u \<Rightarrow> u), am_stop_reason = stop_reason,
       am_timestamp = timestamp, am_response_model = response_model, am_response_id = response_id,
       am_provider_thinking_level = provider_thinking_level, am_thinking_level = thinking_level,
       am_diagnostics = diagnostics, am_error_message = error_message, am_raw_stop_reason = raw_stop_reason,
       am_end_turn = end_turn, am_deferred = deferred, am_duration_ms = duration_ms\<rparr> }"

definition parse_tool_result :: "(pystr \<Rightarrow> pyfloat) \<Rightarrow> (pystr, json) dict \<Rightarrow> tool_result_message option" where
  "parse_tool_result fo d = do {
     tool_call_id \<leftarrow> str_or d (lit ''toolCallId'') [];
     tool_name \<leftarrow> str_or d (lit ''toolName'') [];
     body \<leftarrow> block_content d;
     timestamp \<leftarrow> int_or d (lit ''timestamp'') 0;
     usage \<leftarrow> usage_field fo d;
     nested_calls \<leftarrow> parse_nested_calls (json_or_null d (lit ''nestedCalls''));
     duration_ms \<leftarrow> int_opt d (lit ''durationMs'');
     Some \<lparr>trm_tool_call_id = tool_call_id, trm_tool_name = tool_name, trm_content = body,
       trm_is_error = flag d (lit ''isError''), trm_timestamp = timestamp, trm_details = json_or_null d (lit ''details''),
       trm_usage = usage, trm_nested_calls = nested_calls, trm_duration_ms = duration_ms\<rparr> }"

definition parse_bash :: "(pystr, json) dict \<Rightarrow> bash_execution_message option" where
  "parse_bash d = do {
     command \<leftarrow> str_or d (lit ''command'') [];
     output \<leftarrow> str_or d (lit ''output'') [];
     exit_code \<leftarrow> int_opt d (lit ''exitCode'');
     full_output_path \<leftarrow> str_opt d (lit ''fullOutputPath'');
     timestamp \<leftarrow> int_or d (lit ''timestamp'') 0;
     exclude_from_context \<leftarrow> bool_opt d (lit ''excludeFromContext'');
     Some \<lparr>bm_command = command, bm_output = output, bm_exit_code = exit_code, bm_cancelled = flag d (lit ''cancelled''),
       bm_truncated = flag d (lit ''truncated''), bm_timestamp = timestamp, bm_full_output_path = full_output_path,
       bm_exclude_from_context = exclude_from_context\<rparr> }"

text \<open>What \<open>parse_message\<close> returns: a message, the data itself, or a message with a field of another type.\<close>

datatype parsed = Parsed raw_message | Unread json | IllTyped

definition typed :: "raw_message option \<Rightarrow> parsed" where
  "typed m = (case m of None \<Rightarrow> IllTyped | Some x \<Rightarrow> Parsed x)"

definition parse_message :: "(pystr \<Rightarrow> pyfloat) \<Rightarrow> json \<Rightarrow> parsed" where
  "parse_message fo data =
    (case data of
       JObj d \<Rightarrow>
         (let role = dict_get d (lit ''role'')
          in if role = Some (JStr (lit ''system'')) then typed (parse_system d)
             else if role = Some (JStr (lit ''user'')) then typed (do {
               body \<leftarrow> parse_content (json_or_null d (lit ''content''));
               timestamp \<leftarrow> int_or d (lit ''timestamp'') 0;
               Some (with_content body (\<lambda>c. UserMsg \<lparr>um_content = c, um_timestamp = timestamp\<rparr>)) })
             else if role = Some (JStr (lit ''assistant'')) then typed (map_option (\<lambda>m. FullMsg (AssistantMsg m)) (parse_assistant fo d))
             else if role = Some (JStr (lit ''toolResult'')) then typed (map_option (\<lambda>m. FullMsg (ToolResultMsg m)) (parse_tool_result fo d))
             else if role = Some (JStr (lit ''custom'')) then typed (do {
               custom_type \<leftarrow> str_or d (lit ''customType'') [];
               body \<leftarrow> parse_content (json_or_null d (lit ''content''));
               timestamp \<leftarrow> int_or d (lit ''timestamp'') 0;
               Some (with_content body (\<lambda>c. CustomMsg \<lparr>cm_custom_type = custom_type, cm_content = c,
                 cm_display = flag d (lit ''display''), cm_timestamp = timestamp, cm_details = json_or_null d (lit ''details'')\<rparr>)) })
             else if role = Some (JStr (lit ''bashExecution'')) then typed (map_option (\<lambda>m. FullMsg (BashMsg m)) (parse_bash d))
             else if role = Some (JStr (lit ''branchSummary'')) then typed (do {
               summary \<leftarrow> str_or d (lit ''summary'') [];
               from_id \<leftarrow> read_opt as_str (Some (case dict_get d (lit ''fromId'') of None \<Rightarrow> JStr [] | Some v \<Rightarrow> v));
               timestamp \<leftarrow> int_or d (lit ''timestamp'') 0;
               Some (FullMsg (BranchSummaryMsg \<lparr>bs_summary = summary, bs_from_id = from_id, bs_timestamp = timestamp\<rparr>)) })
             else if role = Some (JStr (lit ''compactionSummary'')) then typed (do {
               summary \<leftarrow> str_or d (lit ''summary'') [];
               tokens_before \<leftarrow> int_or d (lit ''tokensBefore'') 0;
               timestamp \<leftarrow> int_or d (lit ''timestamp'') 0;
               Some (FullMsg (CompactionSummaryMsg \<lparr>cs_summary = summary, cs_tokens_before = tokens_before, cs_timestamp = timestamp\<rparr>)) })
             else Unread data)
     | _ \<Rightarrow> Unread data)"

end
