(* ===== verification/Message_Wire_Laws.thy ===== *)
theory Message_Wire_Laws
  imports Message_Wire
begin

section \<open>Messages survive the wire\<close>

text \<open>
  Every message the application stores is read back as it was (\<open>read_message\<close>), by one lemma per
  nested record; and what is read has the declared types. The collection of field readers
  (\<open>read_defined\<close>, \<open>read_put\<close>, \<open>get_put\<close>) lets \<open>simp\<close> look a field up in a dict that was just written.
\<close>

subsection \<open>Reading what was written\<close>

lemma lit_inject [simp]: "lit s = lit t \<longleftrightarrow> s = t"
  unfolding lit_def by (rule inj_map_eq_map) (metis injI char_of_char)

definition or_else :: "'a option \<Rightarrow> 'a option \<Rightarrow> 'a option" where
  "or_else v w = (case v of None \<Rightarrow> w | Some x \<Rightarrow> Some x)"

lemma or_else_None [simp]: "or_else v None = v" "or_else None w = w" "or_else (Some x) w = Some x"
  by (cases v) (simp_all add: or_else_def)

lemma get_put [simp]:
  "dict_get (put k v @ d) i = (if k = i then or_else v (dict_get d i) else dict_get d i)"
  "dict_get (put k v) i = (if k = i then v else None)"
  by (auto simp: put_def or_else_def split: option.split)

lemma read_defined [simp]:
  "read_or m f None = Some m" "read_or m f (Some v) = f v" "obj_or_empty None = Some []"
  "obj_or_empty (Some (JObj d)) = Some d"
  by (auto simp: read_or_def obj_or_empty_def)

lemma read_put [simp]:
  "read_opt as_str (map_option JStr s) = Some s" "read_opt as_int (map_option JInt i) = Some i"
  "read_opt as_bool (map_option JBool b) = Some b" "read_opt as_obj (map_option JObj d) = Some d"
  by (cases s; cases i; cases b; cases d; simp)+

lemma case_option_id [simp]: "(case v of None \<Rightarrow> None | Some x \<Rightarrow> Some x) = v"
  by (cases v) auto

lemma some_json_or_null [simp]: "(case some_json v of None \<Rightarrow> JNull | Some x \<Rightarrow> x) = v" "some_json v = None \<longleftrightarrow> v = JNull"
  by (auto simp: some_json_def)

lemma mapM_map: "(\<And>x. x \<in> set xs \<Longrightarrow> f (g x) = Some (h x)) \<Longrightarrow> mapM f (map g xs) = Some (map h xs)"
  by (induction xs) auto

lemma mapM_read: "(\<And>x. x \<in> set xs \<Longrightarrow> f (g x) = Some x) \<Longrightarrow> mapM f (map g xs) = Some xs"
  using mapM_map [of xs f g "\<lambda>x. x"] by simp

text \<open>A double that is not an infinity or NaN, and what \<open>repr\<close> promises of it.\<close>

definition finite_float :: "pyfloat \<Rightarrow> bool" where
  "finite_float x \<longleftrightarrow> x < 2 ^ 64 \<and> (x div 2 ^ 52) mod 2048 \<noteq> 2047"

definition float_codec :: "(pyfloat \<Rightarrow> pystr) \<Rightarrow> (pystr \<Rightarrow> pyfloat) \<Rightarrow> bool" where
  "float_codec fr fo \<longleftrightarrow> (\<forall>x. finite_float x \<longrightarrow> fo (fr x) = x)"

definition usage_ok :: "usage \<Rightarrow> bool" where
  "usage_ok u \<longleftrightarrow> list_all finite_float
     [uc_input (us_cost u), uc_output (us_cost u), uc_cache_read (us_cost u), uc_cache_write (us_cost u), uc_total (us_cost u)]"

lemma read_usage:
  assumes "float_codec fr fo" "usage_ok u" "serialize_usage fr u = JObj d"
  shows "parse_usage fo d = Some u"
proof -
  have fo: "fo (fr x) = x" if "finite_float x" for x
    using assms(1) that by (simp add: float_codec_def)
  show ?thesis
    using assms(2,3) by (auto simp: serialize_usage_def parse_usage_def usage_ok_def fo simp del: map_of_append)
qed


declare map_of_append [simp del]

lemma read_block: "parse_content_block (serialize_content_block b) = Some b"
  by (cases b) (auto simp: tool_call.equality)

lemma read_content: "parse_content (serialize_content c) = Some (Some c)"
  by (cases c) (simp_all add: mapM_read read_block)

text \<open>The parameters of a tool are a JSON object.\<close>

definition tool_ok :: "tool \<Rightarrow> bool" where
  "tool_ok t \<longleftrightarrow> as_obj (tool_parameters t) \<noteq> None"

lemma mapM_pairs:
  assumes "\<And>k v. (k, v) \<in> set xs \<Longrightarrow> f (g v) = Some v"
  shows "mapM (\<lambda>(k, v). map_option (Pair k) (f v)) (map (\<lambda>(k, v). (k, g v)) xs) = Some xs"
  using assms
proof (induction xs)
  case (Cons x xs)
  obtain k v where "x = (k, v)" by force
  moreover from this have "f (g v) = Some v" using Cons.prems by (meson list.set_intros(1))
  moreover have "mapM (\<lambda>(k, v). map_option (Pair k) (f v)) (map (\<lambda>(k, v). (k, g v)) xs) = Some xs"
    by (rule Cons.IH) (use Cons.prems in auto)
  ultimately show ?case by simp
qed simp

lemma read_tool: "tool_ok t \<Longrightarrow> parse_tool (serialize_tool t) = Some t"
proof -
  assume "tool_ok t"
  then obtain d where d: "tool_parameters t = JObj d" by (auto simp: tool_ok_def elim: as_obj.elims)
  have "parse_tool (serialize_tool t) = Some (t\<lparr>tool_parameters := JObj d\<rparr>)"
  proof (cases "tool_sampling t")
    case None
    then show ?thesis using d
      by (auto simp: serialize_tool_def parse_tool_def parse_sampling_def Let_def intro: tool.equality)
  next
    case (Some s)
    then show ?thesis using d
      by (cases s) (auto simp: serialize_tool_def parse_tool_def parse_sampling_def Let_def mapM_pairs intro: tool.equality)
  qed
  with d show ?thesis by simp
qed

lemma read_nested_call: "as_obj (serialize_nested_call c) = Some d \<Longrightarrow> parse_nested_call d = Some c"
  by (auto simp: serialize_nested_call_def parse_nested_call_def)

lemma read_nested: "parse_nested_calls (serialize_nested_calls n) = Some (Some n)"
proof -
  have "dicts_of (map serialize_nested_call cs) = map (\<lambda>c. the (as_obj (serialize_nested_call c))) cs" for cs
    by (induction cs) (auto simp: serialize_nested_call_def)
  moreover have "parse_nested_call (the (as_obj (serialize_nested_call c))) = Some c" for c
    by (rule read_nested_call) (simp add: serialize_nested_call_def)
  ultimately show ?thesis
    by (simp add: serialize_nested_calls_def parse_nested_calls_def mapM_read)
qed

lemma no_nested: "parse_nested_calls JNull = Some None"
  by (simp add: parse_nested_calls_def)

lemma read_handle: "as_obj (serialize_deferred_handle h) = Some d \<Longrightarrow> parse_deferred_handle d = Some h"
  by (auto simp: serialize_deferred_handle_def parse_deferred_handle_def)

lemma read_code [simp]: "read_opt as_code (map_option serialize_code c) = Some c"
proof (cases c)
  case (Some x)
  then show ?thesis by (cases x) auto
qed simp

lemma read_diagnostic_error: "as_obj (serialize_diagnostic_error e) = Some d \<Longrightarrow> parse_diagnostic_error d = Some e"
  by (auto simp: serialize_diagnostic_error_def parse_diagnostic_error_def)

lemma read_written_diagnostic: "read_diagnostic (serialize_diagnostic g) = Some (serialize_diagnostic g)"
proof -
  have "parse_diagnostic (the (as_obj (serialize_diagnostic g))) = Some g"
  proof (cases "dg_error g")
    case None
    then show ?thesis by (simp add: serialize_diagnostic_def parse_diagnostic_def)
  next
    case (Some e)
    have "serialize_diagnostic_error e = JObj (the (as_obj (serialize_diagnostic_error e)))"
      by (simp add: serialize_diagnostic_error_def)
    moreover have "parse_diagnostic_error (the (as_obj (serialize_diagnostic_error e))) = Some e"
      by (rule read_diagnostic_error) (simp add: serialize_diagnostic_error_def)
    ultimately show ?thesis using Some
      by (auto simp: serialize_diagnostic_def parse_diagnostic_def split: json.split)
  qed
  then show ?thesis by (simp add: read_diagnostic_def serialize_diagnostic_def)
qed


subsection \<open>Messages\<close>

text \<open>The messages that can be written and read: typed fields, finite costs, JSON of handles and diagnostics.\<close>

definition assistant_ok :: "assistant_message \<Rightarrow> bool" where
  "assistant_ok m \<longleftrightarrow> (case am_usage m of None \<Rightarrow> False | Some u \<Rightarrow> usage_ok u) \<and>
     (case am_diagnostics m of None \<Rightarrow> True | Some v \<Rightarrow> \<exists>gs. v = JArr (map serialize_diagnostic gs)) \<and>
     (case am_deferred m of None \<Rightarrow> True | Some v \<Rightarrow> \<exists>h. v = serialize_deferred_handle h)"

fun message_ok :: "message \<Rightarrow> bool" where
  "message_ok (SystemMsg m) \<longleftrightarrow> (case sm_tools_added m of None \<Rightarrow> True | Some ts \<Rightarrow> list_all tool_ok ts)"
| "message_ok (AssistantMsg m) \<longleftrightarrow> assistant_ok m"
| "message_ok (ToolResultMsg m) \<longleftrightarrow> (case trm_usage m of None \<Rightarrow> True | Some u \<Rightarrow> usage_ok u)"
| "message_ok (OtherMsg role) \<longleftrightarrow> False"
| "message_ok _ \<longleftrightarrow> True"

fun storable :: "raw_message \<Rightarrow> bool" where
  "storable (FullMsg m) \<longleftrightarrow> message_ok m"
| "storable (NullContent (SystemMsg m)) \<longleftrightarrow> message_ok (SystemMsg m) \<and> sm_content m = StrContent []"
| "storable (NullContent (UserMsg m)) \<longleftrightarrow> um_content m = StrContent []"
| "storable (NullContent (CustomMsg m)) \<longleftrightarrow> cm_content m = StrContent []"
| "storable _ \<longleftrightarrow> False"

lemma read_sections: "sm_sections m = Some d \<Longrightarrow>
    mapM (\<lambda>(k, v). map_option (Pair k) (read_opt as_str (Some v))) (map (\<lambda>(k, v). (k, case v of None \<Rightarrow> JNull | Some s \<Rightarrow> JStr s)) d) = Some d"
  by (rule mapM_pairs) (auto split: option.split)

lemma stop_reason_round_trip [simp]: "stop_reason_of (stop_reason_text r) = Some r"
  by (cases r) (simp_all add: stop_reason_of_def)

lemma read_assistant:
  assumes "float_codec fr fo" "assistant_ok m" "serialize_full fr (AssistantMsg m) = Some d"
  shows "parse_assistant fo d = Some m"
proof -
  from assms(2) obtain u where u: "am_usage m = Some u" "usage_ok u" by (auto simp: assistant_ok_def split: option.splits)
  obtain ud where ud: "serialize_usage fr u = JObj ud" by (simp add: serialize_usage_def)
  note usage = read_usage [OF assms(1) u(2) ud]
  have m: "m = m\<lparr>am_usage := Some u\<rparr>" using u(1) by simp
  have content: "parse_content (serialize_content (Blocks (am_content m))) = Some (Some (Blocks (am_content m)))" by (rule read_content)
  have diag: "diagnostics_field d = Some (am_diagnostics m)"
    using assms(2,3) by (auto simp: assistant_ok_def diagnostics_field_def mapM_map [where h = serialize_diagnostic] read_written_diagnostic split: option.splits)
  have handle: "deferred_field d = Some (am_deferred m)"
  proof (cases "am_deferred m")
    case None
    then show ?thesis using assms(3) by (auto simp: deferred_field_def)
  next
    case (Some v)
    with assms(2) obtain h where h: "v = serialize_deferred_handle h" by (auto simp: assistant_ok_def)
    obtain hd where hd: "serialize_deferred_handle h = JObj hd" by (simp add: serialize_deferred_handle_def)
    with h read_handle [of h hd] Some assms(3) show ?thesis by (auto simp: deferred_field_def)
  qed
  have body: "block_content d = Some (am_content m)"
    using assms(3) content by (auto simp: block_content_def simp del: serialize_content.simps)
  have "usage_field fo d = Some (Some u)"
    using assms(3) usage ud u(1) by (auto simp: usage_field_def)
  with diag handle body u(1) assms(3) show ?thesis
    unfolding parse_assistant_def by (auto intro!: assistant_message.equality)
qed


lemma read_system:
  assumes "message_ok (SystemMsg m)" "serialize_full fr (SystemMsg m) = Some d"
  shows "parse_sections d = Some (sm_sections m)" "list_field parse_tool d (lit ''toolsAdded'') = Some (sm_tools_added m)"
    "list_field parse_reference d (lit ''toolsRemoved'') = Some (sm_tools_removed m)"
    "dict_get d (lit ''content'') = Some (serialize_content (sm_content m))" "int_or d (lit ''timestamp'') 0 = Some (sm_timestamp m)"
proof -
  have d: "d = (case serialize_full fr (SystemMsg m) of None \<Rightarrow> [] | Some x \<Rightarrow> x)" using assms(2) by simp
  show "parse_sections d = Some (sm_sections m)"
    by (cases "sm_sections m") (simp_all add: d parse_sections_def serialize_sections_def read_sections [OF sym] mapM_pairs split: option.split)
  show "list_field parse_tool d (lit ''toolsAdded'') = Some (sm_tools_added m)"
    using assms(1) by (cases "sm_tools_added m") (simp_all add: d list_field_def mapM_read read_tool list_all_iff)
  show "list_field parse_reference d (lit ''toolsRemoved'') = Some (sm_tools_removed m)"
    by (cases "sm_tools_removed m") (simp_all add: d list_field_def mapM_read parse_reference_def)
qed (use assms(2) in auto)

lemma read_tool_result:
  assumes "float_codec fr fo" "message_ok (ToolResultMsg m)" "serialize_full fr (ToolResultMsg m) = Some d"
  shows "parse_tool_result fo d = Some m"
proof -
  have content: "parse_content (serialize_content (Blocks (trm_content m))) = Some (Some (Blocks (trm_content m)))" by (rule read_content)
  have body: "block_content d = Some (trm_content m)"
    using assms(3) content by (auto simp: block_content_def simp del: serialize_content.simps)
  have usage: "usage_field fo d = Some (trm_usage m)"
  proof (cases "trm_usage m")
    case (Some u)
    obtain ud where ud: "serialize_usage fr u = JObj ud" by (simp add: serialize_usage_def)
    from read_usage [OF assms(1) _ ud] Some assms(2,3) ud show ?thesis by (auto simp: usage_field_def)
  qed (use assms(3) in \<open>auto simp: usage_field_def\<close>)
  have nested: "parse_nested_calls (json_or_null d (lit ''nestedCalls'')) = Some (trm_nested_calls m)"
    using assms(3) by (cases "trm_nested_calls m") (auto simp: read_nested no_nested)
  from body usage nested assms(3) show ?thesis
    unfolding parse_tool_result_def by (auto intro!: tool_result_message.equality)
qed

lemma read_message:
  assumes "float_codec fr fo" "storable m"
  shows "\<exists>d. serialize_message fr m = Some (JObj d) \<and> parse_message fo (JObj d) = Parsed m"
proof (cases m)
  case (FullMsg x)
  show ?thesis
  proof (cases x)
    case (SystemMsg s)
    with FullMsg assms(2) obtain d where d: "serialize_full fr (SystemMsg s) = Some d" and ok: "message_ok (SystemMsg s)" by auto
    have "dict_get d (lit ''role'') = Some (JStr (lit ''system''))" using d by auto
    with read_system [OF ok d] FullMsg SystemMsg d show ?thesis
      by (simp add: parse_message_def parse_system_def typed_def with_content_def read_content del: serialize_full.simps)
  next
    case (UserMsg u)
    with FullMsg show ?thesis
      by (simp add: parse_message_def typed_def with_content_def read_content)
  next
    case (AssistantMsg a)
    with FullMsg assms(2) obtain d where d: "serialize_full fr (AssistantMsg a) = Some d" and ok: "assistant_ok a" by auto
    have "dict_get d (lit ''role'') = Some (JStr (lit ''assistant''))" using d by auto
    with read_assistant [OF assms(1) ok d] FullMsg AssistantMsg d show ?thesis
      by (simp add: parse_message_def typed_def del: serialize_full.simps)
  next
    case (ToolResultMsg t)
    with FullMsg assms(2) obtain d where d: "serialize_full fr (ToolResultMsg t) = Some d" and ok: "message_ok x" by auto
    have "dict_get d (lit ''role'') = Some (JStr (lit ''toolResult''))" using d by auto
    with read_tool_result [OF assms(1) _ d] ok FullMsg ToolResultMsg d show ?thesis
      by (simp add: parse_message_def typed_def del: serialize_full.simps)
  next
    case (BashMsg b)
    with FullMsg show ?thesis by (auto simp: parse_message_def typed_def parse_bash_def intro!: bash_execution_message.equality)
  next
    case (CustomMsg c)
    with FullMsg show ?thesis
      by (auto simp: parse_message_def typed_def with_content_def read_content intro!: custom_message.equality)
  next
    case (BranchSummaryMsg b)
    with FullMsg show ?thesis
      by (cases "bs_from_id b") (auto simp: parse_message_def typed_def intro!: branch_summary_message.equality)
  next
    case (CompactionSummaryMsg c)
    with FullMsg show ?thesis by (auto simp: parse_message_def typed_def intro!: compaction_summary_message.equality)
  next
    case (OtherMsg r)
    with FullMsg assms(2) show ?thesis by simp
  qed
next
  case (NullContent x)
  with assms(2) consider s where "x = SystemMsg s" "message_ok (SystemMsg s)" "sm_content s = StrContent []"
    | u where "x = UserMsg u" "um_content u = StrContent []" | c where "x = CustomMsg c" "cm_content c = StrContent []"
    by (cases x) auto
  then show ?thesis
  proof cases
    case 1
    then obtain d where d: "serialize_full fr (SystemMsg s) = Some d" by auto
    let ?d = "dict_set (lit ''content'') JNull d"
    have "parse_sections ?d = parse_sections d" "list_field parse_tool ?d (lit ''toolsAdded'') = list_field parse_tool d (lit ''toolsAdded'')"
      "list_field parse_reference ?d (lit ''toolsRemoved'') = list_field parse_reference d (lit ''toolsRemoved'')"
      by (simp_all add: parse_sections_def list_field_def update_conv')
    moreover have "dict_get d (lit ''role'') = Some (JStr (lit ''system''))" using d by auto
    ultimately show ?thesis using read_system [OF 1(2) d] 1 NullContent d
      by (auto simp: parse_message_def parse_system_def typed_def with_content_def update_conv' simp del: serialize_full.simps
        intro!: system_message.equality)
  next
    case 2
    with NullContent show ?thesis
      by (auto simp: parse_message_def typed_def with_content_def update_conv' intro!: user_message.equality)
  next
    case 3
    with NullContent show ?thesis
      by (auto simp: parse_message_def typed_def with_content_def update_conv' intro!: custom_message.equality)
  qed
qed


subsection \<open>What reading gives\<close>

text \<open>The floats of a message.\<close>

fun usage_floats :: "usage option \<Rightarrow> pyfloat list" where
  "usage_floats None = []"
| "usage_floats (Some u) =
     [uc_input (us_cost u), uc_output (us_cost u), uc_cache_read (us_cost u), uc_cache_write (us_cost u), uc_total (us_cost u)]"

fun message_floats :: "raw_message \<Rightarrow> pyfloat list" where
  "message_floats (FullMsg (AssistantMsg m)) = usage_floats (am_usage m)"
| "message_floats (FullMsg (ToolResultMsg m)) = usage_floats (trm_usage m)"
| "message_floats _ = []"

lemma typed_Parsed [simp]: "typed m = Parsed x \<longleftrightarrow> m = Some x"
  by (simp add: typed_def split: option.split)

lemma mapM_Some: "mapM f xs = Some ys \<Longrightarrow> list_all2 (\<lambda>x y. f x = Some y) xs ys"
  by (induction xs arbitrary: ys) (auto simp: bind_eq_Some_conv)

lemma parse_tool_ok: "parse_tool v = Some t \<Longrightarrow> tool_ok t"
  by (auto simp: parse_tool_def tool_ok_def bind_eq_Some_conv split: json.splits)

lemma parse_tools_ok: "list_field parse_tool d k = Some (Some ts) \<Longrightarrow> list_all tool_ok ts"
  by (auto simp: list_field_def list_all2_conv_all_nth list_all_length split: option.splits json.splits
    dest!: mapM_Some) (metis parse_tool_ok)

lemma read_diagnostic_written: "read_diagnostic v = Some w \<Longrightarrow> \<exists>g. w = serialize_diagnostic g"
  by (auto simp: read_diagnostic_def split: json.splits)

lemma written_diagnostics: "list_all2 (\<lambda>v w. read_diagnostic v = Some w) vs ws \<Longrightarrow> \<exists>gs. ws = map serialize_diagnostic gs"
proof (induction rule: list_all2_induct)
  case (Cons v vs w ws)
  then obtain g gs where "w = serialize_diagnostic g" "ws = map serialize_diagnostic gs" using read_diagnostic_written by blast
  then show ?case by (intro exI [of _ "g # gs"]) simp
qed simp

lemma diagnostics_field_ok: "diagnostics_field d = Some (Some v) \<Longrightarrow> \<exists>gs. v = JArr (map serialize_diagnostic gs)"
  by (auto simp: diagnostics_field_def split: option.splits json.splits dest!: mapM_Some written_diagnostics)

lemma deferred_field_ok: "deferred_field d = Some (Some v) \<Longrightarrow> \<exists>h. v = serialize_deferred_handle h"
  by (auto simp: deferred_field_def split: option.splits json.splits)

lemma parse_assistant_ok: "parse_assistant fo d = Some m \<Longrightarrow> list_all finite_float (usage_floats (am_usage m)) \<Longrightarrow> assistant_ok m"
  using diagnostics_field_ok [of d] deferred_field_ok [of d]
  by (auto simp: parse_assistant_def assistant_ok_def usage_ok_def bind_eq_Some_conv split: option.split)

lemma parsed_storable:
  assumes "parse_message fo j = Parsed m" "list_all finite_float (message_floats m)"
  shows "storable m"
proof -
  from assms(1) obtain d where j: "j = JObj d" by (cases j) (auto simp: parse_message_def)
  let ?role = "\<lambda>r. dict_get d (lit ''role'') = Some (JStr (lit r))"
  from assms(1) consider "?role ''system''" | "?role ''user''" | "?role ''assistant''" | "?role ''toolResult''" | "?role ''custom''"
    | "?role ''bashExecution''" | "?role ''branchSummary''" | "?role ''compactionSummary''"
    by (auto simp: j parse_message_def Let_def split: if_splits)
  then show ?thesis
  proof cases
    case 1
    with assms(1) show ?thesis
      by (auto simp: j parse_message_def parse_system_def with_content_def bind_eq_Some_conv split: option.split dest: parse_tools_ok)
  next
    case 2
    with assms(1) show ?thesis by (auto simp: j parse_message_def with_content_def bind_eq_Some_conv split: option.split)
  next
    case 3
    with assms show ?thesis by (auto simp: j parse_message_def dest: parse_assistant_ok)
  next
    case 4
    with assms show ?thesis by (auto simp: j parse_message_def usage_ok_def split: option.split)
  next
    case 5
    with assms(1) show ?thesis by (auto simp: j parse_message_def with_content_def bind_eq_Some_conv split: option.split)
  qed (use assms(1) in \<open>auto simp: j parse_message_def bind_eq_Some_conv\<close>)
qed


subsection \<open>Examples\<close>

text \<open>A codec of floats, for the examples: the bit pattern in decimal.\<close>

definition example_fr :: "pyfloat \<Rightarrow> pystr" where "example_fr x = [x]"
definition example_fo :: "pystr \<Rightarrow> pyfloat" where "example_fo t = hd t"

lemma example_codec: "float_codec example_fr example_fo"
  by (simp add: float_codec_def example_fr_def example_fo_def)

definition example_call :: message where
  "example_call = AssistantMsg \<lparr>am_content = [ThinkingContent (lit ''t'') None True, ToolCallContent \<lparr>call_id = lit ''c'', call_name = lit ''read'',
       call_arguments = [(lit ''path'', JStr (lit ''f''))], call_thought_signature = None, call_namespace = None, call_arguments_error = None\<rparr>],
     am_api = lit ''a'', am_provider = lit ''p'', am_model = lit ''m'', am_usage = Some (empty_usage\<lparr>us_reasoning := Some 3\<rparr>),
     am_stop_reason = ToolUse, am_timestamp = 5, am_response_model = None, am_response_id = Some (lit ''r''),
     am_provider_thinking_level = None, am_thinking_level = None,
     am_diagnostics = Some (JArr (map serialize_diagnostic [\<lparr>dg_type = lit ''d'', dg_timestamp = 1, dg_error = None, dg_details = None\<rparr>])),
     am_error_message = None, am_raw_stop_reason = None, am_end_turn = Some False, am_deferred = None, am_duration_ms = None\<rparr>"

lemma example_storable: "storable (FullMsg example_call)"
  by (auto simp: example_call_def assistant_ok_def usage_ok_def empty_usage_def finite_float_def
    intro: exI [of _ "[\<lparr>dg_type = lit ''d'', dg_timestamp = 1, dg_error = None, dg_details = None\<rparr>]"])



end
