(* ===== verification/Json_Text.thy ===== *)
theory Json_Text
  imports Messages
begin

section \<open>Reading JSON text\<close>

text \<open>
  What the sources use of \<open>json.loads\<close> of the standard library, for the texts \<open>json.dumps\<close> writes and
  for any other: \<open>None\<close> is the error it raises. A number with a fraction or an exponent is kept as the
  text \<open>canon\<close> gives for it, \<open>repr(float(t))\<close>. The nesting depth and the number of
  digits at which the interpreter gives up are not modelled.
\<close>

subsection \<open>Strings\<close>

definition hex_value :: "nat \<Rightarrow> nat option" where
  "hex_value c = (if 48 \<le> c \<and> c \<le> 57 then Some (c - 48) else if 97 \<le> c \<and> c \<le> 102 then Some (c - 87)
     else if 65 \<le> c \<and> c \<le> 70 then Some (c - 55) else None)"

fun hex4 :: "pystr \<Rightarrow> (nat \<times> pystr) option" where
  "hex4 (a # b # c # d # rest) =
     (case (hex_value a, hex_value b, hex_value c, hex_value d) of
        (Some w, Some x, Some y, Some z) \<Rightarrow> Some (4096 * w + 256 * x + 16 * y + z, rest)
      | _ \<Rightarrow> None)"
| "hex4 _ = None"

text \<open>After the \<open>u\<close> of an escape: a low surrogate that follows a high one is joined to it.\<close>

definition scan_u :: "pystr \<Rightarrow> (nat \<times> pystr) option" where
  "scan_u s =
    (case hex4 s of
       None \<Rightarrow> None
     | Some (u, rest) \<Rightarrow>
         (if 0xD800 \<le> u \<and> u \<le> 0xDBFF \<and> take 2 rest = [92, 117] then
            (case hex4 (drop 2 rest) of
               None \<Rightarrow> None
             | Some (v, rest') \<Rightarrow>
                 if 0xDC00 \<le> v \<and> v \<le> 0xDFFF then Some (0x10000 + (u - 0xD800) * 1024 + (v - 0xDC00), rest') else Some (u, rest))
          else Some (u, rest)))"

definition simple_escape :: "nat \<Rightarrow> nat option" where
  "simple_escape c = map_of [(34, 34), (92, 92), (47, 47), (98, 8), (102, 12), (110, 10), (114, 13), (116, 9)] c"

definition prepend :: "nat \<Rightarrow> (pystr \<times> 'a) option \<Rightarrow> (pystr \<times> 'a) option" where
  "prepend c v = map_option (\<lambda>(s, rest). (c # s, rest)) v"

lemma hex4_shorter: "hex4 s = Some (u, rest) \<Longrightarrow> length rest < length s"
  by (induction s rule: hex4.induct) (auto split: option.splits)

lemma scan_u_shorter: "scan_u s = Some (u, rest) \<Longrightarrow> length rest < length s"
  by (auto simp: scan_u_def split: option.splits if_splits dest!: hex4_shorter)

text \<open>After the opening quote.\<close>

function scan_string :: "pystr \<Rightarrow> (pystr \<times> pystr) option" where
  "scan_string [] = None"
| "scan_string (c # cs) =
     (if c = 34 then Some ([], cs)
      else if c = 92 then
        (case cs of
           [] \<Rightarrow> None
         | e # es \<Rightarrow>
             if e = 117 then (case scan_u es of None \<Rightarrow> None | Some (u, rest) \<Rightarrow> prepend u (scan_string rest))
             else (case simple_escape e of None \<Rightarrow> None | Some x \<Rightarrow> prepend x (scan_string es)))
      else if c < 32 then None
      else prepend c (scan_string cs))"
  by pat_completeness auto
termination by (relation "measure length") (auto dest: scan_u_shorter)

subsection \<open>Numbers\<close>

definition is_digit :: "nat \<Rightarrow> bool" where
  "is_digit c \<longleftrightarrow> 48 \<le> c \<and> c \<le> 57"

definition number_char :: "nat \<Rightarrow> bool" where
  "number_char c \<longleftrightarrow> is_digit c \<or> c = 43 \<or> c = 45 \<or> c = 46 \<or> c = 69 \<or> c = 101"

definition digits_value :: "pystr \<Rightarrow> nat" where
  "digits_value ds = foldl (\<lambda>n d. 10 * n + (d - 48)) 0 ds"

text \<open>\<open>0|[1-9][0-9]*\<close>\<close>

definition int_digits :: "pystr \<Rightarrow> bool" where
  "int_digits ds \<longleftrightarrow> ds \<noteq> [] \<and> list_all is_digit ds \<and> (hd ds = 48 \<longrightarrow> length ds = 1)"

definition exponent :: "pystr \<Rightarrow> bool" where
  "exponent t \<longleftrightarrow> (case t of [] \<Rightarrow> False | c # cs \<Rightarrow> (c = 69 \<or> c = 101) \<and>
     (let ds = (case cs of [] \<Rightarrow> [] | d # ds \<Rightarrow> if d = 43 \<or> d = 45 then ds else cs) in ds \<noteq> [] \<and> list_all is_digit ds))"

definition fraction :: "pystr \<Rightarrow> bool" where
  "fraction t \<longleftrightarrow> (case t of [] \<Rightarrow> False | c # cs \<Rightarrow>
     if c = 46 then takeWhile is_digit cs \<noteq> [] \<and> (dropWhile is_digit cs = [] \<or> exponent (dropWhile is_digit cs)) else exponent t)"

definition unsigned :: "pystr \<Rightarrow> pystr" where
  "unsigned t = (case t of [] \<Rightarrow> [] | c # cs \<Rightarrow> if c = 45 then cs else t)"

definition float_text :: "pystr \<Rightarrow> bool" where
  "float_text t \<longleftrightarrow> list_all number_char t \<and> int_digits (takeWhile is_digit (unsigned t)) \<and> fraction (dropWhile is_digit (unsigned t))"

text \<open>
  The number at the front. The regular expression of the scanner would stop before a character that
  cannot continue the number, and the text would be refused there.
\<close>

definition number_value :: "(pystr \<Rightarrow> pystr) \<Rightarrow> pystr \<Rightarrow> json option" where
  "number_value canon t =
    (if int_digits (unsigned t) then
       Some (JInt (if t = unsigned t then int (digits_value t) else - int (digits_value (unsigned t))))
     else if float_text t then Some (JFloat (canon t)) else None)"

subsection \<open>Values\<close>

definition is_ws :: "nat \<Rightarrow> bool" where
  "is_ws c \<longleftrightarrow> c = 32 \<or> c = 9 \<or> c = 10 \<or> c = 13"

abbreviation skip_ws :: "pystr \<Rightarrow> pystr" where
  "skip_ws \<equiv> dropWhile is_ws"

definition literals :: "(pystr \<times> json) list" where
  "literals = [(lit ''null'', JNull), (lit ''true'', JBool True), (lit ''false'', JBool False), (lit ''NaN'', JFloat (lit ''NaN'')),
     (lit ''Infinity'', JFloat (lit ''Infinity'')), (lit ''-Infinity'', JFloat (lit ''-Infinity''))]"

definition scan_literal :: "(pystr \<Rightarrow> pystr) \<Rightarrow> pystr \<Rightarrow> (json \<times> pystr) option" where
  "scan_literal canon s =
    (case find (\<lambda>(t, v). prefix t s) literals of
       Some (t, v) \<Rightarrow> Some (v, drop (length t) s)
     | None \<Rightarrow> map_option (\<lambda>v. (v, dropWhile number_char s)) (number_value canon (takeWhile number_char s)))"

text \<open>A repeated key keeps its first place and gets the last value.\<close>

definition dict_of :: "(pystr \<times> json) list \<Rightarrow> (pystr, json) dict" where
  "dict_of kvs = fold (\<lambda>(k, v). dict_set k v) kvs []"

text \<open>The fuel bounds the nested calls; twice the length of the text is enough.\<close>

fun scan_value :: "(pystr \<Rightarrow> pystr) \<Rightarrow> nat \<Rightarrow> pystr \<Rightarrow> (json \<times> pystr) option"
  and scan_items :: "(pystr \<Rightarrow> pystr) \<Rightarrow> nat \<Rightarrow> pystr \<Rightarrow> (json list \<times> pystr) option"
  and scan_pairs :: "(pystr \<Rightarrow> pystr) \<Rightarrow> nat \<Rightarrow> pystr \<Rightarrow> ((pystr \<times> json) list \<times> pystr) option" where
  "scan_value canon 0 s = None"
| "scan_value canon (Suc n) s =
     (case s of
        [] \<Rightarrow> None
      | c # cs \<Rightarrow>
          if c = 34 then map_option (\<lambda>(t, rest). (JStr t, rest)) (scan_string cs)
          else if c = 91 then
            (case skip_ws cs of
               [] \<Rightarrow> None
             | d # ds \<Rightarrow> if d = 93 then Some (JArr [], ds)
                 else map_option (\<lambda>(vs, rest). (JArr vs, rest)) (scan_items canon n (d # ds)))
          else if c = 123 then
            (case skip_ws cs of
               [] \<Rightarrow> None
             | d # ds \<Rightarrow> if d = 125 then Some (JObj [], ds)
                 else map_option (\<lambda>(kvs, rest). (JObj (dict_of kvs), rest)) (scan_pairs canon n (d # ds)))
          else scan_literal canon s)"
| "scan_items canon 0 s = None"
| "scan_items canon (Suc n) s =
     (case scan_value canon n s of
        None \<Rightarrow> None
      | Some (v, rest) \<Rightarrow>
          (case skip_ws rest of
             [] \<Rightarrow> None
           | c # cs \<Rightarrow>
               if c = 93 then Some ([v], cs)
               else if c = 44 then map_option (\<lambda>(vs, r). (v # vs, r)) (scan_items canon n (skip_ws cs))
               else None))"
| "scan_pairs canon 0 s = None"
| "scan_pairs canon (Suc n) s =
     (case s of
        [] \<Rightarrow> None
      | q # qs \<Rightarrow>
          if q \<noteq> 34 then None
          else (case scan_string qs of
             None \<Rightarrow> None
           | Some (k, after_key) \<Rightarrow>
               (case skip_ws after_key of
                  [] \<Rightarrow> None
                | e # es \<Rightarrow>
                    if e \<noteq> 58 then None
                    else (case scan_value canon n (skip_ws es) of
                       None \<Rightarrow> None
                     | Some (v, rest) \<Rightarrow>
                         (case skip_ws rest of
                            [] \<Rightarrow> None
                          | c # cs \<Rightarrow>
                              if c = 125 then Some ([(k, v)], cs)
                              else if c = 44 then map_option (\<lambda>(kvs, r). ((k, v) # kvs, r)) (scan_pairs canon n (skip_ws cs))
                              else None)))))"

definition json_loads :: "(pystr \<Rightarrow> pystr) \<Rightarrow> pystr \<Rightarrow> json option" where
  "json_loads canon s =
    (if take 1 s = [65279] then None
     else case scan_value canon (2 * length s + 2) (skip_ws s) of
       Some (v, rest) \<Rightarrow> if skip_ws rest = [] then Some v else None
     | None \<Rightarrow> None)"

subsection \<open>Reading what \<open>json.dumps\<close> wrote\<close>

lemma hex_value_digit: "n < 16 \<Longrightarrow> hex_value (hex_digit n) = Some n"
  by (auto simp: hex_value_def hex_digit_def)

lemma scan_u_control: "c < 32 \<Longrightarrow> scan_u ([hex_digit (c div 4096 mod 16), hex_digit (c div 256 mod 16), hex_digit (c div 16 mod 16),
    hex_digit (c mod 16)] @ r) = Some (c, r)"
  by (simp add: scan_u_def hex_value_digit)

lemma escape_first: "c < 32 \<or> c = 34 \<or> c = 92 \<Longrightarrow> \<exists>e es. json_escape_char False c = 92 # e # es \<and>
    (if e = 117 then es = [hex_digit (c div 4096 mod 16), hex_digit (c div 256 mod 16), hex_digit (c div 16 mod 16), hex_digit (c mod 16)] \<and> c < 32
     else es = [] \<and> simple_escape e = Some c)"
  by (auto simp: json_escape_char_def u_escape_def simple_escape_def lit_def)

lemma scan_escaped: "scan_string (json_escape_char False c @ r) = prepend c (scan_string r)"
proof (cases "c < 32 \<or> c = 34 \<or> c = 92")
  case True
  from escape_first [OF this] obtain e es where "json_escape_char False c = 92 # e # es"
    "if e = 117 then es = [hex_digit (c div 4096 mod 16), hex_digit (c div 256 mod 16), hex_digit (c div 16 mod 16), hex_digit (c mod 16)] \<and> c < 32
     else es = [] \<and> simple_escape e = Some c" by blast
  then show ?thesis using scan_u_control [of c r] by (auto split: if_splits)
next
  case False
  then show ?thesis by (auto simp: json_escape_char_def)
qed

lemma scan_written_string: "scan_string (concat (map (json_escape_char False) s) @ 34 # r) = Some (s, r)"
  by (induction s) (simp_all add: scan_escaped prepend_def)

lemma digits_value_append: "digits_value (ds @ [d]) = 10 * digits_value ds + (d - 48)"
  by (simp add: digits_value_def)

lemma nat_digits_shape: "list_all is_digit (nat_digits n) \<and> digits_value (nat_digits n) = n \<and> (hd (nat_digits n) = 48 \<longrightarrow> n = 0)"
proof (induction n rule: nat_digits.induct)
  case (1 n)
  show ?case
  proof (cases "n < 10")
    case True
    then show ?thesis by (simp add: nat_digits.simps [of n] is_digit_def digits_value_def)
  next
    case False
    with 1 show ?thesis
      by (auto simp: nat_digits.simps [of n] is_digit_def digits_value_append)
  qed
qed

lemma nat_digits_int: "int_digits (nat_digits n)"
  using nat_digits_shape [of n] by (auto simp: int_digits_def nat_digits.simps [of 0])

lemma digit_no_minus: "list_all is_digit ds \<Longrightarrow> unsigned ds = ds"
  by (cases ds) (auto simp: unsigned_def is_digit_def)

text \<open>What is written can be read: distinct keys, floats in canonical form.\<close>

fun json_plain :: "(pystr \<Rightarrow> pystr) \<Rightarrow> json \<Rightarrow> bool" where
  "json_plain canon (JFloat t) \<longleftrightarrow> float_text t \<and> canon t = t"
| "json_plain canon (JArr vs) \<longleftrightarrow> list_all (json_plain canon) vs"
| "json_plain canon (JObj kvs) \<longleftrightarrow> dict_ok kvs \<and> list_all (\<lambda>kv. json_plain canon (snd kv)) kvs"
| "json_plain canon _ \<longleftrightarrow> True"

text \<open>What may follow a value.\<close>

definition value_end :: "pystr \<Rightarrow> bool" where
  "value_end r \<longleftrightarrow> r = [] \<or> hd r \<in> {44, 93, 125}"

lemma value_end_stops: "value_end r \<Longrightarrow> takeWhile number_char r = [] \<and> dropWhile number_char r = r"
  by (cases r) (auto simp: value_end_def number_char_def is_digit_def)

lemma scan_number:
  assumes "number_value canon t = Some v" "list_all number_char t" "value_end r"
  shows "scan_literal canon (t @ r) = Some (v, r)"
proof -
  have ne: "t \<noteq> []" using assms(1) by (auto simp: number_value_def int_digits_def unsigned_def float_text_def)
  have "takeWhile number_char (t @ r) = t" "dropWhile number_char (t @ r) = r"
    using assms(2) value_end_stops [OF assms(3)] by (simp_all add: takeWhile_append2 dropWhile_append2 list_all_iff)
  moreover have "find (\<lambda>(u, v). prefix u (t @ r)) literals = None"
  proof (cases t)
    case (Cons c cs)
    have "number_char c" using assms(2) Cons by simp
    moreover have "\<not> prefix (lit ''-Infinity'') (t @ r)"
    proof (cases cs)
      case Nil
      with assms(1) Cons have "c \<noteq> 45" by (auto simp: number_value_def int_digits_def unsigned_def float_text_def)
      with Cons show ?thesis by (simp add: lit_def)
    next
      case (Cons d ds)
      with \<open>t = c # cs\<close> assms(2) show ?thesis by (auto simp: lit_def number_char_def is_digit_def)
    qed
    ultimately show ?thesis unfolding Cons by (auto simp: literals_def lit_def number_char_def is_digit_def)
  qed (use ne in simp)
  ultimately show ?thesis using assms(1) by (simp add: scan_literal_def)
qed


lemma int_number: "number_value canon (int_str i) = Some (JInt i) \<and> list_all number_char (int_str i)"
proof -
  let ?ds = "nat_digits (nat \<bar>i\<bar>)"
  have ds: "int_digits ?ds" "list_all is_digit ?ds" "digits_value ?ds = nat \<bar>i\<bar>" "unsigned ?ds = ?ds"
    using nat_digits_int nat_digits_shape digit_no_minus by blast+
  have str: "int_str i = (if i < 0 then 45 # ?ds else ?ds)" by (simp add: int_str_def)
  have "list_all number_char ?ds" using ds(2) by (simp add: list_all_iff number_char_def)
  moreover have "unsigned (45 # ?ds) = ?ds" by (simp add: unsigned_def)
  ultimately show ?thesis
    using ds by (cases "i < 0") (simp_all add: str number_value_def number_char_def)
qed

lemma float_number: "float_text t \<Longrightarrow> number_value canon t = Some (JFloat (canon t)) \<and> list_all number_char t"
proof -
  assume t: "float_text t"
  have "dropWhile is_digit (unsigned t) \<noteq> []"
  proof
    assume "dropWhile is_digit (unsigned t) = []"
    with t show False unfolding float_text_def fraction_def by simp
  qed
  then have "\<not> list_all is_digit (unsigned t)" by (metis dropWhile_eq_Nil_conv list_all_iff)
  then have "\<not> int_digits (unsigned t)" by (simp add: int_digits_def)
  with t show ?thesis by (simp add: number_value_def float_text_def)
qed

abbreviation dumps :: "json \<Rightarrow> pystr" where
  "dumps \<equiv> json_dumps False [44] [58]"

lemma number_first: "list_all number_char t \<Longrightarrow> t \<noteq> [] \<Longrightarrow> \<exists>c cs. t = c # cs \<and> number_char c"
  by (cases t) auto

lemma int_str_ne: "int_str i \<noteq> []"
  by (simp add: int_str_def)

lemma float_text_ne: "float_text t \<Longrightarrow> t \<noteq> []"
  by (auto simp: float_text_def int_digits_def unsigned_def)

lemma dumps_first: "json_plain canon v \<Longrightarrow> \<exists>c cs. dumps v = c # cs \<and> \<not> is_ws c \<and> c \<noteq> 93 \<and> c \<noteq> 125 \<and> c < 128"
proof (cases v)
  case (JInt i)
  assume "json_plain canon v"
  with JInt number_first [of "int_str i"] int_number [of canon i] int_str_ne [of i] show ?thesis
    by (auto simp: number_char_def is_digit_def is_ws_def)
next
  case (JFloat t)
  assume "json_plain canon v"
  with JFloat number_first [of t] float_number [of t canon] float_text_ne [of t] show ?thesis
    by (auto simp: number_char_def is_digit_def is_ws_def)
qed (auto simp: lit_def is_ws_def json_str_def)

lemma skip_dumps: "json_plain canon v \<Longrightarrow> skip_ws (dumps v @ r) = dumps v @ r"
  using dumps_first [of canon v] by auto

lemma scan_number_text:
  assumes "number_value canon t = Some v" "list_all number_char t" "value_end r"
  shows "scan_value canon (Suc n) (t @ r) = Some (v, r)"
proof -
  have "t \<noteq> []" using assms(1) by (auto simp: number_value_def int_digits_def unsigned_def float_text_def)
  with assms(2) obtain c cs where "t = c # cs" "number_char c" by (cases t) auto
  with scan_number [OF assms] show ?thesis by (auto simp: number_char_def is_digit_def)
qed

definition reads_back :: "(pystr \<Rightarrow> pystr) \<Rightarrow> json \<Rightarrow> bool" where
  "reads_back canon v \<longleftrightarrow> (\<forall>n r. 2 * length (dumps v) \<le> n \<longrightarrow> value_end r \<longrightarrow> scan_value canon n (dumps v @ r) = Some (v, r))"

lemma scan_written_items:
  "vs \<noteq> [] \<Longrightarrow> list_all (reads_back canon) vs \<Longrightarrow> list_all (json_plain canon) vs \<Longrightarrow>
   2 * length (str_join [44] (map dumps vs)) + 1 \<le> n \<Longrightarrow>
   scan_items canon n (str_join [44] (map dumps vs) @ 93 # r) = Some (vs, r)"
proof (induction vs arbitrary: n)
  case (Cons v vs)
  obtain m where n: "n = Suc m" using Cons.prems(4) by (cases n) auto
  show ?case
  proof (cases vs)
    case Nil
    with Cons.prems(2,4) n have "scan_value canon m (dumps v @ 93 # r) = Some (v, 93 # r)"
      by (auto simp: reads_back_def value_end_def)
    with Nil n show ?thesis by (simp add: is_ws_def)
  next
    case (Cons w ws)
    let ?rest = "str_join [44] (map dumps vs) @ 93 # r"
    have "scan_value canon m (dumps v @ 44 # ?rest) = Some (v, 44 # ?rest)"
      using Cons Cons.prems(2,4) n by (auto simp: reads_back_def value_end_def)
    moreover have "skip_ws ?rest = ?rest"
      using dumps_first [of canon w] Cons.prems(3) Cons by (cases ws) auto
    moreover have "scan_items canon m ?rest = Some (vs, r)"
      using Cons.IH [of m] Cons Cons.prems n by auto
    ultimately show ?thesis using n Cons by (simp add: is_ws_def)
  qed
qed simp


lemma dict_of_distinct: "dict_ok kvs \<Longrightarrow> dict_of kvs = kvs"
proof -
  have "dict_ok (d @ kvs) \<Longrightarrow> fold (\<lambda>(k, v). dict_set k v) kvs d = d @ kvs" for d
  proof (induction kvs arbitrary: d)
    case (Cons kv kvs)
    obtain k v where kv: "kv = (k, v)" by force
    with Cons.prems have "dict_get d k = None" by (auto simp: dict_ok_def map_of_eq_None_iff)
    with Cons.IH [of "d @ [(k, v)]"] Cons.prems kv show ?case by (simp add: dict_set_fresh)
  qed simp
  from this [of "[]"] show "dict_ok kvs \<Longrightarrow> ?thesis" by (simp add: dict_of_def)
qed

definition dump_pair :: "pystr \<times> json \<Rightarrow> pystr" where
  "dump_pair kv = json_str False (fst kv) @ [58] @ dumps (snd kv)"

lemma scan_written_pairs:
  "kvs \<noteq> [] \<Longrightarrow> list_all (\<lambda>kv. reads_back canon (snd kv) \<and> json_plain canon (snd kv)) kvs \<Longrightarrow>
   2 * length (str_join [44] (map dump_pair kvs)) + 1 \<le> n \<Longrightarrow>
   scan_pairs canon n (str_join [44] (map dump_pair kvs) @ 125 # r) = Some (kvs, r)"
proof (induction kvs arbitrary: n)
  case (Cons kv kvs)
  obtain k v where kv: "kv = (k, v)" by force
  obtain m where n: "n = Suc m" using Cons.prems(3) by (cases n) auto
  have plain: "json_plain canon v" using Cons.prems(2) kv by simp
  have key: "dump_pair (k, v) @ x = 34 # concat (map (json_escape_char False) k) @ 34 # 58 # dumps v @ x" for x
    by (simp add: dump_pair_def json_str_def)
  show ?case
  proof (cases kvs)
    case Nil
    with Cons.prems(2,3) n kv have "scan_value canon m (dumps v @ 125 # r) = Some (v, 125 # r)"
      by (auto simp: reads_back_def value_end_def dump_pair_def)
    with Nil n kv show ?thesis
      by (simp add: key scan_written_string is_ws_def skip_dumps [OF plain])
  next
    case (Cons w ws)
    let ?rest = "str_join [44] (map dump_pair kvs) @ 125 # r"
    have "scan_value canon m (dumps v @ 44 # ?rest) = Some (v, 44 # ?rest)"
      using Cons Cons.prems(2,3) n kv by (auto simp: reads_back_def value_end_def dump_pair_def)
    moreover have "skip_ws ?rest = ?rest"
      using Cons by (cases ws) (simp_all add: dump_pair_def json_str_def is_ws_def)
    moreover have "scan_pairs canon m ?rest = Some (kvs, r)"
      using Cons.IH [of m] Cons Cons.prems n by auto
    moreover have "str_join [44] (map dump_pair (kv # kvs)) @ 125 # r = dump_pair kv @ 44 # ?rest"
      using Cons by simp
    ultimately show ?thesis using n kv
      by (simp add: key scan_written_string is_ws_def skip_dumps [OF plain])
  qed
qed simp

lemma scan_written: "json_plain canon v \<Longrightarrow> reads_back canon v"
proof (induction v)
  case JNull
  show ?case unfolding reads_back_def
  proof (intro allI impI)
    fix n r assume "2 * length (dumps JNull) \<le> n"
    then obtain m where "n = Suc m" by (cases n) (auto simp: lit_def)
    then show "scan_value canon n (dumps JNull @ r) = Some (JNull, r)" by (simp add: scan_literal_def literals_def lit_def)
  qed
next
  case (JBool b)
  show ?case unfolding reads_back_def
  proof (intro allI impI)
    fix n r assume "2 * length (dumps (JBool b)) \<le> n"
    then obtain m where "n = Suc m" by (cases n) (auto simp: lit_def split: if_splits)
    then show "scan_value canon n (dumps (JBool b) @ r) = Some (JBool b, r)"
      by (cases b) (simp_all add: scan_literal_def literals_def lit_def)
  qed
next
  case (JInt i)
  show ?case unfolding reads_back_def
  proof (intro allI impI)
    fix n r assume "2 * length (dumps (JInt i)) \<le> n" "value_end r"
    moreover from this obtain m where "n = Suc m" using int_str_ne [of i] by (cases n) auto
    ultimately show "scan_value canon n (dumps (JInt i) @ r) = Some (JInt i, r)"
      using scan_number_text [of canon "int_str i" "JInt i" r] int_number [of canon i] JInt by simp
  qed
next
  case (JFloat t)
  show ?case unfolding reads_back_def
  proof (intro allI impI)
    fix n r assume "2 * length (dumps (JFloat t)) \<le> n" "value_end r"
    moreover from this obtain m where "n = Suc m" using float_text_ne [of t] JFloat by (cases n) auto
    ultimately show "scan_value canon n (dumps (JFloat t) @ r) = Some (JFloat t, r)"
      using scan_number_text [of canon t "JFloat t" r] float_number [of t canon] JFloat by simp
  qed
next
  case (JStr s)
  show ?case unfolding reads_back_def
  proof (intro allI impI)
    fix n r assume "2 * length (dumps (JStr s)) \<le> n"
    then obtain m where "n = Suc m" by (cases n) (auto simp: json_str_def)
    then show "scan_value canon n (dumps (JStr s) @ r) = Some (JStr s, r)"
      by (simp add: json_str_def scan_written_string)
  qed
next
  case (JArr vs)
  then have ok: "list_all (reads_back canon) vs" "list_all (json_plain canon) vs" by (auto simp: list_all_iff)
  show ?case unfolding reads_back_def
  proof (intro allI impI)
    fix n r assume n: "2 * length (dumps (JArr vs)) \<le> n"
    then obtain m where m: "n = Suc m" by (cases n) auto
    show "scan_value canon n (dumps (JArr vs) @ r) = Some (JArr vs, r)"
    proof (cases "vs = []")
      case False
      then obtain c cs where c: "str_join [44] (map dumps vs) = c # cs" "\<not> is_ws c" "c \<noteq> 93"
        using dumps_first [of canon "hd vs"] ok(2) by (cases vs rule: list.exhaust; cases "tl vs") auto
      have "scan_items canon m (str_join [44] (map dumps vs) @ 93 # r) = Some (vs, r)"
        by (rule scan_written_items) (use False ok n m in auto)
      with c m show ?thesis by simp
    qed (use m in \<open>simp add: is_ws_def\<close>)
  qed
next
  case (JObj kvs)
  have ok: "list_all (\<lambda>kv. reads_back canon (snd kv) \<and> json_plain canon (snd kv)) kvs"
    using JObj by (fastforce simp: list_all_iff)
  have dump: "dumps (JObj kvs) = [123] @ str_join [44] (map dump_pair kvs) @ [125]"
    by (simp add: dump_pair_def [abs_def])
  show ?case unfolding reads_back_def dump
  proof (intro allI impI)
    fix n r assume n: "2 * length ([123] @ str_join [44] (map dump_pair kvs) @ [125]) \<le> n"
    then obtain m where m: "n = Suc m" by (cases n) auto
    show "scan_value canon n (([123] @ str_join [44] (map dump_pair kvs) @ [125]) @ r) = Some (JObj kvs, r)"
    proof (cases "kvs = []")
      case False
      then obtain c cs where c: "str_join [44] (map dump_pair kvs) = c # cs" "\<not> is_ws c" "c \<noteq> 125"
        by (cases kvs; cases "tl kvs") (auto simp: dump_pair_def json_str_def is_ws_def)
      have "scan_pairs canon m (str_join [44] (map dump_pair kvs) @ 125 # r) = Some (kvs, r)"
        by (rule scan_written_pairs) (use False ok n m in auto)
      with c m JObj(2) show ?thesis by (simp add: dict_of_distinct)
    qed (use m in \<open>simp add: is_ws_def\<close>)
  qed
qed

lemma loads_dumps: "json_plain canon v \<Longrightarrow> json_loads canon (dumps v) = Some v"
proof -
  assume v: "json_plain canon v"
  have "scan_value canon (2 * length (dumps v) + 2) (dumps v @ []) = Some (v, [])"
    using scan_written [OF v] unfolding reads_back_def by (metis le_add1 value_end_def)
  moreover have "take 1 (dumps v) \<noteq> [65279]"
    using dumps_first [OF v] by auto
  ultimately show ?thesis using skip_dumps [OF v, of "[]"] by (simp add: json_loads_def)
qed


text \<open>A value is written on one line.\<close>

lemma set_join: "set (str_join sep xs) \<subseteq> set sep \<union> \<Union> (set ` set xs)"
  by (induction sep xs rule: str_join.induct) auto

lemma escaped_one_line: "NL \<notin> set (json_escape_char False c)"
  by (auto simp: json_escape_char_def u_escape_def hex_digit_def lit_def)

lemma string_one_line: "NL \<notin> set (json_str False s)"
  using escaped_one_line by (auto simp: json_str_def)

lemma number_one_line: "list_all number_char t \<Longrightarrow> NL \<notin> set t"
  by (auto simp: list_all_iff number_char_def is_digit_def)

lemma dumps_one_line: "json_plain canon v \<Longrightarrow> NL \<notin> set (dumps v)"
proof (induction v)
  case (JInt i)
  then show ?case using int_number [of canon i] number_one_line by simp
next
  case (JFloat t)
  then show ?case using number_one_line [of t] by (simp add: float_text_def)
next
  case (JArr vs)
  then show ?case using set_join [of "[44]" "map dumps vs"] by (auto simp: list_all_iff)
next
  case (JObj kvs)
  have "NL \<notin> set (dump_pair kv)" if "kv \<in> set kvs" for kv
  proof -
    have "snd kv \<in> Basic_BNFs.snds kv" by (cases kv) simp
    with JObj that string_one_line [of "fst kv"] show ?thesis by (auto simp: list_all_iff dump_pair_def)
  qed
  then have "NL \<notin> set (str_join [44] (map dump_pair kvs))" using set_join [of "[44]" "map dump_pair kvs"] by auto
  moreover have "dumps (JObj kvs) = [123] @ str_join [44] (map dump_pair kvs) @ [125]" by (simp add: dump_pair_def [abs_def])
  ultimately show ?case by simp
qed (auto simp: lit_def string_one_line)

end
