(* ===== verification/Session_Wire.thy ===== *)
theory Session_Wire
  imports Session_Example Message_Wire_Laws Json_Text
begin

section \<open>Session files (core/session_manager.py)\<close>

text \<open>
  The lines of a session file and the way back: an entry becomes a dict and a line of JSON, a file
  is read in chunks, its header is checked, an unterminated tail is closed, entries of older
  versions are migrated, and the session is built from what was read. As in \<open>Message_Wire\<close>, a value
  of another type than the program's own writers store is not of the model's types, and reading it
  gives \<open>None\<close>; a field that no function reads is dropped, where the program keeps it. The text of a
  file is its decoded text; lone surrogates, which the encoder refuses, are not modelled.
\<close>

subsection \<open>Entries on the wire\<close>

type_synonym wire = "(pystr, json) dict"

fun entry_type :: "entry_body \<Rightarrow> pystr" where
  "entry_type (MessageE m) = lit ''message''"
| "entry_type (ThinkingLevelE l) = lit ''thinking_level_change''"
| "entry_type (ModelChangeE p m) = lit ''model_change''"
| "entry_type (UsageE k p m u n) = lit ''usage''"
| "entry_type (CompactionE c) = lit ''compaction''"
| "entry_type (BranchSummaryE b) = lit ''branch_summary''"
| "entry_type (CustomE t x) = lit ''custom''"
| "entry_type (CustomMessageE t c dp dt) = lit ''custom_message''"
| "entry_type (LabelE t l) = lit ''label''"
| "entry_type (SessionInfoE n) = lit ''session_info''"
| "entry_type (ContextEditE t r) = lit ''context_edit''"
| "entry_type (OtherE t x) = t"

definition base_keys :: "pystr list" where
  "base_keys = [lit ''type'', lit ''id'', lit ''parentId'', lit ''timestamp'']"

text \<open>The fields after the base of an entry, in the order the operations store them.\<close>

fun body_fields :: "(pyfloat \<Rightarrow> pystr) \<Rightarrow> entry_body \<Rightarrow> wire option" where
  "body_fields fr (MessageE m) = map_option (\<lambda>j. [(lit ''message'', j)]) (serialize_message fr m)"
| "body_fields fr (ThinkingLevelE l) = Some [(lit ''thinkingLevel'', JStr l)]"
| "body_fields fr (ModelChangeE p m) = Some [(lit ''provider'', JStr p), (lit ''modelId'', JStr m)]"
| "body_fields fr (UsageE k p m u n) =
     Some ([(lit ''kind'', JStr k), (lit ''provider'', JStr p), (lit ''model'', JStr m), (lit ''usage'', serialize_usage fr u)] @
       put (lit ''note'') (map_option JStr n))"
| "body_fields fr (CompactionE c) =
     Some ([(lit ''summary'', JStr (cb_summary c))] @ put (lit ''firstKeptEntryId'') (map_option JStr (cb_first_kept c)) @
       [(lit ''tokensBefore'', JInt (cb_tokens_before c))] @ put (lit ''details'') (cb_details c) @
       put (lit ''usage'') (map_option (serialize_usage fr) (cb_usage c)) @
       put (lit ''fromHook'') (map_option JBool (cb_from_hook c)) @
       put (lit ''systemMessage'') (Option.bind (cb_system c) (\<lambda>m. serialize_message fr (FullMsg (SystemMsg m)))))"
| "body_fields fr (BranchSummaryE b) =
     Some (put (lit ''fromId'') (map_option JStr (bb_from_id b)) @ [(lit ''summary'', JStr (bb_summary b))] @
       put (lit ''details'') (bb_details b) @ put (lit ''usage'') (map_option (serialize_usage fr) (bb_usage b)) @
       put (lit ''fromHook'') (map_option JBool (bb_from_hook b)))"
| "body_fields fr (CustomE t x) = Some ([(lit ''customType'', JStr t)] @ put (lit ''data'') x)"
| "body_fields fr (CustomMessageE t c dp dt) =
     Some ([(lit ''customType'', JStr t), (lit ''content'', case c of None \<Rightarrow> JNull | Some x \<Rightarrow> serialize_content x),
       (lit ''display'', JBool dp)] @ put (lit ''details'') dt)"
| "body_fields fr (LabelE t l) = Some ([(lit ''targetId'', JStr t)] @ put (lit ''label'') (map_option JStr l))"
| "body_fields fr (SessionInfoE n) = Some (put (lit ''name'') (map_option JStr n))"
| "body_fields fr (ContextEditE t r) =
     Some [(lit ''targetId'', JStr t),
       (lit ''replacement'', case r of None \<Rightarrow> JNull | Some c \<Rightarrow> JObj [(lit ''content'', serialize_content c)])]"
| "body_fields fr (OtherE t x) = as_obj x"

definition entry_to_wire :: "(pyfloat \<Rightarrow> pystr) \<Rightarrow> entry \<Rightarrow> wire option" where
  "entry_to_wire fr e =
    map_option (\<lambda>fields. [(lit ''type'', JStr (entry_type (en_body e))), (lit ''id'', JStr (en_id e)),
        (lit ''parentId'', case en_parent e of None \<Rightarrow> JNull | Some p \<Rightarrow> JStr p), (lit ''timestamp'', JStr (en_timestamp e))] @ fields)
      (body_fields fr (en_body e))"

definition header_to_wire :: "header \<Rightarrow> wire" where
  "header_to_wire h = [(lit ''type'', JStr (lit ''session'')), (lit ''version'', JInt (hdr_version h)), (lit ''id'', JStr (hdr_id h)),
     (lit ''timestamp'', JStr (hdr_timestamp h)), (lit ''cwd'', JStr (hdr_cwd h))] @
     put (lit ''parentSession'') (map_option JStr (hdr_parent_session h))"

fun to_wire :: "(pyfloat \<Rightarrow> pystr) \<Rightarrow> file_entry \<Rightarrow> wire option" where
  "to_wire fr (HeaderF h) = Some (header_to_wire h)"
| "to_wire fr (EntryF e) = entry_to_wire fr e"

text \<open>A line of the file. What has no wire form is no value of the program's own writers.\<close>

definition wire_line :: "(pyfloat \<Rightarrow> pystr) \<Rightarrow> file_entry \<Rightarrow> pystr" where
  "wire_line fr f = (case to_wire fr f of None \<Rightarrow> [] | Some d \<Rightarrow> dumps (JObj d))"

subsection \<open>Reading an entry\<close>

abbreviation need :: "(json \<Rightarrow> 'a option) \<Rightarrow> wire \<Rightarrow> pystr \<Rightarrow> 'a option" where
  "need f d key \<equiv> Option.bind (dict_get d key) f"

definition wire_usage :: "(pystr \<Rightarrow> pyfloat) \<Rightarrow> json \<Rightarrow> usage option" where
  "wire_usage fo v = Option.bind (as_obj v) (parse_usage fo)"

definition wire_message :: "(pystr \<Rightarrow> pyfloat) \<Rightarrow> json \<Rightarrow> raw_message option" where
  "wire_message fo v = (case v of JObj d \<Rightarrow> (case parse_message fo v of Parsed m \<Rightarrow> Some m | _ \<Rightarrow> None) | _ \<Rightarrow> None)"

definition wire_system :: "(pystr \<Rightarrow> pyfloat) \<Rightarrow> json \<Rightarrow> system_message option" where
  "wire_system fo v = (case wire_message fo v of Some (FullMsg (SystemMsg m)) \<Rightarrow> Some m | _ \<Rightarrow> None)"

text \<open>
  The content of a custom message is not decoded: a text stays a text, but a list of blocks stays a
  list of dicts, which no typed value stands for.
\<close>

fun raw_content :: "json \<Rightarrow> content option" where
  "raw_content (JStr s) = Some (StrContent s)"
| "raw_content (JArr []) = Some (Blocks [])"
| "raw_content _ = None"

fun replacement_of :: "json \<Rightarrow> content option" where
  "replacement_of (JObj d) =
     (case dict_get d (lit ''content'') of
        Some (JArr vs) \<Rightarrow> map_option Blocks (mapM parse_content_block vs)
      | Some (JStr s) \<Rightarrow> Some (StrContent s)
      | _ \<Rightarrow> None)"
| "replacement_of _ = None"

definition some_field :: "wire \<Rightarrow> pystr \<Rightarrow> json option" where
  "some_field d key = Option.bind (dict_get d key) some_json"

definition decode_body :: "(pystr \<Rightarrow> pyfloat) \<Rightarrow> pystr \<Rightarrow> wire \<Rightarrow> entry_body option" where
  "decode_body fo t d =
    (if t = lit ''message'' then map_option MessageE (need (wire_message fo) d (lit ''message''))
     else if t = lit ''thinking_level_change'' then map_option ThinkingLevelE (need as_str d (lit ''thinkingLevel''))
     else if t = lit ''model_change'' then do {
       p \<leftarrow> need as_str d (lit ''provider'');
       m \<leftarrow> need as_str d (lit ''modelId'');
       Some (ModelChangeE p m) }
     else if t = lit ''usage'' then do {
       k \<leftarrow> need as_str d (lit ''kind'');
       p \<leftarrow> need as_str d (lit ''provider'');
       m \<leftarrow> need as_str d (lit ''model'');
       u \<leftarrow> need (wire_usage fo) d (lit ''usage'');
       n \<leftarrow> str_opt d (lit ''note'');
       Some (UsageE k p m u n) }
     else if t = lit ''compaction'' then do {
       summary \<leftarrow> need as_str d (lit ''summary'');
       first_kept \<leftarrow> str_opt d (lit ''firstKeptEntryId'');
       tokens_before \<leftarrow> need as_int d (lit ''tokensBefore'');
       usage \<leftarrow> read_opt (wire_usage fo) (dict_get d (lit ''usage''));
       from_hook \<leftarrow> bool_opt d (lit ''fromHook'');
       system \<leftarrow> read_opt (wire_system fo) (dict_get d (lit ''systemMessage''));
       Some (CompactionE \<lparr>cb_summary = summary, cb_first_kept = first_kept, cb_tokens_before = tokens_before,
         cb_details = some_field d (lit ''details''), cb_usage = usage, cb_from_hook = from_hook, cb_system = system\<rparr>) }
     else if t = lit ''branch_summary'' then do {
       summary \<leftarrow> need as_str d (lit ''summary'');
       from_id \<leftarrow> str_opt d (lit ''fromId'');
       usage \<leftarrow> read_opt (wire_usage fo) (dict_get d (lit ''usage''));
       from_hook \<leftarrow> bool_opt d (lit ''fromHook'');
       Some (BranchSummaryE \<lparr>bb_summary = summary, bb_from_id = from_id, bb_details = some_field d (lit ''details''),
         bb_usage = usage, bb_from_hook = from_hook\<rparr>) }
     else if t = lit ''custom'' then
       map_option (\<lambda>c. CustomE c (some_field d (lit ''data''))) (need as_str d (lit ''customType''))
     else if t = lit ''custom_message'' then do {
       c \<leftarrow> need as_str d (lit ''customType'');
       body \<leftarrow> read_opt raw_content (dict_get d (lit ''content''));
       display \<leftarrow> need as_bool d (lit ''display'');
       Some (CustomMessageE c body display (some_field d (lit ''details''))) }
     else if t = lit ''label'' then do {
       target \<leftarrow> need as_str d (lit ''targetId'');
       l \<leftarrow> str_opt d (lit ''label'');
       Some (LabelE target l) }
     else if t = lit ''session_info'' then map_option SessionInfoE (str_opt d (lit ''name''))
     else if t = lit ''context_edit'' then do {
       target \<leftarrow> need as_str d (lit ''targetId'');
       r \<leftarrow> read_opt replacement_of (dict_get d (lit ''replacement''));
       Some (ContextEditE target r) }
     else Some (OtherE t (JObj (filter (\<lambda>(k, v). k \<notin> set base_keys) d))))"

definition decode_entry :: "(pystr \<Rightarrow> pyfloat) \<Rightarrow> wire \<Rightarrow> entry option" where
  "decode_entry fo d = do {
     t \<leftarrow> need as_str d (lit ''type'');
     i \<leftarrow> need as_str d (lit ''id'');
     p \<leftarrow> str_opt d (lit ''parentId'');
     ts \<leftarrow> need as_str d (lit ''timestamp'');
     body \<leftarrow> decode_body fo t d;
     Some \<lparr>en_id = i, en_parent = p, en_timestamp = ts, en_body = body\<rparr> }"

definition header_of_wire :: "wire \<Rightarrow> header option" where
  "header_of_wire d = do {
     version \<leftarrow> need as_int d (lit ''version'');
     i \<leftarrow> need as_str d (lit ''id'');
     ts \<leftarrow> need as_str d (lit ''timestamp'');
     cwd \<leftarrow> need as_str d (lit ''cwd'');
     parent \<leftarrow> str_opt d (lit ''parentSession'');
     Some \<lparr>hdr_version = version, hdr_id = i, hdr_timestamp = ts, hdr_cwd = cwd, hdr_parent_session = parent\<rparr> }"

definition is_session :: "wire \<Rightarrow> bool" where
  "is_session d \<longleftrightarrow> dict_get d (lit ''type'') = Some (JStr (lit ''session''))"

definition of_wire :: "(pystr \<Rightarrow> pyfloat) \<Rightarrow> wire \<Rightarrow> file_entry option" where
  "of_wire fo d = (if is_session d then map_option HeaderF (header_of_wire d) else map_option EntryF (decode_entry fo d))"

subsection \<open>Lines\<close>

definition parse_session_entry_line :: "(pystr \<Rightarrow> pystr) \<Rightarrow> pystr \<Rightarrow> wire option" where
  "parse_session_entry_line canon line =
    (if py_strip line = [] then None else Option.bind (json_loads canon line) as_obj)"

definition parse_session_entries :: "(pystr \<Rightarrow> pystr) \<Rightarrow> (pystr \<Rightarrow> pyfloat) \<Rightarrow> pystr \<Rightarrow> file_entry list option" where
  "parse_session_entries canon fo body =
    mapM (of_wire fo) (List.map_filter (parse_session_entry_line canon) (split_on NL (py_strip body)))"

subsection \<open>Migrations\<close>

text \<open>An index that is an \<open>int\<close>; \<open>bool\<close> is a subclass of it.\<close>

fun as_index :: "json \<Rightarrow> int option" where
  "as_index (JInt i) = Some i"
| "as_index (JBool b) = Some (if b then 1 else 0)"
| "as_index _ = None"

text \<open>
  \<open>firstKeptEntryIndex\<close> of a compaction; the list already holds the entry with its id. An entry
  that follows has no id yet unless the file gave it one, and reading it raises.
\<close>

definition first_kept_by_id :: "wire list \<Rightarrow> wire \<Rightarrow> wire result" where
  "first_kept_by_id entries e =
    (if dict_get e (lit ''type'') = Some (JStr (lit ''compaction'')) then
       (case need as_index e (lit ''firstKeptEntryIndex'') of
          None \<Rightarrow> Inr e
        | Some k \<Rightarrow>
            (let target = (if 0 \<le> k \<and> k < int (length entries) then entries ! nat k else [])
             in if target \<noteq> [] \<and> \<not> is_session target then
                  (case dict_get target (lit ''id'') of
                     None \<Rightarrow> Inl (lit ''id'')
                   | Some v \<Rightarrow> Inr (dict_pop (lit ''firstKeptEntryIndex'') (dict_set (lit ''firstKeptEntryId'') v e)))
                else Inr (dict_pop (lit ''firstKeptEntryIndex'') e)))
     else Inr e)"

text \<open>Random ids drawn, ids given, the previous id, the entries already migrated and the rest.\<close>

fun migrate_v1_to_v2 :: "env \<Rightarrow> nat \<Rightarrow> pystr list \<Rightarrow> json \<Rightarrow> wire list \<Rightarrow> wire list \<Rightarrow> wire list result" where
  "migrate_v1_to_v2 env n ids prev migrated [] = Inr migrated"
| "migrate_v1_to_v2 env n ids prev migrated (e # rest) =
    (if is_session e then
       migrate_v1_to_v2 env n ids prev (migrated @ [dict_set (lit ''version'') (JInt 2) e]) rest
     else
       (let (i, n') = generate_id env n ids;
            e1 = dict_set (lit ''parentId'') prev (dict_set (lit ''id'') (JStr i) e)
        in case first_kept_by_id (migrated @ e1 # rest) e1 of
             Inl err \<Rightarrow> Inl err
           | Inr e2 \<Rightarrow> migrate_v1_to_v2 env n' (ids @ [i]) (JStr i) (migrated @ [e2]) rest))"

definition rename_hook_message :: "wire \<Rightarrow> wire" where
  "rename_hook_message e =
    (if is_session e then dict_set (lit ''version'') (JInt 3) e
     else if dict_get e (lit ''type'') = Some (JStr (lit ''message'')) then
       (case dict_get e (lit ''message'') of
          Some (JObj m) \<Rightarrow>
            if dict_get m (lit ''role'') = Some (JStr (lit ''hookMessage''))
            then dict_set (lit ''message'') (JObj (dict_set (lit ''role'') (JStr (lit ''custom'')) m)) e else e
        | _ \<Rightarrow> e)
     else e)"

definition migrate_v2_to_v3 :: "wire list \<Rightarrow> wire list" where
  "migrate_v2_to_v3 entries = map rename_hook_message entries"

text \<open>
  The version the header names, 1 without one. Comparing a text, a list or a dict with a number
  raises; a version that is a float is not modelled (\<open>None\<close>).
\<close>

definition session_version :: "wire list \<Rightarrow> int result option" where
  "session_version entries =
    (case Option.bind (find is_session entries) (\<lambda>h. dict_get h (lit ''version'')) of
       None \<Rightarrow> Some (Inr 1)
     | Some JNull \<Rightarrow> Some (Inr 1)
     | Some (JFloat t) \<Rightarrow> None
     | Some v \<Rightarrow> Some (case as_index v of Some i \<Rightarrow> Inr i | None \<Rightarrow> Inl (lit ''TypeError'')))"

text \<open>The entries and whether a migration was applied.\<close>

definition migrate_to_current_version :: "env \<Rightarrow> wire list \<Rightarrow> (wire list \<times> bool) result option" where
  "migrate_to_current_version env entries =
    map_option (\<lambda>r. case r of
        Inl err \<Rightarrow> Inl err
      | Inr v \<Rightarrow>
          (if CURRENT_SESSION_VERSION \<le> v then Inr (entries, False)
           else case (if v < 2 then migrate_v1_to_v2 env 0 [] JNull [] entries else Inr entries) of
             Inl err \<Rightarrow> Inl err
           | Inr es \<Rightarrow> Inr (if v < 3 then migrate_v2_to_v3 es else es, True)))
      (session_version entries)"

subsection \<open>Reading a file\<close>

text \<open>
  What the host gives: the number a text of the file stands for and its canonical text, how reading
  a file cuts its text (for loading, and with the bytes of each piece for the search of the header;
  the decoder may hold back a rest until the end), the resolved path, the directory of a path and
  the working directory.
\<close>

record host =
  ho_float :: "pystr \<Rightarrow> pyfloat"
  ho_canon :: "pystr \<Rightarrow> pystr"
  ho_load :: "pystr \<Rightarrow> pystr list \<times> pystr"
  ho_scan :: "pystr \<Rightarrow> (nat \<times> pystr) list \<times> pystr"
  ho_resolve :: "pystr \<Rightarrow> pystr"
  ho_dirname :: "pystr \<Rightarrow> pystr"
  ho_getcwd :: pystr

text \<open>The inner loop: the complete lines of what is pending, and the rest.\<close>

fun take_lines :: "pystr \<Rightarrow> pystr \<Rightarrow> pystr list \<times> pystr" where
  "take_lines line [] = ([], line)"
| "take_lines line (c # cs) =
     (if c = NL then (let (lines, rest) = take_lines [] cs in (line # lines, rest)) else take_lines (line @ [c]) cs)"

definition load_chunk :: "(pystr \<Rightarrow> pystr) \<Rightarrow> wire list \<times> pystr \<Rightarrow> pystr \<Rightarrow> wire list \<times> pystr" where
  "load_chunk canon st chunk =
    (let (entries, pending) = st; (lines, rest) = take_lines [] (pending @ chunk)
     in (entries @ List.map_filter (parse_session_entry_line canon) lines, rest))"

definition read_wire_entries :: "(pystr \<Rightarrow> pystr) \<Rightarrow> pystr list \<times> pystr \<Rightarrow> wire list \<times> pystr" where
  "read_wire_entries canon pieces =
    (let (entries, pending) = foldl (load_chunk canon) ([], []) (fst pieces);
         pending' = pending @ snd pieces
     in (entries @ List.map_filter (parse_session_entry_line canon) [pending'], pending'))"

definition valid_header :: "wire \<Rightarrow> bool" where
  "valid_header d \<longleftrightarrow> is_session d \<and> need as_str d (lit ''id'') \<noteq> None"

definition load_wire_entries_from_file :: "host \<Rightarrow> pystr \<Rightarrow> disk \<Rightarrow> disk \<times> wire list result" where
  "load_wire_entries_from_file H path d =
    (case dict_get (dk_files d) path of
       None \<Rightarrow> (d, Inr [])
     | Some body \<Rightarrow>
         (let (entries, pending) = read_wire_entries (ho_canon H) (ho_load H body)
          in if entries = [] \<or> \<not> valid_header (hd entries) then (d, Inr [])
             else if pending = [] then (d, Inr entries)
             else case write_session_bytes d path AppendTo [NL] of
               Inl err \<Rightarrow> (d, Inl err)
             | Inr d' \<Rightarrow> (d', Inr entries)))"

subsection \<open>The bounded search for the header\<close>

datatype header_scan = HeaderIs wire | NoHeader | ScanLimit

text \<open>\<open>None\<close>: keep scanning.\<close>

definition header_candidate :: "(pystr \<Rightarrow> pystr) \<Rightarrow> pystr \<Rightarrow> header_scan option" where
  "header_candidate canon line =
    (case parse_session_entry_line canon line of
       None \<Rightarrow> None
     | Some e \<Rightarrow> Some (if valid_header e then HeaderIs e else NoHeader))"

definition scan_end :: "(pystr \<Rightarrow> pystr) \<Rightarrow> pystr \<Rightarrow> header_scan" where
  "scan_end canon line = (case header_candidate canon line of None \<Rightarrow> NoHeader | Some r \<Rightarrow> r)"

text \<open>The bytes still allowed, the line so far, and the pieces; \<open>rest\<close> is what the decoder gives at the end.\<close>

fun scan_pieces :: "(pystr \<Rightarrow> pystr) \<Rightarrow> pystr \<Rightarrow> nat \<Rightarrow> pystr \<Rightarrow> (nat \<times> pystr) list \<Rightarrow> header_scan" where
  "scan_pieces canon rest allowed line [] = scan_end canon (line @ rest)"
| "scan_pieces canon rest allowed line ((n, piece) # pieces) =
    (if allowed = 0 then ScanLimit
     else let (lines, line') = take_lines line piece
       in case List.map_filter (header_candidate canon) lines of
            r # rs \<Rightarrow> r
          | [] \<Rightarrow> scan_pieces canon rest (allowed - n) line' pieces)"

definition MAX_SESSION_HEADER_SCAN_BYTES :: nat where "MAX_SESSION_HEADER_SCAN_BYTES = 1024 * 1024"

definition read_session_header :: "host \<Rightarrow> pystr \<Rightarrow> header_scan" where
  "read_session_header H body =
    (let (pieces, rest) = ho_scan H body in scan_pieces (ho_canon H) rest MAX_SESSION_HEADER_SCAN_BYTES [] pieces)"

subsection \<open>Opening a session\<close>

text \<open>\<open>_load_entries\<close>: wire entries are migrated and decoded, then adopted. The flag tells whether they were migrated.\<close>

definition load_wire :: "host \<Rightarrow> env \<Rightarrow> pystr option \<Rightarrow> pystr option \<Rightarrow> wire list \<Rightarrow> session \<Rightarrow> (session \<times> bool result) option" where
  "load_wire H env option_id parent entries s =
    (if list_ex is_session entries then
       (case migrate_to_current_version env entries of
          None \<Rightarrow> None
        | Some (Inl err) \<Rightarrow> Some (s, Inl err)
        | Some (Inr (es, migrated)) \<Rightarrow>
            map_option (\<lambda>fs. case load_entries env option_id parent fs s of (s1, r) \<Rightarrow> (s1, map_sum id (\<lambda>_. migrated) r))
              (mapM (of_wire (ho_float H)) es))
     else map_option (\<lambda>fs. case load_entries env option_id parent fs s of (s1, r) \<Rightarrow> (s1, map_sum id (\<lambda>_. False) r))
            (mapM (of_wire (ho_float H)) entries))"

definition rewrite_file :: "(file_entry \<Rightarrow> pystr) \<Rightarrow> session \<Rightarrow> disk \<Rightarrow> disk result" where
  "rewrite_file ser s d =
    (case ss_file s of
       Some path \<Rightarrow> if ss_persist s \<and> path \<noteq> [] then write_session_bytes d path Rewrite (file_text ser (ss_entries s)) else Inr d
     | None \<Rightarrow> Inr d)"

text \<open>The construction ends with the error when a write fails.\<close>

definition flushed_after :: "session \<Rightarrow> disk \<Rightarrow> disk result \<Rightarrow> unit outcome" where
  "flushed_after s d r = (case r of Inl err \<Rightarrow> (s, d, Inl err) | Inr d' \<Rightarrow> (s\<lparr>ss_flushed := True\<rparr>, d', Inr ()))"

definition invalid_session_file :: "pystr \<Rightarrow> pystr" where
  "invalid_session_file path = lit ''Session file is not a valid pidrei session: '' @ path"

text \<open>\<open>_set_session_file_blocking\<close>, with the entries already loaded if the search of the header gave up.\<close>

definition set_session_file ::
  "host \<Rightarrow> env \<Rightarrow> (file_entry \<Rightarrow> pystr) \<Rightarrow> pystr \<Rightarrow> wire list option \<Rightarrow> session \<Rightarrow> disk \<Rightarrow> unit outcome option" where
  "set_session_file H env ser path preloaded s0 d =
    (let s = s0\<lparr>ss_file := Some path\<rparr>
     in case dict_get (dk_files d) path of
          None \<Rightarrow>
            (case new_session env None None s of
               (s1, Inl err) \<Rightarrow> Some (s1, d, Inl err)
             | (s1, Inr _) \<Rightarrow> Some (s1\<lparr>ss_file := Some path\<rparr>, d, Inr ()))
        | Some body \<Rightarrow>
            (case (case preloaded of Some es \<Rightarrow> (d, Inr es) | None \<Rightarrow> load_wire_entries_from_file H path d) of
               (d1, Inl err) \<Rightarrow> Some (s, d1, Inl err)
             | (d1, Inr entries) \<Rightarrow>
                 if entries = [] then
                   (if body \<noteq> [] then Some (s, d1, Inl (invalid_session_file path))
                    else case new_session env None None s of
                      (s1, Inl err) \<Rightarrow> Some (s1, d1, Inl err)
                    | (s1, Inr _) \<Rightarrow>
                        (let s2 = s1\<lparr>ss_file := Some path\<rparr> in Some (flushed_after s2 d1 (rewrite_file ser s2 d1))))
                 else
                   (case load_wire H env None None entries s of
                      None \<Rightarrow> None
                    | Some (s1, Inl err) \<Rightarrow> Some (s1, d1, Inl err)
                    | Some (s1, Inr migrated) \<Rightarrow>
                        Some (flushed_after s1 d1 (if migrated then rewrite_file ser s1 d1 else Inr d1)))))"

text \<open>
  \<open>SessionManager(cwd, session_dir, session_file=path)\<close>: without a working directory the one the
  header names is taken, found by the bounded search or else by loading the whole file. Creating
  the session's directory is not modelled.
\<close>

definition header_cwd :: "wire \<Rightarrow> pystr option" where
  "header_cwd d = need as_str d (lit ''cwd'')"

definition start_session ::
  "host \<Rightarrow> env \<Rightarrow> (file_entry \<Rightarrow> pystr) \<Rightarrow> pystr option \<Rightarrow> pystr option \<Rightarrow> pystr \<Rightarrow> disk \<Rightarrow> unit outcome option" where
  "start_session H env ser cwd session_dir session_file d =
    (let path = ho_resolve H session_file;
         (d1, found) =
           (case (cwd, dict_get (dk_files d) path) of
              (None, Some body) \<Rightarrow>
                (case read_session_header H body of
                   HeaderIs h \<Rightarrow> (d, Inr (header_cwd h, None))
                 | NoHeader \<Rightarrow> (d, Inr (None, None))
                 | ScanLimit \<Rightarrow>
                     (case load_wire_entries_from_file H path d of
                        (d1, Inl err) \<Rightarrow> (d1, Inl err)
                      | (d1, Inr es) \<Rightarrow>
                          (d1, Inr (if es \<noteq> [] \<and> is_session (hd es) then header_cwd (hd es) else None, Some es))))
            | _ \<Rightarrow> (d, Inr (cwd, None)))
     in case found of
          Inl err \<Rightarrow> Some (initial_session [] [] True, d1, Inl err)
        | Inr (cwd', preloaded) \<Rightarrow>
            set_session_file H env ser path preloaded
              (initial_session (ho_resolve H (case cwd' of Some c \<Rightarrow> c | None \<Rightarrow> ho_getcwd H))
                 (case session_dir of None \<Rightarrow> ho_dirname H path | Some dir \<Rightarrow> if dir = [] then ho_dirname H path else dir) True) d1)"

subsection \<open>In-memory and forked sessions\<close>

definition in_memory :: "host \<Rightarrow> env \<Rightarrow> pystr option \<Rightarrow> pystr option \<Rightarrow> pystr option \<Rightarrow> wire list \<Rightarrow> (session \<times> unit result) option" where
  "in_memory H env cwd option_id parent entries =
    (let s = initial_session (ho_resolve H (case cwd of Some c \<Rightarrow> c | None \<Rightarrow> ho_getcwd H)) [] False
     in if entries \<noteq> [] then map_option (\<lambda>(s1, r). (s1, map_sum id (\<lambda>_. ()) r)) (load_wire H env option_id parent entries s)
        else Some (case new_session env option_id parent s of (s1, r) \<Rightarrow> (s1, map_sum id (\<lambda>_. ()) r)))"

text \<open>
  \<open>fork_from\<close>: the file of a new session with the lines of the source, then the session opened from
  it. \<open>directory\<close> is the session directory given or the default one; the ids and the time of the
  new file and of the opening are drawn separately. The entries are copied as the source has them.
\<close>

definition fork_text :: "header \<Rightarrow> wire list \<Rightarrow> pystr" where
  "fork_text h source =
    concat (map (\<lambda>d. dumps (JObj d) @ [NL]) (header_to_wire h # filter (\<lambda>d. \<not> is_session d) source))"

definition fork_blocking ::
  "host \<Rightarrow> env \<Rightarrow> pystr \<Rightarrow> pystr \<Rightarrow> pystr \<Rightarrow> pystr option \<Rightarrow> disk \<Rightarrow> disk \<times> pystr result" where
  "fork_blocking H env source target directory option_id d =
    (let path = ho_resolve H source
     in case load_wire_entries_from_file H path d of
          (d1, Inl err) \<Rightarrow> (d1, Inl err)
        | (d1, Inr es) \<Rightarrow>
            if es = [] then (d1, Inl (lit ''Cannot fork: source session file is empty or invalid: '' @ path))
            else if \<not> list_ex is_session es then (d1, Inl (lit ''Cannot fork: source session has no header: '' @ path))
            else (case (case option_id of None \<Rightarrow> Inr () | Some i \<Rightarrow> assert_valid_session_id i) of
              Inl err \<Rightarrow> (d1, Inl err)
            | Inr _ \<Rightarrow>
                (let i = (case option_id of Some i \<Rightarrow> i | None \<Rightarrow> ev_uuidv7 env);
                     new_file = session_file_name directory (ev_now env) i;
                     h = \<lparr>hdr_version = CURRENT_SESSION_VERSION, hdr_id = i, hdr_timestamp = ev_now env,
                          hdr_cwd = ho_resolve H target, hdr_parent_session = Some path\<rparr>
                 in case write_session_bytes d1 new_file Exclusive (fork_text h es) of
                      Inl err \<Rightarrow> (d1, Inl err)
                    | Inr d2 \<Rightarrow> (d2, Inr new_file))))"

definition fork_from ::
  "host \<Rightarrow> env \<Rightarrow> env \<Rightarrow> (file_entry \<Rightarrow> pystr) \<Rightarrow> pystr \<Rightarrow> pystr \<Rightarrow> pystr \<Rightarrow> pystr option \<Rightarrow> disk \<Rightarrow> unit outcome option" where
  "fork_from H env1 env2 ser source target directory option_id d =
    (case fork_blocking H env1 source target directory option_id d of
       (d1, Inl err) \<Rightarrow> Some (initial_session [] [] True, d1, Inl err)
     | (d1, Inr new_file) \<Rightarrow> start_session H env2 ser (Some (ho_resolve H target)) (Some directory) new_file d1)"

end
