(* ===== verification/Session_Wire_Laws.thy ===== *)
theory Session_Wire_Laws
  imports Session_Wire
begin

section \<open>Session files are read as they were written\<close>

text \<open>
  Reading in pieces is reading line by line (\<open>read_whole\<close>, \<open>scan_whole\<close>); an entry the operations
  store is read back from its line (\<open>written_line\<close>); and a file that holds the lines of a session
  opens as that session (\<open>open_file\<close>, \<open>open_file_in\<close>), which is what restarts and forks rest on.
\<close>

subsection \<open>Lines and pieces\<close>

lemma map_filter_append: "List.map_filter f (xs @ ys) = List.map_filter f xs @ List.map_filter f ys"
  by (simp add: List.map_filter_def)

lemma take_lines_no_NL: "NL \<notin> set line \<Longrightarrow> NL \<notin> set (snd (take_lines line s))"
  by (induction line s rule: take_lines.induct) (auto simp: split_beta Let_def)

lemma take_lines_append:
  "take_lines line (a @ b) = (let (l1, r1) = take_lines line a; (l2, r2) = take_lines r1 b in (l1 @ l2, r2))"
  by (induction line a rule: take_lines.induct) (auto simp: split_beta Let_def)

lemma take_lines_pending: "NL \<notin> set p \<Longrightarrow> take_lines line (p @ s) = take_lines (line @ p) s"
  by (induction p arbitrary: line) auto

lemma take_lines_split:
  "fst (take_lines line s) @ [snd (take_lines line s)] = (line @ hd (split_on NL s)) # tl (split_on NL s)"
  by (induction line s rule: take_lines.induct) (auto simp: split_beta Let_def)

lemma take_lines_whole: "fst (take_lines [] s) @ [snd (take_lines [] s)] = split_on NL s"
  using take_lines_split [of "[]" s] by simp

lemma split_on_rest: "NL \<notin> set t \<Longrightarrow> split_on NL (s @ t) = butlast (split_on NL s) @ [last (split_on NL s) @ t]"
proof (induction s)
  case Nil
  then show ?case by (induction t) auto
next
  case (Cons c s)
  then show ?case by (cases "split_on NL s") auto
qed

lemma load_chunks:
  assumes "NL \<notin> set p"
  shows "foldl (load_chunk canon) (es, p) chunks =
    (es @ List.map_filter (parse_session_entry_line canon) (fst (take_lines p (concat chunks))), snd (take_lines p (concat chunks)))"
  using assms
proof (induction chunks arbitrary: es p)
  case Nil
  then show ?case by (simp add: List.map_filter_def)
next
  case (Cons c chunks)
  have "NL \<notin> set (snd (take_lines p c))" using Cons.prems by (rule take_lines_no_NL)
  note IH = Cons.IH [OF this]
  have step: "load_chunk canon (es, p) c =
      (es @ List.map_filter (parse_session_entry_line canon) (fst (take_lines p c)), snd (take_lines p c))"
    using take_lines_pending [OF Cons.prems, of "[]" c] by (simp add: load_chunk_def split_beta)
  show ?case
    by (simp add: step IH take_lines_append [of p c] split_beta Let_def map_filter_append)
qed

lemma read_wire_entries_lines:
  assumes "NL \<notin> set tail"
  shows "read_wire_entries canon (chunks, tail) =
    (List.map_filter (parse_session_entry_line canon) (split_on NL (concat chunks @ tail)), last (split_on NL (concat chunks @ tail)))"
proof -
  let ?l = "take_lines [] (concat chunks)"
  have "split_on NL (concat chunks) = fst ?l @ [snd ?l]" by (simp add: take_lines_whole)
  then have "split_on NL (concat chunks @ tail) = fst ?l @ [snd ?l @ tail]"
    by (simp add: split_on_rest [OF assms])
  then show ?thesis
    by (simp add: read_wire_entries_def load_chunks split_beta Let_def map_filter_append del: List.map_filter_simps)
qed

definition first_header :: "wire list \<Rightarrow> header_scan" where
  "first_header entries = (case entries of [] \<Rightarrow> NoHeader | e # es \<Rightarrow> if valid_header e then HeaderIs e else NoHeader)"

lemma candidates: "List.map_filter (header_candidate canon) lines =
    map (\<lambda>e. if valid_header e then HeaderIs e else NoHeader) (List.map_filter (parse_session_entry_line canon) lines)"
  by (induction lines) (auto simp: List.map_filter_def header_candidate_def split: option.splits)

lemma scan_pieces_lines:
  assumes "NL \<notin> set line" "NL \<notin> set rest"
  shows "scan_pieces canon rest allowed line pieces = ScanLimit \<or>
    scan_pieces canon rest allowed line pieces =
      first_header (List.map_filter (parse_session_entry_line canon) (split_on NL (line @ concat (map snd pieces) @ rest)))"
  using assms
proof (induction pieces arbitrary: allowed line)
  case Nil
  have "split_on NL (line @ rest) = [line @ rest]"
    using split_on_rest [of "line @ rest" "[]"] Nil by simp
  then show ?case
    by (simp add: scan_end_def header_candidate_def first_header_def List.map_filter_def split: option.split)
next
  case (Cons np pieces)
  obtain n piece where np: "np = (n, piece)" by force
  let ?l = "take_lines line piece"
  let ?rest = "concat (map snd pieces) @ rest"
  have no: "NL \<notin> set (snd ?l)" using Cons.prems(1) by (rule take_lines_no_NL)
  have "split_on NL (line @ piece @ ?rest) = fst (take_lines [] (line @ piece @ ?rest)) @ [snd (take_lines [] (line @ piece @ ?rest))]"
    by (simp add: take_lines_whole)
  also have "\<dots> = fst ?l @ fst (take_lines (snd ?l) ?rest) @ [snd (take_lines (snd ?l) ?rest)]"
    using take_lines_pending [OF Cons.prems(1), of "[]"] by (simp add: take_lines_append [of _ piece] split_beta Let_def)
  also have "fst (take_lines (snd ?l) ?rest) @ [snd (take_lines (snd ?l) ?rest)] = split_on NL (snd ?l @ ?rest)"
    using take_lines_whole [of "snd ?l @ ?rest"] take_lines_pending [OF no, of "[]"] by simp
  finally have split: "split_on NL (line @ piece @ ?rest) = fst ?l @ split_on NL (snd ?l @ ?rest)" .
  show ?case
  proof (cases "List.map_filter (parse_session_entry_line canon) (fst ?l)")
    case Nil
    with Cons.IH [OF no Cons.prems(2)] show ?thesis
      by (simp add: np candidates split_beta Let_def split map_filter_append)
  next
    case (Cons e es)
    then show ?thesis
      by (simp add: np candidates split_beta Let_def split map_filter_append first_header_def)
  qed
qed

subsection \<open>Entries\<close>

declare map_of_append [simp del]

fun usage_opt_ok :: "usage option \<Rightarrow> bool" where
  "usage_opt_ok None = True"
| "usage_opt_ok (Some u) = usage_ok u"

fun text_content :: "content option \<Rightarrow> bool" where
  "text_content (Some (Blocks bs)) = (bs = [])"
| "text_content c = True"

definition known_types :: "pystr list" where
  "known_types = map lit [''session'', ''message'', ''thinking_level_change'', ''model_change'', ''usage'', ''compaction'',
     ''branch_summary'', ''custom'', ''custom_message'', ''label'', ''session_info'', ''context_edit'']"

fun body_ok :: "entry_body \<Rightarrow> bool" where
  "body_ok (MessageE m) \<longleftrightarrow> storable m"
| "body_ok (UsageE k p m u n) \<longleftrightarrow> usage_ok u"
| "body_ok (CompactionE c) \<longleftrightarrow> cb_details c \<noteq> Some JNull \<and> usage_opt_ok (cb_usage c) \<and>
     (case cb_system c of None \<Rightarrow> True | Some m \<Rightarrow> message_ok (SystemMsg m))"
| "body_ok (BranchSummaryE b) \<longleftrightarrow> bb_details b \<noteq> Some JNull \<and> usage_opt_ok (bb_usage b)"
| "body_ok (CustomE t x) \<longleftrightarrow> x \<noteq> Some JNull"
| "body_ok (CustomMessageE t c dp dt) \<longleftrightarrow> text_content c \<and> dt \<noteq> Some JNull"
| "body_ok (OtherE t x) \<longleftrightarrow> t \<notin> set known_types \<and>
     (case x of JObj d \<Rightarrow> list_all (\<lambda>kv. fst kv \<notin> set base_keys) d | _ \<Rightarrow> False)"
| "body_ok _ \<longleftrightarrow> True"

lemma some_field_put [simp]: "v \<noteq> Some JNull \<Longrightarrow> Option.bind v some_json = v"
  by (cases v) (auto simp: some_json_def)

lemma read_usage_field:
  assumes "float_codec fr fo" "usage_opt_ok u"
  shows "read_opt (wire_usage fo) (map_option (serialize_usage fr) u) = Some u"
proof (cases u)
  case (Some x)
  obtain d where d: "serialize_usage fr x = JObj d" by (simp add: serialize_usage_def)
  from read_usage [OF assms(1) _ this] assms(2) Some show ?thesis by (simp add: d wire_usage_def)
qed simp

lemma wire_message_written:
  assumes "float_codec fr fo" "storable m"
  shows "\<exists>d. serialize_message fr m = Some (JObj d) \<and> wire_message fo (JObj d) = Some m"
  using read_message [OF assms] by (auto simp: wire_message_def)

lemma read_system_field:
  assumes "float_codec fr fo" "case c of None \<Rightarrow> True | Some m \<Rightarrow> message_ok (SystemMsg m)"
  shows "read_opt (wire_system fo) (Option.bind c (\<lambda>m. serialize_message fr (FullMsg (SystemMsg m)))) = Some c"
proof (cases c)
  case (Some m)
  with assms wire_message_written [OF assms(1), of "FullMsg (SystemMsg m)"] obtain d where
    "serialize_message fr (FullMsg (SystemMsg m)) = Some (JObj d)" "wire_message fo (JObj d) = Some (FullMsg (SystemMsg m))" by auto
  with Some show ?thesis by (simp add: wire_system_def del: serialize_message.simps)
qed simp

lemma read_replacement: "read_opt replacement_of (Some (case r of None \<Rightarrow> JNull | Some c \<Rightarrow> JObj [(lit ''content'', serialize_content c)])) = Some r"
proof (cases r)
  case (Some c)
  then show ?thesis by (cases c) (simp_all add: mapM_read read_block)
qed simp

lemma read_raw_content: "text_content c \<Longrightarrow> read_opt raw_content (Some (case c of None \<Rightarrow> JNull | Some x \<Rightarrow> serialize_content x)) = Some c"
  by (cases c rule: text_content.cases) auto

lemma body_ok_other: "body_ok (OtherE t x) \<Longrightarrow> \<exists>d. x = JObj d \<and> t \<notin> set known_types \<and> filter (\<lambda>(k, v). k \<notin> set base_keys) d = d"
  by (cases x) (auto simp: list_all_iff filter_id_conv)

abbreviation base_fields :: "entry \<Rightarrow> wire" where
  "base_fields e \<equiv> [(lit ''type'', JStr (entry_type (en_body e))), (lit ''id'', JStr (en_id e)),
        (lit ''parentId'', case en_parent e of None \<Rightarrow> JNull | Some p \<Rightarrow> JStr p), (lit ''timestamp'', JStr (en_timestamp e))]"

lemma read_body:
  assumes "float_codec fr fo" "body_ok (en_body e)" "body_fields fr (en_body e) = Some own"
  shows "decode_body fo (entry_type (en_body e)) (base_fields e @ own) = Some (en_body e)"
proof (cases "en_body e")
  case (MessageE m)
  with assms wire_message_written [OF assms(1), of m] show ?thesis by (auto simp: decode_body_def)
next
  case (UsageE k p m u n)
  obtain d where "serialize_usage fr u = JObj d" by (simp add: serialize_usage_def)
  with assms UsageE read_usage [OF assms(1) _ this] show ?thesis by (auto simp: decode_body_def wire_usage_def)
next
  case (CompactionE c)
  with assms read_usage_field [OF assms(1), of "cb_usage c"] read_system_field [OF assms(1), of "cb_system c"] show ?thesis
    by (auto simp: decode_body_def some_field_def simp del: serialize_message.simps)
next
  case (BranchSummaryE b)
  with assms read_usage_field [OF assms(1), of "bb_usage b"] show ?thesis
    by (auto simp: decode_body_def some_field_def)
next
  case (CustomMessageE t c dp dt)
  with assms read_raw_content [of c] show ?thesis by (auto simp: decode_body_def some_field_def)
next
  case (ContextEditE t r)
  with assms read_replacement [of r] show ?thesis by (auto simp: decode_body_def)
next
  case (OtherE t x)
  with assms body_ok_other [of t x] show ?thesis
    by (auto simp: decode_body_def known_types_def base_keys_def)
qed (use assms in \<open>auto simp: decode_body_def some_field_def\<close>)

lemma read_entry:
  assumes "float_codec fr fo" "body_ok (en_body e)" "entry_to_wire fr e = Some d"
  shows "decode_entry fo d = Some e \<and> \<not> is_session d"
proof -
  from assms(3) obtain own where f: "body_fields fr (en_body e) = Some own" and d: "d = base_fields e @ own"
    by (auto simp: entry_to_wire_def)
  note body = read_body [OF assms(1,2) f, folded d]
  have base: "dict_get d (lit ''type'') = Some (JStr (entry_type (en_body e)))" "dict_get d (lit ''id'') = Some (JStr (en_id e))"
    "dict_get d (lit ''timestamp'') = Some (JStr (en_timestamp e))" "str_opt d (lit ''parentId'') = Some (en_parent e)"
    by (simp_all add: d split: option.split)
  have "entry_type (en_body e) \<noteq> lit ''session''"
    using assms(2) by (cases "en_body e") (auto simp: known_types_def)
  with body base show ?thesis by (simp add: decode_entry_def is_session_def)
qed

lemma read_header: "header_of_wire (header_to_wire h) = Some h \<and> valid_header (header_to_wire h)"
  by (simp add: header_of_wire_def header_to_wire_def valid_header_def is_session_def)

definition writable :: "(pystr \<Rightarrow> pystr) \<Rightarrow> (pyfloat \<Rightarrow> pystr) \<Rightarrow> file_entry \<Rightarrow> bool" where
  "writable canon fr f \<longleftrightarrow> (case f of HeaderF h \<Rightarrow> True | EntryF e \<Rightarrow> body_ok (en_body e)) \<and>
     (case to_wire fr f of None \<Rightarrow> False | Some d \<Rightarrow> json_plain canon (JObj d))"

lemma written_line:
  assumes "float_codec fr fo" "writable canon fr f"
  shows "\<exists>d. to_wire fr f = Some d \<and> parse_session_entry_line canon (wire_line fr f) = Some d \<and> of_wire fo d = Some f \<and>
    NL \<notin> set (wire_line fr f) \<and> (is_session d \<longleftrightarrow> (\<exists>h. f = HeaderF h))"
proof -
  from assms(2) obtain d where d: "to_wire fr f = Some d" "json_plain canon (JObj d)"
    by (auto simp: writable_def split: option.splits)
  have line: "wire_line fr f = dumps (JObj d)" by (simp add: wire_line_def d)
  have "hd (dumps (JObj d)) = 123" "dumps (JObj d) \<noteq> []" by simp_all
  then have "py_strip (dumps (JObj d)) \<noteq> []"
    by (cases "dumps (JObj d)") (auto simp: py_strip_def py_isspace_def dropWhile_eq_Nil_conv)
  then have "parse_session_entry_line canon (wire_line fr f) = Some d"
    using loads_dumps [OF d(2)] by (simp add: parse_session_entry_line_def line del: json_dumps.simps)
  moreover have "of_wire fo d = Some f \<and> (is_session d \<longleftrightarrow> (\<exists>h. f = HeaderF h))"
  proof (cases f)
    case (HeaderF h)
    with d read_header [of h] show ?thesis by (auto simp: of_wire_def valid_header_def)
  next
    case (EntryF e)
    with d assms read_entry [OF assms(1), of e d] show ?thesis by (auto simp: of_wire_def writable_def)
  qed
  ultimately show ?thesis using d dumps_one_line [OF d(2)] line by auto
qed

subsection \<open>Files\<close>

definition host_ok :: "(pyfloat \<Rightarrow> pystr) \<Rightarrow> host \<Rightarrow> bool" where
  "host_ok fr H \<longleftrightarrow> float_codec fr (ho_float H) \<and>
     (\<forall>body. NL \<notin> set (snd (ho_load H body)) \<and> concat (fst (ho_load H body)) @ snd (ho_load H body) = body \<and>
        NL \<notin> set (snd (ho_scan H body)) \<and> concat (map snd (fst (ho_scan H body))) @ snd (ho_scan H body) = body)"

definition lines_of :: "host \<Rightarrow> pystr \<Rightarrow> wire list" where
  "lines_of H body = List.map_filter (parse_session_entry_line (ho_canon H)) (split_on NL body)"

lemma read_whole: "host_ok fr H \<Longrightarrow> read_wire_entries (ho_canon H) (ho_load H body) = (lines_of H body, last (split_on NL body))"
  using read_wire_entries_lines [of "snd (ho_load H body)" "ho_canon H" "fst (ho_load H body)"]
  by (simp add: host_ok_def lines_of_def)

lemma scan_whole:
  assumes "host_ok fr H"
  shows "read_session_header H body = ScanLimit \<or> read_session_header H body = first_header (lines_of H body)"
  using scan_pieces_lines [of "[]" "snd (ho_scan H body)" "ho_canon H" MAX_SESSION_HEADER_SCAN_BYTES "fst (ho_scan H body)"] assms
  by (simp add: host_ok_def lines_of_def read_session_header_def split_beta)

text \<open>A session file whose complete lines are the entries \<open>fs\<close>.\<close>

definition holds_entries :: "host \<Rightarrow> (pyfloat \<Rightarrow> pystr) \<Rightarrow> pystr \<Rightarrow> file_entry list \<Rightarrow> bool" where
  "holds_entries H fr body fs \<longleftrightarrow> lines_of H body = map (\<lambda>f. the (to_wire fr f)) fs \<and> list_all (writable (ho_canon H) fr) fs"

lemma split_on_lines: "list_all (\<lambda>l. NL \<notin> set l) ls \<Longrightarrow> split_on NL (concat (map (\<lambda>l. l @ [NL]) ls) @ t) = ls @ split_on NL t"
proof (induction ls)
  case (Cons l ls)
  have "split_on NL (l @ NL # r) = l # split_on NL r" if "NL \<notin> set l" for l r
    using that by (induction l) auto
  with Cons show ?case by simp
qed simp

lemma file_text_lines:
  assumes "float_codec fr (ho_float H)" "list_all (writable (ho_canon H) fr) fs"
  shows "split_on NL (file_text (wire_line fr) fs @ t) = map (wire_line fr) fs @ split_on NL t"
    "List.map_filter (parse_session_entry_line (ho_canon H)) (map (wire_line fr) fs) = map (\<lambda>f. the (to_wire fr f)) fs"
proof -
  have line: "NL \<notin> set (wire_line fr f) \<and> parse_session_entry_line (ho_canon H) (wire_line fr f) = Some (the (to_wire fr f))"
    if "f \<in> set fs" for f
    using written_line [OF assms(1), of "ho_canon H" f] that assms(2) by (auto simp: list_all_iff)
  from split_on_lines [of "map (wire_line fr) fs" t] line
  show "split_on NL (file_text (wire_line fr) fs @ t) = map (wire_line fr) fs @ split_on NL t"
    by (simp add: file_text_def list_all_iff comp_def)
  from line show "List.map_filter (parse_session_entry_line (ho_canon H)) (map (wire_line fr) fs) = map (\<lambda>f. the (to_wire fr f)) fs"
    by (induction fs) (auto simp: List.map_filter_def)
qed

lemma written_file_holds:
  assumes "host_ok fr H" "list_all (writable (ho_canon H) fr) fs"
  shows "holds_entries H fr (file_text (wire_line fr) fs) fs" "last (split_on NL (file_text (wire_line fr) fs)) = []"
proof -
  have codec: "float_codec fr (ho_float H)" using assms(1) by (simp add: host_ok_def)
  from file_text_lines(1) [OF codec assms(2), of "[]"] file_text_lines(2) [OF codec assms(2)] assms(2)
  show "holds_entries H fr (file_text (wire_line fr) fs) fs"
    by (simp add: holds_entries_def lines_of_def map_filter_append) (simp add: List.map_filter_def parse_session_entry_line_def py_strip_def)
  from file_text_lines(1) [OF codec assms(2), of "[]"] show "last (split_on NL (file_text (wire_line fr) fs)) = []" by simp
qed

lemma current_version_stays:
  assumes "fs = HeaderF h # map EntryF es" "hdr_version h = CURRENT_SESSION_VERSION"
  shows "migrate_to_current_version env (map (\<lambda>f. the (to_wire fr f)) fs) = Some (Inr (map (\<lambda>f. the (to_wire fr f)) fs, False))"
  using assms read_header [of h]
  by (simp add: migrate_to_current_version_def session_version_def valid_header_def header_to_wire_def)

lemma mapM_of_wire:
  assumes "float_codec fr fo" "list_all (writable canon fr) fs"
  shows "mapM (of_wire fo) (map (\<lambda>f. the (to_wire fr f)) fs) = Some fs"
  using assms(2) written_line [OF assms(1), of canon] by (intro mapM_read) (fastforce simp: list_all_iff)

text \<open>The session that is built from the entries of a file.\<close>

definition reopened :: "pystr \<Rightarrow> pystr \<Rightarrow> pystr \<Rightarrow> header \<Rightarrow> file_entry list \<Rightarrow> session" where
  "reopened cwd dir path h fs = (build_index ((initial_session cwd dir True)
     \<lparr>ss_file := Some path, ss_id := hdr_id h, ss_entries := fs, ss_revision := 1\<rparr>))\<lparr>ss_flushed := True\<rparr>"

definition closed_tail :: "pystr \<Rightarrow> pystr \<Rightarrow> disk \<Rightarrow> disk" where
  "closed_tail path body d =
    (if last (split_on NL body) = [] then d else d\<lparr>dk_files := dict_set path (body @ [NL]) (dk_files d)\<rparr>)"

definition readable_file :: "host \<Rightarrow> (pyfloat \<Rightarrow> pystr) \<Rightarrow> pystr \<Rightarrow> disk \<Rightarrow> header \<Rightarrow> file_entry list \<Rightarrow> pystr \<Rightarrow> bool" where
  "readable_file H fr path d h fs body \<longleftrightarrow> dict_get (dk_files d) path = Some body \<and> holds_entries H fr body fs \<and>
     (\<exists>es. fs = HeaderF h # map EntryF es) \<and> hdr_version h = CURRENT_SESSION_VERSION \<and> hdr_id h \<noteq> [] \<and>
     (last (split_on NL body) = [] \<or> \<not> dk_fails d)"

lemma load_file:
  assumes "host_ok fr H" "readable_file H fr path d h fs body"
  shows "load_wire_entries_from_file H path d = (closed_tail path body d, Inr (map (\<lambda>f. the (to_wire fr f)) fs))"
  using assms(2) read_header [of h]
  by (auto simp: readable_file_def load_wire_entries_from_file_def read_whole [OF assms(1)] holds_entries_def write_session_bytes_def
    closed_tail_def Let_def)

lemma adopt_entries:
  assumes "host_ok fr H" "readable_file H fr path d h fs body"
  shows "load_wire H env None None (map (\<lambda>f. the (to_wire fr f)) fs) ((initial_session cwd dir True)\<lparr>ss_file := Some path\<rparr>) =
    Some (build_index ((initial_session cwd dir True)\<lparr>ss_file := Some path, ss_id := hdr_id h, ss_entries := fs, ss_revision := 1\<rparr>), Inr False)"
proof -
  let ?s0 = "(initial_session cwd dir True)\<lparr>ss_file := Some path\<rparr>" and ?w = "map (\<lambda>f. the (to_wire fr f)) fs"
  from assms(2) obtain es where fs: "fs = HeaderF h # map EntryF es" and h: "hdr_version h = CURRENT_SESSION_VERSION" "hdr_id h \<noteq> []"
    and w: "list_all (writable (ho_canon H) fr) fs"
    by (auto simp: readable_file_def holds_entries_def)
  have codec: "float_codec fr (ho_float H)" using assms(1) by (simp add: host_ok_def)
  have "list_ex is_session ?w" using fs read_header [of h] by (simp add: valid_header_def)
  then have "load_wire H env None None ?w ?s0 =
      (case load_entries env None None fs ?s0 of (s1, r) \<Rightarrow> Some (s1, map_sum id (\<lambda>_. False) r))"
    using current_version_stays [OF fs h(1), of env fr] mapM_of_wire [OF codec w]
    by (simp add: load_wire_def split_beta)
  moreover have "get_header_of fs = Some h" by (simp add: fs)
  ultimately show ?thesis using h(2) by (simp add: load_entries_def initial_session_def)
qed

lemma set_file:
  assumes "host_ok fr H" "readable_file H fr path d h fs body"
    "pre = None \<and> d1 = d \<or> pre = Some (map (\<lambda>f. the (to_wire fr f)) fs) \<and> d1 = closed_tail path body d"
  shows "set_session_file H env ser path pre (initial_session cwd dir True) d1 =
    Some (reopened cwd dir path h fs, closed_tail path body d, Inr ())"
proof -
  let ?w = "map (\<lambda>f. the (to_wire fr f)) fs"
  obtain b where b: "dict_get (dk_files d1) path = Some b"
    using assms(2,3) by (auto simp: readable_file_def closed_tail_def dict_simps split: if_splits)
  have "(case pre of Some es \<Rightarrow> (d1, Inr es) | None \<Rightarrow> load_wire_entries_from_file H path d1) = (closed_tail path body d, Inr ?w)"
    using assms(3) load_file [OF assms(1,2)] by auto
  moreover have "?w \<noteq> []" using assms(2) by (auto simp: readable_file_def)
  ultimately show ?thesis using b adopt_entries [OF assms(1,2), of env cwd dir]
    by (simp add: set_session_file_def Let_def flushed_after_def reopened_def)
qed

lemma open_file:
  assumes "host_ok fr H" "readable_file H fr path d h fs body" "ho_resolve H path = path"
  shows "start_session H env ser None None path d =
    Some (reopened (ho_resolve H (hdr_cwd h)) (ho_dirname H path) path h fs, closed_tail path body d, Inr ())"
proof -
  let ?w = "map (\<lambda>f. the (to_wire fr f)) fs"
  have body: "dict_get (dk_files d) path = Some body" and w: "lines_of H body = ?w"
    using assms(2) by (simp_all add: readable_file_def holds_entries_def)
  have ne: "?w \<noteq> []" "hd ?w = header_to_wire h" "valid_header (header_to_wire h)" "is_session (header_to_wire h)"
    using assms(2) read_header [of h] by (auto simp: readable_file_def valid_header_def)
  have cwd: "header_cwd (header_to_wire h) = Some (hdr_cwd h)" by (simp add: header_cwd_def header_to_wire_def)
  note set = set_file [OF assms(1,2), of _ _ env ser "ho_resolve H (hdr_cwd h)" "ho_dirname H path"]
  from scan_whole [OF assms(1), of body] consider (limit) "read_session_header H body = ScanLimit"
    | (found) "read_session_header H body = HeaderIs (header_to_wire h)"
    using ne assms(2) by (auto simp: first_header_def w readable_file_def)
  then show ?thesis
  proof cases
    case limit
    with load_file [OF assms(1,2)] ne cwd set [of "Some ?w" "closed_tail path body d"] show ?thesis
      by (simp add: start_session_def assms(3) body Let_def)
  next
    case found
    with cwd set [of None d] show ?thesis by (simp add: start_session_def assms(3) body Let_def)
  qed
qed

lemma open_file_in:
  assumes "host_ok fr H" "readable_file H fr path d h fs body" "ho_resolve H path = path" "dir \<noteq> []"
  shows "start_session H env ser (Some cwd) (Some dir) path d =
    Some (reopened (ho_resolve H cwd) dir path h fs, closed_tail path body d, Inr ())"
  using set_file [OF assms(1,2), of None d env ser "ho_resolve H cwd" dir] assms(3,4) by (simp add: start_session_def Let_def)

end
