(* ===== verification/Session_Restart.thy ===== *)
theory Session_Restart
  imports Session_Wire_Laws
begin

section \<open>Restarts, torn writes and forks\<close>

text \<open>
  What becomes of a session when the program opens its file again: nothing is lost, a write that was
  cut short costs its own entry, the search for the header agrees with loading, and a fork carries the
  history over. All rest on \<open>open_file\<close>; the example at the end is a stored session with one message.
\<close>

lemma session_index:
  assumes ok: "session_ok s"
  shows "index_entries (get_entries s) [] = ss_by_id s" "replay_labels (get_entries s) = (ss_labels s, ss_label_timestamps s)"
  using index_entries_by_ids [of "[]" "get_entries s"] tree_ok_ids [OF session_tree [OF ok]] ok
  by (simp_all add: session_ok_def)

lemma reopened_session:
  assumes "session_ok s" "ss_file s = Some path" "hdr_id h = ss_id s" "ss_persist s" "ss_flushed s"
  shows "reopened cwd dir path h (ss_entries s) = s\<lparr>ss_cwd := cwd, ss_dir := dir, ss_revision := 1, ss_leaf := map_option en_id (last_entry (get_entries s))\<rparr>"
  using session_index [OF assms(1)] assms(2-5)
  by (cases s) (simp add: reopened_def build_index_eq get_entries_def initial_session_def)


text \<open>
  C19. A write that was cut short (its line does not parse) costs its own entry only: opening the file
  gives the entries before it and closes the torn line with a line break, so that what the reopened
  session appends is read back after them.
\<close>

theorem torn_write_loses_its_entry_only:
  assumes "host_ok fr H" "list_all (writable (ho_canon H) fr) fs" "fs = HeaderF h # map EntryF es"
    "hdr_version h = CURRENT_SESSION_VERSION" "hdr_id h \<noteq> []" "path \<noteq> []" "ho_resolve H path = path"
    "dict_get (dk_files d) path = Some (file_text (wire_line fr) fs @ torn)" "torn \<noteq> []" "NL \<notin> set torn"
    "parse_session_entry_line (ho_canon H) torn = None" "\<not> dk_fails d" "writable (ho_canon H) fr (EntryF e)"
  shows "\<exists>s1 d1. start_session H env (wire_line fr) None None path d = Some (s1, d1, Inr ()) \<and> ss_entries s1 = fs \<and>
    (\<exists>d2 s3. persist_entry (wire_line fr) e (append_entry_locked e s1) d1 = (append_entry_locked e s1, d2, Inr ()) \<and>
       start_session H env (wire_line fr) None None path d2 = Some (s3, d2, Inr ()) \<and> ss_entries s3 = fs @ [EntryF e])"
proof -
  have codec: "float_codec fr (ho_float H)" using assms(1) by (simp add: host_ok_def)
  let ?ser = "wire_line fr" and ?torn = "file_text (wire_line fr) fs @ torn"
  have torn: "split_on NL torn = [torn]" using split_on_rest [OF assms(10), of "[]"] by simp
  have line: "List.map_filter (parse_session_entry_line (ho_canon H)) [torn] = []"
    using assms(11) by (simp add: List.map_filter_def)
  have holds: "holds_entries H fr ?torn fs" "last (split_on NL ?torn) = torn"
    using file_text_lines [OF codec assms(2)] assms(2)
    by (simp_all add: holds_entries_def lines_of_def map_filter_append torn line del: List.map_filter_simps)
  let ?s1 = "reopened (ho_resolve H (hdr_cwd h)) (ho_dirname H path) path h fs" and ?d1 = "closed_tail path ?torn d"
  have "readable_file H fr path d h fs ?torn" using holds assms(3-5,8,12) by (auto simp: readable_file_def)
  from open_file [OF assms(1) this assms(7)]
  have open1: "start_session H env ?ser None None path d = Some (?s1, ?d1, Inr ())" .
  have s1: "ss_entries ?s1 = fs" "ss_file ?s1 = Some path" "ss_persist ?s1" "ss_flushed ?s1"
    by (simp_all add: reopened_def build_index_eq initial_session_def)
  have d1: "dict_get (dk_files ?d1) path = Some (?torn @ [NL])" "\<not> dk_fails ?d1"
    using holds(2) assms(9,12) by (simp_all add: closed_tail_def dict_simps)
  let ?body = "?torn @ [NL] @ file_text ?ser [EntryF e]"
  let ?d2 = "?d1\<lparr>dk_files := dict_set path ?body (dk_files ?d1)\<rparr>"
  have persist: "persist_entry ?ser e (append_entry_locked e ?s1) ?d1 = (append_entry_locked e ?s1, ?d2, Inr ())"
    using s1 d1 assms(6) by (simp add: persist_entry_def plan_persist_def append_entry_locked_def write_session_bytes_def)
  have e: "list_all (writable (ho_canon H) fr) [EntryF e]" using assms(13) by simp
  have "split_on NL ?body = map ?ser fs @ split_on NL (torn @ [NL] @ file_text ?ser [EntryF e])"
    using file_text_lines(1) [OF codec assms(2), of "torn @ [NL] @ file_text ?ser [EntryF e]"] by simp
  also have "split_on NL (torn @ [NL] @ file_text ?ser [EntryF e]) = torn # split_on NL (file_text ?ser [EntryF e])"
    using split_on_lines [of "[torn]" "file_text ?ser [EntryF e]"] assms(10) by simp
  also have "split_on NL (file_text ?ser [EntryF e]) = [?ser (EntryF e), []]"
    using file_text_lines(1) [OF codec e, of "[]"] by simp
  finally have split: "split_on NL ?body = map ?ser fs @ [torn] @ map ?ser [EntryF e] @ [[]]" by simp
  have blank: "List.map_filter (parse_session_entry_line (ho_canon H)) [[]] = []"
    by (simp add: List.map_filter_def parse_session_entry_line_def py_strip_def)
  have "holds_entries H fr ?body (fs @ [EntryF e])" "last (split_on NL ?body) = []"
    unfolding holds_entries_def lines_of_def split map_filter_append line blank file_text_lines(2) [OF codec assms(2)]
      file_text_lines(2) [OF codec e] using assms(2) e by (simp_all del: List.map_filter_simps)
  note holds2 = this
  have body2: "dict_get (dk_files ?d2) path = Some ?body" by (simp add: dict_simps)
  have "fs @ [EntryF e] = HeaderF h # map EntryF (es @ [e])" by (simp add: assms(3))
  with body2 holds2 assms(4,5) have "readable_file H fr path ?d2 h (fs @ [EntryF e]) ?body"
    unfolding readable_file_def by blast
  from open_file [OF assms(1) this assms(7)] have "start_session H env ?ser None None path ?d2 =
      Some (reopened (ho_resolve H (hdr_cwd h)) (ho_dirname H path) path h (fs @ [EntryF e]), closed_tail path ?body ?d2, Inr ())" .
  moreover have "closed_tail path ?body ?d2 = ?d2" by (simp only: closed_tail_def holds2(2) if_True simp_thms)
  moreover have "ss_entries (reopened (ho_resolve H (hdr_cwd h)) (ho_dirname H path) path h (fs @ [EntryF e])) = fs @ [EntryF e]"
    by (simp add: reopened_def build_index_eq)
  ultimately show ?thesis using open1 s1(1) persist by metis
qed

text \<open>
  The bounded search for the header of a file agrees with loading the whole file: unless it gives
  up, it finds the header exactly when the first entry that loading finds is a valid one, however the
  two readers cut the file.
\<close>

theorem header_search_agrees_with_loading:
  assumes "host_ok fr H"
  shows "read_session_header H body = ScanLimit \<or>
    read_session_header H body = (case fst (read_wire_entries (ho_canon H) (ho_load H body)) of
        [] \<Rightarrow> NoHeader
      | e # es \<Rightarrow> if valid_header e then HeaderIs e else NoHeader)"
  using scan_whole [OF assms, of body] by (simp add: read_whole [OF assms] first_header_def)

lemma fork_text_lines:
  assumes "list_all (writable canon fr) (map EntryF es)" "float_codec fr fo"
  shows "fork_text h (map (\<lambda>f. the (to_wire fr f)) (HeaderF h0 # map EntryF es)) = file_text (wire_line fr) (HeaderF h # map EntryF es)"
proof -
  have "\<not> is_session (the (entry_to_wire fr e)) \<and> wire_line fr (EntryF e) = dumps (JObj (the (entry_to_wire fr e)))" if "e \<in> set es" for e
    using written_line [OF assms(2), of canon "EntryF e"] assms(1) that by (auto simp: list_all_iff wire_line_def)
  then have "concat (map (\<lambda>d. dumps (JObj d) @ [NL]) (filter (\<lambda>d. \<not> is_session d) (map (\<lambda>e. the (entry_to_wire fr e)) es))) =
      concat (map (\<lambda>e. wire_line fr (EntryF e) @ [NL]) es)"
    by (induction es) (simp_all del: json_dumps.simps)
  moreover have "is_session (header_to_wire h0)" using read_header [of h0] by (simp add: valid_header_def)
  ultimately show ?thesis by (simp add: fork_text_def file_text_def wire_line_def comp_def del: json_dumps.simps)
qed

text \<open>
  A fork carries the whole history over: the new session has the entries of the source under a new
  header that names the source, the source keeps its text but for the closed tail, and no third file
  is written.
\<close>

theorem forks_keep_the_history:
  assumes "host_ok fr H" "readable_file H fr source d h0 (HeaderF h0 # map EntryF es) body" "\<not> dk_fails d"
    "ho_resolve H source = source" "directory \<noteq> []" "ev_uuidv7 env1 \<noteq> []"
    "fork = session_file_name directory (ev_now env1) (ev_uuidv7 env1)" "ho_resolve H fork = fork" "fork \<noteq> source"
    "dict_get (dk_files d) fork = None"
  shows "\<exists>s d' h. fork_from H env1 env2 ser source target directory None d = Some (s, d', Inr ()) \<and>
    ss_entries s = HeaderF h # map EntryF es \<and> hdr_parent_session h = Some source \<and> hdr_cwd h = ho_resolve H target \<and>
    dict_get (dk_files d') fork = Some (file_text (wire_line fr) (ss_entries s)) \<and>
    (dict_get (dk_files d') source = Some body \<or> dict_get (dk_files d') source = Some (body @ [NL])) \<and>
    (f \<noteq> source \<and> f \<noteq> fork \<longrightarrow> dict_get (dk_files d') f = dict_get (dk_files d) f)"
proof -
  have codec: "float_codec fr (ho_float H)" using assms(1) by (simp add: host_ok_def)
  have w: "list_all (writable (ho_canon H) fr) (map EntryF es)"
    using assms(2) by (simp add: readable_file_def holds_entries_def)
  let ?h = "\<lparr>hdr_version = CURRENT_SESSION_VERSION, hdr_id = ev_uuidv7 env1, hdr_timestamp = ev_now env1,
     hdr_cwd = ho_resolve H target, hdr_parent_session = Some source\<rparr>"
  let ?fs = "HeaderF ?h # map EntryF es" and ?d1 = "closed_tail source body d"
  let ?text = "file_text (wire_line fr) ?fs"
  let ?d2 = "?d1\<lparr>dk_files := dict_set fork ?text (dk_files ?d1)\<rparr>"
  have wh: "writable (ho_canon H) fr (HeaderF ?h)"
    by (simp add: writable_def header_to_wire_def dict_ok_def put_def)
  have none: "dict_get (dk_files ?d1) fork = None" "\<not> dk_fails ?d1"
    using assms(3,9,10) by (simp_all add: closed_tail_def dict_simps)
  have ws: "map (\<lambda>f. the (to_wire fr f)) (HeaderF h0 # map EntryF es) \<noteq> []"
    "list_ex is_session (map (\<lambda>f. the (to_wire fr f)) (HeaderF h0 # map EntryF es))"
    using read_header [of h0] by (simp_all add: valid_header_def)
  have "fork_blocking H env1 source target directory None d = (?d2, Inr fork)"
    using ws none
    by (simp add: fork_blocking_def Let_def assms(4) load_file [OF assms(1,2)] fork_text_lines [OF w codec] write_session_bytes_def
      flip: assms(7) del: list.map to_wire.simps)
  moreover have "readable_file H fr fork ?d2 ?h ?fs ?text"
    using written_file_holds [OF assms(1), of ?fs] w wh assms(6) by (auto simp: readable_file_def dict_simps)
  note open_file_in [OF assms(1) this assms(8,5), of env2 ser "ho_resolve H target"]
  moreover have "last (split_on NL ?text) = []"
    using written_file_holds [OF assms(1), of ?fs] w wh by simp
  ultimately have run: "fork_from H env1 env2 ser source target directory None d =
      Some (reopened (ho_resolve H (ho_resolve H target)) directory fork ?h ?fs, ?d2, Inr ())"
    by (simp add: fork_from_def closed_tail_def)
  have "ss_entries (reopened (ho_resolve H (ho_resolve H target)) directory fork ?h ?fs) = ?fs"
    by (simp add: reopened_def build_index_eq)
  moreover have "dict_get (dk_files ?d2) source = Some body \<or> dict_get (dk_files ?d2) source = Some (body @ [NL])"
    using assms(2,9) by (simp add: closed_tail_def dict_simps readable_file_def)
  moreover have "f \<noteq> source \<and> f \<noteq> fork \<longrightarrow> dict_get (dk_files ?d2) f = dict_get (dk_files d) f"
    by (simp add: closed_tail_def dict_simps)
  ultimately show ?thesis using run by (intro exI [of _ "reopened (ho_resolve H (ho_resolve H target)) directory fork ?h ?fs"] exI [of _ ?d2] exI [of _ ?h])
    (simp add: dict_simps)
qed

subsection \<open>Examples\<close>

definition example_host :: host where
  "example_host = \<lparr>ho_float = example_fo, ho_canon = (\<lambda>t. t), ho_load = (\<lambda>t. (map (\<lambda>c. [c]) t, [])),
     ho_scan = (\<lambda>t. ([(length t, t)], [])), ho_resolve = (\<lambda>p. p), ho_dirname = (\<lambda>p. lit ''/s''), ho_getcwd = lit ''/''\<rparr>"

lemma example_host_ok: "host_ok example_fr example_host"
proof -
  have "concat (map (\<lambda>c. [c]) t) = t" for t :: pystr by (induction t) auto
  then show ?thesis by (simp add: host_ok_def example_host_def example_codec)
qed

abbreviation example_line :: "file_entry \<Rightarrow> pystr" where
  "example_line \<equiv> wire_line example_fr"

definition example_header :: header where
  "example_header = \<lparr>hdr_version = 3, hdr_id = lit ''session'', hdr_timestamp = lit ''now'', hdr_cwd = lit ''/w'', hdr_parent_session = None\<rparr>"

definition example_entry :: entry where
  "example_entry = \<lparr>en_id = example_id 1, en_parent = None, en_timestamp = lit ''now'',
     en_body = MessageE (FullMsg (UserMsg \<lparr>um_content = StrContent (lit ''hi''), um_timestamp = 0\<rparr>))\<rparr>"

definition stored_entries :: "file_entry list" where
  "stored_entries = [HeaderF example_header, EntryF example_entry]"

definition stored_session :: session where
  "stored_session = (build_index ((initial_session (lit ''/w'') (lit ''/s'') True)
     \<lparr>ss_id := lit ''session'', ss_file := Some (lit ''f''), ss_entries := stored_entries\<rparr>))\<lparr>ss_flushed := True\<rparr>"

definition stored_disk :: "pystr \<Rightarrow> disk" where
  "stored_disk torn = \<lparr>dk_files = [(lit ''f'', file_text example_line stored_entries @ torn)], dk_fails = False\<rparr>"

lemma stored_ok: "session_ok stored_session"
proof -
  have "tree_ok [example_entry]" "edits_on_branch [example_entry]" "compactions_ok [example_entry]"
    by (simp_all add: entry_fits_def example_entry_def edits_on_branch_def compactions_ok_def example_id_def)
  then show ?thesis
    unfolding stored_session_def session_ok_flushed
    by (intro build_index_ok(1) [of _ example_header "[example_entry]"]) (simp_all add: stored_entries_def)
qed

lemma example_writable: "list_all (writable (ho_canon example_host) example_fr) [HeaderF example_header, EntryF example_entry]"
proof -
  have "list_all (\<lambda>f. case to_wire example_fr f of None \<Rightarrow> False | Some d \<Rightarrow> json_plain (ho_canon example_host) (JObj d))
      [HeaderF example_header, EntryF example_entry]" by code_simp
  then show ?thesis by (simp add: writable_def) (simp add: example_entry_def)
qed


theorem torn_write_loses_its_entry_only_witness:
  "\<exists>s1 d1. start_session example_host (example_env 5) example_line None None (lit ''f'') (stored_disk (lit ''{'')) = Some (s1, d1, Inr ()) \<and>
    ss_entries s1 = stored_entries"
proof -
  have w: "list_all (writable (ho_canon example_host) example_fr) stored_entries" "writable (ho_canon example_host) example_fr (EntryF example_entry)"
    using example_writable by (simp_all add: stored_entries_def)
  have "scan_value (ho_canon example_host) 4 (lit ''{'') = None" by code_simp
  then have torn: "parse_session_entry_line (ho_canon example_host) (lit ''{'') = None"
    by (simp add: parse_session_entry_line_def json_loads_def lit_def is_ws_def)
  have "stored_entries = HeaderF example_header # map EntryF [example_entry]" by (simp add: stored_entries_def)
  moreover have "hdr_version example_header = CURRENT_SESSION_VERSION" "hdr_id example_header \<noteq> []" "lit ''f'' \<noteq> []"
    "ho_resolve example_host (lit ''f'') = lit ''f''" "lit ''{'' \<noteq> []" "NL \<notin> set (lit ''{'')" "\<not> dk_fails (stored_disk (lit ''{''))"
    "dict_get (dk_files (stored_disk (lit ''{''))) (lit ''f'') = Some (file_text example_line stored_entries @ lit ''{'')"
    by (simp_all add: example_header_def CURRENT_SESSION_VERSION_def example_host_def lit_def stored_disk_def)
  ultimately show ?thesis
    using torn_write_loses_its_entry_only [OF example_host_ok w(1), of example_header "[example_entry]" "lit ''f''"
      "stored_disk (lit ''{'')" "lit ''{''" example_entry "example_env 5"] torn w(2) by blast
qed

theorem forks_keep_the_history_witness:
  "\<exists>s d'. fork_from example_host (example_env 0) (example_env 1) example_line (lit ''f'') (lit ''/w'') (lit ''/s'') None (stored_disk []) =
      Some (s, d', Inr ()) \<and> get_entries s = [example_entry]"
proof -
  have w: "list_all (writable (ho_canon example_host) example_fr) stored_entries"
    using example_writable by (simp add: stored_entries_def)
  have h: "hdr_version example_header = CURRENT_SESSION_VERSION" "hdr_id example_header \<noteq> []"
    by (simp_all add: example_header_def CURRENT_SESSION_VERSION_def)
  have fs: "stored_entries = HeaderF example_header # map EntryF [example_entry]" by (simp add: stored_entries_def)
  have read: "readable_file example_host example_fr (lit ''f'') (stored_disk []) example_header
      (HeaderF example_header # map EntryF [example_entry]) (file_text example_line stored_entries)"
    using written_file_holds [OF example_host_ok w] h unfolding readable_file_def fs [symmetric]
    by (auto simp: stored_disk_def fs intro: exI [of _ "[example_entry]"])
  have "\<not> dk_fails (stored_disk [])" "ho_resolve example_host (lit ''f'') = lit ''f''" "lit ''/s'' \<noteq> []" "ev_uuidv7 (example_env 0) \<noteq> []"
    by (simp_all add: stored_disk_def example_host_def example_env_def)
  note a = this
  let ?fork = "session_file_name (lit ''/s'') (ev_now (example_env 0)) (ev_uuidv7 (example_env 0))"
  have "?fork \<noteq> lit ''f''" by code_simp
  moreover from this have "dict_get (dk_files (stored_disk [])) ?fork = None" by (simp add: stored_disk_def)
  moreover have "ho_resolve example_host ?fork = ?fork" by (simp add: example_host_def)
  ultimately show ?thesis
    using forks_keep_the_history [OF example_host_ok read a refl, of "example_env 1" example_line "lit ''/w''" "lit ''g''"]
    by (fastforce simp: get_entries_def)
qed

theorem header_search_agrees_with_loading_witness:
  "read_session_header example_host (file_text example_line [HeaderF example_header]) = HeaderIs (header_to_wire example_header)"
proof -
  let ?b = "file_text example_line [HeaderF example_header]"
  have w: "list_all (writable (ho_canon example_host) example_fr) [HeaderF example_header]" using example_writable by simp
  have codec: "float_codec example_fr (ho_float example_host)" using example_host_ok by (simp add: host_ok_def)
  have lines: "lines_of example_host ?b = [header_to_wire example_header]"
    using written_file_holds(1) [OF example_host_ok w] by (simp add: holds_entries_def)
  have "split_on NL ?b = [example_line (HeaderF example_header), []]" using file_text_lines(1) [OF codec w, of "[]"] by simp
  then have "fst (take_lines [] ?b) = [example_line (HeaderF example_header)]" "snd (take_lines [] ?b) = []"
    using take_lines_whole [of ?b] by (cases "fst (take_lines [] ?b)"; simp)+
  then have "read_session_header example_host ?b \<noteq> ScanLimit"
    using candidates [of "ho_canon example_host" "fst (take_lines [] ?b)"] lines
    by (simp add: read_session_header_def example_host_def MAX_SESSION_HEADER_SCAN_BYTES_def split_beta scan_end_def header_candidate_def
      List.map_filter_def split: option.splits if_splits)
  with header_search_agrees_with_loading [OF example_host_ok, of ?b] read_whole [OF example_host_ok, of ?b] lines read_header [of example_header]
  show ?thesis by simp
qed

end
