(* ===== verification/Session_Migration.thy ===== *)
theory Session_Migration
  imports Session_Wire_Laws
begin

section \<open>Sessions of older versions\<close>

text \<open>
  The first version of the format had no ids: a session was a list. Its migration is followed entry by
  entry (\<open>migrate_chain\<close>), with the ids drawn so far as the invariant that makes the new ones distinct.
\<close>

subsection \<open>Migrated sessions\<close>

text \<open>Entries of which each names the one before, from \<open>prev\<close> on, and their ids.\<close>

fun chained :: "json \<Rightarrow> wire list \<Rightarrow> bool" where
  "chained prev [] = True"
| "chained prev (e # es) =
     (if is_session e then chained prev es
      else dict_get e (lit ''parentId'') = Some prev \<and>
        (case need as_str e (lit ''id'') of None \<Rightarrow> False | Some i \<Rightarrow> chained (JStr i) es))"

definition wire_ids :: "wire list \<Rightarrow> pystr list" where
  "wire_ids es = List.map_filter (\<lambda>e. if is_session e then None else need as_str e (lit ''id'')) es"

definition migrated_keys :: "pystr list" where
  "migrated_keys = map lit [''version'', ''id'', ''parentId'', ''firstKeptEntryIndex'', ''firstKeptEntryId'']"

definition same_entry :: "wire \<Rightarrow> wire \<Rightarrow> bool" where
  "same_entry e e' \<longleftrightarrow> (\<forall>k. k \<notin> set migrated_keys \<longrightarrow> dict_get e' k = dict_get e k)"

text \<open>The entry at \<open>j\<close>, if a compaction that keeps from an entry not after it on, names that entry.\<close>

definition keeps_from :: "wire list \<Rightarrow> wire \<Rightarrow> nat \<Rightarrow> bool" where
  "keeps_from es e j \<longleftrightarrow>
     (case need as_index e (lit ''firstKeptEntryIndex'') of
        Some k \<Rightarrow> dict_get e (lit ''type'') = Some (JStr (lit ''compaction'')) \<and> 0 \<le> k \<and> k \<le> int j \<and> \<not> is_session (es ! nat k) \<longrightarrow>
          dict_get (es ! j) (lit ''firstKeptEntryId'') = dict_get (es ! nat k) (lit ''id'')
      | None \<Rightarrow> True)"

definition drawn :: "env \<Rightarrow> nat \<Rightarrow> pystr \<Rightarrow> bool" where
  "drawn env n i \<longleftrightarrow> (\<exists>k. i = take 8 (ev_uuid4 env k)) \<or> (\<exists>k<n. i = ev_uuid4 env k)"

lemma generate_id_drawn:
  assumes "draws_ok env {}" "\<And>x. x \<in> set ids \<Longrightarrow> drawn env n x" "generate_id env n ids = (i, m)"
  shows "i \<notin> set ids \<and> drawn env m i \<and> n < m"
proof -
  have len: "length (ev_uuid4 env k) = 36" "length (take 8 (ev_uuid4 env k)) = 8" for k
    using assms(1) by (simp_all add: draws_ok_def)
  have inj: "ev_uuid4 env k = ev_uuid4 env l \<longleftrightarrow> k = l" for k l
    using assms(1) by (auto simp: draws_ok_def inj_def)
  from generate_id_cases [OF assms(3)] show ?thesis
  proof
    assume "n < m \<and> i \<notin> set ids \<and> (\<exists>k. i = take 8 (ev_uuid4 env k))"
    then show ?thesis by (auto simp: drawn_def)
  next
    assume "n < m \<and> (\<exists>k. i = ev_uuid4 env k \<and> n \<le> k \<and> k < m)"
    then obtain k where k: "n < m" "i = ev_uuid4 env k" "n \<le> k" "k < m" by blast
    have "i \<notin> set ids"
    proof
      assume "i \<in> set ids"
      then have "drawn env n i" by (rule assms(2))
      then consider l where "i = take 8 (ev_uuid4 env l)" | l where "l < n" "i = ev_uuid4 env l" by (auto simp: drawn_def)
      then show False
      proof cases
        case 1
        then have "length i = 8" "length i = 36" using len k(2) by metis+
        then show False by simp
      next
        case 2
        with k inj show False by auto
      qed
    qed
    with k show ?thesis by (auto simp: drawn_def)
  qed
qed

lemma drawn_mono: "drawn env n i \<Longrightarrow> n \<le> m \<Longrightarrow> drawn env m i"
  by (auto simp: drawn_def dest: order_less_le_trans)

lemma migrated_keys_not [simp]: "lit ''type'' \<notin> set migrated_keys"
  by (simp add: migrated_keys_def)

lemma same_entry_session: "same_entry e e' \<Longrightarrow> is_session e' = is_session e"
  by (simp add: same_entry_def is_session_def)

lemma same_entry_set [simp]: "same_entry e e' \<Longrightarrow> k \<in> set migrated_keys \<Longrightarrow> same_entry e (dict_set k v e')"
  by (auto simp: same_entry_def dict_simps)

lemma same_entry_pop [simp]: "same_entry e e' \<Longrightarrow> k \<in> set migrated_keys \<Longrightarrow> same_entry e (dict_pop k e')"
  by (auto simp: same_entry_def dict_simps)

lemma same_entry_refl [simp]: "same_entry e e"
  by (simp add: same_entry_def)

lemma first_kept_cases:
  assumes "first_kept_by_id es e = Inr e'"
  shows "same_entry e e' \<and> dict_get e' (lit ''id'') = dict_get e (lit ''id'') \<and> dict_get e' (lit ''parentId'') = dict_get e (lit ''parentId'')"
  using assms
  by (auto simp: first_kept_by_id_def Let_def dict_simps migrated_keys_def split: if_splits option.splits)

lemma first_kept_names:
  assumes "first_kept_by_id (ms @ e # rest) e = Inr e'" "same_entry e0 e"
    "need as_index e (lit ''firstKeptEntryIndex'') = need as_index e0 (lit ''firstKeptEntryIndex'')"
    "\<And>x. x \<in> set ms \<Longrightarrow> x \<noteq> []" "e \<noteq> []"
  shows "keeps_from (ms @ e' # new) e0 (length ms)"
proof (cases "need as_index e0 (lit ''firstKeptEntryIndex'')")
  case None
  then show ?thesis by (simp add: keeps_from_def)
next
  case (Some k)
  have type: "dict_get e (lit ''type'') = dict_get e0 (lit ''type'')" using assms(2) by (simp add: same_entry_def)
  note e' = first_kept_cases [OF assms(1)]
  { assume k: "dict_get e0 (lit ''type'') = Some (JStr (lit ''compaction''))" "0 \<le> k" "k \<le> int (length ms)"
      and no: "\<not> is_session ((ms @ e' # new) ! nat k)"
    let ?t = "(ms @ e # rest) ! nat k"
    have t: "?t \<noteq> []" "\<not> is_session ?t" "dict_get ?t (lit ''id'') = dict_get ((ms @ e' # new) ! nat k) (lit ''id'')"
      using k no assms(4,5) e' same_entry_session [of e e'] by (auto simp: nth_append not_less le_nat_iff split: if_splits)
    with assms(1,3) Some k type have "dict_get e' (lit ''firstKeptEntryId'') = dict_get ((ms @ e' # new) ! nat k) (lit ''id'')"
      by (auto simp: first_kept_by_id_def dict_simps split: option.splits if_splits) }
  with Some show ?thesis by (simp add: keeps_from_def nth_append)
qed

lemma migrate_chain:
  assumes "migrate_v1_to_v2 env n ids prev ms es = Inr out" "draws_ok env {}" "\<And>x. x \<in> set ids \<Longrightarrow> drawn env n x"
    "distinct ids" "\<And>x. x \<in> set ms \<Longrightarrow> x \<noteq> []"
  shows "\<exists>new. out = ms @ new \<and> chained prev new \<and> distinct (ids @ wire_ids new) \<and> list_all2 same_entry es new \<and>
    (\<forall>j < length new. keeps_from out (es ! j) (length ms + j) \<or> is_session (es ! j))"
  using assms
proof (induction env n ids prev ms es rule: migrate_v1_to_v2.induct)
  case (1 env n ids prev ms)
  then show ?case by (simp add: wire_ids_def List.map_filter_def)
next
  case (2 env n ids prev ms e rest)
  show ?case
  proof (cases "is_session e")
    case True
    let ?e = "dict_set (lit ''version'') (JInt 2) e"
    have same: "same_entry e ?e" by (simp add: migrated_keys_def)
    have ne: "?e \<noteq> []" by (metis dict_get_set map_of.simps(1) map_upd_nonempty)
    have "\<exists>new. out = (ms @ [?e]) @ new \<and> chained prev new \<and> distinct (ids @ wire_ids new) \<and> list_all2 same_entry rest new \<and>
        (\<forall>j < length new. keeps_from out (rest ! j) (length (ms @ [?e]) + j) \<or> is_session (rest ! j))"
      by (rule "2.IH"(1) [OF True]) (use "2.prems" True ne ne [symmetric] in auto)
    then obtain new where new: "out = ms @ ?e # new" "chained prev new" "distinct (ids @ wire_ids new)" "list_all2 same_entry rest new"
      "\<forall>j < length new. keeps_from out (rest ! j) (Suc (length ms) + j) \<or> is_session (rest ! j)" by auto
    have "keeps_from out ((e # rest) ! j) (length ms + j) \<or> is_session ((e # rest) ! j)" if "j < length (?e # new)" for j
      using that new(5) True by (cases j) auto
    with new same same_entry_session [OF same] True show ?thesis
      by (intro exI [of _ "?e # new"]) (simp add: wire_ids_def List.map_filter_def)
  next
    case False
    obtain i m where g: "generate_id env n ids = (i, m)" by force
    let ?e1 = "dict_set (lit ''parentId'') prev (dict_set (lit ''id'') (JStr i) e)"
    from "2.prems"(1) False g obtain e2 where e2: "first_kept_by_id (ms @ ?e1 # rest) ?e1 = Inr e2"
      and run: "migrate_v1_to_v2 env m (ids @ [i]) (JStr i) (ms @ [e2]) rest = Inr out"
      by (auto simp: Let_def split: sum.splits)
    from generate_id_drawn [OF "2.prems"(2,3) g] have i: "i \<notin> set ids" "drawn env m i" "n < m" by auto
    have e1: "dict_get ?e1 (lit ''id'') = Some (JStr i)" "dict_get ?e1 (lit ''parentId'') = Some prev" by (simp_all add: dict_simps)
    have same1: "same_entry e ?e1" by (simp add: migrated_keys_def)
    note f = first_kept_cases [OF e2]
    have same: "same_entry e e2" using same1 f by (simp add: same_entry_def)
    have ne: "?e1 \<noteq> []" "e2 \<noteq> []" using e1 f by auto
    have "\<exists>new. out = (ms @ [e2]) @ new \<and> chained (JStr i) new \<and> distinct ((ids @ [i]) @ wire_ids new) \<and> list_all2 same_entry rest new \<and>
        (\<forall>j < length new. keeps_from out (rest ! j) (length (ms @ [e2]) + j) \<or> is_session (rest ! j))"
    proof (rule "2.IH"(2) [OF False g [symmetric] refl refl e2 run "2.prems"(2)])
      show "drawn env m x" if "x \<in> set (ids @ [i])" for x
        using that i "2.prems"(3) drawn_mono [of env n x m] by auto
      show "distinct (ids @ [i])" using "2.prems"(4) i by simp
      show "x \<noteq> []" if "x \<in> set (ms @ [e2])" for x using that "2.prems"(5) ne by auto
    qed
    then obtain new where new: "out = ms @ e2 # new" "chained (JStr i) new" "distinct (ids @ i # wire_ids new)" "list_all2 same_entry rest new"
      "\<forall>j < length new. keeps_from out (rest ! j) (Suc (length ms) + j) \<or> is_session (rest ! j)" by auto
    have kept: "keeps_from out e (length ms)"
      unfolding new(1) by (rule first_kept_names [OF e2 same1 _ "2.prems"(5) ne(1)]) (simp_all add: dict_simps)
    have "keeps_from out ((e # rest) ! j) (length ms + j) \<or> is_session ((e # rest) ! j)" if "j < length (e2 # new)" for j
      using that new(5) kept by (cases j) auto
    with new same same_entry_session [OF same] False f e1 show ?thesis
      by (intro exI [of _ "e2 # new"]) (simp add: wire_ids_def List.map_filter_def)
  qed
qed


lemma rename_keeps:
  "is_session (rename_hook_message e) = is_session e"
  "k \<noteq> lit ''version'' \<Longrightarrow> k \<noteq> lit ''message'' \<Longrightarrow> dict_get (rename_hook_message e) k = dict_get e k"
  by (auto simp: rename_hook_message_def is_session_def dict_simps split: option.split json.split)

lemma rename_chain: "chained prev (map rename_hook_message es) = chained prev es"
  by (induction prev es rule: chained.induct) (auto simp: rename_keeps split: option.split)

lemma rename_ids: "wire_ids (map rename_hook_message es) = wire_ids es"
  by (induction es) (auto simp: wire_ids_def List.map_filter_def rename_keeps)

lemma rename_keeps_from: "j < length es \<Longrightarrow> keeps_from (map rename_hook_message es) e j = keeps_from es e j"
  by (auto simp: keeps_from_def rename_keeps nat_le_iff order_le_less_trans split: option.split)

lemma renamed_version:
  assumes "list_ex is_session es"
  shows "session_version (map rename_hook_message es) = Some (Inr 3)"
proof -
  have "\<exists>x. find is_session (map rename_hook_message es) = Some x \<and> dict_get x (lit ''version'') = Some (JInt 3)"
    using assms
  proof (induction es)
    case (Cons e es)
    show ?case
    proof (cases "is_session e")
      case True
      then have "dict_get (rename_hook_message e) (lit ''version'') = Some (JInt 3)"
        by (simp add: rename_hook_message_def dict_simps)
      with True show ?thesis by (simp add: rename_keeps)
    next
      case False
      with Cons show ?thesis by (simp add: rename_keeps)
    qed
  qed simp
  then show ?thesis by (auto simp: session_version_def)
qed

lemma list_all2_session: "list_all2 same_entry es es' \<Longrightarrow> list_ex is_session es' = list_ex is_session es"
  by (induction rule: list_all2_induct) (auto simp: same_entry_session)


definition example_v1 :: "wire list" where
  "example_v1 = [[(lit ''type'', JStr (lit ''session'')), (lit ''id'', JStr (lit ''s''))],
     [(lit ''type'', JStr (lit ''message''))],
     [(lit ''type'', JStr (lit ''compaction'')), (lit ''firstKeptEntryIndex'', JInt 1)]]"


end
