(* ===== verification/Spec2Isabelle.thy ===== *)
theory Spec2Isabelle
  imports Truncate Transcript Transform Session_Navigation Tool_Loadout Agent_Run Edit_Queue Sse Session_Restart Session_Migration
begin

text \<open>
  Verification of pidrei, a coding agent in Python. The model follows the packages \<open>ai\<close> (messages,
  transcripts, retries, streams), \<open>agent\<close> (the agent loop) and \<open>pidrei\<close> (the coding agent around it)
  under \<open>src/packages\<close>.

  \<^bold>\<open>The parts and how they interact.\<close> A session (\<open>SessionManager\<close>) is a tree of entries with a leaf,
  kept in memory and in a file of JSON lines. The path from the leaf to the root gives the context:
  messages, thinking level and model, cut at the latest compaction and with context edits applied.
  The agent (\<open>Agent\<close>) runs the agent loop on a transcript: a request to the model, its message, the
  tool calls it makes and their results, further turns, steering and follow-up messages. Before a
  request the transcript is brought into the form the model accepts. The session around the agent
  (\<open>AgentSession\<close>) stores what a run ended, retries transient errors, omits a failed attempt,
  compacts when the context is full and summarizes a branch that is left. Tools are called by the
  loop; the edit tool changes files through a queue per file, and outputs are truncated.

  \<^bold>\<open>Theories, in the order of their imports, and the code they model.\<close>
  \<^item> \<open>Prelude\<close>: Python strings as lists of code points, insertion-ordered dicts (\<open>dict_get\<close>,
    \<open>dict_set\<close>, \<open>dict_pop\<close>), results that may be errors, and the collections \<open>pystr_simps\<close> and
    \<open>dict_simps\<close>; the locale of transition systems with an invariant, and reachability.
  \<^item> \<open>Utf8\<close>, \<open>Truncate\<close>: \<open>core/tools/truncate.py\<close>. Head and tail truncation by lines and bytes; the
    laws say that what is kept is the longest prefix or suffix of whole lines within both limits.
  \<^item> \<open>Messages\<close>: \<open>pidrei_ai/types.py\<close>, \<open>utils/text.py\<close>, \<open>utils/usage.py\<close>, \<open>core/messages.py\<close>.
    Content blocks, the messages of every role, \<open>json.dumps\<close>, usage sums, conversion for the model.
  \<^item> \<open>Transcript\<close>: \<open>utils/transcript.py\<close>. System messages are deltas of prompt, sections and tools; the
    locale \<open>delta_log\<close> states the contract of replay and delta and is interpreted for the tools.
  \<^item> \<open>Transform\<close>: \<open>api/transform_messages.py\<close>. Orphaned calls are answered, foreign thinking and images
    removed, ids renamed; the transformation is idempotent.
  \<^item> \<open>Message_Wire\<close>, \<open>Message_Wire_Laws\<close>: \<open>core/message_wire.py\<close>, both ways, with the round trip.
  \<^item> \<open>Session_Entry\<close>, \<open>Session_Manager\<close>, \<open>Session_Branching\<close>, \<open>Session_Example\<close>:
    \<open>core/session_manager.py\<close> in memory and on disk: paths, projection, appends, labels, edits,
    compactions, branches, branched sessions, persistence. \<open>session_ok\<close> is the invariant; the step
    relation \<open>session_step\<close> runs any operation with any environment that draws fresh ids.
  \<^item> \<open>Json_Text\<close>: \<open>json.loads\<close> of the standard library, and that it reads what \<open>json.dumps\<close> wrote.
  \<^item> \<open>Session_Wire\<close>, \<open>Session_Wire_Laws\<close>, \<open>Session_Restart\<close>, \<open>Session_Migration\<close>: the same file's codec,
    chunked loading, header search, repair, migrations, opening and forking. A session is rebuilt from
    its file as it was.
  \<^item> \<open>Patterns\<close>, \<open>Retry\<close>, \<open>Overflow\<close>: \<open>utils/retry.py\<close>, \<open>utils/overflow.py\<close>. The classification of
    failures by the text of their error, the delays, the retry loop.
  \<^item> \<open>Compaction\<close>, \<open>Summaries\<close>: \<open>core/compaction/\<close>. Token estimates, cut points, what is summarized and
    what is kept, the requests for summaries and the checks of their answers.
  \<^item> \<open>Recovery\<close>, \<open>Recovery_Laws\<close>: the part of \<open>core/agent_session.py\<close> between two runs of the agent.
  \<^item> \<open>Session_Navigation\<close>: \<open>navigate_tree\<close> of the same file, which moves the leaf and may leave a summary.
  \<^item> \<open>System_Prompt\<close>: \<open>core/system_prompt.py\<close> and the skills' text of \<open>core/skills.py\<close>. The prompt is a dict of
    sections and a change of it a patch, the second interpretation of \<open>delta_log\<close>.
  \<^item> \<open>Tool_Loadout\<close>: which tools of a session are registered, active or pending (\<open>core/agent_session.py\<close>,
    with the selections of \<open>core/settings_manager.py\<close>, \<open>core/sdk.py\<close> and \<open>core/mcp_servers.py\<close>), as a machine
    with the invariant \<open>loadout_ok\<close>; restoring the loadout of a transcript, and preparing the prompt.
  \<^item> \<open>Agent_Tools\<close>, \<open>Agent_Loop\<close>, \<open>Agent_Respect\<close>, \<open>Agent_Progress\<close>, \<open>Agent_Run\<close>:
    \<open>pidrei_agent/agent_loop.py\<close> and \<open>agent.py\<close>. Tool calls (sequential, and parallel under any schedule),
    turns, the loop, the events it emits, its termination, and the stateful agent with its mailbox.
  \<^item> \<open>Edit_Diff\<close>, \<open>Edit_Laws\<close>, \<open>Mutation_Queue\<close>, \<open>Edit_Queue\<close>: \<open>core/tools/edit_diff.py\<close>, \<open>edit.py\<close> and
    \<open>file_mutation_queue.py\<close>. Matching and replacing, and concurrent edits of one file.
  \<^item> \<open>Sse\<close>: \<open>utils/sse.py\<close>. Decoding an event stream that arrives in pieces.

  \<^bold>\<open>How the code is represented.\<close> Dataclasses and dicts with known keys are records, unions are
  datatypes, raised errors are \<open>Inl\<close> with their text. A handler is a function from the state to the new
  state and its result; a callback, hook, tool or stream of the code is a parameter that acts on an
  abstract world. Costs are the bit patterns of doubles. An operation under a lock is one step; where
  the code awaits between steps (mailbox, parallel tools, the mutation queue, concurrent edits), the
  order is a schedule or a step relation and the laws hold for all of them.

  \<^bold>\<open>Fuel and bounds.\<close> A walk to the root gets one more than the number of entries of the index, which
  every tree needs at most (\<open>reachable_sessions_are_trees\<close>); a walk in a damaged file with a cycle
  does not end in the program and is \<open>None\<close>. The agent loop counts turns; \<open>agent_run_returns\<close> shows
  that with limited work some fuel is enough and more changes nothing. The loop after a run needs at
  most twice the retry limit plus one continuations (\<open>recovery_is_bounded\<close>). The JSON reader gets twice
  the length of the text, enough by \<open>loads_dumps\<close> for everything that was written.

  \<^bold>\<open>Parameters.\<close> The stream of a model, tools, hooks, argument validation, file system access, the
  clock, random ids, ISO dates, Unicode normalization, \<open>repr\<close> of floats and the way reading cuts a file
  are parameters; what a theorem needs of them is among its hypotheses (fresh ids: \<open>draws_ok\<close>; floats:
  \<open>float_codec\<close>; reading a file: \<open>host_ok\<close>), and a witness instantiates them.

  \<^bold>\<open>Not modelled.\<close> Provider adapters and the model registry (translations to remote wire formats and
  generated data), authentication, network transports, the terminal interface, the command line and
  RPC front ends, settings and resource discovery, extensions and their plumbing, MCP and the code mode
  sandbox, HTML export, and the remaining tools (processes and directory walks): they are input and
  output, third-party formats, or configuration whose values are parameters here. Of the session, the
  prompt queue and model switching of \<open>AgentSession\<close> are not modelled, and of the edit
  tool the display diffs.
\<close>

end
